(* ===== verification/Mitum_Prelude.thy ===== *)
theory Mitum_Prelude
  imports Complex_Main "HOL-Library.Word" "HOL-Library.Multiset"
begin

text \<open>
  Shared vocabulary of the development.

  \<^item> Go values: bytes and byte slices, \<open>uint\<close>/\<open>uint64\<close> as \<open>64 word\<close>, \<open>int64\<close> as \<open>int\<close>
    with the wrap-around written out (\<open>i64\<close>), times as nanoseconds, decimal printing.
  \<^item> Go errors: \<open>util.NError\<close> and wrapped \<open>fmt\<close> errors as the datatype \<open>goerr\<close>,
    \<open>errors.Is\<close> as \<open>error_Is\<close> (\<^verbatim>\<open>src/util/error.go\<close>), the package level error values of the program.
  \<^item> Outcomes: a Go call returns a value, returns an error or panics (a nil dereference);
    \<open>seq\<close> is the pattern ``check, return on the first error''.
  \<^item> \<open>isvalid.Check\<close>, \<open>isvalid.CheckFunc\<close> and \<open>util.Checker\<close>, the validation combinators every
    component uses (\<^verbatim>\<open>src/util/isvalid/check.go\<close>, \<^verbatim>\<open>src/util/checker.go\<close>).
  \<^item> Generic lemmas on lists, counting and association lists.
\<close>

named_theorems go_defs \<open>definitions that unfold to the combinators of the prelude\<close>
named_theorems err_defs \<open>the package level error values\<close>

section \<open>Go values\<close>

type_synonym byte = "8 word"
type_synonym bytes = "byte list"
type_synonym u64 = "64 word"
type_synonym gotime = int
type_synonym height = int
type_synonym round = u64

text \<open>\<open>[]byte(s)\<close> of a Go string, one byte per \<open>char\<close>.\<close>

definition string_bytes :: "string \<Rightarrow> bytes" where
  "string_bytes s = map of_char s"

lemma of_char_nat_less: "(of_char c :: nat) < 256"
  by (metis of_char_mod_256 mod_less_divisor zero_less_numeral)

lemma unat_of_char: "unat (of_char c :: byte) = of_char c"
proof -
  have "unat (of_nat (of_char c) :: byte) = of_char c"
    using of_char_nat_less [of c] by (simp add: unat_of_nat)
  then show ?thesis by (simp only: of_nat_of_char)
qed

lemma of_char_byte_inject: "(of_char c :: byte) = of_char d \<longleftrightarrow> c = d"
  by (metis unat_of_char of_char_eq_iff)

lemma string_bytes_inject [simp]: "string_bytes s = string_bytes t \<longleftrightarrow> s = t"
  unfolding string_bytes_def
  by (rule inj_eq) (auto simp: inj_def of_char_byte_inject intro: injI inj_mapI)

lemma length_string_bytes [simp]: "length (string_bytes s) = length s"
  by (simp add: string_bytes_def)

text \<open>Two's complement wrap-around of \<open>int64\<close> arithmetic.\<close>

definition i64 :: "int \<Rightarrow> int" where
  "i64 x = (x + 2 ^ 63) mod 2 ^ 64 - 2 ^ 63"

definition is_i64 :: "int \<Rightarrow> bool" where
  "is_i64 x \<longleftrightarrow> - (2 ^ 63) \<le> x \<and> x < 2 ^ 63"

lemma i64_id: "is_i64 x \<Longrightarrow> i64 x = x"
  by (simp add: i64_def is_i64_def)

lemma is_i64_i64 [simp]: "is_i64 (i64 x)"
  unfolding i64_def is_i64_def using pos_mod_bound [of "2 ^ 64" "x + 2 ^ 63"] pos_mod_sign [of "2 ^ 64" "x + 2 ^ 63"]
  by simp

text \<open>
  Times are nanoseconds since Go's zero time; \<open>Normalize\<close> drops what is below a millisecond
  (\<^verbatim>\<open>src/util/localtime/time.go\<close>).
\<close>

definition time_IsZero :: "gotime \<Rightarrow> bool" where
  "time_IsZero t \<longleftrightarrow> t = 0"

definition time_Normalize :: "gotime \<Rightarrow> gotime" where
  "time_Normalize t = (t div 1000000) * 1000000"

definition time_Equal :: "gotime \<Rightarrow> gotime \<Rightarrow> bool" where
  "time_Equal a b \<longleftrightarrow> time_Normalize a = time_Normalize b"

lemma time_Normalize_idem [simp]: "time_Normalize (time_Normalize t) = time_Normalize t"
  by (simp add: time_Normalize_def)

subsection \<open>Decimal printing and reading\<close>

definition digit :: "nat \<Rightarrow> char" where
  "digit n = char_of (48 + n)"

fun dec_nat :: "nat \<Rightarrow> string" where
  "dec_nat n = (if n < 10 then [digit n] else dec_nat (n div 10) @ [digit (n mod 10)])"

declare dec_nat.simps [simp del]

definition dec_int :: "int \<Rightarrow> string" where
  "dec_int x = (if x < 0 then CHR ''-'' # dec_nat (nat (- x)) else dec_nat (nat x))"

definition is_digit :: "char \<Rightarrow> bool" where
  "is_digit c \<longleftrightarrow> 48 \<le> (of_char c :: nat) \<and> (of_char c :: nat) \<le> 57"

definition digits_val :: "string \<Rightarrow> nat" where
  "digits_val s = foldl (\<lambda>v c. 10 * v + (of_char c - 48)) 0 s"

lemma of_char_digit: "n < 10 \<Longrightarrow> (of_char (digit n) :: nat) = 48 + n"
  by (simp add: digit_def)

lemma is_digit_digit [simp]: "n < 10 \<Longrightarrow> is_digit (digit n)"
  by (simp add: is_digit_def of_char_digit)

lemma dec_nat_digits: "\<forall>c \<in> set (dec_nat n). is_digit c"
proof (induction n rule: dec_nat.induct)
  case (1 n)
  then show ?case by (subst dec_nat.simps) auto
qed

lemma dec_nat_nonempty [simp]: "dec_nat n \<noteq> []"
  by (subst dec_nat.simps) simp

lemma digits_val_dec_nat [simp]: "digits_val (dec_nat n) = n"
proof (induction n rule: dec_nat.induct)
  case (1 n)
  show ?case
  proof (cases "n < 10")
    case True
    then show ?thesis by (subst dec_nat.simps) (simp add: digits_val_def of_char_digit)
  next
    case False
    with 1 have "digits_val (dec_nat (n div 10)) = n div 10" by simp
    with False show ?thesis
      by (subst dec_nat.simps) (simp add: digits_val_def of_char_digit)
  qed
qed

lemma dec_nat_inject [simp]: "dec_nat m = dec_nat n \<longleftrightarrow> m = n"
  by (metis digits_val_dec_nat)

section \<open>Errors\<close>

text \<open>
  \<open>util.NError\<close> carries the identifier of the place that created it, a message and the wrapped
  error; every other error of the program is built by \<open>fmt.Errorf\<close> or \<open>errors.Errorf\<close> and is a
  message with what it wraps (\<open>%w\<close>).
\<close>

datatype goerr = NErr (err_id: string) (err_msg: string) (err_wrapped: "goerr option")
  | FmtErr (err_msg: string) (err_wrapped: "goerr option")

text \<open>
  \<open>NewError\<close> (\<^verbatim>\<open>src/util/error.go\<close>) identifies an error by \<open>fmt.Sprintf("%n:%d", f, f)\<close> of the caller's
  frame: the bare function name and the line, without package or file. A package level
  \<open>var X = util.NewError(...)\<close> runs in the package's \<open>init\<close>.
\<close>

definition NewError :: "string \<Rightarrow> nat \<Rightarrow> string \<Rightarrow> goerr" where
  "NewError fname line msg = NErr (fname @ '':'' @ dec_nat line) msg None"

fun NError_Wrap :: "goerr \<Rightarrow> goerr \<Rightarrow> goerr" where
  "NError_Wrap (NErr i m w) e = NErr i m (Some e)"
| "NError_Wrap (FmtErr m w) e = FmtErr m (Some e)"

fun NError_Errorf :: "goerr \<Rightarrow> string \<Rightarrow> goerr option \<Rightarrow> goerr" where
  "NError_Errorf (NErr i m w) s e = NErr i m (Some (FmtErr s e))"
| "NError_Errorf (FmtErr m w) s e = FmtErr m (Some (FmtErr s e))"

abbreviation Errorf :: "goerr \<Rightarrow> string \<Rightarrow> goerr" where
  "Errorf er s \<equiv> NError_Errorf er s None"

definition plain :: "string \<Rightarrow> goerr" where
  "plain s = FmtErr s None"

fun NError_Call :: "goerr \<Rightarrow> goerr" where
  "NError_Call (NErr i m w) = NErr i m None"
| "NError_Call (FmtErr m w) = FmtErr m None"

text \<open>\<open>NError.Error\<close>: the message, then the wrapped error's text when it is not empty.\<close>

fun error_Error :: "goerr \<Rightarrow> string" where
  "error_Error (NErr i m w) =
     (case w of None \<Rightarrow> m
      | Some e \<Rightarrow> (if length (error_Error e) > 0 then m @ ''; '' @ error_Error e else m))"
| "error_Error (FmtErr m w) = m"

text \<open>
  \<open>errors.Is err target\<close> for the program's targets, which are all \<open>NError\<close>s: identity of the
  identifiers, tried along the chain of wrapped errors (\<open>NError.Is\<close>, \<open>NError.Unwrap\<close>).
\<close>

fun error_Is :: "goerr \<Rightarrow> goerr \<Rightarrow> bool" where
  "error_Is (NErr i m w) t =
     (case t of
        NErr j n v \<Rightarrow> i = j \<or> (case w of None \<Rightarrow> False | Some e \<Rightarrow> error_Is e t)
      | FmtErr n v \<Rightarrow> (case w of None \<Rightarrow> False | Some e \<Rightarrow> error_Is e t))"
| "error_Is (FmtErr m w) t = (case w of None \<Rightarrow> False | Some e \<Rightarrow> error_Is e t)"

lemma error_Is_Wrap [simp]:
  "error_Is (NError_Wrap (NErr i m w) e) (NErr j n v) \<longleftrightarrow> i = j \<or> error_Is e (NErr j n v)"
  by simp

subsection \<open>The package level errors\<close>

definition InvalidError :: goerr where [err_defs]: "InvalidError = NewError ''init'' 5 ''invalid''"
definition TimeoutError :: goerr where [err_defs]: "TimeoutError = NewError ''init'' 11 ''timeout''"
definition StorageError :: goerr where [err_defs]: "StorageError = NewError ''init'' 12 ''storage error''"
definition FSError :: goerr where [err_defs]: "FSError = NewError ''init'' 13 ''fs error''"
definition ConnectionError :: goerr where
  [err_defs]: "ConnectionError = NewError ''init'' 14 ''storage connection error''"
definition IgnoreError :: goerr where [err_defs]: "IgnoreError = NewError ''init'' 12 ''ignore''"
definition NotFoundError :: goerr where [err_defs]: "NotFoundError = NewError ''init'' 13 ''not found''"
definition FoundError :: goerr where [err_defs]: "FoundError = NewError ''init'' 14 ''found''"
definition DuplicatedError :: goerr where
  [err_defs]: "DuplicatedError = NewError ''init'' 15 ''duplicated error''"
definition WrongTypeError :: goerr where [err_defs]: "WrongTypeError = NewError ''init'' 16 ''wrong type''"
definition EmptyError :: goerr where [err_defs]: "EmptyError = NewError ''init'' 17 ''empty''"
definition KnownSealError :: goerr where [err_defs]: "KnownSealError = NewError ''init'' 17 ''seal is known''"
definition SyncByVoteproofError :: goerr where
  [err_defs]: "SyncByVoteproofError = NewError ''init'' 13 ''sync by voteproof''"
definition InvalidKeyError :: goerr where [err_defs]: "InvalidKeyError = NewError ''init'' 8 ''invalid key''"
definition SignatureVerificationFailedError :: goerr where
  [err_defs]: "SignatureVerificationFailedError = NewError ''init'' 9 ''signature verification failed''"
definition valuehash_EmptyHashError :: goerr where
  [err_defs]: "valuehash_EmptyHashError = NewError ''init'' 11 ''empty hash''"
definition InvalidHashError :: goerr where
  [err_defs]: "InvalidHashError = NewError ''init'' 12 ''invalid hash''"

section \<open>Outcomes of a call\<close>

datatype 'a res = Ok (ok_val: 'a) | Err (err_val: goerr) | Panic

definition is_Ok :: "'a res \<Rightarrow> bool" where
  "is_Ok r \<longleftrightarrow> (case r of Ok _ \<Rightarrow> True | _ \<Rightarrow> False)"

fun bind_res :: "'a res \<Rightarrow> ('a \<Rightarrow> 'b res) \<Rightarrow> 'b res" where
  "bind_res (Ok x) f = f x"
| "bind_res (Err e) f = Err e"
| "bind_res Panic f = Panic"

fun map_err :: "(goerr \<Rightarrow> goerr) \<Rightarrow> 'a res \<Rightarrow> 'a res" where
  "map_err f (Ok x) = Ok x"
| "map_err f (Err e) = Err (f e)"
| "map_err f Panic = Panic"

fun seq :: "unit res list \<Rightarrow> unit res" where
  "seq [] = Ok ()"
| "seq (r # rs) = bind_res r (\<lambda>_. seq rs)"

definition fail_if :: "bool \<Rightarrow> goerr \<Rightarrow> unit res" where
  "fail_if b e = (if b then Err e else Ok ())"

lemma bind_res_Ok_iff: "bind_res r f = Ok y \<longleftrightarrow> (\<exists>x. r = Ok x \<and> f x = Ok y)"
  by (cases r) auto

lemma seq_Ok_iff: "seq rs = Ok () \<longleftrightarrow> (\<forall>r \<in> set rs. r = Ok ())"
  by (induction rs) (auto simp: bind_res_Ok_iff)

lemma seq_Ok_cases: "seq rs = Ok u \<longleftrightarrow> (\<forall>r \<in> set rs. r = Ok ())"
  using seq_Ok_iff by simp

lemma fail_if_Ok_iff [simp]: "fail_if b e = Ok u \<longleftrightarrow> \<not> b"
  by (simp add: fail_if_def)

lemma fail_if_not_Panic [simp]: "fail_if b e \<noteq> Panic"
  by (simp add: fail_if_def)

lemma map_err_Ok_iff [simp]: "map_err f r = Ok x \<longleftrightarrow> r = Ok x"
  by (cases r) auto

lemma map_err_Panic_iff [simp]: "map_err f r = Panic \<longleftrightarrow> r = Panic"
  by (cases r) auto

lemma seq_not_Panic: "\<forall>r \<in> set rs. r \<noteq> Panic \<Longrightarrow> seq rs \<noteq> Panic"
proof (induction rs)
  case (Cons r rs)
  then show ?case by (cases r) auto
qed simp

text \<open>Removing keys from an association list.\<close>

lemma map_of_filter_keys: "map_of (filter (\<lambda>kv. fst kv \<notin> S) m) k = (if k \<in> S then None else map_of m k)"
  by (induction m) auto

section \<open>Validation combinators\<close>

text \<open>
  \<open>isvalid.Check\<close>: an element is \<open>None\<close> for a nil interface, otherwise the result of its \<open>IsValid\<close>.
  With \<open>allowNil\<close> the first nil ends the whole check successfully.
\<close>

fun isvalid_Check_from :: "nat \<Rightarrow> bool \<Rightarrow> unit res option list \<Rightarrow> unit res" where
  "isvalid_Check_from i allowNil [] = Ok ()"
| "isvalid_Check_from i allowNil (None # vs) =
     (if allowNil then Ok () else Err (Errorf InvalidError (dec_nat i @ ''th: nil can not be checked'')))"
| "isvalid_Check_from i allowNil (Some r # vs) =
     (case r of Ok _ \<Rightarrow> isvalid_Check_from (Suc i) allowNil vs
      | Err e \<Rightarrow> Err (NError_Wrap InvalidError e) | Panic \<Rightarrow> Panic)"

definition isvalid_Check :: "bool \<Rightarrow> unit res option list \<Rightarrow> unit res" where
  "isvalid_Check allowNil vs = isvalid_Check_from 0 allowNil vs"

fun isvalid_CheckFunc_from :: "nat \<Rightarrow> unit res option list \<Rightarrow> unit res" where
  "isvalid_CheckFunc_from i [] = Ok ()"
| "isvalid_CheckFunc_from i (None # fs) = Err (Errorf InvalidError (dec_nat i @ ''th: nil func''))"
| "isvalid_CheckFunc_from i (Some r # fs) =
     (case r of Ok _ \<Rightarrow> isvalid_CheckFunc_from (Suc i) fs
      | Err e \<Rightarrow> Err (NError_Wrap InvalidError e) | Panic \<Rightarrow> Panic)"

definition isvalid_CheckFunc :: "unit res option list \<Rightarrow> unit res" where
  "isvalid_CheckFunc fs = isvalid_CheckFunc_from 0 fs"

lemma isvalid_Check_from_Ok_iff:
  "isvalid_Check_from i False vs = Ok u \<longleftrightarrow> (\<forall>v \<in> set vs. v = Some (Ok ()))"
  by (induction i False vs rule: isvalid_Check_from.induct) (auto split: res.splits)

lemma isvalid_Check_Ok_iff [simp]:
  "isvalid_Check False vs = Ok u \<longleftrightarrow> (\<forall>v \<in> set vs. v = Some (Ok ()))"
  by (simp add: isvalid_Check_def isvalid_Check_from_Ok_iff)

lemma isvalid_Check_allowNil_Ok:
  "isvalid_Check True [v, w] = Ok u \<longleftrightarrow> v = None \<or> v = Some (Ok ()) \<and> (w = None \<or> w = Some (Ok ()))"
  by (cases v; cases w) (auto simp: isvalid_Check_def split: res.splits)

lemma isvalid_CheckFunc_Ok_iff [simp]:
  "isvalid_CheckFunc fs = Ok u \<longleftrightarrow> (\<forall>f \<in> set fs. f = Some (Ok ()))"
proof -
  have "isvalid_CheckFunc_from i fs = Ok u \<longleftrightarrow> (\<forall>f \<in> set fs. f = Some (Ok ()))" for i
    by (induction i fs rule: isvalid_CheckFunc_from.induct) (auto split: res.splits)
  then show ?thesis by (simp add: isvalid_CheckFunc_def)
qed

text \<open>
  \<open>util.Checker.Check\<close>: a \<open>CheckerFunc\<close> returns (keep, error); an error is returned, \<open>keep = false\<close>
  ends the check successfully. \<open>Checker_run\<close> is the same loop for checkers that write to the store
  they check against.
\<close>

fun Checker_Check :: "bool res list \<Rightarrow> unit res" where
  "Checker_Check [] = Ok ()"
| "Checker_Check (fn # fns) =
     (case fn of Err e \<Rightarrow> Err e | Panic \<Rightarrow> Panic
      | Ok keep \<Rightarrow> (if keep then Checker_Check fns else Ok ()))"

fun Checker_run :: "('s \<Rightarrow> bool res \<times> 's) list \<Rightarrow> 's \<Rightarrow> unit res \<times> 's" where
  "Checker_run [] s = (Ok (), s)"
| "Checker_run (fn # fns) s =
     (case fn s of (Err e, s') \<Rightarrow> (Err e, s') | (Panic, s') \<Rightarrow> (Panic, s')
      | (Ok keep, s') \<Rightarrow> (if keep then Checker_run fns s' else (Ok (), s')))"

lemma Checker_Check_stop:
  "\<forall>r \<in> set pre. r = Ok True \<Longrightarrow> Checker_Check (pre @ Ok False # post) = Ok ()"
  by (induction pre) auto

lemma Checker_Check_all_keep:
  "\<forall>r \<in> set fns. r \<noteq> Ok False \<Longrightarrow> Checker_Check fns = Ok u \<longleftrightarrow> (\<forall>r \<in> set fns. r = Ok True)"
  by (induction fns) (auto split: res.splits)

end
