(* ===== verification/Mitum_Bytes.thy ===== *)
theory Mitum_Bytes
  imports Mitum_Prelude
begin

unbundle bit_operations_syntax

text \<open>
  The byte-level helpers every hash input is built from: little-endian integers
  (\<^verbatim>\<open>src/util/int.go\<close>, \<^verbatim>\<open>src/util/bool.go\<close>) and slice concatenation (\<^verbatim>\<open>src/util/slice.go\<close>). The lemmas show that the
  integer encodings are fixed-width, injective and inverted by their decoders, also on longer
  input, and that decoding fails exactly on short input.
\<close>

section \<open>Little-endian words\<close>

definition le_bytes :: "u64 \<Rightarrow> bytes" where
  "le_bytes w = map (\<lambda>i. ucast (drop_bit (8 * i) w)) [0..<8]"

primrec le_word :: "bytes \<Rightarrow> u64" where
  "le_word [] = 0"
| "le_word (b # bs) = ucast b OR push_bit 8 (le_word bs)"

lemma length_le_bytes [simp]: "length (le_bytes w) = 8"
  by (simp add: le_bytes_def)

lemma bit_le_word:
  "bit (le_word bs) n \<longleftrightarrow> n < 64 \<and> n div 8 < length bs \<and> bit (bs ! (n div 8)) (n mod 8)"
proof (induction bs arbitrary: n)
  case Nil
  then show ?case by simp
next
  case (Cons b bs)
  show ?case
  proof (cases "n < 8")
    case True
    then show ?thesis by (auto simp: bit_or_iff bit_push_bit_iff bit_ucast_iff)
  next
    case False
    then have n: "n div 8 = Suc ((n - 8) div 8)" "n mod 8 = (n - 8) mod 8"
      by (simp_all add: le_div_geq le_mod_geq)
    have b: "\<not> bit b n" using False bit_imp_le_length [of b n] by auto
    show ?thesis
      using False b by (auto simp: n bit_or_iff bit_push_bit_iff bit_ucast_iff Cons.IH)
  qed
qed

lemma le_word_le_bytes [simp]: "le_word (le_bytes w) = w"
proof (rule bit_word_eqI)
  fix n assume n: "n < LENGTH(64)"
  then have "n div 8 < 8" by simp
  then have "le_bytes w ! (n div 8) = ucast (drop_bit (8 * (n div 8)) w)"
    by (simp add: le_bytes_def)
  moreover have "8 * (n div 8) + n mod 8 = n" by simp
  ultimately show "bit (le_word (le_bytes w)) n = bit w n"
    using n \<open>n div 8 < 8\<close> by (simp add: bit_le_word bit_ucast_iff bit_drop_bit_eq)
qed

lemma le_bytes_inject [simp]: "le_bytes v = le_bytes w \<longleftrightarrow> v = w"
  by (metis le_word_le_bytes)

section \<open>Integers to bytes and back\<close>

definition Uint64ToBytes :: "u64 \<Rightarrow> bytes" where
  "Uint64ToBytes i = le_bytes i"

definition UintToBytes :: "u64 \<Rightarrow> bytes" where
  "UintToBytes i = le_bytes i"

definition Int64ToBytes :: "int \<Rightarrow> bytes" where
  "Int64ToBytes i = le_bytes (of_int i)"

definition IntToBytes :: "int \<Rightarrow> bytes" where
  "IntToBytes i = Int64ToBytes i"

definition Uint8ToBytes :: "byte \<Rightarrow> bytes" where
  "Uint8ToBytes i = [i]"

text \<open>\<open>binary.Read\<close> of a fixed-size value of \<open>n\<close> bytes: it needs \<open>n\<close> bytes and ignores the rest.\<close>

definition binary_Read :: "nat \<Rightarrow> bytes \<Rightarrow> bytes res" where
  "binary_Read n b =
     (if b = [] then Err (plain ''EOF'')
      else if length b < n then Err (plain ''unexpected EOF'') else Ok (take n b))"

definition BytesToUint64 :: "bytes \<Rightarrow> u64 res" where
  "BytesToUint64 b = bind_res (binary_Read 8 b) (\<lambda>bs. Ok (le_word bs))"

definition BytesToInt64 :: "bytes \<Rightarrow> int res" where
  "BytesToInt64 b = bind_res (binary_Read 8 b) (\<lambda>bs. Ok (sint (le_word bs)))"

definition BytesToInt :: "bytes \<Rightarrow> int res" where
  "BytesToInt b = bind_res (BytesToInt64 b) (\<lambda>i. Ok i)"

definition BytesToUint8 :: "bytes \<Rightarrow> byte res" where
  "BytesToUint8 b = bind_res (binary_Read 1 b) (\<lambda>bs. Ok (hd bs))"

definition BoolToBytes :: "bool \<Rightarrow> bytes" where
  "BoolToBytes b = IntToBytes (if b then 1 else 0)"

definition BytesToBool :: "bytes \<Rightarrow> bool res" where
  "BytesToBool b = bind_res (BytesToInt b) (\<lambda>i. Ok (i \<noteq> 0))"

lemmas int_bytes_defs = Uint64ToBytes_def UintToBytes_def Int64ToBytes_def IntToBytes_def Uint8ToBytes_def
  BytesToUint64_def BytesToInt64_def BytesToInt_def BytesToUint8_def BoolToBytes_def BytesToBool_def

lemma binary_Read_append: "length b = n \<Longrightarrow> 0 < n \<Longrightarrow> binary_Read n (b @ rest) = Ok b"
  by (auto simp: binary_Read_def)

lemma sint_of_int: "sint (of_int i :: u64) = i64 i"
  by (simp add: int_word_sint i64_def)

lemma sint_of_int_i64: "is_i64 i \<Longrightarrow> sint (of_int i :: u64) = i"
  by (simp only: sint_of_int i64_id)

lemma sint_unat_small: "unat (w :: u64) < 2 ^ 63 \<Longrightarrow> sint w = int (unat w)"
proof -
  assume "unat w < 2 ^ 63"
  then have "int (unat w) < int (2 ^ 63)" by (simp only: of_nat_less_iff)
  then have "int (unat w) < 2 ^ 63" by simp
  then have "is_i64 (int (unat w))" unfolding is_i64_def by linarith
  from sint_of_int_i64 [OF this] show ?thesis by simp
qed

lemma of_int_i64_inject: "is_i64 i \<Longrightarrow> is_i64 j \<Longrightarrow> (of_int i :: u64) = of_int j \<longleftrightarrow> i = j"
  by (metis sint_of_int_i64)

lemma length_Int64ToBytes [simp]: "length (Int64ToBytes i) = 8"
  by (simp add: Int64ToBytes_def)

lemma length_Uint64ToBytes [simp]: "length (Uint64ToBytes r) = 8"
  by (simp add: Uint64ToBytes_def)

lemma Int64ToBytes_inject: "is_i64 i \<Longrightarrow> is_i64 j \<Longrightarrow> Int64ToBytes i = Int64ToBytes j \<longleftrightarrow> i = j"
  by (simp add: Int64ToBytes_def of_int_i64_inject)

lemma Uint64ToBytes_inject [simp]: "Uint64ToBytes r = Uint64ToBytes s \<longleftrightarrow> r = s"
  by (simp add: Uint64ToBytes_def)

lemma binary_Read_is_Ok: "(\<exists>x. bind_res (binary_Read n b) (\<lambda>bs. Ok (f bs)) = Ok x) \<longleftrightarrow> b \<noteq> [] \<and> n \<le> length b"
  by (auto simp: binary_Read_def bind_res_Ok_iff)

section \<open>Slices\<close>

text \<open>\<open>ConcatBytesSlice\<close> allocates the total length and copies slice after slice.\<close>

fun copy_slices :: "bytes \<Rightarrow> nat \<Rightarrow> bytes list \<Rightarrow> bytes" where
  "copy_slices n i [] = n"
| "copy_slices n i (s # ss) =
     (let c = min (length s) (length n - i)
      in copy_slices (take i n @ take c s @ drop (i + c) n) (i + c) ss)"

definition ConcatBytesSlice :: "bytes list \<Rightarrow> bytes" where
  "ConcatBytesSlice sl = copy_slices (replicate (sum_list (map length sl)) 0) 0 sl"

lemma copy_slices_concat:
  "i \<le> length n \<Longrightarrow> length n - i = sum_list (map length ss) \<Longrightarrow>
   copy_slices n i ss = take i n @ concat ss"
proof (induction n i ss rule: copy_slices.induct)
  case (2 n i s ss)
  let ?m = "take i n @ s @ drop (i + length s) n"
  from 2(3) have c: "min (length s) (length n - i) = length s" by simp
  have len: "length ?m = length n" using 2(2,3) by simp
  have "copy_slices ?m (i + length s) ss = take (i + length s) ?m @ concat ss"
    using 2(1) [OF c [symmetric]] 2(2,3) c by (simp add: Let_def)
  also have "take (i + length s) ?m = take i n @ s" using 2(2,3) by simp
  finally show ?case using c by (simp add: Let_def)
qed simp

lemma ConcatBytesSlice_concat [simp]: "ConcatBytesSlice sl = concat sl"
  by (simp add: ConcatBytesSlice_def copy_slices_concat)

fun InStringSlice :: "string \<Rightarrow> string list \<Rightarrow> bool" where
  "InStringSlice n [] = False"
| "InStringSlice n (i # s) = (if n = i then True else InStringSlice n s)"

lemma InStringSlice_iff [simp]: "InStringSlice n s \<longleftrightarrow> n \<in> set s"
  by (induction s) auto

section \<open>Properties\<close>

text \<open>
  Every 64-bit integer of the program survives its byte encoding: \<open>BytesToInt64\<close> and
  \<open>BytesToUint64\<close> return the encoded value, whatever bytes follow the encoding.
\<close>

theorem int_bytes_roundtrip:
  assumes "is_i64 h"
  shows "BytesToInt64 (Int64ToBytes h @ rest) = Ok h \<and> BytesToUint64 (Uint64ToBytes r @ rest) = Ok r"
  using assms
  by (simp add: BytesToInt64_def BytesToUint64_def Int64ToBytes_def Uint64ToBytes_def
      binary_Read_append sint_of_int_i64)

theorem int_bytes_roundtrip_witness:
  "is_i64 (-2) \<and> BytesToInt64 (Int64ToBytes (-2) @ [7]) = Ok (-2) \<and> BytesToUint64 (Uint64ToBytes 258 @ [7]) = Ok 258"
proof -
  have "is_i64 (-2)" by (simp add: is_i64_def)
  from this int_bytes_roundtrip [OF this, of "[7]" 258] show ?thesis by blast
qed

end
