(* ===== verification/Mitum_Lib.thy ===== *)
theory Mitum_Lib
  imports Mitum_Bytes
begin

text \<open>
  What the program calls and does not contain. The record \<open>lib\<close> collects the third-party functions
  (\<open>golang.org/x/mod/semver\<close>, \<open>golang.org/x/crypto/sha3\<close>, \<open>btcutil/base58\<close>, \<open>btcec\<close>, \<open>chainhash\<close>, \<open>btcutil.WIF\<close>):
  every definition that uses one takes the record as an argument, and what a theorem relies on is one of the
  predicates of the section ``Documented behaviour''. \<open>sample_lib\<close> is a concrete instance that satisfies them.
  The text form of a time (\<open>time.Time.String\<close> in UTC, \<^verbatim>\<open>src/util/localtime/time.go\<close> \<open>Time.Bytes\<close>) belongs to
  Go's standard library and is written out.
\<close>

section \<open>Third-party functions\<close>

record lib =
  semver_IsValid :: "string \<Rightarrow> bool"
  semver_Major :: "string \<Rightarrow> string"
  semver_MajorMinor :: "string \<Rightarrow> string"
  semver_Compare :: "string \<Rightarrow> string \<Rightarrow> int"
  sha3_Sum256 :: "bytes \<Rightarrow> bytes"
  sha3_Sum512 :: "bytes \<Rightarrow> bytes"
  base58_Encode :: "bytes \<Rightarrow> string"
  base58_Decode :: "string \<Rightarrow> bytes"
  chainhash_DoubleHashB :: "bytes \<Rightarrow> bytes"
  btcec_ParsePubKey :: "bytes \<Rightarrow> bytes option"
  btcec_ParseSignature :: "bytes \<Rightarrow> goerr option"
  btcec_VerifySignature :: "bytes \<Rightarrow> bytes \<Rightarrow> bytes \<Rightarrow> bool"
  btcec_PubKey :: "bytes \<Rightarrow> bytes"
  btcec_Sign :: "bytes \<Rightarrow> bytes \<Rightarrow> bytes res"
  wif_String :: "bytes \<Rightarrow> string"
  wif_Decode :: "string \<Rightarrow> bytes res"
  sha256_Sum256 :: "bytes \<Rightarrow> bytes"
  math_Log2 :: "u64 \<Rightarrow> u64"

text \<open>
  \<open>sha256_Sum256\<close> is \<open>crypto/sha256.Sum256\<close> and \<open>math_Log2\<close> the floating point expression
  \<open>uint64(math.Log(float64(x)) / math.Log(2))\<close> of \<^verbatim>\<open>src/util/tree/fixedtree.go\<close>: both are of Go's standard library, the
  first is a one-way function and the second has its own assembly on some platforms, so both stay arguments.
\<close>

text \<open>Binary logarithm, rounded down.\<close>

fun flog2 :: "nat \<Rightarrow> nat" where
  "flog2 n = (if n < 2 then 0 else Suc (flog2 (n div 2)))"

declare flog2.simps [simp del]

lemma flog2_bounds: "0 < n \<Longrightarrow> 2 ^ flog2 n \<le> n \<and> n < 2 ^ Suc (flog2 n)"
proof (induction n rule: flog2.induct)
  case (1 n)
  show ?case
  proof (cases "n < 2")
    case True
    with 1(2) show ?thesis by (subst (1 2) flog2.simps) simp
  next
    case False
    with 1 have ih: "2 ^ flog2 (n div 2) \<le> n div 2" "n div 2 < 2 ^ Suc (flog2 (n div 2))" by auto
    from False have "flog2 n = Suc (flog2 (n div 2))" by (subst flog2.simps) simp
    with ih show ?thesis by auto
  qed
qed

lemma flog2_unique:
  assumes "2 ^ k \<le> n" and "n < 2 ^ Suc k" shows "flog2 n = k"
proof -
  have "0 < n" using assms(1) by (metis gr0I le_zero_eq power_not_zero zero_neq_numeral)
  from flog2_bounds [OF this] assms have "(2 :: nat) ^ flog2 n < 2 ^ Suc k" "(2 :: nat) ^ k < 2 ^ Suc (flog2 n)" by linarith+
  then have "flog2 n < Suc k" "k < Suc (flog2 n)" by (simp_all only: power_strict_increasing_iff)
  then show ?thesis by simp
qed

subsection \<open>Documented behaviour\<close>

text \<open>A valid semantic version begins with \<open>v\<close> and the digits of the major version.\<close>

definition semver_shape :: "lib \<Rightarrow> bool" where
  "semver_shape L \<longleftrightarrow>
     (\<forall>v. semver_IsValid L v \<longrightarrow> 2 \<le> length v \<and> v ! 0 = CHR ''v'' \<and> is_digit (v ! 1))"

text \<open>\<open>Compare\<close> is a total preorder on versions.\<close>

definition semver_order :: "lib \<Rightarrow> bool" where
  "semver_order L \<longleftrightarrow>
     (\<forall>a b. semver_Compare L a b > 0 \<longleftrightarrow> semver_Compare L b a < 0) \<and>
     (\<forall>a b c. semver_Compare L a b \<ge> 0 \<longrightarrow> semver_Compare L b c \<ge> 0 \<longrightarrow> semver_Compare L a c \<ge> 0)"

text \<open>Base58 decodes what it encodes.\<close>

definition base58_codec :: "lib \<Rightarrow> bool" where
  "base58_codec L \<longleftrightarrow> (\<forall>b. base58_Decode L (base58_Encode L b) = b)"

text \<open>A digest has its fixed length and is not the all-zero value the program reserves for ``empty''.\<close>

definition sha3_shape :: "lib \<Rightarrow> bool" where
  "sha3_shape L \<longleftrightarrow>
     (\<forall>b. length (sha3_Sum256 L b) = 32 \<and> sha3_Sum256 L b \<noteq> replicate 32 0)"

text \<open>A signature made with a private key parses and verifies under its public key, which parses too.\<close>

definition btcec_signs :: "lib \<Rightarrow> bool" where
  "btcec_signs L \<longleftrightarrow>
     (\<forall>k h s. btcec_Sign L k h = Ok s \<longrightarrow>
        s \<noteq> [] \<and> btcec_ParseSignature L s = None \<and> btcec_VerifySignature L (btcec_PubKey L k) h s)"

text \<open>
  A SHA-256 digest has 32 bytes, and up to \<open>2 ^ 40\<close> the rounding of the two logarithms and of their quotient does not move
  the integer part.
\<close>

definition sha256_shape :: "lib \<Rightarrow> bool" where
  "sha256_shape L \<longleftrightarrow> (\<forall>b. length (sha256_Sum256 L b) = 32)"

definition log2_exact :: "lib \<Rightarrow> bool" where
  "log2_exact L \<longleftrightarrow> (\<forall>x. 0 < unat x \<and> unat x \<le> 2 ^ 40 \<longrightarrow> unat (math_Log2 L x) = flog2 (unat x))"

subsection \<open>A concrete instance\<close>

definition sample_lib :: lib where
  "sample_lib = \<lparr>
     semver_IsValid = (\<lambda>v. 2 \<le> length v \<and> v ! 0 = CHR ''v'' \<and> is_digit (v ! 1)),
     semver_Major = take 2,
     semver_MajorMinor = take 4,
     semver_Compare = (\<lambda>a b. int (digits_val (filter is_digit a)) - int (digits_val (filter is_digit b))),
     sha3_Sum256 = (\<lambda>b. take 31 (b @ replicate 31 0) @ [1]),
     sha3_Sum512 = (\<lambda>b. take 63 (b @ replicate 63 0) @ [1]),
     base58_Encode = map (\<lambda>b. char_of (unat b)),
     base58_Decode = map of_char,
     chainhash_DoubleHashB = (\<lambda>b. b),
     btcec_ParsePubKey = (\<lambda>b. if b = [] then None else Some b),
     btcec_ParseSignature = (\<lambda>s. if s = [] then Some (plain ''malformed signature'') else None),
     btcec_VerifySignature = (\<lambda>k h s. s = 7 # k @ h),
     btcec_PubKey = (\<lambda>k. 2 # k),
     btcec_Sign = (\<lambda>k h. Ok (7 # 2 # k @ h)),
     wif_String = map (\<lambda>b. char_of (unat b)),
     wif_Decode = (\<lambda>s. Ok (map of_char s)),
     sha256_Sum256 = (\<lambda>b. take 32 (rev b @ replicate 32 0)),
     math_Log2 = (\<lambda>x. of_nat (flog2 (unat x))) \<rparr>"

lemma char_of_byte_inverse: "(of_char (char_of (unat (b :: byte)) :: char) :: byte) = b"
proof -
  have "unat b < 256" using unsigned_less [of b, where ?'a = nat] by simp
  then have "(of_char (char_of (unat b) :: char) :: nat) = unat b" by simp
  then show ?thesis by (metis of_nat_of_char of_nat_unat ucast_id)
qed

lemma sample_semver_shape: "semver_shape sample_lib"
  by (simp add: semver_shape_def sample_lib_def)

lemma sample_semver_order: "semver_order sample_lib"
  by (auto simp: semver_order_def sample_lib_def)

lemma sample_base58_codec: "base58_codec sample_lib"
  by (simp add: base58_codec_def sample_lib_def comp_def char_of_byte_inverse)

lemma sample_sha3_shape: "sha3_shape sample_lib"
proof -
  have "take 31 (b @ replicate 31 0) @ [1 :: byte] \<noteq> replicate 32 0" for b
    by (metis append_Nil2 last_replicate last_snoc zero_neq_one zero_neq_numeral)
  then show ?thesis by (auto simp: sha3_shape_def sample_lib_def)
qed

lemma sample_btcec_signs: "btcec_signs sample_lib"
  by (auto simp: btcec_signs_def sample_lib_def)

lemma sample_sha256_shape: "sha256_shape sample_lib"
  by (auto simp: sha256_shape_def sample_lib_def)

lemma sample_log2_exact: "log2_exact sample_lib"
proof -
  have "flog2 (unat x) < 2 ^ 64" if "0 < unat x" for x :: u64
  proof -
    from flog2_bounds [OF that] have "2 ^ flog2 (unat x) \<le> unat x" ..
    moreover have "flog2 (unat x) < 2 ^ flog2 (unat x)" by (rule less_exp)
    ultimately have "flog2 (unat x) < unat x" by linarith
    then show ?thesis using unsigned_less [of x, where ?'a = nat] by simp
  qed
  then show ?thesis by (simp add: log2_exact_def sample_lib_def unat_of_nat)
qed

lemmas sample_laws = sample_sha256_shape sample_log2_exact sample_semver_shape sample_semver_order sample_base58_codec sample_sha3_shape sample_btcec_signs

section \<open>The text form of a time\<close>

text \<open>
  Calendar date of a day count since 1 March of year 0 of the proleptic Gregorian calendar; Go's zero time,
  1 January of year 1, is day 306 of that count.
\<close>

definition civil_date :: "int \<Rightarrow> int \<times> int \<times> int" where
  "civil_date z =
     (let era = z div 146097; doe = z mod 146097;
          yoe = (doe - doe div 1460 + doe div 36524 - doe div 146096) div 365;
          doy = doe - (365 * yoe + yoe div 4 - yoe div 100);
          mp = (5 * doy + 2) div 153;
          d = doy - (153 * mp + 2) div 5 + 1;
          m = (if mp < 10 then mp + 3 else mp - 9)
      in (yoe + era * 400 + (if m \<le> 2 then 1 else 0), m, d))"

definition pad_dec :: "nat \<Rightarrow> int \<Rightarrow> string" where
  "pad_dec w x =
     (let s = dec_nat (nat \<bar>x\<bar>)
      in (if x < 0 then ''-'' else '''') @ replicate (w - length s) (CHR ''0'') @ s)"

text \<open>The fraction \<open>.999999999\<close> of Go's layout drops trailing zeros, and the point when nothing is left.\<close>

definition time_fraction :: "int \<Rightarrow> string" where
  "time_fraction ns =
     (let s = rev (dropWhile (\<lambda>c. c = CHR ''0'') (rev (pad_dec 9 ns)))
      in if s = [] then '''' else CHR ''.'' # s)"

definition time_String :: "gotime \<Rightarrow> string" where
  "time_String t =
     (let secs = t div 1000000000; days = secs div 86400; sod = secs mod 86400;
          (y, m, d) = civil_date (days + 306)
      in pad_dec 4 y @ ''-'' @ pad_dec 2 m @ ''-'' @ pad_dec 2 d @ '' '' @
         pad_dec 2 (sod div 3600) @ '':'' @ pad_dec 2 (sod mod 3600 div 60) @ '':'' @ pad_dec 2 (sod mod 60) @
         time_fraction (t mod 1000000000) @ '' +0000 UTC'')"

definition Time_Bytes :: "gotime \<Rightarrow> bytes" where
  "Time_Bytes t = string_bytes (time_String (time_Normalize t))"

end
