(* ===== verification/Mitum_Hint.thy ===== *)
theory Mitum_Hint
  imports Mitum_Lib
begin

text \<open>
  Hints (\<^verbatim>\<open>src/util/hint\<close>, \<^verbatim>\<open>src/util/version.go\<close>): a typed, versioned tag that every serialised value carries.
  Types and versions (\<open>type.go\<close>, \<open>hint.go\<close>), the registry of known hinters (\<open>set.go\<close>, \<open>map.go\<close>) with its version
  ordering and its look-up cache. The lemmas: printing and parsing are inverse exactly when the type has no
  version mark of its own, the registry keeps its hinters sorted by version, look-ups return what was added.
\<close>

section \<open>Types (\<^verbatim>\<open>type.go\<close>)\<close>

type_synonym hint_type = string

definition minTypeLength :: nat where "minTypeLength = 2"
definition MaxTypeLength :: nat where "MaxTypeLength = 100"

definition is_lower_alnum :: "char \<Rightarrow> bool" where
  "is_lower_alnum c \<longleftrightarrow> is_digit c \<or> (97 \<le> (of_char c :: nat) \<and> (of_char c :: nat) \<le> 122)"

text \<open>The regular expression \<open>^[a-z0-9][a-z0-9\-_\+]*[a-z0-9]$\<close>.\<close>

definition reTypeAllowedChars :: "string \<Rightarrow> bool" where
  "reTypeAllowedChars s \<longleftrightarrow>
     2 \<le> length s \<and> is_lower_alnum (hd s) \<and> is_lower_alnum (last s) \<and>
     (\<forall>c \<in> set (butlast (tl s)). is_lower_alnum c \<or> c \<in> {CHR ''-'', CHR ''_'', CHR ''+''})"

definition Type_IsValid :: "hint_type \<Rightarrow> unit res" where
  "Type_IsValid t =
     (if length t < minTypeLength then Err (Errorf InvalidError ''empty Type'')
      else if length t > MaxTypeLength then Err (Errorf InvalidError ''Type too long'')
      else fail_if (\<not> reTypeAllowedChars t) (Errorf InvalidError ''invalid char found in Type''))"

definition IsValidFixedType :: "hint_type \<Rightarrow> nat \<Rightarrow> unit res" where
  "IsValidFixedType ty typesize =
     fail_if (length ty \<noteq> typesize) (Errorf InvalidError ''invalid Type for Key, %q'')"

definition ParseFixedTypedString :: "string \<Rightarrow> nat \<Rightarrow> (string \<times> hint_type) res" where
  "ParseFixedTypedString s typesize =
     (if length s \<le> typesize then Err (Errorf InvalidError ''invalid string for Key, %q'')
      else let ty = drop (length s - typesize) s
        in bind_res (IsValidFixedType ty typesize) (\<lambda>_. Ok (take (length s - typesize) s, ty)))"

section \<open>Hints (\<^verbatim>\<open>hint.go\<close>)\<close>

definition MaxVersionLength :: nat where "MaxVersionLength = 20"

record hint =
  hint_ty :: hint_type
  hint_v :: string

definition NewHint :: "hint_type \<Rightarrow> string \<Rightarrow> hint" where
  "NewHint ty v = \<lparr>hint_ty = ty, hint_v = v\<rparr>"

text \<open>The leftmost match of \<open>\-v\d+\<close>: the index of its \<open>-\<close>.\<close>

fun regVersion_FindStringIndex :: "string \<Rightarrow> nat option" where
  "regVersion_FindStringIndex (a # b # c # s) =
     (if a = CHR ''-'' \<and> b = CHR ''v'' \<and> is_digit c then Some 0
      else map_option Suc (regVersion_FindStringIndex (b # c # s)))"
| "regVersion_FindStringIndex _ = None"

definition ParseHint :: "string \<Rightarrow> hint res" where
  "ParseHint s =
     (case regVersion_FindStringIndex s of
        None \<Rightarrow> Err (Errorf InvalidError ''invalid Hint format found, %q'')
      | Some l \<Rightarrow> Ok (NewHint (take l s) (drop (l + 1) s)))"

definition Hint_IsZero :: "hint \<Rightarrow> bool" where
  "Hint_IsZero ht \<longleftrightarrow> length (hint_ty ht) < 1 \<or> length (hint_v ht) < 1"

definition Hint_IsValid :: "lib \<Rightarrow> hint \<Rightarrow> unit res" where
  "Hint_IsValid L ht =
     (if Hint_IsZero ht then Err (Errorf InvalidError ''empty hint'')
      else seq [
        map_err (\<lambda>e. FmtErr ''invalid Hint'' (Some e)) (Type_IsValid (hint_ty ht)),
        fail_if (length (hint_v ht) > MaxVersionLength) (Errorf InvalidError ''version too long, %d''),
        fail_if (\<not> semver_IsValid L (hint_v ht)) (Errorf InvalidError ''invalid version, %q'')])"

definition Hint_Equal :: "hint \<Rightarrow> hint \<Rightarrow> bool" where
  "Hint_Equal ht b \<longleftrightarrow> hint_ty ht = hint_ty b \<and> hint_v ht = hint_v b"

definition Hint_IsCompatible :: "lib \<Rightarrow> hint \<Rightarrow> hint \<Rightarrow> unit res" where
  "Hint_IsCompatible L ht target =
     (if hint_ty ht \<noteq> hint_ty target then Err (plain ''type does not match; %q != %q'')
      else if semver_Major L (hint_v ht) \<noteq> semver_Major L (hint_v target)
      then Err (plain ''not compatible; different major version'')
      else if semver_Compare L (semver_MajorMinor L (hint_v ht)) (semver_MajorMinor L (hint_v target)) < 0
      then Err (plain ''not compatible; lower minor version'')
      else Ok ())"

definition Hint_RawString :: "hint \<Rightarrow> string" where
  "Hint_RawString ht = hint_ty ht @ ''-'' @ hint_v ht"

definition Hint_String :: "hint \<Rightarrow> string" where
  "Hint_String ht = (if Hint_IsZero ht then '''' else Hint_RawString ht)"

definition Hint_Bytes :: "hint \<Rightarrow> bytes" where
  "Hint_Bytes ht = string_bytes (Hint_String ht)"

definition Hint_UnmarshalText :: "hint \<Rightarrow> string \<Rightarrow> hint res" where
  "Hint_UnmarshalText ht b = (if length b < 1 then Ok ht else bind_res (ParseHint b) Ok)"

section \<open>Versions (\<^verbatim>\<open>util/version.go\<close>)\<close>

definition InvalidVersionError :: goerr where
  [err_defs]: "InvalidVersionError = NewError ''init'' 10 ''invalid version found''"
definition VersionNotCompatibleError :: goerr where
  [err_defs]: "VersionNotCompatibleError = NewError ''init'' 11 ''versions not compatible''"

definition Version_GO :: "string \<Rightarrow> string" where
  "Version_GO vs = (if vs \<noteq> [] \<and> hd vs = CHR ''v'' then vs else CHR ''v'' # vs)"

definition Version_IsValid :: "lib \<Rightarrow> string \<Rightarrow> unit res" where
  "Version_IsValid L vs = fail_if (\<not> semver_IsValid L (Version_GO vs)) (Errorf InvalidVersionError ''version=%s'')"

definition Version_IsCompatible :: "lib \<Rightarrow> string \<Rightarrow> string \<Rightarrow> unit res" where
  "Version_IsCompatible L vs check =
     (let a = Version_GO vs; b = Version_GO check in seq [
        fail_if (\<not> semver_IsValid L a) (Errorf InvalidVersionError ''version=%s''),
        fail_if (\<not> semver_IsValid L b) (Errorf InvalidVersionError ''version=%s''),
        fail_if (semver_Major L a \<noteq> semver_Major L b) (Errorf VersionNotCompatibleError ''target=%s != check=%s''),
        fail_if (semver_Compare L (semver_MajorMinor L a) (semver_MajorMinor L b) < 0)
          (Errorf VersionNotCompatibleError ''target=%s < check=%s''),
        fail_if (semver_Compare L a b < 0) (Errorf VersionNotCompatibleError ''target=%s < check=%s'')])"

section \<open>The registry (\<^verbatim>\<open>set.go\<close>, \<^verbatim>\<open>map.go\<close>)\<close>

text \<open>
  A \<open>Hinter\<close> is a value with its hint. The look-up cache is \<open>gcache\<close>'s LRU cache: its two operations are the
  arguments \<open>cget\<close> and \<open>cset\<close>; a look-up moves the entry, so \<open>cget\<close> returns the cache too.
\<close>

type_synonym 'v hinter = "hint \<times> 'v"

datatype 'v cached = CHinter "'v hinter" | CError goerr

datatype 'v cache_lookup = Hit "'v cached" | KeyNotFound | Problem goerr

record ('v, 'c) hintset =
  hs_set :: "hint_type \<Rightarrow> 'v hinter list option"
  hs_m :: "string \<Rightarrow> 'v hinter option"
  hs_cache :: 'c

definition NewHintset :: "'c \<Rightarrow> ('v, 'c) hintset" where
  "NewHintset c = \<lparr>hs_set = (\<lambda>_. None), hs_m = (\<lambda>_. None), hs_cache = c\<rparr>"

text \<open>\<open>sort.SliceStable\<close> with the comparison \<open>lt\<close>: insertion keeps the order of equivalent elements.\<close>

fun insert_stable :: "('a \<Rightarrow> 'a \<Rightarrow> bool) \<Rightarrow> 'a \<Rightarrow> 'a list \<Rightarrow> 'a list" where
  "insert_stable lt x [] = [x]"
| "insert_stable lt x (y # ys) = (if lt x y then x # y # ys else y # insert_stable lt x ys)"

definition SliceStable :: "('a \<Rightarrow> 'a \<Rightarrow> bool) \<Rightarrow> 'a list \<Rightarrow> 'a list" where
  "SliceStable lt xs = foldl (\<lambda>acc x. insert_stable lt x acc) [] xs"

definition newer :: "lib \<Rightarrow> 'v hinter \<Rightarrow> 'v hinter \<Rightarrow> bool" where
  "newer L a b \<longleftrightarrow> semver_Compare L (hint_v (fst a)) (hint_v (fst b)) > 0"

definition Hintset_Add :: "lib \<Rightarrow> ('v, 'c) hintset \<Rightarrow> 'v hinter \<Rightarrow> unit res \<times> ('v, 'c) hintset" where
  "Hintset_Add L hs h =
     (let ht = fst h in
      case Hint_IsValid L ht of
        Err e \<Rightarrow> (Err e, hs)
      | Panic \<Rightarrow> (Panic, hs)
      | Ok _ \<Rightarrow>
          if hs_m hs (Hint_RawString ht) \<noteq> None then (Err (Errorf FoundError ''Hint already added: %q''), hs)
          else
            (let m = (hs_m hs)(Hint_RawString ht \<mapsto> h);
                 l = (case hs_set hs (hint_ty ht) of None \<Rightarrow> [] | Some l \<Rightarrow> l) @ [h]
             in (Ok (), hs\<lparr>hs_m := m, hs_set := (hs_set hs)(hint_ty ht \<mapsto> SliceStable (newer L) l)\<rparr>)))"

definition Hintset_Latest :: "('v, 'c) hintset \<Rightarrow> hint_type \<Rightarrow> 'v hinter res" where
  "Hintset_Latest hs ty =
     (case hs_set hs ty of
        None \<Rightarrow> Err (Errorf NotFoundError ''Type, %q not found'')
      | Some [] \<Rightarrow> Panic
      | Some (i # _) \<Rightarrow> Ok i)"

definition Hintset_Get :: "('v, 'c) hintset \<Rightarrow> hint \<Rightarrow> 'v hinter option" where
  "Hintset_Get hs ht = hs_m hs (Hint_RawString ht)"

definition Hintset_Hinters :: "('v, 'c) hintset \<Rightarrow> hint_type \<Rightarrow> 'v hinter list" where
  "Hintset_Hinters hs ty = (case hs_set hs ty of None \<Rightarrow> [] | Some l \<Rightarrow> l)"

definition Hintset_compatible :: "lib \<Rightarrow> ('v, 'c) hintset \<Rightarrow> hint \<Rightarrow> 'v hinter option" where
  "Hintset_compatible L hs ht =
     (case hs_set hs (hint_ty ht) of
        None \<Rightarrow> None
      | Some l \<Rightarrow> List.find (\<lambda>j. Hint_IsCompatible L (fst j) ht = Ok ()) l)"

definition Hintset_Compatible ::
  "lib \<Rightarrow> ('c \<Rightarrow> string \<Rightarrow> 'v cache_lookup \<times> 'c) \<Rightarrow> ('c \<Rightarrow> string \<Rightarrow> 'v cached \<Rightarrow> 'c) \<Rightarrow>
   ('v, 'c) hintset \<Rightarrow> hint \<Rightarrow> 'v hinter res \<times> ('v, 'c) hintset" where
  "Hintset_Compatible L cget cset hs ht =
     (case cget (hs_cache hs) (Hint_RawString ht) of
        (Hit (CHinter h), c) \<Rightarrow> (Ok h, hs\<lparr>hs_cache := c\<rparr>)
      | (Hit (CError _), c) \<Rightarrow> (Err (Errorf NotFoundError ''Hinter not found for %q''), hs\<lparr>hs_cache := c\<rparr>)
      | (Problem e, c) \<Rightarrow> (Err (FmtErr ''Hintset cache problem'' (Some e)), hs\<lparr>hs_cache := c\<rparr>)
      | (KeyNotFound, c) \<Rightarrow>
          if length (hint_v ht) < 1 then
            (case Hintset_Latest hs (hint_ty ht) of
               Err e \<Rightarrow> (Err e, hs\<lparr>hs_cache := cset c (Hint_RawString ht) (CError e)\<rparr>)
             | Panic \<Rightarrow> (Panic, hs\<lparr>hs_cache := c\<rparr>)
             | Ok h \<Rightarrow> (Ok h, hs\<lparr>hs_cache := cset c (Hint_RawString ht) (CHinter h)\<rparr>))
          else
            (case Hintset_compatible L hs ht of
               None \<Rightarrow>
                 (let err = Errorf NotFoundError ''Hinter not found for %q''
                  in (Err err, hs\<lparr>hs_cache := cset c (Hint_RawString ht) (CError err)\<rparr>))
             | Some h \<Rightarrow> (Ok h, hs\<lparr>hs_cache := cset c (Hint_RawString ht) (CHinter h)\<rparr>)))"

text \<open>\<open>GlobalHintset\<close> embeds a \<open>Hintset\<close> and only knows the types announced by \<open>AddType\<close>.\<close>

definition GlobalHintset_Initialize :: "hint_type list \<Rightarrow> ('v, 'c) hintset \<Rightarrow> unit res" where
  "GlobalHintset_Initialize types hs =
     seq (map (\<lambda>ty. fail_if (length (Hintset_Hinters hs ty) < 1) (plain ''empty Type, %q found'')) types)"

definition GlobalHintset_HasType :: "('v, 'c) hintset \<Rightarrow> hint_type \<Rightarrow> bool" where
  "GlobalHintset_HasType hs ty \<longleftrightarrow> hs_set hs ty \<noteq> None"

definition GlobalHintset_AddType :: "('v, 'c) hintset \<Rightarrow> hint_type \<Rightarrow> unit res \<times> ('v, 'c) hintset" where
  "GlobalHintset_AddType hs ty =
     (if hs_set hs ty \<noteq> None then (Err (Errorf FoundError ''already added type, %q''), hs)
      else (Ok (), hs\<lparr>hs_set := (hs_set hs)(ty \<mapsto> [])\<rparr>))"

definition GlobalHintset_Add :: "lib \<Rightarrow> ('v, 'c) hintset \<Rightarrow> 'v hinter \<Rightarrow> unit res \<times> ('v, 'c) hintset" where
  "GlobalHintset_Add L hs h =
     (if hs_set hs (hint_ty (fst h)) = None then (Err (Errorf NotFoundError ''unknown type, %q''), hs)
      else Hintset_Add L hs h)"

text \<open>\<open>Hintmap\<close> keeps a value per registered hinter.\<close>

record ('v, 'c, 'i) hintmap =
  hm_hs :: "('v, 'c) hintset"
  hm_m :: "string \<Rightarrow> 'i option"

definition Hintmap_Add :: "lib \<Rightarrow> ('v, 'c, 'i) hintmap \<Rightarrow> 'v hinter \<Rightarrow> 'i \<Rightarrow> unit res \<times> ('v, 'c, 'i) hintmap" where
  "Hintmap_Add L hm h i =
     (case Hintset_Add L (hm_hs hm) h of
        (Ok _, hs) \<Rightarrow> (Ok (), hm\<lparr>hm_hs := hs, hm_m := (hm_m hm)(Hint_RawString (fst h) \<mapsto> i)\<rparr>)
      | (r, hs) \<Rightarrow> (r, hm\<lparr>hm_hs := hs\<rparr>))"

definition Hintmap_CompatibleByHint ::
  "lib \<Rightarrow> ('c \<Rightarrow> string \<Rightarrow> 'v cache_lookup \<times> 'c) \<Rightarrow> ('c \<Rightarrow> string \<Rightarrow> 'v cached \<Rightarrow> 'c) \<Rightarrow>
   ('v, 'c, 'i) hintmap \<Rightarrow> hint \<Rightarrow> 'i option res \<times> ('v, 'c, 'i) hintmap" where
  "Hintmap_CompatibleByHint L cget cset hm ht =
     (case Hintset_Compatible L cget cset (hm_hs hm) ht of
        (r, hs) \<Rightarrow> (bind_res r (\<lambda>h. Ok (hm_m hm (Hint_RawString (fst h)))), hm\<lparr>hm_hs := hs\<rparr>))"

section \<open>Lemmas\<close>

lemma digit_not_dash: "\<not> is_digit (CHR ''-'')" "\<not> is_digit (CHR ''v'')"
  by (simp_all add: is_digit_def)

lemma find_version_append:
  assumes "regVersion_FindStringIndex ty = None" and "is_digit d"
  shows "regVersion_FindStringIndex (ty @ CHR ''-'' # CHR ''v'' # d # s) = Some (length ty)"
  using assms
proof (induction ty rule: regVersion_FindStringIndex.induct)
  case (1 a b c s')
  then show ?case by (auto split: if_splits)
qed (auto simp: digit_not_dash)

lemma find_version_prefix:
  "regVersion_FindStringIndex ty = Some i \<Longrightarrow> regVersion_FindStringIndex (ty @ s) = Some i \<and> i < length ty"
proof (induction ty arbitrary: i rule: regVersion_FindStringIndex.induct)
  case (1 a b c s')
  then show ?case by (auto split: if_splits)
qed simp_all

lemma Hint_IsValid_parts:
  assumes "Hint_IsValid L ht = Ok ()"
  shows "hint_ty ht \<noteq> []" "hint_v ht \<noteq> []" "Type_IsValid (hint_ty ht) = Ok ()" "semver_IsValid L (hint_v ht)"
    "length (hint_v ht) \<le> MaxVersionLength"
  using assms unfolding Hint_IsValid_def seq_Ok_iff
  by (auto simp: Hint_IsZero_def seq_Ok_iff bind_res_Ok_iff split: if_splits)

lemma version_shape:
  assumes "semver_shape L" and "semver_IsValid L v"
  obtains d s where "v = CHR ''v'' # d # s" "is_digit d"
proof -
  from assms have l: "2 \<le> length v" and v: "v ! 0 = CHR ''v''" "is_digit (v ! 1)"
    by (auto simp: semver_shape_def)
  then obtain a d s where "v = a # d # s"
    by (metis Suc_le_length_iff numeral_2_eq_2)
  with v that show thesis by simp
qed

text \<open>
  C24: a valid hint is recovered from its text exactly when its type carries no version mark: \<open>ParseHint\<close> splits at the
  first \<open>-v<digit>\<close>, so a valid type such as \<open>a-v1b\<close> is cut short.
\<close>

theorem hint_text_roundtrip:
  assumes "semver_shape L" and "Hint_IsValid L ht = Ok ()"
  shows "ParseHint (Hint_String ht) = Ok ht \<longleftrightarrow> regVersion_FindStringIndex (hint_ty ht) = None"
proof -
  note p = Hint_IsValid_parts [OF assms(2)]
  obtain d s where v: "hint_v ht = CHR ''v'' # d # s" "is_digit d"
    using version_shape [OF assms(1) p(4)] .
  have str: "Hint_String ht = hint_ty ht @ CHR ''-'' # hint_v ht"
    using p by (simp add: Hint_String_def Hint_IsZero_def Hint_RawString_def)
  show ?thesis
  proof (cases "regVersion_FindStringIndex (hint_ty ht)")
    case None
    have "regVersion_FindStringIndex (Hint_String ht) = Some (length (hint_ty ht))"
      unfolding str v(1) by (rule find_version_append [OF None v(2)])
    then show ?thesis using None by (simp add: ParseHint_def str NewHint_def)
  next
    case (Some i)
    note f = find_version_prefix [OF Some, of "CHR ''-'' # hint_v ht"]
    have "ParseHint (Hint_String ht) = Ok (NewHint (take i (Hint_String ht)) (drop (i + 1) (Hint_String ht)))"
      using f by (simp add: ParseHint_def str)
    moreover have "length (take i (Hint_String ht)) < length (hint_ty ht)" using f by (simp add: str)
    ultimately have "ParseHint (Hint_String ht) \<noteq> Ok ht" by (metis NewHint_def hint.select_convs(1) less_irrefl res.inject(1))
    then show ?thesis using Some by simp
  qed
qed

theorem hint_text_roundtrip_witness:
  "ParseHint (Hint_String (NewHint ''voteproof'' ''v0.0.1'')) = Ok (NewHint ''voteproof'' ''v0.0.1'')
   \<and> ParseHint (Hint_String (NewHint ''a-v1b'' ''v0.0.1'')) \<noteq> Ok (NewHint ''a-v1b'' ''v0.0.1'')"
proof -
  have a: "Hint_IsValid sample_lib (NewHint ''voteproof'' ''v0.0.1'') = Ok ()"
    and b: "Hint_IsValid sample_lib (NewHint ''a-v1b'' ''v0.0.1'') = Ok ()"
    and c: "regVersion_FindStringIndex ''voteproof'' = None"
    and d: "regVersion_FindStringIndex ''a-v1b'' \<noteq> None" by code_simp+
  from hint_text_roundtrip [OF sample_semver_shape a] hint_text_roundtrip [OF sample_semver_shape b] c d
  show ?thesis by (simp add: NewHint_def)
qed

subsection \<open>The registry keeps its hinters sorted by version\<close>

definition not_older :: "lib \<Rightarrow> 'v hinter \<Rightarrow> 'v hinter \<Rightarrow> bool" where
  "not_older L a b \<longleftrightarrow> semver_Compare L (hint_v (fst a)) (hint_v (fst b)) \<ge> 0"

lemma newer_not_older:
  assumes "semver_order L"
  shows "newer L a b \<Longrightarrow> not_older L a b" and "\<not> newer L a b \<longleftrightarrow> not_older L b a"
    and "not_older L a b \<Longrightarrow> not_older L b c \<Longrightarrow> not_older L a c"
proof -
  have sym: "semver_Compare L x y > 0 \<longleftrightarrow> semver_Compare L y x < 0" for x y
    using assms by (simp add: semver_order_def)
  show "newer L a b \<Longrightarrow> not_older L a b" by (simp add: newer_def not_older_def)
  show "\<not> newer L a b \<longleftrightarrow> not_older L b a" by (simp add: newer_def not_older_def sym not_less)
  show "not_older L a b \<Longrightarrow> not_older L b c \<Longrightarrow> not_older L a c"
    using assms unfolding newer_def not_older_def semver_order_def by blast
qed

lemma set_insert_stable [simp]: "set (insert_stable lt x ys) = insert x (set ys)"
  by (induction ys) auto

lemma insert_stable_sorted:
  assumes "semver_order L" and "sorted_wrt (not_older L) ys"
  shows "sorted_wrt (not_older L) (insert_stable (newer L) x ys)"
  using assms(2)
proof (induction ys)
  case (Cons y ys)
  show ?case
  proof (cases "newer L x y")
    case True
    then have xy: "not_older L x y" by (rule newer_not_older(1) [OF assms(1)])
    have "not_older L x z" if "z \<in> set ys" for z
      using newer_not_older(3) [OF assms(1) xy] Cons.prems that by simp
    then show ?thesis using True xy Cons.prems by simp
  next
    case False
    then show ?thesis using Cons newer_not_older(2) [OF assms(1), of x y] by auto
  qed
qed simp

lemma insert_stable_end: "\<forall>y \<in> set ys. \<not> lt x y \<Longrightarrow> insert_stable lt x ys = ys @ [x]"
  by (induction ys) auto

lemma SliceStable_sorted:
  assumes "semver_order L" and "sorted_wrt (not_older L) ys"
  shows "SliceStable (newer L) (ys @ [x]) = insert_stable (newer L) x ys"
proof -
  have "foldl (\<lambda>acc x. insert_stable (newer L) x acc) [] ys = ys"
    using assms(2)
  proof (induction ys rule: rev_induct)
    case (snoc y ys)
    then have "\<forall>z \<in> set ys. \<not> newer L y z"
      unfolding newer_not_older(2) [OF assms(1)] by (simp add: sorted_wrt_append)
    with snoc show ?case by (simp add: sorted_wrt_append insert_stable_end)
  qed simp
  then show ?thesis by (simp add: SliceStable_def)
qed

definition hintset_inv :: "lib \<Rightarrow> ('v, 'c) hintset \<Rightarrow> bool" where
  "hintset_inv L hs \<longleftrightarrow>
     (\<forall>ty l. hs_set hs ty = Some l \<longrightarrow> sorted_wrt (not_older L) l \<and>
        (\<forall>h \<in> set l. hint_ty (fst h) = ty \<and> hs_m hs (Hint_RawString (fst h)) = Some h)) \<and>
     (\<forall>k h. hs_m hs k = Some h \<longrightarrow> k = Hint_RawString (fst h) \<and> h \<in> set (Hintset_Hinters hs (hint_ty (fst h))))"

lemma hintset_inv_New: "hintset_inv L (NewHintset c)"
  by (simp add: hintset_inv_def NewHintset_def)

lemma hintset_inv_hinters:
  assumes "hintset_inv L hs"
  shows "sorted_wrt (not_older L) (Hintset_Hinters hs ty)"
    and "h \<in> set (Hintset_Hinters hs ty) \<Longrightarrow> hint_ty (fst h) = ty \<and> hs_m hs (Hint_RawString (fst h)) = Some h"
  using assms by (cases "hs_set hs ty", simp_all add: hintset_inv_def Hintset_Hinters_def)+

lemma Hintset_Add_cases:
  assumes "Hintset_Add L hs h = (r, hs')"
  obtains "r \<noteq> Ok ()" "hs' = hs"
  | "r = Ok ()" "Hint_IsValid L (fst h) = Ok ()" "hs_m hs (Hint_RawString (fst h)) = None"
    "hs' = hs\<lparr>hs_m := (hs_m hs)(Hint_RawString (fst h) \<mapsto> h),
       hs_set := (hs_set hs)(hint_ty (fst h) \<mapsto> SliceStable (newer L) (Hintset_Hinters hs (hint_ty (fst h)) @ [h]))\<rparr>"
proof (cases "Hint_IsValid L (fst h) = Ok () \<and> hs_m hs (Hint_RawString (fst h)) = None")
  case True
  with assms that(2) show thesis by (simp add: Hintset_Add_def Hintset_Hinters_def Let_def)
next
  case False
  with assms have "r \<noteq> Ok () \<and> hs' = hs"
    by (cases "Hint_IsValid L (fst h)") (auto simp: Hintset_Add_def Let_def split: if_splits)
  with that(1) show thesis by blast
qed

lemma Hintset_Add_inv:
  assumes "semver_order L" and "hintset_inv L hs" and "Hintset_Add L hs h = (r, hs')"
  shows "hintset_inv L hs'"
proof (rule Hintset_Add_cases [OF assms(3)])
  assume new: "hs_m hs (Hint_RawString (fst h)) = None"
    and hs': "hs' = hs\<lparr>hs_m := (hs_m hs)(Hint_RawString (fst h) \<mapsto> h),
       hs_set := (hs_set hs)(hint_ty (fst h) \<mapsto> SliceStable (newer L) (Hintset_Hinters hs (hint_ty (fst h)) @ [h]))\<rparr>"
  note H = hintset_inv_hinters [OF assms(2)]
  have s: "SliceStable (newer L) (Hintset_Hinters hs (hint_ty (fst h)) @ [h]) =
      insert_stable (newer L) h (Hintset_Hinters hs (hint_ty (fst h)))"
    by (rule SliceStable_sorted [OF assms(1) H(1)])
  have H': "Hintset_Hinters hs' ty =
      (if ty = hint_ty (fst h) then insert_stable (newer L) h (Hintset_Hinters hs ty) else Hintset_Hinters hs ty)" for ty
    by (simp add: hs' Hintset_Hinters_def s [unfolded Hintset_Hinters_def])
  have m': "hs_m hs' = (hs_m hs)(Hint_RawString (fst h) \<mapsto> h)" by (simp add: hs')
  have old: "hs_m hs' k = Some g" if "hs_m hs k = Some g" for k g using that new m' by auto
  have lists: "sorted_wrt (not_older L) (Hintset_Hinters hs' ty) \<and>
      (\<forall>g \<in> set (Hintset_Hinters hs' ty). hint_ty (fst g) = ty \<and> hs_m hs' (Hint_RawString (fst g)) = Some g)" for ty
    using H(1) [of ty] H(2) [of _ ty] old insert_stable_sorted [OF assms(1) H(1), of h ty]
    by (cases "ty = hint_ty (fst h)") (simp_all add: H' m')
  have keys: "k = Hint_RawString (fst g) \<and> g \<in> set (Hintset_Hinters hs' (hint_ty (fst g)))" if "hs_m hs' k = Some g" for k g
  proof (cases "k = Hint_RawString (fst h)")
    case False
    with that m' have "hs_m hs k = Some g" by simp
    then have "k = Hint_RawString (fst g) \<and> g \<in> set (Hintset_Hinters hs (hint_ty (fst g)))"
      using assms(2) unfolding hintset_inv_def by blast
    then show ?thesis by (cases "hint_ty (fst g) = hint_ty (fst h)") (simp_all add: H')
  qed (use that m' in \<open>simp add: H'\<close>)
  have "hs_set hs' ty = Some l \<Longrightarrow> l = Hintset_Hinters hs' ty" for ty l by (simp add: Hintset_Hinters_def)
  then show ?thesis unfolding hintset_inv_def using lists keys by blast
qed (use assms in simp)

text \<open>
  The hint registry. Starting from an empty one, every \<open>Add\<close> keeps it consistent; a successful \<open>Add\<close> makes the hinter
  retrievable by \<open>Get\<close> and \<open>Latest\<close> returns a hinter whose version no other of its type exceeds; a failed
  \<open>Add\<close> changes nothing.
\<close>

theorem hintset_registry:
  assumes "semver_order L" and "hintset_inv L hs" and "Hintset_Add L hs h = (r, hs')"
  shows "hintset_inv L (NewHintset c) \<and> hintset_inv L hs' \<and>
    (r \<noteq> Ok () \<longrightarrow> hs' = hs) \<and>
    (r = Ok () \<longrightarrow> Hintset_Get hs' (fst h) = Some h \<and>
       (\<exists>top. Hintset_Latest hs' (hint_ty (fst h)) = Ok top \<and> hint_ty (fst top) = hint_ty (fst h) \<and>
          (\<forall>g \<in> set (Hintset_Hinters hs' (hint_ty (fst h))).
             g = top \<or> semver_Compare L (hint_v (fst top)) (hint_v (fst g)) \<ge> 0)))"
proof -
  have inv: "hintset_inv L hs'" by (rule Hintset_Add_inv [OF assms])
  note H = hintset_inv_hinters(2) [OF inv, of _ "hint_ty (fst h)"] and S = hintset_inv_hinters(1) [OF inv, of "hint_ty (fst h)"]
  have ok: "Hintset_Get hs' (fst h) = Some h \<and> hs_set hs' (hint_ty (fst h)) \<noteq> None" if "r = Ok ()"
    by (rule Hintset_Add_cases [OF assms(3)]) (use that in \<open>auto simp: Hintset_Get_def\<close>)
  have top: "\<exists>top. Hintset_Latest hs' (hint_ty (fst h)) = Ok top \<and> hint_ty (fst top) = hint_ty (fst h) \<and>
      (\<forall>g \<in> set (Hintset_Hinters hs' (hint_ty (fst h))).
         g = top \<or> semver_Compare L (hint_v (fst top)) (hint_v (fst g)) \<ge> 0)" if "r = Ok ()"
  proof -
    have "hs_m hs' (Hint_RawString (fst h)) = Some h" using ok [OF that] by (simp add: Hintset_Get_def)
    then have "h \<in> set (Hintset_Hinters hs' (hint_ty (fst h)))" using inv unfolding hintset_inv_def by blast
    then obtain t ts where l: "Hintset_Hinters hs' (hint_ty (fst h)) = t # ts" by (metis list.set_cases)
    with ok [OF that] have "Hintset_Latest hs' (hint_ty (fst h)) = Ok t"
      by (auto simp: Hintset_Latest_def Hintset_Hinters_def)
    then show ?thesis using l S H [of t] by (simp add: not_older_def)
  qed
  have "r \<noteq> Ok () \<longrightarrow> hs' = hs" by (rule Hintset_Add_cases [OF assms(3)]) auto
  then show ?thesis using inv ok top by (simp add: hintset_inv_New)
qed

theorem hintset_registry_witness:
  "\<exists>hs' top. Hintset_Add sample_lib (NewHintset ()) (NewHint ''voteproof'' ''v0.0.1'', True) = (Ok (), hs') \<and>
     Hintset_Get hs' (NewHint ''voteproof'' ''v0.0.1'') = Some (NewHint ''voteproof'' ''v0.0.1'', True) \<and>
     Hintset_Latest hs' ''voteproof'' = Ok top"
proof -
  let ?h = "(NewHint ''voteproof'' ''v0.0.1'', True)"
  obtain r hs' where a: "Hintset_Add sample_lib (NewHintset ()) ?h = (r, hs')" by fastforce
  have v: "Hint_IsValid sample_lib (NewHint ''voteproof'' ''v0.0.1'') = Ok ()" by code_simp
  have "r = Ok ()" using a v by (auto simp: Hintset_Add_def NewHintset_def Let_def)
  with hintset_registry [OF sample_semver_order hintset_inv_New a, of "()"]
  have "Hintset_Get hs' (fst ?h) = Some ?h" "\<exists>top. Hintset_Latest hs' (hint_ty (fst ?h)) = Ok top" by blast+
  with a \<open>r = Ok ()\<close> show ?thesis unfolding fst_conv by (simp add: NewHint_def)
qed

text \<open>
  The look-up cache of the registry is not invalidated by \<open>Add\<close>: with a cache that keeps what it is given, a hint that
  was looked up in vain stays unknown after the very hinter for it has been added, although the registry itself finds it.
\<close>

theorem hintset_stale_miss:
  assumes "cget (hs_cache hs) (Hint_RawString ht) = (KeyNotFound, c)"
    and "\<forall>c k v. cget (cset c k v) k = (Hit v, cset c k v)"
    and "hint_v ht \<noteq> []" and "Hintset_compatible L hs ht = None"
    and "Hintset_Compatible L cget cset hs ht = (r, hs1)" and "Hintset_Add L hs1 (ht, x) = (Ok (), hs2)"
  shows "hs_m hs2 (Hint_RawString ht) = Some (ht, x) \<and>
    fst (Hintset_Compatible L cget cset hs2 ht) = Err (Errorf NotFoundError ''Hinter not found for %q'')"
proof -
  let ?e = "Errorf NotFoundError ''Hinter not found for %q''"
  have hs1: "hs1 = hs\<lparr>hs_cache := cset c (Hint_RawString ht) (CError ?e)\<rparr>"
    using assms(1,3,4,5) by (auto simp: Hintset_Compatible_def Let_def)
  have hs2: "hs_cache hs2 = hs_cache hs1" "hs_m hs2 (Hint_RawString ht) = Some (ht, x)"
    by (rule Hintset_Add_cases [OF assms(6)]; simp)+
  then show ?thesis using assms(2) by (simp add: Hintset_Compatible_def hs1)
qed

definition map_cget :: "(string \<rightharpoonup> 'v cached) \<Rightarrow> string \<Rightarrow> 'v cache_lookup \<times> (string \<rightharpoonup> 'v cached)" where
  "map_cget c k = ((case c k of None \<Rightarrow> KeyNotFound | Some v \<Rightarrow> Hit v), c)"

definition map_cset :: "(string \<rightharpoonup> 'v cached) \<Rightarrow> string \<Rightarrow> 'v cached \<Rightarrow> (string \<rightharpoonup> 'v cached)" where
  "map_cset c k v = c(k \<mapsto> v)"

theorem hintset_stale_miss_witness:
  "\<exists>hs1 hs2 r. Hintset_Compatible sample_lib map_cget map_cset (NewHintset Map.empty) (NewHint ''ab'' ''v1'') = (r, hs1) \<and>
     Hintset_Add sample_lib hs1 (NewHint ''ab'' ''v1'', True) = (Ok (), hs2) \<and>
     fst (Hintset_Compatible sample_lib map_cget map_cset hs2 (NewHint ''ab'' ''v1'')) =
       Err (Errorf NotFoundError ''Hinter not found for %q'')"
proof -
  let ?ht = "NewHint ''ab'' ''v1''" and ?hs = "NewHintset Map.empty :: (bool, string \<rightharpoonup> bool cached) hintset"
  have v: "Hint_IsValid sample_lib ?ht = Ok ()" by code_simp
  obtain r hs1 where c: "Hintset_Compatible sample_lib map_cget map_cset ?hs ?ht = (r, hs1)" by fastforce
  have n: "hs_m hs1 = Map.empty" using c
    by (auto simp: Hintset_Compatible_def map_cget_def NewHintset_def NewHint_def Hintset_compatible_def Let_def)
  then obtain hs2 where a: "Hintset_Add sample_lib hs1 (?ht, True) = (Ok (), hs2)"
    using v by (simp add: Hintset_Add_def Let_def)
  from hintset_stale_miss [OF _ _ _ _ c a] c a show ?thesis
    by (auto simp: map_cget_def map_cset_def NewHintset_def NewHint_def Hintset_compatible_def)
qed

end
