(* ===== verification/Mitum_Key.thy ===== *)
theory Mitum_Key
  imports Mitum_Hint
begin

text \<open>
  Value hashes (\<^verbatim>\<open>src/util/valuehash\<close>) and keys (\<^verbatim>\<open>src/base/key\<close>). A \<open>valuehash.Hash\<close> is one of its three
  implementations; a public key carries the compressed form of its curve point, \<open>None\<close> for a nil pointer. Signing and
  verifying go through the third-party curve library. The lemmas: printed public keys parse back, and what a private
  key signs its public key verifies.
\<close>

section \<open>Hashes\<close>

datatype hash = HBytes bytes | HL32 bytes | HL64 bytes

definition maxBytesHashSize :: nat where "maxBytesHashSize = 100"

fun Hash_Bytes :: "hash \<Rightarrow> bytes" where
  "Hash_Bytes (HBytes hs) = hs"
| "Hash_Bytes (HL32 h) = h"
| "Hash_Bytes (HL64 h) = h"

definition Bytes_IsEmpty :: "bytes \<Rightarrow> bool" where
  [simp]: "Bytes_IsEmpty hs \<longleftrightarrow> length hs < 1"

definition L32_IsEmpty :: "bytes \<Rightarrow> bool" where
  [simp]: "L32_IsEmpty h \<longleftrightarrow> h = replicate 32 0"

definition L64_IsEmpty :: "bytes \<Rightarrow> bool" where
  [simp]: "L64_IsEmpty h \<longleftrightarrow> h = replicate 64 0"

definition Bytes_IsValid :: "bytes \<Rightarrow> unit res" where
  [simp]: "Bytes_IsValid hs =
     (if Bytes_IsEmpty hs then Err (NError_Wrap InvalidError valuehash_EmptyHashError)
      else if length hs > maxBytesHashSize
      then Err (NError_Wrap InvalidError (Errorf InvalidHashError ''over max: %d > %d'')) else Ok ())"

definition L32_IsValid :: "bytes \<Rightarrow> unit res" where
  [simp]: "L32_IsValid h = fail_if (L32_IsEmpty h) (NError_Wrap InvalidError valuehash_EmptyHashError)"

definition L64_IsValid :: "bytes \<Rightarrow> unit res" where
  [simp]: "L64_IsValid h = fail_if (L64_IsEmpty h) (NError_Wrap InvalidError valuehash_EmptyHashError)"

text \<open>The interface \<open>Hash\<close> dispatches on the dynamic type.\<close>

fun Hash_IsValid :: "hash \<Rightarrow> unit res" where
  "Hash_IsValid (HBytes hs) = Bytes_IsValid hs"
| "Hash_IsValid (HL32 h) = L32_IsValid h"
| "Hash_IsValid (HL64 h) = L64_IsValid h"

definition Hash_String :: "lib \<Rightarrow> hash \<Rightarrow> string" where
  "Hash_String L h = base58_Encode L (Hash_Bytes h)"

definition Hash_Equal :: "hash \<Rightarrow> hash \<Rightarrow> bool" where
  "Hash_Equal h b \<longleftrightarrow> Hash_Bytes h = Hash_Bytes b"

definition NewBytes :: "bytes \<Rightarrow> hash" where
  "NewBytes b = HBytes b"

definition NewBytesFromString :: "lib \<Rightarrow> string \<Rightarrow> hash" where
  "NewBytesFromString L s = NewBytes (base58_Decode L s)"

definition NewSHA256 :: "lib \<Rightarrow> bytes \<Rightarrow> hash" where
  "NewSHA256 L b = HL32 (sha3_Sum256 L b)"

definition NewSHA512 :: "lib \<Rightarrow> bytes \<Rightarrow> hash" where
  "NewSHA512 L b = HL64 (sha3_Sum512 L b)"

lemma Hash_String_inject:
  assumes "base58_codec L"
  shows "Hash_String L a = Hash_String L b \<longleftrightarrow> Hash_Bytes a = Hash_Bytes b"
  using assms by (metis Hash_String_def base58_codec_def)

lemma NewSHA256_valid: "sha3_shape L \<Longrightarrow> Hash_IsValid (NewSHA256 L b) = Ok ()"
  by (simp add: NewSHA256_def sha3_shape_def)

text \<open>\<open>sha_collision\<close>: two different inputs of the digest with the same output.\<close>

definition sha_collision :: "lib \<Rightarrow> bytes \<Rightarrow> bytes \<Rightarrow> bool" where
  "sha_collision L a b \<longleftrightarrow> a \<noteq> b \<and> sha3_Sum256 L a = sha3_Sum256 L b"

section \<open>Keys\<close>

definition BasePrivatekeyType :: hint_type where "BasePrivatekeyType = ''mpr''"
definition BasePrivatekeyHint :: hint where "BasePrivatekeyHint = NewHint BasePrivatekeyType ''v0.0.1''"
definition BasePublickeyType :: hint_type where "BasePublickeyType = ''mpu''"
definition BasePublickeyHint :: hint where "BasePublickeyHint = NewHint BasePublickeyType ''v0.0.1''"

type_synonym signature = "bytes option"

definition Signature_Bytes :: "signature \<Rightarrow> bytes" where
  "Signature_Bytes sg = (case sg of None \<Rightarrow> [] | Some b \<Rightarrow> b)"

definition Signature_String :: "lib \<Rightarrow> signature \<Rightarrow> string" where
  "Signature_String L sg = base58_Encode L (Signature_Bytes sg)"

definition NewSignatureFromString :: "lib \<Rightarrow> string \<Rightarrow> signature" where
  "NewSignatureFromString L s = Some (base58_Decode L s)"

definition Signature_IsValid :: "signature \<Rightarrow> unit res" where
  "Signature_IsValid sg = fail_if (length (Signature_Bytes sg) < 1) (Errorf InvalidError ''empty Signature'')"

definition Signature_Equal :: "signature \<Rightarrow> signature \<Rightarrow> bool" where
  "Signature_Equal sg ns =
     (if length (Signature_Bytes sg) \<noteq> length (Signature_Bytes ns) then False
      else Signature_Bytes sg = Signature_Bytes ns)"

record publickey =
  pub_k :: "bytes option"
  pub_s :: string
  pub_b :: bytes

definition NewBasePublickey :: "lib \<Rightarrow> bytes \<Rightarrow> publickey" where
  "NewBasePublickey L k =
     (let s = base58_Encode L k @ BasePublickeyType in \<lparr>pub_k = Some k, pub_s = s, pub_b = string_bytes s\<rparr>)"

definition LoadBasePublickey :: "lib \<Rightarrow> string \<Rightarrow> publickey res" where
  "LoadBasePublickey L s =
     (case btcec_ParsePubKey L (base58_Decode L s) of
        None \<Rightarrow> Err (NError_Wrap InvalidKeyError (plain ''btcec''))
      | Some k \<Rightarrow> Ok (NewBasePublickey L k))"

definition HasSuffix :: "string \<Rightarrow> string \<Rightarrow> bool" where
  "HasSuffix s t \<longleftrightarrow> length t \<le> length s \<and> drop (length s - length t) s = t"

definition ParseBasePublickey :: "lib \<Rightarrow> string \<Rightarrow> publickey res" where
  "ParseBasePublickey L s =
     (let t = BasePublickeyType in
      if \<not> HasSuffix s t then Err (Errorf InvalidKeyError ''unknown publickey string'')
      else if length s \<le> length t then Err (Errorf InvalidKeyError ''invalid publickey string; too short'')
      else LoadBasePublickey L (take (length s - length t) s))"

definition Publickey_IsValid :: "publickey \<Rightarrow> unit res" where
  "Publickey_IsValid k =
     (if pub_k k = None then Err (Errorf InvalidKeyError ''empty btc PublicKey'')
      else if length (pub_s k) < 1 then Err (Errorf InvalidKeyError ''empty publickey string'')
      else if length (pub_b k) < 1 then Err (Errorf InvalidKeyError ''empty publickey []byte'')
      else Ok ())"

text \<open>Verifying with a nil curve key dereferences it once the signature has parsed.\<close>

definition Publickey_Verify :: "lib \<Rightarrow> publickey \<Rightarrow> bytes \<Rightarrow> signature \<Rightarrow> unit res" where
  "Publickey_Verify L k input sig =
     (case btcec_ParseSignature L (Signature_Bytes sig) of
        Some e \<Rightarrow> Err e
      | None \<Rightarrow>
          (case pub_k k of
             None \<Rightarrow> Panic
           | Some kb \<Rightarrow>
               fail_if (\<not> btcec_VerifySignature L kb (chainhash_DoubleHashB L input) (Signature_Bytes sig))
                 (NError_Call SignatureVerificationFailedError)))"

record privatekey =
  priv_wif :: "bytes option option"
  priv_pub :: publickey
  priv_s :: string
  priv_b :: bytes

definition newBasePrivatekey :: "lib \<Rightarrow> bytes \<Rightarrow> privatekey" where
  "newBasePrivatekey L wif =
     (let s = wif_String L wif @ BasePrivatekeyType; pub = NewBasePublickey L (btcec_PubKey L wif)
      in \<lparr>priv_wif = Some (Some wif), priv_pub = pub, priv_s = s, priv_b = string_bytes s\<rparr>)"

definition LoadBasePrivatekey :: "lib \<Rightarrow> string \<Rightarrow> privatekey res" where
  "LoadBasePrivatekey L s =
     bind_res (map_err (NError_Wrap InvalidKeyError) (wif_Decode L s)) (\<lambda>wif. Ok (newBasePrivatekey L wif))"

definition ParseBasePrivatekey :: "lib \<Rightarrow> string \<Rightarrow> privatekey res" where
  "ParseBasePrivatekey L s =
     (let t = BasePrivatekeyType in
      if \<not> HasSuffix s t then Err (Errorf InvalidKeyError ''unknown privatekey string'')
      else if length s \<le> length t then Err (Errorf InvalidKeyError ''invalid privatekey string; too short'')
      else LoadBasePrivatekey L (take (length s - length t) s))"

definition Privatekey_IsValid :: "privatekey \<Rightarrow> unit res" where
  "Privatekey_IsValid k =
     (if priv_wif k = None then Err (NError_Wrap InvalidError (Errorf InvalidKeyError ''empty btc wif''))
      else if priv_wif k = Some None
      then Err (NError_Wrap InvalidError (Errorf InvalidKeyError ''empty btc wif.PrivKey''))
      else if length (priv_s k) < 1
      then Err (NError_Wrap InvalidError (Errorf InvalidKeyError ''empty privatekey string''))
      else if length (priv_b k) < 1
      then Err (NError_Wrap InvalidError (Errorf InvalidKeyError ''empty privatekey []byte''))
      else Ok ())"

definition Privatekey_Sign :: "lib \<Rightarrow> privatekey \<Rightarrow> bytes \<Rightarrow> signature res" where
  "Privatekey_Sign L k b =
     (case priv_wif k of
        Some (Some w) \<Rightarrow> bind_res (btcec_Sign L w (chainhash_DoubleHashB L b)) (\<lambda>sig. Ok (Some sig))
      | _ \<Rightarrow> Panic)"

text \<open>The interface \<open>Key\<close> has the two implementations; \<open>Equal\<close> compares type, then validity, then text.\<close>

datatype key = KPub publickey | KPriv privatekey

fun Key_Type :: "key \<Rightarrow> hint_type" where
  "Key_Type (KPub _) = hint_ty BasePublickeyHint"
| "Key_Type (KPriv _) = hint_ty BasePrivatekeyHint"

fun Key_IsValid :: "key \<Rightarrow> unit res" where
  "Key_IsValid (KPub k) = Publickey_IsValid k"
| "Key_IsValid (KPriv k) = Privatekey_IsValid k"

fun Key_String :: "key \<Rightarrow> string" where
  "Key_String (KPub k) = pub_s k"
| "Key_String (KPriv k) = priv_s k"

definition Publickey_Equal :: "publickey \<Rightarrow> key option \<Rightarrow> bool" where
  "Publickey_Equal k b =
     (case b of
        None \<Rightarrow> False
      | Some b \<Rightarrow>
          if Key_Type (KPub k) \<noteq> Key_Type b then False
          else if Key_IsValid b \<noteq> Ok () then False else pub_s k = Key_String b)"

definition Privatekey_Equal :: "privatekey \<Rightarrow> key option \<Rightarrow> bool" where
  "Privatekey_Equal k b =
     (case b of
        None \<Rightarrow> False
      | Some b \<Rightarrow>
          if Key_Type (KPriv k) \<noteq> Key_Type b then False
          else if Key_IsValid b \<noteq> Ok () then False else priv_s k = Key_String b)"

section \<open>Lemmas\<close>

lemma HasSuffix_append [simp]: "HasSuffix (s @ t) t"
  by (simp add: HasSuffix_def)

lemma NewBasePublickey_valid [simp]: "Publickey_IsValid (NewBasePublickey L k) = Ok ()"
  by (simp add: Publickey_IsValid_def NewBasePublickey_def Let_def BasePublickeyType_def)

lemma Publickey_Equal_new:
  "Publickey_Equal (NewBasePublickey L k) (Some (KPub (NewBasePublickey L j))) \<longleftrightarrow>
     base58_Encode L k = base58_Encode L j"
  by (auto simp: Publickey_Equal_def) (auto simp: NewBasePublickey_def Let_def)

lemma Sign_Verify:
  assumes "btcec_signs L" and "Privatekey_Sign L k m = Ok sig" and "priv_pub k = NewBasePublickey L (btcec_PubKey L w)"
    and "priv_wif k = Some (Some w)"
  shows "Publickey_Verify L (priv_pub k) m sig = Ok ()" and "Signature_IsValid sig = Ok ()" and "sig \<noteq> None"
proof -
  obtain s where s: "btcec_Sign L w (chainhash_DoubleHashB L m) = Ok s" "sig = Some s"
    using assms(2,4) by (auto simp: Privatekey_Sign_def bind_res_Ok_iff)
  with assms(1) have "s \<noteq> []" "btcec_ParseSignature L s = None"
    "btcec_VerifySignature L (btcec_PubKey L w) (chainhash_DoubleHashB L m) s"
    unfolding btcec_signs_def by blast+
  with s assms(3) show "Publickey_Verify L (priv_pub k) m sig = Ok ()" "Signature_IsValid sig = Ok ()" "sig \<noteq> None"
    by (simp_all add: Publickey_Verify_def Signature_Bytes_def Signature_IsValid_def NewBasePublickey_def Let_def Suc_le_eq)
qed

text \<open>
  Keys survive their text form, and signing matches verifying: a public key parses back from its string when the curve
  library accepts its point, and a message signed with a private key verifies under the key's public part.
\<close>

theorem key_roundtrip_and_signature:
  assumes "base58_codec L" and "btcec_signs L" and "btcec_ParsePubKey L p = Some p" and "base58_Encode L p \<noteq> []"
    and "Privatekey_Sign L (newBasePrivatekey L w) m = Ok sig"
  shows "ParseBasePublickey L (pub_s (NewBasePublickey L p)) = Ok (NewBasePublickey L p) \<and>
    Publickey_Verify L (priv_pub (newBasePrivatekey L w)) m sig = Ok ()"
proof
  show "ParseBasePublickey L (pub_s (NewBasePublickey L p)) = Ok (NewBasePublickey L p)"
    using assms(1,3,4)
    by (auto simp: ParseBasePublickey_def NewBasePublickey_def Let_def LoadBasePublickey_def base58_codec_def)
  show "Publickey_Verify L (priv_pub (newBasePrivatekey L w)) m sig = Ok ()"
    by (rule Sign_Verify(1) [OF assms(2,5)]) (simp_all add: newBasePrivatekey_def Let_def)
qed

theorem key_roundtrip_and_signature_witness:
  "ParseBasePublickey sample_lib (pub_s (NewBasePublickey sample_lib [2, 9])) = Ok (NewBasePublickey sample_lib [2, 9]) \<and>
   Publickey_Verify sample_lib (priv_pub (newBasePrivatekey sample_lib [9])) [1, 2] (Some [7, 2, 9, 1, 2]) = Ok ()"
proof (rule key_roundtrip_and_signature [OF sample_base58_codec sample_btcec_signs])
  show "Privatekey_Sign sample_lib (newBasePrivatekey sample_lib [9]) [1, 2] = Ok (Some [7, 2, 9, 1, 2])" by code_simp
qed (simp_all add: sample_lib_def)

end
