(* ===== verification/Mitum_Address.thy ===== *)
theory Mitum_Address
  imports Mitum_Key "HOL-Library.List_Lexorder" "HOL-Library.Char_ord"
begin

text \<open>
  Node addresses (\<^verbatim>\<open>src/base/address.go\<close>, \<^verbatim>\<open>string_address.go\<close>), nodes and the suffrage: the set of nodes that may vote
  and propose (\<^verbatim>\<open>suffrage.go\<close>, \<^verbatim>\<open>suffrage_fixed.go\<close>). \<open>StringAddress\<close> is the implementation of the interface
  \<open>Address\<close>; a nil interface is \<open>None\<close>. Go maps keyed by \<open>Address\<close> compare the whole struct, \<open>Equal\<close> compares type
  and text; the lemmas show that the two agree on valid addresses with the standard hint.
\<close>

section \<open>Addresses\<close>

definition AddressTypeSize :: nat where "AddressTypeSize = 3"
definition StringAddressType :: hint_type where "StringAddressType = ''sas''"
definition StringAddressHint :: hint where "StringAddressHint = NewHint StringAddressType ''v0.0.1''"
definition MaxAddressSize :: nat where "MaxAddressSize = 100"
definition MinAddressSize :: nat where "MinAddressSize = AddressTypeSize + 3"

record address =
  ad_ht :: hint
  ad_s :: string
  ad_b :: bytes

text \<open>\<open>var b [100]byte; copy(b[:], s)\<close>\<close>

definition address_array :: "string \<Rightarrow> bytes" where
  "address_array s = take 100 (string_bytes s @ replicate 100 0)"

definition NewStringAddressWithHint :: "hint \<Rightarrow> string \<Rightarrow> address" where
  "NewStringAddressWithHint ht s =
     (let i = s @ hint_ty ht in \<lparr>ad_ht = ht, ad_s = i, ad_b = address_array i\<rparr>)"

definition NewStringAddress :: "string \<Rightarrow> address" where
  "NewStringAddress s = NewStringAddressWithHint StringAddressHint s"

definition is_space :: "char \<Rightarrow> bool" where
  "is_space c \<longleftrightarrow> (of_char c :: nat) \<in> {9, 10, 12, 13, 32}"

definition is_alnum :: "char \<Rightarrow> bool" where
  "is_alnum c \<longleftrightarrow> is_lower_alnum c \<or> (65 \<le> (of_char c :: nat) \<and> (of_char c :: nat) \<le> 90)"

text \<open>\<open>^[a-zA-Z0-9][\w\-\.\!\$\*\@]*[a-zA-Z0-9]$\<close>\<close>

definition reStringAddressString :: "string \<Rightarrow> bool" where
  "reStringAddressString p \<longleftrightarrow>
     2 \<le> length p \<and> is_alnum (hd p) \<and> is_alnum (last p) \<and>
     (\<forall>c \<in> set (butlast (tl p)). is_alnum c \<or>
        c \<in> {CHR ''_'', CHR ''-'', CHR ''.'', CHR ''!'', CHR ''$'', CHR ''*'', CHR ''@''})"

definition Address_IsValid :: "lib \<Rightarrow> address \<Rightarrow> unit res" where
  "Address_IsValid L ad = seq [
     Hint_IsValid L (ad_ht ad),
     fail_if (ad_b ad \<noteq> address_array (ad_s ad)) (Errorf InvalidError ''wrong string address''),
     (let l = length (ad_s ad) in
      if l < MinAddressSize then Err (Errorf InvalidError ''too short string address'')
      else if l > MaxAddressSize then Err (Errorf InvalidError ''too long string address'') else Ok ()),
     (let p = take (length (ad_s ad) - AddressTypeSize) (ad_s ad) in seq [
        fail_if (\<exists>c \<in> set p. is_space c) (Errorf InvalidError ''string address string, %q has blank''),
        fail_if (\<not> reStringAddressString p) (Errorf InvalidError ''invalid string address string, %q'')]),
     (if length (hint_ty (ad_ht ad)) \<noteq> AddressTypeSize
      then Err (Errorf InvalidError ''wrong hint of string address'')
      else if drop (length (ad_s ad) - AddressTypeSize) (ad_s ad) \<noteq> hint_ty (ad_ht ad)
      then Err (Errorf InvalidError ''wrong type of string address; %v != %v'') else Ok ())]"

definition MustNewStringAddress :: "lib \<Rightarrow> string \<Rightarrow> address res" where
  "MustNewStringAddress L s =
     (let ad = NewStringAddress s in if Address_IsValid L ad = Ok () then Ok ad else Panic)"

definition ParseStringAddress :: "string \<Rightarrow> address res" where
  "ParseStringAddress s =
     (case ParseFixedTypedString s AddressTypeSize of
        Err e \<Rightarrow> Err e
      | Panic \<Rightarrow> Panic
      | Ok (p, ty) \<Rightarrow>
          if ty \<noteq> StringAddressType then Err (Errorf InvalidError ''wrong hint of string address'')
          else Ok (NewStringAddress p))"

definition Address_SetHint :: "address \<Rightarrow> hint \<Rightarrow> address" where
  "Address_SetHint ad ht =
     (if length (ad_s ad) < MinAddressSize then ad\<lparr>ad_ht := ht\<rparr>
      else NewStringAddressWithHint ht (take (length (ad_s ad) - AddressTypeSize) (ad_s ad)))"

definition Address_Bytes :: "address \<Rightarrow> bytes" where
  "Address_Bytes ad = string_bytes (ad_s ad)"

definition Address_Equal :: "lib \<Rightarrow> address \<Rightarrow> address option \<Rightarrow> bool" where
  "Address_Equal L ad b =
     (case b of
        None \<Rightarrow> False
      | Some b \<Rightarrow>
          if hint_ty (ad_ht ad) \<noteq> hint_ty (ad_ht b) then False
          else if Address_IsValid L b \<noteq> Ok () then False else ad_s ad = ad_s b)"

definition SortAddresses :: "address list \<Rightarrow> address list" where
  "SortAddresses as = sort_key ad_s as"

section \<open>Suffrage\<close>

record acting_suffrage =
  as_height :: height
  as_round :: round
  as_proposer :: address
  as_nodes :: "address set"
  as_nodeList :: "address list"

definition NewActingSuffrage :: "height \<Rightarrow> round \<Rightarrow> address \<Rightarrow> address list \<Rightarrow> acting_suffrage" where
  "NewActingSuffrage h r proposer selected =
     \<lparr>as_height = h, as_round = r, as_proposer = proposer,
      as_nodes = foldl (\<lambda>nodes n. insert n nodes) {} selected, as_nodeList = selected\<rparr>"

definition ActingSuffrage_Exists :: "acting_suffrage \<Rightarrow> address \<Rightarrow> bool" where
  "ActingSuffrage_Exists as node \<longleftrightarrow> node \<in> as_nodes as"

record fixed_suffrage =
  ff_proposer :: address
  ff_nodes :: "address set"
  ff_nodeList :: "address list"

definition NewFixedSuffrage :: "address \<Rightarrow> address list \<Rightarrow> fixed_suffrage" where
  "NewFixedSuffrage proposer nodes = \<lparr>ff_proposer = proposer, ff_nodes = {}, ff_nodeList = nodes\<rparr>"

fun FixedSuffrage_loop :: "address set \<Rightarrow> address list \<Rightarrow> address list \<Rightarrow> address set \<times> address list" where
  "FixedSuffrage_loop ns nodeList [] = (ns, nodeList)"
| "FixedSuffrage_loop ns nodeList (n # rest) =
     (if n \<in> ns then FixedSuffrage_loop ns nodeList rest
      else FixedSuffrage_loop (insert n ns) (nodeList @ [n]) rest)"

definition FixedSuffrage_Initialize :: "fixed_suffrage \<Rightarrow> fixed_suffrage" where
  "FixedSuffrage_Initialize ff =
     (case FixedSuffrage_loop {ff_proposer ff} [ff_proposer ff] (ff_nodeList ff) of
        (ns, nodeList) \<Rightarrow> ff\<lparr>ff_nodes := ns, ff_nodeList := nodeList\<rparr>)"

definition FixedSuffrage_NumberOfActing :: "fixed_suffrage \<Rightarrow> u64" where
  "FixedSuffrage_NumberOfActing ff = 1"

definition FixedSuffrage_IsInside :: "fixed_suffrage \<Rightarrow> address \<Rightarrow> bool" where
  "FixedSuffrage_IsInside ff a \<longleftrightarrow> a \<in> ff_nodes ff"

definition FixedSuffrage_Acting :: "fixed_suffrage \<Rightarrow> height \<Rightarrow> round \<Rightarrow> acting_suffrage res" where
  "FixedSuffrage_Acting ff h r = Ok (NewActingSuffrage h r (ff_proposer ff) (ff_nodeList ff))"

definition FixedSuffrage_IsActing :: "fixed_suffrage \<Rightarrow> height \<Rightarrow> round \<Rightarrow> address \<Rightarrow> bool res" where
  "FixedSuffrage_IsActing ff h r node = Ok (node \<in> ff_nodes ff)"

definition FixedSuffrage_IsProposer :: "lib \<Rightarrow> fixed_suffrage \<Rightarrow> height \<Rightarrow> round \<Rightarrow> address \<Rightarrow> bool res" where
  "FixedSuffrage_IsProposer L ff h r node = Ok (Address_Equal L (ff_proposer ff) (Some node))"

definition FixedSuffrage_Nodes :: "fixed_suffrage \<Rightarrow> address list" where
  "FixedSuffrage_Nodes ff = ff_nodeList ff"

section \<open>Lemmas\<close>

lemma Address_IsValid_parts:
  assumes "Address_IsValid L ad = Ok ()"
  shows "Hint_IsValid L (ad_ht ad) = Ok ()" and "ad_b ad = address_array (ad_s ad)"
    and "MinAddressSize \<le> length (ad_s ad)" and "length (ad_s ad) \<le> MaxAddressSize"
    and "drop (length (ad_s ad) - AddressTypeSize) (ad_s ad) = hint_ty (ad_ht ad)"
  using assms unfolding Address_IsValid_def seq_Ok_iff by (auto simp: Let_def split: if_splits)

lemma Address_Equal_valid:
  assumes "Address_IsValid L a = Ok ()" and "Address_IsValid L b = Ok ()"
  shows "Address_Equal L a (Some b) \<longleftrightarrow> ad_s a = ad_s b"
  using assms Address_IsValid_parts(5) [OF assms(1)] Address_IsValid_parts(5) [OF assms(2)]
  by (auto simp: Address_Equal_def)

lemma Address_Bytes_inject [simp]: "Address_Bytes a = Address_Bytes b \<longleftrightarrow> ad_s a = ad_s b"
  by (simp add: Address_Bytes_def)

lemma FixedSuffrage_loop_spec:
  assumes "distinct l" and "set l = ns" and "FixedSuffrage_loop ns l rest = (ns', l')"
  shows "distinct l' \<and> set l' = ns' \<and> ns' = ns \<union> set rest \<and> (\<exists>m. l' = l @ m)"
  using assms
proof (induction ns l rest arbitrary: ns' l' rule: FixedSuffrage_loop.induct)
  case (2 ns l n rest)
  show ?case
  proof (cases "n \<in> ns")
    case True
    with "2.IH"(1) [of ns' l'] "2.prems" show ?thesis by auto
  next
    case False
    then have "distinct (l @ [n])" "set (l @ [n]) = insert n ns" using "2.prems" by auto
    with False "2.IH"(2) [of ns' l'] "2.prems"(3) show ?thesis by auto
  qed
qed auto

text \<open>
  A valid address with the standard hint parses back from its text, and for valid addresses \<open>Equal\<close>, equality of the
  text and equality of the bytes are the same relation.
\<close>

theorem address_roundtrip:
  assumes "Address_IsValid L a = Ok ()" and "ad_ht a = StringAddressHint" and "Address_IsValid L b = Ok ()"
  shows "ParseStringAddress (ad_s a) = Ok a \<and>
    (Address_Equal L a (Some b) \<longleftrightarrow> ad_s a = ad_s b) \<and> (Address_Bytes a = Address_Bytes b \<longleftrightarrow> ad_s a = ad_s b)"
proof -
  note p = Address_IsValid_parts [OF assms(1)]
  have len: "AddressTypeSize < length (ad_s a)" using p(3) by (simp add: MinAddressSize_def)
  have "take (length (ad_s a) - AddressTypeSize) (ad_s a) @ StringAddressType = ad_s a"
    using p(5) assms(2) append_take_drop_id [of "length (ad_s a) - AddressTypeSize" "ad_s a"]
    by (simp add: StringAddressHint_def NewHint_def)
  then have "ParseStringAddress (ad_s a) = Ok a"
    using len p(2,5) assms(2)
    by (simp add: ParseStringAddress_def ParseFixedTypedString_def IsValidFixedType_def Let_def fail_if_def
        NewStringAddress_def NewStringAddressWithHint_def StringAddressHint_def NewHint_def)
      (simp add: AddressTypeSize_def StringAddressType_def)
  then show ?thesis using Address_Equal_valid [OF assms(1,3)] by simp
qed

theorem address_roundtrip_witness:
  "ParseStringAddress (ad_s (NewStringAddress ''node0'')) = Ok (NewStringAddress ''node0'') \<and>
   (Address_Equal sample_lib (NewStringAddress ''node0'') (Some (NewStringAddress ''node1'')) \<longleftrightarrow> ''node0sas'' = ''node1sas'')"
proof -
  have a: "Address_IsValid sample_lib (NewStringAddress ''node0'') = Ok ()"
    and b: "Address_IsValid sample_lib (NewStringAddress ''node1'') = Ok ()" by code_simp+
  have s: "ad_s (NewStringAddress ''node0'') = ''node0sas''" "ad_s (NewStringAddress ''node1'') = ''node1sas''"
    "ad_ht (NewStringAddress ''node0'') = StringAddressHint" by code_simp+
  from address_roundtrip [OF a s(3) b] show ?thesis unfolding s by blast
qed

text \<open>
  An initialised \<open>FixedSuffrage\<close> lists the proposer first, then the given nodes without repetition; \<open>IsInside\<close>,
  \<open>IsActing\<close>, membership in \<open>Nodes\<close> and membership in the acting suffrage coincide at every height and round.
\<close>

theorem fixed_suffrage_consistent:
  "let ff = FixedSuffrage_Initialize (NewFixedSuffrage p ns) in
     distinct (FixedSuffrage_Nodes ff) \<and> hd (FixedSuffrage_Nodes ff) = p \<and>
     set (FixedSuffrage_Nodes ff) = insert p (set ns) \<and>
     (FixedSuffrage_IsInside ff a \<longleftrightarrow> a \<in> set (FixedSuffrage_Nodes ff)) \<and>
     FixedSuffrage_IsActing ff h r a = Ok (FixedSuffrage_IsInside ff a) \<and>
     (case FixedSuffrage_Acting ff h r of
        Ok as \<Rightarrow> as_proposer as = p \<and> (ActingSuffrage_Exists as a \<longleftrightarrow> FixedSuffrage_IsInside ff a)
      | _ \<Rightarrow> False)"
proof -
  obtain ns' l' where l: "FixedSuffrage_loop {p} [p] ns = (ns', l')" by fastforce
  have *: "distinct l'" "set l' = ns'" "ns' = {p} \<union> set ns" "\<exists>m. l' = [p] @ m"
    using FixedSuffrage_loop_spec [OF _ _ l] by auto
  have "foldl (\<lambda>nodes n. insert n nodes) A xs = A \<union> set xs" for A :: "address set" and xs
    by (induction xs arbitrary: A) auto
  then show ?thesis using *
    by (auto simp: FixedSuffrage_Initialize_def NewFixedSuffrage_def l FixedSuffrage_Nodes_def FixedSuffrage_IsInside_def
        FixedSuffrage_IsActing_def FixedSuffrage_Acting_def NewActingSuffrage_def ActingSuffrage_Exists_def Let_def)
qed

end
