(* ===== verification/Mitum_Double.thy ===== *)
theory Mitum_Double
  imports Mitum_Bytes "HOL-Library.Log_Nat"
begin

text \<open>
  IEEE 754 binary64 arithmetic, as far as the program computes with it: a finite double is the
  rational it denotes, \<open>fl x\<close> is the double nearest to the rational \<open>x\<close> (ties to even), so that a Go
  \<open>a * b\<close> or \<open>a / b\<close> on doubles is \<open>fl (a * b)\<close>, \<open>fl (a / b)\<close>. Range limits (overflow,
  subnormals, NaN) are outside the model: the program's operands lie between \<open>2 ^ -7\<close> and \<open>2 ^ 64\<close>.
  The lemmas give what the threshold computation needs: rounding is exact on integers up to
  \<open>2 ^ 53\<close>, monotone, and has relative error at most \<open>2 ^ -53\<close>.
\<close>

section \<open>Rounding to 53 bits\<close>

definition rnd_even :: "rat \<Rightarrow> int" where
  "rnd_even x =
     (let n = \<lfloor>x\<rfloor>; d = x - of_int n
      in if d < 1 / 2 then n else if 1 / 2 < d then n + 1 else if even n then n else n + 1)"

text \<open>The binary exponent: \<open>2 ^ flog x \<le> x < 2 ^ (flog x + 1)\<close> for positive \<open>x\<close>.\<close>

definition flog :: "rat \<Rightarrow> int" where
  "flog x =
     (let (a, b) = quotient_of x; e = bitlen a - bitlen b in if 2 powi e \<le> x then e else e - 1)"

definition fl_pos :: "rat \<Rightarrow> rat" where
  "fl_pos x = of_int (rnd_even (x * 2 powi (52 - flog x))) * 2 powi (flog x - 52)"

definition fl :: "rat \<Rightarrow> rat" where
  "fl x = (if x = 0 then 0 else if x < 0 then - fl_pos (- x) else fl_pos x)"

lemma rnd_even_bounds: "\<bar>of_int (rnd_even x) - x\<bar> \<le> 1 / 2"
  unfolding rnd_even_def Let_def using of_int_floor_le [of x] floor_correct [of x] by auto

lemma rnd_even_int [simp]: "rnd_even (of_int n) = n"
  by (simp add: rnd_even_def)

lemma rnd_even_mono: "x \<le> y \<Longrightarrow> rnd_even x \<le> rnd_even y"
proof -
  assume xy: "x \<le> y"
  then have f: "\<lfloor>x\<rfloor> \<le> \<lfloor>y\<rfloor>" by (rule floor_mono)
  show ?thesis
  proof (cases "\<lfloor>x\<rfloor> = \<lfloor>y\<rfloor>")
    case True
    then show ?thesis using xy by (auto simp: rnd_even_def Let_def)
  next
    case False
    with f have "\<lfloor>x\<rfloor> + 1 \<le> \<lfloor>y\<rfloor>" by simp
    then show ?thesis by (auto simp: rnd_even_def Let_def)
  qed
qed

lemma powi_bitlen_nat:
  assumes "0 < a"
  shows "(2::rat) powi (bitlen a - 1) \<le> of_int a" "of_int a < (2::rat) powi (bitlen a)"
proof -
  have pos: "0 < bitlen a" using assms by (metis bitlen_eq_zero_iff bitlen_nonneg linorder_not_le order_antisym_conv)
  have b: "2 ^ nat (bitlen a - 1) \<le> a \<and> a < 2 ^ nat (bitlen a)"
    using bitlen_bounds [of a] assms by blast
  have p: "(2::rat) powi k = 2 ^ nat k" if "0 \<le> k" for k
    using that by (simp add: power_int_def)
  show "(2::rat) powi (bitlen a - 1) \<le> of_int a"
    using b pos by (subst p) (auto simp: of_int_power [symmetric] of_int_le_iff simp del: of_int_power intro: order_trans)
  show "of_int a < (2::rat) powi (bitlen a)"
    using b pos by (subst p) (auto simp: of_int_power [symmetric] simp del: of_int_power)
qed


lemma flog_bounds:
  assumes "0 < x"
  shows "2 powi flog x \<le> x" "x < 2 powi (flog x + 1)"
proof -
  obtain a b where q: "quotient_of x = (a, b)" by (cases "quotient_of x")
  have b: "0 < b" using quotient_of_denom_pos [OF q] .
  have x: "x = of_int a / of_int b" using quotient_of_div [OF q] .
  have a: "0 < a" using assms b x by (simp add: zero_less_divide_iff)
  let ?e = "bitlen a - bitlen b"
  note A = powi_bitlen_nat [OF a] and B = powi_bitlen_nat [OF b]
  have b': "(0::rat) < of_int b" using b by simp
  have "x < 2 powi (bitlen a) / 2 powi (bitlen b - 1)"
    unfolding x by (rule frac_less) (use A B a in \<open>simp_all add: zero_less_power_int\<close>)
  also have "\<dots> = 2 powi (?e + 1)" by (simp add: power_int_diff [symmetric] algebra_simps)
  finally have up: "x < 2 powi (?e + 1)" .
  have "2 powi (bitlen a - 1) / 2 powi (bitlen b) \<le> x"
    unfolding x by (rule frac_le) (use A B a b' in simp_all)
  moreover have "2 powi (bitlen a - 1) / 2 powi (bitlen b) = (2::rat) powi (?e - 1)"
    by (simp add: power_int_diff [symmetric] algebra_simps)
  ultimately have lo: "2 powi (?e - 1) \<le> x" by simp
  have f: "flog x = (if 2 powi ?e \<le> x then ?e else ?e - 1)"
    by (simp add: flog_def q)
  show "2 powi flog x \<le> x" using lo by (simp add: f)
  show "x < 2 powi (flog x + 1)" using up by (simp add: f)
qed

lemma powi2_less_iff [simp]: "(2::rat) powi m < 2 powi n \<longleftrightarrow> m < n"
  using power_int_strict_increasing [of m n "2::rat"] power_int_increasing [of n m "2::rat"] by force

lemma powi2_le_iff [simp]: "(2::rat) powi m \<le> 2 powi n \<longleftrightarrow> m \<le> n"
  using powi2_less_iff [of n m] by (simp add: not_less [symmetric] del: powi2_less_iff)

lemma flog_mono: "0 < x \<Longrightarrow> x \<le> y \<Longrightarrow> flog x \<le> flog y"
proof -
  assume "0 < x" "x \<le> y"
  then have "2 powi flog x < (2::rat) powi (flog y + 1)"
    using flog_bounds(1) [of x] flog_bounds(2) [of y] by linarith
  then show ?thesis by simp
qed

lemma scaled_bounds:
  assumes "0 < x"
  shows "2 ^ 52 \<le> x * 2 powi (52 - flog x)" "x * 2 powi (52 - flog x) < 2 ^ 53"
proof -
  let ?s = "(2::rat) powi (52 - flog x)"
  have s: "0 < ?s" by simp
  have "2 powi flog x * ?s \<le> x * ?s"
    using flog_bounds(1) [OF assms] s by (intro mult_right_mono) auto
  moreover have "2 powi flog x * ?s = 2 ^ 52" by (simp add: power_int_add [symmetric])
  ultimately show "2 ^ 52 \<le> x * ?s" by simp
  have "x * ?s < 2 powi (flog x + 1) * ?s"
    using flog_bounds(2) [OF assms] s by (intro mult_strict_right_mono) auto
  moreover have "2 powi (flog x + 1) * ?s = 2 ^ 53" by (simp add: power_int_add [symmetric])
  ultimately show "x * ?s < 2 ^ 53" by simp
qed


lemma scaled_rnd_bounds:
  assumes "0 < x"
  shows "2 ^ 52 \<le> rnd_even (x * 2 powi (52 - flog x))" "rnd_even (x * 2 powi (52 - flog x)) \<le> 2 ^ 53"
proof -
  have "rnd_even (of_int (2 ^ 52)) \<le> rnd_even (x * 2 powi (52 - flog x))"
    using scaled_bounds(1) [OF assms] by (intro rnd_even_mono) simp
  then show "2 ^ 52 \<le> rnd_even (x * 2 powi (52 - flog x))" by (simp only: rnd_even_int)
  have "rnd_even (x * 2 powi (52 - flog x)) \<le> rnd_even (of_int (2 ^ 53))"
    using scaled_bounds(2) [OF assms] by (intro rnd_even_mono) simp
  then show "rnd_even (x * 2 powi (52 - flog x)) \<le> 2 ^ 53" by (simp only: rnd_even_int)
qed

lemma fl_binade:
  assumes "0 < x"
  shows "2 powi flog x \<le> fl x" "fl x \<le> 2 powi (flog x + 1)"
proof -
  let ?m = "rnd_even (x * 2 powi (52 - flog x))" and ?s = "(2::rat) powi (flog x - 52)"
  have fl: "fl x = of_int ?m * ?s" using assms by (simp add: fl_def fl_pos_def)
  have "(2::rat) ^ 52 \<le> of_int ?m" "of_int ?m \<le> (2::rat) ^ 53"
    using scaled_rnd_bounds [OF assms] by (metis of_int_le_iff of_int_numeral of_int_power)+
  then have "2 ^ 52 * ?s \<le> of_int ?m * ?s" "of_int ?m * ?s \<le> 2 ^ 53 * ?s"
    by (simp_all add: mult_right_mono del: power_int_diff)
  moreover have "2 ^ 52 * ?s = 2 powi flog x" "2 ^ 53 * ?s = 2 powi (flog x + 1)"
    using power_int_add [of "2::rat" 52 "flog x - 52"] power_int_add [of "2::rat" 53 "flog x - 52"]
    by (simp_all add: add.commute [of 1])
  ultimately show "2 powi flog x \<le> fl x" "fl x \<le> 2 powi (flog x + 1)" by (simp_all only: fl)
qed

lemma fl_pos_pos: "0 < x \<Longrightarrow> 0 < fl x"
  using fl_binade(1) [of x] zero_less_power_int [of "2::rat" "flog x"] by linarith

lemma fl_error:
  assumes "0 < x"
  shows "\<bar>fl x - x\<bar> \<le> x / 2 ^ 53"
proof -
  let ?t = "(2::rat) powi (52 - flog x)" and ?s = "(2::rat) powi (flog x - 52)"
  have ts: "?t * ?s = 1" by (simp add: power_int_add [symmetric])
  have "fl x - x = (of_int (rnd_even (x * ?t)) - x * ?t) * ?s"
    using assms ts by (simp add: fl_def fl_pos_def algebra_simps)
  then have "\<bar>fl x - x\<bar> = \<bar>of_int (rnd_even (x * ?t)) - x * ?t\<bar> * ?s"
    by (simp add: abs_mult)
  also have "\<dots> \<le> 1 / 2 * ?s"
    using rnd_even_bounds [of "x * ?t"] by (intro mult_right_mono) simp_all
  also have "\<dots> = 2 powi flog x / 2 ^ 53"
    using power_int_diff [of "2::rat" "flog x" 52] by simp
  also have "\<dots> \<le> x / 2 ^ 53"
    using flog_bounds(1) [OF assms] by (simp add: divide_right_mono)
  finally show ?thesis .
qed

lemma fl_mono: "0 < x \<Longrightarrow> x \<le> y \<Longrightarrow> fl x \<le> fl y"
proof -
  assume x: "0 < x" and xy: "x \<le> y"
  then have y: "0 < y" by simp
  show ?thesis
  proof (cases "flog x = flog y")
    case True
    have "rnd_even (x * 2 powi (52 - flog x)) \<le> rnd_even (y * 2 powi (52 - flog x))"
      using xy by (intro rnd_even_mono mult_right_mono) simp_all
    then show ?thesis using x y True by (simp add: fl_def fl_pos_def mult_right_mono)
  next
    case False
    with flog_mono [OF x xy] have "flog x + 1 \<le> flog y" by simp
    then have "fl x \<le> 2 powi flog y"
      using fl_binade(2) [OF x] powi2_le_iff [of "flog x + 1" "flog y"] by linarith
    then show ?thesis using fl_binade(1) [OF y] by linarith
  qed
qed

lemma fl_exact:
  assumes "0 < x" and "x * 2 powi (52 - flog x) = of_int m"
  shows "fl x = x"
proof -
  have "2 powi (52 - flog x) * (2::rat) powi (flog x - 52) = 1"
    by (simp add: power_int_add [symmetric])
  then show ?thesis
    using assms(1) by (simp add: fl_def fl_pos_def assms(2)) (simp add: assms(2) [symmetric] mult.assoc)
qed

lemma fl_of_nat:
  assumes "n \<le> 2 ^ 53"
  shows "fl (of_nat n) = of_nat n"
proof (cases "n = 0 \<or> n = 2 ^ 53")
  case True
  have "fl (2 ^ 53) = 2 ^ 53" by code_simp
  with True show ?thesis by (auto simp: fl_def)
next
  case False
  let ?x = "of_nat n :: rat"
  have x: "0 < ?x" using False by simp
  have "?x < 2 powi 53"
    using False assms by (metis le_neq_implies_less of_nat_less_iff of_nat_numeral of_nat_power power_int_numeral)
  then have "2 powi flog ?x < (2::rat) powi 53" using flog_bounds(1) [OF x] by linarith
  then have "flog ?x \<le> 52" by (simp only: powi2_less_iff)
  then have "(2::rat) powi (52 - flog ?x) = of_nat (2 ^ nat (52 - flog ?x))"
    by (simp add: power_int_def)
  then have "?x * 2 powi (52 - flog ?x) = of_int (int (n * 2 ^ nat (52 - flog ?x)))" by simp
  then show ?thesis by (rule fl_exact [OF x])
qed

lemma fl_1 [simp]: "fl 1 = 1"
  using fl_of_nat [of 1] by simp

lemma fl_lower: "0 < x \<Longrightarrow> x * (1 - 1 / 2 ^ 53) \<le> fl x"
proof -
  assume "0 < x"
  then have "x - fl x \<le> x / 2 ^ 53" using fl_error [of x] by (simp only: abs_le_iff) simp
  moreover have "x * (1 - 1 / 2 ^ 53) = x - x / 2 ^ 53" by (simp add: right_diff_distrib)
  ultimately show ?thesis by linarith
qed

lemma fl_upper: "0 < x \<Longrightarrow> fl x \<le> x * (1 + 1 / 2 ^ 53)"
proof -
  assume "0 < x"
  then have "fl x - x \<le> x / 2 ^ 53" using fl_error [of x] by (simp only: abs_le_iff)
  moreover have "x * (1 + 1 / 2 ^ 53) = x + x / 2 ^ 53" by (simp add: distrib_left)
  ultimately show ?thesis by linarith
qed

section \<open>The bit pattern of a double\<close>

text \<open>
  \<open>math.Float64bits\<close> on positive normal doubles (and zero): biased exponent and the 52 bits after
  the leading one; \<open>Float64ToBytes\<close> writes it little-endian (\<^verbatim>\<open>src/util/int.go\<close>).
\<close>

definition Float64bits :: "rat \<Rightarrow> u64" where
  "Float64bits x =
     (if x = 0 then 0
      else of_int ((flog x + 1023) * 2 ^ 52 + (\<lfloor>x * 2 powi (52 - flog x)\<rfloor> - 2 ^ 52)))"

definition Float64ToBytes :: "rat \<Rightarrow> bytes" where
  "Float64ToBytes x = le_bytes (Float64bits x)"

lemma length_Float64ToBytes [simp]: "length (Float64ToBytes x) = 8"
  by (simp add: Float64ToBytes_def)

end
