(* ===== verification/Mitum_Vote.thy ===== *)
theory Mitum_Vote
  imports Mitum_Double
begin

text \<open>
  The voting vocabulary of \<^verbatim>\<open>src/base\<close>: stages, vote results, node states, heights, rounds, network
  ids, the threshold (\<open>threshold.go\<close>) and majority counting (\<open>votecount.go\<close>). The enumerations keep Go's underlying
  integers, so values outside the declared constants exist, as they do in Go.
\<close>

section \<open>Enumerations\<close>

subsection \<open>Stage (\<^verbatim>\<open>votestage.go\<close>)\<close>

type_synonym stage = byte

definition StageINIT :: stage where [simp]: "StageINIT = 1"
definition StageProposal :: stage where [simp]: "StageProposal = 2"
definition StageACCEPT :: stage where [simp]: "StageACCEPT = 3"

definition Stage_Bytes :: "stage \<Rightarrow> bytes" where
  "Stage_Bytes st = Uint8ToBytes st"

definition Stage_String :: "stage \<Rightarrow> string" where
  "Stage_String st =
     (if st = StageINIT then ''INIT'' else if st = StageProposal then ''PROPOSAL''
      else if st = StageACCEPT then ''ACCEPT'' else ''<unknown stage>'')"

definition Stage_IsValid :: "stage \<Rightarrow> unit res" where
  "Stage_IsValid st =
     (if st = StageINIT \<or> st = StageACCEPT \<or> st = StageProposal then Ok ()
      else Err (Errorf InvalidError ''stage=%d''))"

definition Stage_UnmarshalText :: "string \<Rightarrow> stage res" where
  "Stage_UnmarshalText b =
     (if b = ''INIT'' then Ok StageINIT else if b = ''PROPOSAL'' then Ok StageProposal
      else if b = ''ACCEPT'' then Ok StageACCEPT else Err (plain ''<unknown stage>''))"

definition Stage_CanVote :: "stage \<Rightarrow> bool" where
  "Stage_CanVote st \<longleftrightarrow> st = StageINIT \<or> st = StageACCEPT"

subsection \<open>VoteResultType (\<^verbatim>\<open>vote.go\<close>)\<close>

type_synonym vote_result = byte

definition VoteResultNotYet :: vote_result where [simp]: "VoteResultNotYet = 0"
definition VoteResultDraw :: vote_result where [simp]: "VoteResultDraw = 1"
definition VoteResultMajority :: vote_result where [simp]: "VoteResultMajority = 2"

definition VoteResult_Bytes :: "vote_result \<Rightarrow> bytes" where
  "VoteResult_Bytes vrt = Uint8ToBytes vrt"

definition VoteResult_String :: "vote_result \<Rightarrow> string" where
  "VoteResult_String vrt =
     (if vrt = VoteResultNotYet then ''NOT-YET'' else if vrt = VoteResultDraw then ''DRAW''
      else if vrt = VoteResultMajority then ''MAJORITY'' else ''<unknown VoteResultType>'')"

definition VoteResult_IsValid :: "vote_result \<Rightarrow> unit res" where
  "VoteResult_IsValid vrt =
     (if vrt = VoteResultNotYet \<or> vrt = VoteResultDraw \<or> vrt = VoteResultMajority then Ok ()
      else Err (Errorf InvalidError ''VoteResultType=%d''))"

definition VoteResult_UnmarshalText :: "string \<Rightarrow> vote_result res" where
  "VoteResult_UnmarshalText b =
     (if b = ''NOT-YET'' then Ok VoteResultNotYet else if b = ''DRAW'' then Ok VoteResultDraw
      else if b = ''MAJORITY'' then Ok VoteResultMajority
      else Err (plain ''<unknown VoteResultType>''))"

subsection \<open>State (\<^verbatim>\<open>state.go\<close>)\<close>

datatype state = StateEmpty | StateStopped | StateBooting | StateJoining | StateConsensus
  | StateSyncing | StateBroken | StateHandover | StateUnknown byte

fun State_String :: "state \<Rightarrow> string" where
  "State_String StateStopped = ''STOPPED''"
| "State_String StateBooting = ''BOOTING''"
| "State_String StateJoining = ''JOINING''"
| "State_String StateConsensus = ''CONSENSUS''"
| "State_String StateSyncing = ''SYNCING''"
| "State_String StateBroken = ''BROKEN''"
| "State_String StateHandover = ''HANDOVER''"
| "State_String StateEmpty = ''EMPTY''"
| "State_String (StateUnknown _) = ''<unknown State>''"

definition StateFromString :: "string \<Rightarrow> state res" where
  "StateFromString s =
     (if s = ''STOPPED'' then Ok StateStopped else if s = ''BOOTING'' then Ok StateBooting
      else if s = ''JOINING'' then Ok StateJoining else if s = ''CONSENSUS'' then Ok StateConsensus
      else if s = ''SYNCING'' then Ok StateSyncing else if s = ''BROKEN'' then Ok StateBroken
      else if s = ''HANDOVER'' then Ok StateHandover else Err (plain ''unknown State, %q''))"

fun State_IsValid :: "state \<Rightarrow> unit res" where
  "State_IsValid StateEmpty = Err (Errorf InvalidError ''invalid state found; state=%q(%d)'')"
| "State_IsValid (StateUnknown _) = Err (Errorf InvalidError ''invalid state found; state=%q(%d)'')"
| "State_IsValid _ = Ok ()"

section \<open>Height, round, network id\<close>

definition NilHeight :: height where "NilHeight = -2"
definition PreGenesisHeight :: height where "PreGenesisHeight = -1"
definition GenesisHeight :: height where "GenesisHeight = 0"

definition Height_IsValid :: "height \<Rightarrow> unit res" where
  "Height_IsValid ht =
     fail_if (ht < PreGenesisHeight) (Errorf InvalidError ''height must be greater than %d; height=%d'')"

definition Height_Bytes :: "height \<Rightarrow> bytes" where
  "Height_Bytes ht = Int64ToBytes ht"

definition NewHeightFromBytes :: "bytes \<Rightarrow> height res" where
  "NewHeightFromBytes b = bind_res (BytesToInt64 b) (\<lambda>i. Ok i)"

definition Height_IsEmpty :: "height \<Rightarrow> bool" where
  "Height_IsEmpty ht \<longleftrightarrow> ht = NilHeight"

definition Round_Bytes :: "round \<Rightarrow> bytes" where
  "Round_Bytes rn = Uint64ToBytes rn"

lemma length_Height_Bytes [simp]: "length (Height_Bytes h) = 8"
  by (simp add: Height_Bytes_def)

lemma length_Round_Bytes [simp]: "length (Round_Bytes h) = 8"
  by (simp add: Round_Bytes_def)

definition MaxNetworkIDLength :: nat where "MaxNetworkIDLength = 300"

definition NetworkID_IsValid :: "bytes \<Rightarrow> unit res" where
  "NetworkID_IsValid ni =
     (if length ni < 1 then Err (Errorf InvalidError ''empty NetworkID'')
      else if length ni > MaxNetworkIDLength
      then Err (Errorf InvalidError ''length of NetworkID too long; max=%d, but len=%d'')
      else Ok ())"

definition NetworkID_Equal :: "bytes \<Rightarrow> bytes \<Rightarrow> bool" where
  "NetworkID_Equal ni a \<longleftrightarrow> ni = a"

section \<open>Threshold\<close>

type_synonym ratio = rat

definition ThresholdRatio_IsValid :: "ratio \<Rightarrow> unit res" where
  "ThresholdRatio_IsValid tr =
     (if tr < 1 then Err (Errorf InvalidError ''0 ratio found: %v'')
      else if tr > 100 then Err (Errorf InvalidError ''over 100 ratio: %v'') else Ok ())"

record threshold =
  thr_Total :: u64
  thr_Threshold :: u64
  thr_Ratio :: ratio

definition Threshold_IsValid :: "threshold \<Rightarrow> unit res" where
  "Threshold_IsValid thr = seq [
     ThresholdRatio_IsValid (thr_Ratio thr),
     fail_if (thr_Total thr < 1) (Errorf InvalidError ''zero total found''),
     fail_if (thr_Threshold thr > thr_Total thr)
       (Errorf InvalidError ''Threshold over Total: Threshold=%v Total=%v'')]"

text \<open>\<open>uint(math.Ceil(float64(total) * (ratio / 100)))\<close>, every operation rounded to a double.\<close>

definition threshold_ceil :: "nat \<Rightarrow> ratio \<Rightarrow> int" where
  "threshold_ceil n ratio = \<lceil>fl (fl (of_nat n) * fl (ratio / 100))\<rceil>"

definition threshold_count :: "u64 \<Rightarrow> ratio \<Rightarrow> u64" where
  "threshold_count tot ratio = of_int (threshold_ceil (unat tot) ratio)"

definition NewThreshold :: "u64 \<Rightarrow> ratio \<Rightarrow> threshold res" where
  "NewThreshold tot ratio =
     (let thr = \<lparr>thr_Total = tot, thr_Threshold = threshold_count tot ratio, thr_Ratio = ratio\<rparr>
      in bind_res (Threshold_IsValid thr) (\<lambda>_. Ok thr))"

definition MustNewThreshold :: "u64 \<Rightarrow> ratio \<Rightarrow> threshold res" where
  "MustNewThreshold tot ratio =
     (case NewThreshold tot ratio of Ok thr \<Rightarrow> Ok thr | Err _ \<Rightarrow> Panic | Panic \<Rightarrow> Panic)"

definition Threshold_Bytes :: "threshold \<Rightarrow> bytes" where
  "Threshold_Bytes thr =
     ConcatBytesSlice [UintToBytes (thr_Total thr), Float64ToBytes (thr_Ratio thr)]"

definition Threshold_Equal :: "threshold \<Rightarrow> threshold \<Rightarrow> bool" where
  "Threshold_Equal thr b =
     (if thr_Total thr \<noteq> thr_Total b then False else if thr_Ratio thr \<noteq> thr_Ratio b then False
      else if thr_Threshold thr \<noteq> thr_Threshold b then False else True)"

definition NumberOfFaultyNodes :: "u64 \<Rightarrow> rat \<Rightarrow> int" where
  "NumberOfFaultyNodes n threshold =
     (if n < 1 then 0 else if threshold \<ge> 100 then 0
      else let f = fl (of_nat (unat n)) in
        (let d = fl (f - fl (f * fl (threshold / 100))) in if 0 \<le> d then \<lfloor>d\<rfloor> else \<lceil>d\<rceil>))"

subsection \<open>What the floating-point computation guarantees\<close>

lemma unat_of_int: "0 \<le> c \<Longrightarrow> c < 2 ^ 64 \<Longrightarrow> unat (of_int c :: u64) = nat c"
  by (simp add: unsigned_of_int take_bit_int_eq_self)

definition threshold_args :: "nat \<Rightarrow> ratio \<Rightarrow> bool" where
  "threshold_args n rt \<longleftrightarrow> 1 \<le> n \<and> n \<le> 2 ^ 53 \<and> 0 < rt \<and> rt \<le> 100"

lemma threshold_argsI:
  "1 \<le> unat tot \<Longrightarrow> unat tot \<le> 2 ^ 53 \<Longrightarrow> 0 < r \<Longrightarrow> r \<le> 100 \<Longrightarrow> threshold_args (unat tot) r"
  by (simp add: threshold_args_def)

lemma threshold_argsD:
  assumes "threshold_args n rt"
  shows total_pos: "1 \<le> n" and total_small: "n \<le> 2 ^ 53" and ratio_pos: "0 < rt" and ratio_le: "rt \<le> 100"
  using assms by (auto simp: threshold_args_def)

lemma ratio_fl:
  assumes A: "threshold_args n rt"
  shows "0 < fl (rt / 100)" "fl (rt / 100) \<le> 1"
proof -
  have "0 < rt / 100" using ratio_pos [OF A] by simp
  then show "0 < fl (rt / 100)" by (rule fl_pos_pos)
  have "fl (rt / 100) \<le> fl 1" using ratio_pos [OF A] ratio_le [OF A] by (intro fl_mono) simp_all
  then show "fl (rt / 100) \<le> 1" by simp
qed

lemma product_pos:
  assumes A: "threshold_args n rt"
  shows "0 < of_nat n * fl (rt / 100)"
  using ratio_fl(1) [OF A] total_pos [OF A] by simp

lemma product_le:
  assumes A: "threshold_args n rt"
  shows "fl (of_nat n * fl (rt / 100)) \<le> of_nat n"
proof -
  have "of_nat n * fl (rt / 100) \<le> (of_nat n :: rat)"
    using ratio_fl(2) [OF A] by (simp add: mult_left_le)
  then have "fl (of_nat n * fl (rt / 100)) \<le> fl (of_nat n)"
    by (rule fl_mono [OF product_pos [OF A]])
  then show ?thesis by (simp only: fl_of_nat [OF total_small [OF A]])
qed

lemma ceil_eq:
  assumes A: "threshold_args n rt"
  shows "threshold_ceil n rt = \<lceil>fl (of_nat n * fl (rt / 100))\<rceil>"
  by (simp only: threshold_ceil_def fl_of_nat [OF total_small [OF A]])

lemma ceil_bounds:
  assumes A: "threshold_args n rt"
  shows "1 \<le> threshold_ceil n rt" "threshold_ceil n rt \<le> int n"
  using fl_pos_pos [OF product_pos [OF A]] product_le [OF A] by (simp_all add: ceil_eq [OF A] ceiling_le_iff)

lemma product_lower:
  assumes A: "threshold_args n rt"
  shows "of_nat n * (rt / 100) * (1 - 1 / 2 ^ 53) ^ 2 \<le> fl (of_nat n * fl (rt / 100))"
proof -
  let ?e = "1 - 1 / 2 ^ 53 :: rat"
  have "rt / 100 * ?e \<le> fl (rt / 100)" using fl_lower [of "rt / 100"] ratio_pos [OF A] by simp
  then have "of_nat n * (rt / 100 * ?e) \<le> of_nat n * fl (rt / 100)"
    by (intro mult_left_mono) simp_all
  then have "of_nat n * (rt / 100 * ?e) * ?e \<le> of_nat n * fl (rt / 100) * ?e"
    by (intro mult_right_mono) simp_all
  also have "\<dots> \<le> fl (of_nat n * fl (rt / 100))" by (rule fl_lower [OF product_pos [OF A]])
  finally show ?thesis by (simp only: power2_eq_square mult.assoc)
qed

lemma product_upper:
  assumes A: "threshold_args n rt"
  shows "fl (of_nat n * fl (rt / 100)) \<le> of_nat n * (rt / 100) * (1 + 1 / 2 ^ 53) ^ 2"
proof -
  let ?e = "1 + 1 / 2 ^ 53 :: rat"
  have "fl (rt / 100) \<le> rt / 100 * ?e" using fl_upper [of "rt / 100"] ratio_pos [OF A] by simp
  then have "of_nat n * fl (rt / 100) \<le> of_nat n * (rt / 100 * ?e)"
    by (intro mult_left_mono) simp_all
  then have "of_nat n * fl (rt / 100) * ?e \<le> of_nat n * (rt / 100 * ?e) * ?e"
    by (intro mult_right_mono) simp_all
  with fl_upper [OF product_pos [OF A]]
  have "fl (of_nat n * fl (rt / 100)) \<le> of_nat n * (rt / 100 * ?e) * ?e" by (rule order_trans)
  then show ?thesis by (simp only: power2_eq_square mult.assoc)
qed

lemma ceil_ge:
  assumes A: "threshold_args n rt"
  shows "fl (of_nat n * fl (rt / 100)) \<le> of_int (threshold_ceil n rt)"
  by (simp add: ceil_eq [OF A] le_of_int_ceiling)

lemma supermajority:
  assumes A: "threshold_args n rt" and "67 \<le> rt"
  shows "2 * int n < 3 * threshold_ceil n rt"
proof -
  let ?n = "of_nat n :: rat" and ?c = "of_int (threshold_ceil n rt) :: rat"
  have n: "0 < ?n" using total_pos [OF A] by simp
  have "2 * ?n < 3 * (?n * (67 / 100) * (1 - 1 / 2 ^ 53) ^ 2)"
    using n by (simp add: power2_eq_square)
  also have "\<dots> \<le> 3 * (?n * (rt / 100) * (1 - 1 / 2 ^ 53) ^ 2)"
    using assms n by (intro mult_left_mono mult_right_mono) simp_all
  also have "\<dots> \<le> 3 * ?c" using product_lower [OF A] ceil_ge [OF A] by linarith
  finally have "of_int (2 * int n) < (of_int (3 * threshold_ceil n rt) :: rat)" by simp
  then show ?thesis by (simp only: of_int_less_iff)
qed

lemma integral_ratio:
  assumes A: "threshold_args n rt" and "rt = of_nat k" and "n \<le> 2 ^ 45"
  shows "\<lceil>of_nat (n * k) / 100 :: rat\<rceil> \<le> threshold_ceil n rt"
    and "threshold_ceil n rt \<le> \<lceil>of_nat (n * k) / 100 :: rat\<rceil> + 1"
proof -
  let ?q = "of_nat (n * k) / 100 :: rat" and ?p = "fl (of_nat n * fl (rt / 100))"
  have q: "of_nat n * (rt / 100) = ?q" by (simp add: assms(2))
  have k: "k \<le> 100" using ratio_le [OF A] assms(2) by (metis of_nat_le_iff of_nat_numeral)
  have "n * k \<le> 2 ^ 45 * 100" using assms(3) k by (rule mult_le_mono)
  then have small: "0 \<le> ?q" "?q \<le> 2 ^ 45" using of_nat_mono [of "n * k" "2 ^ 45 * 100", where ?'a = rat] by simp_all
  have "?q * (1 - 1 / 2 ^ 52) \<le> ?q * (1 - 1 / 2 ^ 53) ^ 2"
    using small(1) by (intro mult_left_mono) (simp_all add: power2_eq_square)
  with product_lower [OF A] have "?q * (1 - 1 / 2 ^ 52) \<le> ?p" by (simp only: q)
  then have lo: "?q - ?q / 2 ^ 52 \<le> ?p" by (simp only: right_diff_distrib mult_1_right times_divide_eq_right)
  have "?q * (1 + 1 / 2 ^ 53) ^ 2 \<le> ?q * (1 + 1 / 2 ^ 51)"
    using small(1) by (intro mult_left_mono) (simp_all add: power2_eq_square)
  with product_upper [OF A] have "?p \<le> ?q * (1 + 1 / 2 ^ 51)" by (simp only: q)
  then have up: "?p \<le> ?q + ?q / 2 ^ 51" by (simp only: distrib_left mult_1_right times_divide_eq_right)
  have gap: "of_int \<lceil>?q\<rceil> - 1 + 1 / 100 \<le> ?q"
  proof -
    have "of_int \<lceil>?q\<rceil> - 1 < ?q" by linarith
    then have "of_int ((\<lceil>?q\<rceil> - 1) * 100) < (of_int (int (n * k)) :: rat)" by simp
    then have "(\<lceil>?q\<rceil> - 1) * 100 + 1 \<le> int (n * k)" by (simp only: of_int_less_iff)
    then have "of_int ((\<lceil>?q\<rceil> - 1) * 100 + 1) \<le> (of_int (int (n * k)) :: rat)" by (simp only: of_int_le_iff)
    then show ?thesis by simp
  qed
  have "of_int (\<lceil>?q\<rceil> - 1) < ?p" using gap lo small by (simp del: of_nat_mult)
  then show "\<lceil>?q\<rceil> \<le> threshold_ceil n rt" by (simp add: ceil_eq [OF A] le_ceiling_iff del: of_nat_mult)
  have "?q / 2 ^ 51 \<le> 1" using order_trans [OF small(2), of "2 ^ 51"] by (simp del: of_nat_mult)
  then have "?p \<le> of_int \<lceil>?q\<rceil> + 1" using up le_of_int_ceiling [of ?q] by linarith
  then have "?p \<le> of_int (\<lceil>?q\<rceil> + 1)" by (simp only: of_int_add of_int_1)
  then show "threshold_ceil n rt \<le> \<lceil>?q\<rceil> + 1" by (simp only: ceil_eq [OF A] ceiling_le_iff)
qed

lemma unat_threshold_count:
  assumes "threshold_args (unat tot) r"
  shows "int (unat (threshold_count tot r)) = threshold_ceil (unat tot) r"
proof -
  note b = ceil_bounds [OF assms] and s = total_small [OF assms]
  have "int (unat tot) \<le> int (2 ^ 53)" using s by (simp only: of_nat_le_iff)
  then have "threshold_ceil (unat tot) r < 2 ^ 64" using b(2) by simp
  then show ?thesis using b(1) by (simp add: threshold_count_def unat_of_int)
qed

section \<open>Majority counting\<close>

fun FindMajority_loop :: "u64 \<Rightarrow> u64 \<Rightarrow> nat \<Rightarrow> u64 list \<Rightarrow> nat option" where
  "FindMajority_loop tot thr i [] = None"
| "FindMajority_loop tot thr i (n # ns) =
     (if n \<ge> tot then Some i else if n \<ge> thr then Some i else FindMajority_loop tot thr (Suc i) ns)"

definition FindMajority :: "u64 \<Rightarrow> u64 \<Rightarrow> u64 list \<Rightarrow> int" where
  "FindMajority tot threshold ns =
     (let thr = (if threshold > tot then tot else threshold)
      in if length ns < 1 then -1
         else let sum = foldl (+) 0 ns
           in case FindMajority_loop tot thr 0 ns of
                Some i \<Rightarrow> int i
              | None \<Rightarrow> (let sorted = rev (sort ns) in if tot - sum + hd sorted < thr then -2 else -1))"

text \<open>
  \<open>FindMajorityFromSlice\<close> ranges over a Go map, whose iteration order is unspecified: \<open>order\<close> is that
  order, an argument of the model.
\<close>

definition FindMajorityFromSlice ::
  "(string list \<Rightarrow> string list) \<Rightarrow> u64 \<Rightarrow> u64 \<Rightarrow> string list \<Rightarrow> vote_result \<times> string" where
  "FindMajorityFromSlice order tot threshold s =
     (let ks = order (remdups s);
          counts = map (\<lambda>k. of_nat (count_list s k)) ks;
          keys = map_of (rev (zip counts ks));
          ns = rev (sort counts);
          index = FindMajority tot threshold ns
      in if index = -1 then (VoteResultNotYet, '''')
         else if index = -2 then (VoteResultDraw, '''')
         else (VoteResultMajority, (case keys (ns ! nat index) of Some k \<Rightarrow> k | None \<Rightarrow> '''')))"

subsection \<open>Specification of the counting\<close>

lemma FindMajority_loop_None:
  "FindMajority_loop tot thr i ns = None \<longleftrightarrow> (\<forall>n \<in> set ns. n < thr \<and> n < tot)"
  by (induction ns arbitrary: i) auto

lemma FindMajority_loop_Some:
  "FindMajority_loop tot thr i ns = Some j \<Longrightarrow> thr \<le> tot \<Longrightarrow>
   i \<le> j \<and> j - i < length ns \<and> thr \<le> ns ! (j - i) \<and> (\<forall>k < j - i. ns ! k < thr)"
proof (induction ns arbitrary: i)
  case (Cons n ns)
  show ?case
  proof (cases "n \<ge> thr")
    case True
    with Cons.prems show ?thesis by (auto split: if_splits)
  next
    case False
    with Cons.prems have "FindMajority_loop tot thr (Suc i) ns = Some j" by (auto split: if_splits)
    from Cons.IH [OF this Cons.prems(2)] have IH:
      "Suc i \<le> j" "j - Suc i < length ns" "thr \<le> ns ! (j - Suc i)" "\<forall>k < j - Suc i. ns ! k < thr" by auto
    then have "j - i = Suc (j - Suc i)" by simp
    with IH False show ?thesis by (auto simp: less_Suc_eq_0_disj)
  qed
qed simp

lemma foldl_word_sum: "foldl (+) a (ns :: u64 list) = a + sum_list ns"
  by (induction ns arbitrary: a) (simp_all add: add.assoc)

lemma unat_sum_list:
  "sum_list (map unat (ns :: u64 list)) < 2 ^ 64 \<Longrightarrow> unat (sum_list ns) = sum_list (map unat ns)"
proof (induction ns)
  case (Cons n ns)
  then have "unat (sum_list ns) = sum_list (map unat ns)" by simp
  with Cons.prems show ?case by (simp add: unat_add_lem [THEN iffD1])
qed simp

lemma hd_rev_sort: "ns \<noteq> [] \<Longrightarrow> hd (rev (sort ns)) = Max (set (ns :: u64 list))"
proof -
  assume ne: "ns \<noteq> []"
  then have ne': "sort ns \<noteq> []" by (metis length_0_conv length_sort)
  have "hd (rev (sort ns)) = last (sort ns)" by (simp add: hd_rev)
  moreover have "last (sort ns) \<in> set ns" using ne by (metis last_in_set set_sort set_empty)
  moreover have "\<forall>x \<in> set ns. x \<le> last (sort ns)"
  proof
    fix x assume "x \<in> set ns"
    then obtain i where i: "i < length (sort ns)" "sort ns ! i = x" by (metis in_set_conv_nth set_sort)
    have "sort ns ! i \<le> sort ns ! (length (sort ns) - 1)"
      by (rule sorted_nth_mono) (use i in auto)
    then show "x \<le> last (sort ns)" using i ne' by (simp add: last_conv_nth)
  qed
  ultimately show ?thesis by (metis List.finite_set Max_eqI)
qed

text \<open>
  A completion of a partial count: the votes cast so far stay, the remaining voters may add to any
  candidate, also to new ones, and nobody votes twice.
\<close>

definition completion :: "nat \<Rightarrow> nat list \<Rightarrow> nat list \<Rightarrow> bool" where
  "completion tot ns ms \<longleftrightarrow>
     length ns \<le> length ms \<and> (\<forall>i < length ns. ns ! i \<le> ms ! i) \<and> sum_list ms \<le> tot"

lemma sum_list_ge_nth: "i < length ns \<Longrightarrow> ns ! i \<le> sum_list (ns :: nat list)"
  by (rule elem_le_sum_list)

lemma completion_bound:
  assumes "completion tot ns ms" and "c \<in> set ms" and "\<forall>n \<in> set ns. n \<le> m"
  shows "c + sum_list ns \<le> tot + m"
proof -
  obtain i where i: "i < length ms" "ms ! i = c" using assms(2) by (metis in_set_conv_nth)
  have len: "length ns \<le> length ms" and le: "\<forall>i < length ns. ns ! i \<le> ms ! i" and s: "sum_list ms \<le> tot"
    using assms(1) by (auto simp: completion_def)
  let ?f = "\<lambda>j. if j < length ns then ns ! j else 0"
  have ns: "sum_list ns = (\<Sum>j<length ms. ?f j)"
  proof -
    have "(\<Sum>j<length ms. ?f j) = (\<Sum>j<length ns. ns ! j)"
      using len by (intro sum.mono_neutral_cong_right) auto
    then show ?thesis by (simp add: sum_list_sum_nth atLeast0LessThan)
  qed
  have ms: "sum_list ms = c + (\<Sum>j \<in> {..<length ms} - {i}. ms ! j)"
    using i by (simp add: sum_list_sum_nth atLeast0LessThan sum.remove [of _ i])
  have "(\<Sum>j \<in> {..<length ms} - {i}. ?f j) \<le> (\<Sum>j \<in> {..<length ms} - {i}. ms ! j)"
    using le by (intro sum_mono) auto
  moreover have "(\<Sum>j<length ms. ?f j) = ?f i + (\<Sum>j \<in> {..<length ms} - {i}. ?f j)"
    using i by (simp add: sum.remove [of _ i])
  moreover have "?f i \<le> m" using assms(3) by auto
  ultimately show ?thesis using ns ms s by linarith
qed

lemma completion_reach:
  assumes "m \<in> set ns" and "sum_list ns \<le> tot"
  shows "\<exists>ms. completion tot ns ms \<and> tot - sum_list ns + m \<in> set ms"
proof -
  obtain i where i: "i < length ns" "ns ! i = m" using assms(1) by (metis in_set_conv_nth)
  let ?ms = "ns[i := tot - sum_list ns + m]"
  have "sum_list ?ms = sum_list ns + (tot - sum_list ns + m) - m"
    using i by (simp add: sum_list_update)
  then have "completion tot ns ?ms"
    using i assms(2) by (auto simp: completion_def nth_list_update)
  then show ?thesis using i by (meson set_update_memI)
qed

text \<open>
  The contract of \<open>FindMajority\<close> for counts that do not exceed the number of voters: an index of the
  first candidate at the threshold, \<open>-2\<close> exactly when no completion can reach it, \<open>-1\<close> otherwise.
\<close>

definition majority_args :: "u64 \<Rightarrow> u64 \<Rightarrow> u64 list \<Rightarrow> bool" where
  "majority_args tot thr ns \<longleftrightarrow> sum_list (map unat ns) \<le> unat tot \<and> thr \<le> tot"

lemma majority_argsD:
  assumes "majority_args tot thr ns"
  shows votes_le: "sum_list (map unat ns) \<le> unat tot" and thr_le: "thr \<le> tot"
  using assms by (auto simp: majority_args_def)

lemma FindMajority_no_wrap:
  assumes A: "majority_args tot thr ns" and "ns \<noteq> []"
  shows "unat (tot - sum_list ns + Max (set ns)) = unat tot - sum_list (map unat ns) + unat (Max (set ns))"
proof -
  have lt: "sum_list (map unat ns) < 2 ^ 64"
    using votes_le [OF A] unsigned_less [of tot, where ?'a = nat] by simp
  have s: "unat (sum_list ns) = sum_list (map unat ns)" by (rule unat_sum_list [OF lt])
  then have le: "sum_list ns \<le> tot" using votes_le [OF A] by (simp add: word_le_nat_alt)
  have "Max (set ns) \<in> set ns" using assms(2) by simp
  then have m: "unat (Max (set ns)) \<le> sum_list (map unat ns)" by (simp add: member_le_sum_list)
  have d: "unat (tot - sum_list ns) = unat tot - sum_list (map unat ns)"
    using unat_sub [OF le] s by simp
  have "unat (tot - sum_list ns) + unat (Max (set ns)) < 2 ^ LENGTH(64)"
    using d m votes_le [OF A] unsigned_less [of tot, where ?'a = nat] by simp
  then show ?thesis using d by (simp add: unat_add_lem [THEN iffD1])
qed

lemma FindMajority_found:
  assumes A: "majority_args tot thr ns" and "FindMajority tot thr ns = int i"
  shows "i < length ns \<and> thr \<le> ns ! i \<and> (\<forall>k < i. ns ! k < thr)"
proof -
  have "FindMajority_loop tot thr 0 ns = Some i"
    using assms(2) thr_le [OF A] by (auto simp: FindMajority_def Let_def split: if_splits option.splits)
  from FindMajority_loop_Some [OF this thr_le [OF A]] show ?thesis by simp
qed

lemma FindMajority_cases_value: "FindMajority tot thr ns \<in> {-1, -2} \<union> range int"
  by (auto simp: FindMajority_def Let_def split: option.splits)

lemma FindMajority_nonneg_iff:
  assumes A: "majority_args tot thr ns"
  shows "0 \<le> FindMajority tot thr ns \<longleftrightarrow> (\<exists>n \<in> set ns. thr \<le> n)"
proof
  assume "0 \<le> FindMajority tot thr ns"
  then obtain i where "FindMajority tot thr ns = int i" by (metis nonneg_int_cases)
  from FindMajority_found [OF A this] show "\<exists>n \<in> set ns. thr \<le> n" by (meson nth_mem)
next
  assume "\<exists>n \<in> set ns. thr \<le> n"
  then have "FindMajority_loop tot thr 0 ns \<noteq> None"
    unfolding FindMajority_loop_None by (auto simp: not_less)
  then show "0 \<le> FindMajority tot thr ns"
    using thr_le [OF A] \<open>\<exists>n \<in> set ns. thr \<le> n\<close> by (auto simp: FindMajority_def Let_def)
qed

lemma FindMajority_below_iff:
  assumes A: "majority_args tot thr ns"
  shows "FindMajority tot thr ns = -2 \<longleftrightarrow>
     ns \<noteq> [] \<and> (\<forall>n \<in> set ns. n < thr) \<and>
     unat tot - sum_list (map unat ns) + unat (Max (set ns)) < unat thr"
proof (cases "ns = [] \<or> (\<exists>n \<in> set ns. thr \<le> n)")
  case True
  then show ?thesis using FindMajority_nonneg_iff [OF A] by (auto simp: FindMajority_def not_le)
next
  case False
  then have "FindMajority_loop tot thr 0 ns = None"
    unfolding FindMajority_loop_None using thr_le [OF A] by auto
  with False have "FindMajority tot thr ns = (if tot - sum_list ns + Max (set ns) < thr then -2 else -1)"
    using thr_le [OF A] by (simp add: FindMajority_def Let_def hd_rev_sort foldl_word_sum not_less [symmetric])
  with False show ?thesis using FindMajority_no_wrap [OF A] by (auto simp: word_less_nat_alt not_le)
qed

lemma FindMajority_draw_iff:
  assumes A: "majority_args tot thr ns"
  shows "FindMajority tot thr ns = -2 \<longleftrightarrow>
     (\<forall>ms. completion (unat tot) (map unat ns) ms \<longrightarrow> (\<forall>c \<in> set ms. c < unat thr))"
proof
  assume d: "FindMajority tot thr ns = -2"
  show "\<forall>ms. completion (unat tot) (map unat ns) ms \<longrightarrow> (\<forall>c \<in> set ms. c < unat thr)"
  proof (intro allI impI ballI)
    fix ms c assume c: "completion (unat tot) (map unat ns) ms" "c \<in> set ms"
    have "\<forall>n \<in> set (map unat ns). n \<le> unat (Max (set ns))" by (auto simp: word_le_nat_alt [symmetric])
    from completion_bound [OF c this]
    have "c + sum_list (map unat ns) \<le> unat tot + unat (Max (set ns))" .
    then show "c < unat thr" using d [unfolded FindMajority_below_iff [OF A]] votes_le [OF A] by linarith
  qed
next
  assume all: "\<forall>ms. completion (unat tot) (map unat ns) ms \<longrightarrow> (\<forall>c \<in> set ms. c < unat thr)"
  have ne: "ns \<noteq> []"
  proof
    assume "ns = []"
    then have "completion (unat tot) (map unat ns) [unat tot]" by (simp add: completion_def)
    with all have "unat tot < unat thr" by auto
    then show False using thr_le [OF A] by (simp add: word_le_nat_alt)
  qed
  then have "unat (Max (set ns)) \<in> set (map unat ns)" by simp
  from completion_reach [OF this votes_le [OF A]] all
  have r: "unat tot - sum_list (map unat ns) + unat (Max (set ns)) < unat thr" by blast
  have "completion (unat tot) (map unat ns) (map unat ns)" using votes_le [OF A] by (simp add: completion_def)
  then have "\<forall>n \<in> set ns. n < thr" using all by (auto simp: word_less_nat_alt)
  then show "FindMajority tot thr ns = -2" using ne r by (simp add: FindMajority_below_iff [OF A])
qed

section \<open>Interfaces of the counting and of the threshold\<close>

subsection \<open>A rule that finds a majority among counts\<close>

locale majority_rule =
  fixes find_maj :: "u64 \<Rightarrow> u64 \<Rightarrow> u64 list \<Rightarrow> int"
  assumes find_range: "find_maj tot thr ns \<in> {-1, -2} \<union> range int"
    and find_found: "majority_args tot thr ns \<Longrightarrow> find_maj tot thr ns = int i \<Longrightarrow> i < length ns \<and> thr \<le> ns ! i"
    and find_nonneg: "majority_args tot thr ns \<Longrightarrow> 0 \<le> find_maj tot thr ns \<longleftrightarrow> (\<exists>n \<in> set ns. thr \<le> n)"
    and find_below: "majority_args tot thr ns \<Longrightarrow> find_maj tot thr ns = -2 \<longleftrightarrow>
        ns \<noteq> [] \<and> (\<forall>n \<in> set ns. n < thr) \<and>
        unat tot - sum_list (map unat ns) + unat (Max (set ns)) < unat thr"
begin

lemma find_perm_draw:
  assumes "majority_args tot thr ns" and "mset ms = mset ns"
  shows "find_maj tot thr ms = -2 \<longleftrightarrow> find_maj tot thr ns = -2"
proof -
  have e: "set ms = set ns" using assms(2) by (rule mset_eq_setD)
  have "mset (map unat ms) = mset (map unat ns)" using assms(2) by simp
  then have s: "sum_list (map unat ms) = sum_list (map unat ns)" by (metis sum_mset_sum_list)
  have "majority_args tot thr ms" using assms(1) s by (simp add: majority_args_def)
  from find_below [OF this] find_below [OF assms(1)] e s show ?thesis
    by (metis empty_set set_empty2)
qed

lemma find_not_yet:
  "find_maj tot thr ns = -1 \<longleftrightarrow> \<not> 0 \<le> find_maj tot thr ns \<and> find_maj tot thr ns \<noteq> -2"
  using find_range [of tot thr ns] by auto

end

interpretation fm: majority_rule FindMajority
  by unfold_locales
    (rule FindMajority_cases_value FindMajority_found [THEN conjunct1] FindMajority_nonneg_iff
      FindMajority_below_iff | blast dest: FindMajority_found)+

subsection \<open>Counting the keys of a slice\<close>

lemma count_list_le_length: "count_list s k \<le> length s"
  by (induction s) auto

lemma count_list_two:
  "j \<noteq> k \<Longrightarrow> count_list s j + count_list s k \<le> length s"
  by (induction s) auto

lemma count_list_append: "count_list (s @ t) k = count_list s k + count_list t k"
  by (induction s) auto

lemma count_list_replicate: "count_list (replicate n k) k = n"
  by (induction n) auto

definition key_counts :: "string list \<Rightarrow> string list \<Rightarrow> u64 list" where
  "key_counts s ks = map (\<lambda>k. of_nat (count_list s k)) ks"

lemma unat_count:
  assumes "length s \<le> unat (tot :: u64)"
  shows "unat (of_nat (count_list s k) :: u64) = count_list s k"
proof -
  have "count_list s k < 2 ^ 64"
    using count_list_le_length [of s k] assms unsigned_less [of tot, where ?'a = nat] by simp
  then show ?thesis by (simp add: unat_of_nat)
qed

lemma sum_key_counts:
  assumes "length s \<le> unat (tot :: u64)" and "mset ks = mset (remdups s)"
  shows "sum_list (map unat (key_counts s ks)) = length s"
proof -
  have "map unat (key_counts s ks) = map (count_list s) ks"
    by (simp add: key_counts_def unat_count [OF assms(1)])
  moreover have "sum_list (map (count_list s) ks) = sum_list (map (count_list s) (remdups s))"
    using assms(2) by (metis mset_map sum_mset_sum_list)
  moreover have "sum_list (map (count_list s) (remdups s)) = (\<Sum>k \<in> set s. count_list s k)"
    by (simp add: sum_list_distinct_conv_sum_set)
  ultimately show ?thesis by (simp add: sum_count_set)
qed

lemma key_counts_args:
  assumes "length s \<le> unat tot" and "mset ks = mset (remdups s)" and "thr \<le> tot"
  shows "majority_args tot thr (rev (sort (key_counts s ks)))"
proof -
  have "mset (map unat (rev (sort (key_counts s ks)))) = mset (map unat (key_counts s ks))" by simp
  then have "sum_list (map unat (rev (sort (key_counts s ks)))) = length s"
    using sum_key_counts [OF assms(1,2)] by (metis sum_mset_sum_list)
  then show ?thesis using assms by (simp add: majority_args_def)
qed

lemma key_counts_reached:
  assumes "length s \<le> unat (tot :: u64)" and "mset ks = mset (remdups s)" and "0 < thr"
  shows "(\<exists>n \<in> set (rev (sort (key_counts s ks))). thr \<le> n) \<longleftrightarrow> (\<exists>k. unat thr \<le> count_list s k)"
proof -
  have ks: "set ks = set s" using assms(2) by (metis mset_eq_setD set_remdups)
  have "k \<in> set s" if "unat thr \<le> count_list s k" for k
    using that assms(3) count_notin [of k s] by (metis le_zero_eq unat_eq_zero word_greater_zero_iff)
  then show ?thesis
    by (auto simp: key_counts_def ks word_le_nat_alt unat_count [OF assms(1)])
qed

lemma draw_completions:
  assumes "length s \<le> unat tot" and "mset ks = mset (remdups s)" and "0 < thr" and "thr \<le> tot"
  shows "FindMajority tot thr (rev (sort (key_counts s ks))) = -2 \<longleftrightarrow>
    (\<forall>rest k. length (s @ rest) \<le> unat tot \<longrightarrow> count_list (s @ rest) k < unat thr)" (is "?l \<longleftrightarrow> ?r")
proof -
  let ?ns = "rev (sort (key_counts s ks))"
  note A = key_counts_args [OF assms(1,2,4)]
  have ks: "set ks = set s" using assms(2) by (metis mset_eq_setD set_remdups)
  have sum: "sum_list (map unat ?ns) = length s"
    using sum_key_counts [OF assms(1,2)] by (metis mset_rev mset_sort mset_map sum_mset_sum_list)
  have set_ns: "unat ` set ?ns = count_list s ` set s"
    by (simp add: key_counts_def ks unat_count [OF assms(1)] image_image)
  note bel = fm.find_below [OF A, unfolded sum]
  have maxi: "?ns \<noteq> [] \<Longrightarrow> \<exists>k \<in> set s. unat (Max (set ?ns)) = count_list s k"
  proof -
    assume "?ns \<noteq> []"
    then have "Max (set ?ns) \<in> set ?ns" by (intro Max_in) auto
    then have "unat (Max (set ?ns)) \<in> count_list s ` set s" using set_ns by blast
    then show ?thesis by blast
  qed
  have maxge: "count_list s k \<le> unat (Max (set ?ns))" if "k \<in> set s" for k
  proof -
    have "count_list s k \<in> unat ` set ?ns" using set_ns that by blast
    then obtain n where n: "n \<in> set ?ns" "count_list s k = unat n" by blast
    have "n \<le> Max (set ?ns)" using n(1) by (rule Max_ge [OF List.finite_set])
    then show ?thesis using n(2) by (simp add: word_le_nat_alt)
  qed
  show ?thesis
  proof
    assume l: ?l
    then have mx: "unat tot - length s + unat (Max (set ?ns)) < unat thr" using bel by blast
    show ?r
    proof (intro allI impI)
      fix rest k assume len: "length (s @ rest) \<le> unat tot"
      have "count_list s k \<le> unat (Max (set ?ns))" using maxge count_notin [of k s] by (cases "k \<in> set s") auto
      then show "count_list (s @ rest) k < unat thr"
        using mx len count_list_le_length [of rest k] by (simp add: count_list_append)
    qed
  next
    assume r: ?r
    have fill: "count_list s k + (unat tot - length s) < unat thr" for k
      using r [rule_format, of "replicate (unat tot - length s) k" k] assms(1)
      by (simp add: count_list_append count_list_replicate)
    have "s \<noteq> []" using fill [of undefined] assms(4) by (auto simp: word_le_nat_alt)
    then have "unat ` set ?ns \<noteq> {}" unfolding set_ns by simp
    then have ne: "?ns \<noteq> []" by (metis image_empty empty_set)
    from maxi [OF ne] obtain k where k: "unat (Max (set ?ns)) = count_list s k" by blast
    have "\<forall>n \<in> set ?ns. n < thr"
    proof
      fix n assume "n \<in> set ?ns"
      then have "unat n \<in> count_list s ` set s" using set_ns by blast
      then obtain k where "unat n = count_list s k" by blast
      then show "n < thr" using fill [of k] by (simp add: word_less_nat_alt)
    qed
    then show ?l using bel ne k fill [of k] by simp
  qed
qed

lemma FindMajorityFromSlice_key:
  assumes "length s \<le> unat (tot :: u64)" and "mset ks = mset (remdups s)" and "0 < thr"
    and "i < length ns" and "ns = rev (sort (key_counts s ks))" and "thr \<le> ns ! i"
  shows "\<exists>k. map_of (rev (zip (key_counts s ks) ks)) (ns ! i) = Some k \<and> unat thr \<le> count_list s k"
proof -
  have len: "length (key_counts s ks) = length ks" by (simp add: key_counts_def)
  have "ns ! i \<in> set (key_counts s ks)" using assms(4,5) by (metis nth_mem set_rev set_sort)
  then have "ns ! i \<in> fst ` set (rev (zip (key_counts s ks) ks))"
    using len by (metis (no_types) map_fst_zip set_map set_rev)
  then obtain k where k: "map_of (rev (zip (key_counts s ks) ks)) (ns ! i) = Some k"
    by (metis map_of_eq_None_iff option.exhaust)
  then have "(ns ! i, k) \<in> set (zip (key_counts s ks) ks)" by (metis map_of_SomeD set_rev)
  then have "ns ! i = of_nat (count_list s k)"
    by (auto simp: key_counts_def in_set_zip)
  then show ?thesis using k assms(6) unat_count [OF assms(1), of k] by (auto simp: word_le_nat_alt)
qed

lemma FindMajorityFromSlice_unfold:
  "FindMajorityFromSlice order tot thr s =
     (let ks = order (remdups s); ns = rev (sort (key_counts s ks)); index = FindMajority tot thr ns
      in if index = -1 then (VoteResultNotYet, '''')
         else if index = -2 then (VoteResultDraw, '''')
         else (VoteResultMajority,
               case map_of (rev (zip (key_counts s ks) ks)) (ns ! nat index) of Some k \<Rightarrow> k | None \<Rightarrow> ''''))"
  by (simp add: FindMajorityFromSlice_def key_counts_def Let_def)

lemma FindMajorityFromSlice_majority:
  assumes "length s \<le> unat tot" and "mset (order (remdups s)) = mset (remdups s)" and "0 < thr" and "thr \<le> tot"
  shows "fst (FindMajorityFromSlice order tot thr s) = VoteResultMajority \<longleftrightarrow> (\<exists>k. unat thr \<le> count_list s k)"
    and "fst (FindMajorityFromSlice order tot thr s) = VoteResultMajority \<Longrightarrow>
      unat thr \<le> count_list s (snd (FindMajorityFromSlice order tot thr s))"
proof -
  let ?ks = "order (remdups s)"
  let ?ns = "rev (sort (key_counts s ?ks))"
  let ?i = "FindMajority tot thr ?ns"
  note A = key_counts_args [OF assms(1,2,4)]
  have m: "fst (FindMajorityFromSlice order tot thr s) = VoteResultMajority \<longleftrightarrow> 0 \<le> ?i"
    using fm.find_not_yet [of tot thr ?ns] by (auto simp: FindMajorityFromSlice_unfold Let_def)
  then show "fst (FindMajorityFromSlice order tot thr s) = VoteResultMajority \<longleftrightarrow> (\<exists>k. unat thr \<le> count_list s k)"
    using fm.find_nonneg [OF A] key_counts_reached [OF assms(1-3)] by simp
  assume "fst (FindMajorityFromSlice order tot thr s) = VoteResultMajority"
  with m obtain i where i: "?i = int i" by (metis nonneg_int_cases)
  from fm.find_found [OF A i] FindMajorityFromSlice_key [OF assms(1-3) _ refl]
  obtain k where "map_of (rev (zip (key_counts s ?ks) ?ks)) (?ns ! i) = Some k" "unat thr \<le> count_list s k" by blast
  then show "unat thr \<le> count_list s (snd (FindMajorityFromSlice order tot thr s))"
    using i by (simp add: FindMajorityFromSlice_unfold Let_def)
qed

lemma FindMajorityFromSlice_draw:
  assumes "length s \<le> unat tot" and "mset (order (remdups s)) = mset (remdups s)" and "0 < thr" and "thr \<le> tot"
  shows "fst (FindMajorityFromSlice order tot thr s) = VoteResultDraw \<longleftrightarrow>
    (\<forall>rest k. length (s @ rest) \<le> unat tot \<longrightarrow> count_list (s @ rest) k < unat thr)"
  using draw_completions [OF assms] by (auto simp: FindMajorityFromSlice_unfold Let_def)

lemma FindMajorityFromSlice_range:
  "fst (FindMajorityFromSlice order tot thr s) \<in> {VoteResultNotYet, VoteResultDraw, VoteResultMajority}"
  by (simp add: FindMajorityFromSlice_unfold Let_def)

lemma FindMajorityFromSlice_nil:
  "fst (FindMajorityFromSlice order tot thr s) \<noteq> VoteResultMajority \<Longrightarrow>
   snd (FindMajorityFromSlice order tot thr s) = ''''"
  by (auto simp: FindMajorityFromSlice_unfold Let_def split: if_splits)

subsection \<open>A threshold that makes quorums intersect\<close>

locale quorum =
  fixes quota :: "nat \<Rightarrow> ratio \<Rightarrow> int"
  assumes quota_pos: "threshold_args n rt \<Longrightarrow> 1 \<le> quota n rt"
    and quota_le: "threshold_args n rt \<Longrightarrow> quota n rt \<le> int n"
    and quota_super: "threshold_args n rt \<Longrightarrow> 67 \<le> rt \<Longrightarrow> 2 * int n < 3 * quota n rt"
begin

lemma quorums_intersect:
  assumes "threshold_args (card N) rt" and "67 \<le> rt" and "finite N" and "A \<subseteq> N" and "B \<subseteq> N"
    and "quota (card N) rt \<le> int (card A)" and "quota (card N) rt \<le> int (card B)"
  shows "card N < 3 * card (A \<inter> B)"
proof -
  have "finite A" "finite B" using assms(3-5) finite_subset by blast+
  then have "card A + card B = card (A \<union> B) + card (A \<inter> B)" by (rule card_Un_Int)
  moreover have "card (A \<union> B) \<le> card N" using assms(3-5) by (intro card_mono) auto
  moreover note quota_super [OF assms(1,2)]
  ultimately show ?thesis using assms(6,7) by linarith
qed

lemma quorum_excludes:
  "threshold_args n rt \<Longrightarrow> 67 \<le> rt \<Longrightarrow> 3 * f \<le> n \<Longrightarrow> int f < quota n rt"
  using quota_super [of n rt] by linarith

end

interpretation tq: quorum threshold_ceil
  by unfold_locales (auto intro: ceil_bounds supermajority)

section \<open>Properties\<close>

lemma NewThreshold_Ok:
  assumes "threshold_args (unat tot) r" and "1 \<le> r"
  shows "NewThreshold tot r = Ok \<lparr>thr_Total = tot, thr_Threshold = threshold_count tot r, thr_Ratio = r\<rparr>"
    and "1 \<le> threshold_count tot r" and "threshold_count tot r \<le> tot"
proof -
  note b = ceil_bounds [OF assms(1)] and u = unat_threshold_count [OF assms(1)]
  have "1 \<le> unat (threshold_count tot r)" using b(1) u by linarith
  then show lo: "1 \<le> threshold_count tot r" by (simp add: word_le_nat_alt)
  show hi: "threshold_count tot r \<le> tot" using b(2) u unfolding word_le_nat_alt by linarith
  have "\<not> tot < 1" using total_pos [OF assms(1)] by (simp add: word_less_nat_alt)
  with hi show "NewThreshold tot r = Ok \<lparr>thr_Total = tot, thr_Threshold = threshold_count tot r, thr_Ratio = r\<rparr>"
    using assms(2) ratio_le [OF assms(1)]
    by (simp add: NewThreshold_def Threshold_IsValid_def ThresholdRatio_IsValid_def fail_if_def)
qed

lemma NewThreshold_values:
  assumes "NewThreshold tot r = Ok t"
  shows "t = \<lparr>thr_Total = tot, thr_Threshold = threshold_count tot r, thr_Ratio = r\<rparr>" and "r \<le> 100" and "1 \<le> tot"
proof -
  have v: "Threshold_IsValid \<lparr>thr_Total = tot, thr_Threshold = threshold_count tot r, thr_Ratio = r\<rparr> = Ok ()"
    and "t = \<lparr>thr_Total = tot, thr_Threshold = threshold_count tot r, thr_Ratio = r\<rparr>"
    using assms by (auto simp: NewThreshold_def Let_def bind_res_Ok_iff)
  then show "t = \<lparr>thr_Total = tot, thr_Threshold = threshold_count tot r, thr_Ratio = r\<rparr>" by simp
  from v show "r \<le> 100" "1 \<le> tot"
    unfolding Threshold_IsValid_def seq_Ok_iff by (auto simp: ThresholdRatio_IsValid_def not_less word_le_nat_alt Suc_le_eq unat_gt_0 split: if_splits)
qed

lemma NewThreshold_super:
  assumes "NewThreshold tot r = Ok t" and "67 \<le> r" and "tot \<le> 2 ^ 53"
  shows "threshold_args (unat tot) r" and "thr_Total t = tot" and "int (unat (thr_Threshold t)) = threshold_ceil (unat tot) r"
    and "thr_Threshold t \<le> tot" and "2 * unat tot < 3 * unat (thr_Threshold t)"
proof -
  note f = NewThreshold_values [OF assms(1)]
  show A: "threshold_args (unat tot) r"
    using f assms(2,3) by (intro threshold_argsI) (simp_all add: word_le_nat_alt)
  show "thr_Total t = tot" by (simp add: f(1))
  show u: "int (unat (thr_Threshold t)) = threshold_ceil (unat tot) r" using unat_threshold_count [OF A] by (simp add: f(1))
  show "thr_Threshold t \<le> tot" using ceil_bounds(2) [OF A] unfolding u [symmetric] by (simp only: word_le_nat_alt of_nat_le_iff)
  show "2 * unat tot < 3 * unat (thr_Threshold t)" using supermajority [OF A assms(2)] unfolding u [symmetric] by linarith
qed

lemma NewThreshold_quorum:
  assumes "NewThreshold tot r = Ok t" and "67 \<le> r" and "tot \<le> 2 ^ 53"
    and "finite N" and "card N = unat tot" and "A \<subseteq> N" and "B \<subseteq> N"
    and "unat (thr_Threshold t) \<le> card A" and "unat (thr_Threshold t) \<le> card B"
  shows "card N < 3 * card (A \<inter> B)"
proof -
  note t = NewThreshold_super [OF assms(1-3)]
  from t(1) assms(5) have "threshold_args (card N) r" by simp
  moreover have "threshold_ceil (card N) r \<le> int (card A)" "threshold_ceil (card N) r \<le> int (card B)"
    using assms(8,9) unfolding assms(5) t(3) [symmetric] by (simp_all only: of_nat_le_iff)
  ultimately show ?thesis using tq.quorums_intersect [OF _ assms(2,4,6,7)] by blast
qed

text \<open>
  C3: a threshold built by \<open>NewThreshold\<close> from at most \<open>2^53\<close> voters and a ratio in \<open>[67, 100]\<close> makes quorums
  intersect: two sets of voters that both reach the threshold share more than a third of all voters, although
  the threshold is computed in floating point.
\<close>

theorem quorum_intersection:
  assumes "NewThreshold tot r = Ok t" and "67 \<le> r" and "tot \<le> 2 ^ 53"
    and "finite N" and "card N = unat tot" and "A \<subseteq> N" and "B \<subseteq> N"
    and "unat (thr_Threshold t) \<le> card A" and "unat (thr_Threshold t) \<le> card B"
  shows "card N < 3 * card (A \<inter> B)"
  by (rule NewThreshold_quorum [OF assms])

theorem quorum_intersection_witness:
  "NewThreshold 4 67 = Ok \<lparr>thr_Total = 4, thr_Threshold = 3, thr_Ratio = 67\<rparr> \<and>
   card {1::nat, 2, 3, 4} < 3 * card ({1::nat, 2, 3} \<inter> {2, 3, 4})"
proof -
  have c: "threshold_count 4 67 = 3" by code_simp
  have n: "NewThreshold 4 67 = Ok \<lparr>thr_Total = 4, thr_Threshold = 3, thr_Ratio = 67\<rparr>"
    using NewThreshold_Ok(1) [of 4 67] by (simp add: c threshold_args_def)
  from n quorum_intersection [OF n, of "{1::nat, 2, 3, 4}" "{1, 2, 3}" "{2, 3, 4}"] show ?thesis
    by simp
qed

text \<open>
  C38: \<open>NewThreshold\<close> succeeds for every ratio in \<open>[1, 100]\<close> and every number of voters from 1 to \<open>2^53\<close>; the
  threshold it computes is at least one vote and at most all of them.
\<close>

theorem NewThreshold_succeeds:
  assumes "1 \<le> tot" and "tot \<le> 2 ^ 53" and "1 \<le> r" and "r \<le> 100"
  shows "\<exists>t. NewThreshold tot r = Ok t \<and> thr_Total t = tot \<and> thr_Ratio t = r \<and>
    1 \<le> thr_Threshold t \<and> thr_Threshold t \<le> tot"
proof -
  have "threshold_args (unat tot) r"
    using assms by (intro threshold_argsI) (simp_all add: word_le_nat_alt)
  from NewThreshold_Ok [OF this assms(3)] show ?thesis by simp
qed

theorem NewThreshold_succeeds_witness:
  "\<exists>t. NewThreshold 10 60 = Ok t \<and> thr_Total t = 10 \<and> thr_Ratio t = 60 \<and> 1 \<le> thr_Threshold t \<and> thr_Threshold t \<le> 10"
  using NewThreshold_succeeds [of 10 60] by simp

text \<open>
  For a whole-number ratio of at most \<open>2^45\<close> voters the computed threshold is never below the exact ceiling
  of \<open>total * ratio / 100\<close> and at most one vote above it.
\<close>

theorem threshold_near_ideal:
  assumes "1 \<le> tot" and "unat tot \<le> 2 ^ 45" and "1 \<le> k" and "k \<le> 100"
  shows "\<lceil>of_nat (unat tot * k) / 100 :: rat\<rceil> \<le> int (unat (threshold_count tot (of_nat k)))
    \<and> int (unat (threshold_count tot (of_nat k))) \<le> \<lceil>of_nat (unat tot * k) / 100 :: rat\<rceil> + 1"
proof -
  have A: "threshold_args (unat tot) (of_nat k)"
    using assms by (intro threshold_argsI) (simp_all add: word_le_nat_alt)
  from integral_ratio [OF A refl assms(2)] show ?thesis by (simp only: unat_threshold_count [OF A] simp_thms)
qed

theorem threshold_near_ideal_witness:
  "\<lceil>of_nat (unat (75 :: u64) * 68) / 100 :: rat\<rceil> \<le> int (unat (threshold_count 75 (of_nat 68)))
    \<and> int (unat (threshold_count 75 (of_nat 68))) \<le> \<lceil>of_nat (unat (75 :: u64) * 68) / 100 :: rat\<rceil> + 1"
  by (rule threshold_near_ideal) simp_all

text \<open>
  The rounding does add a vote: for 75 voters and ratio 68 the exact ceiling is 51, the code computes 52.
\<close>

theorem threshold_overshoot:
  "threshold_count 75 68 = 52 \<and> \<lceil>of_nat (75 * 68) / 100 :: rat\<rceil> = 51"
proof
  show "threshold_count 75 68 = 52" by code_simp
  show "\<lceil>of_nat (75 * 68) / 100 :: rat\<rceil> = 51" by (simp add: ceiling_eq_iff)
qed

text \<open>
  C18: \<open>FindMajorityFromSlice\<close> decides a vote exactly, whatever the iteration order of Go's map: for at most
  \<open>total\<close> votes and a threshold above half of them it reports a majority for \<open>k\<close> iff \<open>k\<close> has reached the threshold,
  a draw iff no way of casting the outstanding votes lets any key reach it, and not-yet otherwise.
\<close>

theorem FindMajorityFromSlice_correct:
  assumes "\<forall>xs. mset (order xs) = mset xs" and "length s \<le> unat tot" and "thr \<le> tot" and "unat tot < 2 * unat thr"
  shows "(\<forall>k. FindMajorityFromSlice order tot thr s = (VoteResultMajority, k) \<longleftrightarrow> unat thr \<le> count_list s k)
    \<and> (FindMajorityFromSlice order tot thr s = (VoteResultDraw, '''') \<longleftrightarrow>
        (\<forall>rest k. length (s @ rest) \<le> unat tot \<longrightarrow> count_list (s @ rest) k < unat thr))
    \<and> (FindMajorityFromSlice order tot thr s = (VoteResultNotYet, '''') \<longleftrightarrow>
        (\<forall>k. count_list s k < unat thr) \<and> (\<exists>rest k. length (s @ rest) \<le> unat tot \<and> unat thr \<le> count_list (s @ rest) k))"
proof -
  let ?r = "FindMajorityFromSlice order tot thr s"
  have p: "0 < thr" using assms(4) by (auto simp: word_greater_zero_iff)
  note m = FindMajorityFromSlice_majority [where order = order, OF assms(2) assms(1) [THEN spec, of "remdups s"] p assms(3)]
  note d = FindMajorityFromSlice_draw [where order = order, OF assms(2) assms(1) [THEN spec, of "remdups s"] p assms(3)]
  note n = FindMajorityFromSlice_nil [of order tot thr s] and rg = FindMajorityFromSlice_range [of order tot thr s]
  have uniq: "j = k" if "unat thr \<le> count_list s j" "unat thr \<le> count_list s k" for j k
    using that count_list_two [of j k s] assms(2,4) by linarith
  have maj: "?r = (VoteResultMajority, k) \<longleftrightarrow> unat thr \<le> count_list s k" for k
    using m uniq [of "snd ?r" k] by (cases ?r) auto
  have dr: "?r = (VoteResultDraw, '''') \<longleftrightarrow> fst ?r = VoteResultDraw" using n by (cases ?r) auto
  have ny: "?r = (VoteResultNotYet, '''') \<longleftrightarrow> fst ?r \<noteq> VoteResultMajority \<and> fst ?r \<noteq> VoteResultDraw"
    using n rg by (cases ?r) auto
  have "(\<forall>k. count_list s k < unat thr) \<longleftrightarrow> fst ?r \<noteq> VoteResultMajority" using m(1) by (auto simp: not_le)
  with maj dr ny d show ?thesis by (simp add: not_less del: length_append)
qed

theorem FindMajorityFromSlice_correct_witness:
  "FindMajorityFromSlice rev 4 3 [''a'', ''b'', ''a'', ''a''] = (VoteResultMajority, ''a'')
   \<and> FindMajorityFromSlice rev 4 3 [''a'', ''b'', ''a'', ''b''] \<noteq> (VoteResultMajority, ''a'')"
  using FindMajorityFromSlice_correct [of rev "[''a'', ''b'', ''a'', ''a'']" 4 3]
    FindMajorityFromSlice_correct [of rev "[''a'', ''b'', ''a'', ''b'']" 4 3] by simp

end
