(* ===== verification/Mitum_Fact.thy ===== *)
theory Mitum_Fact
  imports Mitum_Address Mitum_Vote
begin

text \<open>
  Ballot facts and their signatures: \<^verbatim>\<open>src/base/ballot/fact.go\<close>, \<open>init.go\<close>, \<open>accept.go\<close>, \<open>proposal.go\<close> (the fact half of each),
  \<^verbatim>\<open>src/base/fact_sign.go\<close> and \<^verbatim>\<open>src/base/ballot_fact_sign.go\<close>. The three implementations of \<open>base.BallotFact\<close> are the
  constructors of \<open>ballot_fact\<close>; a nil interface is \<open>None\<close>. The current time that \<open>localtime.UTCNow\<close> returns is the
  argument \<open>now\<close>. The lemmas: constructors build valid facts, signing a fact gives a valid signed fact, a fact's hash
  determines its point (height and round), and what the hash does not determine.
\<close>

section \<open>Hints of ballots and facts\<close>

definition INITBallotType :: hint_type where "INITBallotType = ''init-ballot''"
definition ProposalType :: hint_type where "ProposalType = ''proposal''"
definition ACCEPTBallotType :: hint_type where "ACCEPTBallotType = ''accept-ballot''"
definition INITBallotFactType :: hint_type where "INITBallotFactType = ''init-ballot-fact''"
definition ProposalFactType :: hint_type where "ProposalFactType = ''proposal-fact''"
definition ACCEPTBallotFactType :: hint_type where "ACCEPTBallotFactType = ''accept-ballot-fact''"

definition INITFactHint :: hint where "INITFactHint = NewHint INITBallotFactType ''v0.0.1''"
definition ProposalFactHint :: hint where "ProposalFactHint = NewHint ProposalFactType ''v0.0.1''"
definition ACCEPTFactHint :: hint where "ACCEPTFactHint = NewHint ACCEPTBallotFactType ''v0.0.1''"
definition BaseFactSignHint :: hint where "BaseFactSignHint = NewHint ''base-fact-sign'' ''v0.0.1''"
definition BallotFactSignHint :: hint where "BallotFactSignHint = NewHint ''ballot-fact-sign'' ''v0.0.1''"
definition SignedBallotFactHint :: hint where "SignedBallotFactHint = NewHint ''signed-ballot-fact'' ''v0.0.1''"

lemmas fact_types = INITBallotFactType_def ProposalFactType_def ACCEPTBallotFactType_def
lemmas fact_hints = INITFactHint_def ProposalFactHint_def ACCEPTFactHint_def

section \<open>Facts\<close>

record base_fact =
  bf_ht :: hint
  bf_h :: "hash option"
  bf_height :: height
  bf_round :: round

datatype ballot_fact =
    INITFact (fact_base: base_fact) (previousBlock: "hash option")
  | ProposalFact (fact_base: base_fact) (proposer: "address option") (fact_ops: "hash option list") (proposedAt: gotime)
  | ACCEPTFact (fact_base: base_fact) (fact_proposal: "hash option") (newBlock: "hash option")

definition NewBaseFact :: "hint \<Rightarrow> height \<Rightarrow> round \<Rightarrow> base_fact" where
  "NewBaseFact ht h r = \<lparr>bf_ht = ht, bf_h = None, bf_height = h, bf_round = r\<rparr>"

definition BaseFact_bytes :: "base_fact \<Rightarrow> bytes" where
  "BaseFact_bytes fct = ConcatBytesSlice [Height_Bytes (bf_height fct), Round_Bytes (bf_round fct)]"

definition BaseFact_IsValid :: "lib \<Rightarrow> base_fact \<Rightarrow> unit res" where
  "BaseFact_IsValid L fct = seq [
     map_err (\<lambda>e. NError_Errorf InvalidError ''invalid ballot fact: %w'' (Some e))
       (isvalid_Check False
          [Some (Hint_IsValid L (bf_ht fct)), map_option Hash_IsValid (bf_h fct),
           Some (Height_IsValid (bf_height fct))]),
     fail_if (bf_height fct \<le> PreGenesisHeight) (Errorf InvalidError ''invalid height, %q of ballot fact'')]"

definition BaseFact_Stage :: "base_fact \<Rightarrow> stage" where
  "BaseFact_Stage fct =
     (if hint_ty (bf_ht fct) = INITBallotFactType then StageINIT
      else if hint_ty (bf_ht fct) = ProposalFactType then StageProposal
      else if hint_ty (bf_ht fct) = ACCEPTBallotFactType then StageACCEPT else 0)"

definition Fact_Hash :: "ballot_fact \<Rightarrow> hash option" where
  "Fact_Hash fct = bf_h (fact_base fct)"

definition Fact_Stage :: "ballot_fact \<Rightarrow> stage" where
  "Fact_Stage fct = BaseFact_Stage (fact_base fct)"

definition Fact_Height :: "ballot_fact \<Rightarrow> height" where
  "Fact_Height fct = bf_height (fact_base fct)"

definition Fact_Round :: "ballot_fact \<Rightarrow> round" where
  "Fact_Round fct = bf_round (fact_base fct)"

definition opt_bytes :: "hash option \<Rightarrow> bytes" where
  "opt_bytes h = (case h of None \<Rightarrow> [] | Some h \<Rightarrow> Hash_Bytes h)"

text \<open>
  \<open>bytes\<close> of each fact. In \<open>ACCEPTFact.bytes\<close> the bytes of the new block are assigned to the variable that held the bytes of
  the proposal, as in the source.
\<close>

definition INITFact_bytes :: "base_fact \<Rightarrow> hash option \<Rightarrow> bytes" where
  "INITFact_bytes b prev = ConcatBytesSlice [BaseFact_bytes b, opt_bytes prev]"

definition ProposalFact_bytes :: "base_fact \<Rightarrow> address option \<Rightarrow> hash option list \<Rightarrow> gotime \<Rightarrow> bytes" where
  "ProposalFact_bytes b p ops t =
     ConcatBytesSlice [BaseFact_bytes b, (case p of None \<Rightarrow> [] | Some a \<Rightarrow> Address_Bytes a),
       ConcatBytesSlice (map opt_bytes ops), Time_Bytes t]"

definition ACCEPTFact_bytes :: "base_fact \<Rightarrow> hash option \<Rightarrow> hash option \<Rightarrow> bytes" where
  "ACCEPTFact_bytes b p nb =
     (let bp = [];
          bp = (case p of None \<Rightarrow> bp | Some h \<Rightarrow> Hash_Bytes h);
          bp = (case nb of None \<Rightarrow> bp | Some h \<Rightarrow> Hash_Bytes h);
          bb = []
      in ConcatBytesSlice [BaseFact_bytes b, bp, bb])"

fun Fact_bytes :: "ballot_fact \<Rightarrow> bytes" where
  "Fact_bytes (INITFact b prev) = INITFact_bytes b prev"
| "Fact_bytes (ProposalFact b p ops t) = ProposalFact_bytes b p ops t"
| "Fact_bytes (ACCEPTFact b p nb) = ACCEPTFact_bytes b p nb"

definition isValidFact :: "lib \<Rightarrow> ballot_fact \<Rightarrow> unit res" where
  "isValidFact L fct = seq [
     map_err (\<lambda>e. NError_Errorf InvalidError ''invalid ballot fact, %T: %w'' (Some e)) (BaseFact_IsValid L (fact_base fct)),
     (case Fact_Hash fct of
        None \<Rightarrow> Panic
      | Some h \<Rightarrow> fail_if (\<not> Hash_Equal h (NewSHA256 L (Fact_bytes fct)))
                   (Errorf InvalidError ''ballot fact hash does not match''))]"

fun proposal_ops_valid :: "lib \<Rightarrow> string set \<Rightarrow> hash option list \<Rightarrow> unit res" where
  "proposal_ops_valid L founds [] = Ok ()"
| "proposal_ops_valid L founds (None # ops) = Err (Errorf InvalidError ''empty operation hash found in proposal'')"
| "proposal_ops_valid L founds (Some h # ops) =
     (case Hash_IsValid h of
        Err e \<Rightarrow> Err (NError_Errorf InvalidError ''invalid operation hash found in proposal: %w'' (Some e))
      | Panic \<Rightarrow> Panic
      | Ok _ \<Rightarrow>
          if Hash_String L h \<in> founds then Err (Errorf InvalidError ''duplicated operaiotn found in proposal'')
          else proposal_ops_valid L (insert (Hash_String L h) founds) ops)"

definition INITFact_IsValid :: "lib \<Rightarrow> base_fact \<Rightarrow> hash option \<Rightarrow> unit res" where
  [simp]: "INITFact_IsValid L b prev = seq [
     isValidFact L (INITFact b prev), isvalid_Check False [map_option Hash_IsValid prev]]"

definition ProposalFact_IsValid :: "lib \<Rightarrow> base_fact \<Rightarrow> address option \<Rightarrow> hash option list \<Rightarrow> gotime \<Rightarrow> unit res" where
  [simp]: "ProposalFact_IsValid L b p ops t = seq [
     fail_if (time_IsZero t) (Errorf InvalidError ''empty proposed at''),
     isValidFact L (ProposalFact b p ops t),
     isvalid_Check False [map_option (Address_IsValid L) p],
     proposal_ops_valid L {} ops]"

definition ACCEPTFact_IsValid :: "lib \<Rightarrow> base_fact \<Rightarrow> hash option \<Rightarrow> hash option \<Rightarrow> unit res" where
  [simp]: "ACCEPTFact_IsValid L b p nb = seq [
     isValidFact L (ACCEPTFact b p nb),
     isvalid_Check False [map_option Hash_IsValid p, map_option Hash_IsValid nb]]"

fun Fact_IsValid :: "lib \<Rightarrow> ballot_fact \<Rightarrow> unit res" where
  "Fact_IsValid L (INITFact b prev) = INITFact_IsValid L b prev"
| "Fact_IsValid L (ProposalFact b p ops t) = ProposalFact_IsValid L b p ops t"
| "Fact_IsValid L (ACCEPTFact b p nb) = ACCEPTFact_IsValid L b p nb"

definition NewINITFact :: "lib \<Rightarrow> height \<Rightarrow> round \<Rightarrow> hash option \<Rightarrow> ballot_fact" where
  "NewINITFact L h r prev =
     (let b = NewBaseFact INITFactHint h r
      in INITFact (b\<lparr>bf_h := Some (NewSHA256 L (INITFact_bytes b prev))\<rparr>) prev)"

definition NewACCEPTFact :: "lib \<Rightarrow> height \<Rightarrow> round \<Rightarrow> hash option \<Rightarrow> hash option \<Rightarrow> ballot_fact" where
  "NewACCEPTFact L h r p nb =
     (let b = NewBaseFact ACCEPTFactHint h r
      in ACCEPTFact (b\<lparr>bf_h := Some (NewSHA256 L (ACCEPTFact_bytes b p nb))\<rparr>) p nb)"

definition NewProposalFact ::
  "lib \<Rightarrow> gotime \<Rightarrow> height \<Rightarrow> round \<Rightarrow> address option \<Rightarrow> hash option list \<Rightarrow> ballot_fact" where
  "NewProposalFact L now h r p ops =
     (let b = NewBaseFact ProposalFactHint h r
      in ProposalFact (b\<lparr>bf_h := Some (NewSHA256 L (ProposalFact_bytes b p ops now))\<rparr>) p ops now)"

section \<open>Fact signatures\<close>

record fact_sign =
  fs_ht :: hint
  fs_signer :: "publickey option"
  fs_signature :: signature
  fs_signedAt :: gotime

record ballot_fact_sign = fact_sign +
  fs_node :: "address option"

definition NewBytesForFactSignature :: "hash \<Rightarrow> bytes \<Rightarrow> bytes" where
  "NewBytesForFactSignature fh b = ConcatBytesSlice [Hash_Bytes fh, b]"

definition NewFactSignature :: "lib \<Rightarrow> privatekey \<Rightarrow> hash \<Rightarrow> bytes \<Rightarrow> signature res" where
  "NewFactSignature L signer fh b = Privatekey_Sign L signer (NewBytesForFactSignature fh b)"

definition NewBaseFactSignWithHint :: "gotime \<Rightarrow> hint \<Rightarrow> publickey option \<Rightarrow> signature \<Rightarrow> fact_sign" where
  "NewBaseFactSignWithHint now ht signer sig =
     \<lparr>fs_ht = ht, fs_signer = signer, fs_signature = sig, fs_signedAt = now\<rparr>"

definition NewBaseFactSign :: "gotime \<Rightarrow> publickey option \<Rightarrow> signature \<Rightarrow> fact_sign" where
  "NewBaseFactSign now signer sig = NewBaseFactSignWithHint now BaseFactSignHint signer sig"

text \<open>\<open>fs.signer.Bytes()\<close> on a nil signer panics.\<close>

definition FactSign_Bytes :: "'a fact_sign_scheme \<Rightarrow> bytes res" where
  "FactSign_Bytes fs =
     (case fs_signer fs of
        None \<Rightarrow> Panic
      | Some k \<Rightarrow> Ok (ConcatBytesSlice [pub_b k, Signature_Bytes (fs_signature fs), Time_Bytes (fs_signedAt fs)]))"

definition FactSign_IsValid :: "lib \<Rightarrow> 'a fact_sign_scheme \<Rightarrow> unit res" where
  "FactSign_IsValid L fs =
     (if time_IsZero (fs_signedAt fs) then Err (Errorf InvalidError ''empty SignedAt'')
      else isvalid_Check False
        [Some (Hint_IsValid L (fs_ht fs)), map_option Publickey_IsValid (fs_signer fs),
         Some (Signature_IsValid (fs_signature fs))])"

definition IsValidFactSign :: "lib \<Rightarrow> hash option option \<Rightarrow> fact_sign option \<Rightarrow> bytes \<Rightarrow> unit res" where
  "IsValidFactSign L fct fs b =
     (case fct of
        Some (Some fh) \<Rightarrow>
          (case fs of
             None \<Rightarrow> Err (Errorf InvalidError ''empty FactSign'')
           | Some fs \<Rightarrow>
               (case fs_signer fs of
                  None \<Rightarrow> Err (Errorf InvalidError ''FactSign has empty Signer()'')
                | Some k \<Rightarrow>
                    if fs_signature fs = None then Err (Errorf InvalidError ''FactSign has empty Signature()'')
                    else map_err (\<lambda>e. NError_Errorf InvalidError ''invalid fact sign signature: %w'' (Some e))
                      (Publickey_Verify L k (ConcatBytesSlice [Hash_Bytes fh, b]) (fs_signature fs))))
      | _ \<Rightarrow> Err (Errorf InvalidError ''empty Fact''))"

definition NewBaseBallotFactSign ::
  "address option \<Rightarrow> publickey option \<Rightarrow> gotime \<Rightarrow> signature \<Rightarrow> ballot_fact_sign" where
  "NewBaseBallotFactSign n pub signedAt sig =
     \<lparr>fs_ht = BallotFactSignHint, fs_signer = pub, fs_signature = sig, fs_signedAt = signedAt, fs_node = n\<rparr>"

definition NewBaseBallotFactSignFromFact ::
  "lib \<Rightarrow> gotime \<Rightarrow> ballot_fact \<Rightarrow> address \<Rightarrow> privatekey \<Rightarrow> bytes \<Rightarrow> ballot_fact_sign res" where
  "NewBaseBallotFactSignFromFact L now fct n priv networkID =
     (case Fact_Hash fct of
        None \<Rightarrow> Panic
      | Some fh \<Rightarrow>
          bind_res (Privatekey_Sign L priv (ConcatBytesSlice [Hash_Bytes fh, Time_Bytes now, networkID]))
            (\<lambda>sig. Ok (NewBaseBallotFactSign (Some n) (Some (priv_pub priv)) now sig)))"

definition BallotFactSign_IsValid :: "lib \<Rightarrow> ballot_fact_sign \<Rightarrow> unit res" where
  "BallotFactSign_IsValid L fs =
     map_err (\<lambda>e. NError_Errorf InvalidError ''invalid ballot fact sign: %w'' (Some e))
       (isvalid_Check False [map_option (Address_IsValid L) (fs_node fs), Some (FactSign_IsValid L fs)])"

definition BallotFactSign_Bytes :: "ballot_fact_sign \<Rightarrow> bytes res" where
  "BallotFactSign_Bytes fs =
     bind_res (FactSign_Bytes fs) (\<lambda>b.
       case fs_node fs of None \<Rightarrow> Panic | Some n \<Rightarrow> Ok (ConcatBytesSlice [b, Address_Bytes n]))"

text \<open>The stage check of a proposal: its proposer signs it.\<close>

definition proposal_signed_by :: "lib \<Rightarrow> ballot_fact \<Rightarrow> address option \<Rightarrow> unit res" where
  "proposal_signed_by L fct node =
     (if Fact_Stage fct = StageProposal then
        (case fct of
           ProposalFact b p ops t \<Rightarrow>
             (case p of
                None \<Rightarrow> Panic
              | Some a \<Rightarrow> fail_if (\<not> Address_Equal L a node)
                  (Errorf InvalidError ''proposal fact is not signed by factsign node''))
         | _ \<Rightarrow> Err (Errorf InvalidError ''proposal fact has wrong type; %T''))
      else Ok ())"

definition IsValidBallotFactSign ::
  "lib \<Rightarrow> ballot_fact option \<Rightarrow> ballot_fact_sign option \<Rightarrow> bytes \<Rightarrow> unit res" where
  "IsValidBallotFactSign L fct fs b =
     (case (fct, Option.bind fct Fact_Hash) of
        (Some fct, Some fh) \<Rightarrow>
          (case fs of
             None \<Rightarrow> Err (Errorf InvalidError ''empty FactSign'')
           | Some fs \<Rightarrow>
               (case fs_signer fs of
                  None \<Rightarrow> Err (Errorf InvalidError ''FactSign has empty Signer()'')
                | Some k \<Rightarrow> seq [
                    fail_if (fs_signature fs = None) (Errorf InvalidError ''FactSign has empty Signature()''),
                    fail_if (time_IsZero (fs_signedAt fs)) (Errorf InvalidError ''FactSign has empty SignedAt()''),
                    proposal_signed_by L fct (fs_node fs),
                    map_err (\<lambda>e. NError_Errorf InvalidError ''invalid ballot fact sign: %w'' (Some e))
                      (Publickey_Verify L k
                        (ConcatBytesSlice [Hash_Bytes fh, Time_Bytes (fs_signedAt fs), b]) (fs_signature fs))]))
      | _ \<Rightarrow> Err (Errorf InvalidError ''empty Fact''))"

record signed_fact =
  sf_ht :: hint
  sf_fact :: "ballot_fact option"
  sf_factSign :: "ballot_fact_sign option"

definition NewBaseSignedBallotFact :: "ballot_fact option \<Rightarrow> ballot_fact_sign option \<Rightarrow> signed_fact" where
  "NewBaseSignedBallotFact fct fs = \<lparr>sf_ht = SignedBallotFactHint, sf_fact = fct, sf_factSign = fs\<rparr>"

definition NewBaseSignedBallotFactFromFact ::
  "lib \<Rightarrow> gotime \<Rightarrow> ballot_fact \<Rightarrow> address \<Rightarrow> privatekey \<Rightarrow> bytes \<Rightarrow> signed_fact res" where
  "NewBaseSignedBallotFactFromFact L now fct n priv networkID =
     bind_res (NewBaseBallotFactSignFromFact L now fct n priv networkID)
       (\<lambda>fs. Ok (NewBaseSignedBallotFact (Some fct) (Some fs)))"

definition SignedFact_IsValid :: "lib \<Rightarrow> signed_fact \<Rightarrow> bytes \<Rightarrow> unit res" where
  "SignedFact_IsValid L sfs networkID = seq [
     isvalid_Check False
       [Some (Hint_IsValid L (sf_ht sfs)), map_option (Fact_IsValid L) (sf_fact sfs),
        map_option (BallotFactSign_IsValid L) (sf_factSign sfs)],
     IsValidBallotFactSign L (sf_fact sfs) (sf_factSign sfs) networkID]"

definition SignedFact_Bytes :: "signed_fact \<Rightarrow> bytes res" where
  "SignedFact_Bytes sfs =
     (case (Option.bind (sf_fact sfs) Fact_Hash, sf_factSign sfs) of
        (Some fh, Some fs) \<Rightarrow>
          bind_res (BallotFactSign_Bytes fs) (\<lambda>b. Ok (ConcatBytesSlice [Hash_Bytes fh, b]))
      | _ \<Rightarrow> Panic)"

section \<open>Lemmas\<close>

lemma std_hint_valid:
  assumes "Type_IsValid ty = Ok ()" and "semver_IsValid L ''v0.0.1''"
  shows "Hint_IsValid L (NewHint ty ''v0.0.1'') = Ok ()"
proof -
  have "ty \<noteq> []" using assms(1) by (auto simp: Type_IsValid_def minTypeLength_def)
  then show ?thesis using assms
    by (simp add: Hint_IsValid_def Hint_IsZero_def NewHint_def MaxVersionLength_def fail_if_def Suc_le_eq)
qed

lemma fact_hint_types_valid:
  "Type_IsValid INITBallotFactType = Ok ()" "Type_IsValid ProposalFactType = Ok ()" "Type_IsValid ACCEPTBallotFactType = Ok ()"
  "Type_IsValid ''ballot-fact-sign'' = Ok ()" "Type_IsValid ''signed-ballot-fact'' = Ok ()"
  by code_simp+

lemma fact_hints_valid:
  assumes "semver_IsValid L ''v0.0.1''"
  shows "Hint_IsValid L INITFactHint = Ok ()" "Hint_IsValid L ProposalFactHint = Ok ()" "Hint_IsValid L ACCEPTFactHint = Ok ()"
    "Hint_IsValid L BallotFactSignHint = Ok ()" "Hint_IsValid L SignedBallotFactHint = Ok ()"
  using assms by (simp_all add: fact_hints BallotFactSignHint_def SignedBallotFactHint_def std_hint_valid fact_hint_types_valid)

text \<open>The hash field does not enter the bytes of a fact.\<close>

lemma Fact_bytes_hash_free [simp]:
  "BaseFact_bytes (b\<lparr>bf_h := x\<rparr>) = BaseFact_bytes b"
  "INITFact_bytes (b\<lparr>bf_h := x\<rparr>) prev = INITFact_bytes b prev"
  "ACCEPTFact_bytes (b\<lparr>bf_h := x\<rparr>) p nb = ACCEPTFact_bytes b p nb"
  "ProposalFact_bytes (b\<lparr>bf_h := x\<rparr>) q ops t = ProposalFact_bytes b q ops t"
  by (simp_all add: BaseFact_bytes_def INITFact_bytes_def ACCEPTFact_bytes_def ProposalFact_bytes_def Let_def)

lemma ACCEPTFact_bytes_eq:
  "ACCEPTFact_bytes b p nb = BaseFact_bytes b @ (if nb = None then opt_bytes p else opt_bytes nb)"
  by (cases p; cases nb) (simp_all add: ACCEPTFact_bytes_def Let_def opt_bytes_def)

lemma Fact_bytes_prefix: "take 16 (Fact_bytes f) = BaseFact_bytes (fact_base f)"
proof -
  have "length (BaseFact_bytes b) = 16" for b by (simp add: BaseFact_bytes_def)
  then show ?thesis
    by (cases f) (simp_all add: INITFact_bytes_def ProposalFact_bytes_def ACCEPTFact_bytes_eq)
qed

lemma BaseFact_bytes_inject:
  assumes "BaseFact_bytes a = BaseFact_bytes b" and "is_i64 (bf_height a)" and "is_i64 (bf_height b)"
  shows "bf_height a = bf_height b \<and> bf_round a = bf_round b"
  using assms by (auto simp: BaseFact_bytes_def Height_Bytes_def Round_Bytes_def append_eq_append_conv
      Int64ToBytes_inject)

lemma isValidFact_hash:
  assumes "isValidFact L f = Ok ()"
  shows "\<exists>h. Fact_Hash f = Some h \<and> Hash_Bytes h = sha3_Sum256 L (Fact_bytes f)"
  using assms unfolding isValidFact_def seq_Ok_iff
  by (auto simp: Hash_Equal_def NewSHA256_def split: option.splits)

lemma Fact_IsValid_isValidFact: "Fact_IsValid L f = Ok () \<Longrightarrow> isValidFact L f = Ok ()"
  by (cases f) (auto simp: seq_Ok_iff bind_res_Ok_iff)

lemma Fact_IsValid_hash:
  assumes "Fact_IsValid L f = Ok ()"
  obtains h where "Fact_Hash f = Some h" "Hash_Bytes h = sha3_Sum256 L (Fact_bytes f)"
  using isValidFact_hash [OF Fact_IsValid_isValidFact [OF assms]] that by blast

lemma BaseFact_IsValid_new:
  assumes "semver_IsValid L ''v0.0.1''" and "sha3_shape L" and "0 \<le> h" and "ht \<in> {INITFactHint, ProposalFactHint, ACCEPTFactHint}"
  shows "BaseFact_IsValid L ((NewBaseFact ht h r)\<lparr>bf_h := Some (NewSHA256 L x)\<rparr>) = Ok ()"
  using assms(2,3,4) fact_hints_valid [OF assms(1)]
  by (auto simp: BaseFact_IsValid_def NewBaseFact_def NewSHA256_valid Height_IsValid_def PreGenesisHeight_def bind_res_Ok_iff)

lemma Fact_IsValid_new:
  assumes "semver_IsValid L ''v0.0.1''" and "sha3_shape L" and "0 \<le> h"
  shows "Hash_IsValid prev = Ok () \<Longrightarrow> Fact_IsValid L (NewINITFact L h r (Some prev)) = Ok ()"
    and "Hash_IsValid p = Ok () \<Longrightarrow> Hash_IsValid nb = Ok () \<Longrightarrow> Fact_IsValid L (NewACCEPTFact L h r (Some p) (Some nb)) = Ok ()"
    and "Address_IsValid L a = Ok () \<Longrightarrow> now \<noteq> 0 \<Longrightarrow> proposal_ops_valid L {} ops = Ok () \<Longrightarrow>
      Fact_IsValid L (NewProposalFact L now h r (Some a) ops) = Ok ()"
  using BaseFact_IsValid_new [OF assms]
  by (auto simp: NewINITFact_def NewACCEPTFact_def NewProposalFact_def Let_def isValidFact_def Fact_Hash_def Hash_Equal_def
      time_IsZero_def bind_res_Ok_iff)

lemma proposal_ops_valid_iff:
  "proposal_ops_valid L founds ops = Ok u \<longleftrightarrow>
     (\<exists>hs. ops = map Some hs \<and> (\<forall>h \<in> set hs. Hash_IsValid h = Ok ()) \<and>
        distinct (map (Hash_String L) hs) \<and> Hash_String L ` set hs \<inter> founds = {})"
proof (induction L founds ops rule: proposal_ops_valid.induct)
  case (1 L founds)
  then show ?case by simp
next
  case (2 L founds ops)
  then show ?case by (auto dest: sym)
next
  case (3 L founds h ops)
  have ex: "(\<exists>hs. Some h # ops = map Some hs \<and> P hs) \<longleftrightarrow> (\<exists>hs. ops = map Some hs \<and> P (h # hs))" for P
    by (auto simp: Cons_eq_map_conv)
  show ?case
    using 3 by (cases "Hash_IsValid h") (auto simp: ex)
qed

section \<open>Properties\<close>

lemma NewBaseSignedBallotFactFromFact_valid:
  assumes "btcec_signs L" and "semver_IsValid L ''v0.0.1''" and "Fact_IsValid L f = Ok ()" and "Address_IsValid L n = Ok ()"
    and "now \<noteq> 0" and "proposal_signed_by L f (Some n) = Ok ()"
    and "NewBaseSignedBallotFactFromFact L now f n (newBasePrivatekey L w) nid = Ok sf"
  shows "SignedFact_IsValid L sf nid = Ok ()"
proof -
  let ?k = "newBasePrivatekey L w"
  obtain fh where fh: "Fact_Hash f = Some fh" using Fact_IsValid_hash [OF assms(3)] by blast
  let ?m = "ConcatBytesSlice [Hash_Bytes fh, Time_Bytes now, nid]"
  obtain sig where sig: "Privatekey_Sign L ?k ?m = Ok sig"
    and sf: "sf = NewBaseSignedBallotFact (Some f) (Some (NewBaseBallotFactSign (Some n) (Some (priv_pub ?k)) now sig))"
    using assms(7) fh by (auto simp: NewBaseSignedBallotFactFromFact_def NewBaseBallotFactSignFromFact_def bind_res_Ok_iff)
  have pub: "priv_pub ?k = NewBasePublickey L (btcec_PubKey L w)" "priv_wif ?k = Some (Some w)"
    by (simp_all add: newBasePrivatekey_def Let_def)
  note v = Sign_Verify [OF assms(1) sig pub]
  from v fh assms(2-6) show ?thesis
    by (auto simp: sf SignedFact_IsValid_def NewBaseSignedBallotFact_def NewBaseBallotFactSign_def fact_hints_valid
        BallotFactSign_IsValid_def FactSign_IsValid_def IsValidBallotFactSign_def time_IsZero_def pub(1) bind_res_Ok_iff)
qed

text \<open>
  Signing a valid ballot fact yields a valid signed fact: hint, fact, address, signer, signature and signing time all pass
  \<open>BaseSignedBallotFact.IsValid\<close> under the same network id, provided a proposal is signed by its proposer.
\<close>

theorem signed_fact_valid:
  assumes "btcec_signs L" and "semver_IsValid L ''v0.0.1''" and "Fact_IsValid L f = Ok ()" and "Address_IsValid L n = Ok ()"
    and "now \<noteq> 0" and "proposal_signed_by L f (Some n) = Ok ()"
    and "NewBaseSignedBallotFactFromFact L now f n (newBasePrivatekey L w) nid = Ok sf"
  shows "SignedFact_IsValid L sf nid = Ok ()"
  by (rule NewBaseSignedBallotFactFromFact_valid [OF assms])

theorem signed_fact_valid_witness:
  "\<exists>sf. NewBaseSignedBallotFactFromFact sample_lib 5 (NewINITFact sample_lib 33 0 (Some (HBytes [1]))) (NewStringAddress ''node0'')
      (newBasePrivatekey sample_lib [9]) [1] = Ok sf \<and> SignedFact_IsValid sample_lib sf [1] = Ok ()"
proof -
  let ?f = "NewINITFact sample_lib 33 0 (Some (HBytes [1]))"
  obtain sf where sf: "NewBaseSignedBallotFactFromFact sample_lib 5 ?f (NewStringAddress ''node0'')
      (newBasePrivatekey sample_lib [9]) [1] = Ok sf"
    by (simp add: NewBaseSignedBallotFactFromFact_def NewBaseBallotFactSignFromFact_def NewINITFact_def Let_def Fact_Hash_def
        Privatekey_Sign_def newBasePrivatekey_def sample_lib_def)
  have a: "Address_IsValid sample_lib (NewStringAddress ''node0'') = Ok ()" and s: "semver_IsValid sample_lib ''v0.0.1''"
    by code_simp+
  have f: "Fact_IsValid sample_lib ?f = Ok ()"
    by (rule Fact_IsValid_new [OF s sample_sha3_shape]) (simp_all add: maxBytesHashSize_def)
  have p: "proposal_signed_by sample_lib ?f (Some (NewStringAddress ''node0'')) = Ok ()"
    by (simp add: proposal_signed_by_def Fact_Stage_def BaseFact_Stage_def NewINITFact_def Let_def NewBaseFact_def
        fact_hints NewHint_def fact_types)
  from sf signed_fact_valid [OF sample_btcec_signs s f a _ p sf] show ?thesis by simp
qed

text \<open>
  C23: the hash of a valid ballot fact determines its point: two valid facts with the same hash agree on height and round, and two
  \<open>INITFact\<close>s also on the previous block, or their bytes are an explicit SHA3 collision.
\<close>

theorem fact_hash_binds_point:
  assumes "Fact_IsValid L f = Ok ()" and "Fact_IsValid L g = Ok ()" and "Fact_Hash f = Some hf" and "Fact_Hash g = Some hg"
    and "Hash_Equal hf hg" and "is_i64 (Fact_Height f)" and "is_i64 (Fact_Height g)"
  shows "sha_collision L (Fact_bytes f) (Fact_bytes g) \<or>
    Fact_Height f = Fact_Height g \<and> Fact_Round f = Fact_Round g \<and>
    (\<forall>a p b q. f = INITFact a p \<and> g = INITFact b q \<longrightarrow> opt_bytes p = opt_bytes q)"
proof (cases "Fact_bytes f = Fact_bytes g")
  case True
  then have "BaseFact_bytes (fact_base f) = BaseFact_bytes (fact_base g)" by (metis Fact_bytes_prefix)
  moreover from this True have "\<forall>a p b q. f = INITFact a p \<and> g = INITFact b q \<longrightarrow> opt_bytes p = opt_bytes q"
    by (auto simp: INITFact_bytes_def)
  ultimately show ?thesis
    using BaseFact_bytes_inject [of "fact_base f" "fact_base g"] assms(6,7) by (simp add: Fact_Height_def Fact_Round_def)
next
  case False
  have "sha3_Sum256 L (Fact_bytes f) = sha3_Sum256 L (Fact_bytes g)"
    using Fact_IsValid_hash [OF assms(1)] Fact_IsValid_hash [OF assms(2)] assms(3-5)
    by (metis Hash_Equal_def option.inject)
  with False show ?thesis by (simp add: sha_collision_def)
qed

theorem fact_hash_binds_point_witness:
  "\<exists>hf hg. Fact_Hash (NewINITFact sample_lib 3 0 (Some (HBytes [1]))) = Some hf \<and>
     Fact_Hash (NewACCEPTFact sample_lib 3 0 (Some (HBytes [2])) (Some (HBytes [1]))) = Some hg \<and> Hash_Equal hf hg"
proof -
  let ?f = "NewINITFact sample_lib 3 0 (Some (HBytes [1]))"
    and ?g = "NewACCEPTFact sample_lib 3 0 (Some (HBytes [2])) (Some (HBytes [1]))"
  have s: "semver_IsValid sample_lib ''v0.0.1''" by code_simp
  note new = Fact_IsValid_new [OF s sample_sha3_shape, of 3]
  have f: "Fact_IsValid sample_lib ?f = Ok ()" and g: "Fact_IsValid sample_lib ?g = Ok ()"
    by (rule new; simp add: maxBytesHashSize_def)+
  obtain hf hg where h: "Fact_Hash ?f = Some hf" "Fact_Hash ?g = Some hg" "Hash_Equal hf hg"
    by (simp add: NewINITFact_def NewACCEPTFact_def Let_def Fact_Hash_def Hash_Equal_def INITFact_bytes_def
        ACCEPTFact_bytes_eq opt_bytes_def BaseFact_bytes_def NewBaseFact_def)
  have i: "is_i64 (Fact_Height ?f)" "is_i64 (Fact_Height ?g)"
    by (simp_all add: Fact_Height_def NewINITFact_def NewACCEPTFact_def Let_def NewBaseFact_def is_i64_def)
  from fact_hash_binds_point [OF f g h i] h show ?thesis by blast
qed

text \<open>
  What the hash of a ballot fact leaves open. The hash of an \<open>ACCEPTFact\<close> does not depend on its proposal, and an
  \<open>INITFact\<close> and an \<open>ACCEPTFact\<close> at the same point whose previous block and new block agree have the same hash, so that the
  signature of the one is a signature of the other.
\<close>

theorem accept_fact_hash_weak:
  "Fact_Hash (NewACCEPTFact L h r p (Some nb)) = Fact_Hash (NewACCEPTFact L h r q (Some nb)) \<and>
   Fact_Hash (NewINITFact L h r (Some nb)) = Fact_Hash (NewACCEPTFact L h r p (Some nb))"
  by (simp add: NewACCEPTFact_def NewINITFact_def Let_def Fact_Hash_def ACCEPTFact_bytes_eq INITFact_bytes_def NewBaseFact_def
      BaseFact_bytes_def)

end
