(* ===== verification/Mitum_Voteproof.thy ===== *)
theory Mitum_Voteproof
  imports Mitum_Fact
begin

text \<open>
  Voteproofs (\<^verbatim>\<open>src/base/voteproof.go\<close>, \<^verbatim>\<open>voteproof_v0.go\<close>, \<^verbatim>\<open>voteproof_set.go\<close>): the record of a finished vote, its byte
  form, its validation and the order on voteproofs. Validation counts the votes in a Go map; the iteration order
  is the argument \<open>order\<close>. A method call on a nil interface is \<open>Panic\<close>. The lemmas: what a valid voteproof guarantees about its
  votes, what it does not, and that the comparison is a lexicographic order on points and stages.
\<close>

section \<open>The voteproof\<close>

definition VoteproofV0Hint :: hint where "VoteproofV0Hint = NewHint ''voteproof'' ''v0.0.1''"

record voteproof =
  vp_ht :: hint
  vp_height :: height
  vp_round :: round
  vp_suffrages :: "address list"
  vp_thresholdRatio :: ratio
  vp_result :: vote_result
  vp_closed :: bool
  vp_stage :: stage
  vp_majority :: "ballot_fact option"
  vp_facts :: "ballot_fact list"
  vp_votes :: "signed_fact list"
  vp_finishedAt :: gotime

definition NewVoteproofV0 :: "height \<Rightarrow> round \<Rightarrow> address list \<Rightarrow> ratio \<Rightarrow> stage \<Rightarrow> voteproof" where
  "NewVoteproofV0 h r suffrages thresholdRatio st =
     \<lparr>vp_ht = VoteproofV0Hint, vp_height = h, vp_round = r, vp_suffrages = suffrages,
      vp_thresholdRatio = thresholdRatio, vp_result = VoteResultNotYet, vp_closed = False, vp_stage = st,
      vp_majority = None, vp_facts = [], vp_votes = [], vp_finishedAt = 0\<rparr>"

definition EmptyVoteproofV0 :: voteproof where
  "EmptyVoteproofV0 = NewVoteproofV0 0 0 [] 0 0"

definition Voteproof_IsFinished :: "voteproof \<Rightarrow> bool" where
  "Voteproof_IsFinished vp \<longleftrightarrow> vp_result vp \<noteq> VoteResultNotYet"

definition Voteproof_SetResult :: "vote_result \<Rightarrow> voteproof \<Rightarrow> voteproof" where
  "Voteproof_SetResult result vp = vp\<lparr>vp_result := result\<rparr>"

definition Voteproof_SetMajority :: "ballot_fact option \<Rightarrow> voteproof \<Rightarrow> voteproof" where
  "Voteproof_SetMajority f vp = vp\<lparr>vp_majority := f\<rparr>"

definition Voteproof_SetFacts :: "ballot_fact list \<Rightarrow> voteproof \<Rightarrow> voteproof" where
  "Voteproof_SetFacts fs vp = vp\<lparr>vp_facts := fs\<rparr>"

definition Voteproof_SetVotes :: "signed_fact list \<Rightarrow> voteproof \<Rightarrow> voteproof" where
  "Voteproof_SetVotes vs vp = vp\<lparr>vp_votes := vs\<rparr>"

definition Voteproof_Finish :: "gotime \<Rightarrow> voteproof \<Rightarrow> voteproof" where
  "Voteproof_Finish now vp = vp\<lparr>vp_finishedAt := now\<rparr>"

definition Voteproof_Close :: "voteproof \<Rightarrow> voteproof" where
  "Voteproof_Close vp = vp\<lparr>vp_closed := True\<rparr>"

section \<open>Bytes\<close>

fun map_res :: "('a \<Rightarrow> 'b res) \<Rightarrow> 'a list \<Rightarrow> 'b list res" where
  "map_res f [] = Ok []"
| "map_res f (x # xs) = bind_res (f x) (\<lambda>y. bind_res (map_res f xs) (\<lambda>ys. Ok (y # ys)))"

definition of_hash :: "hash option \<Rightarrow> hash res" where
  "of_hash h = (case h of None \<Rightarrow> Panic | Some h \<Rightarrow> Ok h)"

definition Voteproof_factsBytes :: "lib \<Rightarrow> voteproof \<Rightarrow> bytes res" where
  "Voteproof_factsBytes L vp =
     bind_res (map_res (\<lambda>f. of_hash (Fact_Hash f)) (vp_facts vp)) (\<lambda>hs.
       let keys = map (Hash_String L) hs;
           facts = map_of (rev (zip keys hs))
       in Ok (ConcatBytesSlice (map (\<lambda>a. opt_bytes (facts a)) (sort keys))))"

text \<open>\<open>l[i].FactSign().Node().Bytes()\<close>, the sort key; where it would panic \<open>l[i].Bytes()\<close> panics too.\<close>

definition vote_node_bytes :: "signed_fact \<Rightarrow> bytes" where
  "vote_node_bytes v =
     (case Option.bind (sf_factSign v) fs_node of None \<Rightarrow> [] | Some n \<Rightarrow> Address_Bytes n)"

definition Voteproof_votesBytes :: "voteproof \<Rightarrow> bytes res" where
  "Voteproof_votesBytes vp =
     bind_res (map_res SignedFact_Bytes (sort_key vote_node_bytes (vp_votes vp))) (\<lambda>bs. Ok (ConcatBytesSlice bs))"

definition Voteproof_suffragesBytes :: "voteproof \<Rightarrow> bytes" where
  "Voteproof_suffragesBytes vp = ConcatBytesSlice (map Address_Bytes (vp_suffrages vp))"

definition Voteproof_Bytes :: "lib \<Rightarrow> voteproof \<Rightarrow> bytes res" where
  "Voteproof_Bytes L vp =
     bind_res (case vp_majority vp of None \<Rightarrow> Ok [] | Some f \<Rightarrow> bind_res (of_hash (Fact_Hash f)) (\<lambda>h. Ok (Hash_Bytes h)))
       (\<lambda>m. bind_res (Voteproof_factsBytes L vp) (\<lambda>fb. bind_res (Voteproof_votesBytes vp) (\<lambda>vb.
          Ok (ConcatBytesSlice [Height_Bytes (vp_height vp), Round_Bytes (vp_round vp), Float64ToBytes (vp_thresholdRatio vp),
            VoteResult_Bytes (vp_result vp), Stage_Bytes (vp_stage vp), m, fb, vb, Voteproof_suffragesBytes vp,
            Time_Bytes (vp_finishedAt vp)]))))"

definition Voteproof_ID :: "lib \<Rightarrow> voteproof \<Rightarrow> string res" where
  "Voteproof_ID L vp = bind_res (Voteproof_Bytes L vp) (\<lambda>b. Ok (Hash_String L (NewSHA256 L b)))"

section \<open>Validation\<close>

definition Voteproof_isValidFields :: "lib \<Rightarrow> voteproof \<Rightarrow> unit res" where
  "Voteproof_isValidFields L vp = seq [
     isvalid_Check False
       [Some (Height_IsValid (vp_height vp)), Some (Stage_IsValid (vp_stage vp)),
        Some (ThresholdRatio_IsValid (vp_thresholdRatio vp)), Some (VoteResult_IsValid (vp_result vp))],
     fail_if (time_IsZero (vp_finishedAt vp)) (Errorf InvalidError ''empty finishedAt''),
     fail_if (vp_result vp \<noteq> VoteResultMajority \<and> vp_result vp \<noteq> VoteResultDraw)
       (Errorf InvalidError ''invalid result; result=%v''),
     (case vp_majority vp of
        None \<Rightarrow> fail_if (vp_result vp \<noteq> VoteResultDraw)
                 (Errorf InvalidError ''empty majority, but result is not draw; result=%v'')
      | Some f \<Rightarrow> Fact_IsValid L f),
     fail_if (length (vp_facts vp) < 1) (Errorf InvalidError ''empty facts''),
     fail_if (length (vp_votes vp) < 1) (Errorf InvalidError ''empty votes'')]"

fun fact_found :: "hash \<Rightarrow> ballot_fact list \<Rightarrow> bool res" where
  "fact_found h [] = Ok False"
| "fact_found h (f # fs) =
     bind_res (of_hash (Fact_Hash f)) (\<lambda>fh. if Hash_Equal h fh then Ok True else fact_found h fs)"

fun Voteproof_voteHashes :: "lib \<Rightarrow> bytes \<Rightarrow> ballot_fact list \<Rightarrow> string set \<Rightarrow> signed_fact list \<Rightarrow> string set res" where
  "Voteproof_voteHashes L b facts factHashes [] = Ok factHashes"
| "Voteproof_voteHashes L b facts factHashes (nf # votes) =
     bind_res (SignedFact_IsValid L nf b) (\<lambda>_.
     bind_res (of_hash (Option.bind (sf_fact nf) Fact_Hash)) (\<lambda>h.
     bind_res (fact_found h facts) (\<lambda>found.
       if \<not> found then Err (Errorf InvalidError ''missing fact found in facts: %s'')
       else Voteproof_voteHashes L b facts (insert (Hash_String L h) factHashes) votes)))"

definition Voteproof_isValidFacts :: "lib \<Rightarrow> voteproof \<Rightarrow> bytes \<Rightarrow> unit res" where
  "Voteproof_isValidFacts L vp b =
     bind_res (Voteproof_voteHashes L b (vp_facts vp) {} (vp_votes vp)) (\<lambda>factHashes.
       if card factHashes \<noteq> length (vp_facts vp) then Err (Errorf InvalidError ''unknown facts found in facts: %d'')
       else seq (map (\<lambda>f. isvalid_Check False [Some (Fact_IsValid L f)]) (vp_facts vp)))"

definition vote_hashes :: "lib \<Rightarrow> voteproof \<Rightarrow> string list" where
  "vote_hashes L vp =
     map (\<lambda>v. case Option.bind (sf_fact v) Fact_Hash of None \<Rightarrow> '''' | Some h \<Rightarrow> Hash_String L h) (vp_votes vp)"

definition votes_have_hashes :: "voteproof \<Rightarrow> bool" where
  "votes_have_hashes vp \<longleftrightarrow> list_all (\<lambda>v. Option.bind (sf_fact v) Fact_Hash \<noteq> None) (vp_votes vp)"

fun find_fact :: "lib \<Rightarrow> string \<Rightarrow> ballot_fact list \<Rightarrow> ballot_fact option res" where
  "find_fact L s [] = Ok None"
| "find_fact L s (f # fs) =
     bind_res (of_hash (Fact_Hash f)) (\<lambda>h. if s = Hash_String L h then Ok (Some f) else find_fact L s fs)"

text \<open>The counting part of \<open>isValidCheckMajority\<close>: the result and, for a majority, the hash string of its fact.\<close>

definition Voteproof_count ::
  "lib \<Rightarrow> (string list \<Rightarrow> string list) \<Rightarrow> threshold \<Rightarrow> voteproof \<Rightarrow> vote_result \<times> string" where
  "Voteproof_count L order t vp =
     (let s = vote_hashes L vp;
          ks = order (remdups s);
          ns = map (\<lambda>k. of_nat (count_list s k)) ks;
          byCount = map_of (rev (zip ns ks));
          index = FindMajority (thr_Total t) (thr_Threshold t) ns
      in if index = -1 then (VoteResultNotYet, '''')
         else if index = -2 then (VoteResultDraw, '''')
         else (VoteResultMajority, case byCount (ns ! nat index) of Some k \<Rightarrow> k | None \<Rightarrow> ''''))"

definition Voteproof_checkResult :: "lib \<Rightarrow> voteproof \<Rightarrow> vote_result \<Rightarrow> string \<Rightarrow> unit res" where
  "Voteproof_checkResult L vp result factHash =
     bind_res (if result = VoteResultMajority then find_fact L factHash (vp_facts vp) else Ok None) (\<lambda>f.
       if vp_result vp \<noteq> result then Err (Errorf InvalidError ''result mismatch; vp.result=%s != result=%s'')
       else
         (case f of
            None \<Rightarrow> fail_if (vp_majority vp \<noteq> None) (Errorf InvalidError ''result should be nil, but not'')
          | Some _ \<Rightarrow>
              bind_res (of_hash (Option.bind (vp_majority vp) Fact_Hash)) (\<lambda>mh.
                fail_if (Hash_String L mh \<noteq> factHash)
                  (Errorf InvalidError ''fact hash mismatch; vp.majority=%s != fact=%s''))))"

definition Voteproof_isValidCheckMajority ::
  "lib \<Rightarrow> (string list \<Rightarrow> string list) \<Rightarrow> voteproof \<Rightarrow> unit res" where
  "Voteproof_isValidCheckMajority L order vp =
     bind_res (map_err (\<lambda>e. NError_Errorf InvalidError ''invalid threshold: %w'' (Some e))
                 (NewThreshold (of_nat (length (vp_suffrages vp))) (vp_thresholdRatio vp))) (\<lambda>t.
     if \<not> votes_have_hashes vp then Panic
     else case Voteproof_count L order t vp of
       (result, factHash) \<Rightarrow> Voteproof_checkResult L vp result factHash)"

definition Voteproof_IsValid :: "lib \<Rightarrow> (string list \<Rightarrow> string list) \<Rightarrow> voteproof \<Rightarrow> bytes \<Rightarrow> unit res" where
  "Voteproof_IsValid L order vp networkID =
     bind_res (Voteproof_isValidFields L vp) (\<lambda>_.
     bind_res (Voteproof_isValidFacts L vp networkID) (\<lambda>_.
     bind_res (map_err (NError_Wrap InvalidError)
                 (NewThreshold (of_nat (length (vp_suffrages vp))) (vp_thresholdRatio vp))) (\<lambda>t.
       if int (length (vp_votes vp)) < sint (thr_Threshold t) then
         fail_if (vp_result vp \<noteq> VoteResultNotYet) (Errorf InvalidError ''result should be not-yet: %s'')
       else Voteproof_isValidCheckMajority L order vp)))"

section \<open>Comparing voteproofs\<close>

definition CompareVoteproofSamePoint :: "voteproof option \<Rightarrow> voteproof option \<Rightarrow> int" where
  "CompareVoteproofSamePoint a b =
     (case (a, b) of
        (Some a, Some b) \<Rightarrow>
          if vp_height a > vp_height b then 1
          else if vp_height a < vp_height b then -1
          else if vp_round a > vp_round b then 1
          else if vp_round a < vp_round b then -1 else 0
      | _ \<Rightarrow> -1)"

definition CompareVoteproof :: "voteproof option \<Rightarrow> voteproof option \<Rightarrow> int" where
  "CompareVoteproof a b =
     (let i = CompareVoteproofSamePoint a b in
      if i \<noteq> 0 then i
      else case (a, b) of
        (Some a, Some b) \<Rightarrow>
          if vp_stage a > vp_stage b then 1 else if vp_stage a < vp_stage b then -1 else 0
      | _ \<Rightarrow> 0)"

record voteproof_set =
  vs_vp :: "voteproof option"
  vs_avp :: "voteproof option"

definition NewVoteproofSet :: "voteproof option \<Rightarrow> voteproof option \<Rightarrow> voteproof_set" where
  "NewVoteproofSet bvp avp = \<lparr>vs_vp = bvp, vs_avp = avp\<rparr>"

section \<open>Lemmas\<close>

lemma of_hash_Ok [simp]: "of_hash x = Ok h \<longleftrightarrow> x = Some h"
  by (auto simp: of_hash_def split: option.splits)

lemma find_fact_Ok:
  "find_fact L s fs = Ok (Some f) \<Longrightarrow> f \<in> set fs \<and> (\<exists>h. Fact_Hash f = Some h \<and> s = Hash_String L h)"
  by (induction fs) (auto simp: bind_res_Ok_iff split: if_splits)

lemma fact_found_Ok:
  "fact_found h fs = Ok True \<Longrightarrow> \<exists>f \<in> set fs. \<exists>g. Fact_Hash f = Some g \<and> Hash_Equal h g"
  by (induction fs) (auto simp: bind_res_Ok_iff split: if_splits)

lemma voteHashes_Ok:
  "Voteproof_voteHashes L b facts acc vs = Ok hs \<Longrightarrow>
   \<forall>v \<in> set vs. SignedFact_IsValid L v b = Ok () \<and> (\<exists>h. Option.bind (sf_fact v) Fact_Hash = Some h \<and>
      (\<exists>f \<in> set facts. \<exists>g. Fact_Hash f = Some g \<and> Hash_Equal h g))"
proof (induction vs arbitrary: acc)
  case (Cons nf votes)
  from Cons.prems obtain h where
    v: "SignedFact_IsValid L nf b = Ok ()" and h: "Option.bind (sf_fact nf) Fact_Hash = Some h"
    and f: "fact_found h facts = Ok True"
    and r: "Voteproof_voteHashes L b facts (insert (Hash_String L h) acc) votes = Ok hs"
    by (auto simp: bind_res_Ok_iff split: if_splits)
  from v h fact_found_Ok [OF f] Cons.IH [OF r] show ?case by auto
qed simp

lemma Voteproof_IsValid_parts:
  assumes "Voteproof_IsValid L order vp nid = Ok ()"
  obtains t where "Voteproof_isValidFields L vp = Ok ()" "Voteproof_isValidFacts L vp nid = Ok ()"
    "NewThreshold (of_nat (length (vp_suffrages vp))) (vp_thresholdRatio vp) = Ok t"
    "sint (thr_Threshold t) \<le> int (length (vp_votes vp))" "Voteproof_isValidCheckMajority L order vp = Ok ()"
proof -
  from assms obtain t where f: "Voteproof_isValidFields L vp = Ok ()" "Voteproof_isValidFacts L vp nid = Ok ()"
    "NewThreshold (of_nat (length (vp_suffrages vp))) (vp_thresholdRatio vp) = Ok t"
    and r: "(if int (length (vp_votes vp)) < sint (thr_Threshold t) then
         fail_if (vp_result vp \<noteq> VoteResultNotYet) (Errorf InvalidError ''result should be not-yet: %s'')
       else Voteproof_isValidCheckMajority L order vp) = Ok ()"
    unfolding Voteproof_IsValid_def by (auto simp: bind_res_Ok_iff simp del: VoteResultNotYet_def)
  have "vp_result vp \<noteq> VoteResultNotYet"
    using f(1) unfolding Voteproof_isValidFields_def seq_Ok_iff by auto
  with r f that show thesis by (auto split: if_splits)
qed

lemma isValidFields_parts:
  assumes "Voteproof_isValidFields L vp = Ok ()"
  shows "vp_majority vp = None \<Longrightarrow> vp_result vp = VoteResultDraw"
    and "vp_majority vp = Some m \<Longrightarrow> Fact_IsValid L m = Ok ()"
    and "vp_result vp \<in> {VoteResultMajority, VoteResultDraw}"
  using assms unfolding Voteproof_isValidFields_def seq_Ok_iff by auto

lemma NewThreshold_fields:
  assumes "NewThreshold tot r = Ok t"
  shows "thr_Total t = tot \<and> thr_Ratio t = r \<and> thr_Threshold t = threshold_count tot r \<and> thr_Threshold t \<le> tot"
  using assms by (auto simp: NewThreshold_def Let_def bind_res_Ok_iff Threshold_IsValid_def seq_Ok_iff not_less)

lemma FindMajority_nonneg_index:
  assumes "FindMajority tot thr ns = int i" and "thr \<le> tot"
  shows "i < length ns \<and> thr \<le> ns ! i"
proof -
  have "FindMajority_loop tot thr 0 ns = Some i"
    using assms by (auto simp: FindMajority_def Let_def split: if_splits option.splits)
  from FindMajority_loop_Some [OF this assms(2)] show ?thesis by simp
qed

lemma byCount_key:
  assumes "i < length ks" and "ns = map (\<lambda>k. of_nat (count_list s k) :: u64) ks"
  shows "\<exists>k. map_of (rev (zip ns ks)) (ns ! i) = Some k \<and> ns ! i = of_nat (count_list s k)"
proof -
  have "ns ! i \<in> fst ` set (rev (zip ns ks))"
    using assms by (metis length_map map_fst_zip nth_mem set_map set_rev)
  then obtain k where k: "map_of (rev (zip ns ks)) (ns ! i) = Some k"
    by (metis map_of_eq_None_iff option.exhaust)
  then have "(ns ! i, k) \<in> set (zip ns ks)" by (metis map_of_SomeD set_rev)
  then have "ns ! i = of_nat (count_list s k)" using assms(2) by (auto simp: in_set_zip)
  with k show ?thesis by blast
qed

lemma Voteproof_count_majority:
  assumes "Voteproof_count L order t vp = (VoteResultMajority, k)" and "thr_Threshold t \<le> thr_Total t"
    and "length (vp_votes vp) < 2 ^ 64"
  shows "unat (thr_Threshold t) \<le> count_list (vote_hashes L vp) k"
proof -
  let ?s = "vote_hashes L vp"
  let ?ks = "order (remdups ?s)"
  let ?ns = "map (\<lambda>k. of_nat (count_list ?s k) :: u64) ?ks"
  let ?i = "FindMajority (thr_Total t) (thr_Threshold t) ?ns"
  have i: "?i \<noteq> -1" "?i \<noteq> -2" and k: "k = (case map_of (rev (zip ?ns ?ks)) (?ns ! nat ?i) of Some k \<Rightarrow> k | None \<Rightarrow> '''')"
    using assms(1) by (simp_all add: Voteproof_count_def Let_def split: if_splits)
  then obtain i where ii: "?i = int i" using fm.find_range [of "thr_Total t" "thr_Threshold t" ?ns] by auto
  note idx = FindMajority_nonneg_index [OF ii assms(2)]
  obtain k' where k': "map_of (rev (zip ?ns ?ks)) (?ns ! i) = Some k'" "?ns ! i = of_nat (count_list ?s k')"
    using byCount_key [OF _ refl, of i ?ks ?s] idx by (metis length_map)
  have "k = k'" using k k'(1) ii by simp
  have "length ?s < 2 ^ 64" using assms(3) by (simp add: vote_hashes_def)
  then have "count_list ?s k < 2 ^ 64" using count_list_le_length [of ?s k] by linarith
  then have "unat (of_nat (count_list ?s k) :: u64) = count_list ?s k" by (simp add: unat_of_nat)
  moreover have "thr_Threshold t \<le> of_nat (count_list ?s k)" using idx k'(2) \<open>k = k'\<close> by simp
  ultimately show ?thesis by (simp add: word_le_nat_alt)
qed

lemma checkResult_majority:
  assumes "Voteproof_checkResult L vp result k = Ok ()" and "vp_result vp = VoteResultMajority" and "vp_majority vp \<noteq> None"
  shows "result = VoteResultMajority \<and> (\<exists>m mh. vp_majority vp = Some m \<and> Fact_Hash m = Some mh \<and> Hash_String L mh = k)"
proof -
  obtain f where f: "(if result = VoteResultMajority then find_fact L k (vp_facts vp) else Ok None) = Ok f"
    and r: "vp_result vp = result" and m: "f \<noteq> None \<longrightarrow> (\<exists>mh. Option.bind (vp_majority vp) Fact_Hash = Some mh \<and> Hash_String L mh = k)"
    and n: "f = None \<longrightarrow> vp_majority vp = None"
    using assms(1) unfolding Voteproof_checkResult_def bind_res_Ok_iff
    by (auto simp: bind_res_Ok_iff split: if_splits option.splits)
  from n assms(3) m obtain mh where "Option.bind (vp_majority vp) Fact_Hash = Some mh" "Hash_String L mh = k" by blast
  with r assms(2) show ?thesis by (cases "vp_majority vp") auto
qed

lemma isValidCheckMajority_Ok:
  assumes "Voteproof_isValidCheckMajority L order vp = Ok ()" and "vp_result vp = VoteResultMajority"
    and "NewThreshold (of_nat (length (vp_suffrages vp))) (vp_thresholdRatio vp) = Ok t"
    and "vp_majority vp \<noteq> None" and "length (vp_votes vp) < 2 ^ 64"
  shows "\<exists>m mh. vp_majority vp = Some m \<and> Fact_Hash m = Some mh \<and>
     unat (thr_Threshold t) \<le> count_list (vote_hashes L vp) (Hash_String L mh)"
proof -
  obtain result k where c: "Voteproof_count L order t vp = (result, k)" by fastforce
  from assms(1,3) c have r: "Voteproof_checkResult L vp result k = Ok ()"
    by (simp add: Voteproof_isValidCheckMajority_def split: if_splits)
  from checkResult_majority [OF this assms(2,4)] obtain m mh
    where m: "result = VoteResultMajority" "vp_majority vp = Some m" "Fact_Hash m = Some mh" "Hash_String L mh = k" by blast
  have "thr_Threshold t \<le> thr_Total t" using NewThreshold_fields [OF assms(3)] by metis
  from Voteproof_count_majority [OF c [unfolded m(1)] this assms(5)] m show ?thesis by blast
qed

lemma Voteproof_IsValid_votes:
  assumes "Voteproof_IsValid L order vp nid = Ok ()" and "v \<in> set (vp_votes vp)"
  shows "SignedFact_IsValid L v nid = Ok ()"
proof (rule Voteproof_IsValid_parts [OF assms(1)])
  assume "Voteproof_isValidFacts L vp nid = Ok ()"
  then obtain hs where "Voteproof_voteHashes L nid (vp_facts vp) {} (vp_votes vp) = Ok hs"
    by (auto simp: Voteproof_isValidFacts_def bind_res_Ok_iff)
  from voteHashes_Ok [OF this] assms(2) show ?thesis by blast
qed

text \<open>
  C19: what a valid majority voteproof guarantees: the threshold computed from its suffrage and ratio is reached by the votes for
  the fact it names as majority, that fact is valid, and every vote is a fact validly signed under the network id.
\<close>

theorem voteproof_majority_sound:
  assumes "Voteproof_IsValid L order vp nid = Ok ()" and "vp_result vp = VoteResultMajority"
    and "length (vp_votes vp) < 2 ^ 64"
  shows "\<exists>t m mh. NewThreshold (of_nat (length (vp_suffrages vp))) (vp_thresholdRatio vp) = Ok t \<and>
    vp_majority vp = Some m \<and> Fact_Hash m = Some mh \<and> Fact_IsValid L m = Ok () \<and>
    unat (thr_Threshold t) \<le> count_list (vote_hashes L vp) (Hash_String L mh) \<and>
    (\<forall>v \<in> set (vp_votes vp). SignedFact_IsValid L v nid = Ok ())"
proof (rule Voteproof_IsValid_parts [OF assms(1)])
  fix t assume f: "Voteproof_isValidFields L vp = Ok ()" and "Voteproof_isValidFacts L vp nid = Ok ()"
    and t: "NewThreshold (of_nat (length (vp_suffrages vp))) (vp_thresholdRatio vp) = Ok t"
    and c: "Voteproof_isValidCheckMajority L order vp = Ok ()"
  have "vp_majority vp \<noteq> None" using isValidFields_parts(1) [OF f] assms(2) by auto
  from isValidCheckMajority_Ok [OF c assms(2) t this assms(3)] isValidFields_parts(2) [OF f] t
    Voteproof_IsValid_votes [OF assms(1)]
  show ?thesis by blast
qed

text \<open>The voteproof at the point \<open>(h, rd, st)\<close> that counts one signed fact \<open>k\<close> times.\<close>

definition repeated_voteproof ::
  "height \<Rightarrow> round \<Rightarrow> stage \<Rightarrow> address list \<Rightarrow> ratio \<Rightarrow> gotime \<Rightarrow> ballot_fact \<Rightarrow> signed_fact \<Rightarrow> nat \<Rightarrow> voteproof" where
  "repeated_voteproof h rd st suffrages r now m v k =
     Voteproof_Finish now (Voteproof_SetVotes (replicate k v) (Voteproof_SetFacts [m]
       (Voteproof_SetResult VoteResultMajority (Voteproof_SetMajority (Some m)
         (NewVoteproofV0 h rd suffrages r st)))))"

lemma voteHashes_repeat:
  assumes "SignedFact_IsValid L v nid = Ok ()" and "sf_fact v = Some m" and "Fact_Hash m = Some h"
  shows "Voteproof_voteHashes L nid [m] acc (replicate k v) = Ok (if k = 0 then acc else insert (Hash_String L h) acc)"
proof (induction k arbitrary: acc)
  case (Suc k)
  then show ?case using assms by (simp add: of_hash_def Hash_Equal_def)
qed simp

lemma count_list_repeat: "count_list (replicate k x) x = k" "0 < k \<Longrightarrow> remdups (replicate k x) = [x]"
proof -
  show "count_list (replicate k x) x = k" by (induction k) auto
  show "0 < k \<Longrightarrow> remdups (replicate k x) = [x]"
  proof (induction k)
    case (Suc k)
    then show ?case by (cases k) auto
  qed simp
qed

lemma repeated_voteproof_valid:
  assumes "\<forall>xs. mset (order xs) = mset xs" and "SignedFact_IsValid L v nid = Ok ()" and "sf_fact v = Some m"
    and "Height_IsValid hh = Ok ()" and "Stage_IsValid st = Ok ()" and "now \<noteq> 0"
    and "NewThreshold (of_nat (length suffrages)) r = Ok t" and "0 < thr_Threshold t"
    and "k = unat (thr_Threshold t)" and "k < 2 ^ 63"
  shows "Voteproof_IsValid L order (repeated_voteproof hh rd st suffrages r now m v k) nid = Ok ()"
proof -
  let ?vp = "repeated_voteproof hh rd st suffrages r now m v k"
  have m: "Fact_IsValid L m = Ok ()"
    using assms(2,3) by (auto simp: SignedFact_IsValid_def bind_res_Ok_iff)
  obtain h where h: "Fact_Hash m = Some h" using Fact_IsValid_hash [OF m] by blast
  have kpos: "0 < k" using assms(8,9) by (simp add: unat_gt_0 word_greater_zero_iff)
  have tr: "ThresholdRatio_IsValid r = Ok ()"
    using assms(7) by (auto simp: NewThreshold_def Let_def bind_res_Ok_iff Threshold_IsValid_def)
  note flds = repeated_voteproof_def NewVoteproofV0_def Voteproof_SetMajority_def Voteproof_SetResult_def
    Voteproof_SetFacts_def Voteproof_SetVotes_def Voteproof_Finish_def
  have F: "Voteproof_isValidFields L ?vp = Ok ()"
    unfolding Voteproof_isValidFields_def seq_Ok_iff
    using tr m assms(4-6) kpos by (simp add: flds time_IsZero_def VoteResult_IsValid_def Suc_le_eq)
  have V: "Voteproof_isValidFacts L ?vp nid = Ok ()"
    using kpos m by (simp add: Voteproof_isValidFacts_def flds voteHashes_repeat [OF assms(2,3) h] isvalid_Check_def)
  have H: "vote_hashes L ?vp = replicate k (Hash_String L h)" "votes_have_hashes ?vp"
    using assms(3) h by (simp_all add: vote_hashes_def votes_have_hashes_def flds map_replicate_const list_all_iff)
  have "mset (order [Hash_String L h]) = mset [Hash_String L h]" using assms(1) by blast
  then have "order [Hash_String L h] = [Hash_String L h]" by simp
  moreover have "thr_Threshold t \<le> of_nat k" using assms(9) by simp
  moreover have "thr_Threshold t \<le> thr_Total t" using NewThreshold_fields [OF assms(7)] by metis
  ultimately have C: "Voteproof_count L order t ?vp = (VoteResultMajority, Hash_String L h)"
    using kpos by (simp add: Voteproof_count_def H(1) count_list_repeat Let_def FindMajority_def not_less [symmetric])
  have "Voteproof_isValidCheckMajority L order ?vp = Ok ()"
    using C H(2) assms(7) h
    by (simp add: Voteproof_isValidCheckMajority_def Voteproof_checkResult_def flds of_hash_def)
  moreover have "sint (thr_Threshold t) = int k" using assms(9,10) by (simp add: sint_unat_small)
  ultimately show ?thesis using F V assms(7) by (simp add: Voteproof_IsValid_def flds)
qed

text \<open>
  Validation looks neither at who voted nor at what the votes are about: any single validly signed ballot fact, repeated as
  often as the threshold asks, is accepted as a majority of any suffrage at any height, round and stage.
\<close>

theorem voteproof_accepts_repeated_vote:
  assumes "\<forall>xs. mset (order xs) = mset xs" and "SignedFact_IsValid L v nid = Ok ()" and "sf_fact v = Some m"
    and "Height_IsValid hh = Ok ()" and "Stage_IsValid st = Ok ()" and "now \<noteq> 0"
    and "NewThreshold (of_nat (length suffrages)) r = Ok t" and "0 < thr_Threshold t"
    and "k = unat (thr_Threshold t)" and "k < 2 ^ 63"
  shows "Voteproof_IsValid L order (repeated_voteproof hh rd st suffrages r now m v k) nid = Ok ()"
  by (rule repeated_voteproof_valid [OF assms])

lemma sample_signed_INIT:
  "\<exists>v. NewBaseSignedBallotFactFromFact sample_lib 5 (NewINITFact sample_lib 33 0 (Some (HBytes [1]))) (NewStringAddress ''node0'')
      (newBasePrivatekey sample_lib [9]) [1] = Ok v \<and> sf_fact v = Some (NewINITFact sample_lib 33 0 (Some (HBytes [1])))
     \<and> SignedFact_IsValid sample_lib v [1] = Ok ()"
proof -
  let ?v = "case NewBaseSignedBallotFactFromFact sample_lib 5 (NewINITFact sample_lib 33 0 (Some (HBytes [1])))
      (NewStringAddress ''node0'') (newBasePrivatekey sample_lib [9]) [1] of Ok v \<Rightarrow> v"
  have "is_Ok (NewBaseSignedBallotFactFromFact sample_lib 5 (NewINITFact sample_lib 33 0 (Some (HBytes [1])))
      (NewStringAddress ''node0'') (newBasePrivatekey sample_lib [9]) [1])"
    and "sf_fact ?v = Some (NewINITFact sample_lib 33 0 (Some (HBytes [1])))"
    and "SignedFact_IsValid sample_lib ?v [1] = Ok ()" by code_simp+
  then show ?thesis by (auto simp: is_Ok_def split: res.splits)
qed

lemma sample_threshold: "NewThreshold 4 67 = Ok \<lparr>thr_Total = 4, thr_Threshold = 3, thr_Ratio = 67\<rparr>"
  by code_simp

definition sample_INIT :: ballot_fact where
  "sample_INIT = NewINITFact sample_lib 33 0 (Some (HBytes [1]))"

lemma sample_repeated:
  assumes "SignedFact_IsValid sample_lib v [1] = Ok ()" and "sf_fact v = Some sample_INIT"
  shows "Voteproof_IsValid sample_lib (\<lambda>xs. xs)
     (repeated_voteproof 70 2 StageACCEPT (replicate 4 (NewStringAddress ''other'')) 67 8 sample_INIT v 3) [1] = Ok ()"
proof (rule repeated_voteproof_valid [OF _ assms])
  show "Stage_IsValid StageACCEPT = Ok ()" "Height_IsValid 70 = Ok ()" by code_simp+
  show "NewThreshold (of_nat (length (replicate 4 (NewStringAddress ''other'')))) 67 =
      Ok \<lparr>thr_Total = 4, thr_Threshold = 3, thr_Ratio = 67\<rparr>" using sample_threshold by simp
qed simp_all

theorem voteproof_accepts_repeated_vote_witness:
  "\<exists>v. Voteproof_IsValid sample_lib (\<lambda>xs. xs)
     (repeated_voteproof 70 2 StageACCEPT (replicate 4 (NewStringAddress ''other'')) 67 8 sample_INIT v 3) [1] = Ok ()"
proof -
  obtain v where v: "SignedFact_IsValid sample_lib v [1] = Ok ()" "sf_fact v = Some sample_INIT"
    using sample_signed_INIT unfolding sample_INIT_def by blast
  have st: "Stage_IsValid StageACCEPT = Ok ()" "Height_IsValid 70 = Ok ()" by code_simp+
  have t: "NewThreshold (of_nat (length (replicate 4 (NewStringAddress ''other'')))) 67 =
      Ok \<lparr>thr_Total = 4, thr_Threshold = 3, thr_Ratio = 67\<rparr>" using sample_threshold by simp
  show ?thesis
    by (rule exI [of _ v], rule voteproof_accepts_repeated_vote [OF _ v st(2,1) _ t]) simp_all
qed

theorem voteproof_majority_sound_witness:
  "\<exists>v (t :: threshold) m mh. vp_majority (repeated_voteproof 70 2 StageACCEPT (replicate 4 (NewStringAddress ''other'')) 67 8 sample_INIT v 3) = Some m \<and>
     Fact_Hash m = Some mh \<and> unat (thr_Threshold t) \<le>
     count_list (vote_hashes sample_lib (repeated_voteproof 70 2 StageACCEPT (replicate 4 (NewStringAddress ''other'')) 67 8 sample_INIT v 3))
       (Hash_String sample_lib mh)"
proof -
  obtain v where v: "SignedFact_IsValid sample_lib v [1] = Ok ()" "sf_fact v = Some sample_INIT"
    using sample_signed_INIT unfolding sample_INIT_def by blast
  let ?vp = "repeated_voteproof 70 2 StageACCEPT (replicate 4 (NewStringAddress ''other'')) 67 8 sample_INIT v 3"
  have r: "vp_result ?vp = VoteResultMajority" "length (vp_votes ?vp) < 2 ^ 64"
    by (simp_all add: repeated_voteproof_def Voteproof_SetMajority_def Voteproof_SetResult_def
        Voteproof_SetFacts_def Voteproof_SetVotes_def Voteproof_Finish_def)
  from voteproof_majority_sound [OF sample_repeated [OF v] r] show ?thesis by blast
qed

section \<open>The order on voteproofs\<close>

text \<open>The key that voteproofs are compared by.\<close>

definition vp_point :: "voteproof \<Rightarrow> int \<times> nat \<times> nat" where
  "vp_point vp = (vp_height vp, unat (vp_round vp), unat (vp_stage vp))"

definition point_less :: "int \<times> nat \<times> nat \<Rightarrow> int \<times> nat \<times> nat \<Rightarrow> bool" where
  "point_less p q \<longleftrightarrow>
     fst p < fst q \<or> fst p = fst q \<and> (fst (snd p) < fst (snd q) \<or> fst (snd p) = fst (snd q) \<and> snd (snd p) < snd (snd q))"

text \<open>
  \<open>CompareVoteproof\<close> orders voteproofs lexicographically by height, round and stage: 1 for after, 0 for the same point and
  stage, -1 for before, and -1 whenever a side is nil; on non-nil voteproofs it is antisymmetric and transitive.
\<close>

theorem compare_voteproof_order:
  "(CompareVoteproof (Some a) (Some b) = 1 \<longleftrightarrow> point_less (vp_point b) (vp_point a)) \<and>
   (CompareVoteproof (Some a) (Some b) = 0 \<longleftrightarrow> vp_point a = vp_point b) \<and>
   (CompareVoteproof (Some a) (Some b) = -1 \<longleftrightarrow> point_less (vp_point a) (vp_point b)) \<and>
   CompareVoteproof (Some b) (Some a) = - CompareVoteproof (Some a) (Some b) \<and>
   \<not> (CompareVoteproof (Some a) (Some b) = 1 \<and> CompareVoteproof (Some b) (Some c) = 1 \<and>
      CompareVoteproof (Some a) (Some c) \<noteq> 1) \<and>
   CompareVoteproof None x = -1 \<and> CompareVoteproof x None = -1"
proof -
  have c: "CompareVoteproof (Some a) (Some b) =
      (if point_less (vp_point b) (vp_point a) then 1 else if point_less (vp_point a) (vp_point b) then -1 else 0)" for a b
    by (auto simp: CompareVoteproof_def CompareVoteproofSamePoint_def point_less_def vp_point_def word_less_nat_alt)
  have e: "\<not> point_less p q \<Longrightarrow> \<not> point_less q p \<Longrightarrow> p = q" for p q
    unfolding point_less_def by (auto simp: prod_eq_iff)
  have irr: "\<not> (point_less p q \<and> point_less q p)" for p q unfolding point_less_def by auto
  have tr: "point_less p q \<Longrightarrow> point_less q r \<Longrightarrow> point_less p r" for p q r unfolding point_less_def by auto
  have n: "CompareVoteproof None x = -1" "CompareVoteproof x None = -1"
    by (cases x; simp add: CompareVoteproof_def CompareVoteproofSamePoint_def)+
  show ?thesis unfolding c n using e irr tr by (smt (verit))
qed

end
