(* ===== verification/Mitum_Ballot.thy ===== *)
theory Mitum_Ballot
  imports Mitum_Voteproof
begin

text \<open>
  Seals and ballots (\<^verbatim>\<open>src/base/seal\<close>, \<^verbatim>\<open>src/base/ballot\<close>). A ballot is a seal that carries a signed fact, the voteproof it is based on
  and, for INIT ballots, the last ACCEPT voteproof; the Go types \<open>INIT\<close>, \<open>Proposal\<close> and \<open>ACCEPT\<close> embed the same struct
  and differ in their validation, so a ballot is one record with its kind. \<open>GenerateBodyHashFunc\<close> closes over the
  ballot under construction: it is represented by the hash it returns afterwards. The lemmas: constructors build ballots that
  validate, a valid INIT ballot continues the point of its voteproof, and what a seal's signature does not cover.
\<close>

section \<open>Seals\<close>

record base_seal =
  sl_ht :: hint
  sl_h :: "hash option"
  sl_bodyHash :: "hash option"
  sl_signer :: "publickey option"
  sl_signature :: signature
  sl_signedAt :: gotime
  sl_bodyHashFunc :: "hash option"

definition NewBaseSealWithHint :: "hint \<Rightarrow> base_seal" where
  "NewBaseSealWithHint ht =
     \<lparr>sl_ht = ht, sl_h = None, sl_bodyHash = None, sl_signer = None, sl_signature = None, sl_signedAt = 0,
      sl_bodyHashFunc = None\<rparr>"

definition Seal_GenerateHash :: "lib \<Rightarrow> base_seal \<Rightarrow> hash res" where
  "Seal_GenerateHash L sl =
     bind_res (of_hash (sl_bodyHash sl)) (\<lambda>bh.
       Ok (NewSHA256 L (ConcatBytesSlice [Hash_Bytes bh, Signature_Bytes (sl_signature sl)])))"

definition Seal_BodyBytes :: "base_seal \<Rightarrow> bytes res" where
  "Seal_BodyBytes sl =
     (case sl_signer sl of
        None \<Rightarrow> Panic
      | Some k \<Rightarrow> Ok (ConcatBytesSlice [pub_b k, Time_Bytes (sl_signedAt sl)]))"

definition Seal_defaultGenerateBodyHash :: "lib \<Rightarrow> base_seal \<Rightarrow> hash res" where
  "Seal_defaultGenerateBodyHash L sl = bind_res (Seal_BodyBytes sl) (\<lambda>b. Ok (NewSHA256 L b))"

definition Seal_GenerateBodyHash :: "lib \<Rightarrow> base_seal \<Rightarrow> hash res" where
  "Seal_GenerateBodyHash L sl =
     (case sl_bodyHashFunc sl of None \<Rightarrow> Seal_defaultGenerateBodyHash L sl | Some h \<Rightarrow> Ok h)"

text \<open>\<open>Sign\<close>, with the body hash function as the argument \<open>gen\<close>.\<close>

definition Seal_Sign_with ::
  "lib \<Rightarrow> gotime \<Rightarrow> (base_seal \<Rightarrow> hash res) \<Rightarrow> base_seal \<Rightarrow> privatekey \<Rightarrow> bytes \<Rightarrow> base_seal res" where
  "Seal_Sign_with L now gen sl pk b =
     (let sl = sl\<lparr>sl_signer := Some (priv_pub pk), sl_signedAt := now\<rparr> in
      bind_res (gen sl) (\<lambda>bh.
        let sl = sl\<lparr>sl_bodyHash := Some bh\<rparr> in
        bind_res (Privatekey_Sign L pk (ConcatBytesSlice [Hash_Bytes bh, b])) (\<lambda>sig.
          let sl = sl\<lparr>sl_signature := sig\<rparr> in
          bind_res (Seal_GenerateHash L sl) (\<lambda>h. Ok (sl\<lparr>sl_h := Some h\<rparr>)))))"

definition Seal_Sign :: "lib \<Rightarrow> gotime \<Rightarrow> base_seal \<Rightarrow> privatekey \<Rightarrow> bytes \<Rightarrow> base_seal res" where
  "Seal_Sign L now sl pk b = Seal_Sign_with L now (Seal_GenerateBodyHash L) sl pk b"

definition IsValidSeal :: "lib \<Rightarrow> base_seal \<Rightarrow> bytes \<Rightarrow> unit res" where
  "IsValidSeal L sl networkID =
     (if time_IsZero (sl_signedAt sl) then Err (Errorf InvalidError ''empty SignedAt'')
      else
        case (sl_h sl, sl_bodyHash sl) of
          (Some h, Some bh) \<Rightarrow>
            bind_res (Seal_GenerateHash L sl) (\<lambda>g.
              if \<not> Hash_Equal h g then Err (Errorf InvalidError ''hash does not match'')
              else case sl_signer sl of
                None \<Rightarrow> Panic
              | Some k \<Rightarrow>
                  map_err (\<lambda>e. NError_Errorf InvalidError ''invalid seal signature: %w'' (Some e))
                    (Publickey_Verify L k (ConcatBytesSlice [Hash_Bytes bh, networkID]) (sl_signature sl)))
        | _ \<Rightarrow> Err (Errorf InvalidError ''empty hash''))"

definition Seal_IsValid :: "lib \<Rightarrow> base_seal \<Rightarrow> bytes \<Rightarrow> unit res" where
  "Seal_IsValid L sl networkID = bind_res (Hint_IsValid L (sl_ht sl)) (\<lambda>_. IsValidSeal L sl networkID)"

section \<open>Ballots\<close>

definition INITHint :: hint where "INITHint = NewHint INITBallotType ''v0.0.1''"
definition ProposalHint :: hint where "ProposalHint = NewHint ProposalType ''v0.0.1''"
definition ACCEPTHint :: hint where "ACCEPTHint = NewHint ACCEPTBallotType ''v0.0.1''"

datatype ballot_kind = KINIT | KProposal | KACCEPT

record ballot =
  bl_kind :: ballot_kind
  bl_seal :: base_seal
  bl_sfs :: "signed_fact option"
  bl_baseVoteproof :: "voteproof option"
  bl_acceptVoteproof :: "voteproof option"

definition opt_vp_bytes :: "lib \<Rightarrow> voteproof option \<Rightarrow> bytes res" where
  "opt_vp_bytes L v = (case v of None \<Rightarrow> Ok [] | Some vp \<Rightarrow> Voteproof_Bytes L vp)"

definition BallotSeal_BodyBytes :: "lib \<Rightarrow> ballot \<Rightarrow> bytes res" where
  "BallotSeal_BodyBytes L sl =
     bind_res (case bl_sfs sl of None \<Rightarrow> Ok [] | Some s \<Rightarrow> SignedFact_Bytes s) (\<lambda>bsfs.
     bind_res (opt_vp_bytes L (bl_baseVoteproof sl)) (\<lambda>bb.
     bind_res (opt_vp_bytes L (bl_acceptVoteproof sl)) (\<lambda>ba.
     bind_res (Seal_BodyBytes (bl_seal sl)) (\<lambda>sb. Ok (ConcatBytesSlice [sb, bsfs, bb, ba])))))"

text \<open>
  \<open>NewBaseSeal\<close>: \<open>now\<close> is the time of the fact's signature, \<open>now'\<close> that of the seal's.
\<close>

definition NewBaseSeal ::
  "lib \<Rightarrow> gotime \<Rightarrow> gotime \<Rightarrow> ballot_kind \<Rightarrow> hint \<Rightarrow> ballot_fact \<Rightarrow> address \<Rightarrow> voteproof option \<Rightarrow> voteproof option \<Rightarrow>
   privatekey \<Rightarrow> bytes \<Rightarrow> ballot res" where
  "NewBaseSeal L now now' kind ht f n bvp avp pk networkID =
     bind_res (Fact_IsValid L f) (\<lambda>_.
     bind_res (NewBaseSignedBallotFactFromFact L now f n pk networkID) (\<lambda>sfs.
       let sl = \<lparr>bl_kind = kind, bl_seal = NewBaseSealWithHint ht, bl_sfs = Some sfs,
                 bl_baseVoteproof = bvp, bl_acceptVoteproof = avp\<rparr>;
           gen = (\<lambda>s. bind_res (BallotSeal_BodyBytes L (sl\<lparr>bl_seal := s\<rparr>)) (\<lambda>b. Ok (NewSHA256 L b)))
       in bind_res (Seal_Sign_with L now' gen (bl_seal sl) pk networkID) (\<lambda>s.
            Ok (sl\<lparr>bl_seal := s\<lparr>sl_bodyHashFunc := sl_bodyHash s\<rparr>\<rparr>))))"

definition NewINIT ::
  "lib \<Rightarrow> gotime \<Rightarrow> gotime \<Rightarrow> ballot_fact \<Rightarrow> address \<Rightarrow> voteproof option \<Rightarrow> voteproof option \<Rightarrow> privatekey \<Rightarrow> bytes \<Rightarrow> ballot res" where
  "NewINIT L now now' f n bvp avp pk networkID = NewBaseSeal L now now' KINIT INITHint f n bvp avp pk networkID"

definition NewACCEPT ::
  "lib \<Rightarrow> gotime \<Rightarrow> gotime \<Rightarrow> ballot_fact \<Rightarrow> address \<Rightarrow> voteproof option \<Rightarrow> privatekey \<Rightarrow> bytes \<Rightarrow> ballot res" where
  "NewACCEPT L now now' f n bvp pk networkID = NewBaseSeal L now now' KACCEPT ACCEPTHint f n bvp None pk networkID"

definition NewProposal ::
  "lib \<Rightarrow> gotime \<Rightarrow> gotime \<Rightarrow> ballot_fact \<Rightarrow> address \<Rightarrow> voteproof option \<Rightarrow> privatekey \<Rightarrow> bytes \<Rightarrow> ballot res" where
  "NewProposal L now now' f n bvp pk networkID = NewBaseSeal L now now' KProposal ProposalHint f n bvp None pk networkID"

definition BallotSeal_SignWithFact :: "lib \<Rightarrow> gotime \<Rightarrow> gotime \<Rightarrow> ballot \<Rightarrow> address \<Rightarrow> privatekey \<Rightarrow> bytes \<Rightarrow> ballot res" where
  "BallotSeal_SignWithFact L now now' sl n priv networkID =
     (case Option.bind (bl_sfs sl) sf_fact of
        None \<Rightarrow> Panic
      | Some f \<Rightarrow>
          bind_res (NewBaseSignedBallotFactFromFact L now f n priv networkID) (\<lambda>sfs.
          bind_res (Seal_Sign L now' (bl_seal sl) priv networkID) (\<lambda>s. Ok (sl\<lparr>bl_sfs := Some sfs, bl_seal := s\<rparr>))))"

definition Ballot_RawFact :: "ballot \<Rightarrow> ballot_fact option" where
  "Ballot_RawFact sl = Option.bind (bl_sfs sl) sf_fact"

definition Ballot_FactSign :: "ballot \<Rightarrow> ballot_fact_sign option" where
  "Ballot_FactSign sl = Option.bind (bl_sfs sl) sf_factSign"

definition Ballot_Node :: "ballot \<Rightarrow> address option" where
  "Ballot_Node sl = Option.bind (Ballot_FactSign sl) fs_node"

definition INIT_ACCEPTVoteproof :: "ballot \<Rightarrow> voteproof option" where
  "INIT_ACCEPTVoteproof sl =
     (case bl_acceptVoteproof sl of
        Some v \<Rightarrow> Some v
      | None \<Rightarrow>
          (case bl_baseVoteproof sl of
             Some b \<Rightarrow> if vp_stage b = StageACCEPT then Some b else None
           | None \<Rightarrow> None))"

definition Ballot_ACCEPTVoteproof :: "ballot \<Rightarrow> voteproof option" where
  "Ballot_ACCEPTVoteproof sl =
     (case bl_kind sl of KINIT \<Rightarrow> INIT_ACCEPTVoteproof sl | _ \<Rightarrow> bl_acceptVoteproof sl)"

section \<open>Validation\<close>

definition BallotSeal_isValidHasFact :: "ballot \<Rightarrow> unit res" where
  "BallotSeal_isValidHasFact sl =
     (case Ballot_RawFact sl of
        None \<Rightarrow> Panic
      | Some f \<Rightarrow>
          (let st = Fact_Stage f;
               check = (\<lambda>expected. fail_if (hint_ty (sl_ht (bl_seal sl)) \<noteq> expected)
                          (Errorf InvalidError ''ballot has weird fact; %q in %q''))
           in if st = StageINIT then check INITBallotType
              else if st = StageProposal then check ProposalType
              else if st = StageACCEPT then check ACCEPTBallotType
              else Err (Errorf InvalidError ''invalid ballot stage found, %q'')))"

definition BallotSeal_isValidSignedAt :: "ballot \<Rightarrow> unit res" where
  "BallotSeal_isValidSignedAt sl =
     (case (Ballot_RawFact sl, Ballot_FactSign sl) of
        (Some f, Some fs) \<Rightarrow>
          if Fact_Stage f = StageProposal then Ok ()
          else fail_if (sl_signedAt (bl_seal sl) < fs_signedAt fs) (Errorf InvalidError ''ballot is signed at before fact; %q < %q'')
      | _ \<Rightarrow> Panic)"

definition BallotSeal_IsValid :: "lib \<Rightarrow> (string list \<Rightarrow> string list) \<Rightarrow> ballot \<Rightarrow> bytes \<Rightarrow> unit res" where
  "BallotSeal_IsValid L order sl networkID = seq [
     isvalid_Check False
       [map_option (\<lambda>s. SignedFact_IsValid L s networkID) (bl_sfs sl), Some (Seal_IsValid L (bl_seal sl) networkID)],
     isvalid_CheckFunc [Some (BallotSeal_isValidHasFact sl), Some (BallotSeal_isValidSignedAt sl)],
     isvalid_Check True
       [map_option (\<lambda>v. Voteproof_IsValid L order v networkID) (bl_baseVoteproof sl),
        map_option (\<lambda>v. Voteproof_IsValid L order v networkID) (bl_acceptVoteproof sl)],
     fail_if (\<exists>v \<in> set_option (bl_baseVoteproof sl). \<not> Voteproof_IsFinished v)
       (Errorf InvalidError ''not yet finished base voteproof found in ballot''),
     fail_if (\<exists>v \<in> set_option (bl_acceptVoteproof sl). \<not> Voteproof_IsFinished v)
       (Errorf InvalidError ''not yet finished accept voteproof found in ballot'')]"

definition isValidBaseVoteproofAfterINIT :: "ballot \<Rightarrow> ballot_fact \<Rightarrow> unit res" where
  "isValidBaseVoteproofAfterINIT sl f =
     (if bl_acceptVoteproof sl \<noteq> None
      then Err (plain ''not empty accept voteproof with base voteproof in proposal'')
      else case bl_baseVoteproof sl of
        None \<Rightarrow> Panic
      | Some b \<Rightarrow>
          if vp_stage b \<noteq> StageINIT then Err (plain ''invalid base voteproof stage in proposal; should be init, not %v'')
          else if vp_result b \<noteq> VoteResultMajority then Err (plain ''not majority result of base voteproof in proposal'')
          else if vp_height b \<noteq> Fact_Height f
          then Err (plain ''wrong height of base voteproof in proposal; voteproof=%d == fact=%d'')
          else if vp_round b \<noteq> Fact_Round f
          then Err (plain ''wrong round of base voteproof in proposal; voteproof=%d == fact=%d'')
          else Ok ())"

definition INIT_isValidACCEPTBaseVoteproof :: "ballot \<Rightarrow> ballot_fact \<Rightarrow> voteproof \<Rightarrow> unit res" where
  "INIT_isValidACCEPTBaseVoteproof sl f b =
     (let fh = Fact_Height f; fr = Fact_Round f; vh = vp_height b; vr = vp_round b in
      if vp_result b = VoteResultMajority then
        if bl_acceptVoteproof sl \<noteq> None
        then Err (Errorf InvalidError ''not empty accept voteproof with accept base voteproof in init ballot'')
        else if fh \<noteq> i64 (vh + 1)
        then Err (Errorf InvalidError ''wrong height of init ballot + accept base voteproof; fact=%d voteproof=%d+1'')
        else if fr \<noteq> 0
        then Err (Errorf InvalidError ''wrong round of init ballot + accept base voteproof; fact round is not 0, %d'')
        else Ok ()
      else if bl_acceptVoteproof sl = None
      then Err (Errorf InvalidError ''empty accept voteproof with draw accept base voteproof in init ballot'')
      else if fh \<noteq> vh
      then Err (Errorf InvalidError ''wrong height of init ballot + draw accept base voteproof; fact=%d voteproof=%d'')
      else if fr \<noteq> vr + 1
      then Err (Errorf InvalidError ''wrong round of init ballot + draw accept base voteproof; fact round=%d voteproof=%d'')
      else Ok ())"

definition INIT_isValidINITBaseVoteproof :: "ballot \<Rightarrow> ballot_fact \<Rightarrow> voteproof \<Rightarrow> unit res" where
  "INIT_isValidINITBaseVoteproof sl f b =
     (if bl_acceptVoteproof sl = None
      then Err (Errorf InvalidError ''empty accept voteproof with init base voteproof'')
      else if Fact_Height f \<noteq> vp_height b
      then Err (Errorf InvalidError ''wrong height of init ballot + init base voteproof; fact=%d voteproof=%d'')
      else if Fact_Round f \<noteq> vp_round b + 1
      then Err (Errorf InvalidError ''wrong round of init ballot + init base voteproof; fact=%d voteproof=%d+1'')
      else Ok ())"

definition INIT_isValidBaseVoteproof :: "ballot \<Rightarrow> ballot_fact \<Rightarrow> unit res" where
  "INIT_isValidBaseVoteproof sl f =
     (case bl_baseVoteproof sl of
        None \<Rightarrow> Panic
      | Some b \<Rightarrow>
          if vp_stage b = StageACCEPT then INIT_isValidACCEPTBaseVoteproof sl f b
          else if vp_stage b = StageINIT then INIT_isValidINITBaseVoteproof sl f b
          else Ok ())"

definition INIT_isValidACCEPTVoteproof :: "ballot \<Rightarrow> ballot_fact \<Rightarrow> unit res" where
  "INIT_isValidACCEPTVoteproof sl f =
     (case bl_acceptVoteproof sl of
        None \<Rightarrow> Ok ()
      | Some v \<Rightarrow>
          if vp_stage v \<noteq> StageACCEPT
          then Err (Errorf InvalidError ''wrong stage of accept voteproof in init ballot; %q'')
          else if vp_result v \<noteq> VoteResultMajority
          then Err (Errorf InvalidError ''wrong result of accept voteproof in init ballot; %q'')
          else if vp_height v \<noteq> i64 (Fact_Height f - 1)
          then Err (Errorf InvalidError ''wrong height of accept voteproof in init ballot; accept voteproof=%d == ballot=%d - 1'')
          else Ok ())"

definition INIT_IsValid :: "lib \<Rightarrow> (string list \<Rightarrow> string list) \<Rightarrow> ballot \<Rightarrow> bytes \<Rightarrow> unit res" where
  "INIT_IsValid L order sl networkID =
     bind_res (map_err (\<lambda>e. NError_Errorf InvalidError ''invalid init ballot: %w'' (Some e))
                 (BallotSeal_IsValid L order sl networkID)) (\<lambda>_.
       case Ballot_RawFact sl of
         Some (INITFact b p) \<Rightarrow>
           seq [INIT_isValidBaseVoteproof sl (INITFact b p), INIT_isValidACCEPTVoteproof sl (INITFact b p)]
       | _ \<Rightarrow> Panic)"

definition ACCEPT_IsValid :: "lib \<Rightarrow> (string list \<Rightarrow> string list) \<Rightarrow> ballot \<Rightarrow> bytes \<Rightarrow> unit res" where
  "ACCEPT_IsValid L order sl networkID =
     bind_res (map_err (\<lambda>e. NError_Errorf InvalidError ''invalid proposal: %w'' (Some e))
                 (BallotSeal_IsValid L order sl networkID)) (\<lambda>_.
       case Ballot_RawFact sl of
         Some (ACCEPTFact b p nb) \<Rightarrow>
           map_err (\<lambda>e. NError_Errorf InvalidError ''invalid proposal: %w'' (Some e))
             (isValidBaseVoteproofAfterINIT sl (ACCEPTFact b p nb))
       | _ \<Rightarrow> Panic)"

definition Proposal_IsValid :: "lib \<Rightarrow> (string list \<Rightarrow> string list) \<Rightarrow> ballot \<Rightarrow> bytes \<Rightarrow> unit res" where
  "Proposal_IsValid L order sl networkID =
     bind_res (map_err (\<lambda>e. NError_Errorf InvalidError ''invalid proposal: %w'' (Some e))
                 (BallotSeal_IsValid L order sl networkID)) (\<lambda>_.
       case (Ballot_RawFact sl, Ballot_FactSign sl) of
         (Some (ProposalFact b p ops t), Some fs) \<Rightarrow>
           if fs_signedAt fs < t
           then Err (Errorf InvalidError ''proposal is signed at before proposed at; %q < %q'')
           else map_err (\<lambda>e. NError_Errorf InvalidError ''invalid proposal: %w'' (Some e))
             (isValidBaseVoteproofAfterINIT sl (ProposalFact b p ops t))
       | _ \<Rightarrow> Panic)"

definition Ballot_IsValid :: "lib \<Rightarrow> (string list \<Rightarrow> string list) \<Rightarrow> ballot \<Rightarrow> bytes \<Rightarrow> unit res" where
  "Ballot_IsValid L order sl networkID =
     (case bl_kind sl of
        KINIT \<Rightarrow> INIT_IsValid L order sl networkID
      | KACCEPT \<Rightarrow> ACCEPT_IsValid L order sl networkID
      | KProposal \<Rightarrow> Proposal_IsValid L order sl networkID)"

section \<open>Lemmas\<close>

lemma ballot_hint_types_valid:
  "Type_IsValid INITBallotType = Ok ()" "Type_IsValid ProposalType = Ok ()" "Type_IsValid ACCEPTBallotType = Ok ()"
  by code_simp+

lemma ballot_hints_valid:
  assumes "semver_IsValid L ''v0.0.1''"
  shows "Hint_IsValid L INITHint = Ok ()" "Hint_IsValid L ProposalHint = Ok ()" "Hint_IsValid L ACCEPTHint = Ok ()"
  using assms by (simp_all add: INITHint_def ProposalHint_def ACCEPTHint_def std_hint_valid ballot_hint_types_valid)

lemma Seal_Sign_with_valid:
  assumes "btcec_signs L" and "Seal_Sign_with L now gen sl (newBasePrivatekey L w) nid = Ok s" and "now \<noteq> 0"
  shows "IsValidSeal L s nid = Ok ()" and "sl_ht s = sl_ht sl" and "sl_signedAt s = now" and "sl_bodyHash s \<noteq> None"
proof -
  let ?k = "newBasePrivatekey L w"
  obtain bh sig where sig: "Privatekey_Sign L ?k (ConcatBytesSlice [Hash_Bytes bh, nid]) = Ok sig"
    and s: "s = sl\<lparr>sl_signer := Some (priv_pub ?k), sl_signedAt := now, sl_bodyHash := Some bh, sl_signature := sig,
      sl_h := Some (NewSHA256 L (ConcatBytesSlice [Hash_Bytes bh, Signature_Bytes sig]))\<rparr>"
    using assms(2) by (auto simp: Seal_Sign_with_def Let_def bind_res_Ok_iff Seal_GenerateHash_def)
  have pub: "priv_pub ?k = NewBasePublickey L (btcec_PubKey L w)" "priv_wif ?k = Some (Some w)"
    by (simp_all add: newBasePrivatekey_def Let_def)
  from Sign_Verify(1) [OF assms(1) sig pub] assms(3) show "IsValidSeal L s nid = Ok ()"
    by (simp add: s IsValidSeal_def time_IsZero_def Seal_GenerateHash_def of_hash_def Hash_Equal_def)
  show "sl_ht s = sl_ht sl" "sl_signedAt s = now" "sl_bodyHash s \<noteq> None" by (simp_all add: s)
qed

lemma IsValidSeal_bodyHashFunc [simp]: "IsValidSeal L (s\<lparr>sl_bodyHashFunc := x\<rparr>) nid = IsValidSeal L s nid"
  by (simp add: IsValidSeal_def Seal_GenerateHash_def of_hash_def split: option.split)

lemma NewBaseSeal_Ok:
  assumes "NewBaseSeal L now now' kind ht f n bvp avp pk nid = Ok sl"
  obtains sfs gen s where "Fact_IsValid L f = Ok ()" "NewBaseSignedBallotFactFromFact L now f n pk nid = Ok sfs"
    "Seal_Sign_with L now' gen (NewBaseSealWithHint ht) pk nid = Ok s"
    "sl = \<lparr>bl_kind = kind, bl_seal = s\<lparr>sl_bodyHashFunc := sl_bodyHash s\<rparr>, bl_sfs = Some sfs,
           bl_baseVoteproof = bvp, bl_acceptVoteproof = avp\<rparr>"
  using assms by (auto simp: NewBaseSeal_def Let_def bind_res_Ok_iff)

lemma NewBaseSignedBallotFactFromFact_fields:
  assumes "NewBaseSignedBallotFactFromFact L now f n pk nid = Ok sfs"
  shows "sf_fact sfs = Some f" "\<exists>fs. sf_factSign sfs = Some fs \<and> fs_signedAt fs = now \<and> fs_node fs = Some n"
  using assms by (auto simp: NewBaseSignedBallotFactFromFact_def NewBaseBallotFactSignFromFact_def bind_res_Ok_iff
      NewBaseSignedBallotFact_def NewBaseBallotFactSign_def split: option.splits)

text \<open>Which hint type the seal of a fact needs.\<close>

definition ballot_type_of :: "stage \<Rightarrow> hint_type option" where
  "ballot_type_of st =
     (if st = StageINIT then Some INITBallotType else if st = StageProposal then Some ProposalType
      else if st = StageACCEPT then Some ACCEPTBallotType else None)"

lemma isValidHasFact_iff:
  "Ballot_RawFact sl = Some f \<Longrightarrow>
   BallotSeal_isValidHasFact sl = Ok u \<longleftrightarrow> ballot_type_of (Fact_Stage f) = Some (hint_ty (sl_ht (bl_seal sl)))"
  by (auto simp: BallotSeal_isValidHasFact_def ballot_type_of_def Let_def)

definition voteproof_ok :: "lib \<Rightarrow> (string list \<Rightarrow> string list) \<Rightarrow> bytes \<Rightarrow> voteproof \<Rightarrow> bool" where
  "voteproof_ok L order nid v \<longleftrightarrow> Voteproof_IsValid L order v nid = Ok () \<and> Voteproof_IsFinished v"

lemma BallotSeal_IsValid_iff:
  "BallotSeal_IsValid L order sl nid = Ok u \<longleftrightarrow>
     (\<exists>s. bl_sfs sl = Some s \<and> SignedFact_IsValid L s nid = Ok ()) \<and> Seal_IsValid L (bl_seal sl) nid = Ok () \<and>
     BallotSeal_isValidHasFact sl = Ok () \<and> BallotSeal_isValidSignedAt sl = Ok () \<and>
     (\<forall>v. bl_baseVoteproof sl = Some v \<longrightarrow> voteproof_ok L order nid v) \<and>
     (\<forall>v. bl_acceptVoteproof sl = Some v \<longrightarrow> Voteproof_IsFinished v) \<and>
     (\<forall>b v. bl_baseVoteproof sl = Some b \<and> bl_acceptVoteproof sl = Some v \<longrightarrow> voteproof_ok L order nid v)"
proof -
  have "BallotSeal_IsValid L order sl nid = Ok u \<longleftrightarrow> BallotSeal_IsValid L order sl nid = Ok ()" by simp
  then show ?thesis
    unfolding BallotSeal_IsValid_def seq_Ok_iff
    by (cases "bl_baseVoteproof sl"; cases "bl_acceptVoteproof sl")
      (auto simp: isvalid_Check_allowNil_Ok voteproof_ok_def)
qed

lemma NewBaseSeal_valid:
  assumes "btcec_signs L" and "semver_IsValid L ''v0.0.1''" and "Address_IsValid L n = Ok ()" and "now \<noteq> 0" and "now \<le> now'" and "now' \<noteq> 0"
    and "proposal_signed_by L f (Some n) = Ok ()" and "Hint_IsValid L ht = Ok ()" and "ballot_type_of (Fact_Stage f) = Some (hint_ty ht)"
    and "\<And>v. bvp = Some v \<Longrightarrow> voteproof_ok L order nid v" and "\<And>v. avp = Some v \<Longrightarrow> voteproof_ok L order nid v"
    and "NewBaseSeal L now now' kind ht f n bvp avp (newBasePrivatekey L w) nid = Ok sl"
  shows "BallotSeal_IsValid L order sl nid = Ok ()" and "Ballot_RawFact sl = Some f"
    and "bl_baseVoteproof sl = bvp" and "bl_acceptVoteproof sl = avp" and "bl_kind sl = kind"
    and "\<exists>fs. Ballot_FactSign sl = Some fs \<and> fs_signedAt fs = now"
proof -
  obtain sfs gen s where f: "Fact_IsValid L f = Ok ()" and sfs: "NewBaseSignedBallotFactFromFact L now f n (newBasePrivatekey L w) nid = Ok sfs"
    and s: "Seal_Sign_with L now' gen (NewBaseSealWithHint ht) (newBasePrivatekey L w) nid = Ok s"
    and sl: "sl = \<lparr>bl_kind = kind, bl_seal = s\<lparr>sl_bodyHashFunc := sl_bodyHash s\<rparr>, bl_sfs = Some sfs,
           bl_baseVoteproof = bvp, bl_acceptVoteproof = avp\<rparr>"
    using assms(12) by (rule NewBaseSeal_Ok)
  note S = Seal_Sign_with_valid [OF assms(1) s assms(6)] and F = NewBaseSignedBallotFactFromFact_fields [OF sfs]
  have ht: "sl_ht s = ht" using S(2) by (simp add: NewBaseSealWithHint_def)
  obtain fs where fs: "sf_factSign sfs = Some fs" "fs_signedAt fs = now" "fs_node fs = Some n" using F(2) by blast
  show raw: "Ballot_RawFact sl = Some f" "bl_baseVoteproof sl = bvp" "bl_acceptVoteproof sl = avp" "bl_kind sl = kind"
    using F(1) by (simp_all add: sl Ballot_RawFact_def)
  show fsn: "\<exists>fs. Ballot_FactSign sl = Some fs \<and> fs_signedAt fs = now"
    using fs by (simp add: sl Ballot_FactSign_def)
  have "BallotSeal_isValidHasFact sl = Ok ()" using isValidHasFact_iff [OF raw(1)] assms(9) by (simp add: sl ht)
  moreover have "BallotSeal_isValidSignedAt sl = Ok ()"
    using raw(1) fs S(3) assms(5) by (simp add: BallotSeal_isValidSignedAt_def) (simp add: sl Ballot_FactSign_def)
  moreover have "Seal_IsValid L (bl_seal sl) nid = Ok ()" using S(1) assms(8) by (simp add: sl Seal_IsValid_def ht)
  ultimately show "BallotSeal_IsValid L order sl nid = Ok ()"
    unfolding BallotSeal_IsValid_iff using assms(10,11) raw(2,3)
      NewBaseSignedBallotFactFromFact_valid [OF assms(1,2) f assms(3,4,7) sfs]
    by (auto simp: sl voteproof_ok_def)
qed

text \<open>
  When an INIT ballot at \<open>(h, r)\<close> continues the consensus: after a majority ACCEPT voteproof of the block below, or in the next
  round after a drawn ACCEPT or an INIT voteproof of the same height, together with the ACCEPT voteproof of the block below.
\<close>

definition last_accept :: "voteproof \<Rightarrow> height \<Rightarrow> bool" where
  "last_accept a h \<longleftrightarrow> vp_stage a = StageACCEPT \<and> vp_result a = VoteResultMajority \<and> vp_height a = i64 (h - 1)"

definition init_follows :: "voteproof \<Rightarrow> voteproof option \<Rightarrow> height \<Rightarrow> round \<Rightarrow> bool" where
  "init_follows b avp h r \<longleftrightarrow>
     (if vp_stage b = StageACCEPT \<and> vp_result b = VoteResultMajority
      then avp = None \<and> h = i64 (vp_height b + 1) \<and> r = 0
      else (\<exists>a. avp = Some a \<and> last_accept a h) \<and> h = vp_height b \<and> r = vp_round b + 1)"

lemma INIT_checks_iff:
  assumes "bl_baseVoteproof sl = Some b" and "vp_stage b \<in> {StageINIT, StageACCEPT}"
  shows "INIT_isValidBaseVoteproof sl f = Ok () \<and> INIT_isValidACCEPTVoteproof sl f = Ok () \<longleftrightarrow>
    init_follows b (bl_acceptVoteproof sl) (Fact_Height f) (Fact_Round f)"
  using assms
  by (cases "bl_acceptVoteproof sl")
    (auto simp: INIT_isValidBaseVoteproof_def INIT_isValidACCEPTVoteproof_def INIT_isValidACCEPTBaseVoteproof_def
      INIT_isValidINITBaseVoteproof_def init_follows_def last_accept_def Let_def split: if_splits)

lemma INIT_IsValid_iff:
  assumes "bl_baseVoteproof sl = Some b" and "vp_stage b \<in> {StageINIT, StageACCEPT}"
  shows "INIT_IsValid L order sl nid = Ok () \<longleftrightarrow> BallotSeal_IsValid L order sl nid = Ok () \<and>
    (\<exists>bf p. Ballot_RawFact sl = Some (INITFact bf p) \<and> init_follows b (bl_acceptVoteproof sl) (bf_height bf) (bf_round bf))"
  using INIT_checks_iff [OF assms]
  by (auto simp: INIT_IsValid_def bind_res_Ok_iff Fact_Height_def Fact_Round_def split: option.splits ballot_fact.splits)

section \<open>Properties\<close>



text \<open>
  C22: an ACCEPT ballot built by \<open>NewACCEPT\<close> from a valid fact, a valid finished majority INIT voteproof of the same point and a
  working key passes \<open>ACCEPT.IsValid\<close>.
\<close>

theorem new_accept_ballot_valid:
  assumes "btcec_signs L" and "semver_IsValid L ''v0.0.1''" and "Address_IsValid L n = Ok ()" and "0 < now" and "now \<le> now'"
    and "f = NewACCEPTFact L h r p nb" and "voteproof_ok L order nid b" and "vp_stage b = StageINIT"
    and "vp_result b = VoteResultMajority" and "vp_height b = h" and "vp_round b = r"
    and "NewACCEPT L now now' f n (Some b) (newBasePrivatekey L w) nid = Ok sl"
  shows "Ballot_IsValid L order sl nid = Ok ()"
proof -
  have st: "Fact_Stage f = StageACCEPT" "Fact_Height f = h" "Fact_Round f = r"
    by (simp_all add: assms(6) NewACCEPTFact_def Let_def Fact_Stage_def BaseFact_Stage_def NewBaseFact_def fact_hints NewHint_def
        fact_types Fact_Height_def Fact_Round_def)
  then have p: "proposal_signed_by L f (Some n) = Ok ()" by (simp add: proposal_signed_by_def)
  have ty: "ballot_type_of (Fact_Stage f) = Some (hint_ty ACCEPTHint)"
    by (simp add: st ballot_type_of_def ACCEPTHint_def NewHint_def)
  note B = NewBaseSeal_valid [OF assms(1-3) _ assms(5) _ p ballot_hints_valid(3) [OF assms(2)] ty _ _
      assms(12) [unfolded NewACCEPT_def], of order]
  have "BallotSeal_IsValid L order sl nid = Ok ()" "Ballot_RawFact sl = Some f" "bl_baseVoteproof sl = Some b"
    "bl_acceptVoteproof sl = None" "bl_kind sl = KACCEPT"
    using B assms(4,5,7) by auto
  then show ?thesis using assms(6,8-11) st
    by (auto simp: Ballot_IsValid_def ACCEPT_IsValid_def isValidBaseVoteproofAfterINIT_def NewACCEPTFact_def Let_def)
qed

subsection \<open>Sample ballots\<close>

definition sample_vote :: signed_fact where
  "sample_vote = (case NewBaseSignedBallotFactFromFact sample_lib 5 sample_INIT (NewStringAddress ''node0'')
      (newBasePrivatekey sample_lib [9]) [1] of Ok v \<Rightarrow> v)"

lemma sample_vote_valid: "SignedFact_IsValid sample_lib sample_vote [1] = Ok ()" "sf_fact sample_vote = Some sample_INIT"
  using sample_signed_INIT by (auto simp: sample_vote_def sample_INIT_def)

definition sample_vp :: "height \<Rightarrow> round \<Rightarrow> stage \<Rightarrow> voteproof" where
  "sample_vp h r st = repeated_voteproof h r st (replicate 4 (NewStringAddress ''other'')) 67 8 sample_INIT sample_vote 3"

lemma sample_vp_ok:
  assumes "Height_IsValid h = Ok ()" and "Stage_IsValid st = Ok ()"
  shows "voteproof_ok sample_lib (\<lambda>xs. xs) [1] (sample_vp h r st)"
proof -
  have t: "NewThreshold (of_nat (length (replicate 4 (NewStringAddress ''other'')))) 67 =
      Ok \<lparr>thr_Total = 4, thr_Threshold = 3, thr_Ratio = 67\<rparr>" using sample_threshold by simp
  have "Voteproof_IsValid sample_lib (\<lambda>xs. xs) (sample_vp h r st) [1] = Ok ()"
    unfolding sample_vp_def by (rule repeated_voteproof_valid [OF _ sample_vote_valid assms _ t]) simp_all
  then show ?thesis
    by (simp add: voteproof_ok_def Voteproof_IsFinished_def sample_vp_def repeated_voteproof_def Voteproof_SetMajority_def
        Voteproof_SetResult_def Voteproof_SetFacts_def Voteproof_SetVotes_def Voteproof_Finish_def)
qed

lemma sample_vp_fields [simp]:
  "vp_stage (sample_vp h r st) = st" "vp_height (sample_vp h r st) = h" "vp_round (sample_vp h r st) = r"
  "vp_result (sample_vp h r st) = 2"
  by (simp_all add: sample_vp_def repeated_voteproof_def Voteproof_SetMajority_def Voteproof_SetResult_def
      Voteproof_SetFacts_def Voteproof_SetVotes_def Voteproof_Finish_def NewVoteproofV0_def)

subsection \<open>Valid values can be encoded\<close>

lemma map_res_Ok: "\<forall>x \<in> set xs. \<exists>y. f x = Ok y \<Longrightarrow> \<exists>ys. map_res f xs = Ok ys"
proof (induction xs)
  case (Cons x xs)
  then obtain y ys where "f x = Ok y" "map_res f xs = Ok ys" by auto
  then show ?case by simp
qed simp

lemma SignedFact_Bytes_Ok:
  assumes "SignedFact_IsValid L v nid = Ok ()"
  shows "\<exists>b. SignedFact_Bytes v = Ok b"
proof -
  from assms obtain f fs where f: "sf_fact v = Some f" "Fact_IsValid L f = Ok ()"
    and fs: "sf_factSign v = Some fs" "BallotFactSign_IsValid L fs = Ok ()"
    by (auto simp: SignedFact_IsValid_def bind_res_Ok_iff)
  obtain h where "Fact_Hash f = Some h" using Fact_IsValid_hash [OF f(2)] by blast
  moreover obtain n k where "fs_node fs = Some n" "fs_signer fs = Some k"
    using fs(2) by (auto simp: BallotFactSign_IsValid_def FactSign_IsValid_def split: if_splits)
  ultimately show ?thesis using f(1) fs(1)
    by (simp add: SignedFact_Bytes_def BallotFactSign_Bytes_def FactSign_Bytes_def)
qed

lemma isValidFacts_facts:
  assumes "Voteproof_isValidFacts L vp nid = Ok ()" and "f \<in> set (vp_facts vp)"
  shows "Fact_IsValid L f = Ok ()"
proof -
  from assms(1) have "seq (map (\<lambda>f. isvalid_Check False [Some (Fact_IsValid L f)]) (vp_facts vp)) = Ok ()"
    unfolding Voteproof_isValidFacts_def bind_res_Ok_iff by (auto split: if_splits)
  with assms(2) show ?thesis unfolding seq_Ok_iff by simp
qed

lemma Voteproof_Bytes_Ok:
  assumes "Voteproof_IsValid L order vp nid = Ok ()"
  shows "\<exists>b. Voteproof_Bytes L vp = Ok b"
proof (rule Voteproof_IsValid_parts [OF assms])
  assume F: "Voteproof_isValidFields L vp = Ok ()" and V: "Voteproof_isValidFacts L vp nid = Ok ()"
  have a: "\<forall>f \<in> set (vp_facts vp). \<exists>h. of_hash (Fact_Hash f) = Ok h"
    unfolding of_hash_Ok using isValidFact_hash [OF Fact_IsValid_isValidFact [OF isValidFacts_facts [OF V]]] by blast
  obtain hs where "map_res (\<lambda>f. of_hash (Fact_Hash f)) (vp_facts vp) = Ok hs" using map_res_Ok [OF a] by blast
  then obtain fb where fb: "Voteproof_factsBytes L vp = Ok fb" by (simp add: Voteproof_factsBytes_def Let_def)
  have c: "\<forall>v \<in> set (sort_key vote_node_bytes (vp_votes vp)). \<exists>b. SignedFact_Bytes v = Ok b"
    using SignedFact_Bytes_Ok [OF Voteproof_IsValid_votes [OF assms]] by simp
  obtain bs where "map_res SignedFact_Bytes (sort_key vote_node_bytes (vp_votes vp)) = Ok bs" using map_res_Ok [OF c] by blast
  then obtain vb where vb: "Voteproof_votesBytes vp = Ok vb" by (simp add: Voteproof_votesBytes_def)
  obtain m where m: "(case vp_majority vp of None \<Rightarrow> Ok []
      | Some f \<Rightarrow> bind_res (of_hash (Fact_Hash f)) (\<lambda>h. Ok (Hash_Bytes h))) = Ok m"
  proof (cases "vp_majority vp")
    case (Some f)
    obtain h where "Fact_Hash f = Some h" using Fact_IsValid_hash [OF isValidFields_parts(2) [OF F Some]] by blast
    with Some that show thesis by (simp add: of_hash_def)
  qed (use that in simp)
  show ?thesis unfolding Voteproof_Bytes_def m fb vb bind_res.simps by blast
qed

lemma NewBaseSeal_made:
  assumes "Fact_IsValid L f = Ok ()" and "\<forall>h. \<exists>s. btcec_Sign L w h = Ok s" and b: "opt_vp_bytes L bvp = Ok bb" "opt_vp_bytes L avp = Ok ba"
  shows "\<exists>sl. NewBaseSeal L now now' kind ht f n bvp avp (newBasePrivatekey L w) nid = Ok sl"
proof -
  let ?k = "newBasePrivatekey L w"
  have sign: "\<exists>s. Privatekey_Sign L ?k m = Ok s" for m
    using assms(2) by (auto simp: Privatekey_Sign_def newBasePrivatekey_def Let_def bind_res_Ok_iff)
  obtain fh where fh: "Fact_Hash f = Some fh" using Fact_IsValid_hash [OF assms(1)] by blast
  obtain sig where "Privatekey_Sign L ?k (ConcatBytesSlice [Hash_Bytes fh, Time_Bytes now, nid]) = Ok sig" using sign by blast
  then obtain sfs where sfs: "NewBaseSignedBallotFactFromFact L now f n ?k nid = Ok sfs"
    "sfs = NewBaseSignedBallotFact (Some f) (Some (NewBaseBallotFactSign (Some n) (Some (priv_pub ?k)) now sig))"
    using fh by (simp add: NewBaseSignedBallotFactFromFact_def NewBaseBallotFactSignFromFact_def)
  have "\<exists>x. SignedFact_Bytes sfs = Ok x"
    using fh by (simp add: sfs(2) SignedFact_Bytes_def NewBaseSignedBallotFact_def NewBaseBallotFactSign_def
        BallotFactSign_Bytes_def FactSign_Bytes_def)
  then obtain x where x: "SignedFact_Bytes sfs = Ok x" by blast
  show ?thesis using assms(1) sfs(1) x b sign
    by (auto simp: NewBaseSeal_def Let_def Seal_Sign_with_def BallotSeal_BodyBytes_def Seal_BodyBytes_def bind_res_Ok_iff
        Seal_GenerateHash_def of_hash_def)
qed

lemma NewBaseSeal_exists:
  assumes "Fact_IsValid L f = Ok ()" and "\<forall>h. \<exists>s. btcec_Sign L w h = Ok s" and "Address_IsValid L n = Ok ()"
    and "\<And>v. bvp = Some v \<Longrightarrow> voteproof_ok L order nid v" and "\<And>v. avp = Some v \<Longrightarrow> voteproof_ok L order nid v"
  shows "\<exists>sl. NewBaseSeal L now now' kind ht f n bvp avp (newBasePrivatekey L w) nid = Ok sl"
proof -
  have "\<exists>bb. opt_vp_bytes L bvp = Ok bb" "\<exists>ba. opt_vp_bytes L avp = Ok ba"
    using assms(4,5) Voteproof_Bytes_Ok by (cases bvp; cases avp; fastforce simp: opt_vp_bytes_def voteproof_ok_def)+
  then show ?thesis using NewBaseSeal_made [OF assms(1,2)] by blast
qed

theorem new_accept_ballot_valid_witness:
  "\<exists>sl. NewACCEPT sample_lib 5 6 (NewACCEPTFact sample_lib 33 0 (Some (HBytes [2])) (Some (HBytes [3]))) (NewStringAddress ''node0'')
      (Some (sample_vp 33 0 StageINIT)) (newBasePrivatekey sample_lib [9]) [1] = Ok sl \<and>
     Ballot_IsValid sample_lib (\<lambda>xs. xs) sl [1] = Ok ()"
proof -
  let ?f = "NewACCEPTFact sample_lib 33 0 (Some (HBytes [2])) (Some (HBytes [3]))" and ?b = "sample_vp 33 0 StageINIT"
  have s: "semver_IsValid sample_lib ''v0.0.1''" and a: "Address_IsValid sample_lib (NewStringAddress ''node0'') = Ok ()"
    by code_simp+
  have b: "voteproof_ok sample_lib (\<lambda>xs. xs) [1] ?b"
    by (rule sample_vp_ok) (simp_all add: Height_IsValid_def PreGenesisHeight_def Stage_IsValid_def)
  have f: "Fact_IsValid sample_lib ?f = Ok ()"
    by (rule Fact_IsValid_new [OF s sample_sha3_shape]) (simp_all add: maxBytesHashSize_def)
  obtain sl where sl: "NewACCEPT sample_lib 5 6 ?f (NewStringAddress ''node0'') (Some ?b) (newBasePrivatekey sample_lib [9]) [1] = Ok sl"
    using NewBaseSeal_exists [OF f _ a, of "[9]" "Some ?b" "\<lambda>xs. xs" "[1]" None 5 6 KACCEPT ACCEPTHint] b
    by (auto simp: NewACCEPT_def sample_lib_def)
  from new_accept_ballot_valid [OF sample_btcec_signs s a _ _ refl b _ _ _ _ sl] sl show ?thesis by simp
qed

lemma sample_INIT_ballot:
  assumes "bvp = None \<or> bvp = Some (sample_vp h r st) \<and> Height_IsValid h = Ok () \<and> Stage_IsValid st = Ok ()"
  shows "\<exists>sl. BallotSeal_IsValid sample_lib (\<lambda>xs. xs) sl [1] = Ok () \<and> Ballot_RawFact sl = Some sample_INIT \<and>
    bl_kind sl = KINIT \<and> bl_baseVoteproof sl = bvp \<and> bl_acceptVoteproof sl = None"
proof -
  have s: "semver_IsValid sample_lib ''v0.0.1''" and a: "Address_IsValid sample_lib (NewStringAddress ''node0'') = Ok ()"
    by code_simp+
  have st: "Fact_Stage sample_INIT = StageINIT" by code_simp
  have f: "Fact_IsValid sample_lib sample_INIT = Ok ()"
    unfolding sample_INIT_def by (rule Fact_IsValid_new [OF s sample_sha3_shape]) (simp_all add: maxBytesHashSize_def)
  have p: "proposal_signed_by sample_lib sample_INIT (Some (NewStringAddress ''node0'')) = Ok ()"
    by (simp add: proposal_signed_by_def st)
  have ty: "ballot_type_of (Fact_Stage sample_INIT) = Some (hint_ty INITHint)"
    by (simp add: st ballot_type_of_def INITHint_def NewHint_def)
  have b: "\<And>v. bvp = Some v \<Longrightarrow> voteproof_ok sample_lib (\<lambda>xs. xs) [1] v" using assms sample_vp_ok by auto
  obtain sl where sl: "NewBaseSeal sample_lib 5 6 KINIT INITHint sample_INIT (NewStringAddress ''node0'') bvp None
      (newBasePrivatekey sample_lib [9]) [1] = Ok sl"
    using NewBaseSeal_exists [OF f _ a, of "[9]" bvp "\<lambda>xs. xs" "[1]" None 5 6 KINIT INITHint] b
    by (auto simp: sample_lib_def)
  from NewBaseSeal_valid [OF sample_btcec_signs s a _ _ _ p ballot_hints_valid(1) [OF s] ty b _ sl] show ?thesis by auto
qed

text \<open>
  The signature of a ballot does not cover its voteproofs. The hash over the ballot's body is signed but never compared
  with the body, so the base voteproof and the ACCEPT voteproof of a validly sealed ballot can be exchanged for any other
  valid finished voteproofs and the ballot still passes the checks of its seal.
\<close>

theorem seal_does_not_bind_voteproofs:
  assumes "BallotSeal_IsValid L order sl nid = Ok ()" and "voteproof_ok L order nid x" and "\<forall>v. y = Some v \<longrightarrow> voteproof_ok L order nid v"
  shows "BallotSeal_IsValid L order (sl\<lparr>bl_baseVoteproof := Some x, bl_acceptVoteproof := y\<rparr>) nid = Ok ()"
proof -
  have e: "BallotSeal_isValidHasFact (sl\<lparr>bl_baseVoteproof := Some x, bl_acceptVoteproof := y\<rparr>) = BallotSeal_isValidHasFact sl"
    "BallotSeal_isValidSignedAt (sl\<lparr>bl_baseVoteproof := Some x, bl_acceptVoteproof := y\<rparr>) = BallotSeal_isValidSignedAt sl"
    by (simp_all add: BallotSeal_isValidHasFact_def BallotSeal_isValidSignedAt_def Ballot_RawFact_def Ballot_FactSign_def
        split: option.split)
  show ?thesis using assms unfolding BallotSeal_IsValid_iff e by (auto simp: voteproof_ok_def)
qed

theorem seal_does_not_bind_voteproofs_witness:
  "\<exists>sl. bl_baseVoteproof sl = Some (sample_vp 32 0 StageACCEPT) \<and> BallotSeal_IsValid sample_lib (\<lambda>xs. xs) sl [1] = Ok () \<and>
     BallotSeal_IsValid sample_lib (\<lambda>xs. xs)
       (sl\<lparr>bl_baseVoteproof := Some (sample_vp 90 7 StageACCEPT), bl_acceptVoteproof := None\<rparr>) [1] = Ok ()"
proof -
  have v: "Height_IsValid 32 = Ok ()" "Height_IsValid 90 = Ok ()" "Stage_IsValid StageACCEPT = Ok ()"
    by (simp_all add: Height_IsValid_def PreGenesisHeight_def Stage_IsValid_def)
  obtain sl where sl: "BallotSeal_IsValid sample_lib (\<lambda>xs. xs) sl [1] = Ok ()" "bl_baseVoteproof sl = Some (sample_vp 32 0 StageACCEPT)"
    using sample_INIT_ballot [of _ 32 0 StageACCEPT] v by blast
  from seal_does_not_bind_voteproofs [OF sl(1) sample_vp_ok [OF v(2,3), of 7], of None] sl show ?thesis by auto
qed

text \<open>
  Two gaps of INIT ballot validation. Without a base voteproof the nil check is skipped (\<open>allowNil\<close>) and validation panics; with
  a base voteproof of stage PROPOSAL no relation between the ballot's point and the voteproof is checked at all.
\<close>

theorem init_ballot_validation_gaps:
  assumes "BallotSeal_IsValid L order sl nid = Ok ()" and "Ballot_RawFact sl = Some (INITFact bf p)"
  shows "(bl_baseVoteproof sl = None \<longrightarrow> INIT_IsValid L order sl nid = Panic) \<and>
    (\<forall>b. bl_baseVoteproof sl = Some b \<and> vp_stage b = StageProposal \<and> bl_acceptVoteproof sl = None \<longrightarrow>
       INIT_IsValid L order sl nid = Ok ())"
  using assms by (auto simp: INIT_IsValid_def INIT_isValidBaseVoteproof_def INIT_isValidACCEPTVoteproof_def)

theorem init_ballot_validation_gaps_witness:
  "\<exists>sl sl'. INIT_IsValid sample_lib (\<lambda>xs. xs) sl [1] = Panic \<and>
     bl_baseVoteproof sl' = Some (sample_vp 90 7 StageProposal) \<and> INIT_IsValid sample_lib (\<lambda>xs. xs) sl' [1] = Ok ()"
proof -
  have v: "Height_IsValid 90 = Ok ()" "Stage_IsValid StageProposal = Ok ()"
    by (simp_all add: Height_IsValid_def PreGenesisHeight_def Stage_IsValid_def)
  obtain bf p where i: "sample_INIT = INITFact bf p" by (simp add: sample_INIT_def NewINITFact_def Let_def)
  obtain sl where sl: "BallotSeal_IsValid sample_lib (\<lambda>xs. xs) sl [1] = Ok ()" "Ballot_RawFact sl = Some (INITFact bf p)"
    "bl_baseVoteproof sl = None" using sample_INIT_ballot [of None] i by auto
  obtain sl' where sl': "BallotSeal_IsValid sample_lib (\<lambda>xs. xs) sl' [1] = Ok ()" "Ballot_RawFact sl' = Some (INITFact bf p)"
    "bl_baseVoteproof sl' = Some (sample_vp 90 7 StageProposal)" "bl_acceptVoteproof sl' = None"
    using sample_INIT_ballot [of "Some (sample_vp 90 7 StageProposal)" 90 7 StageProposal] i v by auto
  from init_ballot_validation_gaps [OF sl(1,2)] init_ballot_validation_gaps [OF sl'(1,2)] sl(3) sl'(3,4) show ?thesis
    by auto
qed

end
