(* ===== verification/Mitum_FixedTree.thy ===== *)
theory Mitum_FixedTree
  imports Mitum_Fact
begin

text \<open>
  The Merkle tree of a block's operations and states (\<^verbatim>\<open>src/util/tree/fixedtree.go\<close>): an array of nodes in which the
  children of \<open>i\<close> are \<open>2 i + 1\<close> and \<open>2 i + 2\<close>, each node hashed with its index, its key and its children's hashes; the
  generator, the validation of a tree, membership proofs and their check. The node types of
  \<^verbatim>\<open>src/base/operation/tree.go\<close> and \<^verbatim>\<open>src/base/state/tree.go\<close> extend the record \<open>fnode\<close>. A nil node is \<open>None\<close>.
\<close>

section \<open>Model\<close>

definition InvalidNodeError :: goerr where "InvalidNodeError = NewError ''init'' 22 ''invalid node''"
definition NoParentError :: goerr where "NoParentError = NewError ''init'' 23 ''no node parent''"
definition EmptyNodeInTreeError :: goerr where "EmptyNodeInTreeError = NewError ''init'' 24 ''empty node found in tree''"
definition EmptyKeyError :: goerr where "EmptyKeyError = NewError ''init'' 25 ''empty node key''"
definition tree_EmptyHashError :: goerr where "tree_EmptyHashError = NewError ''init'' 26 ''empty node hash''"
definition NoChildrenError :: goerr where "NoChildrenError = NewError ''init'' 27 ''no children''"
definition HashNotMatchError :: goerr where "HashNotMatchError = NewError ''init'' 28 ''hash not match''"
definition InvalidProofError :: goerr where "InvalidProofError = NewError ''init'' 29 ''invalid proof''"

lemmas tree_errors = InvalidNodeError_def NoParentError_def EmptyNodeInTreeError_def EmptyKeyError_def
  tree_EmptyHashError_def NoChildrenError_def HashNotMatchError_def InvalidProofError_def NewError_def

definition FixedTreeHint :: hint where "FixedTreeHint = NewHint ''fixedtree'' ''v0.0.1''"

record fnode =
  fn_ht :: hint
  fn_index :: u64
  fn_key :: bytes
  fn_hash :: bytes

definition NewBaseFixedTreeNodeWithHash :: "hint \<Rightarrow> u64 \<Rightarrow> bytes \<Rightarrow> bytes \<Rightarrow> fnode" where
  "NewBaseFixedTreeNodeWithHash ht i k h = \<lparr>fn_ht = ht, fn_index = i, fn_key = k, fn_hash = h\<rparr>"

definition NewBaseFixedTreeNode :: "hint \<Rightarrow> u64 \<Rightarrow> bytes \<Rightarrow> fnode" where
  "NewBaseFixedTreeNode ht i k = NewBaseFixedTreeNodeWithHash ht i k []"

definition FixedTreeNode_IsValid :: "lib \<Rightarrow> 'a fnode_scheme \<Rightarrow> unit res" where
  "FixedTreeNode_IsValid L no =
     seq [Hint_IsValid L (fn_ht no),
          fail_if (length (fn_key no) < 1) (NError_Wrap InvalidError EmptyKeyError),
          fail_if (length (fn_hash no) < 1) (NError_Wrap InvalidError tree_EmptyHashError)]"

definition FixedTreeNode_Equal :: "'a fnode_scheme \<Rightarrow> 'b fnode_scheme \<Rightarrow> bool" where
  "FixedTreeNode_Equal no n \<longleftrightarrow> fn_index no = fn_index n \<and> fn_key no = fn_key n \<and> fn_hash no = fn_hash n"

definition FixedTreeNode_SetHash :: "bytes \<Rightarrow> 'a fnode_scheme \<Rightarrow> 'a fnode_scheme" where
  "FixedTreeNode_SetHash h no = no\<lparr>fn_hash := h\<rparr>"

subsection \<open>Positions\<close>

text \<open>
  \<open>uint64(math.Pow(2, float64(h)) - 1)\<close>: exact up to \<open>2 ^ 53\<close>; above, the subtraction is lost in the rounding.
\<close>

definition pow2_minus_1 :: "u64 \<Rightarrow> u64" where
  "pow2_minus_1 h = (if h \<le> 53 then 2 ^ unat h - 1 else 2 ^ unat h)"

text \<open>\<open>int(index) >= size\<close> compares after a conversion to \<open>int\<close>, so an index of \<open>2 ^ 63\<close> or more is negative there.\<close>

definition heightFixedTree :: "lib \<Rightarrow> nat \<Rightarrow> u64 \<Rightarrow> u64 res" where
  "heightFixedTree L sz index =
     (if sint index \<ge> int sz then Err (Errorf NotFoundError ''node, %d not found'')
      else if index = 0 then Ok 0
      else Ok (math_Log2 L (index + 1)))"

definition parentFixedTree :: "lib \<Rightarrow> nat \<Rightarrow> u64 \<Rightarrow> u64 res" where
  "parentFixedTree L sz index =
     bind_res (heightFixedTree L sz index) (\<lambda>height.
       if height = 0 then Err NoParentError
       else
         let currentFirst = pow2_minus_1 height;
             pos = index - currentFirst;
             pos = (if pos mod 2 = 1 then pos - 1 else pos);
             upFirst = pow2_minus_1 (height - 1)
         in Ok (upFirst + pos div 2))"

definition childrenFixedTree :: "lib \<Rightarrow> nat \<Rightarrow> u64 \<Rightarrow> (u64 \<times> u64) res" where
  "childrenFixedTree L sz index =
     bind_res (heightFixedTree L sz index) (\<lambda>height.
       let currentFirst = pow2_minus_1 height;
           pos = index - currentFirst;
           nextFirst = pow2_minus_1 (height + 1);
           i = nextFirst + pos * 2
       in if i \<ge> of_nat sz then Err NoChildrenError
          else Ok (i, if i + 1 < of_nat sz then i + 1 else 0))"

subsection \<open>The tree\<close>

type_synonym 'a nodes = "'a fnode_scheme option list"

record 'a fixedtree =
  tr_ht :: hint
  tr_nodes :: "'a nodes"

definition NewFixedTreeWithHint :: "hint \<Rightarrow> 'a nodes \<Rightarrow> 'a fixedtree" where
  "NewFixedTreeWithHint ht nodes = \<lparr>tr_ht = ht, tr_nodes = nodes\<rparr>"

definition NewFixedTree :: "'a nodes \<Rightarrow> 'a fixedtree" where
  "NewFixedTree nodes = NewFixedTreeWithHint FixedTreeHint nodes"

definition FixedTree_Len :: "'a fixedtree \<Rightarrow> nat" where
  "FixedTree_Len tr = length (tr_nodes tr)"

text \<open>\<open>tr.nodes[i]\<close> panics out of range.\<close>

definition node_at :: "'a nodes \<Rightarrow> u64 \<Rightarrow> 'a fnode_scheme option res" where
  "node_at ns i = (if unat i < length ns then Ok (ns ! unat i) else Panic)"

definition deref :: "'a fnode_scheme option \<Rightarrow> 'a fnode_scheme res" where
  "deref n = (case n of None \<Rightarrow> Panic | Some x \<Rightarrow> Ok x)"

definition FixedTree_Root :: "'a fixedtree \<Rightarrow> bytes res" where
  "FixedTree_Root tr =
     (if FixedTree_Len tr < 1 then Ok []
      else bind_res (deref (tr_nodes tr ! 0)) (\<lambda>n. Ok (fn_hash n)))"

definition FixedTree_Node :: "'a fixedtree \<Rightarrow> u64 \<Rightarrow> 'a fnode_scheme option res" where
  "FixedTree_Node tr index =
     (if sint index \<ge> int (FixedTree_Len tr) then Err (Errorf NotFoundError ''node, %d not found'')
      else node_at (tr_nodes tr) index)"

definition FixedTree_height :: "lib \<Rightarrow> 'a fixedtree \<Rightarrow> u64 \<Rightarrow> u64 res" where
  "FixedTree_height L tr index = heightFixedTree L (FixedTree_Len tr) index"

definition FixedTree_parent :: "lib \<Rightarrow> 'a fixedtree \<Rightarrow> u64 \<Rightarrow> 'a fnode_scheme option res" where
  "FixedTree_parent L tr index =
     bind_res (parentFixedTree L (FixedTree_Len tr) index) (\<lambda>i. FixedTree_Node tr i)"

definition FixedTree_children ::
  "lib \<Rightarrow> 'a fixedtree \<Rightarrow> u64 \<Rightarrow> ('a fnode_scheme option \<times> 'a fnode_scheme option) res" where
  "FixedTree_children L tr index =
     bind_res (childrenFixedTree L (FixedTree_Len tr) index) (\<lambda>(i, j).
       bind_res (node_at (tr_nodes tr) i) (\<lambda>l.
         if j = 0 then Ok (l, None)
         else bind_res (node_at (tr_nodes tr) j) (\<lambda>r. Ok (l, r))))"

definition hashNode :: "lib \<Rightarrow> bytes \<Rightarrow> bytes" where
  "hashNode L b = sha256_Sum256 L b"

definition opt_hash :: "'a fnode_scheme option \<Rightarrow> bytes" where
  "opt_hash n = (case n of None \<Rightarrow> [] | Some x \<Rightarrow> fn_hash x)"

definition FixedTreeNodeHash ::
  "lib \<Rightarrow> 'a fnode_scheme \<Rightarrow> 'a fnode_scheme option \<Rightarrow> 'a fnode_scheme option \<Rightarrow> bytes res" where
  "FixedTreeNodeHash L self left right =
     (if length (fn_key self) < 1 then Err EmptyKeyError
      else Ok (hashNode L (ConcatBytesSlice [Uint64ToBytes (fn_index self) @ fn_key self, opt_hash left, opt_hash right])))"

definition or_no_children ::
  "('a fnode_scheme option \<times> 'a fnode_scheme option) res \<Rightarrow> ('a fnode_scheme option \<times> 'a fnode_scheme option) res" where
  "or_no_children r =
     (case r of Err e \<Rightarrow> (if error_Is e NoChildrenError then Ok (None, None) else Err e) | _ \<Rightarrow> r)"

definition FixedTree_generateNodeHash :: "lib \<Rightarrow> 'a fixedtree \<Rightarrow> 'a fnode_scheme option \<Rightarrow> bytes res" where
  "FixedTree_generateNodeHash L tr n =
     (case n of
        None \<Rightarrow> Err EmptyKeyError
      | Some x \<Rightarrow>
          if length (fn_key x) < 1 then Err EmptyKeyError
          else bind_res (or_no_children (FixedTree_children L tr (fn_index x))) (\<lambda>(left, right).
                 FixedTreeNodeHash L x left right))"

definition node_index_check :: "lib \<Rightarrow> nat \<Rightarrow> 'a fnode_scheme option \<Rightarrow> unit res" where
  "node_index_check L i n =
     bind_res (isvalid_Check False [map_option (FixedTreeNode_IsValid L) n]) (\<lambda>_.
     bind_res (deref n) (\<lambda>x.
       fail_if (sint (fn_index x) \<noteq> int i)
         (NError_Wrap InvalidError (Errorf InvalidNodeError ''wrong index; %d != %d''))))"

definition node_hash_check :: "lib \<Rightarrow> 'a fixedtree \<Rightarrow> 'a fnode_scheme option \<Rightarrow> unit res" where
  "node_hash_check L tr n =
     bind_res (FixedTree_generateNodeHash L tr n) (\<lambda>h.
     bind_res (deref n) (\<lambda>x.
       fail_if (fn_hash x \<noteq> h) (NError_Wrap InvalidError (Errorf InvalidNodeError ''invalid node hash''))))"

definition FixedTree_IsValid :: "lib \<Rightarrow> 'a fixedtree \<Rightarrow> unit res" where
  "FixedTree_IsValid L tr =
     bind_res (Hint_IsValid L (tr_ht tr)) (\<lambda>_.
       if FixedTree_Len tr < 1 then Ok ()
       else bind_res (seq (map (\<lambda>i. node_index_check L i (tr_nodes tr ! i)) [0..<FixedTree_Len tr])) (\<lambda>_.
              seq (map (node_hash_check L tr) (tr_nodes tr))))"

fun FixedTree_Traverse :: "('s \<Rightarrow> 'a fnode_scheme option \<Rightarrow> bool res \<times> 's) \<Rightarrow> 'a nodes \<Rightarrow> 's \<Rightarrow> unit res \<times> 's" where
  "FixedTree_Traverse f [] s = (Ok (), s)"
| "FixedTree_Traverse f (n # ns) s =
     (case f s n of (Err e, s') \<Rightarrow> (Err e, s') | (Panic, s') \<Rightarrow> (Panic, s')
      | (Ok keep, s') \<Rightarrow> (if keep then FixedTree_Traverse f ns s' else (Ok (), s')))"

subsection \<open>Membership proofs\<close>

text \<open>
  The loop of \<open>Proof\<close> that collects the ancestors into the \<open>height + 1\<close> slots of \<open>parents\<close>; \<open>k\<close> counts the slots left, an
  ancestor more than slots is an index out of range, slots left over stay nil.
\<close>

fun proof_parents :: "lib \<Rightarrow> 'a fixedtree \<Rightarrow> nat \<Rightarrow> u64 \<Rightarrow> 'a nodes res" where
  "proof_parents L tr k l =
     (case FixedTree_parent L tr l of
        Err e \<Rightarrow> (if error_Is e NoParentError then Ok (replicate k None) else Err e)
      | Panic \<Rightarrow> Panic
      | Ok j \<Rightarrow>
          (case k of 0 \<Rightarrow> Panic
           | Suc k' \<Rightarrow> bind_res (deref j) (\<lambda>x. bind_res (proof_parents L tr k' (fn_index x)) (\<lambda>ps. Ok (j # ps)))))"

fun proof_pairs :: "lib \<Rightarrow> 'a fixedtree \<Rightarrow> 'a nodes \<Rightarrow> 'a nodes res" where
  "proof_pairs L tr [] = Ok []"
| "proof_pairs L tr (n # ps) =
     bind_res (deref n) (\<lambda>x.
     bind_res (or_no_children (FixedTree_children L tr (fn_index x))) (\<lambda>(a, b).
     bind_res (proof_pairs L tr ps) (\<lambda>rest. Ok (a # b # rest))))"

definition FixedTree_Proof :: "lib \<Rightarrow> 'a fixedtree \<Rightarrow> u64 \<Rightarrow> 'a nodes res" where
  "FixedTree_Proof L tr index =
     bind_res (FixedTree_Node tr index) (\<lambda>self.
       if FixedTree_Len tr < 1 then Ok []
       else
         bind_res (FixedTree_height L tr index) (\<lambda>height.
         bind_res (proof_parents L tr (unat height) index) (\<lambda>ps.
         bind_res (proof_pairs L tr (self # ps)) (\<lambda>pr. Ok (pr @ [tr_nodes tr ! 0])))))"

definition proof_levels :: "'a nodes \<Rightarrow> nat" where
  "proof_levels pr = (length pr - 1) div 2"

definition parentNodeInProof :: "lib \<Rightarrow> nat \<Rightarrow> 'a nodes \<Rightarrow> u64 \<Rightarrow> 'a fnode_scheme res" where
  "parentNodeInProof L i pr index =
     (let maxSize = 2 ^ (proof_levels pr + 1) - 1 in
      bind_res (parentFixedTree L maxSize index) (\<lambda>j.
      bind_res (if i + 1 < proof_levels pr
                then bind_res (deref (pr ! (i * 2 + 2))) (\<lambda>pa.
                       if j = fn_index pa then Ok pa else deref (pr ! (i * 2 + 3)))
                else deref (pr ! (length pr - 1))) (\<lambda>p.
        if length (fn_key p) < 1 then Err (plain ''parent node not found'') else Ok p)))"

definition proof_level_check :: "lib \<Rightarrow> 'a nodes \<Rightarrow> nat \<Rightarrow> unit res" where
  "proof_level_check L pr i =
     bind_res (deref (pr ! (i * 2))) (\<lambda>a.
     bind_res (map_err (\<lambda>e. FmtErr ''nodes, %d and %d'' (Some e)) (parentNodeInProof L i pr (fn_index a))) (\<lambda>p.
     bind_res (FixedTreeNodeHash L p (Some a) (pr ! (i * 2 + 1))) (\<lambda>h.
       fail_if (fn_hash p \<noteq> h) (Errorf HashNotMatchError ''node, %d has wrong hash''))))"

definition proveFixedTreeProof :: "lib \<Rightarrow> 'a nodes \<Rightarrow> unit res" where
  "proveFixedTreeProof L pr =
     (if length pr < 1 then Err (plain ''nothing to prove'')
      else if length pr mod 2 \<noteq> 1 then Err (plain ''invalid proof; len=%d'')
      else
        bind_res (deref (last pr)) (\<lambda>root.
          if fn_index root \<noteq> 0 then Err (plain ''root node not found'')
          else
            bind_res (seq (map (\<lambda>n. bind_res (deref n) (\<lambda>x.
                map_err (\<lambda>_. Errorf InvalidNodeError ''node, %d'') (FixedTreeNode_IsValid L x))) pr)) (\<lambda>_.
              seq (map (proof_level_check L pr) [0..<proof_levels pr]))))"

definition ProveFixedTreeProof :: "lib \<Rightarrow> 'a nodes \<Rightarrow> unit res" where
  "ProveFixedTreeProof L pr = map_err (NError_Wrap InvalidProofError) (proveFixedTreeProof L pr)"

subsection \<open>The generator\<close>

record 'a fixedtree_generator =
  tg_tree :: "'a fixedtree"
  tg_size :: u64

definition NewFixedTreeGenerator :: "u64 \<Rightarrow> 'a fixedtree_generator" where
  "NewFixedTreeGenerator sz = \<lparr>tg_tree = NewFixedTree (replicate (unat sz) None), tg_size = sz\<rparr>"

definition FixedTreeGenerator_Add ::
  "'a fixedtree_generator \<Rightarrow> 'a fnode_scheme \<Rightarrow> unit res \<times> 'a fixedtree_generator" where
  "FixedTreeGenerator_Add tg n =
     (if length (fn_key n) < 1 then (Err EmptyKeyError, tg)
      else if fn_index n \<ge> tg_size tg then (Err (plain ''out of range; %d >= %d''), tg)
      else (Ok (), tg\<lparr>tg_tree := (tg_tree tg)\<lparr>tr_nodes :=
              (tr_nodes (tg_tree tg))[unat (fn_index n) := Some (FixedTreeNode_SetHash [] n)]\<rparr>\<rparr>))"

text \<open>The loop of \<open>Tree\<close> from the last node to the first; \<open>k\<close> nodes are still to be hashed.\<close>

fun Tree_loop :: "lib \<Rightarrow> nat \<Rightarrow> 'a fixedtree \<Rightarrow> unit res \<times> 'a fixedtree" where
  "Tree_loop L 0 tr = (Ok (), tr)"
| "Tree_loop L (Suc k) tr =
     (case FixedTree_generateNodeHash L tr (tr_nodes tr ! k) of
        Err e \<Rightarrow> (Err e, tr)
      | Panic \<Rightarrow> (Panic, tr)
      | Ok h \<Rightarrow>
          (case tr_nodes tr ! k of
             None \<Rightarrow> (Panic, tr)
           | Some n \<Rightarrow>
               if unat (fn_index n) < length (tr_nodes tr)
               then Tree_loop L k (tr\<lparr>tr_nodes := (tr_nodes tr)[unat (fn_index n) := Some (FixedTreeNode_SetHash h n)]\<rparr>)
               else (Panic, tr)))"

definition FixedTreeGenerator_Tree ::
  "lib \<Rightarrow> 'a fixedtree_generator \<Rightarrow> 'a fixedtree res \<times> 'a fixedtree_generator" where
  "FixedTreeGenerator_Tree L tg =
     (let ns = tr_nodes (tg_tree tg) in
      if tg_size tg < 1 then (Ok (NewFixedTree ns), tg)
      else if None \<in> set ns then (Err (Errorf EmptyNodeInTreeError ''node, %d''), tg)
      else if length (opt_hash (ns ! 0)) < 1 then
        (case Tree_loop L (length ns) (tg_tree tg) of
           (Ok _, tr) \<Rightarrow> (Ok (NewFixedTree (tr_nodes tr)), tg\<lparr>tg_tree := tr\<rparr>)
         | (Err e, tr) \<Rightarrow> (Err e, tg\<lparr>tg_tree := tr\<rparr>)
         | (Panic, tr) \<Rightarrow> (Panic, tg\<lparr>tg_tree := tr\<rparr>))
      else (Ok (NewFixedTree ns), tg))"

section \<open>Positions are those of a binary heap\<close>

declare proof_parents.simps [simp del]

lemma of_nat_u64_less: "a < 2 ^ 64 \<Longrightarrow> b < 2 ^ 64 \<Longrightarrow> (of_nat a :: u64) < of_nat b \<longleftrightarrow> a < b"
  by (simp add: word_less_nat_alt unat_of_nat)

lemma of_nat_u64_eq: "a < 2 ^ 64 \<Longrightarrow> b < 2 ^ 64 \<Longrightarrow> (of_nat a :: u64) = of_nat b \<longleftrightarrow> a = b"
  by (simp add: word_unat_eq_iff unat_of_nat)

lemma of_nat_u64_div2: "a < 2 ^ 64 \<Longrightarrow> (of_nat a :: u64) div 2 = of_nat (a div 2)"
  by (simp add: word_unat_eq_iff unat_div unat_of_nat)

lemma of_nat_u64_mod2: "a < 2 ^ 64 \<Longrightarrow> (of_nat a :: u64) mod 2 = of_nat (a mod 2)"
  by (simp add: word_unat_eq_iff unat_mod unat_of_nat)

lemma of_nat_u64_odd: "a < 2 ^ 64 \<Longrightarrow> (of_nat a :: u64) mod 2 = 1 \<longleftrightarrow> odd a"
  by (cases "odd a") (simp_all add: of_nat_u64_mod2 odd_iff_mod_2_eq_one even_iff_mod_2_eq_zero)

lemma pow2_minus_1_of_nat: "k \<le> 53 \<Longrightarrow> pow2_minus_1 (of_nat k) = of_nat (2 ^ k - 1)"
  by (simp add: pow2_minus_1_def word_le_nat_alt unat_of_nat of_nat_diff)

lemma unat_of_nat_small: "n < 2 ^ 64 \<Longrightarrow> unat (of_nat n :: u64) = n"
  by (simp add: unat_of_nat)

lemma heightFixedTree_pos:
  assumes "log2_exact L" and "n < sz" and "sz < 2 ^ 40"
  shows "heightFixedTree L sz (of_nat n) = Ok (of_nat (flog2 (n + 1)))"
proof -
  from assms have n: "n + 1 \<le> 2 ^ 40" by simp
  then have "unat (of_nat n :: u64) = n" by (simp add: unat_of_nat)
  then have "sint (of_nat n :: u64) = int n" using n by (simp add: sint_unat_small)
  moreover have s: "(of_nat n + 1 :: u64) = of_nat (n + 1)" by simp
  have "unat (of_nat (n + 1) :: u64) = n + 1" using n by (intro unat_of_nat_small) simp
  with n have "unat (math_Log2 L (of_nat (n + 1))) = flog2 (n + 1)"
    using assms(1) [unfolded log2_exact_def, rule_format, of "of_nat (n + 1)"] by (simp only:) simp
  then have "math_Log2 L (of_nat (n + 1)) = of_nat (flog2 (n + 1))" by (metis of_nat_unat ucast_id)
  moreover have "(of_nat n :: u64) = 0 \<longleftrightarrow> n = 0" using of_nat_u64_eq [of n 0] n by simp
  ultimately show ?thesis using assms(2) unfolding heightFixedTree_def s by (auto simp: flog2.simps)
qed

lemma flog2_le: "n + 1 \<le> 2 ^ 40 \<Longrightarrow> flog2 (n + 1) \<le> 40"
proof -
  assume n: "n + 1 \<le> 2 ^ 40"
  have "(2 :: nat) ^ flog2 (n + 1) \<le> n + 1" using flog2_bounds [of "n + 1"] by simp
  with n have "(2 :: nat) ^ flog2 (n + 1) \<le> 2 ^ 40" by linarith
  then show ?thesis by (simp only: power_increasing_iff)
qed

lemma childrenFixedTree_pos:
  assumes "log2_exact L" and "n < sz" and "sz < 2 ^ 40"
  shows "childrenFixedTree L sz (of_nat n) =
    (if 2 * n + 1 < sz then Ok (of_nat (2 * n + 1), if 2 * n + 2 < sz then of_nat (2 * n + 2) else 0)
     else Err NoChildrenError)"
proof -
  let ?h = "flog2 (n + 1)"
  from assms have n: "n + 1 \<le> 2 ^ 40" by simp
  have b: "2 ^ ?h \<le> n + 1" using flog2_bounds [of "n + 1"] by simp
  have h: "?h \<le> 40" using n by (rule flog2_le)
  have p: "pow2_minus_1 (of_nat ?h) = of_nat (2 ^ ?h - 1)" "pow2_minus_1 (of_nat ?h + 1) = of_nat (2 ^ (?h + 1) - 1)"
    using pow2_minus_1_of_nat [of ?h] pow2_minus_1_of_nat [of "?h + 1"] h by (simp_all add: add.commute)
  have "2 ^ (?h + 1) - 1 + (n - (2 ^ ?h - 1)) * 2 = 2 * n + 1" using b by simp
  then have i: "(of_nat (2 ^ (?h + 1) - 1) :: u64) + (of_nat n - of_nat (2 ^ ?h - 1)) * 2 = of_nat (2 * n + 1)"
    using b by (metis (no_types, lifting) of_nat_add of_nat_diff of_nat_mult of_nat_numeral le_diff_conv)
  have c: "(of_nat (2 * n + 1) :: u64) \<ge> of_nat sz \<longleftrightarrow> \<not> 2 * n + 1 < sz"
    "(of_nat (2 * n + 1) + 1 :: u64) < of_nat sz \<longleftrightarrow> 2 * n + 2 < sz"
    using of_nat_u64_less [of "2 * n + 1" sz] of_nat_u64_less [of "2 * n + 2" sz] assms(3) n
    by (simp_all add: not_less [symmetric] add.commute)
  show ?thesis
    unfolding childrenFixedTree_def heightFixedTree_pos [OF assms] bind_res.simps Let_def p i c by simp
qed

lemma parentFixedTree_pos:
  assumes "log2_exact L" and "n < sz" and "sz < 2 ^ 40"
  shows "parentFixedTree L sz (of_nat n) = (if n = 0 then Err NoParentError else Ok (of_nat ((n - 1) div 2)))"
proof (cases "n = 0")
  case True
  then show ?thesis using heightFixedTree_pos [OF assms] by (simp add: parentFixedTree_def flog2.simps)
next
  case False
  let ?h = "flog2 (n + 1)" and ?p = "n - (2 ^ flog2 (n + 1) - 1)"
  from assms have n: "n + 1 \<le> 2 ^ 40" by simp
  have b: "2 ^ ?h \<le> n + 1" "n + 1 < 2 ^ Suc ?h" using flog2_bounds [of "n + 1"] by simp_all
  have h: "?h \<le> 40" using n by (rule flog2_le)
  have h1: "1 \<le> ?h" using False by (subst flog2.simps) simp
  then obtain k where k: "?h = Suc k" using Suc_le_D by auto
  have z: "(of_nat ?h :: u64) \<noteq> 0" using of_nat_u64_eq [of ?h 0] h h1 by simp
  have d: "(of_nat ?h - 1 :: u64) = of_nat k" unfolding k by simp
  have p: "pow2_minus_1 (of_nat ?h) = of_nat (2 ^ ?h - 1)" "pow2_minus_1 (of_nat ?h - 1) = of_nat (2 ^ k - 1)"
    unfolding d using pow2_minus_1_of_nat [of ?h] pow2_minus_1_of_nat [of k] h k by simp_all
  have pos: "(of_nat n :: u64) - of_nat (2 ^ ?h - 1) = of_nat ?p" using b(1) by (simp add: of_nat_diff)
  have pl: "?p < 2 ^ 64" by (rule le_less_trans [OF diff_le_self]) (use n in simp)
  note m = of_nat_u64_odd [OF pl]
  have v: "(if (of_nat ?p :: u64) mod 2 = 1 then of_nat ?p - 1 else of_nat ?p) div 2 = (of_nat (?p div 2) :: u64)"
  proof (cases "odd ?p")
    case True
    then obtain q where q: "?p = 2 * q + 1" by (rule oddE)
    then have "(of_nat ?p - 1 :: u64) = of_nat (2 * q)" by simp
    then show ?thesis using True m of_nat_u64_div2 [of "2 * q"] pl q by simp
  qed (use m of_nat_u64_div2 [OF pl] in simp)
  have "2 ^ k - 1 + ?p div 2 = (n - 1) div 2" using b(1) k by auto
  then have "(of_nat (2 ^ k - 1) + of_nat (?p div 2) :: u64) = of_nat ((n - 1) div 2)" by (metis of_nat_add)
  then show ?thesis
    unfolding parentFixedTree_def heightFixedTree_pos [OF assms] bind_res.simps Let_def p pos v using z False by simp
qed

section \<open>What validity means\<close>

definition slot :: "'a nodes \<Rightarrow> nat \<Rightarrow> 'a fnode_scheme option" where
  "slot ns i = (if i < length ns then ns ! i else None)"

text \<open>The digest of the node at position \<open>j\<close>, over its children's hashes; and a position that holds a correctly hashed node.\<close>

definition node_digest :: "lib \<Rightarrow> 'a nodes \<Rightarrow> nat \<Rightarrow> 'a fnode_scheme \<Rightarrow> bytes" where
  "node_digest L ns j x =
     hashNode L (Uint64ToBytes (of_nat j) @ fn_key x @ opt_hash (slot ns (2 * j + 1)) @ opt_hash (slot ns (2 * j + 2)))"

definition placed :: "'a nodes \<Rightarrow> nat \<Rightarrow> bool" where
  "placed ns j \<longleftrightarrow> (\<exists>x. ns ! j = Some x \<and> fn_index x = of_nat j \<and> fn_key x \<noteq> [])"

definition hashed :: "lib \<Rightarrow> 'a nodes \<Rightarrow> nat \<Rightarrow> bool" where
  "hashed L ns j \<longleftrightarrow> (\<exists>x. ns ! j = Some x \<and> fn_hash x = node_digest L ns j x)"

lemma FixedTree_children_pos:
  assumes "log2_exact L" and "length (tr_nodes tr) < 2 ^ 40" and "n < length (tr_nodes tr)"
  shows "or_no_children (FixedTree_children L tr (of_nat n)) =
    Ok (slot (tr_nodes tr) (2 * n + 1), slot (tr_nodes tr) (2 * n + 2))"
proof -
  have z: "(of_nat (2 * n + 2) :: u64) = 0 \<longleftrightarrow> 2 * n + 2 = 0"
    by (rule of_nat_u64_eq [of _ 0, simplified]) (use assms in simp)
  have u: "unat (of_nat (2 * n + 1) :: u64) = 2 * n + 1" "unat (of_nat (2 * n + 2) :: u64) = 2 * n + 2"
    by (rule unat_of_nat_small, use assms in simp)+
  show ?thesis
    unfolding FixedTree_children_def FixedTree_Len_def childrenFixedTree_pos [OF assms(1,3,2)]
    using z u by (auto simp: or_no_children_def node_at_def slot_def tree_errors simp del: of_nat_add of_nat_mult of_nat_Suc)
qed

lemma generateNodeHash_pos:
  assumes "log2_exact L" and "length (tr_nodes tr) < 2 ^ 40" and "n < length (tr_nodes tr)"
    and "fn_index x = of_nat n" and "fn_key x \<noteq> []"
  shows "FixedTree_generateNodeHash L tr (Some x) = Ok (node_digest L (tr_nodes tr) n x)"
  using assms(4,5) FixedTree_children_pos [OF assms(1-3)]
  by (simp add: FixedTree_generateNodeHash_def FixedTreeNodeHash_def node_digest_def Suc_le_eq)

lemma sint_index_iff:
  fixes w :: u64
  assumes "n < 2 ^ 63"
  shows "sint w = int n \<longleftrightarrow> w = of_nat n"
proof
  assume "sint w = int n"
  then have "(of_int (sint w) :: u64) = of_int (int n)" by simp
  then show "w = of_nat n" by (simp add: of_int_sint)
next
  assume "w = of_nat n"
  moreover have "unat (of_nat n :: u64) = n" by (rule unat_of_nat_small) (use assms in simp)
  ultimately show "sint w = int n" using assms by (simp add: sint_unat_small)
qed

definition node_valid :: "lib \<Rightarrow> 'a nodes \<Rightarrow> nat \<Rightarrow> bool" where
  "node_valid L ns j \<longleftrightarrow> (\<exists>x. ns ! j = Some x \<and> Hint_IsValid L (fn_ht x) = Ok () \<and> fn_hash x \<noteq> [])"

lemma node_index_check_Ok:
  assumes "j < 2 ^ 40"
  shows "node_index_check L j n = Ok () \<longleftrightarrow>
    (\<exists>x. n = Some x \<and> fn_index x = of_nat j \<and> fn_key x \<noteq> [] \<and> fn_hash x \<noteq> [] \<and> Hint_IsValid L (fn_ht x) = Ok ())"
  using sint_index_iff [of j "fn_index (the n)"] assms
  by (cases n) (auto simp: node_index_check_def deref_def bind_res_Ok_iff FixedTreeNode_IsValid_def)

lemma FixedTree_IsValid_iff:
  assumes "log2_exact L" and "length (tr_nodes tr) < 2 ^ 40"
  shows "FixedTree_IsValid L tr = Ok () \<longleftrightarrow> Hint_IsValid L (tr_ht tr) = Ok () \<and>
    (\<forall>j < length (tr_nodes tr). placed (tr_nodes tr) j \<and> node_valid L (tr_nodes tr) j \<and> hashed L (tr_nodes tr) j)"
proof -
  let ?ns = "tr_nodes tr"
  have i: "seq (map (\<lambda>i. node_index_check L i (?ns ! i)) [0..<length ?ns]) = Ok () \<longleftrightarrow>
      (\<forall>j < length ?ns. placed ?ns j \<and> node_valid L ?ns j)"
    using assms(2) by (auto simp: seq_Ok_iff node_index_check_Ok placed_def node_valid_def)
  have h: "seq (map (node_hash_check L tr) ?ns) = Ok () \<longleftrightarrow> (\<forall>j < length ?ns. hashed L ?ns j)"
    if p: "\<forall>j < length ?ns. placed ?ns j"
  proof -
    have "node_hash_check L tr (?ns ! j) = Ok () \<longleftrightarrow> hashed L ?ns j" if "j < length ?ns" for j
      using p [rule_format, OF that] generateNodeHash_pos [OF assms that]
      by (auto simp: placed_def hashed_def node_hash_check_def deref_def)
    then show ?thesis by (simp add: seq_Ok_iff all_set_conv_all_nth)
  qed
  show ?thesis
    unfolding FixedTree_IsValid_def FixedTree_Len_def using i h by (auto simp: bind_res_Ok_iff)
qed

lemma FixedTree_IsValid_index:
  "FixedTree_IsValid L tr = Ok () \<Longrightarrow> j < length (tr_nodes tr) \<Longrightarrow> node_index_check L j (tr_nodes tr ! j) = Ok ()"
  by (auto simp: FixedTree_IsValid_def FixedTree_Len_def bind_res_Ok_iff seq_Ok_iff split: if_splits)

section \<open>The generator builds valid trees\<close>

lemma placed_update:
  "length ns < 2 ^ 40 \<Longrightarrow> k < length ns \<Longrightarrow> j < length ns \<Longrightarrow> fn_index x = of_nat k \<Longrightarrow> fn_key x \<noteq> [] \<Longrightarrow>
   placed ns j \<Longrightarrow> placed (ns[k := Some x]) j"
  by (auto simp: placed_def nth_list_update)

lemma hashed_update:
  assumes "k < j" and "hashed L ns j" shows "hashed L (ns[k := y]) j"
  using assms by (auto simp: hashed_def node_digest_def slot_def nth_list_update)

lemma digest_SetHash [simp]:
  "k < j \<Longrightarrow> node_digest L (ns[k := y]) j x = node_digest L ns j x"
  "node_digest L (ns[j := y]) j x = node_digest L ns j x"
  "node_digest L ns j (x\<lparr>fn_hash := h\<rparr>) = node_digest L ns j x"
  by (auto simp: node_digest_def slot_def nth_list_update)

lemma Tree_loop_correct:
  assumes "log2_exact L" and "length (tr_nodes tr) < 2 ^ 40" and "k \<le> length (tr_nodes tr)"
    and "\<forall>j < length (tr_nodes tr). placed (tr_nodes tr) j" and "\<forall>j < length (tr_nodes tr). k \<le> j \<longrightarrow> hashed L (tr_nodes tr) j"
  shows "\<exists>tr'. Tree_loop L k tr = (Ok (), tr') \<and> tr_ht tr' = tr_ht tr \<and>
    map (map_option (fn_hash_update (\<lambda>_. []))) (tr_nodes tr') = map (map_option (fn_hash_update (\<lambda>_. []))) (tr_nodes tr) \<and>
    (\<forall>j < length (tr_nodes tr). placed (tr_nodes tr') j \<and> hashed L (tr_nodes tr') j)"
  using assms(2-5)
proof (induction k arbitrary: tr)
  case (Suc k)
  let ?ns = "tr_nodes tr"
  from Suc.prems have k: "k < length ?ns" by simp
  then obtain x where x: "?ns ! k = Some x" "fn_index x = of_nat k" "fn_key x \<noteq> []"
    using Suc.prems(3) by (auto simp: placed_def)
  have u: "unat (of_nat k :: u64) = k" by (rule unat_of_nat_small) (use Suc.prems k in simp)
  let ?h = "node_digest L ?ns k x"
  let ?tr = "tr\<lparr>tr_nodes := ?ns[k := Some (x\<lparr>fn_hash := ?h\<rparr>)]\<rparr>"
  have step: "Tree_loop L (Suc k) tr = Tree_loop L k ?tr"
    using generateNodeHash_pos [OF assms(1) Suc.prems(1) k x(2,3)] x u k by (simp add: FixedTreeNode_SetHash_def)
  have "\<forall>j < length ?ns. placed (tr_nodes ?tr) j"
    using placed_update [OF Suc.prems(1) k, of _ "x\<lparr>fn_hash := ?h\<rparr>"] x Suc.prems(3) by simp
  moreover have "\<forall>j < length ?ns. k \<le> j \<longrightarrow> hashed L (tr_nodes ?tr) j"
  proof (intro allI impI)
    fix j assume j: "j < length ?ns" "k \<le> j"
    show "hashed L (tr_nodes ?tr) j"
    proof (cases "k = j")
      case True
      then show ?thesis using k by (auto simp: hashed_def)
    next
      case False
      with j Suc.prems(4) hashed_update [of k j L ?ns] show ?thesis by simp
    qed
  qed
  moreover have "map (map_option (fn_hash_update (\<lambda>_. []))) (tr_nodes ?tr) = map (map_option (fn_hash_update (\<lambda>_. []))) ?ns"
    using x k by (auto intro!: nth_equalityI simp: nth_list_update)
  ultimately show ?case
    using Suc.IH [of ?tr] Suc.prems(1) k step by simp
qed auto

text \<open>What \<open>Add\<close> maintains: every filled slot holds an added node at its index, without a hash.\<close>

definition gen_inv :: "lib \<Rightarrow> nat \<Rightarrow> 'a fixedtree_generator \<Rightarrow> bool" where
  "gen_inv L n tg \<longleftrightarrow> tg_size tg = of_nat n \<and> length (tr_nodes (tg_tree tg)) = n \<and> tr_ht (tg_tree tg) = FixedTreeHint \<and>
     (\<forall>j < n. \<forall>x. tr_nodes (tg_tree tg) ! j = Some x \<longrightarrow>
        fn_index x = of_nat j \<and> fn_key x \<noteq> [] \<and> fn_hash x = [] \<and> Hint_IsValid L (fn_ht x) = Ok ())"

definition Add_all :: "'a fixedtree_generator \<Rightarrow> 'a fnode_scheme list \<Rightarrow> 'a fixedtree_generator" where
  "Add_all tg xs = foldl (\<lambda>tg x. snd (FixedTreeGenerator_Add tg x)) tg xs"

lemma gen_inv_new: "n < 2 ^ 40 \<Longrightarrow> gen_inv L n (NewFixedTreeGenerator (of_nat n))"
  by (simp add: gen_inv_def NewFixedTreeGenerator_def NewFixedTree_def NewFixedTreeWithHint_def unat_of_nat)

lemma gen_inv_Add:
  assumes "gen_inv L n tg" and "n < 2 ^ 40" and "Hint_IsValid L (fn_ht x) = Ok ()"
  shows "gen_inv L n (snd (FixedTreeGenerator_Add tg x))"
    and "fn_key x \<noteq> [] \<Longrightarrow> unat (fn_index x) < n \<Longrightarrow>
      tr_nodes (tg_tree (snd (FixedTreeGenerator_Add tg x))) =
        (tr_nodes (tg_tree tg))[unat (fn_index x) := Some (x\<lparr>fn_hash := []\<rparr>)]"
proof -
  have u: "unat (of_nat n :: u64) = n" using assms(2) by (simp add: unat_of_nat)
  have b: "fn_index x \<ge> tg_size tg \<longleftrightarrow> \<not> unat (fn_index x) < n"
    using assms(1) u by (auto simp: gen_inv_def word_le_nat_alt)
  show "gen_inv L n (snd (FixedTreeGenerator_Add tg x))"
    using assms b by (auto simp: FixedTreeGenerator_Add_def gen_inv_def FixedTreeNode_SetHash_def nth_list_update Suc_le_eq)
  show "fn_key x \<noteq> [] \<Longrightarrow> unat (fn_index x) < n \<Longrightarrow>
      tr_nodes (tg_tree (snd (FixedTreeGenerator_Add tg x))) =
        (tr_nodes (tg_tree tg))[unat (fn_index x) := Some (x\<lparr>fn_hash := []\<rparr>)]"
    using b by (auto simp: FixedTreeGenerator_Add_def FixedTreeNode_SetHash_def Suc_le_eq)
qed

lemma Add_all_inv:
  assumes "n < 2 ^ 40" and "\<forall>x \<in> set xs. Hint_IsValid L (fn_ht x) = Ok () \<and> fn_key x \<noteq> [] \<and> unat (fn_index x) < n"
    and "gen_inv L n tg"
  shows "gen_inv L n (Add_all tg xs)"
    and "\<forall>j < n. tr_nodes (tg_tree (Add_all tg xs)) ! j =
      (case find (\<lambda>x. unat (fn_index x) = j) (rev xs) of
         None \<Rightarrow> tr_nodes (tg_tree tg) ! j | Some x \<Rightarrow> Some (x\<lparr>fn_hash := []\<rparr>))"
  using assms(2)
proof (induction xs rule: rev_induct)
  case (snoc x xs)
  {
    case 1
    with snoc(1) show ?case by (auto simp: Add_all_def intro: gen_inv_Add(1) [OF _ assms(1)])
  next
    case 2
    from 2 snoc have i: "gen_inv L n (Add_all tg xs)" by simp
    have "tr_nodes (tg_tree (Add_all tg (xs @ [x]))) = (tr_nodes (tg_tree (Add_all tg xs)))[unat (fn_index x) := Some (x\<lparr>fn_hash := []\<rparr>)]"
      using gen_inv_Add(2) [OF i assms(1)] 2 by (simp add: Add_all_def)
    moreover from i have "length (tr_nodes (tg_tree (Add_all tg xs))) = n" by (simp add: gen_inv_def)
    ultimately show ?case using snoc(2) 2 by (auto simp: nth_list_update)
  }
qed (auto simp: Add_all_def assms(3))

lemma tree_type_valid: "Type_IsValid ''fixedtree'' = Ok ()"
  by code_simp

lemma FixedTreeHint_valid: "semver_IsValid L ''v0.0.1'' \<Longrightarrow> Hint_IsValid L FixedTreeHint = Ok ()"
  by (simp add: FixedTreeHint_def std_hint_valid tree_type_valid)

definition cleared :: "'a nodes \<Rightarrow> 'a nodes" where
  "cleared ns = map (map_option (fn_hash_update (\<lambda>_. []))) ns"

lemma cleared_nth:
  assumes "cleared ns = cleared ms" and "j < length ms" and "ms ! j = Some y"
  shows "\<exists>x. ns ! j = Some x \<and> fn_key x = fn_key y \<and> fn_ht x = fn_ht y"
proof -
  from assms(1) have "length ns = length ms" unfolding cleared_def by (rule map_eq_imp_length_eq)
  with arg_cong [OF assms(1), of "\<lambda>zs. zs ! j"] assms(2,3)
  obtain x where x: "ns ! j = Some x" "x\<lparr>fn_hash := []\<rparr> = y\<lparr>fn_hash := []\<rparr>" by (auto simp: cleared_def)
  from arg_cong [OF x(2), of fn_key] arg_cong [OF x(2), of fn_ht] x(1) show ?thesis by simp
qed

text \<open>A generator whose slots are all filled hashes its nodes and nothing else.\<close>

lemma Tree_complete:
  assumes "log2_exact L" and "sha256_shape L" and "semver_IsValid L ''v0.0.1''" and "0 < n" and "n < 2 ^ 40"
    and "gen_inv L n tg" and "None \<notin> set (tr_nodes (tg_tree tg))"
  shows "\<exists>tr tg'. FixedTreeGenerator_Tree L tg = (Ok tr, tg') \<and> tr_nodes tr = tr_nodes (tg_tree tg') \<and>
    FixedTree_IsValid L tr = Ok () \<and> FixedTree_Len tr = n \<and> cleared (tr_nodes tr) = tr_nodes (tg_tree tg)"
proof -
  let ?ns = "tr_nodes (tg_tree tg)"
  have g: "tg_size tg = of_nat n" "length ?ns = n" "tr_ht (tg_tree tg) = FixedTreeHint"
    using assms(6) by (simp_all add: gen_inv_def)
  have at: "\<exists>y. ?ns ! j = Some y \<and> fn_hash y = [] \<and> Hint_IsValid L (fn_ht y) = Ok ()" if "j < n" for j
  proof -
    have "?ns ! j \<noteq> None" using assms(7) that g(2) nth_mem [of j ?ns] by metis
    then show ?thesis using assms(6) that by (auto simp: gen_inv_def)
  qed
  have pl: "\<forall>j < length ?ns. placed ?ns j" using assms(6) at g(2) by (fastforce simp: gen_inv_def placed_def)
  have h0: "length (opt_hash (?ns ! 0)) < 1" using at [OF assms(4)] by (auto simp: opt_hash_def)
  have sz: "\<not> tg_size tg < 1" using g(1) assms(4,5) by (simp add: word_less_nat_alt unat_of_nat)
  have ln: "length ?ns < 2 ^ 40" using g(2) assms(5) by simp
  obtain tr where tr: "Tree_loop L (length ?ns) (tg_tree tg) = (Ok (), tr)" "tr_ht tr = FixedTreeHint"
    "cleared (tr_nodes tr) = cleared ?ns" "\<forall>j < length ?ns. placed (tr_nodes tr) j \<and> hashed L (tr_nodes tr) j"
    using Tree_loop_correct [OF assms(1) ln le_refl pl] g(3) by (auto simp: cleared_def)
  from tr(3) have l: "length (tr_nodes tr) = n" using g(2) unfolding cleared_def by (metis map_eq_imp_length_eq)
  have nv: "node_valid L (tr_nodes tr) j" if "j < n" for j
  proof -
    from at [OF that] cleared_nth [OF tr(3), of j] that g(2)
    obtain x where x: "tr_nodes tr ! j = Some x" "Hint_IsValid L (fn_ht x) = Ok ()" by fastforce
    moreover from tr(4) that g(2) x(1) have "fn_hash x = node_digest L (tr_nodes tr) j x" by (auto simp: hashed_def)
    then have "length (fn_hash x) = 32" using assms(2) by (simp add: node_digest_def hashNode_def sha256_shape_def)
    ultimately show ?thesis by (auto simp: node_valid_def)
  qed
  have v: "FixedTree_IsValid L (NewFixedTree (tr_nodes tr)) = Ok ()"
    using FixedTree_IsValid_iff [OF assms(1), of "NewFixedTree (tr_nodes tr)"] assms(5) l tr(4) nv g(2) FixedTreeHint_valid [OF assms(3)]
    by (simp add: NewFixedTree_def NewFixedTreeWithHint_def)
  have "cleared ?ns = ?ns"
  proof (rule nth_equalityI)
    fix j assume "j < length (cleared ?ns)"
    then show "cleared ?ns ! j = ?ns ! j" using at [of j] g(2) by (auto simp: cleared_def)
  qed (simp add: cleared_def)
  moreover have "FixedTreeGenerator_Tree L tg = (Ok (NewFixedTree (tr_nodes tr)), tg\<lparr>tg_tree := tr\<rparr>)"
    unfolding FixedTreeGenerator_Tree_def Let_def using sz assms(7) h0 tr(1) by simp
  ultimately show ?thesis using v l tr(3)
    by (auto simp: NewFixedTree_def NewFixedTreeWithHint_def FixedTree_Len_def)
qed

lemma Tree_generated:
  assumes "log2_exact L" and "sha256_shape L" and "semver_IsValid L ''v0.0.1''" and "0 < n" and "n < 2 ^ 40"
    and "\<forall>x \<in> set xs. Hint_IsValid L (fn_ht x) = Ok () \<and> fn_key x \<noteq> [] \<and> unat (fn_index x) < n"
    and "\<forall>j < n. \<exists>x \<in> set xs. unat (fn_index x) = j"
  shows "\<exists>tr tg. FixedTreeGenerator_Tree L (Add_all (NewFixedTreeGenerator (of_nat n)) xs) = (Ok tr, tg) \<and>
    tr_nodes tr = tr_nodes (tg_tree tg) \<and> FixedTree_IsValid L tr = Ok () \<and> FixedTree_Len tr = n \<and>
    (\<forall>j < n. \<exists>x. tr_nodes tr ! j = Some x \<and>
      Some (fn_key x) = map_option fn_key (find (\<lambda>x. unat (fn_index x) = j) (rev xs)))"
proof -
  let ?tg = "Add_all (NewFixedTreeGenerator (of_nat n)) xs"
  let ?ns = "tr_nodes (tg_tree ?tg)"
  note inv = Add_all_inv [OF assms(5,6) gen_inv_new [OF assms(5)]]
  have g: "length ?ns = n" using inv(1) by (simp add: gen_inv_def)
  have at: "\<exists>y. ?ns ! j = Some (y\<lparr>fn_hash := []\<rparr>) \<and> find (\<lambda>x. unat (fn_index x) = j) (rev xs) = Some y" if "j < n" for j
    using assms(7) that inv(2) by (cases "find (\<lambda>x. unat (fn_index x) = j) (rev xs)") (auto simp: find_None_iff)
  have "None \<notin> set ?ns" using at g by (fastforce simp: in_set_conv_nth)
  from Tree_complete [OF assms(1-5) inv(1) this] obtain tr tg where tr: "FixedTreeGenerator_Tree L ?tg = (Ok tr, tg)"
    "tr_nodes tr = tr_nodes (tg_tree tg)" "FixedTree_IsValid L tr = Ok ()" "FixedTree_Len tr = n" "cleared (tr_nodes tr) = ?ns" by blast
  have c: "cleared (tr_nodes tr) = cleared ?ns" unfolding tr(5) [symmetric] by (simp add: cleared_def comp_def option.map_comp)
  have "\<exists>x. tr_nodes tr ! j = Some x \<and> Some (fn_key x) = map_option fn_key (find (\<lambda>x. unat (fn_index x) = j) (rev xs))" if "j < n" for j
    using at [OF that] cleared_nth [OF c, of j] that g by fastforce
  with tr show ?thesis by blast
qed

section \<open>Membership proofs of a valid tree\<close>

fun ancestors :: "nat \<Rightarrow> nat list" where
  "ancestors n = (if n = 0 then [] else (n - 1) div 2 # ancestors ((n - 1) div 2))"

declare ancestors.simps [simp del]

lemma length_ancestors: "length (ancestors n) = flog2 (n + 1)"
proof (induction n rule: ancestors.induct)
  case (1 n)
  show ?case
  proof (cases "n = 0")
    case False
    then have "(n + 1) div 2 = (n - 1) div 2 + 1" by auto
    then have "flog2 (n + 1) = Suc (flog2 ((n - 1) div 2 + 1))" using False by (subst flog2.simps) simp
    then show ?thesis using 1 [OF False] False by (subst ancestors.simps) simp
  qed (simp add: ancestors.simps flog2.simps)
qed

lemma ancestors_le: "p \<in> set (ancestors n) \<Longrightarrow> p < n"
proof (induction n rule: ancestors.induct)
  case (1 n)
  then show ?case by (subst (asm) ancestors.simps) (fastforce split: if_splits)
qed

text \<open>The path from \<open>n\<close> to the root: each entry is the parent of the one before, the last is the root.\<close>

definition path :: "nat \<Rightarrow> nat list" where
  "path n = n # ancestors n"

lemma path_Cons: "n \<noteq> 0 \<Longrightarrow> path n = n # path ((n - 1) div 2)"
  unfolding path_def by (subst ancestors.simps) simp

lemma path_not_Nil [simp]: "path n \<noteq> []"
  by (simp add: path_def)

lemma path_0: "path 0 = [0]"
  unfolding path_def by (subst ancestors.simps) simp

lemma last_path: "last (path n) = 0"
proof (induction n rule: ancestors.induct)
  case (1 n)
  show ?case
  proof (cases "n = 0")
    case False
    then show ?thesis using 1 [OF False] by (simp add: path_Cons)
  qed (simp add: path_0)
qed

lemma path_step: "Suc i < length (path n) \<Longrightarrow> path n ! i \<noteq> 0 \<and> path n ! Suc i = (path n ! i - 1) div 2"
proof (induction n arbitrary: i rule: ancestors.induct)
  case (1 n)
  have n: "n \<noteq> 0" using 1(2) path_0 by (metis length_Cons less_Suc0 list.size(3) nat.simps(3))
  note p = path_Cons [OF n]
  show ?case
  proof (cases i)
    case 0
    have "path ((n - 1) div 2) ! 0 = (n - 1) div 2" by (simp add: path_def)
    then show ?thesis using 0 n by (simp add: p)
  next
    case (Suc j)
    then show ?thesis using 1(1) [OF n, of j] 1(2) unfolding p by simp
  qed
qed

lemma path_last: "path n ! (length (path n) - 1) = 0"
  using last_path by (simp add: last_conv_nth)

lemma path_le: "p \<in> set (path n) \<Longrightarrow> p \<le> n"
  using ancestors_le by (fastforce simp: path_def)

lemma FixedTree_Node_pos:
  "length (tr_nodes tr) < 2 ^ 40 \<Longrightarrow> n < length (tr_nodes tr) \<Longrightarrow> FixedTree_Node tr (of_nat n) = Ok (tr_nodes tr ! n)"
  using sint_index_iff [of n "of_nat n"] unat_of_nat_small [of n]
  by (simp add: FixedTree_Node_def FixedTree_Len_def node_at_def)

lemma proof_parents_pos:
  assumes "log2_exact L" and "length (tr_nodes tr) < 2 ^ 40" and "\<forall>j < length (tr_nodes tr). placed (tr_nodes tr) j"
  shows "n < length (tr_nodes tr) \<Longrightarrow>
    proof_parents L tr (length (ancestors n)) (of_nat n) = Ok (map (nth (tr_nodes tr)) (ancestors n))"
proof (induction n rule: ancestors.induct)
  case (1 n)
  note P = parentFixedTree_pos [OF assms(1) 1(2) assms(2)]
  show ?case
  proof (cases "n = 0")
    case True
    then show ?thesis using P
      by (simp add: proof_parents.simps FixedTree_parent_def FixedTree_Len_def ancestors.simps tree_errors)
  next
    case False
    let ?q = "(n - 1) div 2"
    from False 1(2) have q: "?q < length (tr_nodes tr)" by linarith
    obtain x where x: "tr_nodes tr ! ?q = Some x" "fn_index x = of_nat ?q" using assms(3) q by (auto simp: placed_def)
    have "FixedTree_parent L tr (of_nat n) = Ok (tr_nodes tr ! ?q)"
      using P False FixedTree_Node_pos [OF assms(2) q] by (simp add: FixedTree_parent_def FixedTree_Len_def)
    moreover have "ancestors n = ?q # ancestors ?q" using False by (subst ancestors.simps) simp
    ultimately show ?thesis using 1(1) [OF False q] x by (subst proof_parents.simps) (simp add: deref_def)
  qed
qed

definition proof_of :: "'a nodes \<Rightarrow> nat list \<Rightarrow> 'a nodes" where
  "proof_of ns ps = concat (map (\<lambda>p. [slot ns (2 * p + 1), slot ns (2 * p + 2)]) ps) @ [ns ! 0]"

lemma proof_pairs_pos:
  assumes "log2_exact L" and "length (tr_nodes tr) < 2 ^ 40" and "\<forall>j < length (tr_nodes tr). placed (tr_nodes tr) j"
  shows "\<forall>p \<in> set ps. p < length (tr_nodes tr) \<Longrightarrow>
    proof_pairs L tr (map (nth (tr_nodes tr)) ps) =
      Ok (concat (map (\<lambda>p. [slot (tr_nodes tr) (2 * p + 1), slot (tr_nodes tr) (2 * p + 2)]) ps))"
proof (induction ps)
  case (Cons p ps)
  then obtain x where "tr_nodes tr ! p = Some x" "fn_index x = of_nat p" using assms(3) by (auto simp: placed_def)
  then show ?case using Cons FixedTree_children_pos [OF assms(1,2), of p] by (simp add: deref_def)
qed simp

lemma FixedTree_Proof_pos:
  assumes "log2_exact L" and "length (tr_nodes tr) < 2 ^ 40" and "\<forall>j < length (tr_nodes tr). placed (tr_nodes tr) j"
    and "n < length (tr_nodes tr)"
  shows "FixedTree_Proof L tr (of_nat n) = Ok (proof_of (tr_nodes tr) (path n))"
proof -
  have "unat (of_nat (flog2 (n + 1)) :: u64) = length (ancestors n)"
    using flog2_le [of n] assms(2,4) by (simp add: length_ancestors unat_of_nat)
  moreover have "\<forall>p \<in> set (path n). p < length (tr_nodes tr)" using path_le assms(4) by fastforce
  ultimately show ?thesis
    using FixedTree_Node_pos [OF assms(2,4)] heightFixedTree_pos [OF assms(1,4,2)] proof_parents_pos [OF assms(1-4)]
      proof_pairs_pos [OF assms(1-3), of "path n"] assms(4)
    by (auto simp: FixedTree_Proof_def FixedTree_height_def FixedTree_Len_def proof_of_def path_def
        simp del: proof_pairs.simps)
qed

text \<open>The entries of a proof, and the check of one level of it.\<close>

lemma length_proof_of: "length (proof_of ns ps) = 2 * length ps + 1" "proof_levels (proof_of ns ps) = length ps"
proof -
  have "length (concat (map (\<lambda>p. [slot ns (2 * p + 1), slot ns (2 * p + 2)]) ps)) = 2 * length ps"
    by (induction ps) auto
  then show "length (proof_of ns ps) = 2 * length ps + 1" by (simp add: proof_of_def)
  then show "proof_levels (proof_of ns ps) = length ps" by (simp add: proof_levels_def)
qed

lemma nth_proof_of:
  assumes "i < length ps"
  shows "proof_of ns ps ! (i * 2) = slot ns (2 * (ps ! i) + 1)" "proof_of ns ps ! (i * 2 + 1) = slot ns (2 * (ps ! i) + 2)"
proof -
  have "concat (map (\<lambda>p. [slot ns (2 * p + 1), slot ns (2 * p + 2)]) ps) ! (i * 2) = slot ns (2 * (ps ! i) + 1) \<and>
      concat (map (\<lambda>p. [slot ns (2 * p + 1), slot ns (2 * p + 2)]) ps) ! (i * 2 + 1) = slot ns (2 * (ps ! i) + 2) \<and>
      i * 2 + 1 < length (concat (map (\<lambda>p. [slot ns (2 * p + 1), slot ns (2 * p + 2)]) ps))"
    using assms
  proof (induction ps arbitrary: i)
    case (Cons p ps)
    then show ?case by (cases i) auto
  qed simp
  then show "proof_of ns ps ! (i * 2) = slot ns (2 * (ps ! i) + 1)" "proof_of ns ps ! (i * 2 + 1) = slot ns (2 * (ps ! i) + 2)"
    by (auto simp: proof_of_def nth_append)
qed

lemma last_proof_of [simp]: "last (proof_of ns ps) = ns ! 0"
  by (simp add: proof_of_def)

lemma set_proof_of: "set (proof_of ns ps) = insert (ns ! 0) (\<Union>p \<in> set ps. {slot ns (2 * p + 1), slot ns (2 * p + 2)})"
  by (auto simp: proof_of_def)

text \<open>Every path position whose node has two children is found as the parent at its level of the proof.\<close>

lemma parentNodeInProof_pos:
  assumes "log2_exact L" and "length ns < 2 ^ 38" and "\<forall>j < length ns. placed ns j" and "2 * n + 2 < length ns"
    and "i < length (path n)" and "path n ! i = p" and "ns ! p = Some x"
  shows "parentNodeInProof L i (proof_of ns (path n)) (of_nat (2 * p + 1)) = Ok x"
proof -
  let ?m = "length (path n)" and ?pr = "proof_of ns (path n)"
  have pn: "p \<le> n" using path_le [of p n] nth_mem [OF assms(5)] assms(6) by simp
  have m: "?m = Suc (flog2 (n + 1))" by (simp add: path_def length_ancestors)
  have "n + 1 < 2 ^ ?m" using flog2_bounds [of "n + 1"] m by simp
  then have s: "2 * p + 1 < 2 ^ (?m + 1) - 1" using pn by simp
  have "(2 :: nat) ^ flog2 (n + 1) \<le> n + 1" using flog2_bounds [of "n + 1"] by simp
  then have "(2 :: nat) ^ (?m + 1) \<le> 4 * (n + 1)" using m by simp
  then have b: "(2 :: nat) ^ (?m + 1) - 1 < 2 ^ 40" using assms(2,4) by simp
  have par: "parentFixedTree L (2 ^ (?m + 1) - 1) (of_nat (2 * p + 1)) = Ok (of_nat p)"
    using parentFixedTree_pos [OF assms(1) s b] by simp
  have "placed ns p" using assms(3,4) pn by auto
  then have x: "fn_index x = of_nat p" "fn_key x \<noteq> []" using assms(7) by (auto simp: placed_def)
  show ?thesis
  proof (cases "Suc i < ?m")
    case True
    let ?q = "path n ! Suc i"
    have q: "p \<noteq> 0" "?q = (p - 1) div 2" using path_step [OF True] assms(6) by auto
    then have pq: "p = 2 * ?q + 1 \<or> p = 2 * ?q + 2" by presburger
    have qn: "2 * ?q + 1 < length ns" using q pn assms(4) by linarith
    then obtain a where a: "ns ! (2 * ?q + 1) = Some a" "fn_index a = of_nat (2 * ?q + 1)" using assms(3) by (auto simp: placed_def)
    have e: "(of_nat p :: u64) = of_nat (2 * ?q + 1) \<longleftrightarrow> p = 2 * ?q + 1"
      by (rule of_nat_u64_eq) (use assms(2,4) pn qn in simp)+
    have pl: "?pr ! (i * 2 + 2) = Some a" "?pr ! (i * 2 + 3) = slot ns (2 * ?q + 2)"
      using nth_proof_of [OF True, of ns] a(1) qn by (simp_all add: slot_def numeral_3_eq_3)
    have "bind_res (deref (?pr ! (i * 2 + 2))) (\<lambda>pa. if of_nat p = fn_index pa then Ok pa else deref (?pr ! (i * 2 + 3))) = Ok x"
      using pq e a assms(4,7) pn unfolding pl by (auto simp: deref_def slot_def)
    then show ?thesis using True x(2) unfolding parentNodeInProof_def Let_def length_proof_of par
      by (simp add: Suc_le_eq)
  next
    case False
    with assms(5,6) have "p = 0" using path_last [of n] by (metis Suc_lessI diff_Suc_1)
    moreover have "?pr ! (length ?pr - 1) = ns ! 0" by (simp add: proof_of_def nth_append)
    ultimately have "deref (?pr ! (length ?pr - 1)) = Ok x" using assms(7) by (simp add: deref_def)
    then show ?thesis using False x(2) unfolding parentNodeInProof_def Let_def length_proof_of par
      by (simp add: Suc_le_eq)
  qed
qed

lemma proof_level_check_pos:
  assumes "log2_exact L" and "length ns < 2 ^ 38" and "\<forall>j < length ns. placed ns j \<and> hashed L ns j" and "2 * n + 2 < length ns"
    and "i < length (path n)"
  shows "proof_level_check L (proof_of ns (path n)) i = Ok ()"
proof -
  let ?p = "path n ! i"
  have pn: "?p \<le> n" using path_le nth_mem [OF assms(5)] by blast
  then have l: "?p < length ns" "2 * ?p + 1 < length ns" "2 * ?p + 2 < length ns" using assms(4) by linarith+
  obtain x where x: "ns ! ?p = Some x" "fn_index x = of_nat ?p" "fn_key x \<noteq> []" "fn_hash x = node_digest L ns ?p x"
    using assms(3) l(1) by (auto simp: placed_def hashed_def)
  obtain a where a: "ns ! (2 * ?p + 1) = Some a" "fn_index a = of_nat (2 * ?p + 1)" using assms(3) l(2) by (auto simp: placed_def)
  have "parentNodeInProof L i (proof_of ns (path n)) (fn_index a) = Ok x"
    unfolding a(2) by (rule parentNodeInProof_pos [OF assms(1,2) _ assms(4,5) refl x(1)]) (use assms(3) in blast)
  moreover have "FixedTreeNodeHash L x (Some a) (slot ns (2 * ?p + 2)) = Ok (fn_hash x)"
    using x a l by (simp add: FixedTreeNodeHash_def node_digest_def slot_def Suc_le_eq)
  ultimately show ?thesis
    unfolding proof_level_check_def nth_proof_of [OF assms(5)] using a l by (simp add: slot_def deref_def)
qed

lemma node_valid_IsValid:
  assumes "placed ns j" and "node_valid L ns j" shows "\<exists>x. ns ! j = Some x \<and> FixedTreeNode_IsValid L x = Ok ()"
proof -
  from assms obtain x where "ns ! j = Some x" "fn_key x \<noteq> []" "fn_hash x \<noteq> []" "Hint_IsValid L (fn_ht x) = Ok ()"
    by (auto simp: placed_def node_valid_def)
  then show ?thesis by (auto simp: FixedTreeNode_IsValid_def fail_if_def Suc_le_eq)
qed

lemma prove_valid:
  assumes "log2_exact L" and "length ns < 2 ^ 38" and "\<forall>j < length ns. placed ns j \<and> node_valid L ns j \<and> hashed L ns j"
    and "2 * n + 2 < length ns"
  shows "proveFixedTreeProof L (proof_of ns (path n)) = Ok ()"
proof -
  have ok: "\<exists>x. ns ! j = Some x \<and> FixedTreeNode_IsValid L x = Ok ()" if "j < length ns" for j
    using assms(3) that node_valid_IsValid by blast
  have "\<exists>x. v = Some x \<and> FixedTreeNode_IsValid L x = Ok ()" if "v \<in> set (proof_of ns (path n))" for v
  proof -
    from that assms(4) path_le [of _ n] have "\<exists>j < length ns. v = ns ! j"
      by (auto simp: set_proof_of slot_def) fastforce+
    with ok show ?thesis by blast
  qed
  then have v: "seq (map (\<lambda>n. bind_res (deref n) (\<lambda>x.
      map_err (\<lambda>_. Errorf InvalidNodeError ''node, %d'') (FixedTreeNode_IsValid L x))) (proof_of ns (path n))) = Ok ()"
    by (fastforce simp: seq_Ok_iff deref_def)
  have c: "seq (map (proof_level_check L (proof_of ns (path n))) [0..<proof_levels (proof_of ns (path n))]) = Ok ()"
    using proof_level_check_pos [OF assms(1,2) _ assms(4)] assms(3) by (auto simp: seq_Ok_iff length_proof_of)
  obtain r where "ns ! 0 = Some r" "fn_index r = 0" using assms(3,4) by (fastforce simp: placed_def)
  with v c show ?thesis by (simp add: proveFixedTreeProof_def length_proof_of deref_def)
qed

lemma prove_missing_child:
  assumes "\<forall>j < length ns. placed ns j \<and> node_valid L ns j" and "n < length ns" and "length ns \<le> 2 * n + 2"
  shows "proveFixedTreeProof L (proof_of ns (path n)) = Panic"
proof -
  obtain rest where pr: "proof_of ns (path n) = slot ns (2 * n + 1) # slot ns (2 * n + 2) # rest"
    by (simp add: proof_of_def path_def)
  have b: "slot ns (2 * n + 2) = None" using assms(3) by (simp add: slot_def)
  have a: "slot ns (2 * n + 1) = None \<or> (\<exists>x. slot ns (2 * n + 1) = Some x \<and> FixedTreeNode_IsValid L x = Ok ())"
    using assms(1) node_valid_IsValid by (auto simp: slot_def)
  have "0 < length ns" using assms(2) by linarith
  then obtain r where "ns ! 0 = Some r" "fn_index r = 0" using assms(1) by (fastforce simp: placed_def)
  then have "deref (last (proof_of ns (path n))) = Ok r" "fn_index r = 0" by (simp_all add: deref_def)
  moreover have "length (proof_of ns (path n)) mod 2 = 1" by (simp add: length_proof_of)
  ultimately show ?thesis using a b
    by (auto simp: proveFixedTreeProof_def pr deref_def)
qed

section \<open>Properties\<close>

text \<open>
  C25: a generator of size \<open>n\<close> that received, in any order and possibly more than once, nodes with a key for every index below
  \<open>n\<close> builds a tree of \<open>n\<close> nodes that passes \<open>IsValid\<close>, holding at each index the key added last.
\<close>

theorem fixedtree_generated_valid:
  assumes "log2_exact L" and "sha256_shape L" and "semver_IsValid L ''v0.0.1''" and "0 < n" and "n < 2 ^ 40"
    and "\<forall>x \<in> set xs. Hint_IsValid L (fn_ht x) = Ok () \<and> fn_key x \<noteq> [] \<and> unat (fn_index x) < n"
    and "\<forall>j < n. \<exists>x \<in> set xs. unat (fn_index x) = j"
  shows "\<exists>tr. fst (FixedTreeGenerator_Tree L (Add_all (NewFixedTreeGenerator (of_nat n)) xs)) = Ok tr \<and>
    FixedTree_IsValid L tr = Ok () \<and> FixedTree_Len tr = n \<and>
    (\<forall>j < n. \<exists>x. tr_nodes tr ! j = Some x \<and>
      Some (fn_key x) = map_option fn_key (find (\<lambda>x. unat (fn_index x) = j) (rev xs)))"
  using Tree_generated [OF assms] by fastforce


definition sample_nodes :: "fnode list" where
  "sample_nodes = map (\<lambda>i. NewBaseFixedTreeNode FixedTreeHint (of_nat i) [of_nat i + 5, 7]) [0..<3]"

lemma sample_nodes_ok:
  "\<forall>x \<in> set sample_nodes. Hint_IsValid sample_lib (fn_ht x) = Ok () \<and> fn_key x \<noteq> [] \<and> unat (fn_index x) < 3"
  "\<forall>j < 3. \<exists>x \<in> set sample_nodes. unat (fn_index x) = j"
  by code_simp+

lemma sample_version: "semver_IsValid sample_lib ''v0.0.1''"
  by code_simp

theorem fixedtree_generated_valid_witness:
  "\<exists>tr. fst (FixedTreeGenerator_Tree sample_lib (Add_all (NewFixedTreeGenerator (of_nat 3)) sample_nodes)) = Ok tr \<and>
     FixedTree_IsValid sample_lib tr = Ok () \<and> FixedTree_Len tr = 3"
  using fixedtree_generated_valid [OF sample_log2_exact sample_sha256_shape sample_version, of 3 sample_nodes] sample_nodes_ok
  by auto

definition sample_tree :: "unit fixedtree" where
  "sample_tree = ok_val (fst (FixedTreeGenerator_Tree sample_lib (Add_all (NewFixedTreeGenerator 3) sample_nodes)))"

lemma sample_tree_ok: "FixedTree_IsValid sample_lib sample_tree = Ok ()" "length (tr_nodes sample_tree) = 3"
  by code_simp+


subsection \<open>What a checked proof shows\<close>

definition tree_bytes :: "'a nodes \<Rightarrow> bytes set" where
  "tree_bytes ns = {Uint64ToBytes (of_nat j) @ fn_key x @ opt_hash (slot ns (2 * j + 1)) @ opt_hash (slot ns (2 * j + 2)) |
     j x. j < length ns \<and> ns ! j = Some x}"

definition level_bytes :: "'a fnode_scheme \<Rightarrow> 'a fnode_scheme \<Rightarrow> 'a fnode_scheme \<Rightarrow> bytes" where
  "level_bytes p a b = Uint64ToBytes (fn_index p) @ fn_key p @ fn_hash a @ fn_hash b"

text \<open>Level \<open>i\<close> of a proof: the pair of nodes, and their parent as the check finds it.\<close>

definition proof_level :: "lib \<Rightarrow> 'a nodes \<Rightarrow> nat \<Rightarrow> 'a fnode_scheme \<Rightarrow> 'a fnode_scheme \<Rightarrow> 'a fnode_scheme \<Rightarrow> bool" where
  "proof_level L pr i p a b \<longleftrightarrow> i < proof_levels pr \<and> pr ! (i * 2) = Some a \<and> pr ! (i * 2 + 1) = Some b \<and>
     parentNodeInProof L i pr (fn_index a) = Ok p"

definition proof_bytes :: "lib \<Rightarrow> 'a nodes \<Rightarrow> bytes set" where
  "proof_bytes L pr = {level_bytes p a b | i p a b. proof_level L pr i p a b}"

lemma prove_levels:
  assumes "ProveFixedTreeProof L pr = Ok ()" and "i < proof_levels pr"
  shows "\<exists>p a b. proof_level L pr i p a b \<and> fn_hash p = sha256_Sum256 L (level_bytes p a b)"
proof -
  from assms(1) have ne: "\<not> length pr < 1" "length pr mod 2 = 1"
    and v: "\<forall>n \<in> set pr. \<exists>x. n = Some x" and c: "proof_level_check L pr i = Ok ()"
    using assms(2) by (auto simp: ProveFixedTreeProof_def proveFixedTreeProof_def bind_res_Ok_iff seq_Ok_iff deref_def
        split: if_splits option.splits)
  from assms(2) ne have "i * 2 < length pr" "i * 2 + 1 < length pr" unfolding proof_levels_def by presburger+
  with v obtain a b where ab: "pr ! (i * 2) = Some a" "pr ! (i * 2 + 1) = Some b" by (meson nth_mem)
  with c obtain p where "parentNodeInProof L i pr (fn_index a) = Ok p" "FixedTreeNodeHash L p (Some a) (Some b) = Ok (fn_hash p)"
    by (auto simp: proof_level_check_def deref_def bind_res_Ok_iff)
  with ab assms(2) show ?thesis
    by (auto simp: proof_level_def FixedTreeNodeHash_def hashNode_def level_bytes_def opt_hash_def split: if_splits)
qed

lemma proof_level_parent:
  assumes "proof_level L pr i p a b"
  shows "Suc i < proof_levels pr \<Longrightarrow> pr ! (Suc i * 2) = Some p \<or> pr ! (Suc i * 2 + 1) = Some p"
    and "\<not> Suc i < proof_levels pr \<Longrightarrow> pr ! (length pr - 1) = Some p"
  using assms
  by (auto simp: proof_level_def parentNodeInProof_def bind_res_Ok_iff deref_def numeral_3_eq_3
      split: if_splits option.splits)

lemma tree_hash_length:
  assumes "sha256_shape L" and "\<forall>j < length ns. placed ns j \<and> hashed L ns j"
  shows "length (opt_hash (slot ns j)) = (if j < length ns then 32 else 0)"
proof -
  have "length (opt_hash (ns ! j)) = 32" if "j < length ns"
    using assms that by (auto simp: hashed_def opt_hash_def node_digest_def hashNode_def sha256_shape_def)
  then show ?thesis by (simp add: slot_def opt_hash_def)
qed

lemma level_matches_tree:
  assumes "sha256_shape L" and "\<forall>j < length ns. placed ns j \<and> hashed L ns j"
    and "fn_hash p = sha256_Sum256 L (level_bytes p a b)" and "length (fn_key p) = kl" and "length (fn_hash a) = 32" "length (fn_hash b) = 32"
    and "j < length ns" and "ns ! j = Some y" and "length (fn_key y) = kl" and "fn_hash p = fn_hash y"
    and "inj_on (sha256_Sum256 L) (tree_bytes ns \<union> S)" and "level_bytes p a b \<in> S"
  shows "FixedTreeNode_Equal p y" and "2 * j + 2 < length ns" and "opt_hash (slot ns (2 * j + 1)) = fn_hash a"
    and "opt_hash (slot ns (2 * j + 2)) = fn_hash b"
proof -
  let ?l = "opt_hash (slot ns (2 * j + 1))" and ?r = "opt_hash (slot ns (2 * j + 2))"
  let ?t = "Uint64ToBytes (of_nat j) @ fn_key y @ ?l @ ?r"
  have y: "fn_index y = of_nat j" "fn_hash y = sha256_Sum256 L ?t"
    using assms(2,7,8) by (auto simp: placed_def hashed_def node_digest_def hashNode_def)
  have "?t \<in> tree_bytes ns" using assms(7,8) by (auto simp: tree_bytes_def)
  with assms(3,10,11,12) y(2) have "level_bytes p a b = ?t" by (auto dest: inj_onD)
  then have e: "Uint64ToBytes (fn_index p) = Uint64ToBytes (of_nat j)" "fn_key p = fn_key y" "fn_hash a @ fn_hash b = ?l @ ?r"
    using assms(4,9) by (auto simp: level_bytes_def append_eq_append_conv)
  then have "length (?l @ ?r) = 64" using assms(5,6) by (metis length_append numeral_Bit0)
  with tree_hash_length [OF assms(1,2), of "2 * j + 1"] tree_hash_length [OF assms(1,2), of "2 * j + 2"]
  have l: "2 * j + 2 < length ns" "length ?l = 32" by (auto split: if_splits)
  then show "2 * j + 2 < length ns" by simp
  show "FixedTreeNode_Equal p y" using e(1,2) y(1) assms(10) by (simp add: FixedTreeNode_Equal_def)
  show "?l = fn_hash a" "?r = fn_hash b" using e(3) l(2) assms(5) by (auto simp: append_eq_append_conv)
qed

text \<open>A proof that was checked against a valid tree: same root hash, no digest shared by two of the byte strings hashed.\<close>

definition proof_for :: "lib \<Rightarrow> nat \<Rightarrow> 'a nodes \<Rightarrow> 'a nodes \<Rightarrow> bool" where
  "proof_for L kl ns pr \<longleftrightarrow> ProveFixedTreeProof L pr = Ok () \<and> opt_hash (last pr) = opt_hash (ns ! 0) \<and>
     (\<forall>x. Some x \<in> set ns \<union> set pr \<longrightarrow> length (fn_key x) = kl) \<and> (\<forall>x. Some x \<in> set pr \<longrightarrow> length (fn_hash x) = 32) \<and>
     inj_on (sha256_Sum256 L) (tree_bytes ns \<union> proof_bytes L pr)"

text \<open>Level \<open>i\<close> of the proof is a node of the tree with its two children.\<close>

definition level_in_tree :: "lib \<Rightarrow> 'a nodes \<Rightarrow> 'a nodes \<Rightarrow> nat \<Rightarrow> bool" where
  "level_in_tree L ns pr i \<longleftrightarrow> (\<exists>p a b j y. proof_level L pr i p a b \<and> j < length ns \<and> ns ! j = Some y \<and> FixedTreeNode_Equal p y \<and>
      2 * j + 2 < length ns \<and> opt_hash (slot ns (2 * j + 1)) = fn_hash a \<and> opt_hash (slot ns (2 * j + 2)) = fn_hash b)"

lemma proof_level_mem:
  assumes "proof_level L pr i p a b" shows "Some a \<in> set pr" "Some b \<in> set pr" "Some p \<in> set pr"
proof -
  have im: "i * 2 + 1 < length pr" using assms by (auto simp: proof_level_def proof_levels_def)
  show "Some a \<in> set pr" "Some b \<in> set pr"
    using assms im nth_mem [of "i * 2" pr] nth_mem [of "i * 2 + 1" pr] by (simp_all add: proof_level_def)
  show "Some p \<in> set pr"
  proof (cases "Suc i < proof_levels pr")
    case True
    then have "Suc i * 2 + 1 < length pr" by (auto simp: proof_levels_def)
    then show ?thesis using proof_level_parent(1) [OF assms True] by (metis Suc_eq_plus1 Suc_lessD nth_mem)
  next
    case False
    then show ?thesis using proof_level_parent(2) [OF assms False] im
      by (metis diff_less less_nat_zero_code nth_mem neq0_conv zero_less_one)
  qed
qed

lemma level_in_treeI:
  assumes "sha256_shape L" and "\<forall>j < length ns. placed ns j \<and> hashed L ns j" and "proof_for L kl ns pr"
    and "proof_level L pr i p a b" and "fn_hash p = sha256_Sum256 L (level_bytes p a b)"
    and "j < length ns" and "ns ! j = Some y" and "fn_hash p = fn_hash y"
  shows "level_in_tree L ns pr i"
proof -
  have "level_bytes p a b \<in> proof_bytes L pr" using assms(4) by (auto simp: proof_bytes_def)
  moreover have "Some y \<in> set ns" using assms(6,7) nth_mem by metis
  moreover have "inj_on (sha256_Sum256 L) (tree_bytes ns \<union> proof_bytes L pr)" "length (fn_hash a) = 32" "length (fn_hash b) = 32"
    "length (fn_key p) = kl" using assms(3) proof_level_mem [OF assms(4)] by (auto simp: proof_for_def)
  moreover have "length (fn_key y) = kl" using assms(3) \<open>Some y \<in> set ns\<close> by (auto simp: proof_for_def)
  ultimately have "FixedTreeNode_Equal p y \<and> 2 * j + 2 < length ns \<and> opt_hash (slot ns (2 * j + 1)) = fn_hash a \<and>
      opt_hash (slot ns (2 * j + 2)) = fn_hash b"
    using level_matches_tree [OF assms(1,2,5) _ _ _ assms(6,7) _ assms(8)] by simp
  then show ?thesis using assms(4,6,7) unfolding level_in_tree_def by blast
qed

lemma proof_path_in_tree:
  assumes "sha256_shape L" and "\<forall>j < length ns. placed ns j \<and> hashed L ns j" and "ns \<noteq> []" and "proof_for L kl ns pr"
  shows "d < proof_levels pr \<Longrightarrow> i = proof_levels pr - Suc d \<Longrightarrow> level_in_tree L ns pr i"
proof (induction d arbitrary: i)
  let ?m = "proof_levels pr"
  have pv: "ProveFixedTreeProof L pr = Ok ()" using assms(4) by (simp add: proof_for_def)
  {
    case 0
    then have i: "i < ?m" "\<not> Suc i < ?m" by auto
    from prove_levels [OF pv i(1)] obtain p a b where p: "proof_level L pr i p a b" "fn_hash p = sha256_Sum256 L (level_bytes p a b)"
      by blast
    have "pr \<noteq> []" using proof_level_mem [OF p(1)] by auto
    with proof_level_parent(2) [OF p(1) i(2)] have "last pr = Some p" by (simp add: last_conv_nth)
    moreover obtain y where y: "ns ! 0 = Some y" using assms(2,3) by (auto simp: placed_def)
    ultimately have "fn_hash p = fn_hash y" using assms(4) by (simp add: proof_for_def opt_hash_def)
    then show ?case using level_in_treeI [OF assms(1,2,4) p _ y] assms(3) by simp
  next
    case (Suc d)
    then have i: "i < ?m" "Suc i < ?m" "Suc i = ?m - Suc d" by auto
    from Suc.IH [OF _ i(3)] Suc.prems obtain p' a' b' j where IH: "proof_level L pr (Suc i) p' a' b'" "2 * j + 2 < length ns"
      "opt_hash (slot ns (2 * j + 1)) = fn_hash a'" "opt_hash (slot ns (2 * j + 2)) = fn_hash b'" by (auto simp: level_in_tree_def)
    from prove_levels [OF pv i(1)] obtain p a b where p: "proof_level L pr i p a b" "fn_hash p = sha256_Sum256 L (level_bytes p a b)"
      by blast
    from proof_level_parent(1) [OF p(1) i(2)] IH(1) have "p = a' \<or> p = b'" by (auto simp: proof_level_def)
    with IH(2-4) obtain c where c: "c < length ns" "opt_hash (ns ! c) = fn_hash p"
      by (metis slot_def Suc_lessD add_2_eq_Suc' Suc_eq_plus1)
    then obtain z where "ns ! c = Some z" "fn_hash p = fn_hash z" using assms(2) by (auto simp: placed_def opt_hash_def)
    with level_in_treeI [OF assms(1,2,4) p c(1)] show ?case by blast
  }
qed


lemma sample_proof:
  "FixedTree_Proof sample_lib sample_tree (of_nat 0) =
     Ok [tr_nodes sample_tree ! 1, tr_nodes sample_tree ! 2, tr_nodes sample_tree ! 0]"
  by code_simp

definition sample_bytes :: "nat \<Rightarrow> bytes" where
  "sample_bytes j = Uint64ToBytes (of_nat j) @ fn_key (the (tr_nodes sample_tree ! j)) @
     opt_hash (slot (tr_nodes sample_tree) (2 * j + 1)) @ opt_hash (slot (tr_nodes sample_tree) (2 * j + 2))"

lemma sample_bytes_inj: "inj_on (sha256_Sum256 sample_lib) (sample_bytes ` {0, 1, 2})"
proof -
  have "distinct (map (\<lambda>j. sha256_Sum256 sample_lib (sample_bytes j)) [0, 1, 2])" by code_simp
  then show ?thesis by (auto simp: inj_on_def)
qed

lemma list_all_Some: "list_all (\<lambda>n. case n of None \<Rightarrow> True | Some x \<Rightarrow> P x) xs \<Longrightarrow> Some x \<in> set xs \<Longrightarrow> P x"
  by (auto simp: list_all_iff dest!: bspec)

lemma sample_proof_for:
  "proof_for sample_lib 2 (tr_nodes sample_tree) [tr_nodes sample_tree ! 1, tr_nodes sample_tree ! 2, tr_nodes sample_tree ! 0]"
proof -
  let ?ns = "tr_nodes sample_tree" and ?pr = "[tr_nodes sample_tree ! 1, tr_nodes sample_tree ! 2, tr_nodes sample_tree ! 0]"
  have ok: "ProveFixedTreeProof sample_lib ?pr = Ok ()" by code_simp
  have k: "list_all (\<lambda>n. case n of None \<Rightarrow> True | Some x \<Rightarrow> length (fn_key x) = 2) (?ns @ ?pr)"
    "list_all (\<lambda>n. case n of None \<Rightarrow> True | Some x \<Rightarrow> length (fn_hash x) = 32) ?pr" by code_simp+
  obtain x where x: "?ns ! 0 = Some x" "fn_index x = 0"
    using FixedTree_IsValid_iff [OF sample_log2_exact, of sample_tree] sample_tree_ok by (fastforce simp: placed_def)
  have "tree_bytes ?ns \<subseteq> sample_bytes ` {0, 1, 2}"
  proof
    fix b assume "b \<in> tree_bytes ?ns"
    then obtain j where "j < 3" "b = sample_bytes j" using sample_tree_ok(2) by (auto simp: tree_bytes_def sample_bytes_def)
    moreover from this(1) have "j \<in> {0, 1, 2}" by auto
    ultimately show "b \<in> sample_bytes ` {0, 1, 2}" by blast
  qed
  moreover have "proof_bytes sample_lib ?pr \<subseteq> sample_bytes ` {0}"
  proof
    fix b assume "b \<in> proof_bytes sample_lib ?pr"
    then obtain i p a c where l: "proof_level sample_lib ?pr i p a c" "b = level_bytes p a c" by (auto simp: proof_bytes_def)
    then have "i = 0" "?ns ! 1 = Some a" "?ns ! 2 = Some c" by (auto simp: proof_level_def proof_levels_def)
    moreover from this l(1) proof_level_parent(2) [OF l(1)] x(1) have "p = x" by (simp add: proof_levels_def)
    ultimately have "b = sample_bytes 0" using l(2) x sample_tree_ok(2)
      by (simp add: level_bytes_def sample_bytes_def slot_def opt_hash_def numeral_2_eq_2)
    then show "b \<in> sample_bytes ` {0}" by simp
  qed
  ultimately have "inj_on (sha256_Sum256 sample_lib) (tree_bytes ?ns \<union> proof_bytes sample_lib ?pr)"
    by (rule inj_on_subset [OF sample_bytes_inj, OF Un_least [OF _ subset_trans]]) auto
  moreover have "\<forall>x. Some x \<in> set ?ns \<union> set ?pr \<longrightarrow> length (fn_key x) = 2"
    using list_all_Some [OF k(1)] by simp
  moreover have "\<forall>x. Some x \<in> set ?pr \<longrightarrow> length (fn_hash x) = 32" using list_all_Some [OF k(2)] by simp
  ultimately show ?thesis unfolding proof_for_def using ok by (intro conjI) simp_all
qed


text \<open>
  The digest joins index, key and children's hashes without lengths, so a proof is not bound to one key: from a checked proof of
  the root whose key has at least two bytes, moving the last byte of the key into the left child's hash gives another proof
  that passes \<open>ProveFixedTreeProof\<close> with the same root hash.
\<close>

theorem fixedtree_proof_key_ambiguous:
  assumes "ProveFixedTreeProof L [Some a, Some b, Some r] = Ok ()" and "2 \<le> length (fn_key r)"
  shows "ProveFixedTreeProof L
    [Some (a\<lparr>fn_hash := last (fn_key r) # fn_hash a\<rparr>), Some b, Some (r\<lparr>fn_key := butlast (fn_key r)\<rparr>)] = Ok ()"
proof -
  have ne: "butlast (fn_key r) \<noteq> []" "fn_key r \<noteq> []" using assms(2) by (auto simp flip: length_0_conv)
  then have "butlast (fn_key r) @ [last (fn_key r)] = fn_key r" "butlast (fn_key r) \<noteq> []" by simp_all
  then have eq: "butlast (fn_key r) @ last (fn_key r) # xs = fn_key r @ xs" for xs by (metis append_Cons append_Nil append_assoc)
  from assms ne show ?thesis
    by (auto simp: eq ProveFixedTreeProof_def proveFixedTreeProof_def proof_levels_def proof_level_check_def parentNodeInProof_def
        deref_def bind_res_Ok_iff seq_Ok_iff FixedTreeNode_IsValid_def FixedTreeNodeHash_def opt_hash_def Suc_le_eq
        split: if_splits)
qed

theorem fixedtree_proof_key_ambiguous_witness:
  "\<exists>a b r. ProveFixedTreeProof sample_lib [Some a, Some b, Some (r :: fnode)] = Ok () \<and> fn_key r = [5, 7] \<and>
     ProveFixedTreeProof sample_lib [Some (a\<lparr>fn_hash := 7 # fn_hash a\<rparr>), Some b, Some (r\<lparr>fn_key := [5]\<rparr>)] = Ok ()"
proof -
  let ?n = "\<lambda>i. the (tr_nodes sample_tree ! i)"
  have p: "ProveFixedTreeProof sample_lib [Some (?n 1), Some (?n 2), Some (?n 0)] = Ok ()" by code_simp
  have k: "fn_key (?n 0) = [5, 7]" by code_simp
  from fixedtree_proof_key_ambiguous [OF p] k
  have "ProveFixedTreeProof sample_lib
    [Some (?n 1\<lparr>fn_hash := 7 # fn_hash (?n 1)\<rparr>), Some (?n 2), Some (?n 0\<lparr>fn_key := [5]\<rparr>)] = Ok ()" by simp
  with p k show ?thesis by blast
qed

text \<open>
  \<open>Tree\<close> recomputes hashes only while the root has none, so a node added after the tree was generated (at an index other than the
  root's) is returned without a hash: the second \<open>Tree\<close> succeeds and its result does not pass \<open>IsValid\<close>.
\<close>

theorem fixedtree_generator_stale:
  assumes "length (tr_nodes (tg_tree tg)) = unat (tg_size tg)" and "None \<notin> set (tr_nodes (tg_tree tg))"
    and "opt_hash (tr_nodes (tg_tree tg) ! 0) \<noteq> []" and "fn_key x \<noteq> []" and "0 < fn_index x" and "fn_index x < tg_size tg"
  shows "\<exists>tr. fst (FixedTreeGenerator_Tree L (snd (FixedTreeGenerator_Add tg x))) = Ok tr \<and> FixedTree_IsValid L tr \<noteq> Ok ()"
proof -
  let ?ns = "tr_nodes (tg_tree tg)" and ?i = "unat (fn_index x)"
  let ?ms = "?ns[?i := Some (x\<lparr>fn_hash := []\<rparr>)]"
  have i: "?i < length ?ns" "?i \<noteq> 0" using assms(1,5,6) by (simp_all add: word_less_nat_alt)
  have "None \<notin> set ?ms" using assms(2) set_update_subset_insert [of ?ns ?i "Some (x\<lparr>fn_hash := []\<rparr>)"] by blast
  moreover have "?ms ! 0 = ?ns ! 0" using i(2) by simp
  moreover have "\<not> tg_size tg < 1" using assms(5,6) by (simp add: word_less_nat_alt)
  ultimately have t: "fst (FixedTreeGenerator_Tree L (snd (FixedTreeGenerator_Add tg x))) = Ok (NewFixedTree ?ms)"
    using assms(3,4,6) leD [of "tg_size tg" "fn_index x"]
    by (auto simp: FixedTreeGenerator_Tree_def FixedTreeGenerator_Add_def FixedTreeNode_SetHash_def Let_def)
  have "node_index_check L ?i (?ms ! ?i) \<noteq> Ok ()"
    using i(1) by (auto simp: node_index_check_def bind_res_Ok_iff FixedTreeNode_IsValid_def)
  moreover have "FixedTree_IsValid L (NewFixedTree ?ms) = Ok () \<Longrightarrow> node_index_check L ?i (?ms ! ?i) = Ok ()"
    using FixedTree_IsValid_index [of L "NewFixedTree ?ms" ?i] i(1) by (simp add: NewFixedTree_def NewFixedTreeWithHint_def)
  ultimately have "FixedTree_IsValid L (NewFixedTree ?ms) \<noteq> Ok ()" by blast
  with t show ?thesis by blast
qed

theorem fixedtree_generator_stale_witness:
  "\<exists>tr. fst (FixedTreeGenerator_Tree sample_lib (snd (FixedTreeGenerator_Add
      (snd (FixedTreeGenerator_Tree sample_lib (Add_all (NewFixedTreeGenerator 3) sample_nodes)))
      (NewBaseFixedTreeNode FixedTreeHint 1 [9])))) = Ok tr \<and> FixedTree_IsValid sample_lib tr \<noteq> Ok ()"
  by (rule fixedtree_generator_stale) code_simp+
end
