(* ===== verification/Mitum_Operation.thy ===== *)
theory Mitum_Operation
  imports Mitum_Ballot Mitum_FixedTree
begin

text \<open>
  Operations and the seals that carry them (\<^verbatim>\<open>src/base/operation/operation.go\<close>, \<^verbatim>\<open>seal.go\<close>, the tree node of \<^verbatim>\<open>tree.go\<close>).
  An operation fact is an interface the applications implement: its own \<open>IsValid\<close> is the field \<open>of_IsValid\<close> of \<open>opfact\<close>.
  The signatures of an operation are a slice that the value receivers share, so \<open>AddFactSigns\<close> and \<open>LastSignedAt\<close> also return what
  the slice of the original holds afterwards.
\<close>

section \<open>Operations\<close>

definition MaxTokenSize :: nat where "MaxTokenSize = 100"

record opfact =
  of_ht :: hint
  of_h :: "hash option"
  of_token :: bytes
  of_IsValid :: "bytes \<Rightarrow> unit res"

record operation =
  op_ht :: hint
  op_fact :: "opfact option"
  op_h :: "hash option"
  op_fs :: "fact_sign option list"

definition IsValidOperationFact :: "lib \<Rightarrow> opfact \<Rightarrow> unit res" where
  "IsValidOperationFact L f =
     bind_res (isvalid_Check False
       [Some (Hint_IsValid L (of_ht f)), map_option Hash_IsValid (of_h f), Some (Hint_IsValid L (of_ht f))]) (\<lambda>_.
       if length (of_token f) < 1 then Err (Errorf InvalidError ''Operation has empty token'')
       else fail_if (length (of_token f) > MaxTokenSize) (Errorf InvalidError ''Operation token size too large: %d > %d''))"

definition Operation_GenerateHash :: "lib \<Rightarrow> operation \<Rightarrow> hash res" where
  "Operation_GenerateHash L bo =
     bind_res (map_res (\<lambda>fs. case fs of None \<Rightarrow> Panic | Some s \<Rightarrow> FactSign_Bytes s) (op_fs bo)) (\<lambda>bs.
     bind_res (of_hash (Option.bind (op_fact bo) of_h)) (\<lambda>h.
       Ok (NewSHA256 L (ConcatBytesSlice [Hash_Bytes h, ConcatBytesSlice bs]))))"

definition Operation_sign_check :: "lib \<Rightarrow> opfact \<Rightarrow> bytes \<Rightarrow> fact_sign option \<Rightarrow> unit res" where
  "Operation_sign_check L f networkID fs =
     (case fs of
        None \<Rightarrow> Err (Errorf InvalidError ''empty fact sign found'')
      | Some s \<Rightarrow> bind_res (FactSign_IsValid L s) (\<lambda>_. IsValidFactSign L (Some (of_h f)) (Some s) networkID))"

definition IsValidOperation :: "lib \<Rightarrow> operation \<Rightarrow> bytes \<Rightarrow> unit res" where
  "IsValidOperation L op networkID =
     (case (op_h op, op_fact op) of
        (None, _) \<Rightarrow> Err (Errorf InvalidError ''empty operation hash'')
      | (Some h, None) \<Rightarrow> Err (Errorf InvalidError ''empty operation fact'')
      | (Some h, Some f) \<Rightarrow> seq [
          Hint_IsValid L (op_ht op),
          of_IsValid f networkID,
          fail_if (length (op_fs op) < 1) (Errorf InvalidError ''empty Signs()''),
          seq (map (Operation_sign_check L f networkID) (op_fs op)),
          bind_res (Operation_GenerateHash L op) (\<lambda>g.
            fail_if (\<not> Hash_Equal h g) (Errorf InvalidError ''wrong Opeartion hash''))])"

definition Operation_IsValid :: "lib \<Rightarrow> operation \<Rightarrow> bytes \<Rightarrow> unit res" where
  "Operation_IsValid L bo networkID = bind_res (Hint_IsValid L (op_ht bo)) (\<lambda>_. IsValidOperation L bo networkID)"

definition NewBaseOperation :: "hint \<Rightarrow> opfact option \<Rightarrow> hash option \<Rightarrow> fact_sign option list \<Rightarrow> operation" where
  "NewBaseOperation ht f h fs = \<lparr>op_ht = ht, op_fact = f, op_h = h, op_fs = fs\<rparr>"

definition NewBaseOperationFromFact :: "lib \<Rightarrow> hint \<Rightarrow> opfact \<Rightarrow> fact_sign option list \<Rightarrow> operation res" where
  "NewBaseOperationFromFact L ht f fs =
     (let bo = NewBaseOperation ht (Some f) None fs in
      bind_res (Operation_GenerateHash L bo) (\<lambda>h. Ok (bo\<lparr>op_h := Some h\<rparr>)))"

definition Operation_SetHash :: "operation \<Rightarrow> hash option \<Rightarrow> operation" where
  "Operation_SetHash bo h = bo\<lparr>op_h := h\<rparr>"

definition Operation_FactHash :: "operation \<Rightarrow> hash res" where
  "Operation_FactHash op = of_hash (Option.bind (op_fact op) of_h)"

text \<open>\<open>a.Signer().Equal(b.Signer())\<close>.\<close>

definition signer_Equal :: "fact_sign option \<Rightarrow> fact_sign option \<Rightarrow> bool res" where
  "signer_Equal a b =
     (case (a, b) of
        (Some a, Some b) \<Rightarrow>
          (case fs_signer a of None \<Rightarrow> Panic | Some k \<Rightarrow> Ok (Publickey_Equal k (map_option KPub (fs_signer b))))
      | _ \<Rightarrow> Panic)"

fun find_signer :: "fact_sign option \<Rightarrow> nat \<Rightarrow> fact_sign option list \<Rightarrow> nat option res" where
  "find_signer s j [] = Ok None"
| "find_signer s j (x # xs) = bind_res (signer_Equal s x) (\<lambda>e. if e then Ok (Some j) else find_signer s (Suc j) xs)"

text \<open>The loop of \<open>AddFactSigns\<close> over the new signatures: a known signer's entry of \<open>cur\<close> is replaced in place.\<close>

fun AddFactSigns_loop ::
  "fact_sign option list \<Rightarrow> fact_sign option list \<Rightarrow> fact_sign option list \<Rightarrow> (fact_sign option list \<times> fact_sign option list) res" where
  "AddFactSigns_loop cur afs [] = Ok (cur, afs)"
| "AddFactSigns_loop cur afs (s # ss) =
     bind_res (find_signer s 0 cur) (\<lambda>found.
       case found of
         None \<Rightarrow> AddFactSigns_loop cur (afs @ [s]) ss
       | Some j \<Rightarrow> AddFactSigns_loop (cur[j := s]) afs ss)"

definition Operation_AddFactSigns ::
  "lib \<Rightarrow> operation \<Rightarrow> fact_sign option list \<Rightarrow> (operation \<times> fact_sign option list) res" where
  "Operation_AddFactSigns L bo fs =
     bind_res (AddFactSigns_loop (op_fs bo) [] fs) (\<lambda>(cur, afs).
       let bo' = bo\<lparr>op_fs := cur @ afs\<rparr> in
       bind_res (Operation_GenerateHash L bo') (\<lambda>h. Ok (bo'\<lparr>op_h := Some h\<rparr>, cur)))"

text \<open>
  \<open>LastSignedAt\<close> sorts the slice it is given, newest first; for the at most twelve signatures of practice \<open>sort.Slice\<close> is an
  insertion sort. The second component is the slice afterwards.
\<close>

definition signed_after :: "fact_sign \<Rightarrow> fact_sign \<Rightarrow> bool" where
  "signed_after a b \<longleftrightarrow> fs_signedAt a > fs_signedAt b"

definition LastSignedAt :: "fact_sign list \<Rightarrow> gotime \<times> fact_sign list" where
  "LastSignedAt fs =
     (case fs of
        [] \<Rightarrow> (0, [])
      | [f] \<Rightarrow> (fs_signedAt f, [f])
      | _ \<Rightarrow> (let s = SliceStable signed_after fs in (fs_signedAt (hd s), s)))"

section \<open>Operation seals\<close>

definition SealHint :: hint where "SealHint = NewHint ''seal'' ''v0.0.1''"

record operation_seal =
  os_seal :: base_seal
  os_ops :: "operation option list"

definition OperationSeal_BodyBytes :: "operation_seal \<Rightarrow> bytes res" where
  "OperationSeal_BodyBytes sl =
     bind_res (Seal_BodyBytes (os_seal sl)) (\<lambda>b.
     bind_res (map_res (\<lambda>o'. bind_res (of_hash (Option.bind o' op_h)) (\<lambda>h. Ok (Hash_Bytes h))) (os_ops sl)) (\<lambda>bl.
       Ok (ConcatBytesSlice (b # bl))))"

definition NewOperationSeal :: "lib \<Rightarrow> gotime \<Rightarrow> privatekey \<Rightarrow> operation option list \<Rightarrow> bytes \<Rightarrow> operation_seal res" where
  "NewOperationSeal L now pk ops networkID =
     (if length ops < 1 then Err (plain ''seal can not be generated without Operations'')
      else
        let sl = \<lparr>os_seal = NewBaseSealWithHint SealHint, os_ops = ops\<rparr>;
            gen = (\<lambda>s. bind_res (OperationSeal_BodyBytes (sl\<lparr>os_seal := s\<rparr>)) (\<lambda>b. Ok (NewSHA256 L b)))
        in bind_res (Seal_Sign_with L now gen (os_seal sl) pk networkID) (\<lambda>s.
             Ok (sl\<lparr>os_seal := s\<lparr>sl_bodyHashFunc := sl_bodyHash s\<rparr>\<rparr>)))"

definition OperationSeal_IsValid :: "lib \<Rightarrow> operation_seal \<Rightarrow> bytes \<Rightarrow> unit res" where
  "OperationSeal_IsValid L sl networkID =
     (if length (os_ops sl) < 1 then Err (Errorf InvalidError ''empty operations'')
      else bind_res (Seal_IsValid L (os_seal sl) networkID) (\<lambda>_.
        if list_ex Option.is_none (os_ops sl) then Err (Errorf InvalidError ''empty operation found in seal'')
        else isvalid_Check False (map (map_option (\<lambda>o'. Operation_IsValid L o' networkID)) (os_ops sl))))"

definition OperationSeal_SetOperations :: "operation_seal \<Rightarrow> operation option list \<Rightarrow> operation_seal" where
  "OperationSeal_SetOperations sl ops = sl\<lparr>os_ops := ops\<rparr>"

section \<open>The node of the operations tree\<close>

definition OperationFixedTreeNodeHint :: hint where
  "OperationFixedTreeNodeHint = NewHint ''operation-fixedtree-node'' ''v0.0.1''"

record opnode = fnode +
  on_inState :: bool
  on_reason :: "goerr option"

definition NewOperationFixedTreeNodeWithHash :: "u64 \<Rightarrow> bytes \<Rightarrow> bytes \<Rightarrow> bool \<Rightarrow> goerr option \<Rightarrow> opnode" where
  "NewOperationFixedTreeNodeWithHash i k h inState reason =
     \<lparr>fn_ht = OperationFixedTreeNodeHint, fn_index = i, fn_key = k, fn_hash = h, on_inState = inState, on_reason = reason\<rparr>"

definition NewOperationFixedTreeNode :: "u64 \<Rightarrow> bytes \<Rightarrow> bool \<Rightarrow> goerr option \<Rightarrow> opnode" where
  "NewOperationFixedTreeNode i k inState reason = NewOperationFixedTreeNodeWithHash i k [] inState reason"

definition OperationFixedTreeNode_Equal :: "opnode \<Rightarrow> opnode \<Rightarrow> bool" where
  "OperationFixedTreeNode_Equal no n \<longleftrightarrow> FixedTreeNode_Equal no n \<and> on_inState no = on_inState n"

section \<open>Lemmas\<close>

text \<open>A signature of the fact with hash \<open>fh\<close> made by a private key, as \<open>NewFactSignature\<close> and \<open>NewBaseFactSign\<close> make it.\<close>

definition genuine :: "lib \<Rightarrow> hash \<Rightarrow> bytes \<Rightarrow> fact_sign \<Rightarrow> bool" where
  "genuine L fh nid s \<longleftrightarrow> (\<exists>w now sig. NewFactSignature L (newBasePrivatekey L w) fh nid = Ok sig \<and> now \<noteq> 0 \<and>
     s = NewBaseFactSign now (Some (priv_pub (newBasePrivatekey L w))) sig)"

definition signer_name :: "fact_sign \<Rightarrow> string" where
  "signer_name s = pub_s (the (fs_signer s))"

lemma BaseFactSignHint_valid: "semver_IsValid L ''v0.0.1'' \<Longrightarrow> Hint_IsValid L BaseFactSignHint = Ok ()"
proof -
  have "Type_IsValid ''base-fact-sign'' = Ok ()" by code_simp
  then show "semver_IsValid L ''v0.0.1'' \<Longrightarrow> Hint_IsValid L BaseFactSignHint = Ok ()"
    by (simp add: BaseFactSignHint_def std_hint_valid)
qed

lemma newBasePrivatekey_parts:
  "priv_pub (newBasePrivatekey L w) = NewBasePublickey L (btcec_PubKey L w)" "priv_wif (newBasePrivatekey L w) = Some (Some w)"
  by (simp_all add: newBasePrivatekey_def Let_def)

lemma genuine_facts:
  assumes "genuine L fh nid s"
  shows "\<exists>b. FactSign_Bytes s = Ok b" and "\<exists>k. fs_signer s = Some k \<and> Publickey_IsValid k = Ok ()"
  using assms by (auto simp: genuine_def NewBaseFactSign_def NewBaseFactSignWithHint_def FactSign_Bytes_def newBasePrivatekey_parts)

lemma genuine_check:
  assumes "btcec_signs L" and "semver_IsValid L ''v0.0.1''" and "genuine L fh nid s" and "of_h f = Some fh"
  shows "Operation_sign_check L f nid (Some s) = Ok ()"
proof -
  from assms(3) obtain w now sig where s: "NewFactSignature L (newBasePrivatekey L w) fh nid = Ok sig" "now \<noteq> 0"
    "s = NewBaseFactSign now (Some (priv_pub (newBasePrivatekey L w))) sig" by (auto simp: genuine_def)
  note v = Sign_Verify [OF assms(1) s(1) [unfolded NewFactSignature_def] newBasePrivatekey_parts]
  from v s(2) assms(4) BaseFactSignHint_valid [OF assms(2)] show ?thesis
    by (simp add: s(3) Operation_sign_check_def FactSign_IsValid_def IsValidFactSign_def NewBaseFactSign_def
        NewBaseFactSignWithHint_def time_IsZero_def newBasePrivatekey_parts NewBytesForFactSignature_def bind_res_Ok_iff)
qed

lemma GenerateHash_genuine:
  assumes "\<forall>s \<in> set ss. genuine L fh nid s" and "op_fs bo = map Some ss" and "op_fact bo = Some f" and "of_h f = Some fh"
  shows "\<exists>h. Operation_GenerateHash L bo = Ok h"
proof -
  have "\<exists>ys. map_res (\<lambda>fs. case fs of None \<Rightarrow> Panic | Some s \<Rightarrow> FactSign_Bytes s) (map Some ss) = Ok ys"
    by (rule map_res_Ok) (use assms(1) genuine_facts(1) in fastforce)
  then show ?thesis using assms(2-4) by (auto simp: Operation_GenerateHash_def of_hash_def)
qed

lemma IsValidOperation_genuine:
  assumes "btcec_signs L" and "semver_IsValid L ''v0.0.1''" and "\<forall>s \<in> set ss. genuine L fh nid s" and "ss \<noteq> []"
    and "op_fs bo = map Some ss" and "op_fact bo = Some f" and "of_h f = Some fh" and "of_IsValid f nid = Ok ()"
    and "Hint_IsValid L (op_ht bo) = Ok ()" and "Operation_GenerateHash L bo = Ok h" and "op_h bo = Some h"
  shows "Operation_IsValid L bo nid = Ok ()"
proof -
  have "seq (map (Operation_sign_check L f nid) (op_fs bo)) = Ok ()"
    using genuine_check [OF assms(1,2)] assms(3,5,7) by (auto simp: seq_Ok_iff)
  then show ?thesis using assms(4-11)
    by (simp add: Operation_IsValid_def IsValidOperation_def fail_if_def Hash_Equal_def Suc_le_eq)
qed

lemma signer_Equal_genuine:
  assumes "genuine L fh nid s" and "genuine L fh nid t"
  shows "signer_Equal (Some s) (Some t) = Ok (signer_name s = signer_name t)"
  using genuine_facts(2) [OF assms(1)] genuine_facts(2) [OF assms(2)]
  by (auto simp: signer_Equal_def Publickey_Equal_def signer_name_def)

lemma find_signer_genuine:
  assumes "genuine L fh nid s" and "\<forall>t \<in> set cur. genuine L fh nid t"
  shows "\<exists>r. find_signer (Some s) j (map Some cur) = Ok r \<and>
    (case r of None \<Rightarrow> signer_name s \<notin> signer_name ` set cur
     | Some i \<Rightarrow> j \<le> i \<and> i - j < length cur \<and> signer_name (cur ! (i - j)) = signer_name s)"
  using assms(2)
proof (induction cur arbitrary: j)
  case (Cons t cur)
  then obtain r where r: "find_signer (Some s) (Suc j) (map Some cur) = Ok r" "case r of None \<Rightarrow> signer_name s \<notin> signer_name ` set cur
     | Some i \<Rightarrow> Suc j \<le> i \<and> i - Suc j < length cur \<and> signer_name (cur ! (i - Suc j)) = signer_name s" by fastforce
  have e: "signer_Equal (Some s) (Some t) = Ok (signer_name s = signer_name t)" using signer_Equal_genuine assms(1) Cons.prems by simp
  show ?case
  proof (cases "signer_name s = signer_name t")
    case True
    then show ?thesis using e by simp
  next
    case False
    have "i - j = Suc (i - Suc j)" if "Suc j \<le> i" for i using that by simp
    then show ?thesis using e r False by (auto split: option.splits)
  qed
qed simp

lemma find_signer_cases:
  assumes "genuine L fh nid s" and "\<forall>t \<in> set cur. genuine L fh nid t"
  shows "find_signer (Some s) 0 (map Some cur) = Ok None \<and> signer_name s \<notin> signer_name ` set cur \<or>
    (\<exists>i < length cur. find_signer (Some s) 0 (map Some cur) = Ok (Some i) \<and> signer_name (cur ! i) = signer_name s)"
proof -
  obtain r where "find_signer (Some s) 0 (map Some cur) = Ok r" "case r of None \<Rightarrow> signer_name s \<notin> signer_name ` set cur
     | Some i \<Rightarrow> 0 \<le> i \<and> i - 0 < length cur \<and> signer_name (cur ! (i - 0)) = signer_name s"
    using find_signer_genuine [OF assms, of 0] by blast
  then show ?thesis by (cases r) simp_all
qed

lemma AddFactSigns_loop_genuine:
  assumes "\<forall>t \<in> set ss. genuine L fh nid t" and "\<forall>t \<in> set cur. genuine L fh nid t" and "\<forall>t \<in> set afs. genuine L fh nid t"
  shows "\<exists>cur' afs'. AddFactSigns_loop (map Some cur) (map Some afs) (map Some ss) = Ok (map Some cur', map Some afs') \<and>
    (\<forall>t \<in> set cur' \<union> set afs'. genuine L fh nid t) \<and> map signer_name cur' = map signer_name cur \<and>
    map signer_name afs' = map signer_name afs @ filter (\<lambda>n. n \<notin> signer_name ` set cur) (map signer_name ss)"
  using assms
proof (induction ss arbitrary: cur afs)
  case (Cons s ss)
  have g: "genuine L fh nid s" "\<forall>t \<in> set cur. genuine L fh nid t" "\<forall>t \<in> set ss. genuine L fh nid t" using Cons.prems by simp_all
  from find_signer_cases [OF g(1,2)] show ?case
  proof (elim disjE exE conjE)
    assume r: "find_signer (Some s) 0 (map Some cur) = Ok None" "signer_name s \<notin> signer_name ` set cur"
    have "AddFactSigns_loop (map Some cur) (map Some afs) (map Some (s # ss)) =
        AddFactSigns_loop (map Some cur) (map Some (afs @ [s])) (map Some ss)" using r(1) by simp
    moreover have "\<forall>t \<in> set (afs @ [s]). genuine L fh nid t" using Cons.prems by auto
    moreover have "map signer_name (afs @ [s]) @ filter (\<lambda>n. n \<notin> signer_name ` set cur) (map signer_name ss) =
        map signer_name afs @ filter (\<lambda>n. n \<notin> signer_name ` set cur) (map signer_name (s # ss))" using r(2) by simp
    ultimately show ?thesis using Cons.IH [OF g(3,2), of "afs @ [s]"] by simp
  next
    fix i assume r: "i < length cur" "find_signer (Some s) 0 (map Some cur) = Ok (Some i)" "signer_name (cur ! i) = signer_name s"
    let ?cur = "cur[i := s]"
    have m: "map signer_name ?cur = map signer_name cur" using r by (metis map_update list_update_id nth_map length_map)
    then have n: "signer_name ` set ?cur = signer_name ` set cur" by (metis list.set_map)
    have "signer_name s \<in> signer_name ` set cur" using r by (metis image_eqI nth_mem)
    then have f: "filter (\<lambda>n. n \<notin> signer_name ` set cur) (map signer_name (s # ss)) =
        filter (\<lambda>n. n \<notin> signer_name ` set ?cur) (map signer_name ss)" using n by simp
    have "\<forall>t \<in> set ?cur. genuine L fh nid t" using g(1,2) set_update_subset_insert [of cur i s] by auto
    moreover have "AddFactSigns_loop (map Some cur) (map Some afs) (map Some (s # ss)) =
        AddFactSigns_loop (map Some ?cur) (map Some afs) (map Some ss)" using r(2) by (simp add: map_update)
    ultimately show ?thesis using Cons.IH [OF g(3), of ?cur afs] Cons.prems(3) unfolding f m by simp
  qed
qed auto

lemma IsValidSeal_ops [simp]: "os_seal (sl\<lparr>os_ops := ops\<rparr>) = os_seal sl"
  by simp

section \<open>Properties\<close>

text \<open>
  Adding genuine signatures of its fact by different signers to an operation succeeds; the result passes \<open>IsValid\<close>, keeps
  one signature per signer, replaces the signatures of the signers it had and appends the others in order.
\<close>

theorem operation_add_signs:
  assumes "btcec_signs L" and "semver_IsValid L ''v0.0.1''" and "Hint_IsValid L (op_ht bo) = Ok ()" and "op_fact bo = Some f"
    and "of_h f = Some fh" and "of_IsValid f nid = Ok ()" and "op_fs bo = map Some ss" and "ss \<noteq> []"
    and "\<forall>s \<in> set ss \<union> set ns. genuine L fh nid s" and "distinct (map signer_name ss)" and "distinct (map signer_name ns)"
  shows "\<exists>bo' cur ts. Operation_AddFactSigns L bo (map Some ns) = Ok (bo', cur) \<and> Operation_IsValid L bo' nid = Ok () \<and>
    op_fs bo' = map Some ts \<and> distinct (map signer_name ts) \<and>
    map signer_name ts = map signer_name ss @ filter (\<lambda>n. n \<notin> signer_name ` set ss) (map signer_name ns)"
proof -
  obtain cur afs where l: "AddFactSigns_loop (map Some ss) [] (map Some ns) = Ok (map Some cur, map Some afs)"
    "\<forall>t \<in> set cur \<union> set afs. genuine L fh nid t" "map signer_name cur = map signer_name ss"
    "map signer_name afs = filter (\<lambda>n. n \<notin> signer_name ` set ss) (map signer_name ns)"
    using AddFactSigns_loop_genuine [of ns L fh nid ss "[]"] assms(9) by auto
  let ?ts = "cur @ afs"
  let ?bo = "bo\<lparr>op_fs := map Some ?ts\<rparr>"
  have g: "\<forall>t \<in> set ?ts. genuine L fh nid t" using l(2) by auto
  obtain h where h: "Operation_GenerateHash L ?bo = Ok h" using GenerateHash_genuine [OF g, of ?bo] assms(4,5) by auto
  have hh: "Operation_GenerateHash L (?bo\<lparr>op_h := Some h\<rparr>) = Ok h" using h by (simp add: Operation_GenerateHash_def)
  have "cur \<noteq> []" using l(3) assms(8) by auto
  then have v: "Operation_IsValid L (?bo\<lparr>op_h := Some h\<rparr>) nid = Ok ()"
    using IsValidOperation_genuine [OF assms(1,2) g _ _ _ assms(5,6) _ hh] assms(3,4) by simp
  have m: "map signer_name ?ts = map signer_name ss @ filter (\<lambda>n. n \<notin> signer_name ` set ss) (map signer_name ns)"
    using l(3,4) by simp
  have d: "distinct (map signer_name ?ts)" unfolding m using assms(10,11) by auto
  have r: "Operation_AddFactSigns L bo (map Some ns) = Ok (?bo\<lparr>op_h := Some h\<rparr>, map Some cur)"
    using l(1) h assms(7) by (simp add: Operation_AddFactSigns_def)
  show ?thesis
    by (rule exI [of _ "?bo\<lparr>op_h := Some h\<rparr>"], rule exI [of _ "map Some cur"], rule exI [of _ ?ts])
      (intro conjI r v d m, simp)
qed

text \<open>
  \<open>LastSignedAt\<close> sorts the signature slice of the operation it is called on: for a valid operation with two signatures, the older
  first, the call swaps them and the operation no longer passes \<open>IsValid\<close>, unless the two orders have the same digest.
\<close>

theorem last_signed_at_invalidates:
  assumes "Operation_IsValid L bo nid = Ok ()" and "op_fs bo = [Some a, Some b]" and "fs_signedAt a < fs_signedAt b"
    and "op_fact bo = Some f" and "of_h f = Some fh" and "FactSign_Bytes a = Ok ba" and "FactSign_Bytes b = Ok bb"
    and "sha3_Sum256 L (Hash_Bytes fh @ ba @ bb) \<noteq> sha3_Sum256 L (Hash_Bytes fh @ bb @ ba)"
  shows "LastSignedAt [a, b] = (fs_signedAt b, [b, a]) \<and>
    Operation_IsValid L (bo\<lparr>op_fs := map Some (snd (LastSignedAt [a, b]))\<rparr>) nid \<noteq> Ok ()"
proof -
  have l: "LastSignedAt [a, b] = (fs_signedAt b, [b, a])"
    using assms(3) by (simp add: LastSignedAt_def SliceStable_def signed_after_def)
  have g: "Operation_GenerateHash L bo = Ok (NewSHA256 L (Hash_Bytes fh @ ba @ bb))"
    "Operation_GenerateHash L (bo\<lparr>op_fs := [Some b, Some a]\<rparr>) = Ok (NewSHA256 L (Hash_Bytes fh @ bb @ ba))"
    using assms(2,4-7) by (simp_all add: Operation_GenerateHash_def of_hash_def)
  from assms(1,4) g(1) obtain h where h: "op_h bo = Some h" "Hash_Bytes h = sha3_Sum256 L (Hash_Bytes fh @ ba @ bb)"
    by (auto simp: Operation_IsValid_def IsValidOperation_def bind_res_Ok_iff Hash_Equal_def NewSHA256_def split: option.splits)
  have "Operation_IsValid L (bo\<lparr>op_fs := [Some b, Some a]\<rparr>) nid \<noteq> Ok ()"
    using g(2) h assms(4,8) by (auto simp: Operation_IsValid_def IsValidOperation_def bind_res_Ok_iff Hash_Equal_def NewSHA256_def)
  with l show ?thesis by simp
qed

text \<open>
  A valid operation seal stays valid when its operations are replaced by any other valid operations: \<open>BaseSeal.IsValid\<close> checks the
  signature against the stored body hash and never recomputes that hash from the operations.
\<close>

theorem seal_does_not_bind_operations:
  assumes "OperationSeal_IsValid L sl nid = Ok ()" and "ops \<noteq> []" and "\<forall>o' \<in> set ops. Operation_IsValid L o' nid = Ok ()"
  shows "OperationSeal_IsValid L (OperationSeal_SetOperations sl (map Some ops)) nid = Ok ()"
  using assms
  by (auto simp: OperationSeal_IsValid_def OperationSeal_SetOperations_def bind_res_Ok_iff list_ex_iff split: if_splits)

subsection \<open>Witnesses\<close>

definition sample_opfact :: opfact where
  "sample_opfact = \<lparr>of_ht = NewHint ''op-fact'' ''v0.0.1'', of_h = Some (NewBytes [4, 4]), of_token = [1], of_IsValid = (\<lambda>_. Ok ())\<rparr>"

definition sample_sign :: "byte \<Rightarrow> gotime \<Rightarrow> fact_sign" where
  "sample_sign k t = NewBaseFactSign t (Some (priv_pub (newBasePrivatekey sample_lib [k])))
     (ok_val (NewFactSignature sample_lib (newBasePrivatekey sample_lib [k]) (NewBytes [4, 4]) [1]))"

definition sample_op :: "fact_sign list \<Rightarrow> operation" where
  "sample_op ss = ok_val (NewBaseOperationFromFact sample_lib (NewHint ''op'' ''v0.0.1'') sample_opfact (map Some ss))"

lemma sample_sign_Ok: "\<exists>sig. NewFactSignature sample_lib (newBasePrivatekey sample_lib [k]) h nid = Ok sig"
  unfolding NewFactSignature_def Privatekey_Sign_def newBasePrivatekey_parts by (simp add: sample_lib_def)

lemma sample_sign_genuine: "t \<noteq> 0 \<Longrightarrow> genuine sample_lib (NewBytes [4, 4]) [1] (sample_sign k t)"
  using sample_sign_Ok [of k "NewBytes [4, 4]" "[1]"] unfolding genuine_def sample_sign_def by force

theorem operation_add_signs_witness:
  "\<exists>bo' cur. Operation_AddFactSigns sample_lib (sample_op [sample_sign 8 10]) [Some (sample_sign 9 20)] = Ok (bo', cur) \<and>
     Operation_IsValid sample_lib bo' [1] = Ok () \<and> length (op_fs bo') = 2"
proof -
  have h: "Hint_IsValid sample_lib (op_ht (sample_op [sample_sign 8 10])) = Ok ()" by code_simp
  have f: "op_fact (sample_op [sample_sign 8 10]) = Some sample_opfact" "op_fs (sample_op [sample_sign 8 10]) = map Some [sample_sign 8 10]"
    by (simp_all add: sample_op_def NewBaseOperationFromFact_def NewBaseOperation_def Operation_GenerateHash_def of_hash_def
        sample_opfact_def FactSign_Bytes_def sample_sign_def NewBaseFactSign_def NewBaseFactSignWithHint_def Let_def)
  have n: "signer_name (sample_sign 9 20) \<noteq> signer_name (sample_sign 8 10)" by code_simp
  have s: "of_h sample_opfact = Some (NewBytes [4, 4])" "of_IsValid sample_opfact [1] = Ok ()" by (simp_all add: sample_opfact_def)
  have "\<forall>s \<in> set [sample_sign 8 10] \<union> set [sample_sign 9 20]. genuine sample_lib (NewBytes [4, 4]) [1] s"
    using sample_sign_genuine by simp
  moreover have "distinct (map signer_name [sample_sign 8 10])" "distinct (map signer_name [sample_sign 9 20])" by simp_all
  ultimately have "\<exists>bo' cur ts. Operation_AddFactSigns sample_lib (sample_op [sample_sign 8 10]) (map Some [sample_sign 9 20]) = Ok (bo', cur) \<and>
      Operation_IsValid sample_lib bo' [1] = Ok () \<and> op_fs bo' = map Some ts \<and> distinct (map signer_name ts) \<and>
      map signer_name ts = map signer_name [sample_sign 8 10] @
        filter (\<lambda>n. n \<notin> signer_name ` set [sample_sign 8 10]) (map signer_name [sample_sign 9 20])"
    by (rule operation_add_signs [OF sample_btcec_signs sample_version h f(1) s f(2) not_Cons_self2])
  then
  obtain bo' cur ts where r: "Operation_AddFactSigns sample_lib (sample_op [sample_sign 8 10]) (map Some [sample_sign 9 20]) = Ok (bo', cur)"
    "Operation_IsValid sample_lib bo' [1] = Ok ()" "op_fs bo' = map Some ts"
    and l: "map signer_name ts = map signer_name [sample_sign 8 10] @
       filter (\<lambda>n. n \<notin> signer_name ` set [sample_sign 8 10]) (map signer_name [sample_sign 9 20])"
    by blast
  from arg_cong [OF l, of length] n have "length ts = 2" by simp
  with r show ?thesis by auto
qed

theorem last_signed_at_invalidates_witness:
  "Operation_IsValid sample_lib (sample_op [sample_sign 8 10, sample_sign 9 20]) [1] = Ok () \<and>
   Operation_IsValid sample_lib ((sample_op [sample_sign 8 10, sample_sign 9 20])\<lparr>op_fs :=
     map Some (snd (LastSignedAt [sample_sign 8 10, sample_sign 9 20]))\<rparr>) [1] \<noteq> Ok ()"
proof -
  let ?a = "sample_sign 8 10" and ?b = "sample_sign 9 20" and ?bo = "sample_op [sample_sign 8 10, sample_sign 9 20]"
  have v: "Operation_IsValid sample_lib ?bo [1] = Ok ()" by code_simp
  obtain ba bb where b: "FactSign_Bytes ?a = Ok ba" "FactSign_Bytes ?b = Ok bb"
    using genuine_facts(1) [OF sample_sign_genuine] by (metis zero_neq_numeral)
  have "sha3_Sum256 sample_lib ([4, 4] @ ok_val (FactSign_Bytes ?a) @ ok_val (FactSign_Bytes ?b)) \<noteq>
      sha3_Sum256 sample_lib ([4, 4] @ ok_val (FactSign_Bytes ?b) @ ok_val (FactSign_Bytes ?a))" by code_simp
  then have d: "sha3_Sum256 sample_lib (Hash_Bytes (NewBytes [4, 4]) @ ba @ bb) \<noteq> sha3_Sum256 sample_lib (Hash_Bytes (NewBytes [4, 4]) @ bb @ ba)"
    using b by (simp add: NewBytes_def)
  have f: "op_fs ?bo = [Some ?a, Some ?b]" "op_fact ?bo = Some sample_opfact" "of_h sample_opfact = Some (NewBytes [4, 4])"
    using b by (simp_all add: sample_op_def NewBaseOperationFromFact_def NewBaseOperation_def Operation_GenerateHash_def of_hash_def
        sample_opfact_def Let_def)
  have "fs_signedAt ?a < fs_signedAt ?b" by (simp add: sample_sign_def NewBaseFactSign_def NewBaseFactSignWithHint_def)
  from last_signed_at_invalidates [OF v f(1) this f(2,3) b d] v show ?thesis by blast
qed

theorem seal_does_not_bind_operations_witness:
  "\<exists>sl. NewOperationSeal sample_lib 30 (newBasePrivatekey sample_lib [8]) [Some (sample_op [sample_sign 8 10])] [1] = Ok sl \<and>
     OperationSeal_IsValid sample_lib sl [1] = Ok () \<and>
     OperationSeal_IsValid sample_lib (OperationSeal_SetOperations sl (map Some [sample_op [sample_sign 9 20]])) [1] = Ok ()"
proof -
  let ?sl = "ok_val (NewOperationSeal sample_lib 30 (newBasePrivatekey sample_lib [8]) [Some (sample_op [sample_sign 8 10])] [1])"
  have n: "is_Ok (NewOperationSeal sample_lib 30 (newBasePrivatekey sample_lib [8]) [Some (sample_op [sample_sign 8 10])] [1])"
    and v: "OperationSeal_IsValid sample_lib ?sl [1] = Ok ()" and o': "Operation_IsValid sample_lib (sample_op [sample_sign 9 20]) [1] = Ok ()"
    by code_simp+
  from seal_does_not_bind_operations [OF v, of "[sample_op [sample_sign 9 20]]"] o' v n show ?thesis
    by (auto simp: is_Ok_def split: res.splits)
qed

end
