(* ===== verification/Mitum_State.thy ===== *)
theory Mitum_State
  imports Mitum_Operation "HOL-Library.AList" "HOL-Library.List_Lexorder" "HOL-Library.Char_ord"
begin

text \<open>
  States and the pool in which a proposal's operations change them (\<^verbatim>\<open>src/base/state/state_v0.go\<close>, \<^verbatim>\<open>state.go\<close>, \<^verbatim>\<open>util.go\<close>,
  \<^verbatim>\<open>src/storage/statepool.go\<close>). A state value is an interface of the applications; the program uses its hash and its \<open>IsValid\<close>.
  The Go maps of the pool are association lists with distinct keys; the pointers it holds to \<open>StateUpdater\<close>s are the values of
  the list.
\<close>

section \<open>States\<close>

record svalue =
  val_h :: hash
  val_IsValid :: "unit res"

definition Value_Equal :: "svalue \<Rightarrow> svalue \<Rightarrow> bool" where
  "Value_Equal v w \<longleftrightarrow> Hash_Equal (val_h v) (val_h w)"

record statev0 =
  st_h :: "hash option"
  st_key :: string
  st_value :: "svalue option"
  st_height :: height
  st_previousHeight :: height
  st_operations :: "hash option list"

definition IsValidKey :: "string \<Rightarrow> unit res" where
  "IsValidKey s =
     (if list_ex is_space s then Err (Errorf InvalidError ''state key should not have blank, %q'')
      else fail_if (length s < 1) (Errorf InvalidError ''empty state key''))"

definition NewStateV0 :: "string \<Rightarrow> svalue option \<Rightarrow> height \<Rightarrow> statev0 res" where
  "NewStateV0 k v h =
     bind_res (IsValidKey k) (\<lambda>_.
       Ok \<lparr>st_h = None, st_key = k, st_value = v, st_height = h, st_previousHeight = NilHeight, st_operations = []\<rparr>)"

definition Hash_IsEmpty :: "hash \<Rightarrow> bool" where
  "Hash_IsEmpty h = (case h of HBytes b \<Rightarrow> Bytes_IsEmpty b | HL32 b \<Rightarrow> L32_IsEmpty b | HL64 b \<Rightarrow> L64_IsEmpty b)"

definition StateV0_IsValid :: "statev0 \<Rightarrow> unit res" where
  "StateV0_IsValid st =
     bind_res (IsValidKey (st_key st)) (\<lambda>_.
       if (case st_h st of None \<Rightarrow> False | Some h \<Rightarrow> Hash_IsEmpty h) then Err (Errorf InvalidError ''empty hash found'')
       else
         case st_value st of
           None \<Rightarrow> Panic
         | Some v \<Rightarrow> seq [
             val_IsValid v,
             (if Height_IsEmpty (st_previousHeight st) then Ok () else Height_IsValid (st_previousHeight st)),
             (if Height_IsEmpty (st_height st) then Ok () else Height_IsValid (st_height st)),
             isvalid_Check False (map (map_option Hash_IsValid) (st_operations st))])"

definition StateV0_SetHash :: "statev0 \<Rightarrow> hash \<Rightarrow> statev0 res" where
  "StateV0_SetHash st h = bind_res (Hash_IsValid h) (\<lambda>_. Ok (st\<lparr>st_h := Some h\<rparr>))"

text \<open>\<open>GenerateHash\<close> sorts the operations by their bytes, in place; the second component is the state afterwards.\<close>

definition StateV0_GenerateHash :: "lib \<Rightarrow> statev0 \<Rightarrow> (hash \<times> statev0) res" where
  "StateV0_GenerateHash L st =
     (case (st_value st, those (st_operations st)) of
        (Some v, Some hs) \<Rightarrow>
          (let ops = sort_key (\<lambda>h. map unat (Hash_Bytes h)) hs;
               pbb = (if st_previousHeight st \<noteq> NilHeight then Height_Bytes (st_previousHeight st) else [])
           in Ok (NewSHA256 L (ConcatBytesSlice [string_bytes (st_key st), Hash_Bytes (val_h v), pbb,
                    ConcatBytesSlice (map Hash_Bytes ops)]), st\<lparr>st_operations := map Some ops\<rparr>))
      | _ \<Rightarrow> Panic)"

definition StateV0_SetValue :: "statev0 \<Rightarrow> svalue option \<Rightarrow> statev0" where
  "StateV0_SetValue st v = st\<lparr>st_value := v\<rparr>"

definition StateV0_SetPreviousHeight :: "statev0 \<Rightarrow> height \<Rightarrow> statev0" where
  "StateV0_SetPreviousHeight st h = st\<lparr>st_previousHeight := h\<rparr>"

definition StateV0_SetHeight :: "statev0 \<Rightarrow> height \<Rightarrow> statev0" where
  "StateV0_SetHeight st h =
     (if st_height st \<noteq> h then st\<lparr>st_previousHeight := st_height st, st_height := h\<rparr> else st)"

definition StateV0_SetOperation :: "statev0 \<Rightarrow> hash option list \<Rightarrow> statev0" where
  "StateV0_SetOperation st ops = st\<lparr>st_operations := ops\<rparr>"

definition StateV0_Merge :: "statev0 \<Rightarrow> statev0 \<Rightarrow> statev0 res" where
  "StateV0_Merge st source =
     (if st_key st \<noteq> st_key source then Err (plain ''different key found during merging'')
      else
        case st_value source of
          None \<Rightarrow> Ok st
        | Some v \<Rightarrow>
            (case st_value st of
               Some w \<Rightarrow> (if Value_Equal w v then Ok st else Ok (st\<lparr>st_value := Some v\<rparr>))
             | None \<Rightarrow> Ok (st\<lparr>st_value := Some v\<rparr>)))"

definition StateV0_Clear :: "statev0 \<Rightarrow> statev0" where
  "StateV0_Clear st = st\<lparr>st_operations := []\<rparr>"

section \<open>State updaters\<close>

record updater =
  su_state :: statev0
  su_opcache :: "string list"
  su_orig :: statev0
  su_height :: height
  su_operations :: "hash option list"

definition NewStateUpdater :: "statev0 \<Rightarrow> updater" where
  "NewStateUpdater st = \<lparr>su_state = st, su_opcache = [], su_orig = st, su_height = NilHeight, su_operations = []\<rparr>"

definition StateUpdater_SetHash :: "updater \<Rightarrow> hash \<Rightarrow> unit res \<times> updater" where
  "StateUpdater_SetHash stu h =
     (case bind_res (Hash_IsValid h) (\<lambda>_. StateV0_SetHash (su_state stu) h) of
        Ok st \<Rightarrow> (Ok (), stu\<lparr>su_state := st\<rparr>) | Err e \<Rightarrow> (Err e, stu) | Panic \<Rightarrow> (Panic, stu))"

definition StateUpdater_SetValue :: "updater \<Rightarrow> svalue option \<Rightarrow> updater" where
  "StateUpdater_SetValue stu v = stu\<lparr>su_state := StateV0_SetValue (su_state stu) v\<rparr>"

definition StateUpdater_SetHeight :: "updater \<Rightarrow> height \<Rightarrow> updater" where
  "StateUpdater_SetHeight stu h = stu\<lparr>su_height := h, su_opcache := []\<rparr>"

definition StateUpdater_AddOperation :: "lib \<Rightarrow> updater \<Rightarrow> hash \<Rightarrow> unit res \<times> updater" where
  "StateUpdater_AddOperation L stu op =
     (let oh = Hash_String L op in
      if oh \<in> set (su_opcache stu) then (Ok (), stu)
      else
        let stu = stu\<lparr>su_opcache := oh # su_opcache stu\<rparr> in
        case Hash_IsValid op of
          Err e \<Rightarrow> (Err e, stu)
        | Panic \<Rightarrow> (Panic, stu)
        | Ok _ \<Rightarrow> (Ok (), stu\<lparr>su_operations := su_operations stu @ [Some op]\<rparr>))"

definition StateUpdater_Merge :: "updater \<Rightarrow> statev0 \<Rightarrow> unit res \<times> updater" where
  "StateUpdater_Merge stu source =
     (if st_key (su_state stu) \<noteq> st_key source then (Err (plain ''different key found during merging''), stu)
      else case StateV0_Merge source (su_state stu) of
        Ok ns \<Rightarrow> (Ok (), stu\<lparr>su_state := ns\<rparr>) | Err e \<Rightarrow> (Err e, stu) | Panic \<Rightarrow> (Panic, stu))"

definition StateUpdater_Reset :: "updater \<Rightarrow> updater" where
  "StateUpdater_Reset stu = stu\<lparr>su_state := su_orig stu\<rparr>"

definition StateUpdater_GetState :: "updater \<Rightarrow> statev0" where
  "StateUpdater_GetState stu = StateV0_SetOperation (StateV0_SetHeight (su_state stu) (su_height stu)) (su_operations stu)"

section \<open>The pool\<close>

record statepool =
  sp_nextHeight :: height
  sp_cached :: "(string \<times> (statev0 \<times> bool)) list"
  sp_updated :: "(string \<times> updater) list"
  sp_insertedOps :: "(string \<times> hash) list"
  sp_addedOps :: "(string \<times> operation) list"

text \<open>\<open>NewStatepool\<close>, given the height of the last manifest of the database.\<close>

definition NewStatepool :: "height option res \<Rightarrow> statepool res" where
  "NewStatepool lastManifestHeight =
     bind_res lastManifestHeight (\<lambda>m.
       Ok \<lparr>sp_nextHeight = (case m of None \<Rightarrow> GenesisHeight | Some h \<Rightarrow> i64 (h + 1)), sp_cached = [], sp_updated = [],
           sp_insertedOps = [], sp_addedOps = []\<rparr>)"

definition Statepool_get :: "(string \<Rightarrow> statev0 option res) \<Rightarrow> statepool \<Rightarrow> string \<Rightarrow> (statev0 \<times> bool) res \<times> statepool" where
  "Statepool_get fromStorage sp k =
     (case map_of (sp_cached sp) k of
        Some ca \<Rightarrow> (Ok ca, sp)
      | None \<Rightarrow>
          (case fromStorage k of
             Err e \<Rightarrow> (Err e, sp)
           | Panic \<Rightarrow> (Panic, sp)
           | Ok (Some st) \<Rightarrow>
               (let st = StateV0_Clear st in (Ok (st, True), sp\<lparr>sp_cached := AList.update k (st, True) (sp_cached sp)\<rparr>))
           | Ok None \<Rightarrow>
               (case NewStateV0 k None NilHeight of
                  Err e \<Rightarrow> (Err e, sp)
                | Panic \<Rightarrow> (Panic, sp)
                | Ok st \<Rightarrow> (Ok (st, False), sp\<lparr>sp_cached := AList.update k (st, False) (sp_cached sp)\<rparr>))))"

definition Statepool_Get :: "(string \<Rightarrow> statev0 option res) \<Rightarrow> statepool \<Rightarrow> string \<Rightarrow> (statev0 \<times> bool) res \<times> statepool" where
  "Statepool_Get fromStorage sp k =
     (case Statepool_get fromStorage sp k of
        (Ok (st, ex), sp') \<Rightarrow> (Ok (StateV0_Clear st, ex), sp') | (Err e, sp') \<Rightarrow> (Err e, sp') | (Panic, sp') \<Rightarrow> (Panic, sp'))"

definition Statepool_insertOperations :: "lib \<Rightarrow> statepool \<Rightarrow> hash \<Rightarrow> statepool" where
  "Statepool_insertOperations L sp f =
     (if map_of (sp_insertedOps sp) (Hash_String L f) = None
      then sp\<lparr>sp_insertedOps := AList.update (Hash_String L f) f (sp_insertedOps sp)\<rparr> else sp)"

definition SetStatesError :: goerr where
  "SetStatesError = NewError ''(*Statepool).Set'' 132 ''failed to set States''"

definition updater_set :: "lib \<Rightarrow> updater \<Rightarrow> statev0 \<Rightarrow> hash \<Rightarrow> unit res \<times> updater" where
  "updater_set L su st f =
     (case StateUpdater_Merge su st of
        (Ok _, su') \<Rightarrow> StateUpdater_AddOperation L su' f | (Err e, su') \<Rightarrow> (Err e, su') | (Panic, su') \<Rightarrow> (Panic, su'))"

definition reset_updated :: "string list \<Rightarrow> (string \<times> updater) list \<Rightarrow> (string \<times> updater) list" where
  "reset_updated ks us = map (\<lambda>(k, u). (k, if k \<in> set ks then StateUpdater_Reset u else u)) us"

text \<open>The loop of \<open>Set\<close>; \<open>ks\<close> are the keys of the states already merged, which a failure resets together with the failing one.\<close>

fun Statepool_Set_loop :: "lib \<Rightarrow> hash \<Rightarrow> string list \<Rightarrow> statev0 list \<Rightarrow> statepool \<Rightarrow> unit res \<times> statepool" where
  "Statepool_Set_loop L f ks [] sp = (Ok (), sp)"
| "Statepool_Set_loop L f ks (st # sts) sp =
     (let k = st_key st;
          su = (case map_of (sp_updated sp) k of
                  Some u \<Rightarrow> u | None \<Rightarrow> StateUpdater_SetHeight (NewStateUpdater (StateV0_Clear st)) (sp_nextHeight sp))
      in case updater_set L su st f of
           (Ok _, su') \<Rightarrow> Statepool_Set_loop L f (ks @ [k]) sts (sp\<lparr>sp_updated := AList.update k su' (sp_updated sp)\<rparr>)
         | (Err e, su') \<Rightarrow>
             (Err (NError_Wrap SetStatesError e),
              sp\<lparr>sp_updated := reset_updated (ks @ [k]) (AList.update k su' (sp_updated sp))\<rparr>)
         | (Panic, su') \<Rightarrow> (Panic, sp\<lparr>sp_updated := AList.update k su' (sp_updated sp)\<rparr>))"

definition Statepool_Set :: "lib \<Rightarrow> statepool \<Rightarrow> hash \<Rightarrow> statev0 list \<Rightarrow> unit res \<times> statepool" where
  "Statepool_Set L sp f sts =
     (if length sts < 1 then (Ok (), sp)
      else case Statepool_Set_loop L f [] sts sp of
        (Ok _, sp') \<Rightarrow> (Ok (), Statepool_insertOperations L sp' f) | (Err e, sp') \<Rightarrow> (Err e, sp') | (Panic, sp') \<Rightarrow> (Panic, sp'))"

definition Statepool_IsUpdated :: "statepool \<Rightarrow> bool" where
  "Statepool_IsUpdated sp \<longleftrightarrow> length (sp_updated sp) > 0"

definition Statepool_Updates :: "statepool \<Rightarrow> updater list" where
  "Statepool_Updates sp = sort_key (\<lambda>u. st_key (su_state u)) (map snd (sp_updated sp))"

definition Statepool_AddOperation :: "lib \<Rightarrow> statepool \<Rightarrow> operation \<Rightarrow> statepool res" where
  "Statepool_AddOperation L sp op =
     bind_res (Operation_FactHash op) (\<lambda>f.
       let k = Hash_String L f;
           sp = (if map_of (sp_addedOps sp) k = None then sp\<lparr>sp_addedOps := AList.update k op (sp_addedOps sp)\<rparr> else sp)
       in Ok (Statepool_insertOperations L sp f))"

fun Statepool_AddOperations :: "lib \<Rightarrow> statepool \<Rightarrow> operation list \<Rightarrow> statepool res" where
  "Statepool_AddOperations L sp [] = Ok sp"
| "Statepool_AddOperations L sp (op # ops) = bind_res (Statepool_AddOperation L sp op) (\<lambda>sp. Statepool_AddOperations L sp ops)"

definition Statepool_Done :: "statepool \<Rightarrow> statepool" where
  "Statepool_Done sp = sp\<lparr>sp_cached := [], sp_updated := [], sp_insertedOps := [], sp_addedOps := []\<rparr>"

section \<open>Invariant of the pool\<close>

definition updater_ok :: "height \<Rightarrow> string \<Rightarrow> updater \<Rightarrow> bool" where
  "updater_ok nh k u \<longleftrightarrow> st_key (su_state u) = k \<and> st_key (su_orig u) = k \<and> su_height u = nh"

definition pool_inv :: "statepool \<Rightarrow> bool" where
  "pool_inv sp \<longleftrightarrow> distinct (map fst (sp_updated sp)) \<and> distinct (map fst (sp_insertedOps sp)) \<and>
     (\<forall>(k, u) \<in> set (sp_updated sp). updater_ok (sp_nextHeight sp) k u)"

text \<open>The pools a proposal processor can reach.\<close>

inductive pool_reach :: "lib \<Rightarrow> (string \<Rightarrow> statev0 option res) \<Rightarrow> statepool \<Rightarrow> bool" for L src where
  New: "NewStatepool m = Ok sp \<Longrightarrow> pool_reach L src sp"
| Get: "pool_reach L src sp \<Longrightarrow> pool_reach L src (snd (Statepool_Get src sp k))"
| Set: "pool_reach L src sp \<Longrightarrow> pool_reach L src (snd (Statepool_Set L sp f sts))"
| AddOperations: "pool_reach L src sp \<Longrightarrow> Statepool_AddOperations L sp ops = Ok sp' \<Longrightarrow> pool_reach L src sp'"

lemma StateV0_Merge_key: "StateV0_Merge st source = Ok ns \<Longrightarrow> st_key ns = st_key st"
  by (auto simp: StateV0_Merge_def split: if_splits option.splits)

lemma updater_set_ok:
  assumes "updater_ok nh (st_key st) su" and "updater_set L su st f = (r, su')"
  shows "updater_ok nh (st_key st) su'"
  using assms StateV0_Merge_key [of st "su_state su"]
  by (auto simp: updater_set_def StateUpdater_Merge_def StateUpdater_AddOperation_def updater_ok_def Let_def
      split: if_splits res.splits)

lemma new_updater_ok: "updater_ok nh (st_key st) (StateUpdater_SetHeight (NewStateUpdater (StateV0_Clear st)) nh)"
  by (simp add: updater_ok_def StateUpdater_SetHeight_def NewStateUpdater_def StateV0_Clear_def)

lemma reset_updated_inv:
  "map fst (reset_updated ks us) = map fst us"
  "\<forall>(k, u) \<in> set us. updater_ok nh k u \<Longrightarrow> \<forall>(k, u) \<in> set (reset_updated ks us). updater_ok nh k u"
  by (induction us) (auto simp: reset_updated_def updater_ok_def StateUpdater_Reset_def)

lemma map_of_reset_updated:
  "map_of (reset_updated ks us) k = map_option (\<lambda>u. if k \<in> set ks then StateUpdater_Reset u else u) (map_of us k)"
  by (induction us) (auto simp: reset_updated_def)

lemma update_all:
  "\<forall>(k, u) \<in> set al. P k u \<Longrightarrow> P k v \<Longrightarrow> \<forall>(k, u) \<in> set (AList.update k v al). P k u"
  by (induction al) auto

lemma pool_inv_update:
  assumes "pool_inv sp" and "updater_ok (sp_nextHeight sp) k u"
  shows "pool_inv (sp\<lparr>sp_updated := AList.update k u (sp_updated sp)\<rparr>)"
  using assms update_all [of "sp_updated sp" "updater_ok (sp_nextHeight sp)" k u]
  by (simp add: pool_inv_def distinct_update)

lemma Set_loop_inv: "pool_inv sp \<Longrightarrow> pool_inv (snd (Statepool_Set_loop L f ks sts sp))"
proof (induction L f ks sts sp rule: Statepool_Set_loop.induct)
  case (2 L f ks st sts sp)
  let ?su = "case map_of (sp_updated sp) (st_key st) of
      Some u \<Rightarrow> u | None \<Rightarrow> StateUpdater_SetHeight (NewStateUpdater (StateV0_Clear st)) (sp_nextHeight sp)"
  obtain r su' where r: "updater_set L ?su st f = (r, su')" by fastforce
  have "updater_ok (sp_nextHeight sp) (st_key st) ?su"
    using 2(2) new_updater_ok by (auto simp: pool_inv_def split: option.splits dest: map_of_SomeD)
  then have i: "pool_inv (sp\<lparr>sp_updated := AList.update (st_key st) su' (sp_updated sp)\<rparr>)"
    using pool_inv_update [OF 2(2)] updater_set_ok [OF _ r] by blast
  moreover from i have "pool_inv (sp\<lparr>sp_updated := reset_updated (ks @ [st_key st]) (AList.update (st_key st) su' (sp_updated sp))\<rparr>)"
    using reset_updated_inv(2) [of "AList.update (st_key st) su' (sp_updated sp)" "sp_nextHeight sp"]
    by (simp add: pool_inv_def reset_updated_inv(1))
  ultimately show ?case using 2(1) [OF refl refl] r by (cases r) (auto simp: Let_def)
qed simp

lemma insertOperations_inv: "pool_inv sp \<Longrightarrow> pool_inv (Statepool_insertOperations L sp f)"
  by (simp add: Statepool_insertOperations_def pool_inv_def distinct_update)

lemma Set_inv: "pool_inv sp \<Longrightarrow> pool_inv (snd (Statepool_Set L sp f sts))"
  using Set_loop_inv [of sp L f "[]" sts] insertOperations_inv
  by (auto simp: Statepool_Set_def split: prod.splits res.splits)

lemma Get_inv: "pool_inv sp \<Longrightarrow> pool_inv (snd (Statepool_Get src sp k))"
  by (auto simp: Statepool_Get_def Statepool_get_def pool_inv_def Let_def split: option.splits res.splits)

lemma added_inv: "pool_inv (sp\<lparr>sp_addedOps := x\<rparr>) \<longleftrightarrow> pool_inv sp"
  by (simp add: pool_inv_def)

lemma AddOperations_inv: "pool_inv sp \<Longrightarrow> Statepool_AddOperations L sp ops = Ok sp' \<Longrightarrow> pool_inv sp'"
proof (induction L sp ops arbitrary: sp' rule: Statepool_AddOperations.induct)
  case (2 L sp op ops)
  then obtain sp1 where "Statepool_AddOperation L sp op = Ok sp1" "Statepool_AddOperations L sp1 ops = Ok sp'"
    by (auto simp: bind_res_Ok_iff)
  moreover from this(1) have "pool_inv sp1"
    using 2(2) added_inv by (auto simp: Statepool_AddOperation_def bind_res_Ok_iff Let_def intro!: insertOperations_inv)
  ultimately show ?case using 2 by blast
qed simp

lemma pool_reach_inv: "pool_reach L src sp \<Longrightarrow> pool_inv sp"
proof (induction rule: pool_reach.induct)
  case (New m sp)
  then show ?case by (auto simp: NewStatepool_def bind_res_Ok_iff pool_inv_def)
qed (simp_all add: Get_inv Set_inv AddOperations_inv)

section \<open>Properties\<close>

text \<open>
  In every pool a processor can reach, \<open>Updates\<close> lists each updated key once, in strictly increasing order, and every state it
  yields has the height of the block being built.
\<close>

theorem statepool_updates_ordered:
  assumes "pool_reach L src sp"
  shows "sorted_wrt (<) (map (\<lambda>u. st_key (su_state u)) (Statepool_Updates sp)) \<and>
    set (map (\<lambda>u. st_key (su_state u)) (Statepool_Updates sp)) = set (map fst (sp_updated sp)) \<and>
    (\<forall>u \<in> set (Statepool_Updates sp). st_height (StateUpdater_GetState u) = sp_nextHeight sp)"
proof -
  let ?key = "\<lambda>u. st_key (su_state u)"
  note inv = pool_reach_inv [OF assms, unfolded pool_inv_def]
  have k: "map ?key (map snd (sp_updated sp)) = map fst (sp_updated sp)"
    using inv by (auto simp: updater_ok_def)
  have "distinct (map ?key (map snd (sp_updated sp)))" unfolding k using inv by blast
  then have "distinct (map ?key (Statepool_Updates sp))"
    unfolding Statepool_Updates_def by (metis mset_map mset_sort mset_eq_imp_distinct_iff)
  moreover have "sorted (map ?key (Statepool_Updates sp))" by (simp add: Statepool_Updates_def)
  moreover have "set (map ?key (Statepool_Updates sp)) = set (map fst (sp_updated sp))"
    using arg_cong [OF k, of set] by (simp add: Statepool_Updates_def image_image)
  moreover have "\<forall>u \<in> set (Statepool_Updates sp). st_height (StateUpdater_GetState u) = sp_nextHeight sp"
    using inv by (fastforce simp: Statepool_Updates_def updater_ok_def StateUpdater_GetState_def StateV0_SetHeight_def StateV0_SetOperation_def)
  ultimately show ?thesis by (auto simp: strict_sorted_iff)
qed

text \<open>
  When two operations of one proposal set the same key, the pool keeps the value of the first: \<open>StateUpdater.Merge\<close> calls
  \<open>source.Merge(stu.State)\<close>, and \<open>StateV0.Merge\<close> takes the value of its argument. Both operations are recorded for the state.
\<close>

theorem statepool_first_value_wins:
  assumes "map_of (sp_updated sp) (st_key s1) = None" and "st_key s2 = st_key s1" and "st_value s1 = Some v1" and "st_value s2 = Some v2"
    and "\<not> Value_Equal v2 v1" and "Hash_IsValid f1 = Ok ()" and "Hash_IsValid f2 = Ok ()" and "Hash_String L f1 \<noteq> Hash_String L f2"
  shows "\<exists>sp' u. Statepool_Set L (snd (Statepool_Set L sp f1 [s1])) f2 [s2] = (Ok (), sp') \<and>
    map_of (sp_updated sp') (st_key s1) = Some u \<and>
    st_value (StateUpdater_GetState u) = Some v1 \<and> st_operations (StateUpdater_GetState u) = [Some f1, Some f2]"
  using assms
  by (simp add: Statepool_Set_def updater_set_def StateUpdater_Merge_def StateV0_Merge_def StateUpdater_AddOperation_def
      StateUpdater_SetHeight_def NewStateUpdater_def StateV0_Clear_def Statepool_insertOperations_def Value_Equal_def Hash_Equal_def
      StateUpdater_GetState_def StateV0_SetHeight_def StateV0_SetOperation_def Let_def update_conv')

text \<open>
  A fact whose hash is invalid is rejected by \<open>Set\<close> once and accepted the second time: \<open>AddOperation\<close> remembers the hash before it
  validates it, so the repeated call returns early and the fact enters \<open>insertedOps\<close>.
\<close>

theorem statepool_invalid_fact_accepted:
  assumes "map_of (sp_updated sp) (st_key s) = None" and "Hash_IsValid f = Err e" and "st_value s = Some v"
    and "map_of (sp_insertedOps sp) (Hash_String L f) = None"
  shows "\<exists>sp1 sp2. Statepool_Set L sp f [s] = (Err (NError_Wrap SetStatesError e), sp1) \<and> Statepool_Set L sp1 f [s] = (Ok (), sp2) \<and>
    map_of (sp_insertedOps sp2) (Hash_String L f) = Some f"
  using assms
  by (simp add: Statepool_Set_def updater_set_def StateUpdater_Merge_def StateV0_Merge_def StateUpdater_AddOperation_def map_of_reset_updated
      StateUpdater_SetHeight_def NewStateUpdater_def StateV0_Clear_def Statepool_insertOperations_def Value_Equal_def Hash_Equal_def
      StateUpdater_Reset_def Let_def update_conv')

subsection \<open>Witnesses\<close>

definition sample_state :: "byte \<Rightarrow> statev0" where
  "sample_state b = \<lparr>st_h = None, st_key = ''k'', st_value = Some \<lparr>val_h = NewBytes [b], val_IsValid = Ok ()\<rparr>, st_height = 3,
     st_previousHeight = NilHeight, st_operations = []\<rparr>"

definition sample_pool :: statepool where
  "sample_pool = \<lparr>sp_nextHeight = 4, sp_cached = [], sp_updated = [], sp_insertedOps = [], sp_addedOps = []\<rparr>"

lemma sample_pool_new: "NewStatepool (Ok (Some 3)) = Ok sample_pool"
  by (simp add: NewStatepool_def sample_pool_def i64_def)

theorem statepool_updates_ordered_witness:
  "sorted_wrt (<) (map (\<lambda>u. st_key (su_state u))
     (Statepool_Updates (snd (Statepool_Set sample_lib sample_pool (NewBytes [1]) [sample_state 5]))))"
  using statepool_updates_ordered [OF pool_reach.Set [OF pool_reach.New [OF sample_pool_new]]] by blast

theorem statepool_first_value_wins_witness:
  "\<exists>sp' u. Statepool_Set sample_lib (snd (Statepool_Set sample_lib sample_pool (NewBytes [1]) [sample_state 5])) (NewBytes [2]) [sample_state 6]
       = (Ok (), sp') \<and> map_of (sp_updated sp') ''k'' = Some u \<and>
     st_value (StateUpdater_GetState u) = Some \<lparr>val_h = NewBytes [5], val_IsValid = Ok ()\<rparr>"
proof -
  have "Hash_String sample_lib (NewBytes [1]) \<noteq> Hash_String sample_lib (NewBytes [2])"
    "Hash_IsValid (NewBytes [1]) = Ok ()" "Hash_IsValid (NewBytes [2]) = Ok ()" by code_simp+
  note h = this
  have p: "map_of (sp_updated sample_pool) (st_key (sample_state 5)) = None" "st_key (sample_state 6) = st_key (sample_state 5)"
    "st_value (sample_state 5) = Some \<lparr>val_h = NewBytes [5], val_IsValid = Ok ()\<rparr>"
    "st_value (sample_state 6) = Some \<lparr>val_h = NewBytes [6], val_IsValid = Ok ()\<rparr>"
    "\<not> Value_Equal \<lparr>val_h = NewBytes [6], val_IsValid = Ok ()\<rparr> \<lparr>val_h = NewBytes [5], val_IsValid = Ok ()\<rparr>"
    by (simp_all add: sample_pool_def sample_state_def Value_Equal_def Hash_Equal_def NewBytes_def)
  have k: "st_key (sample_state 5) = ''k''" by (simp add: sample_state_def)
  from statepool_first_value_wins [OF p h(2,3,1)] show ?thesis unfolding k by blast
qed

theorem statepool_invalid_fact_accepted_witness:
  "\<exists>sp1 sp2 e. Statepool_Set sample_lib sample_pool (NewBytes []) [sample_state 5] = (Err e, sp1) \<and>
     Statepool_Set sample_lib sp1 (NewBytes []) [sample_state 5] = (Ok (), sp2)"
proof -
  obtain e where e: "Hash_IsValid (NewBytes []) = Err e" by (simp add: NewBytes_def Bytes_IsValid_def Bytes_IsEmpty_def)
  have "map_of (sp_updated sample_pool) (st_key (sample_state 5)) = None"
    "map_of (sp_insertedOps sample_pool) (Hash_String sample_lib (NewBytes [])) = None"
    "st_value (sample_state 5) = Some \<lparr>val_h = NewBytes [5], val_IsValid = Ok ()\<rparr>"
    by (simp_all add: sample_pool_def sample_state_def)
  from statepool_invalid_fact_accepted [OF this(1) e this(3,2)] show ?thesis by blast
qed

end
