(* ===== verification/Mitum_Block.thy ===== *)
theory Mitum_Block
  imports Mitum_State
begin

text \<open>
  Blocks (\<^verbatim>\<open>src/base/block\<close>): manifests, the consensus information of a block, the block itself, the map of its data files; nodes
  (\<^verbatim>\<open>src/base/node/base_v0.go\<close>); and the check of a run of manifests that syncing uses (\<^verbatim>\<open>src/isaac/block_checker.go\<close>).
\<close>

section \<open>Nodes\<close>

definition BaseV0Hint :: hint where "BaseV0Hint = NewHint ''base-node'' ''v0.0.1''"

record node =
  nd_ht :: hint
  nd_address :: "address option"
  nd_publickey :: "publickey option"

definition NewBaseV0 :: "address \<Rightarrow> publickey \<Rightarrow> node" where
  "NewBaseV0 a k = \<lparr>nd_ht = BaseV0Hint, nd_address = Some a, nd_publickey = Some k\<rparr>"

definition Node_IsValid :: "lib \<Rightarrow> node \<Rightarrow> unit res" where
  "Node_IsValid L bn = isvalid_Check False
     [Some (Hint_IsValid L (nd_ht bn)), map_option (Address_IsValid L) (nd_address bn), map_option Publickey_IsValid (nd_publickey bn)]"

section \<open>Manifests\<close>

definition ManifestV0Hint :: hint where "ManifestV0Hint = NewHint ''block-manifest'' ''v0.0.1''"
definition BlockV0Hint :: hint where "BlockV0Hint = NewHint ''block'' ''v0.0.1''"
definition BlockConsensusInfoV0Hint :: hint where "BlockConsensusInfoV0Hint = NewHint ''block-consensus-info'' ''v0.0.1''"
definition SuffrageInfoV0Hint :: hint where "SuffrageInfoV0Hint = NewHint ''block-suffrage-info'' ''v0.0.1''"

record manifest =
  mf_ht :: hint
  mf_h :: "hash option"
  mf_height :: height
  mf_round :: round
  mf_proposal :: "hash option"
  mf_previousBlock :: "hash option"
  mf_operationsHash :: "hash option"
  mf_statesHash :: "hash option"
  mf_confirmedAt :: gotime
  mf_createdAt :: gotime

text \<open>The bytes \<open>GenerateHash\<close> digests; a nil proposal or previous block is dereferenced.\<close>

definition Manifest_bytes :: "manifest \<Rightarrow> bytes res" where
  "Manifest_bytes bm =
     bind_res (of_hash (mf_proposal bm)) (\<lambda>p.
     bind_res (of_hash (mf_previousBlock bm)) (\<lambda>b.
       Ok (ConcatBytesSlice [Height_Bytes (mf_height bm), Round_Bytes (mf_round bm), Hash_Bytes p, Hash_Bytes b,
         opt_bytes (mf_operationsHash bm), opt_bytes (mf_statesHash bm), Time_Bytes (mf_confirmedAt bm)])))"

definition Manifest_GenerateHash :: "lib \<Rightarrow> manifest \<Rightarrow> hash res" where
  "Manifest_GenerateHash L bm = bind_res (Manifest_bytes bm) (\<lambda>b. Ok (NewSHA256 L b))"

text \<open>
  The second check allows a nil operations hash, and then does not look at the states hash; an error of an empty hash is forgiven,
  also before the states hash was looked at.
\<close>

definition Manifest_IsValid :: "lib \<Rightarrow> manifest \<Rightarrow> unit res" where
  "Manifest_IsValid L bm =
     (if time_IsZero (mf_confirmedAt bm) then Err (Errorf InvalidError ''empty confirmedAt'')
      else
        bind_res (isvalid_Check False
          [Some (Hint_IsValid L (mf_ht bm)), map_option Hash_IsValid (mf_h bm), Some (Height_IsValid (mf_height bm)),
           map_option Hash_IsValid (mf_proposal bm), map_option Hash_IsValid (mf_previousBlock bm)]) (\<lambda>_.
        bind_res (case isvalid_Check True
            [map_option Hash_IsValid (mf_operationsHash bm), map_option Hash_IsValid (mf_statesHash bm)] of
              Err e \<Rightarrow> (if error_Is e valuehash_EmptyHashError then Ok () else Err e) | r \<Rightarrow> r) (\<lambda>_.
        bind_res (of_hash (mf_h bm)) (\<lambda>h.
        bind_res (Manifest_GenerateHash L bm) (\<lambda>g.
          fail_if (\<not> Hash_Equal h g) (Errorf InvalidError ''incorrect manifest hash''))))))"

section \<open>Consensus information\<close>

record suffrage_info =
  si_ht :: hint
  si_proposer :: "address option"
  si_nodes :: "node option list"

definition NewSuffrageInfoV0 :: "address \<Rightarrow> node option list \<Rightarrow> suffrage_info" where
  "NewSuffrageInfoV0 p ns = \<lparr>si_ht = SuffrageInfoV0Hint, si_proposer = Some p, si_nodes = ns\<rparr>"

text \<open>The loop that looks for the proposer; it reads the address of every node until it is found.\<close>

fun proposer_found :: "lib \<Rightarrow> address option \<Rightarrow> node option list \<Rightarrow> bool res" where
  "proposer_found L p [] = Ok False"
| "proposer_found L p (n # ns) =
     (case (p, n) of
        (Some a, Some x) \<Rightarrow> (if Address_Equal L a (nd_address x) then Ok True else proposer_found L p ns)
      | _ \<Rightarrow> Panic)"

definition SuffrageInfo_IsValid :: "lib \<Rightarrow> suffrage_info \<Rightarrow> unit res" where
  "SuffrageInfo_IsValid L si =
     bind_res (Hint_IsValid L (si_ht si)) (\<lambda>_.
     bind_res (proposer_found L (si_proposer si) (si_nodes si)) (\<lambda>found.
       if \<not> found then Err (Errorf InvalidError ''proposer not found in suffrage nodes'')
       else isvalid_Check False
         (map_option (Address_IsValid L) (si_proposer si) # map (map_option (Node_IsValid L)) (si_nodes si))))"

record consensus_info =
  ci_ht :: hint
  ci_initVoteproof :: "voteproof option"
  ci_acceptVoteproof :: "voteproof option"
  ci_suffrageInfo :: "suffrage_info option"
  ci_sfs :: "signed_fact option"

text \<open>The map from address to node built from the suffrage: a later node with the same address replaces an earlier one.\<close>

definition suffrage_map :: "node list \<Rightarrow> address option \<Rightarrow> node option" where
  "suffrage_map ns = map_of (rev (map (\<lambda>n. (nd_address n, n)) ns))"

definition vote_in_suffrage :: "(address option \<Rightarrow> node option) \<Rightarrow> signed_fact \<Rightarrow> unit res" where
  "vote_in_suffrage sn nf =
     (case sf_factSign nf of
        None \<Rightarrow> Panic
      | Some fs \<Rightarrow>
          (case sn (fs_node fs) of
             None \<Rightarrow> Err (Errorf InvalidError ''unknown node, %s voted in %v voteproof.Votes()'')
           | Some n \<Rightarrow>
               (case fs_signer fs of
                  None \<Rightarrow> Panic
                | Some k \<Rightarrow> fail_if (\<not> Publickey_Equal k (map_option KPub (nd_publickey n)))
                    (Errorf InvalidError ''node, %s has invalid Publickey in %v voteproof''))))"

definition ConsensusInfo_isValidVoteproof :: "(address option \<Rightarrow> node option) \<Rightarrow> voteproof \<Rightarrow> unit res" where
  "ConsensusInfo_isValidVoteproof sn vp = seq (map (vote_in_suffrage sn) (vp_votes vp))"

definition ConsensusInfo_IsValid :: "lib \<Rightarrow> (string list \<Rightarrow> string list) \<Rightarrow> consensus_info \<Rightarrow> bytes \<Rightarrow> unit res" where
  "ConsensusInfo_IsValid L order bc networkID =
     bind_res (isvalid_Check False
       [Some (Hint_IsValid L (ci_ht bc)),
        map_option (\<lambda>v. Voteproof_IsValid L order v networkID) (ci_initVoteproof bc),
        map_option (\<lambda>v. Voteproof_IsValid L order v networkID) (ci_acceptVoteproof bc),
        map_option (SuffrageInfo_IsValid L) (ci_suffrageInfo bc),
        map_option (\<lambda>s. SignedFact_IsValid L s networkID) (ci_sfs bc)]) (\<lambda>_.
       case (ci_initVoteproof bc, ci_acceptVoteproof bc, ci_suffrageInfo bc, Option.bind (ci_sfs bc) sf_fact) of
         (Some ivp, Some avp, Some si, Some f) \<Rightarrow>
           if hint_ty (bf_ht (fact_base f)) \<noteq> ProposalFactType
           then Err (Errorf InvalidError ''proposal does not have proposal fact type; %q'')
           else if vp_stage ivp \<noteq> StageINIT then Err (Errorf InvalidError ''invalid initVoteproof, %v found in ConsensusInfo'')
           else if vp_stage avp \<noteq> StageACCEPT then Err (Errorf InvalidError ''invalid acceptVoteproof, %v found in ConsensusInfo'')
           else if None \<in> set (si_nodes si) then Panic
           else
             let sn = suffrage_map (map the (si_nodes si)) in
             seq [ConsensusInfo_isValidVoteproof sn ivp, ConsensusInfo_isValidVoteproof sn avp]
       | _ \<Rightarrow> Panic)"

section \<open>Blocks\<close>

type_synonym optree = "unit opnode_ext fixedtree"
type_synonym statetree = "unit fixedtree"

text \<open>A nil slice of operations or states is \<open>None\<close>.\<close>

record blockv0 =
  bk_ht :: hint
  bk_manifest :: manifest
  bk_operationsTree :: optree
  bk_operations :: "operation list option"
  bk_statesTree :: statetree
  bk_states :: "statev0 list option"
  bk_ci :: consensus_info

definition emptyFixedTree :: "'a fixedtree" where
  "emptyFixedTree = \<lparr>tr_ht = \<lparr>hint_ty = [], hint_v = []\<rparr>, tr_nodes = []\<rparr>"

definition NewBlockV0 ::
  "lib \<Rightarrow> gotime \<Rightarrow> suffrage_info \<Rightarrow> height \<Rightarrow> round \<Rightarrow> hash option \<Rightarrow> hash option \<Rightarrow> hash option \<Rightarrow> hash option \<Rightarrow> gotime \<Rightarrow> blockv0 res" where
  "NewBlockV0 L now si h r pr prev opsHash stsHash confirmedAt =
     (let bm = \<lparr>mf_ht = ManifestV0Hint, mf_h = None, mf_height = h, mf_round = r, mf_proposal = pr,
                mf_previousBlock = prev, mf_operationsHash = opsHash, mf_statesHash = stsHash,
                mf_confirmedAt = confirmedAt, mf_createdAt = now\<rparr>
      in bind_res (Manifest_GenerateHash L bm) (\<lambda>g.
           Ok \<lparr>bk_ht = BlockV0Hint, bk_manifest = bm\<lparr>mf_h := Some g\<rparr>, bk_operationsTree = emptyFixedTree, bk_operations = None,
               bk_statesTree = emptyFixedTree, bk_states = None,
               bk_ci = \<lparr>ci_ht = BlockConsensusInfoV0Hint, ci_initVoteproof = None, ci_acceptVoteproof = None,
                        ci_suffrageInfo = Some si, ci_sfs = None\<rparr>\<rparr>))"

definition block_tree_check :: "hash option \<Rightarrow> bool \<Rightarrow> 'a fixedtree \<Rightarrow> goerr \<Rightarrow> goerr \<Rightarrow> unit res" where
  "block_tree_check h isnil tr e1 e2 =
     (case h of
        None \<Rightarrow> Ok ()
      | Some h \<Rightarrow>
          if Hash_IsEmpty h then Ok ()
          else if isnil \<or> FixedTree_Len tr < 1 then Err e1
          else bind_res (FixedTree_Root tr) (\<lambda>root. fail_if (\<not> Hash_Equal h (NewBytes root)) e2))"

definition Block_checkOperations :: "blockv0 \<Rightarrow> unit res" where
  "Block_checkOperations bm =
     block_tree_check (mf_operationsHash (bk_manifest bm)) (Option.is_none (bk_operations bm)) (bk_operationsTree bm)
       (Errorf InvalidError ''Operations should not be empty'')
       (Errorf InvalidError ''Block.Operations() hash does not match with it's Root()'')"

definition Block_checkStates :: "blockv0 \<Rightarrow> unit res" where
  "Block_checkStates bm =
     block_tree_check (mf_statesHash (bk_manifest bm)) (Option.is_none (bk_states bm)) (bk_statesTree bm)
       (Errorf InvalidError ''States should not be empty'')
       (Errorf InvalidError ''Block.States() hash does not match with it's Root()'')"

definition Block_checkProposal :: "blockv0 \<Rightarrow> unit res" where
  "Block_checkProposal bm =
     (case (mf_proposal (bk_manifest bm), ci_sfs (bk_ci bm)) of
        (Some p, Some sfs) \<Rightarrow>
          bind_res (of_hash (Option.bind (sf_fact sfs) Fact_Hash)) (\<lambda>fh.
            fail_if (\<not> Hash_Equal p fh) (Errorf InvalidError ''proposal does not match with consensus info''))
      | _ \<Rightarrow> Ok ())"

definition Block_IsValid :: "lib \<Rightarrow> (string list \<Rightarrow> string list) \<Rightarrow> blockv0 \<Rightarrow> bytes \<Rightarrow> unit res" where
  "Block_IsValid L order bm networkID =
     (let m = bk_manifest bm in seq [
        Hint_IsValid L (bk_ht bm),
        (if mf_height m = PreGenesisHeight then isvalid_Check False [Some (Manifest_IsValid L m)]
         else isvalid_Check False [Some (Manifest_IsValid L m), Some (ConsensusInfo_IsValid L order (bk_ci bm) networkID)]),
        Block_checkOperations bm,
        Block_checkStates bm,
        Block_checkProposal bm])"

definition Block_SetINITVoteproof :: "voteproof option \<Rightarrow> blockv0 \<Rightarrow> blockv0" where
  "Block_SetINITVoteproof vp bm = bm\<lparr>bk_ci := (bk_ci bm)\<lparr>ci_initVoteproof := vp\<rparr>\<rparr>"

definition Block_SetACCEPTVoteproof :: "voteproof option \<Rightarrow> blockv0 \<Rightarrow> blockv0" where
  "Block_SetACCEPTVoteproof vp bm = bm\<lparr>bk_ci := (bk_ci bm)\<lparr>ci_acceptVoteproof := vp\<rparr>\<rparr>"

definition Block_SetSuffrageInfo :: "suffrage_info option \<Rightarrow> blockv0 \<Rightarrow> blockv0" where
  "Block_SetSuffrageInfo si bm = bm\<lparr>bk_ci := (bk_ci bm)\<lparr>ci_suffrageInfo := si\<rparr>\<rparr>"

definition Block_SetProposal :: "signed_fact option \<Rightarrow> blockv0 \<Rightarrow> blockv0" where
  "Block_SetProposal sfs bm = bm\<lparr>bk_ci := (bk_ci bm)\<lparr>ci_sfs := sfs\<rparr>\<rparr>"

definition Block_SetManifest :: "manifest \<Rightarrow> blockv0 \<Rightarrow> blockv0" where
  "Block_SetManifest m bm = bm\<lparr>bk_manifest := m\<rparr>"

definition Block_SetOperationsTree :: "optree \<Rightarrow> blockv0 \<Rightarrow> blockv0" where
  "Block_SetOperationsTree tr bm = bm\<lparr>bk_operationsTree := tr\<rparr>"

definition Block_SetOperations :: "operation list option \<Rightarrow> blockv0 \<Rightarrow> blockv0" where
  "Block_SetOperations ops bm = bm\<lparr>bk_operations := ops\<rparr>"

definition Block_SetStatesTree :: "statetree \<Rightarrow> blockv0 \<Rightarrow> blockv0" where
  "Block_SetStatesTree tr bm = bm\<lparr>bk_statesTree := tr\<rparr>"

definition Block_SetStates :: "statev0 list option \<Rightarrow> blockv0 \<Rightarrow> blockv0" where
  "Block_SetStates sts bm = bm\<lparr>bk_states := sts\<rparr>"

section \<open>The map of block data\<close>

definition BaseBlockdataMapHint :: hint where "BaseBlockdataMapHint = NewHint ''base-blockdatamap'' ''v0.0.1''"

definition Blockdata :: "string list" where
  "Blockdata = [''manifest'', ''operations'', ''operations_tree'', ''states'', ''states_tree'', ''init_voteproof'',
     ''accept_voteproof'', ''suffrage_info'', ''proposal'']"

record bd_item =
  bi_t :: string
  bi_checksum :: string
  bi_url :: string

definition NewBaseBlockdataMapItem :: "string \<Rightarrow> string \<Rightarrow> string \<Rightarrow> bd_item" where
  "NewBaseBlockdataMapItem t c u = \<lparr>bi_t = t, bi_checksum = c, bi_url = u\<rparr>"

definition HasPrefix :: "string \<Rightarrow> string \<Rightarrow> bool" where
  "HasPrefix s p \<longleftrightarrow> take (length p) s = p"

text \<open>\<open>strings.SplitN(url, "://", 2)\<close> has two parts when the separator occurs.\<close>

fun has_separator :: "string \<Rightarrow> bool" where
  "has_separator [] = False"
| "has_separator (c # cs) = (HasPrefix (c # cs) ''://'' \<or> has_separator cs)"

text \<open>\<open>bd.url[len(n)+4:]\<close> with \<open>len(n) = 2\<close>: the body starts at the seventh byte, whatever the scheme.\<close>

definition Item_URLBody :: "bd_item \<Rightarrow> string" where
  "Item_URLBody bd =
     (if \<not> has_separator (bi_url bd) then [] else if length (bi_url bd) < 6 then [] else drop 6 (bi_url bd))"

definition Item_IsValid :: "bd_item \<Rightarrow> unit res" where
  "Item_IsValid bd = seq [
     fail_if (length (bi_t bd) < 1) (Errorf InvalidError ''empty data type of map item''),
     fail_if (length (bi_checksum bd) < 1) (Errorf InvalidError ''empty checksum of map item''),
     (if \<not> has_separator (bi_url bd) then Err (plain ''invalid url'')
      else fail_if (length (Item_URLBody bd) < 1) (Errorf InvalidError ''empty url of map item''))]"

definition Item_Bytes :: "bd_item \<Rightarrow> bytes" where
  "Item_Bytes bd = ConcatBytesSlice [string_bytes (bi_t bd), string_bytes (bi_checksum bd), string_bytes (bi_url bd)]"

definition Item_SetFile :: "bd_item \<Rightarrow> string \<Rightarrow> bd_item" where
  "Item_SetFile bd p = bd\<lparr>bi_url := ''file://'' @ p\<rparr>"

definition Item_SetURL :: "bd_item \<Rightarrow> string \<Rightarrow> bd_item" where
  "Item_SetURL bd u = bd\<lparr>bi_url := u\<rparr>"

definition IsLocalBlockdataItem :: "string \<Rightarrow> bool" where
  "IsLocalBlockdataItem u \<longleftrightarrow> HasPrefix u ''file://''"

text \<open>The items are a Go map: an association list with distinct keys, in iteration order.\<close>

record blockdatamap =
  bd_ht :: hint
  bd_h :: "hash option"
  bd_height :: height
  bd_block :: "hash option"
  bd_createdAt :: gotime
  bd_items :: "(string \<times> bd_item) list"
  bd_writerHint :: hint

definition zero_item :: bd_item where "zero_item = \<lparr>bi_t = [], bi_checksum = [], bi_url = []\<rparr>"

definition NewBaseBlockdataMap :: "gotime \<Rightarrow> hint \<Rightarrow> height \<Rightarrow> blockdatamap" where
  "NewBaseBlockdataMap now w h =
     \<lparr>bd_ht = BaseBlockdataMapHint, bd_h = None, bd_height = h, bd_block = None, bd_createdAt = now,
      bd_items = map (\<lambda>t. (t, zero_item)) Blockdata, bd_writerHint = w\<rparr>"

definition bd_lookup :: "blockdatamap \<Rightarrow> string \<Rightarrow> bd_item" where
  "bd_lookup bd t = (case map_of (bd_items bd) t of None \<Rightarrow> zero_item | Some i \<Rightarrow> i)"

definition BlockdataMap_IsReadyToHash :: "lib \<Rightarrow> blockdatamap \<Rightarrow> unit res" where
  "BlockdataMap_IsReadyToHash L bd =
     bind_res (isvalid_Check False
       [Some (Hint_IsValid L (bd_ht bd)), Some (Height_IsValid (bd_height bd)), map_option Hash_IsValid (bd_block bd)]) (\<lambda>_.
       seq (map (\<lambda>(t, i). map_err (\<lambda>e. FmtErr ''invalid data type, %q found'' (Some e)) (Item_IsValid i)) (bd_items bd)))"

definition BlockdataMap_GenerateHash :: "lib \<Rightarrow> blockdatamap \<Rightarrow> hash" where
  "BlockdataMap_GenerateHash L bd =
     NewSHA256 L (ConcatBytesSlice (Height_Bytes (bd_height bd) # Time_Bytes (bd_createdAt bd) #
       map (\<lambda>t. Item_Bytes (bd_lookup bd t)) Blockdata))"

definition all_local_or_not :: "blockdatamap \<Rightarrow> bool" where
  "all_local_or_not bd \<longleftrightarrow>
     (case bd_items bd of [] \<Rightarrow> True
      | (t, i) # is \<Rightarrow> list_all (\<lambda>(t', j). IsLocalBlockdataItem (bi_url j) = IsLocalBlockdataItem (bi_url i)) is)"

definition BlockdataMap_IsValid :: "lib \<Rightarrow> blockdatamap \<Rightarrow> unit res" where
  "BlockdataMap_IsValid L bd =
     bind_res (isvalid_Check False [Some (Hint_IsValid L (bd_ht bd)), map_option Hash_IsValid (bd_h bd)]) (\<lambda>_.
       if \<not> all_local_or_not bd then Err (Errorf InvalidError ''all the items should be local or non-local'')
       else
         bind_res (map_err (NError_Wrap InvalidError) (BlockdataMap_IsReadyToHash L bd)) (\<lambda>_.
         bind_res (of_hash (bd_h bd)) (\<lambda>h.
           fail_if (\<not> Hash_Equal h (BlockdataMap_GenerateHash L bd)) (Errorf InvalidError ''incorrect block data map hash''))))"

definition BlockdataMap_UpdateHash :: "lib \<Rightarrow> blockdatamap \<Rightarrow> blockdatamap res" where
  "BlockdataMap_UpdateHash L bd =
     bind_res (BlockdataMap_IsReadyToHash L bd) (\<lambda>_. Ok (bd\<lparr>bd_h := Some (BlockdataMap_GenerateHash L bd)\<rparr>))"

definition BlockdataMap_IsLocal :: "blockdatamap \<Rightarrow> bool" where
  "BlockdataMap_IsLocal bd \<longleftrightarrow> list_ex (\<lambda>t. IsLocalBlockdataItem (bi_url (bd_lookup bd t))) Blockdata"

text \<open>\<open>SetItem\<close> writes to the map the receiver shares with every copy of it.\<close>

definition BlockdataMap_SetItem :: "blockdatamap \<Rightarrow> bd_item \<Rightarrow> blockdatamap res" where
  "BlockdataMap_SetItem bd item =
     (if map_of (bd_items bd) (bi_t item) = None then Err (plain ''unknown data type, %q of block data item'')
      else Ok (bd\<lparr>bd_items := AList.update (bi_t item) item (bd_items bd)\<rparr>))"

definition BlockdataMap_SetBlock :: "blockdatamap \<Rightarrow> hash option \<Rightarrow> blockdatamap" where
  "BlockdataMap_SetBlock bd blk = bd\<lparr>bd_block := blk\<rparr>"

definition CompareManifestWithMap :: "manifest \<Rightarrow> blockdatamap \<Rightarrow> unit res" where
  "CompareManifestWithMap m bd =
     (if mf_height m \<noteq> bd_height bd then Err (plain ''height not matched; %d != %d'')
      else bind_res (of_hash (mf_h m)) (\<lambda>h. bind_res (of_hash (bd_block bd)) (\<lambda>b.
        fail_if (\<not> Hash_Equal h b) (plain ''hash not matched; %q != %q''))))"

section \<open>The check of a run of manifests\<close>

definition checkIsValid :: "lib \<Rightarrow> manifest option \<Rightarrow> unit res" where
  "checkIsValid L blk = (case blk of None \<Rightarrow> Err (plain ''nil manifest found'') | Some m \<Rightarrow> Manifest_IsValid L m)"

definition checkPreviousBlock :: "manifest \<Rightarrow> manifest option \<Rightarrow> unit res" where
  "checkPreviousBlock cur nxt =
     (case nxt of
        None \<Rightarrow> Panic
      | Some nxt \<Rightarrow>
          if mf_height nxt \<noteq> i64 (mf_height cur + 1) then Err (plain ''wrong height: current=%v next=%s'')
          else
            bind_res (of_hash (mf_previousBlock nxt)) (\<lambda>p. bind_res (of_hash (mf_h cur)) (\<lambda>h.
              fail_if (\<not> Hash_Equal p h) (plain ''chained Hash does not match: height=%v current=%s next=%s''))))"

text \<open>\<open>BlockIntegrityError\<close> is an \<open>NError\<close> that also keeps the block at which the chain breaks and the cause.\<close>

definition blockIntegrityError :: goerr where
  "blockIntegrityError = NewError ''init'' 23 ''block integrity failed''"

definition NewBlockIntegrityError :: "goerr \<Rightarrow> goerr" where
  "NewBlockIntegrityError e = blockIntegrityError"

fun CheckSerialized :: "lib \<Rightarrow> manifest option list \<Rightarrow> bool res" where
  "CheckSerialized L [] = Panic"
| "CheckSerialized L [m] = bind_res (checkIsValid L m) (\<lambda>_. Ok True)"
| "CheckSerialized L (m # n # ms) =
     bind_res (checkIsValid L m) (\<lambda>_.
       case m of None \<Rightarrow> Panic
       | Some c \<Rightarrow> bind_res (map_err NewBlockIntegrityError (checkPreviousBlock c n)) (\<lambda>_. CheckSerialized L (n # ms)))"

section \<open>Lemmas\<close>

lemma Manifest_IsValid_parts:
  assumes "Manifest_IsValid L m = Ok ()"
  obtains h p b bs where "mf_h m = Some h" "mf_proposal m = Some p" "mf_previousBlock m = Some b" "Manifest_bytes m = Ok bs"
    "Hash_Bytes h = sha3_Sum256 L bs"
  using assms
  by (auto simp: Manifest_IsValid_def Manifest_GenerateHash_def bind_res_Ok_iff Hash_Equal_def NewSHA256_def split: if_splits)

lemma Manifest_bytes_prefix:
  assumes "Manifest_bytes m = Ok bs" and "mf_proposal m = Some p" and "mf_previousBlock m = Some b"
    and "length (Hash_Bytes p) = 32" and "length (Hash_Bytes b) = 32"
  shows "take 80 bs = Height_Bytes (mf_height m) @ Round_Bytes (mf_round m) @ Hash_Bytes p @ Hash_Bytes b"
  using assms by (auto simp: Manifest_bytes_def of_hash_def Round_Bytes_def)

definition chained :: "manifest \<Rightarrow> manifest \<Rightarrow> bool" where
  "chained cur nxt \<longleftrightarrow> mf_height nxt = i64 (mf_height cur + 1) \<and>
     (\<exists>p h. mf_previousBlock nxt = Some p \<and> mf_h cur = Some h \<and> Hash_Bytes p = Hash_Bytes h)"

lemma checkPreviousBlock_Ok: "checkPreviousBlock c (Some n) = Ok () \<longleftrightarrow> chained c n"
  by (auto simp: checkPreviousBlock_def chained_def bind_res_Ok_iff Hash_Equal_def)

lemma CheckSerialized_Ok:
  "CheckSerialized L (map Some ms) = Ok True \<longleftrightarrow> ms \<noteq> [] \<and> (\<forall>m \<in> set ms. Manifest_IsValid L m = Ok ()) \<and>
     (\<forall>i. Suc i < length ms \<longrightarrow> chained (ms ! i) (ms ! Suc i))"
proof (induction ms)
  case (Cons m ms)
  show ?case
  proof (cases ms)
    case (Cons n ns)
    have "(\<forall>i. Suc i < length (m # ms) \<longrightarrow> chained ((m # ms) ! i) ((m # ms) ! Suc i)) \<longleftrightarrow>
        chained m n \<and> (\<forall>i. Suc i < length ms \<longrightarrow> chained (ms ! i) (ms ! Suc i))"
      unfolding Cons by (auto simp: nth_Cons split: nat.splits)
    then show ?thesis using Cons Cons.IH
      by (auto simp: bind_res_Ok_iff checkIsValid_def checkPreviousBlock_Ok)
  qed (auto simp: bind_res_Ok_iff checkIsValid_def)
qed simp

lemma CheckSerialized_None: "CheckSerialized L ms = Ok b \<Longrightarrow> b \<and> (\<exists>ns. ms = map Some ns)"
proof (induction L ms rule: CheckSerialized.induct)
  case (2 L m)
  then show ?case by (cases m) (auto simp: checkIsValid_def bind_res_Ok_iff intro: exI [of _ "[the m]"])
next
  case (3 L m n ms)
  from "3.prems" obtain c where c: "m = Some c" "checkIsValid L m = Ok ()" "checkPreviousBlock c n = Ok ()" "CheckSerialized L (n # ms) = Ok b"
    by (cases m) (auto simp: checkIsValid_def bind_res_Ok_iff)
  note ih = "3.IH" [OF c(1,4)]
  from ih have "\<exists>ns. n # ms = map Some ns" by (rule conjunct2)
  then have "\<exists>ns. m # n # ms = map Some ns"
  proof
    fix ns assume "n # ms = map Some ns"
    then have "m # n # ms = map Some (c # ns)" using c(1) by simp
    then show ?thesis by (rule exI)
  qed
  with ih show ?case by simp
qed simp

text \<open>The byte strings digested in a run, and the runs whose hashes have the length of SHA-256.\<close>

definition manifest_preimages :: "manifest list \<Rightarrow> bytes set" where
  "manifest_preimages ms = {bs. \<exists>m \<in> set ms. Manifest_bytes m = Ok bs}"

definition sha_sized :: "manifest \<Rightarrow> bool" where
  "sha_sized m \<longleftrightarrow> (\<forall>p. mf_proposal m = Some p \<longrightarrow> length (Hash_Bytes p) = 32) \<and>
     (\<forall>b. mf_previousBlock m = Some b \<longrightarrow> length (Hash_Bytes b) = 32) \<and> is_i64 (mf_height m)"

definition same_header :: "manifest \<Rightarrow> manifest \<Rightarrow> bool" where
  "same_header m n \<longleftrightarrow> mf_height m = mf_height n \<and> mf_round m = mf_round n \<and>
     map_option Hash_Bytes (mf_h m) = map_option Hash_Bytes (mf_h n) \<and>
     map_option Hash_Bytes (mf_proposal m) = map_option Hash_Bytes (mf_proposal n) \<and>
     map_option Hash_Bytes (mf_previousBlock m) = map_option Hash_Bytes (mf_previousBlock n)"

lemma same_hash_same_header:
  assumes "Manifest_IsValid L m = Ok ()" and "Manifest_IsValid L n = Ok ()" and "sha_sized m" and "sha_sized n"
    and "map_option Hash_Bytes (mf_h m) = map_option Hash_Bytes (mf_h n)"
    and "inj_on (sha3_Sum256 L) S" and "\<forall>bs. Manifest_bytes m = Ok bs \<longrightarrow> bs \<in> S" and "\<forall>bs. Manifest_bytes n = Ok bs \<longrightarrow> bs \<in> S"
  shows "same_header m n"
proof -
  obtain h p b bs where m: "mf_h m = Some h" "mf_proposal m = Some p" "mf_previousBlock m = Some b" "Manifest_bytes m = Ok bs"
    "Hash_Bytes h = sha3_Sum256 L bs" using Manifest_IsValid_parts [OF assms(1)] by blast
  obtain h' p' b' bs' where n: "mf_h n = Some h'" "mf_proposal n = Some p'" "mf_previousBlock n = Some b'" "Manifest_bytes n = Ok bs'"
    "Hash_Bytes h' = sha3_Sum256 L bs'" using Manifest_IsValid_parts [OF assms(2)] by blast
  have "bs = bs'" using assms(5-8) m n by (auto dest: inj_onD)
  moreover have l: "length (Hash_Bytes p) = 32" "length (Hash_Bytes b) = 32" "length (Hash_Bytes p') = 32" "length (Hash_Bytes b') = 32"
    using assms(3,4) m n by (simp_all add: sha_sized_def)
  ultimately have "Height_Bytes (mf_height m) @ Round_Bytes (mf_round m) @ Hash_Bytes p @ Hash_Bytes b =
      Height_Bytes (mf_height n) @ Round_Bytes (mf_round n) @ Hash_Bytes p' @ Hash_Bytes b'"
    using Manifest_bytes_prefix [OF m(4,2,3) l(1,2)] Manifest_bytes_prefix [OF n(4,2,3) l(3,4)] by simp
  then have "mf_height m = mf_height n \<and> mf_round m = mf_round n \<and> Hash_Bytes p = Hash_Bytes p' \<and> Hash_Bytes b = Hash_Bytes b'"
    using l assms(3,4) by (auto simp: append_eq_append_conv Round_Bytes_def Height_Bytes_def sha_sized_def Int64ToBytes_inject)
  then show ?thesis using m n assms(5) by (simp add: same_header_def)
qed

lemma chain_back:
  assumes "CheckSerialized L (map Some ms) = Ok True" and "CheckSerialized L (map Some ns) = Ok True" and "length ms = length ns"
    and "\<forall>m \<in> set ms \<union> set ns. sha_sized m" and "inj_on (sha3_Sum256 L) (manifest_preimages (ms @ ns))"
    and "map_option Hash_Bytes (mf_h (last ms)) = map_option Hash_Bytes (mf_h (last ns))"
  shows "d < length ms \<Longrightarrow> i = length ms - Suc d \<Longrightarrow> same_header (ms ! i) (ns ! i)"
proof (induction d arbitrary: i)
  note M = assms(1) [unfolded CheckSerialized_Ok] and N = assms(2) [unfolded CheckSerialized_Ok]
  have step: "same_header (ms ! i) (ns ! i)"
    if "i < length ms" "map_option Hash_Bytes (mf_h (ms ! i)) = map_option Hash_Bytes (mf_h (ns ! i))" for i
  proof -
    have mem: "ms ! i \<in> set ms" "ns ! i \<in> set ns" using that(1) assms(3) by simp_all
    show ?thesis
      by (rule same_hash_same_header [OF _ _ _ _ that(2) assms(5)]) (use M N mem assms(4) in \<open>auto simp: manifest_preimages_def\<close>)
  qed
  {
    case 0
    then show ?case using step [of i] assms(3,6) M N by (simp add: last_conv_nth)
  next
    case (Suc d)
    then have i: "i < length ms" "Suc i < length ms" "Suc i = length ms - Suc d" by auto
    have "same_header (ms ! Suc i) (ns ! Suc i)" using Suc.IH [OF _ i(3)] Suc.prems by simp
    moreover have "chained (ms ! i) (ms ! Suc i)" "chained (ns ! i) (ns ! Suc i)" using M N i(2) assms(3) by simp_all
    ultimately show ?case by (intro step [OF i(1)]) (auto simp: same_header_def chained_def)
  }
qed

lemmas block_setters = Block_SetOperations_def Block_SetOperationsTree_def Block_SetStates_def Block_SetStatesTree_def

lemma block_tree_check_root:
  assumes "block_tree_check h n tr e1 e2 = Ok ()" and "FixedTree_Root tr' = FixedTree_Root tr" and "0 < FixedTree_Len tr'"
  shows "block_tree_check h False tr' e1 e2 = Ok ()"
  using assms by (auto simp: block_tree_check_def split: option.splits if_splits)

section \<open>Properties\<close>

text \<open>
  C32: \<open>CheckSerialized\<close> accepts a list of manifests exactly when it is not empty, every manifest is valid and each next one has the
  following height and names the hash of the one before as its previous block.
\<close>

theorem manifests_check_exact:
  "CheckSerialized L ms = Ok b \<longleftrightarrow> b \<and> (\<exists>ns. ms = map Some ns \<and> ns \<noteq> [] \<and> (\<forall>m \<in> set ns. Manifest_IsValid L m = Ok ()) \<and>
     (\<forall>i. Suc i < length ns \<longrightarrow> chained (ns ! i) (ns ! Suc i)))"
proof
  assume "CheckSerialized L ms = Ok b"
  with CheckSerialized_None [OF this] show "b \<and> (\<exists>ns. ms = map Some ns \<and> ns \<noteq> [] \<and> (\<forall>m \<in> set ns. Manifest_IsValid L m = Ok ()) \<and>
     (\<forall>i. Suc i < length ns \<longrightarrow> chained (ns ! i) (ns ! Suc i)))"
    using CheckSerialized_Ok by auto
next
  assume "b \<and> (\<exists>ns. ms = map Some ns \<and> ns \<noteq> [] \<and> (\<forall>m \<in> set ns. Manifest_IsValid L m = Ok ()) \<and>
     (\<forall>i. Suc i < length ns \<longrightarrow> chained (ns ! i) (ns ! Suc i)))"
  then show "CheckSerialized L ms = Ok b" using CheckSerialized_Ok by auto
qed


text \<open>
  \<open>BlockV0.IsValid\<close> does not look at the operations and states a block carries: a valid block stays valid when its operations, its
  states and every node of its trees below the root are replaced, as long as the root nodes keep their hash.
\<close>

theorem block_contents_unchecked:
  assumes "Block_IsValid L order bm nid = Ok ()" and "FixedTree_Root tr = FixedTree_Root (bk_operationsTree bm)" and "0 < FixedTree_Len tr"
    and "FixedTree_Root tr' = FixedTree_Root (bk_statesTree bm)" and "0 < FixedTree_Len tr'"
  shows "Block_IsValid L order (Block_SetOperations (Some ops) (Block_SetOperationsTree tr
    (Block_SetStates (Some sts) (Block_SetStatesTree tr' bm)))) nid = Ok ()"
proof -
  let ?b = "Block_SetOperations (Some ops) (Block_SetOperationsTree tr (Block_SetStates (Some sts) (Block_SetStatesTree tr' bm)))"
  have same: "bk_ht ?b = bk_ht bm" "bk_manifest ?b = bk_manifest bm" "bk_ci ?b = bk_ci bm" "Block_checkProposal ?b = Block_checkProposal bm"
    by (simp_all add: block_setters Block_checkProposal_def)
  have "Block_checkOperations bm = Ok ()" "Block_checkStates bm = Ok ()" using assms(1) unfolding Block_IsValid_def Let_def seq_Ok_iff by simp_all
  then have "Block_checkOperations ?b = Ok ()" "Block_checkStates ?b = Ok ()"
    unfolding Block_checkOperations_def Block_checkStates_def
    using block_tree_check_root [OF _ assms(2,3)] block_tree_check_root [OF _ assms(4,5)] by (simp_all add: block_setters)
  with assms(1) show ?thesis unfolding Block_IsValid_def Let_def seq_Ok_iff same by simp
qed

text \<open>
  The hash of a block data map does not cover the block it belongs to: a valid map stays valid with any other valid block hash and
  any other writer.
\<close>

theorem blockdatamap_block_unbound:
  assumes "BlockdataMap_IsValid L bd = Ok ()" and "Hash_IsValid b = Ok ()"
  shows "BlockdataMap_IsValid L (BlockdataMap_SetBlock bd (Some b)\<lparr>bd_writerHint := w\<rparr>) = Ok ()"
  using assms
  by (auto simp: BlockdataMap_IsValid_def BlockdataMap_SetBlock_def BlockdataMap_IsReadyToHash_def BlockdataMap_GenerateHash_def
      all_local_or_not_def bd_lookup_def bind_res_Ok_iff split: if_splits)

subsection \<open>Witnesses\<close>

lemma block_hints_valid:
  assumes "semver_IsValid L ''v0.0.1''"
  shows "Hint_IsValid L ManifestV0Hint = Ok ()" "Hint_IsValid L BlockV0Hint = Ok ()"
proof -
  have "Type_IsValid ''block-manifest'' = Ok ()" "Type_IsValid ''block'' = Ok ()" by code_simp+
  with assms show "Hint_IsValid L ManifestV0Hint = Ok ()" "Hint_IsValid L BlockV0Hint = Ok ()"
    by (simp_all add: ManifestV0Hint_def BlockV0Hint_def std_hint_valid)
qed

lemma NewBlockV0_manifest:
  assumes "semver_IsValid L ''v0.0.1''" and "sha3_shape L" and "Height_IsValid h = Ok ()" and "Hash_IsValid p = Ok ()" and "Hash_IsValid b = Ok ()"
    and "\<not> time_IsZero t" and "st = None \<or> (\<exists>s. st = Some s \<and> Hash_IsValid s = Ok ())"
  shows "\<exists>m. NewBlockV0 L now si h r (Some p) (Some b) None st t = Ok \<lparr>bk_ht = BlockV0Hint, bk_manifest = m,
      bk_operationsTree = emptyFixedTree, bk_operations = None, bk_statesTree = emptyFixedTree, bk_states = None,
      bk_ci = \<lparr>ci_ht = BlockConsensusInfoV0Hint, ci_initVoteproof = None, ci_acceptVoteproof = None, ci_suffrageInfo = Some si, ci_sfs = None\<rparr>\<rparr> \<and>
    Manifest_IsValid L m = Ok () \<and> mf_height m = h \<and> mf_proposal m = Some p \<and> mf_previousBlock m = Some b \<and> mf_operationsHash m = None \<and>
    mf_statesHash m = st \<and> mf_h m = Some (NewSHA256 L (ok_val (Manifest_bytes m))) \<and>
    ok_val (Manifest_bytes m) = Height_Bytes h @ Round_Bytes r @ Hash_Bytes p @ Hash_Bytes b @ opt_bytes None @ opt_bytes st @ Time_Bytes t"
proof -
  let ?m = "\<lparr>mf_ht = ManifestV0Hint, mf_h = None, mf_height = h, mf_round = r, mf_proposal = Some p, mf_previousBlock = Some b,
    mf_operationsHash = None, mf_statesHash = st, mf_confirmedAt = t, mf_createdAt = now\<rparr>"
  let ?b = "Height_Bytes h @ Round_Bytes r @ Hash_Bytes p @ Hash_Bytes b @ opt_bytes None @ opt_bytes st @ Time_Bytes t"
  have b: "Manifest_bytes ?m = Ok ?b" "Manifest_bytes (?m\<lparr>mf_h := Some (NewSHA256 L ?b)\<rparr>) = Ok ?b"
    by (simp_all add: Manifest_bytes_def of_hash_def)
  note i = block_hints_valid(1) [OF assms(1)]
  have hv: "Hash_IsValid (NewSHA256 L ?b) = Ok ()" using assms(2) by (simp add: NewSHA256_def sha3_shape_def)
  have "Manifest_IsValid L (?m\<lparr>mf_h := Some (NewSHA256 L ?b)\<rparr>) = Ok ()"
    using assms(3-7) i hv unfolding Manifest_IsValid_def Manifest_GenerateHash_def b(2)
    by (auto simp: isvalid_Check_def of_hash_def Hash_Equal_def)
  then show ?thesis using b unfolding NewBlockV0_def Let_def Manifest_GenerateHash_def by simp
qed

definition sample_manifest :: "gotime \<Rightarrow> height \<Rightarrow> hash \<Rightarrow> hash option \<Rightarrow> blockv0" where
  "sample_manifest now h prev st = ok_val (NewBlockV0 sample_lib now (NewSuffrageInfoV0 (NewStringAddress ''node0'') []) h 0
     (Some (NewBytes (replicate 32 5))) (Some prev) None st 10)"

definition sample_preimage :: "height \<Rightarrow> bytes \<Rightarrow> bytes" where
  "sample_preimage h prev = Height_Bytes h @ Round_Bytes 0 @ replicate 32 5 @ prev @ Time_Bytes 10"

lemma sample_manifest_ok:
  assumes "Height_IsValid h = Ok ()" and "Hash_IsValid prev = Ok ()"
  shows "\<exists>m. bk_manifest (sample_manifest now h prev None) = m \<and> Manifest_IsValid sample_lib m = Ok () \<and> mf_height m = h \<and>
    mf_proposal m = Some (NewBytes (replicate 32 5)) \<and> mf_previousBlock m = Some prev \<and>
    mf_h m = Some (NewSHA256 sample_lib (sample_preimage h (Hash_Bytes prev))) \<and> ok_val (Manifest_bytes m) = sample_preimage h (Hash_Bytes prev)"
proof -
  have p: "Hash_IsValid (NewBytes (replicate 32 5)) = Ok ()" "\<not> time_IsZero 10" by code_simp+
  from NewBlockV0_manifest [OF sample_version sample_sha3_shape assms(1) p(1) assms(2) p(2),
      where st = None and now = now and r = 0 and si = "NewSuffrageInfoV0 (NewStringAddress ''node0'') []"] obtain m
    where m: "sample_manifest now h prev None = \<lparr>bk_ht = BlockV0Hint, bk_manifest = m,
        bk_operationsTree = emptyFixedTree, bk_operations = None, bk_statesTree = emptyFixedTree, bk_states = None,
        bk_ci = \<lparr>ci_ht = BlockConsensusInfoV0Hint, ci_initVoteproof = None, ci_acceptVoteproof = None,
          ci_suffrageInfo = Some (NewSuffrageInfoV0 (NewStringAddress ''node0'') []), ci_sfs = None\<rparr>\<rparr>"
      "Manifest_IsValid sample_lib m = Ok ()" "mf_height m = h" "mf_proposal m = Some (NewBytes (replicate 32 5))" "mf_previousBlock m = Some prev"
      "mf_h m = Some (NewSHA256 sample_lib (ok_val (Manifest_bytes m)))" "ok_val (Manifest_bytes m) = sample_preimage h (Hash_Bytes prev)"
    unfolding sample_manifest_def by (auto simp: sample_preimage_def NewBytes_def opt_bytes_def)
  then show ?thesis by simp
qed

definition sample_chain :: "gotime \<Rightarrow> manifest list" where
  "sample_chain now =
     (let a = bk_manifest (sample_manifest now 3 (NewBytes (replicate 32 6)) None)
      in [a, bk_manifest (sample_manifest now 4 (the (mf_h a)) None)])"

lemma sample_chain_parts:
  "\<exists>m0 m1. sample_chain now = [m0, m1] \<and> Manifest_IsValid sample_lib m0 = Ok () \<and> Manifest_IsValid sample_lib m1 = Ok () \<and> chained m0 m1 \<and>
     sha_sized m0 \<and> sha_sized m1 \<and> ok_val (Manifest_bytes m0) = sample_preimage 3 (replicate 32 6) \<and>
     (let b = sample_preimage 4 (sha3_Sum256 sample_lib (sample_preimage 3 (replicate 32 6)))
      in ok_val (Manifest_bytes m1) = b \<and> mf_h m1 = Some (NewSHA256 sample_lib b))"
proof -
  have v: "Hash_IsValid (NewBytes (replicate 32 6)) = Ok ()" "Height_IsValid 3 = Ok ()" "Height_IsValid 4 = Ok ()" by code_simp+
  obtain m0 where m0: "bk_manifest (sample_manifest now 3 (NewBytes (replicate 32 6)) None) = m0" "Manifest_IsValid sample_lib m0 = Ok ()"
    "mf_height m0 = 3" "mf_proposal m0 = Some (NewBytes (replicate 32 5))" "mf_previousBlock m0 = Some (NewBytes (replicate 32 6))"
    "mf_h m0 = Some (NewSHA256 sample_lib (sample_preimage 3 (replicate 32 6)))" "ok_val (Manifest_bytes m0) = sample_preimage 3 (replicate 32 6)"
    using sample_manifest_ok [OF v(2,1)] by (auto simp: NewBytes_def)
  let ?h = "NewSHA256 sample_lib (sample_preimage 3 (replicate 32 6))"
  have l: "length (Hash_Bytes ?h) = 32" "Hash_IsValid ?h = Ok ()" "Hash_Bytes ?h = sha3_Sum256 sample_lib (sample_preimage 3 (replicate 32 6))"
    using sample_sha3_shape by (simp_all add: NewSHA256_def sha3_shape_def)
  obtain m1 where m1: "bk_manifest (sample_manifest now 4 ?h None) = m1" "Manifest_IsValid sample_lib m1 = Ok ()"
    "mf_height m1 = 4" "mf_proposal m1 = Some (NewBytes (replicate 32 5))" "mf_previousBlock m1 = Some ?h"
    "mf_h m1 = Some (NewSHA256 sample_lib (sample_preimage 4 (Hash_Bytes ?h)))" "ok_val (Manifest_bytes m1) = sample_preimage 4 (Hash_Bytes ?h)"
    using sample_manifest_ok [OF v(3) l(2)] by auto
  have "sample_chain now = [m0, m1]" using m0(1,6) m1(1) by (simp add: sample_chain_def)
  moreover have "chained m0 m1" using m0 m1 by (simp add: chained_def i64_def)
  moreover have "sha_sized m0" "sha_sized m1" using m0 m1 l by (simp_all add: sha_sized_def is_i64_def NewBytes_def)
  ultimately show ?thesis using m0 m1 l(3) by (simp add: Let_def)
qed

lemma sample_chain_ok: "CheckSerialized sample_lib (map Some (sample_chain now)) = Ok True" "\<forall>m \<in> set (sample_chain now). sha_sized m"
  using sample_chain_parts [of now] unfolding CheckSerialized_Ok by auto

lemma sample_chain_inj: "inj_on (sha3_Sum256 sample_lib) (manifest_preimages (sample_chain 20 @ sample_chain 30))"
proof -
  have pre: "manifest_preimages ms \<subseteq> ok_val ` Manifest_bytes ` set ms" for ms
    by (force simp: manifest_preimages_def)
  let ?b0 = "sample_preimage 3 (replicate 32 6)" and ?b1 = "sample_preimage 4 (sha3_Sum256 sample_lib (sample_preimage 3 (replicate 32 6)))"
  have "manifest_preimages (sample_chain 20 @ sample_chain 30) \<subseteq> {?b0, ?b1}"
    using pre [of "sample_chain 20 @ sample_chain 30"] sample_chain_parts [of 20] sample_chain_parts [of 30] by (auto simp: Let_def)
  moreover have "take 8 (sha3_Sum256 sample_lib (sample_preimage h p)) = Height_Bytes h" for h p
    by (simp add: sample_lib_def sample_preimage_def)
  moreover have "Height_Bytes 3 \<noteq> Height_Bytes 4" by code_simp
  ultimately have "sha3_Sum256 sample_lib ?b0 \<noteq> sha3_Sum256 sample_lib ?b1" by metis
  then have "inj_on (sha3_Sum256 sample_lib) {?b0, ?b1}" by (auto simp: inj_on_def)
  then show ?thesis using \<open>manifest_preimages (sample_chain 20 @ sample_chain 30) \<subseteq> {?b0, ?b1}\<close> by (rule inj_on_subset)
qed

theorem manifests_check_exact_witness:
  "CheckSerialized sample_lib (map Some (sample_chain 20)) = Ok True \<and> chained (sample_chain 20 ! 0) (sample_chain 20 ! 1)"
proof -
  have "length (sample_chain 20) = 2" using sample_chain_parts [of 20] by (auto simp: Let_def)
  moreover have "\<forall>i. Suc i < length (sample_chain 20) \<longrightarrow> chained (sample_chain 20 ! i) (sample_chain 20 ! Suc i)"
    using iffD1 [OF manifests_check_exact sample_chain_ok(1)] by (auto simp: inj_map_eq_map)
  ultimately show ?thesis using sample_chain_ok(1) by simp
qed


definition sample_optree :: optree where
  "sample_optree = \<lparr>tr_ht = FixedTreeHint, tr_nodes = [Some (NewOperationFixedTreeNodeWithHash 0 [3] [4] True None)]\<rparr>"

definition sample_block :: blockv0 where
  "sample_block =
     (let b = sample_manifest 20 PreGenesisHeight (NewBytes (replicate 32 6)) (Some (NewBytes (ok_val (FixedTree_Root sample_tree))))
      in Block_SetStates (Some []) (Block_SetStatesTree sample_tree (Block_SetOperationsTree sample_optree b)))"

theorem block_contents_unchecked_witness:
  "Block_IsValid sample_lib (\<lambda>xs. xs) sample_block [1] = Ok () \<and>
   Block_IsValid sample_lib (\<lambda>xs. xs) (Block_SetOperations (Some [sample_op [sample_sign 9 20]]) (Block_SetOperationsTree sample_optree
     (Block_SetStates (Some [sample_state 9]) (Block_SetStatesTree \<lparr>tr_ht = FixedTreeHint, tr_nodes = [tr_nodes sample_tree ! 0]\<rparr> sample_block)))) [1] = Ok ()"
proof -
  let ?r = "NewBytes (ok_val (FixedTree_Root sample_tree))"
  have k: "Hash_IsValid ?r = Ok ()" "\<not> Hash_IsEmpty ?r" "is_Ok (FixedTree_Root sample_tree)" "Hash_IsValid (NewBytes (replicate 32 6)) = Ok ()"
    "Height_IsValid PreGenesisHeight = Ok ()" "Hash_IsValid (NewBytes (replicate 32 5)) = Ok ()" "\<not> time_IsZero 10" by code_simp+
  have s: "FixedTree_Root sample_optree = FixedTree_Root (bk_operationsTree sample_block)" "0 < FixedTree_Len sample_optree"
      "FixedTree_Root \<lparr>tr_ht = FixedTreeHint, tr_nodes = [tr_nodes sample_tree ! 0]\<rparr> = FixedTree_Root (bk_statesTree sample_block)"
      "0 < FixedTree_Len \<lparr>tr_ht = FixedTreeHint, tr_nodes = [tr_nodes sample_tree ! 0]\<rparr>"
    using sample_tree_ok(2) by (simp_all add: sample_block_def block_setters sample_optree_def FixedTree_Root_def FixedTree_Len_def Let_def)
  from NewBlockV0_manifest [OF sample_version sample_sha3_shape k(5) k(6) k(4) k(7),
      where st = "Some ?r" and now = 20 and r = 0 and si = "NewSuffrageInfoV0 (NewStringAddress ''node0'') []"] k(1)
  obtain m where m: "sample_manifest 20 PreGenesisHeight (NewBytes (replicate 32 6)) (Some ?r) =
      \<lparr>bk_ht = BlockV0Hint, bk_manifest = m, bk_operationsTree = emptyFixedTree, bk_operations = None, bk_statesTree = emptyFixedTree, bk_states = None,
       bk_ci = \<lparr>ci_ht = BlockConsensusInfoV0Hint, ci_initVoteproof = None, ci_acceptVoteproof = None,
         ci_suffrageInfo = Some (NewSuffrageInfoV0 (NewStringAddress ''node0'') []), ci_sfs = None\<rparr>\<rparr>"
    "Manifest_IsValid sample_lib m = Ok ()" "mf_height m = PreGenesisHeight" "mf_operationsHash m = None" "mf_statesHash m = Some ?r"
    unfolding sample_manifest_def by auto
  have f: "bk_ht sample_block = BlockV0Hint" "bk_manifest sample_block = m" "Block_checkOperations sample_block = Ok ()"
    "Block_checkProposal sample_block = Ok ()" "bk_statesTree sample_block = sample_tree" "bk_states sample_block = Some []"
    using m by (simp_all add: sample_block_def block_setters Block_checkOperations_def Block_checkProposal_def block_tree_check_def Let_def split: option.splits)
  have "Block_checkStates sample_block = Ok ()"
    using k(2,3) sample_tree_ok(2) unfolding Block_checkStates_def f m(5) block_tree_check_def
    by (auto simp: FixedTree_Len_def Hash_Equal_def is_Ok_def split: res.splits)
  then have v: "Block_IsValid sample_lib (\<lambda>xs. xs) sample_block [1] = Ok ()"
    using f m(2,3) block_hints_valid(2) [OF sample_version] by (simp add: Block_IsValid_def Let_def bind_res_Ok_iff)
  from block_contents_unchecked [OF v s] v show ?thesis by simp
qed

lemma BlockdataMap_UpdateHash_valid:
  assumes "BlockdataMap_UpdateHash L bd = Ok bd'" and "sha3_shape L" and "all_local_or_not bd"
  shows "BlockdataMap_IsValid L bd' = Ok ()"
proof -
  from assms(1) have r: "BlockdataMap_IsReadyToHash L bd = Ok ()" and bd': "bd' = bd\<lparr>bd_h := Some (BlockdataMap_GenerateHash L bd)\<rparr>"
    by (simp_all add: BlockdataMap_UpdateHash_def bind_res_Ok_iff)
  have "BlockdataMap_IsReadyToHash L bd' = Ok ()" "all_local_or_not bd'" "BlockdataMap_GenerateHash L bd' = BlockdataMap_GenerateHash L bd"
    using r assms(3) unfolding bd' by (simp_all add: BlockdataMap_IsReadyToHash_def all_local_or_not_def BlockdataMap_GenerateHash_def bd_lookup_def)
  moreover have "Hash_IsValid (BlockdataMap_GenerateHash L bd) = Ok ()"
    using assms(2) by (simp add: BlockdataMap_GenerateHash_def NewSHA256_def sha3_shape_def)
  moreover have "Hint_IsValid L (bd_ht bd) = Ok ()" using r by (simp add: BlockdataMap_IsReadyToHash_def bind_res_Ok_iff)
  ultimately show ?thesis by (simp add: BlockdataMap_IsValid_def bd' of_hash_def Hash_Equal_def bind_res_Ok_iff)
qed

definition sample_blockdatamap :: blockdatamap where
  "sample_blockdatamap =
     BlockdataMap_SetBlock ((NewBaseBlockdataMap 20 BaseV0Hint 3)\<lparr>bd_items := map (\<lambda>t. (t, NewBaseBlockdataMapItem t ''c'' ''file:///b'')) Blockdata\<rparr>)
       (Some (NewBytes [6]))"

theorem blockdatamap_block_unbound_witness:
  "\<exists>bd. BlockdataMap_UpdateHash sample_lib sample_blockdatamap = Ok bd \<and> BlockdataMap_IsValid sample_lib bd = Ok () \<and>
     BlockdataMap_IsValid sample_lib (BlockdataMap_SetBlock bd (Some (NewBytes [7]))\<lparr>bd_writerHint := FixedTreeHint\<rparr>) = Ok ()"
proof -
  have "BlockdataMap_IsReadyToHash sample_lib sample_blockdatamap = Ok ()" and l: "all_local_or_not sample_blockdatamap"
    and h: "Hash_IsValid (NewBytes [7]) = Ok ()" by code_simp+
  then obtain bd where bd: "BlockdataMap_UpdateHash sample_lib sample_blockdatamap = Ok bd"
    by (simp add: BlockdataMap_UpdateHash_def)
  note v = BlockdataMap_UpdateHash_valid [OF bd sample_sha3_shape l]
  from blockdatamap_block_unbound [OF v h] bd v show ?thesis by blast
qed

end
