(* ===== verification/Mitum_Leveldb.thy ===== *)
theory Mitum_Leveldb
  imports Mitum_Block
begin

text \<open>
  The LevelDB implementation of \<open>storage.Database\<close> (\<^verbatim>\<open>src/storage/leveldb/base.go\<close>, \<open>session.go\<close>, \<open>syncer.go\<close>, \<open>util.go\<close>) and the look-up of
  encoders (\<^verbatim>\<open>src/util/encoder/encoders.go\<close>). \<open>goleveldb\<close> is a record of functions on an abstract store \<open>'s\<close>; an encoder (JSON or BSON) is a
  record of its \<open>Marshal\<close>, \<open>Decode\<close> and \<open>Unmarshal\<close>; what the database relies on are the predicates \<open>goleveldb\<close> and \<open>encoder_codec\<close>.
  Keys are the exact bytes of the source, \<open>\<open>%020d\<close>\<close> heights included. A ULID (\<open>util.ULIDBytes\<close>) is an argument: the value of the
  n-th call. This theory holds the definitions and the lemmas that turn each operation into one on a map from keys to values.
\<close>

section \<open>Encoders\<close>

text \<open>The values the database stores, by their Go type.\<close>

datatype stored =
    SHash hash | SBlock blockv0 | SManifest manifest | SProposal ballot | SOperation operation | SState statev0
  | SVoteproof voteproof | SBlockdataMap blockdatamap | SOpTree optree | SOther hint

record encoder =
  en_ht :: hint
  en_Marshal :: "stored \<Rightarrow> bytes res"
  en_Decode :: "bytes \<Rightarrow> stored option res"
  en_UnmarshalHash :: "bytes \<Rightarrow> bytes res"

text \<open>
  \<open>Encoders\<close> is a hint set of encoders; a hinter that is not an \<open>Encoder\<close> is \<open>None\<close>. \<open>Get\<close> and \<open>Latest\<close> do not use the look-up
  cache of the hint set.
\<close>

type_synonym encoders = "(encoder option, unit) hintset"

definition Encoders_Encoder :: "encoders \<Rightarrow> hint_type \<Rightarrow> string \<Rightarrow> encoder res" where
  "Encoders_Encoder es ty version =
     bind_res
       (if length version < 1 then Hintset_Latest es ty
        else case Hintset_Get es (NewHint ty version) of
               None \<Rightarrow> Err (Errorf NotFoundError ''encoder, %q not found'')
             | Some i \<Rightarrow> Ok i)
       (\<lambda>h. case snd h of None \<Rightarrow> Err (plain ''not Encoder, %T'') | Some e \<Rightarrow> Ok e)"

section \<open>goleveldb\<close>

datatype batch_op = BPut bytes bytes | BDelete bytes

type_synonym batch = "batch_op list"

text \<open>
  \<open>lv_Iterate s p\<close>: the pairs an iterator over the keys with prefix \<open>p\<close> visits from \<open>First\<close> on, and its \<open>Error\<close> at the end; \<open>Last\<close> and
  \<open>Prev\<close> visit them backwards. \<open>lv_OpenMem\<close> is a store opened on a new memory storage.
\<close>

record 's leveldb =
  lv_Get :: "'s \<Rightarrow> bytes \<Rightarrow> bytes res"
  lv_Has :: "'s \<Rightarrow> bytes \<Rightarrow> bool res"
  lv_Put :: "'s \<Rightarrow> bytes \<Rightarrow> bytes \<Rightarrow> unit res \<times> 's"
  lv_Write :: "'s \<Rightarrow> batch \<Rightarrow> unit res \<times> 's"
  lv_Iterate :: "'s \<Rightarrow> bytes \<Rightarrow> (bytes \<times> bytes) list \<times> goerr option"
  lv_OpenMem :: 's

definition ErrNotFound :: goerr where "ErrNotFound = plain ''leveldb: not found''"

definition MergeStorageError :: "goerr \<Rightarrow> goerr" where
  "MergeStorageError e =
     (if error_Is e FoundError \<or> error_Is e NotFoundError \<or> error_Is e DuplicatedError \<or> error_Is e TimeoutError \<or>
         error_Is e StorageError \<or> error_Is e ConnectionError
      then e else NError_Wrap StorageError e)"

definition mergeError :: "goerr \<Rightarrow> goerr" where
  "mergeError e = (if e = ErrNotFound then NError_Wrap NotFoundError e else MergeStorageError e)"

section \<open>Keys\<close>

definition keyPrefixTmp :: bytes where "keyPrefixTmp = [0x00, 0x00]"
definition keyPrefixBlockHeight :: bytes where "keyPrefixBlockHeight = [0x00, 0x01]"
definition keyPrefixBlockHash :: bytes where "keyPrefixBlockHash = [0x00, 0x02]"
definition keyPrefixManifest :: bytes where "keyPrefixManifest = [0x00, 0x03]"
definition keyPrefixProposal :: bytes where "keyPrefixProposal = [0x00, 0x04]"
definition keyPrefixProposalFacts :: bytes where "keyPrefixProposalFacts = [0x00, 0x05]"
definition keyPrefixBlockOperations :: bytes where "keyPrefixBlockOperations = [0x00, 0x06]"
definition keyPrefixBlockStates :: bytes where "keyPrefixBlockStates = [0x00, 0x07]"
definition keyPrefixState :: bytes where "keyPrefixState = [0x00, 0x08]"
definition keyPrefixOperationFactHash :: bytes where "keyPrefixOperationFactHash = [0x00, 0x09]"
definition keyPrefixManifestHeight :: bytes where "keyPrefixManifestHeight = [0x00, 0x10]"
definition keyPrefixINITVoteproof :: bytes where "keyPrefixINITVoteproof = [0x00, 0x11]"
definition keyPrefixACCEPTVoteproof :: bytes where "keyPrefixACCEPTVoteproof = [0x00, 0x12]"
definition keyPrefixBlockdataMap :: bytes where "keyPrefixBlockdataMap = [0x00, 0x13]"
definition keyPrefixInfo :: bytes where "keyPrefixInfo = [0x00, 0x14]"
definition keyPrefixStagedOperationFactHash :: bytes where "keyPrefixStagedOperationFactHash = [0x00, 0x15]"
definition keyPrefixStagedOperationFactHashReverse :: bytes where "keyPrefixStagedOperationFactHashReverse = [0x00, 0x16]"

lemmas key_prefixes = keyPrefixTmp_def keyPrefixBlockHeight_def keyPrefixBlockHash_def keyPrefixManifest_def keyPrefixProposal_def
  keyPrefixProposalFacts_def keyPrefixBlockOperations_def keyPrefixBlockStates_def keyPrefixState_def keyPrefixOperationFactHash_def
  keyPrefixManifestHeight_def keyPrefixINITVoteproof_def keyPrefixACCEPTVoteproof_def keyPrefixBlockdataMap_def keyPrefixInfo_def
  keyPrefixStagedOperationFactHash_def keyPrefixStagedOperationFactHashReverse_def

text \<open>\<open>fmt.Sprintf("%020d", x)\<close>: the sign counts for the width.\<close>

definition fmt_020d :: "int \<Rightarrow> string" where
  "fmt_020d x =
     (let s = dec_nat (nat \<bar>x\<bar>)
      in if x < 0 then CHR ''-'' # replicate (19 - length s) (CHR ''0'') @ s else replicate (20 - length s) (CHR ''0'') @ s)"

definition height_key :: "bytes \<Rightarrow> height \<Rightarrow> bytes" where
  "height_key prefix h = ConcatBytesSlice [prefix, string_bytes (fmt_020d h)]"

definition leveldbBlockHeightKey :: "height \<Rightarrow> bytes" where
  "leveldbBlockHeightKey h = height_key keyPrefixBlockHeight h"

definition leveldbManifestHeightKey :: "height \<Rightarrow> bytes" where
  "leveldbManifestHeightKey h = height_key keyPrefixManifestHeight h"

definition leveldbBlockHashKey :: "hash \<Rightarrow> bytes" where
  "leveldbBlockHashKey h = ConcatBytesSlice [keyPrefixBlockHash, Hash_Bytes h]"

definition leveldbManifestKey :: "hash \<Rightarrow> bytes" where
  "leveldbManifestKey h = ConcatBytesSlice [keyPrefixManifest, Hash_Bytes h]"

definition leveldbBlockOperationsKey :: "manifest \<Rightarrow> bytes" where
  "leveldbBlockOperationsKey blk = height_key keyPrefixBlockOperations (mf_height blk)"

definition leveldbBlockStatesKey :: "manifest \<Rightarrow> bytes" where
  "leveldbBlockStatesKey blk = height_key keyPrefixBlockStates (mf_height blk)"

definition leveldbStateKey :: "string \<Rightarrow> bytes" where
  "leveldbStateKey key = ConcatBytesSlice [keyPrefixState, string_bytes key]"

definition leveldbOperationFactHashKey :: "hash \<Rightarrow> bytes" where
  "leveldbOperationFactHashKey h = ConcatBytesSlice [keyPrefixOperationFactHash, Hash_Bytes h]"

text \<open>For another stage the key is nil.\<close>

definition leveldbVoteproofKey :: "height \<Rightarrow> stage \<Rightarrow> bytes" where
  "leveldbVoteproofKey h stage =
     (if stage = StageINIT then height_key keyPrefixINITVoteproof h
      else if stage = StageACCEPT then height_key keyPrefixACCEPTVoteproof h else [])"

definition leveldbBlockdataMapKey :: "height \<Rightarrow> bytes" where
  "leveldbBlockdataMapKey h = ConcatBytesSlice [keyPrefixBlockdataMap, Height_Bytes h]"

definition leveldbInfoKey :: "string \<Rightarrow> bytes" where
  "leveldbInfoKey key = ConcatBytesSlice [keyPrefixInfo, string_bytes key]"

definition newStagedOperationKey :: "bytes \<Rightarrow> hash \<Rightarrow> bytes" where
  "newStagedOperationKey ulid h = ConcatBytesSlice [keyPrefixStagedOperationFactHash, ulid, string_bytes ''-'', Hash_Bytes h]"

definition newStagedOperationReverseKey :: "hash \<Rightarrow> bytes" where
  "newStagedOperationReverseKey h = ConcatBytesSlice [keyPrefixStagedOperationFactHashReverse, Hash_Bytes h]"

definition proposalKey :: "hash \<Rightarrow> bytes" where
  "proposalKey h = ConcatBytesSlice [keyPrefixProposal, Hash_Bytes h]"

definition proposalFactsKey :: "height \<Rightarrow> round \<Rightarrow> address \<Rightarrow> bytes" where
  "proposalFactsKey h r p = ConcatBytesSlice [keyPrefixProposalFacts, Height_Bytes h, Round_Bytes r, Address_Bytes p]"

section \<open>The encoder's hint before each value\<close>

definition MaxHintLength :: nat where "MaxHintLength = MaxTypeLength + MaxVersionLength + 1"

definition bytes_string :: "bytes \<Rightarrow> string" where
  "bytes_string b = map (\<lambda>x. char_of (unat x)) b"

definition TrimRight0 :: "bytes \<Rightarrow> bytes" where
  "TrimRight0 b = rev (dropWhile (\<lambda>x. x = 0) (rev b))"

text \<open>A value shorter than the hint is a slice out of range.\<close>

definition loadHint :: "bytes \<Rightarrow> (hint \<times> bytes) res" where
  "loadHint b =
     (if length b < MaxHintLength then Panic
      else bind_res (ParseHint (bytes_string (TrimRight0 (take MaxHintLength b)))) (\<lambda>ht. Ok (ht, drop MaxHintLength b)))"

text \<open>\<open>copy\<close> fills the array of zeros from the left and drops what does not fit.\<close>

definition encodeWithEncoder :: "bytes \<Rightarrow> encoder \<Rightarrow> bytes" where
  "encodeWithEncoder b enc =
     (let hb = Hint_Bytes (en_ht enc); c = min (length hb) MaxHintLength
      in ConcatBytesSlice [take c hb @ replicate (MaxHintLength - c) 0, b])"

definition marshal :: "stored \<Rightarrow> encoder \<Rightarrow> bytes res" where
  "marshal i enc = bind_res (en_Marshal enc i) (\<lambda>b. Ok (encodeWithEncoder b enc))"

section \<open>The database\<close>

record 's database =
  ld_lv :: "'s leveldb"
  ld_db :: 's
  ld_encs :: encoders
  ld_enc :: encoder

definition NewDatabase :: "'s leveldb \<Rightarrow> 's \<Rightarrow> encoders \<Rightarrow> encoder \<Rightarrow> 's database" where
  "NewDatabase lv db encs enc = \<lparr>ld_lv = lv, ld_db = db, ld_encs = encs, ld_enc = enc\<rparr>"

definition NewMemDatabase :: "'s leveldb \<Rightarrow> encoders \<Rightarrow> encoder \<Rightarrow> 's database" where
  "NewMemDatabase lv encs enc = NewDatabase lv (lv_OpenMem lv) encs enc"

definition Database_get :: "'s database \<Rightarrow> bytes \<Rightarrow> bytes res" where
  "Database_get st key = map_err mergeError (lv_Get (ld_lv st) (ld_db st) key)"

definition Database_Write :: "'s database \<Rightarrow> batch \<Rightarrow> unit res \<times> 's database" where
  "Database_Write st b =
     (case lv_Write (ld_lv st) (ld_db st) b of (r, s) \<Rightarrow> (map_err mergeError r, st\<lparr>ld_db := s\<rparr>))"

definition Database_Put :: "'s database \<Rightarrow> bytes \<Rightarrow> bytes \<Rightarrow> unit res \<times> 's database" where
  "Database_Put st k v =
     (case lv_Put (ld_lv st) (ld_db st) k v of (r, s) \<Rightarrow> (map_err mergeError r, st\<lparr>ld_db := s\<rparr>))"

text \<open>
  \<open>iter\<close>: the callback gets key and value and works on a state of its own; an iterator with nothing to visit ends the call before its
  error is looked at.
\<close>

fun iter_loop :: "(bytes \<Rightarrow> bytes \<Rightarrow> 'a \<Rightarrow> bool res \<times> 'a) \<Rightarrow> (bytes \<times> bytes) list \<Rightarrow> goerr option \<Rightarrow> 'a \<Rightarrow> unit res \<times> 'a" where
  "iter_loop cb [] e a = ((case e of None \<Rightarrow> Ok () | Some e \<Rightarrow> Err (mergeError e)), a)"
| "iter_loop cb ((k, v) # es) e a =
     (case cb k v a of
        (Err x, a') \<Rightarrow> (Err x, a')
      | (Panic, a') \<Rightarrow> (Panic, a')
      | (Ok keep, a') \<Rightarrow> (if keep then iter_loop cb es e a' else ((case e of None \<Rightarrow> Ok () | Some e \<Rightarrow> Err (mergeError e)), a')))"

definition Database_iter :: "'s database \<Rightarrow> bytes \<Rightarrow> (bytes \<Rightarrow> bytes \<Rightarrow> 'a \<Rightarrow> bool res \<times> 'a) \<Rightarrow> bool \<Rightarrow> 'a \<Rightarrow> unit res \<times> 'a" where
  "Database_iter st prefix cb srt a =
     (case lv_Iterate (ld_lv st) (ld_db st) prefix of
        (es, e) \<Rightarrow> if es = [] then (Ok (), a) else iter_loop cb (if srt then es else rev es) e a)"

subsection \<open>Loading values\<close>

text \<open>The value of \<open>get\<close> and of an iterator is never a nil slice.\<close>

definition Database_loadHinter :: "'s database \<Rightarrow> bytes \<Rightarrow> stored option res" where
  "Database_loadHinter st b =
     bind_res (loadHint b) (\<lambda>(ht, raw).
     bind_res (Encoders_Encoder (ld_encs st) (hint_ty ht) (hint_v ht)) (\<lambda>enc. en_Decode enc raw))"

definition Database_loadHash :: "'s database \<Rightarrow> bytes \<Rightarrow> hash res" where
  "Database_loadHash st b =
     bind_res (loadHint b) (\<lambda>(ht, raw).
     bind_res (Encoders_Encoder (ld_encs st) (hint_ty ht) (hint_v ht)) (\<lambda>enc.
     bind_res (en_UnmarshalHash enc raw) (\<lambda>h.
       if Bytes_IsEmpty h then Err (plain ''empty hash found'') else Ok (HBytes h))))"

text \<open>A decoded value and the Go type assertion on it; a nil hinter is returned as nil.\<close>

definition load_as :: "(stored \<Rightarrow> 'a option) \<Rightarrow> string \<Rightarrow> 's database \<Rightarrow> bytes \<Rightarrow> 'a option res" where
  "load_as sel msg st b =
     bind_res (Database_loadHinter st b) (\<lambda>h.
       case h of
         None \<Rightarrow> Ok None
       | Some x \<Rightarrow> (case sel x of None \<Rightarrow> Err (plain msg) | Some y \<Rightarrow> Ok (Some y)))"

fun as_block :: "stored \<Rightarrow> blockv0 option" where
  "as_block (SBlock b) = Some b" | "as_block _ = None"

text \<open>A block is a manifest, too.\<close>

fun as_manifest :: "stored \<Rightarrow> manifest option" where
  "as_manifest (SManifest m) = Some m" | "as_manifest (SBlock b) = Some (bk_manifest b)" | "as_manifest _ = None"

fun as_proposal :: "stored \<Rightarrow> ballot option" where
  "as_proposal (SProposal p) = Some p" | "as_proposal _ = None"

fun as_operation :: "stored \<Rightarrow> operation option" where
  "as_operation (SOperation op) = Some op" | "as_operation _ = None"

fun as_state :: "stored \<Rightarrow> statev0 option" where
  "as_state (SState s) = Some s" | "as_state _ = None"

fun as_voteproof :: "stored \<Rightarrow> voteproof option" where
  "as_voteproof (SVoteproof v) = Some v" | "as_voteproof _ = None"

fun as_blockdatamap :: "stored \<Rightarrow> blockdatamap option" where
  "as_blockdatamap (SBlockdataMap bd) = Some bd" | "as_blockdatamap _ = None"

definition Database_loadBlock :: "'s database \<Rightarrow> bytes \<Rightarrow> blockv0 option res" where
  "Database_loadBlock st b = load_as as_block ''not Block: %T'' st b"

definition Database_loadManifest :: "'s database \<Rightarrow> bytes \<Rightarrow> manifest option res" where
  "Database_loadManifest st b = load_as as_manifest ''not Block: %T'' st b"

definition Database_loadProposal :: "'s database \<Rightarrow> bytes \<Rightarrow> ballot option res" where
  "Database_loadProposal st b = load_as as_proposal ''not Proposal: %T'' st b"

definition Database_loadState :: "'s database \<Rightarrow> bytes \<Rightarrow> statev0 option res" where
  "Database_loadState st b = load_as as_state ''not state.State: %T'' st b"

definition Database_loadBlockdataMap :: "'s database \<Rightarrow> bytes \<Rightarrow> blockdatamap option res" where
  "Database_loadBlockdataMap st b = load_as as_blockdatamap ''not block.BlockdataMap: %T'' st b"

definition Database_loadOperation :: "'s database \<Rightarrow> bytes \<Rightarrow> operation option res" where
  "Database_loadOperation st b = load_as as_operation ''not operation.Operation: %T'' st b"

text \<open>
  The common shape of a look-up: \<open>get\<close>, a missing key is \<open>(nil, false, nil)\<close>, then the value is loaded. The pair is the value (\<open>None\<close> for
  nil) and \<open>found\<close>.
\<close>

definition lookup_with :: "'s database \<Rightarrow> bytes \<Rightarrow> (bytes \<Rightarrow> ('a option \<times> bool) res) \<Rightarrow> ('a option \<times> bool) res" where
  "lookup_with st key load =
     (case Database_get st key of
        Err e \<Rightarrow> (if error_Is e NotFoundError then Ok (None, False) else Err e)
      | Panic \<Rightarrow> Panic
      | Ok raw \<Rightarrow> load raw)"

definition loaded :: "'a option res \<Rightarrow> ('a option \<times> bool) res" where
  "loaded r = bind_res r (\<lambda>x. Ok (x, True))"

subsection \<open>Blocks and manifests\<close>

definition Database_Manifest :: "'s database \<Rightarrow> hash \<Rightarrow> (manifest option \<times> bool) res" where
  "Database_Manifest st h = lookup_with st (leveldbManifestKey h) (\<lambda>raw. loaded (Database_loadManifest st raw))"

definition Database_ManifestByHeight :: "'s database \<Rightarrow> height \<Rightarrow> (manifest option \<times> bool) res" where
  "Database_ManifestByHeight st h =
     lookup_with st (leveldbBlockHeightKey h) (\<lambda>raw. bind_res (Database_loadHash st raw) (Database_Manifest st))"

definition Database_block :: "'s database \<Rightarrow> hash \<Rightarrow> (blockv0 option \<times> bool) res" where
  "Database_block st h = lookup_with st (leveldbBlockHashKey h) (\<lambda>raw. loaded (Database_loadBlock st raw))"

definition Database_blockByHeight :: "'s database \<Rightarrow> height \<Rightarrow> (blockv0 option \<times> bool) res" where
  "Database_blockByHeight st h =
     lookup_with st (leveldbBlockHeightKey h) (\<lambda>raw. bind_res (Database_loadHash st raw) (Database_block st))"

text \<open>The callback that keeps the first value it is given.\<close>

definition take_first :: "bytes \<Rightarrow> bytes \<Rightarrow> bytes option \<Rightarrow> bool res \<times> bytes option" where
  "take_first k v raw = (Ok False, Some v)"

definition Database_LastManifest :: "'s database \<Rightarrow> (manifest option \<times> bool) res" where
  "Database_LastManifest st =
     (case Database_iter st keyPrefixManifestHeight take_first False None of
        (Err e, _) \<Rightarrow> Err e
      | (Panic, _) \<Rightarrow> Panic
      | (Ok _, None) \<Rightarrow> Ok (None, False)
      | (Ok _, Some raw) \<Rightarrow> bind_res (Database_loadHash st raw) (Database_Manifest st))"

definition Database_lastBlock :: "'s database \<Rightarrow> (blockv0 option \<times> bool) res" where
  "Database_lastBlock st =
     (case Database_iter st keyPrefixBlockHeight take_first False None of
        (Err e, _) \<Rightarrow> Err e
      | (Panic, _) \<Rightarrow> Panic
      | (Ok _, None) \<Rightarrow> Ok (None, False)
      | (Ok _, Some raw) \<Rightarrow> bind_res (Database_loadHash st raw) (Database_block st))"

text \<open>\<open>Manifests\<close>: the callback's own state is \<open>'a\<close>; \<open>load\<close> is not looked at.\<close>

definition Database_Manifests ::
  "'s database \<Rightarrow> bool \<Rightarrow> bool \<Rightarrow> int \<Rightarrow> (height \<Rightarrow> hash option \<Rightarrow> manifest \<Rightarrow> 'a \<Rightarrow> bool res \<times> 'a) \<Rightarrow> 'a \<Rightarrow> unit res \<times> 'a" where
  "Database_Manifests st load reverse limit cb a =
     (case Database_iter st keyPrefixManifestHeight
        (\<lambda>_ value (counted, a).
           let counted = i64 (counted + 1) in
           case Database_loadManifest st value of
             Err e \<Rightarrow> (Err e, (counted, a))
           | Panic \<Rightarrow> (Panic, (counted, a))
           | Ok None \<Rightarrow> (Panic, (counted, a))
           | Ok (Some m) \<Rightarrow>
               (case cb (mf_height m) (mf_h m) m a of
                  (Err e, a') \<Rightarrow> (Err e, (counted, a'))
                | (Panic, a') \<Rightarrow> (Panic, (counted, a'))
                | (Ok keep, a') \<Rightarrow> (Ok (keep \<and> counted \<noteq> limit), (counted, a'))))
        (\<not> reverse) (0, a) of (r, (_, a')) \<Rightarrow> (r, a'))"

subsection \<open>Cleaning and copying\<close>

definition Database_Clean :: "'s database \<Rightarrow> unit res \<times> 's database" where
  "Database_Clean st =
     (case Database_iter st [] (\<lambda>key _ batch. (Ok True, batch @ [BDelete key])) False [] of
        (Err e, _) \<Rightarrow> (Err e, st)
      | (Panic, _) \<Rightarrow> (Panic, st)
      | (Ok _, batch) \<Rightarrow> Database_Write st batch)"

text \<open>
  The loop of \<open>CleanByHeight\<close> goes up from a height until a manifest is not found; \<open>None\<close> stands for a loop that does not end.
\<close>

partial_function (option) CleanByHeight_loop :: "'s database \<Rightarrow> height \<Rightarrow> batch \<Rightarrow> batch res option" where
  "CleanByHeight_loop st h batch =
     (case Database_ManifestByHeight st h of
        Err e \<Rightarrow> Some (Err e)
      | Panic \<Rightarrow> Some Panic
      | Ok (m, f) \<Rightarrow>
          if \<not> f then Some (Ok batch)
          else case m of
            None \<Rightarrow> Some Panic
          | Some m \<Rightarrow>
              (case mf_h m of
                 None \<Rightarrow> Some Panic
               | Some mh \<Rightarrow>
                   CleanByHeight_loop st (i64 (h + 1))
                     (batch @ [BDelete (leveldbBlockHeightKey h), BDelete (leveldbBlockHashKey mh), BDelete (leveldbManifestHeightKey h),
                       BDelete (leveldbManifestKey mh), BDelete (leveldbBlockOperationsKey m), BDelete (leveldbBlockStatesKey m)])))"

definition Database_CleanByHeight :: "'s database \<Rightarrow> height \<Rightarrow> (unit res \<times> 's database) option" where
  "Database_CleanByHeight st h =
     (if h \<le> PreGenesisHeight then Some (Database_Clean st)
      else map_option (\<lambda>r. case r of Err e \<Rightarrow> (Err e, st) | Panic \<Rightarrow> (Panic, st) | Ok batch \<Rightarrow> Database_Write st batch)
        (CleanByHeight_loop st h []))"

text \<open>\<open>Copy\<close> from another LevelDB database, in batches of 500.\<close>

definition Database_Copy :: "'s database \<Rightarrow> 's database \<Rightarrow> unit res \<times> 's database" where
  "Database_Copy st source =
     (case Database_iter source []
        (\<lambda>key value (st, batch).
           let batch = batch @ [BPut key value] in
           if length batch = 500
           then (case Database_Write st batch of
                   (Err e, st') \<Rightarrow> (Err e, (st', batch)) | (Panic, st') \<Rightarrow> (Panic, (st', batch)) | (Ok _, st') \<Rightarrow> (Ok True, (st', [])))
           else (Ok True, (st, batch)))
        False (st, []) of
        (Err e, (st', _)) \<Rightarrow> (Err e, st')
      | (Panic, (st', _)) \<Rightarrow> (Panic, st')
      | (Ok _, (st', batch)) \<Rightarrow> (if length batch < 1 then (Ok (), st') else Database_Write st' batch))"

subsection \<open>Operations of committed blocks and staged operations\<close>

definition Database_HasOperationFact :: "'s database \<Rightarrow> hash \<Rightarrow> bool res" where
  "Database_HasOperationFact st h = map_err mergeError (lv_Has (ld_lv st) (ld_db st) (leveldbOperationFactHashKey h))"

definition Database_HasStagedOperation :: "'s database \<Rightarrow> hash \<Rightarrow> bool res" where
  "Database_HasStagedOperation st h = map_err mergeError (lv_Has (ld_lv st) (ld_db st) (newStagedOperationReverseKey h))"

text \<open>The closure of \<open>newStagedOperationFilter\<close>, with the texts it has seen as its state.\<close>

definition stagedOperationFilter :: "lib \<Rightarrow> 's database \<Rightarrow> string list \<Rightarrow> hash \<Rightarrow> bool res \<times> string list" where
  "stagedOperationFilter L st inserted h =
     (let k = Hash_String L h in
      if k \<in> set inserted then (Ok False, inserted)
      else case Database_HasOperationFact st h of
        Err e \<Rightarrow> (Err e, inserted)
      | Panic \<Rightarrow> (Panic, inserted)
      | Ok b \<Rightarrow>
          if b then (Ok False, inserted)
          else case Database_HasStagedOperation st h of
            Err e \<Rightarrow> (Err e, inserted)
          | Panic \<Rightarrow> (Panic, inserted)
          | Ok b \<Rightarrow> if b then (Ok False, inserted) else (Ok True, k # inserted))"

definition Database_newOperation :: "'s database \<Rightarrow> bytes \<Rightarrow> batch \<Rightarrow> operation \<Rightarrow> hash \<Rightarrow> batch res" where
  "Database_newOperation st ulid batch op h =
     bind_res (en_Marshal (ld_enc st) (SOperation op)) (\<lambda>raw.
       let k = newStagedOperationKey ulid h
       in Ok (batch @ [BPut k (encodeWithEncoder raw (ld_enc st)), BPut (newStagedOperationReverseKey h) k]))"

text \<open>The loop over operations; \<open>n\<close> counts the ULIDs used.\<close>

fun newOperations ::
  "lib \<Rightarrow> 's database \<Rightarrow> (nat \<Rightarrow> bytes) \<Rightarrow> operation option list \<Rightarrow> nat \<Rightarrow> string list \<Rightarrow> batch \<Rightarrow> (nat \<times> string list \<times> batch) res" where
  "newOperations L st ulid [] n ins batch = Ok (n, ins, batch)"
| "newOperations L st ulid (None # ops) n ins batch = Panic"
| "newOperations L st ulid (Some op # ops) n ins batch =
     bind_res (Operation_FactHash op) (\<lambda>h.
       case stagedOperationFilter L st ins h of
         (Err e, _) \<Rightarrow> Err e
       | (Panic, _) \<Rightarrow> Panic
       | (Ok ok, ins') \<Rightarrow>
           if \<not> ok then newOperations L st ulid ops n ins' batch
           else bind_res (Database_newOperation st (ulid n) batch op h) (\<lambda>batch'. newOperations L st ulid ops (Suc n) ins' batch'))"

definition Database_NewOperations :: "lib \<Rightarrow> (nat \<Rightarrow> bytes) \<Rightarrow> 's database \<Rightarrow> operation option list \<Rightarrow> unit res \<times> 's database" where
  "Database_NewOperations L ulid st ops =
     (case newOperations L st ulid ops 0 [] [] of
        Err e \<Rightarrow> (Err e, st) | Panic \<Rightarrow> (Panic, st) | Ok (_, _, batch) \<Rightarrow> Database_Write st batch)"

fun newOperationSeals ::
  "lib \<Rightarrow> 's database \<Rightarrow> (nat \<Rightarrow> bytes) \<Rightarrow> operation_seal list \<Rightarrow> nat \<Rightarrow> string list \<Rightarrow> batch \<Rightarrow> batch res" where
  "newOperationSeals L st ulid [] n ins batch = Ok batch"
| "newOperationSeals L st ulid (sl # sls) n ins batch =
     bind_res (newOperations L st ulid (os_ops sl) n ins batch) (\<lambda>(n', ins', batch'). newOperationSeals L st ulid sls n' ins' batch')"

definition Database_NewOperationSeals :: "lib \<Rightarrow> (nat \<Rightarrow> bytes) \<Rightarrow> 's database \<Rightarrow> operation_seal list \<Rightarrow> unit res \<times> 's database" where
  "Database_NewOperationSeals L ulid st seals =
     (case newOperationSeals L st ulid seals 0 [] [] of Err e \<Rightarrow> (Err e, st) | Panic \<Rightarrow> (Panic, st) | Ok batch \<Rightarrow> Database_Write st batch)"

fun Database_StagedOperationsByFact :: "'s database \<Rightarrow> hash list \<Rightarrow> operation option list res" where
  "Database_StagedOperationsByFact st [] = Ok []"
| "Database_StagedOperationsByFact st (h # hs) =
     (case Database_get st (newStagedOperationReverseKey h) of
        Err e \<Rightarrow> (if error_Is e NotFoundError then Database_StagedOperationsByFact st hs else Err e)
      | Panic \<Rightarrow> Panic
      | Ok b \<Rightarrow>
          (case Database_get st b of
             Err e \<Rightarrow> (if error_Is e NotFoundError then Database_StagedOperationsByFact st hs else Err e)
           | Panic \<Rightarrow> Panic
           | Ok raw \<Rightarrow>
               bind_res (Database_loadOperation st raw) (\<lambda>op.
               bind_res (Database_StagedOperationsByFact st hs) (\<lambda>ops. Ok (op # ops)))))"

definition Database_StagedOperations :: "'s database \<Rightarrow> (operation option \<Rightarrow> 'a \<Rightarrow> bool res \<times> 'a) \<Rightarrow> bool \<Rightarrow> 'a \<Rightarrow> unit res \<times> 'a" where
  "Database_StagedOperations st cb srt a =
     Database_iter st keyPrefixStagedOperationFactHash
       (\<lambda>_ value a. case Database_loadOperation st value of Err e \<Rightarrow> (Err e, a) | Panic \<Rightarrow> (Panic, a) | Ok op \<Rightarrow> cb op a) srt a"

fun leveldbUnstageOperations :: "'s database \<Rightarrow> batch \<Rightarrow> hash list \<Rightarrow> batch res" where
  "leveldbUnstageOperations st batch [] = Ok batch"
| "leveldbUnstageOperations st batch (h # hs) =
     (let k = newStagedOperationReverseKey h in
      case lv_Has (ld_lv st) (ld_db st) k of
        Err e \<Rightarrow> Err e
      | Panic \<Rightarrow> Panic
      | Ok b \<Rightarrow>
          if \<not> b then leveldbUnstageOperations st batch hs
          else bind_res (Database_get st k) (\<lambda>v. leveldbUnstageOperations st (batch @ [BDelete k, BDelete v]) hs))"

definition Database_UnstagedOperations :: "'s database \<Rightarrow> hash list \<Rightarrow> unit res \<times> 's database" where
  "Database_UnstagedOperations st facts =
     (case leveldbUnstageOperations st [] facts of Err e \<Rightarrow> (Err e, st) | Panic \<Rightarrow> (Panic, st) | Ok batch \<Rightarrow> Database_Write st batch)"

subsection \<open>Proposals\<close>

text \<open>\<open>Proposal.Fact\<close> asserts the type of the raw fact.\<close>

definition Proposal_Fact :: "ballot \<Rightarrow> ballot_fact res" where
  "Proposal_Fact p = (case Ballot_RawFact p of Some f \<Rightarrow> (if is_ProposalFact f then Ok f else Panic) | None \<Rightarrow> Panic)"

definition Database_proposalByKey :: "'s database \<Rightarrow> bytes \<Rightarrow> (ballot option \<times> bool) res" where
  "Database_proposalByKey st key = lookup_with st key (\<lambda>b. loaded (Database_loadProposal st b))"

definition Database_Proposal :: "'s database \<Rightarrow> hash \<Rightarrow> (ballot option \<times> bool) res" where
  "Database_Proposal st h = Database_proposalByKey st (proposalKey h)"

definition Database_ProposalByPoint :: "'s database \<Rightarrow> height \<Rightarrow> round \<Rightarrow> address \<Rightarrow> (ballot option \<times> bool) res" where
  "Database_ProposalByPoint st h r p = lookup_with st (proposalFactsKey h r p) (Database_proposalByKey st)"

definition Database_Proposals :: "'s database \<Rightarrow> (ballot option \<Rightarrow> 'a \<Rightarrow> bool res \<times> 'a) \<Rightarrow> bool \<Rightarrow> 'a \<Rightarrow> unit res \<times> 'a" where
  "Database_Proposals st cb srt a =
     Database_iter st keyPrefixProposal
       (\<lambda>_ value a. case Database_loadProposal st value of Err e \<Rightarrow> (Err e, a) | Panic \<Rightarrow> (Panic, a) | Ok p \<Rightarrow> cb p a) srt a"

definition Database_NewProposal :: "'s database \<Rightarrow> ballot \<Rightarrow> unit res \<times> 's database" where
  "Database_NewProposal st p =
     (case bind_res (Proposal_Fact p) (\<lambda>f. bind_res (of_hash (Fact_Hash f)) (\<lambda>h. Ok (f, h))) of
        Err e \<Rightarrow> (Err e, st)
      | Panic \<Rightarrow> (Panic, st)
      | Ok (f, h) \<Rightarrow>
          if Fact_Stage f \<noteq> StageProposal then (Err (Errorf WrongTypeError ''not proposal SignedBallotFact: %T''), st)
          else let k = proposalKey h in
            case lv_Has (ld_lv st) (ld_db st) k of
              Err e \<Rightarrow> (Err (mergeError e), st)
            | Panic \<Rightarrow> (Panic, st)
            | Ok b \<Rightarrow>
                if b then (Ok (), st)
                else case (en_Marshal (ld_enc st) (SProposal p), proposer f) of
                  (Err e, _) \<Rightarrow> (Err e, st)
                | (Ok raw, Some a) \<Rightarrow>
                    Database_Write st [BPut k (encodeWithEncoder raw (ld_enc st)), BPut (proposalFactsKey (Fact_Height f) (Fact_Round f) a) k]
                | _ \<Rightarrow> (Panic, st))"

subsection \<open>States, information, voteproofs and block data maps\<close>

text \<open>\<open>State\<close> returns \<open>st != nil\<close>, which compares the receiver: what is found at the key is always reported as found, also on an error.\<close>

definition Database_State :: "'s database \<Rightarrow> string \<Rightarrow> (statev0 option \<times> bool) res" where
  "Database_State st key = lookup_with st (leveldbStateKey key) (\<lambda>b. loaded (Database_loadState st b))"

definition Database_NewState :: "'s database \<Rightarrow> statev0 \<Rightarrow> unit res \<times> 's database" where
  "Database_NewState st sta =
     (case marshal (SState sta) (ld_enc st) of
        Err e \<Rightarrow> (Err e, st) | Panic \<Rightarrow> (Panic, st) | Ok b \<Rightarrow> Database_Put st (leveldbStateKey (st_key sta)) b)"

definition Database_SetInfo :: "'s database \<Rightarrow> string \<Rightarrow> bytes \<Rightarrow> unit res \<times> 's database" where
  "Database_SetInfo st key b = Database_Put st (leveldbInfoKey key) b"

definition Database_Info :: "'s database \<Rightarrow> string \<Rightarrow> (bytes option \<times> bool) res" where
  "Database_Info st key = lookup_with st (leveldbInfoKey key) (\<lambda>b. Ok (Some b, True))"

definition Database_LastVoteproof :: "'s database \<Rightarrow> stage \<Rightarrow> voteproof option res" where
  "Database_LastVoteproof st stage =
     (if stage \<noteq> StageINIT \<and> stage \<noteq> StageACCEPT then Ok None
      else
        case Database_iter st (if stage = StageINIT then keyPrefixINITVoteproof else keyPrefixACCEPTVoteproof) take_first False None of
          (Err e, _) \<Rightarrow> Ok None
        | (Panic, _) \<Rightarrow> Panic
        | (Ok _, None) \<Rightarrow> Ok None
        | (Ok _, Some raw) \<Rightarrow>
            (case Database_loadHinter st raw of
               Err e \<Rightarrow> Ok None | Panic \<Rightarrow> Panic | Ok h \<Rightarrow> Ok (Option.bind h as_voteproof)))"

definition Database_Voteproof :: "'s database \<Rightarrow> height \<Rightarrow> stage \<Rightarrow> voteproof res" where
  "Database_Voteproof st h stage =
     bind_res (Database_get st (leveldbVoteproofKey h stage)) (\<lambda>raw.
     bind_res (Database_loadHinter st raw) (\<lambda>x.
       case Option.bind x as_voteproof of None \<Rightarrow> Err (plain ''wrong voteproof, not %t'') | Some j \<Rightarrow> Ok j))"

definition Database_BlockdataMap :: "'s database \<Rightarrow> height \<Rightarrow> (blockdatamap option \<times> bool) res" where
  "Database_BlockdataMap st h = lookup_with st (leveldbBlockdataMapKey h) (\<lambda>raw. loaded (Database_loadBlockdataMap st raw))"

fun blockdatamap_batch :: "encoder \<Rightarrow> blockdatamap list \<Rightarrow> batch res" where
  "blockdatamap_batch enc [] = Ok []"
| "blockdatamap_batch enc (bd # bds) =
     bind_res (marshal (SBlockdataMap bd) enc) (\<lambda>b.
     bind_res (blockdatamap_batch enc bds) (\<lambda>bs. Ok (BPut (leveldbBlockdataMapKey (bd_height bd)) b # bs)))"

definition Database_SetBlockdataMaps :: "'s database \<Rightarrow> blockdatamap list \<Rightarrow> unit res \<times> 's database" where
  "Database_SetBlockdataMaps st bds =
     (if length bds < 1 then (Err (plain ''empty BlockdataMaps''), st)
      else case blockdatamap_batch (ld_enc st) bds of Err e \<Rightarrow> (Err e, st) | Panic \<Rightarrow> (Panic, st) | Ok b \<Rightarrow> Database_Write st b)"

definition Database_LocalBlockdataMapsByHeight ::
  "'s database \<Rightarrow> height \<Rightarrow> (blockdatamap \<Rightarrow> 'a \<Rightarrow> bool res \<times> 'a) \<Rightarrow> 'a \<Rightarrow> unit res \<times> 'a" where
  "Database_LocalBlockdataMapsByHeight st h cb a =
     Database_iter st keyPrefixBlockdataMap
       (\<lambda>_ value a.
          case Database_loadBlockdataMap st value of
            Err e \<Rightarrow> (Err e, a)
          | Panic \<Rightarrow> (Panic, a)
          | Ok None \<Rightarrow> (Panic, a)
          | Ok (Some bd) \<Rightarrow>
              if bd_height bd < h then (Ok True, a) else if \<not> BlockdataMap_IsLocal bd then (Ok True, a) else cb bd a)
       True a"

section \<open>Sessions\<close>

text \<open>
  A session collects a batch for one block and writes it on \<open>Commit\<close>; the operations return the session as they leave it, since a failing
  call keeps what it has put into the batch.
\<close>

record session =
  ss_block :: blockv0
  ss_batch :: batch

definition NewSession :: "blockv0 \<Rightarrow> session" where
  "NewSession blk = \<lparr>ss_block = blk, ss_batch = []\<rparr>"

definition Session_put :: "session \<Rightarrow> bytes \<Rightarrow> bytes res \<Rightarrow> unit res \<times> session" where
  "Session_put bst k r =
     (case r of Ok b \<Rightarrow> (Ok (), bst\<lparr>ss_batch := ss_batch bst @ [BPut k b]\<rparr>) | Err e \<Rightarrow> (Err e, bst) | Panic \<Rightarrow> (Panic, bst))"

fun Session_steps :: "(session \<Rightarrow> unit res \<times> session) list \<Rightarrow> session \<Rightarrow> unit res \<times> session" where
  "Session_steps [] bst = (Ok (), bst)"
| "Session_steps (f # fs) bst = (case f bst of (Ok _, bst') \<Rightarrow> Session_steps fs bst' | (r, bst') \<Rightarrow> (r, bst'))"

definition Session_setOperationsTree :: "encoder \<Rightarrow> optree \<Rightarrow> session \<Rightarrow> unit res \<times> session" where
  "Session_setOperationsTree enc tr bst =
     (if FixedTree_Len tr < 1 then (Ok (), bst)
      else case Session_put bst (leveldbBlockOperationsKey (bk_manifest (ss_block bst))) (marshal (SOpTree tr) enc) of
        (Ok _, bst') \<Rightarrow>
          FixedTree_Traverse
            (\<lambda>bst no. case no of
               None \<Rightarrow> (Panic, bst)
             | Some n \<Rightarrow> (Ok True, bst\<lparr>ss_batch := ss_batch bst @ [BPut (leveldbOperationFactHashKey (NewBytes (fn_key n))) []]\<rparr>))
            (tr_nodes tr) bst'
      | (r, bst') \<Rightarrow> (r, bst'))"

definition Session_setStates :: "encoder \<Rightarrow> statev0 list \<Rightarrow> session \<Rightarrow> unit res \<times> session" where
  "Session_setStates enc sts =
     Session_steps (map (\<lambda>s bst. Session_put bst (leveldbStateKey (st_key s)) (marshal (SState s) enc)) sts)"

definition Session_SetACCEPTVoteproof :: "encoder \<Rightarrow> voteproof \<Rightarrow> session \<Rightarrow> unit res \<times> session" where
  "Session_SetACCEPTVoteproof enc vp bst =
     (if vp_stage vp \<noteq> StageACCEPT then (Err (plain ''not accept voteproof, %v''), bst)
      else Session_put bst (leveldbVoteproofKey (vp_height vp) StageACCEPT) (marshal (SVoteproof vp) enc))"

definition Session_setVoteproofs :: "encoder \<Rightarrow> voteproof option \<Rightarrow> voteproof option \<Rightarrow> session \<Rightarrow> unit res \<times> session" where
  "Session_setVoteproofs enc ini acc =
     Session_steps [
       (\<lambda>bst. case ini of None \<Rightarrow> (Ok (), bst)
          | Some vp \<Rightarrow> Session_put bst (leveldbVoteproofKey (vp_height vp) StageINIT) (marshal (SVoteproof vp) enc)),
       (\<lambda>bst. case acc of None \<Rightarrow> (Ok (), bst) | Some vp \<Rightarrow> Session_SetACCEPTVoteproof enc vp bst)]"

definition Session_SetBlock :: "encoder \<Rightarrow> blockv0 \<Rightarrow> session \<Rightarrow> unit res \<times> session" where
  "Session_SetBlock enc blk bst =
     (if mf_height (bk_manifest (ss_block bst)) \<noteq> mf_height (bk_manifest blk)
      then (Err (plain ''block has different height from initial block; initial=%d != block=%d''), bst)
      else if mf_round (bk_manifest (ss_block bst)) \<noteq> mf_round (bk_manifest blk)
      then (Err (plain ''block has different round from initial block; initial=%d != block=%d''), bst)
      else
        let m = bk_manifest blk; h = of_hash (mf_h m);
            key = (\<lambda>k r bst. case r of
                     Ok b \<Rightarrow> (case h of Ok x \<Rightarrow> Session_put bst (k x) r | _ \<Rightarrow> (Panic, bst))
                   | _ \<Rightarrow> Session_put bst [] r) in
        Session_steps [
          key leveldbBlockHashKey (marshal (SBlock blk) enc),
          key leveldbManifestKey (marshal (SManifest m) enc),
          key (\<lambda>_. leveldbBlockHeightKey (mf_height m)) (bind_res h (\<lambda>x. marshal (SHash x) enc)),
          key (\<lambda>_. leveldbManifestHeightKey (mf_height m)) (bind_res h (\<lambda>x. marshal (SHash x) enc)),
          Session_setOperationsTree enc (bk_operationsTree blk),
          Session_setStates enc (case bk_states blk of None \<Rightarrow> [] | Some sts \<Rightarrow> sts),
          Session_setVoteproofs enc (ci_initVoteproof (bk_ci blk)) (ci_acceptVoteproof (bk_ci blk)),
          (\<lambda>bst. (Ok (), bst\<lparr>ss_block := blk\<rparr>))] bst)"

definition Session_Commit :: "'s database \<Rightarrow> blockdatamap \<Rightarrow> session \<Rightarrow> unit res \<times> session \<times> 's database" where
  "Session_Commit st bd bst =
     (case Session_steps [
        (\<lambda>bst. if length (ss_batch bst) < 1 then Session_SetBlock (ld_enc st) (ss_block bst) bst else (Ok (), bst)),
        (\<lambda>bst. Session_put bst (leveldbBlockdataMapKey (bd_height bd)) (marshal (SBlockdataMap bd) (ld_enc st)))] bst of
        (Ok _, bst') \<Rightarrow> (case Database_Write st (ss_batch bst') of (r, st') \<Rightarrow> (r, bst', st'))
      | (r, bst') \<Rightarrow> (r, bst', st))"

text \<open>A block written in one go, as \<open>SetBlocks\<close> and \<open>commitBlock\<close> do: a new session, \<open>SetBlock\<close>, \<open>Commit\<close>.\<close>

definition Database_commitBlock :: "'s database \<Rightarrow> blockv0 \<Rightarrow> blockdatamap \<Rightarrow> unit res \<times> 's database" where
  "Database_commitBlock st blk bd =
     (case Session_SetBlock (ld_enc st) blk (NewSession blk) of
        (Ok _, bst) \<Rightarrow> (case Session_Commit st bd bst of (r, _, st') \<Rightarrow> (r, st'))
      | (r, _) \<Rightarrow> (r, st))"

section \<open>The session of a syncer\<close>

record 's syncer_session =
  sn_main :: "'s database"
  sn_database :: "'s database"
  sn_heightFrom :: height
  sn_heightTo :: height

definition NewSyncerSession :: "'s database \<Rightarrow> 's syncer_session" where
  "NewSyncerSession main =
     \<lparr>sn_main = main, sn_database = NewMemDatabase (ld_lv main) (ld_encs main) (ld_enc main), sn_heightFrom = -1, sn_heightTo = 0\<rparr>"

definition SyncerSession_manifestKey :: "height \<Rightarrow> bytes" where
  "SyncerSession_manifestKey h = ConcatBytesSlice [keyPrefixTmp, leveldbManifestHeightKey h]"

text \<open>The error of \<open>DB().Get\<close> is compared with \<open>NotFoundError\<close> before it is merged into one.\<close>

definition SyncerSession_Manifest :: "'s syncer_session \<Rightarrow> height \<Rightarrow> (manifest option \<times> bool) res" where
  "SyncerSession_Manifest st h =
     (let db = sn_database st in
      case lv_Get (ld_lv db) (ld_db db) (SyncerSession_manifestKey h) of
        Err e \<Rightarrow> (if error_Is e NotFoundError then Ok (None, False) else Err (mergeError e))
      | Panic \<Rightarrow> Panic
      | Ok raw \<Rightarrow>
          (case Database_loadManifest db raw of
             Err e \<Rightarrow> (if error_Is e NotFoundError then Ok (None, False) else Err e)
           | Panic \<Rightarrow> Panic
           | Ok m \<Rightarrow> Ok (m, True)))"

fun SetManifests_batch :: "encoder \<Rightarrow> manifest list \<Rightarrow> batch res" where
  "SetManifests_batch enc [] = Ok []"
| "SetManifests_batch enc (m # ms) =
     bind_res (marshal (SManifest m) enc) (\<lambda>b.
     bind_res (SetManifests_batch enc ms) (\<lambda>bs. Ok (BPut (SyncerSession_manifestKey (mf_height m)) b # bs)))"

definition SyncerSession_SetManifests :: "'s syncer_session \<Rightarrow> manifest list \<Rightarrow> unit res \<times> 's syncer_session" where
  "SyncerSession_SetManifests st ms =
     (case SetManifests_batch (ld_enc (sn_database st)) ms of
        Err e \<Rightarrow> (Err e, st)
      | Panic \<Rightarrow> (Panic, st)
      | Ok b \<Rightarrow> (case Database_Write (sn_database st) b of (r, db) \<Rightarrow> (r, st\<lparr>sn_database := db\<rparr>)))"

definition SyncerSession_HasBlock :: "'s syncer_session \<Rightarrow> height \<Rightarrow> bool res" where
  "SyncerSession_HasBlock st h = (let db = sn_database st in lv_Has (ld_lv db) (ld_db db) (leveldbBlockHeightKey h))"

definition SyncerSession_checkHeight :: "'s syncer_session \<Rightarrow> height \<Rightarrow> 's syncer_session" where
  "SyncerSession_checkHeight st h =
     (if sn_heightFrom st < 0 then st\<lparr>sn_heightFrom := h, sn_heightTo := h\<rparr>
      else if sn_heightFrom st > h then st\<lparr>sn_heightFrom := h\<rparr>
      else if sn_heightTo st < h then st\<lparr>sn_heightTo := h\<rparr>
      else st)"

fun SetBlocks_loop :: "(blockv0 \<times> blockdatamap) list \<Rightarrow> 's syncer_session \<Rightarrow> unit res \<times> 's syncer_session" where
  "SetBlocks_loop [] st = (Ok (), st)"
| "SetBlocks_loop ((blk, bd) # bs) st =
     (let st = SyncerSession_checkHeight st (mf_height (bk_manifest blk)) in
      case Database_commitBlock (sn_database st) blk bd of
        (Ok _, db) \<Rightarrow> SetBlocks_loop bs (st\<lparr>sn_database := db\<rparr>)
      | (r, db) \<Rightarrow> (r, st\<lparr>sn_database := db\<rparr>))"

definition SyncerSession_SetBlocks :: "'s syncer_session \<Rightarrow> blockv0 list \<Rightarrow> blockdatamap list \<Rightarrow> unit res \<times> 's syncer_session" where
  "SyncerSession_SetBlocks st blocks maps =
     (if length blocks \<noteq> length maps then (Err (plain ''blocks and maps has different size, %d != %d''), st)
      else case seq (map (\<lambda>(b, m). CompareManifestWithMap (bk_manifest b) m) (zip blocks maps)) of
        Ok _ \<Rightarrow> SetBlocks_loop (zip blocks maps) st
      | r \<Rightarrow> (r, st))"

text \<open>
  The loop from \<open>heightFrom\<close> to \<open>heightTo\<close>; \<open>n\<close> is the number of heights left. At the largest \<open>int64\<close> the source's counter would
  wrap around.
\<close>

fun Commit_loop :: "nat \<Rightarrow> height \<Rightarrow> 's syncer_session \<Rightarrow> unit res \<times> 's syncer_session" where
  "Commit_loop 0 h st = (Ok (), st)"
| "Commit_loop (Suc n) h st =
     (case bind_res (Database_blockByHeight (sn_database st) h) (\<lambda>(b, f).
              if \<not> f then Err (Errorf NotFoundError ''block not found'') else case b of None \<Rightarrow> Panic | Some b \<Rightarrow>
            bind_res (Database_BlockdataMap (sn_database st) h) (\<lambda>(m, f).
              if \<not> f then Err (Errorf NotFoundError ''block data map not found'') else case m of None \<Rightarrow> Panic | Some m \<Rightarrow> Ok (b, m))) of
        Err e \<Rightarrow> (Err e, st)
      | Panic \<Rightarrow> (Panic, st)
      | Ok (b, m) \<Rightarrow>
          (case Database_commitBlock (sn_main st) b m of
             (Ok _, db) \<Rightarrow> Commit_loop n (h + 1) (st\<lparr>sn_main := db\<rparr>)
           | (r, db) \<Rightarrow> (r, st\<lparr>sn_main := db\<rparr>)))"

definition SyncerSession_Commit :: "'s syncer_session \<Rightarrow> unit res \<times> 's syncer_session" where
  "SyncerSession_Commit st = Commit_loop (nat (sn_heightTo st - sn_heightFrom st + 1)) (sn_heightFrom st) st"

section \<open>What the database relies on\<close>

definition kv :: "'s leveldb \<Rightarrow> 's \<Rightarrow> bytes \<rightharpoonup> bytes" where
  "kv lv s k = (case lv_Get lv s k of Ok v \<Rightarrow> Some v | _ \<Rightarrow> None)"

fun apply_op :: "batch_op \<Rightarrow> (bytes \<rightharpoonup> bytes) \<Rightarrow> (bytes \<rightharpoonup> bytes)" where
  "apply_op (BPut k v) m = m(k \<mapsto> v)"
| "apply_op (BDelete k) m = m(k := None)"

definition apply_batch :: "batch \<Rightarrow> (bytes \<rightharpoonup> bytes) \<Rightarrow> (bytes \<rightharpoonup> bytes)" where
  "apply_batch b m = fold apply_op b m"

text \<open>
  A store that is open and does not fail is an ordered map: \<open>Get\<close> reports a missing key as \<open>ErrNotFound\<close>, a batch is applied in order, an
  iterator visits the keys with the prefix in ascending order of their bytes. \<open>S\<close> is the set of the states such a store goes through.
\<close>

definition goleveldb :: "'s leveldb \<Rightarrow> 's set \<Rightarrow> bool" where
  "goleveldb lv S \<longleftrightarrow> lv_OpenMem lv \<in> S \<and> kv lv (lv_OpenMem lv) = Map.empty \<and>
     (\<forall>s \<in> S.
        (\<forall>k. lv_Get lv s k = (case kv lv s k of None \<Rightarrow> Err ErrNotFound | Some v \<Rightarrow> Ok v)) \<and>
        (\<forall>k. lv_Has lv s k = Ok (kv lv s k \<noteq> None)) \<and>
        (\<forall>k v. \<exists>s' \<in> S. lv_Put lv s k v = (Ok (), s') \<and> kv lv s' = (kv lv s)(k \<mapsto> v)) \<and>
        (\<forall>b. \<exists>s' \<in> S. lv_Write lv s b = (Ok (), s') \<and> kv lv s' = apply_batch b (kv lv s)) \<and>
        (\<forall>p. \<exists>es. lv_Iterate lv s p = (es, None) \<and> sorted_wrt (<) (map fst es) \<and>
           (\<forall>k v. (k, v) \<in> set es \<longleftrightarrow> kv lv s k = Some v \<and> take (length p) k = p)))"

text \<open>The database's encoder is registered and its hint survives the fixed-size array in front of each value.\<close>

definition encoder_registered :: "encoders \<Rightarrow> encoder \<Rightarrow> bool" where
  "encoder_registered es enc \<longleftrightarrow>
     (let s = Hint_String (en_ht enc) in
      ParseHint s = Ok (en_ht enc) \<and> s \<noteq> [] \<and> length s \<le> MaxHintLength \<and> last s \<noteq> CHR 0x00 \<and>
      Encoders_Encoder es (hint_ty (en_ht enc)) (hint_v (en_ht enc)) = Ok enc)"

text \<open>A value that the encoder reads back as it wrote it, apart from the closure of a seal, which is not written.\<close>

fun decoded_form :: "stored \<Rightarrow> stored" where
  "decoded_form (SProposal p) = SProposal (p\<lparr>bl_seal := (bl_seal p)\<lparr>sl_bodyHashFunc := None\<rparr>\<rparr>)"
| "decoded_form x = x"

definition reads_back :: "encoder \<Rightarrow> stored \<Rightarrow> bool" where
  "reads_back enc x \<longleftrightarrow>
     (case en_Marshal enc x of
        Ok b \<Rightarrow> (case x of SHash h \<Rightarrow> en_UnmarshalHash enc b = Ok (Hash_Bytes h) | _ \<Rightarrow> en_Decode enc b = Ok (Some (decoded_form x)))
      | _ \<Rightarrow> False)"

definition opened :: "'s database \<Rightarrow> bool" where
  "opened d \<longleftrightarrow> (\<exists>S. goleveldb (ld_lv d) S \<and> ld_db d \<in> S) \<and> encoder_registered (ld_encs d) (ld_enc d)"

definition content :: "'s database \<Rightarrow> bytes \<rightharpoonup> bytes" where
  "content d = kv (ld_lv d) (ld_db d)"

definition entries :: "'s database \<Rightarrow> bytes \<Rightarrow> (bytes \<times> bytes) list" where
  "entries d p = fst (lv_Iterate (ld_lv d) (ld_db d) p)"

definition encoded :: "encoder \<Rightarrow> stored \<Rightarrow> bytes" where
  "encoded enc x = ok_val (marshal x enc)"

section \<open>Operations as operations on the map\<close>

lemma apply_batch_simps [simp]:
  "apply_batch [] m = m" "apply_batch (op # b) m = apply_batch b (apply_op op m)" "apply_batch (b @ b') m = apply_batch b' (apply_batch b m)"
  by (simp_all add: apply_batch_def)

lemma get_content:
  assumes "opened d"
  shows "Database_get d k = (case content d k of None \<Rightarrow> Err (NError_Wrap NotFoundError ErrNotFound) | Some v \<Rightarrow> Ok v)"
  using assms unfolding opened_def goleveldb_def Database_get_def content_def
  by (fastforce simp: mergeError_def split: option.splits)

lemma not_found_Is [simp]: "error_Is (NError_Wrap NotFoundError e) NotFoundError"
  by (simp add: NotFoundError_def NewError_def)

lemma has_content:
  assumes "opened d" shows "lv_Has (ld_lv d) (ld_db d) k = Ok (content d k \<noteq> None)"
  using assms unfolding opened_def goleveldb_def content_def by blast

lemma write_content:
  assumes "opened d"
  shows "\<exists>d'. Database_Write d b = (Ok (), d') \<and> opened d' \<and> content d' = apply_batch b (content d) \<and> ld_enc d' = ld_enc d \<and>
    ld_encs d' = ld_encs d \<and> ld_lv d' = ld_lv d"
proof -
  from assms obtain S where S: "goleveldb (ld_lv d) S" "ld_db d \<in> S" and e: "encoder_registered (ld_encs d) (ld_enc d)"
    by (auto simp: opened_def)
  then obtain s' where s': "s' \<in> S" "lv_Write (ld_lv d) (ld_db d) b = (Ok (), s')" "kv (ld_lv d) s' = apply_batch b (kv (ld_lv d) (ld_db d))"
    unfolding goleveldb_def by metis
  let ?d = "d\<lparr>ld_db := s'\<rparr>"
  have "Database_Write d b = (Ok (), ?d)" using s'(2) by (simp add: Database_Write_def)
  moreover have "opened ?d" using S(1) s'(1) e by (auto simp: opened_def)
  moreover have "content ?d = apply_batch b (content d)" using s'(3) by (simp add: content_def)
  ultimately show ?thesis by force
qed

lemma put_content:
  assumes "opened d"
  shows "\<exists>d'. Database_Put d k v = (Ok (), d') \<and> opened d' \<and> content d' = (content d)(k \<mapsto> v) \<and> ld_enc d' = ld_enc d"
proof -
  from assms obtain S where S: "goleveldb (ld_lv d) S" "ld_db d \<in> S" and e: "encoder_registered (ld_encs d) (ld_enc d)"
    by (auto simp: opened_def)
  then obtain s' where s': "s' \<in> S" "lv_Put (ld_lv d) (ld_db d) k v = (Ok (), s')" "kv (ld_lv d) s' = (kv (ld_lv d) (ld_db d))(k \<mapsto> v)"
    unfolding goleveldb_def by metis
  let ?d = "d\<lparr>ld_db := s'\<rparr>"
  have "Database_Put d k v = (Ok (), ?d)" using s'(2) by (simp add: Database_Put_def)
  moreover have "opened ?d" using S(1) s'(1) e by (auto simp: opened_def)
  moreover have "content ?d = (content d)(k \<mapsto> v)" using s'(3) by (simp add: content_def)
  ultimately show ?thesis by force
qed

lemma entries_content:
  assumes "opened d"
  shows "lv_Iterate (ld_lv d) (ld_db d) p = (entries d p, None)" "sorted_wrt (<) (map fst (entries d p))"
    "(k, v) \<in> set (entries d p) \<longleftrightarrow> content d k = Some v \<and> take (length p) k = p"
proof -
  from assms obtain es where "lv_Iterate (ld_lv d) (ld_db d) p = (es, None)" "sorted_wrt (<) (map fst es)"
    "\<forall>k v. (k, v) \<in> set es \<longleftrightarrow> kv (ld_lv d) (ld_db d) k = Some v \<and> take (length p) k = p"
    unfolding opened_def goleveldb_def by meson
  then show "lv_Iterate (ld_lv d) (ld_db d) p = (entries d p, None)" "sorted_wrt (<) (map fst (entries d p))"
    "(k, v) \<in> set (entries d p) \<longleftrightarrow> content d k = Some v \<and> take (length p) k = p"
    by (simp_all add: entries_def content_def)
qed

lemma iter_content:
  "opened d \<Longrightarrow> Database_iter d p cb srt a = iter_loop cb (if srt then entries d p else rev (entries d p)) None a"
  by (simp add: Database_iter_def entries_content(1))

lemma sorted_keys_unique:
  fixes xs ys :: "('a :: linorder \<times> 'b) list"
  assumes "sorted_wrt (<) (map fst xs)" and "sorted_wrt (<) (map fst ys)" and "set xs = set ys"
  shows "xs = ys"
proof -
  have s: "sorted_wrt (\<lambda>a b. fst a < fst b) xs" "sorted_wrt (\<lambda>a b. fst a < fst b) ys" using assms(1,2) by (simp_all add: sorted_wrt_map)
  have "sorted_wrt (\<lambda>a b. fst a < fst b) xs \<Longrightarrow> sorted_wrt (\<lambda>a b. fst a < fst b) ys \<Longrightarrow> set xs = set ys \<Longrightarrow> xs = ys"
  proof (induction xs arbitrary: ys)
    case (Cons x xs)
    then obtain y ys' where y: "ys = y # ys'" by (cases ys) auto
    have "x = y \<or> x \<in> set ys'" "y = x \<or> y \<in> set xs" using Cons.prems(3) unfolding y by (metis list.set_intros(1) set_ConsD)+
    then have "x = y" using Cons.prems(1,2) unfolding y by (auto dest: less_asym)
    moreover have "set xs = set ys'" using Cons.prems unfolding y \<open>x = y\<close> by auto
    ultimately show ?case using Cons y by simp
  qed simp
  then show ?thesis using s assms(3) by blast
qed

lemma bytes_string_string_bytes [simp]: "bytes_string (string_bytes s) = s"
  by (simp add: bytes_string_def string_bytes_def comp_def unat_of_char)

lemma TrimRight0_pad:
  assumes "b \<noteq> []" and "last b \<noteq> 0" shows "TrimRight0 (b @ replicate n 0) = b"
proof -
  have "dropWhile (\<lambda>x. x = 0) (replicate n 0 @ rev b) = rev b"
    using assms by (induction n) (auto simp: dropWhile_eq_self_iff hd_rev)
  then show ?thesis by (simp add: TrimRight0_def)
qed

lemma loadHint_encode:
  assumes "encoder_registered es enc"
  shows "loadHint (encodeWithEncoder b enc) = Ok (en_ht enc, b)"
proof -
  let ?s = "Hint_String (en_ht enc)"
  have s: "ParseHint ?s = Ok (en_ht enc)" "?s \<noteq> []" "length ?s \<le> MaxHintLength" "last ?s \<noteq> CHR 0x00"
    using assms by (simp_all add: encoder_registered_def Let_def)
  have l: "last (string_bytes ?s) \<noteq> 0"
  proof -
    have "last (string_bytes ?s) = of_char (last ?s)" using s(2) by (simp add: string_bytes_def last_map)
    moreover have "(of_char (CHR 0x00) :: byte) = 0" by simp
    ultimately show ?thesis using s(4) of_char_byte_inject by metis
  qed
  have e: "encodeWithEncoder b enc = string_bytes ?s @ replicate (MaxHintLength - length ?s) 0 @ b"
    using s(3) by (simp add: encodeWithEncoder_def Hint_Bytes_def Let_def min_absorb1)
  have t: "take MaxHintLength (encodeWithEncoder b enc) = string_bytes ?s @ replicate (MaxHintLength - length ?s) 0"
    "drop MaxHintLength (encodeWithEncoder b enc) = b" "\<not> length (encodeWithEncoder b enc) < MaxHintLength"
    using s(3) by (simp_all add: e)
  have "TrimRight0 (string_bytes ?s @ replicate (MaxHintLength - length ?s) 0) = string_bytes ?s"
    by (rule TrimRight0_pad) (use s(2) l in \<open>auto simp: string_bytes_def\<close>)
  then show ?thesis unfolding loadHint_def t using t(3) s(1) by simp
qed

lemma load_encoded:
  assumes "opened d" and "reads_back (ld_enc d) x"
  shows "marshal x (ld_enc d) = Ok (encoded (ld_enc d) x)"
    "(case x of SHash h \<Rightarrow> False | _ \<Rightarrow> True) \<Longrightarrow> Database_loadHinter d (encoded (ld_enc d) x) = Ok (Some (decoded_form x))"
    "x = SHash h \<Longrightarrow> Hash_Bytes h \<noteq> [] \<Longrightarrow> Database_loadHash d (encoded (ld_enc d) x) = Ok (HBytes (Hash_Bytes h))"
proof -
  from assms(2) obtain b where b: "en_Marshal (ld_enc d) x = Ok b" by (auto simp: reads_back_def split: res.splits)
  show m: "marshal x (ld_enc d) = Ok (encoded (ld_enc d) x)" by (simp add: encoded_def marshal_def b)
  have e: "encoded (ld_enc d) x = encodeWithEncoder b (ld_enc d)" by (simp add: encoded_def marshal_def b)
  have r: "encoder_registered (ld_encs d) (ld_enc d)" using assms(1) by (simp add: opened_def)
  then have f: "Encoders_Encoder (ld_encs d) (hint_ty (en_ht (ld_enc d))) (hint_v (en_ht (ld_enc d))) = Ok (ld_enc d)"
    by (simp add: encoder_registered_def Let_def)
  show "(case x of SHash h \<Rightarrow> False | _ \<Rightarrow> True) \<Longrightarrow> Database_loadHinter d (encoded (ld_enc d) x) = Ok (Some (decoded_form x))"
    using assms(2) unfolding Database_loadHinter_def e loadHint_encode [OF r]
    by (auto simp: f reads_back_def b split: stored.splits)
  show "x = SHash h \<Longrightarrow> Hash_Bytes h \<noteq> [] \<Longrightarrow> Database_loadHash d (encoded (ld_enc d) x) = Ok (HBytes (Hash_Bytes h))"
    using assms(2) b unfolding Database_loadHash_def e loadHint_encode [OF r]
    by (auto simp: f reads_back_def)
qed

end
