(* ===== verification/Mitum_Database.thy ===== *)
theory Mitum_Database
  imports Mitum_Leveldb
begin

text \<open>
  What the LevelDB database promises. The staged operations are a queue with one entry per fact: the abstract queue is a list of
  operations, and \<open>NewOperations\<close>, \<open>UnstagedOperations\<close>, \<open>StagedOperations\<close>, \<open>StagedOperationsByFact\<close> and \<open>HasStagedOperation\<close> are shown to
  implement it over the two key ranges the source keeps (ULID order and the reverse index). Proposals are a map by fact hash. The
  locales \<open>staging_store\<close> and \<open>proposal_store\<close> state these contracts for any implementation of \<open>storage.Database\<close>.
\<close>

section \<open>Keys\<close>

lemma key_order:
  fixes u u' x y :: bytes
  assumes "length u = length u'" and "u < u'" shows "p @ u @ x < p @ u' @ y"
proof -
  have "u @ x < u' @ y" using assms by (induction u u' rule: list_induct2) auto
  then show ?thesis by (induction p) auto
qed

lemma staged_key_append:
  "newStagedOperationKey u h = keyPrefixStagedOperationFactHash @ u @ 45 # Hash_Bytes h"
  "newStagedOperationReverseKey h = keyPrefixStagedOperationFactHashReverse @ Hash_Bytes h"
  "leveldbOperationFactHashKey h = keyPrefixOperationFactHash @ Hash_Bytes h"
  "proposalKey h = keyPrefixProposal @ Hash_Bytes h"
  by (simp_all add: newStagedOperationKey_def newStagedOperationReverseKey_def leveldbOperationFactHashKey_def proposalKey_def string_bytes_def)

lemma staged_key_inject:
  "length u = length u' \<Longrightarrow> newStagedOperationKey u h = newStagedOperationKey u' h' \<longleftrightarrow> u = u' \<and> Hash_Bytes h = Hash_Bytes h'"
  by (auto simp: staged_key_append)

lemma take2_prefix:
  "take 2 (keyPrefixStagedOperationFactHash @ x) = keyPrefixStagedOperationFactHash"
  "take 2 (keyPrefixStagedOperationFactHashReverse @ x) = keyPrefixStagedOperationFactHashReverse"
  by (simp_all add: key_prefixes)

section \<open>The queue of staged operations\<close>

definition opkey :: "operation \<Rightarrow> bytes" where
  "opkey op = Hash_Bytes (ok_val (Operation_FactHash op))"

definition stageable :: "encoder \<Rightarrow> operation \<Rightarrow> bool" where
  "stageable enc op \<longleftrightarrow> (\<exists>h. Operation_FactHash op = Ok h) \<and> reads_back enc (SOperation op)"

definition staged_entry :: "encoder \<Rightarrow> bytes \<times> operation \<Rightarrow> bytes \<times> bytes" where
  "staged_entry enc e = (newStagedOperationKey (fst e) (ok_val (Operation_FactHash (snd e))), encoded enc (SOperation (snd e)))"

text \<open>A map of keys holds the queue \<open>q\<close> of ULIDs and operations: the entries, their order, the reverse index.\<close>

definition staged_map :: "encoder \<Rightarrow> (bytes \<rightharpoonup> bytes) \<Rightarrow> (bytes \<times> operation) list \<Rightarrow> bool" where
  "staged_map enc m q \<longleftrightarrow>
     (\<forall>k v. m k = Some v \<and> take 2 k = keyPrefixStagedOperationFactHash \<longleftrightarrow> (k, v) \<in> staged_entry enc ` set q) \<and>
     sorted_wrt (<) (map (fst \<circ> staged_entry enc) q) \<and>
     (\<forall>e \<in> set q. length (fst e) = 16 \<and> stageable enc (snd e)) \<and>
     distinct (map (opkey \<circ> snd) q) \<and>
     (\<forall>b. m (keyPrefixStagedOperationFactHashReverse @ b) = map_of (map (\<lambda>e. (opkey (snd e), fst (staged_entry enc e))) q) b)"

definition staging :: "'s database \<Rightarrow> (bytes \<times> operation) list \<Rightarrow> bool" where
  "staging d q \<longleftrightarrow> opened d \<and> staged_map (ld_enc d) (content d) q"

text \<open>The fact hashes of the operations in committed blocks.\<close>

definition known :: "'s database \<Rightarrow> bytes set" where
  "known d = {b. content d (keyPrefixOperationFactHash @ b) \<noteq> None}"

text \<open>The abstract queue: an operation is appended unless its fact is known or waiting.\<close>

fun enqueue :: "bytes set \<Rightarrow> operation list \<Rightarrow> operation list \<Rightarrow> operation list" where
  "enqueue K q [] = q"
| "enqueue K q (op # ops) = enqueue K (if opkey op \<in> K \<union> opkey ` set q then q else q @ [op]) ops"

text \<open>The operations \<open>NewOperations\<close> adds, with the ULIDs they get; \<open>K\<close> are the facts not to be added.\<close>

fun fresh :: "bytes set \<Rightarrow> (nat \<Rightarrow> bytes) \<Rightarrow> nat \<Rightarrow> operation list \<Rightarrow> (bytes \<times> operation) list" where
  "fresh K ulid n [] = []"
| "fresh K ulid n (op # ops) =
     (if opkey op \<in> K then fresh K ulid n ops else (ulid n, op) # fresh (insert (opkey op) K) ulid (Suc n) ops)"

lemma enqueue_fresh: "enqueue K q ops = q @ map snd (fresh (K \<union> opkey ` set q) ulid n ops)"
proof (induction K q ops arbitrary: n rule: enqueue.induct)
  case (2 K q op ops)
  have "K \<union> opkey ` set (q @ [op]) = insert (opkey op) (K \<union> opkey ` set q)" by auto
  with 2 show ?case by (cases "opkey op \<in> K \<union> opkey ` set q") simp_all
qed simp

definition stage_puts :: "encoder \<Rightarrow> bytes \<times> operation \<Rightarrow> batch" where
  "stage_puts enc e = (case staged_entry enc e of (k, v) \<Rightarrow> [BPut k v, BPut (keyPrefixStagedOperationFactHashReverse @ opkey (snd e)) k])"

lemma staging_hasStaged:
  assumes "opened d" shows "Database_HasStagedOperation d h = Ok (content d (keyPrefixStagedOperationFactHashReverse @ Hash_Bytes h) \<noteq> None)"
  by (simp add: Database_HasStagedOperation_def has_content [OF assms] staged_key_append)

lemma HasOperationFact_known:
  assumes "opened d" shows "Database_HasOperationFact d h = Ok (Hash_Bytes h \<in> known d)"
  by (simp add: Database_HasOperationFact_def has_content [OF assms] staged_key_append known_def)

lemma newOperation_puts:
  assumes "opened d" and "stageable (ld_enc d) op" and "Operation_FactHash op = Ok h"
  shows "Database_newOperation d u batch op h = Ok (batch @ stage_puts (ld_enc d) (u, op))"
proof -
  have "marshal (SOperation op) (ld_enc d) = Ok (encoded (ld_enc d) (SOperation op))"
    using assms(2) by (intro load_encoded [OF assms(1)]) (simp add: stageable_def)
  then obtain raw where "en_Marshal (ld_enc d) (SOperation op) = Ok raw" "encoded (ld_enc d) (SOperation op) = encodeWithEncoder raw (ld_enc d)"
    by (auto simp: marshal_def bind_res_Ok_iff)
  then show ?thesis using assms(3)
    by (simp add: Database_newOperation_def stage_puts_def staged_entry_def opkey_def staged_key_append Let_def)
qed

lemma newOperations_fresh:
  assumes "base58_codec L" and "opened d"
  shows "\<forall>op \<in> set ops. stageable (ld_enc d) op \<Longrightarrow> set ins = base58_Encode L ` I \<Longrightarrow>
    K = known d \<union> {b. content d (keyPrefixStagedOperationFactHashReverse @ b) \<noteq> None} \<union> I \<Longrightarrow>
    \<exists>n' ins'. newOperations L d ulid (map Some ops) n ins batch = Ok (n', ins', batch @ concat (map (stage_puts (ld_enc d)) (fresh K ulid n ops)))"
proof (induction ops arbitrary: n ins I K batch)
  case (Cons op ops)
  from Cons.prems(1) obtain h where h: "Operation_FactHash op = Ok h" "Hash_Bytes h = opkey op" "stageable (ld_enc d) op"
    by (auto simp: stageable_def opkey_def)
  have inj: "base58_Encode L x = base58_Encode L y \<longleftrightarrow> x = y" for x y using assms(1) by (metis base58_codec_def)
  have str: "Hash_String L h \<in> set ins \<longleftrightarrow> opkey op \<in> I" using Cons.prems(2) by (auto simp: Hash_String_def h(2) inj)
  let ?f = "stagedOperationFilter L d ins h"
  have f: "?f = (if opkey op \<in> K then (Ok False, ins) else (Ok True, Hash_String L h # ins))"
    unfolding stagedOperationFilter_def Let_def HasOperationFact_known [OF assms(2)] staging_hasStaged [OF assms(2)] str h(2) Cons.prems(3)
    by simp
  show ?case
  proof (cases "opkey op \<in> K")
    case True
    then show ?thesis using Cons.IH [OF _ Cons.prems(2,3)] Cons.prems(1) by (simp add: h(1) f)
  next
    case False
    have "\<exists>n' ins'. newOperations L d ulid (map Some ops) (Suc n) (Hash_String L h # ins) (batch @ stage_puts (ld_enc d) (ulid n, op)) =
      Ok (n', ins', (batch @ stage_puts (ld_enc d) (ulid n, op)) @ concat (map (stage_puts (ld_enc d)) (fresh (insert (opkey op) K) ulid (Suc n) ops)))"
      by (rule Cons.IH [of _ "insert (opkey op) I"]) (use Cons.prems in \<open>auto simp: Hash_String_def h(2)\<close>)
    with False show ?thesis by (simp add: h(1) f newOperation_puts [OF assms(2) h(3,1)])
  qed
qed simp

lemma map_of_insert_key:
  "f e \<notin> f ` set (q1 @ q2) \<Longrightarrow> map_of (map (\<lambda>x. (f x, g x)) (q1 @ e # q2)) b = (if b = f e then Some (g e) else map_of (map (\<lambda>x. (f x, g x)) (q1 @ q2)) b)"
  by (induction q1) auto

lemma staged_map_insert:
  assumes "staged_map enc m (q1 @ q2)" and "length u = 16" and "\<forall>e \<in> set q1. fst e < u" and "\<forall>e \<in> set q2. u < fst e" and "stageable enc op"
    and "opkey op \<notin> (opkey \<circ> snd) ` set (q1 @ q2)"
  shows "staged_map enc (apply_batch (stage_puts enc (u, op)) m) (q1 @ (u, op) # q2)"
proof -
  let ?P = keyPrefixStagedOperationFactHash and ?R = keyPrefixStagedOperationFactHashReverse and ?q = "q1 @ q2"
  obtain k v where e: "staged_entry enc (u, op) = (k, v)" by fastforce
  then have k: "k = ?P @ u @ 45 # opkey op" by (simp add: staged_entry_def staged_key_append opkey_def)
  have m: "apply_batch (stage_puts enc (u, op)) m = m(k \<mapsto> v, ?R @ opkey op \<mapsto> k)" by (simp add: stage_puts_def e)
  have len: "length (fst x) = 16" if "x \<in> set ?q" for x using assms(1) that unfolding staged_map_def by blast
  have below: "fst (staged_entry enc x) < k" if "x \<in> set q1" for x
    using assms(2,3) that len [of x] unfolding k staged_entry_def fst_conv staged_key_append(1) by (intro key_order) auto
  have above: "k < fst (staged_entry enc x)" if "x \<in> set q2" for x
    using assms(2,4) that len [of x] unfolding k staged_entry_def fst_conv staged_key_append(1) by (intro key_order) auto
  show ?thesis unfolding staged_map_def m
  proof (intro conjI allI)
    fix k' v'
    have k': "(k', v'') \<notin> staged_entry enc ` set ?q" if "k' = k" for v''
    proof
      assume "(k', v'') \<in> staged_entry enc ` set ?q"
      then obtain x where x: "x \<in> set ?q" and "staged_entry enc x = (k', v'')" by (elim imageE) simp
      with that have "fst (staged_entry enc x) = k" by simp
      with x show False using below [of x] above [of x] by auto
    qed
    have "take 2 k = ?P" "?R @ opkey op \<noteq> k" by (simp_all add: k key_prefixes)
    have im: "staged_entry enc ` set (q1 @ (u, op) # q2) = insert (k, v) (staged_entry enc ` set ?q)" using e by (simp add: image_Un)
    show "(m(k \<mapsto> v, ?R @ opkey op \<mapsto> k)) k' = Some v' \<and> take 2 k' = ?P \<longleftrightarrow> (k', v') \<in> staged_entry enc ` set (q1 @ (u, op) # q2)"
    proof (cases "k' = ?R @ opkey op")
      case True
      then have "take 2 k' \<noteq> ?P" by (simp add: key_prefixes)
      moreover from this have "(k', v') \<notin> staged_entry enc ` set ?q" using assms(1) unfolding staged_map_def by blast
      ultimately show ?thesis unfolding im using True \<open>?R @ opkey op \<noteq> k\<close> by simp
    next
      case False
      have "m k' = Some v' \<and> take 2 k' = ?P \<longleftrightarrow> (k', v') \<in> staged_entry enc ` set ?q" using assms(1) unfolding staged_map_def by blast
      with False show ?thesis unfolding im using k' [of v'] \<open>take 2 k = ?P\<close> by (cases "k' = k") auto
    qed
  next
    have "sorted_wrt (<) (map (fst \<circ> staged_entry enc) (q1 @ q2))" using assms(1) unfolding staged_map_def by blast
    then show "sorted_wrt (<) (map (fst \<circ> staged_entry enc) (q1 @ (u, op) # q2))"
      using below above e by (simp add: sorted_wrt_append)
  next
    have "\<forall>e \<in> set (q1 @ q2). length (fst e) = 16 \<and> stageable enc (snd e)" using assms(1) unfolding staged_map_def by blast
    then show "\<forall>e \<in> set (q1 @ (u, op) # q2). length (fst e) = 16 \<and> stageable enc (snd e)" using assms(2,5) by simp
    have "distinct (map (opkey \<circ> snd) (q1 @ q2))" using assms(1) unfolding staged_map_def by blast
    then show "distinct (map (opkey \<circ> snd) (q1 @ (u, op) # q2))" using assms(6) by auto
  next
    fix b
    let ?i = "\<lambda>q. map_of (map (\<lambda>e. (opkey (snd e), fst (staged_entry enc e))) q)"
    have "?R @ b \<noteq> k" by (simp add: k key_prefixes)
    moreover have "m (?R @ b) = ?i ?q b" using assms(1) unfolding staged_map_def by blast
    moreover have "?i (q1 @ (u, op) # q2) b = (if b = opkey op then Some k else ?i ?q b)"
    proof -
      have "(\<lambda>e. opkey (snd e)) (u, op) \<notin> (\<lambda>e. opkey (snd e)) ` set (q1 @ q2)" using assms(6) by (simp add: comp_def)
      from map_of_insert_key [OF this, of "\<lambda>e. fst (staged_entry enc e)" b] show ?thesis using e by simp
    qed
    ultimately show "(m(k \<mapsto> v, ?R @ opkey op \<mapsto> k)) (?R @ b) = ?i (q1 @ (u, op) # q2) b" by simp
  qed
qed

lemmas staged_map_add = staged_map_insert [of _ _ _ "[]", simplified]

text \<open>The ULIDs of a call: 16 bytes each and increasing.\<close>

definition ulids_ok :: "(nat \<Rightarrow> bytes) \<Rightarrow> nat \<Rightarrow> bool" where
  "ulids_ok ulid n \<longleftrightarrow> (\<forall>i < n. length (ulid i) = 16) \<and> (\<forall>j < n. \<forall>i < j. ulid i < ulid j)"

lemma staged_map_add_all:
  assumes ulids: "ulids_ok ulid N"
  shows "staged_map enc m q \<Longrightarrow> \<forall>op \<in> set ops. stageable enc op \<Longrightarrow> n + length ops \<le> N \<Longrightarrow> \<forall>e \<in> set q. \<forall>i. n \<le> i \<and> i < N \<longrightarrow> fst e < ulid i \<Longrightarrow>
    (opkey \<circ> snd) ` set q \<subseteq> K \<Longrightarrow>
    staged_map enc (apply_batch (concat (map (stage_puts enc) (fresh K ulid n ops))) m) (q @ fresh K ulid n ops)"
proof (induction ops arbitrary: n q m K)
  case (Cons op ops)
  show ?case
  proof (cases "opkey op \<in> K")
    case False
    let ?m = "apply_batch (stage_puts enc (ulid n, op)) m" and ?q = "q @ [(ulid n, op)]"
    have n: "n < N" "Suc n + length ops \<le> N" using Cons.prems(3) by simp_all
    have "staged_map enc ?m ?q"
      by (rule staged_map_add) (use Cons.prems False ulids n in \<open>auto simp: ulids_ok_def\<close>)
    moreover have "\<forall>e \<in> set ?q. \<forall>i. Suc n \<le> i \<and> i < N \<longrightarrow> fst e < ulid i"
      using Cons.prems(4) ulids by (auto simp: ulids_ok_def)
    moreover have "(opkey \<circ> snd) ` set ?q \<subseteq> insert (opkey op) K" using Cons.prems(5) by auto
    ultimately have "staged_map enc (apply_batch (concat (map (stage_puts enc) (fresh (insert (opkey op) K) ulid (Suc n) ops))) ?m)
        (?q @ fresh (insert (opkey op) K) ulid (Suc n) ops)"
      using Cons.IH [of ?m ?q "Suc n"] Cons.prems(2) n(2) by simp
    with False show ?thesis by simp
  next
    case True
    have "staged_map enc (apply_batch (concat (map (stage_puts enc) (fresh K ulid n ops))) m) (q @ fresh K ulid n ops)"
      by (rule Cons.IH) (use Cons.prems in auto)
    with True show ?thesis by simp
  qed
qed simp

text \<open>The two key ranges of the queue; what is written there leaves every other key alone.\<close>

definition queue_key :: "bytes \<Rightarrow> bool" where
  "queue_key k \<longleftrightarrow> take 2 k = keyPrefixStagedOperationFactHash \<or> take 2 k = keyPrefixStagedOperationFactHashReverse"

lemma queue_key_simps:
  "queue_key (keyPrefixStagedOperationFactHash @ x)" "queue_key (keyPrefixStagedOperationFactHashReverse @ x)"
  "\<not> queue_key (keyPrefixOperationFactHash @ x)" "\<not> queue_key (keyPrefixProposal @ x)" "\<not> queue_key (keyPrefixProposalFacts @ x)"
  by (simp_all add: queue_key_def key_prefixes)

lemma stage_puts_other: "\<not> queue_key k \<Longrightarrow> apply_batch (concat (map (stage_puts enc) es)) m k = m k"
proof (induction es arbitrary: m)
  case (Cons e es)
  then have "apply_batch (stage_puts enc e) m k = m k"
    by (auto simp: stage_puts_def staged_entry_def staged_key_append queue_key_simps)
  with Cons show ?case by simp
qed simp

lemma staged_map_frame:
  assumes "staged_map enc m q" and "\<And>k. queue_key k \<Longrightarrow> m' k = m k" shows "staged_map enc m' q"
proof -
  have "m' k = Some v \<and> take 2 k = keyPrefixStagedOperationFactHash \<longleftrightarrow> m k = Some v \<and> take 2 k = keyPrefixStagedOperationFactHash" for k v
    using assms(2) [of k] by (auto simp: queue_key_def)
  moreover have "m' (keyPrefixStagedOperationFactHashReverse @ b) = m (keyPrefixStagedOperationFactHashReverse @ b)" for b
    by (rule assms(2)) (rule queue_key_simps)
  ultimately show ?thesis using assms(1) unfolding staged_map_def by simp
qed

lemma staging_index:
  "staging d q \<Longrightarrow> {b. content d (keyPrefixStagedOperationFactHashReverse @ b) \<noteq> None} = (opkey \<circ> snd) ` set q"
  unfolding staging_def staged_map_def by (force simp: map_of_eq_None_iff image_comp)

lemma NewOperations_staging:
  assumes "base58_codec L" and "staging d q" and "\<forall>op \<in> set ops. stageable (ld_enc d) op"
    and "ulids_ok ulid (length ops)" and "\<forall>e \<in> set q. \<forall>i < length ops. fst e < ulid i"
  shows "\<exists>d'. Database_NewOperations L ulid d (map Some ops) = (Ok (), d') \<and> (\<forall>k. \<not> queue_key k \<longrightarrow> content d' k = content d k) \<and>
    ld_enc d' = ld_enc d \<and> ld_encs d' = ld_encs d \<and> staging d' (q @ fresh (known d \<union> (opkey \<circ> snd) ` set q) ulid 0 ops)"
proof -
  let ?F = "fresh (known d \<union> (opkey \<circ> snd) ` set q) ulid 0 ops" and ?b = "concat (map (stage_puts (ld_enc d))
    (fresh (known d \<union> (opkey \<circ> snd) ` set q) ulid 0 ops))"
  have o: "opened d" "staged_map (ld_enc d) (content d) q" using assms(2) by (simp_all add: staging_def)
  have K: "known d \<union> (opkey \<circ> snd) ` set q = known d \<union> {b. content d (keyPrefixStagedOperationFactHashReverse @ b) \<noteq> None} \<union> {}"
    unfolding staging_index [OF assms(2)] by simp
  have "\<exists>n' ins'. newOperations L d ulid (map Some ops) 0 [] [] = Ok (n', ins', [] @ ?b)"
    by (rule newOperations_fresh [OF assms(1) o(1) assms(3) _ K]) simp
  then obtain n' ins' where "newOperations L d ulid (map Some ops) 0 [] [] = Ok (n', ins', ?b)" by auto
  moreover obtain d' where d': "Database_Write d ?b = (Ok (), d')" "opened d'" "content d' = apply_batch ?b (content d)" "ld_enc d' = ld_enc d"
    "ld_encs d' = ld_encs d" using write_content [OF o(1)] by blast
  ultimately have "Database_NewOperations L ulid d (map Some ops) = (Ok (), d')" by (simp add: Database_NewOperations_def)
  moreover have "staging d' (q @ ?F)"
    using staged_map_add_all [OF assms(4) o(2) assms(3), of 0] assms(5) d' by (simp add: staging_def)
  moreover have "\<forall>k. \<not> queue_key k \<longrightarrow> content d' k = content d k" by (simp add: d'(3) stage_puts_other)
  ultimately show ?thesis using d'(4,5) by blast
qed

subsection \<open>Removing operations\<close>

lemma map_of_filter_key:
  "map_of (map (\<lambda>e. (f e, g e)) (filter (\<lambda>e. f e \<noteq> b) q)) b' = (if b' = b then None else map_of (map (\<lambda>e. (f e, g e)) q) b')"
  by (induction q) auto

lemma staged_map_remove:
  assumes "staged_map enc m q" and "\<forall>e \<in> set q. fst (staged_entry enc e) = k \<longleftrightarrow> opkey (snd e) = b" and "take 2 k = keyPrefixStagedOperationFactHash"
  shows "staged_map enc (m(keyPrefixStagedOperationFactHashReverse @ b := None, k := None)) (filter (\<lambda>e. opkey (snd e) \<noteq> b) q)"
proof -
  let ?P = keyPrefixStagedOperationFactHash and ?R = keyPrefixStagedOperationFactHashReverse
  let ?m = "m(?R @ b := None, k := None)" and ?q = "filter (\<lambda>e. opkey (snd e) \<noteq> b) q"
  have R: "?R @ x \<noteq> k" for x using assms(3) by (auto simp: key_prefixes)
  show ?thesis unfolding staged_map_def
  proof (intro conjI allI)
    fix k' v'
    have "m k' = Some v' \<and> take 2 k' = ?P \<longleftrightarrow> (k', v') \<in> staged_entry enc ` set q" using assms(1) unfolding staged_map_def by blast
    moreover have "take 2 k' = ?P \<Longrightarrow> k' \<noteq> ?R @ b" by (auto simp: key_prefixes)
    moreover have "(k', v') \<in> staged_entry enc ` set ?q \<longleftrightarrow> (k', v') \<in> staged_entry enc ` set q \<and> k' \<noteq> k"
    proof
      assume "(k', v') \<in> staged_entry enc ` set ?q"
      then obtain e where "e \<in> set q" "opkey (snd e) \<noteq> b" "staged_entry enc e = (k', v')" by auto
      then show "(k', v') \<in> staged_entry enc ` set q \<and> k' \<noteq> k" using assms(2) by (metis fst_conv image_eqI)
    next
      assume "(k', v') \<in> staged_entry enc ` set q \<and> k' \<noteq> k"
      then obtain e where "e \<in> set q" "staged_entry enc e = (k', v')" "k' \<noteq> k" by auto
      moreover from this have "opkey (snd e) \<noteq> b" using assms(2) by (metis fst_conv)
      ultimately show "(k', v') \<in> staged_entry enc ` set ?q" by (auto intro!: image_eqI [of _ _ e])
    qed
    ultimately show "?m k' = Some v' \<and> take 2 k' = ?P \<longleftrightarrow> (k', v') \<in> staged_entry enc ` set ?q" by auto
  next
    show "sorted_wrt (<) (map (fst \<circ> staged_entry enc) ?q)" using assms(1) by (simp add: staged_map_def sorted_wrt_map sorted_wrt_filter)
    show "\<forall>e \<in> set ?q. length (fst e) = 16 \<and> stageable enc (snd e)" using assms(1) by (auto simp: staged_map_def)
    show "distinct (map (opkey \<circ> snd) ?q)" using assms(1) by (simp add: staged_map_def distinct_map_filter)
  next
    fix b'
    show "?m (?R @ b') = map_of (map (\<lambda>e. (opkey (snd e), fst (staged_entry enc e))) ?q) b'"
      using assms(1) R unfolding map_of_filter_key staged_map_def by auto
  qed
qed

definition unstage_dels :: "encoder \<Rightarrow> (bytes \<times> operation) list \<Rightarrow> bytes \<Rightarrow> batch" where
  "unstage_dels enc q b =
     (case map_of (map (\<lambda>e. (opkey (snd e), fst (staged_entry enc e))) q) b of
        None \<Rightarrow> [] | Some k \<Rightarrow> [BDelete (keyPrefixStagedOperationFactHashReverse @ b), BDelete k])"

lemma leveldbUnstageOperations_dels:
  assumes "staging d q"
  shows "leveldbUnstageOperations d batch hs = Ok (batch @ concat (map (\<lambda>h. unstage_dels (ld_enc d) q (Hash_Bytes h)) hs))"
proof (induction hs arbitrary: batch)
  case (Cons h hs)
  have o: "opened d" using assms by (simp add: staging_def)
  have c: "content d (keyPrefixStagedOperationFactHashReverse @ Hash_Bytes h) =
      map_of (map (\<lambda>e. (opkey (snd e), fst (staged_entry (ld_enc d) e))) q) (Hash_Bytes h)"
    using assms unfolding staging_def staged_map_def by blast
  show ?case using Cons
    by (auto simp: Let_def has_content [OF o] get_content [OF o] staged_key_append c unstage_dels_def split: option.splits)
qed simp

lemma staged_map_unstage:
  assumes "staged_map enc m0 q0"
  shows "staged_map enc m (filter (\<lambda>e. opkey (snd e) \<notin> D) q0) \<Longrightarrow>
    staged_map enc (apply_batch (concat (map (unstage_dels enc q0) bs)) m) (filter (\<lambda>e. opkey (snd e) \<notin> D \<union> set bs) q0)"
proof (induction bs arbitrary: m D)
  case (Cons b bs)
  let ?i = "map_of (map (\<lambda>e. (opkey (snd e), fst (staged_entry enc e))) q0)"
  have uniq: "x = y" if "x \<in> set q0" "y \<in> set q0" "opkey (snd x) = opkey (snd y) \<or> fst (staged_entry enc x) = fst (staged_entry enc y)" for x y
  proof -
    have "inj_on (opkey \<circ> snd) (set q0)" "inj_on (fst \<circ> staged_entry enc) (set q0)"
      using assms unfolding staged_map_def by (simp_all add: distinct_map strict_sorted_iff)
    then show ?thesis using that by (auto simp: inj_on_def)
  qed
  have "staged_map enc (apply_batch (unstage_dels enc q0 b) m) (filter (\<lambda>e. opkey (snd e) \<notin> D \<union> {b}) q0)"
  proof (cases "?i b")
    case None
    then have "b \<notin> (\<lambda>e. opkey (snd e)) ` set q0" by (auto simp: map_of_eq_None_iff image_comp)
    then have "filter (\<lambda>e. opkey (snd e) \<notin> D \<union> {b}) q0 = filter (\<lambda>e. opkey (snd e) \<notin> D) q0" by (auto intro: filter_cong)
    with None Cons.prems show ?thesis by (simp add: unstage_dels_def)
  next
    case (Some k)
    then obtain e where e: "e \<in> set q0" "opkey (snd e) = b" "fst (staged_entry enc e) = k" by (auto dest!: map_of_SomeD)
    have "take 2 k = keyPrefixStagedOperationFactHash" using e(3) by (auto simp: staged_entry_def staged_key_append key_prefixes)
    moreover have "\<forall>x \<in> set q0. fst (staged_entry enc x) = k \<longleftrightarrow> opkey (snd x) = b" using uniq [OF _ e(1)] e(2,3) by auto
    ultimately have "staged_map enc (m(keyPrefixStagedOperationFactHashReverse @ b := None, k := None))
        (filter (\<lambda>e. opkey (snd e) \<noteq> b) (filter (\<lambda>e. opkey (snd e) \<notin> D) q0))"
      by (intro staged_map_remove [OF Cons.prems]) auto
    moreover have "filter (\<lambda>e. opkey (snd e) \<noteq> b) (filter (\<lambda>e. opkey (snd e) \<notin> D) q0) = filter (\<lambda>e. opkey (snd e) \<notin> D \<union> {b}) q0"
      by (auto intro: filter_cong)
    ultimately show ?thesis using Some by (simp add: unstage_dels_def)
  qed
  from Cons.IH [OF this] show ?case by (simp add: Un_assoc)
qed simp

lemma UnstagedOperations_staging:
  assumes "staging d q"
  shows "\<exists>d'. Database_UnstagedOperations d hs = (Ok (), d') \<and> (\<forall>k. \<not> queue_key k \<longrightarrow> content d' k = content d k) \<and>
    ld_enc d' = ld_enc d \<and> ld_encs d' = ld_encs d \<and> staging d' (filter (\<lambda>e. opkey (snd e) \<notin> Hash_Bytes ` set hs) q)"
proof -
  let ?b = "concat (map (\<lambda>h. unstage_dels (ld_enc d) q (Hash_Bytes h)) hs)"
  have o: "opened d" "staged_map (ld_enc d) (content d) q" using assms by (simp_all add: staging_def)
  obtain d' where d': "Database_Write d ?b = (Ok (), d')" "opened d'" "content d' = apply_batch ?b (content d)" "ld_enc d' = ld_enc d"
    "ld_encs d' = ld_encs d" using write_content [OF o(1)] by blast
  have "staged_map (ld_enc d) (apply_batch (concat (map (unstage_dels (ld_enc d) q) (map Hash_Bytes hs))) (content d))
      (filter (\<lambda>e. opkey (snd e) \<notin> {} \<union> set (map Hash_Bytes hs)) q)"
    by (rule staged_map_unstage [OF o(2)]) (use o(2) in simp)
  then have "staging d' (filter (\<lambda>e. opkey (snd e) \<notin> Hash_Bytes ` set hs) q)"
    using d' by (simp add: staging_def comp_def)
  moreover have "\<forall>k. \<not> queue_key k \<longrightarrow> content d' k = content d k"
  proof (intro allI impI)
    fix k assume k: "\<not> queue_key k"
    then have del: "apply_batch (unstage_dels (ld_enc d) q b) m k = m k" for b m
      by (auto simp: unstage_dels_def staged_entry_def staged_key_append queue_key_simps dest!: map_of_SomeD split: option.splits)
    have "apply_batch (concat (map (\<lambda>h. unstage_dels (ld_enc d) q (Hash_Bytes h)) hs)) m k = m k" for m
      by (induction hs arbitrary: m) (simp_all add: del)
    then show "content d' k = content d k" by (simp add: d'(3))
  qed
  ultimately show ?thesis using d' leveldbUnstageOperations_dels [OF assms, of "[]" hs] by (simp add: Database_UnstagedOperations_def)
qed

subsection \<open>Reading the queue\<close>

lemma staging_entries:
  assumes "staging d q" shows "entries d keyPrefixStagedOperationFactHash = map (staged_entry (ld_enc d)) q"
proof (rule sorted_keys_unique)
  have o: "opened d" using assms by (simp add: staging_def)
  show "sorted_wrt (<) (map fst (entries d keyPrefixStagedOperationFactHash))" by (rule entries_content(2) [OF o])
  show "sorted_wrt (<) (map fst (map (staged_entry (ld_enc d)) q))" using assms by (simp add: staging_def staged_map_def)
  have "length keyPrefixStagedOperationFactHash = 2" by (simp add: keyPrefixStagedOperationFactHash_def)
  then have "(k, v) \<in> set (entries d keyPrefixStagedOperationFactHash) \<longleftrightarrow> (k, v) \<in> staged_entry (ld_enc d) ` set q" for k v
    using assms entries_content(3) [OF o, of k v keyPrefixStagedOperationFactHash] unfolding staging_def staged_map_def by simp
  then show "set (entries d keyPrefixStagedOperationFactHash) = set (map (staged_entry (ld_enc d)) q)" by auto
qed

lemma loadOperation_encoded:
  assumes "opened d" and "stageable (ld_enc d) op"
  shows "Database_loadOperation d (encoded (ld_enc d) (SOperation op)) = Ok (Some op)"
  using load_encoded(2) [OF assms(1), of "SOperation op"] assms(2)
  by (simp add: Database_loadOperation_def load_as_def stageable_def)

fun op_iter :: "(operation option \<Rightarrow> 'a \<Rightarrow> bool res \<times> 'a) \<Rightarrow> operation list \<Rightarrow> 'a \<Rightarrow> unit res \<times> 'a" where
  "op_iter cb [] a = (Ok (), a)"
| "op_iter cb (op # ops) a =
     (case cb (Some op) a of (Err x, a') \<Rightarrow> (Err x, a') | (Panic, a') \<Rightarrow> (Panic, a')
      | (Ok keep, a') \<Rightarrow> (if keep then op_iter cb ops a' else (Ok (), a')))"

lemma StagedOperations_iter:
  assumes "staging d q"
  shows "Database_StagedOperations d cb srt a = op_iter cb (if srt then map snd q else rev (map snd q)) a"
proof -
  have o: "opened d" using assms by (simp add: staging_def)
  let ?cb = "\<lambda>_ value a. case Database_loadOperation d value of Err e \<Rightarrow> (Err e, a) | Panic \<Rightarrow> (Panic, a) | Ok op \<Rightarrow> cb op a"
  have "iter_loop ?cb (map (staged_entry (ld_enc d)) es) None a = op_iter cb (map snd es) a" if "\<forall>e \<in> set es. stageable (ld_enc d) (snd e)" for es a
    using that
  proof (induction es arbitrary: a)
    case (Cons e es)
    then show ?case by (auto simp: staged_entry_def loadOperation_encoded [OF o] split: prod.splits res.splits)
  qed simp
  from this [of q] this [of "rev q"] show ?thesis
    using assms unfolding Database_StagedOperations_def iter_content [OF o] staging_entries [OF assms] staging_def staged_map_def
    by (auto simp: rev_map)
qed

lemma filter_key_unique: "distinct (map f xs) \<Longrightarrow> x \<in> set xs \<Longrightarrow> filter (\<lambda>y. f y = f x) xs = [x]"
proof (induction xs)
  case (Cons y xs)
  then show ?case by (cases "y = x") (auto simp: filter_empty_conv image_iff)
qed simp

lemma StagedOperationsByFact_staging:
  assumes "staging d q"
  shows "Database_StagedOperationsByFact d hs = Ok (map Some (concat (map (\<lambda>h. filter (\<lambda>op. opkey op = Hash_Bytes h) (map snd q)) hs)))"
proof (induction hs)
  case (Cons h hs)
  have o: "opened d" using assms by (simp add: staging_def)
  have m: "staged_map (ld_enc d) (content d) q" using assms by (simp add: staging_def)
  let ?i = "map_of (map (\<lambda>e. (opkey (snd e), fst (staged_entry (ld_enc d) e))) q)"
  have c: "content d (newStagedOperationReverseKey h) = ?i (Hash_Bytes h)"
    using m unfolding staged_map_def staged_key_append by blast
  show ?case
  proof (cases "?i (Hash_Bytes h)")
    case None
    then have "filter (\<lambda>op. opkey op = Hash_Bytes h) (map snd q) = []" by (force simp: map_of_eq_None_iff image_comp filter_empty_conv)
    with None Cons show ?thesis by (simp add: get_content [OF o] c)
  next
    case (Some k)
    then obtain e where e: "e \<in> set q" "opkey (snd e) = Hash_Bytes h" "fst (staged_entry (ld_enc d) e) = k" by (auto dest!: map_of_SomeD)
    then have "content d k = Some (encoded (ld_enc d) (SOperation (snd e)))" "stageable (ld_enc d) (snd e)"
      using m unfolding staged_map_def by (force simp: staged_entry_def)+
    moreover have "filter (\<lambda>op. opkey op = Hash_Bytes h) (map snd q) = [snd e]"
    proof -
      have "distinct (map opkey (map snd q))" using m by (simp add: staged_map_def)
      from filter_key_unique [OF this, of "snd e"] show ?thesis using e(1,2) by simp
    qed
    ultimately show ?thesis using Some Cons by (simp add: get_content [OF o] c loadOperation_encoded [OF o])
  qed
qed simp

section \<open>Proposals\<close>

definition stored_proposals :: "'s database \<Rightarrow> bytes \<rightharpoonup> ballot" where
  "stored_proposals d b =
     (case content d (keyPrefixProposal @ b) of
        None \<Rightarrow> None | Some v \<Rightarrow> (case Database_loadProposal d v of Ok (Some p) \<Rightarrow> Some p | _ \<Rightarrow> None))"

definition proposals_readable :: "'s database \<Rightarrow> bool" where
  "proposals_readable d \<longleftrightarrow> (\<forall>b v. content d (keyPrefixProposal @ b) = Some v \<longrightarrow> (\<exists>p. Database_loadProposal d v = Ok (Some p)))"

text \<open>A proposal that can be stored, and the form it is read back in.\<close>

definition storable_proposal :: "encoder \<Rightarrow> ballot \<Rightarrow> bool" where
  "storable_proposal enc p \<longleftrightarrow> reads_back enc (SProposal p) \<and>
     (\<exists>f h a. Proposal_Fact p = Ok f \<and> Fact_Hash f = Some h \<and> Fact_Stage f = StageProposal \<and> proposer f = Some a)"

definition proposal_key :: "ballot \<Rightarrow> bytes" where
  "proposal_key p = opt_bytes (Fact_Hash (ok_val (Proposal_Fact p)))"

definition without_closure :: "ballot \<Rightarrow> ballot" where
  "without_closure p = p\<lparr>bl_seal := (bl_seal p)\<lparr>sl_bodyHashFunc := None\<rparr>\<rparr>"

lemma loadProposal_cong:
  "ld_encs d' = ld_encs d \<Longrightarrow> Database_loadProposal d' v = Database_loadProposal d v"
  by (simp add: Database_loadProposal_def load_as_def Database_loadHinter_def)

lemma Proposal_lookup:
  assumes "opened d" and "proposals_readable d"
  shows "Database_Proposal d h = Ok (stored_proposals d (Hash_Bytes h), stored_proposals d (Hash_Bytes h) \<noteq> None)"
proof (cases "content d (keyPrefixProposal @ Hash_Bytes h)")
  case None
  then show ?thesis
    by (simp add: Database_Proposal_def Database_proposalByKey_def lookup_with_def get_content [OF assms(1)] staged_key_append stored_proposals_def)
next
  case (Some v)
  with assms(2) obtain p where p: "Database_loadProposal d v = Ok (Some p)" unfolding proposals_readable_def by blast
  with Some show ?thesis
    by (simp add: Database_Proposal_def Database_proposalByKey_def lookup_with_def get_content [OF assms(1)] staged_key_append stored_proposals_def
        loaded_def)
qed

lemma NewProposal_stored:
  assumes "opened d" and "proposals_readable d" and "storable_proposal (ld_enc d) p"
  shows "\<exists>d'. Database_NewProposal d p = (Ok (), d') \<and> opened d' \<and> proposals_readable d' \<and> ld_enc d' = ld_enc d \<and> ld_encs d' = ld_encs d \<and>
    (\<forall>k. take 2 k \<noteq> keyPrefixProposal \<and> take 2 k \<noteq> keyPrefixProposalFacts \<longrightarrow> content d' k = content d k) \<and>
    stored_proposals d' = (if proposal_key p \<in> dom (stored_proposals d) then stored_proposals d
       else (stored_proposals d)(proposal_key p \<mapsto> without_closure p))"
proof -
  from assms(3) obtain f h a where f: "Proposal_Fact p = Ok f" "Fact_Hash f = Some h" "Fact_Stage f = StageProposal" "proposer f = Some a"
    and r: "reads_back (ld_enc d) (SProposal p)" unfolding storable_proposal_def by blast
  have k: "proposal_key p = Hash_Bytes h" by (simp add: proposal_key_def f opt_bytes_def)
  have in_dom: "proposal_key p \<in> dom (stored_proposals d) \<longleftrightarrow> content d (keyPrefixProposal @ Hash_Bytes h) \<noteq> None"
    using assms(2) unfolding k proposals_readable_def by (fastforce simp: stored_proposals_def split: option.splits)
  show ?thesis
  proof (cases "content d (keyPrefixProposal @ Hash_Bytes h) = None")
    case False
    then have "Database_NewProposal d p = (Ok (), d)"
      by (simp add: Database_NewProposal_def f of_hash_def has_content [OF assms(1)] staged_key_append)
    with False assms in_dom show ?thesis by auto
  next
    case True
    have m: "marshal (SProposal p) (ld_enc d) = Ok (encoded (ld_enc d) (SProposal p))" by (rule load_encoded(1) [OF assms(1) r])
    then obtain raw where raw: "en_Marshal (ld_enc d) (SProposal p) = Ok raw" "encoded (ld_enc d) (SProposal p) = encodeWithEncoder raw (ld_enc d)"
      by (auto simp: marshal_def bind_res_Ok_iff)
    let ?v = "encoded (ld_enc d) (SProposal p)" and ?k = "keyPrefixProposal @ Hash_Bytes h"
      and ?fk = "proposalFactsKey (Fact_Height f) (Fact_Round f) a"
    obtain d' where d': "Database_Write d [BPut ?k ?v, BPut ?fk ?k] = (Ok (), d')" "opened d'" "content d' = (content d)(?k \<mapsto> ?v, ?fk \<mapsto> ?k)"
      "ld_enc d' = ld_enc d" "ld_encs d' = ld_encs d" using write_content [OF assms(1), of "[BPut ?k ?v, BPut ?fk ?k]"] by auto
    have n: "Database_NewProposal d p = (Ok (), d')"
      using True d'(1) by (simp add: Database_NewProposal_def f of_hash_def has_content [OF assms(1)] staged_key_append raw)
    have fk: "keyPrefixProposal @ x \<noteq> ?fk" "take 2 ?fk = keyPrefixProposalFacts" "take 2 ?k = keyPrefixProposal" for x
      by (simp_all add: proposalFactsKey_def key_prefixes)
    have v: "Database_loadProposal d ?v = Ok (Some (without_closure p))"
      using load_encoded(2) [OF assms(1) r]
      by (simp add: Database_loadProposal_def load_as_def without_closure_def)
    have c: "content d' (keyPrefixProposal @ b) = (if b = Hash_Bytes h then Some ?v else content d (keyPrefixProposal @ b))" for b
      using fk(1) by (simp add: d'(3))
    have "stored_proposals d' = (stored_proposals d)(Hash_Bytes h \<mapsto> without_closure p)"
      by (rule ext) (simp add: stored_proposals_def c v loadProposal_cong [OF d'(5)] split: option.split)
    moreover have "proposals_readable d'"
      using assms(2) unfolding proposals_readable_def c by (auto simp: v loadProposal_cong [OF d'(5)])
    moreover have "\<forall>k. take 2 k \<noteq> keyPrefixProposal \<and> take 2 k \<noteq> keyPrefixProposalFacts \<longrightarrow> content d' k = content d k"
      using fk by (auto simp: d'(3))
    ultimately show ?thesis using n d'(2,4,5) True in_dom k by auto
  qed
qed

section \<open>The interface\<close>

text \<open>
  The part of \<open>storage.Database\<close> that the proposal maker, the checkers and the operation extractor call, on a database of type \<open>'d\<close>;
  \<open>'a\<close> is the state of the callback of \<open>StagedOperations\<close>.
\<close>

record ('d, 'a) storage_db =
  db_LastManifest :: "'d \<Rightarrow> (manifest option \<times> bool) res"
  db_ManifestByHeight :: "'d \<Rightarrow> height \<Rightarrow> (manifest option \<times> bool) res"
  db_LastVoteproof :: "'d \<Rightarrow> stage \<Rightarrow> voteproof option res"
  db_Voteproof :: "'d \<Rightarrow> height \<Rightarrow> stage \<Rightarrow> voteproof option res"
  db_Proposal :: "'d \<Rightarrow> hash \<Rightarrow> (ballot option \<times> bool) res"
  db_NewProposal :: "'d \<Rightarrow> ballot \<Rightarrow> unit res \<times> 'd"
  db_HasOperationFact :: "'d \<Rightarrow> hash \<Rightarrow> bool res"
  db_NewOperations :: "lib \<Rightarrow> (nat \<Rightarrow> bytes) \<Rightarrow> 'd \<Rightarrow> operation option list \<Rightarrow> unit res \<times> 'd"
  db_NewOperationSeals :: "lib \<Rightarrow> (nat \<Rightarrow> bytes) \<Rightarrow> 'd \<Rightarrow> operation_seal list \<Rightarrow> unit res \<times> 'd"
  db_StagedOperationsByFact :: "'d \<Rightarrow> hash list \<Rightarrow> operation option list res"
  db_StagedOperations :: "'d \<Rightarrow> (operation option \<Rightarrow> 'a \<Rightarrow> bool res \<times> 'a) \<Rightarrow> bool \<Rightarrow> 'a \<Rightarrow> unit res \<times> 'a"
  db_UnstagedOperations :: "'d \<Rightarrow> hash list \<Rightarrow> unit res \<times> 'd"

definition leveldb_storage :: "('s database, 'a) storage_db" where
  "leveldb_storage = \<lparr>
     db_LastManifest = Database_LastManifest,
     db_ManifestByHeight = Database_ManifestByHeight,
     db_LastVoteproof = Database_LastVoteproof,
     db_Voteproof = (\<lambda>d h st. bind_res (Database_Voteproof d h st) (\<lambda>v. Ok (Some v))),
     db_Proposal = Database_Proposal,
     db_NewProposal = Database_NewProposal,
     db_HasOperationFact = Database_HasOperationFact,
     db_NewOperations = Database_NewOperations,
     db_NewOperationSeals = Database_NewOperationSeals,
     db_StagedOperationsByFact = Database_StagedOperationsByFact,
     db_StagedOperations = Database_StagedOperations,
     db_UnstagedOperations = Database_UnstagedOperations\<rparr>"

text \<open>The contract of the queue of staged operations; \<open>inv\<close> is the implementation's own invariant.\<close>

locale staging_store =
  fixes D :: "('d, 'a) storage_db" and inv :: "'d \<Rightarrow> bool" and staged :: "'d \<Rightarrow> operation list" and facts :: "'d \<Rightarrow> bytes set"
  assumes has_fact: "inv d \<Longrightarrow> db_HasOperationFact D d h = Ok (Hash_Bytes h \<in> facts d)"
    and staged_unique: "inv d \<Longrightarrow> distinct (map opkey (staged d))"
    and staged_hash: "inv d \<Longrightarrow> op \<in> set (staged d) \<Longrightarrow> \<exists>h. Operation_FactHash op = Ok h"
    and iterate: "inv d \<Longrightarrow> db_StagedOperations D d cb True a = op_iter cb (staged d) a"
    and by_fact: "inv d \<Longrightarrow> db_StagedOperationsByFact D d hs =
      Ok (map Some (concat (map (\<lambda>h. filter (\<lambda>op. opkey op = Hash_Bytes h) (staged d)) hs)))"
    and unstage: "inv d \<Longrightarrow> \<exists>d'. db_UnstagedOperations D d hs = (Ok (), d') \<and> inv d' \<and> facts d' = facts d \<and>
      staged d' = filter (\<lambda>op. opkey op \<notin> Hash_Bytes ` set hs) (staged d)"

text \<open>The contract of the proposals, on top of it.\<close>

locale proposal_store = staging_store D inv staged facts
  for D :: "('d, 'a) storage_db" and inv :: "'d \<Rightarrow> bool" and staged :: "'d \<Rightarrow> operation list" and facts :: "'d \<Rightarrow> bytes set" +
  fixes proposals :: "'d \<Rightarrow> bytes \<rightharpoonup> ballot" and storable :: "'d \<Rightarrow> ballot \<Rightarrow> bool"
  assumes look_up: "inv d \<Longrightarrow> db_Proposal D d h = Ok (proposals d (Hash_Bytes h), proposals d (Hash_Bytes h) \<noteq> None)"
    and save: "inv d \<Longrightarrow> storable d p \<Longrightarrow> \<exists>d'. db_NewProposal D d p = (Ok (), d') \<and> inv d' \<and> staged d' = staged d \<and> facts d' = facts d \<and>
      proposals d' = (if proposal_key p \<in> dom (proposals d) then proposals d else (proposals d)(proposal_key p \<mapsto> without_closure p))"
begin

text \<open>A saved proposal is found, and saving never replaces one.\<close>

lemma saved_found:
  assumes "inv d" and "storable d p" and "db_NewProposal D d p = (r, d')" and "Hash_Bytes h = proposal_key p"
  shows "\<exists>p'. db_Proposal D d' h = Ok (Some p', True) \<and> (proposals d (proposal_key p) = None \<longrightarrow> p' = without_closure p)"
  using save [OF assms(1,2)] assms(3,4) by (auto simp: look_up)

lemma saved_keeps:
  assumes "inv d" and "storable d p" and "db_NewProposal D d p = (r, d')" and "db_Proposal D d h = Ok (Some q, True)"
  shows "db_Proposal D d' h = Ok (Some q, True)"
  using save [OF assms(1,2)] assms(1,3,4) by (auto simp: look_up)

end

subsection \<open>LevelDB keeps the contract\<close>

definition staged_operations :: "'s database \<Rightarrow> operation list" where
  "staged_operations d = map (\<lambda>e. the (ok_val (Database_loadOperation d (snd e)))) (entries d keyPrefixStagedOperationFactHash)"

definition leveldb_inv :: "'s database \<Rightarrow> bool" where
  "leveldb_inv d \<longleftrightarrow> (\<exists>q. staging d q) \<and> proposals_readable d"

lemma staged_operations_queue:
  assumes "staging d q" shows "staged_operations d = map snd q"
proof -
  have o: "opened d" "\<forall>e \<in> set q. stageable (ld_enc d) (snd e)" using assms by (auto simp: staging_def staged_map_def)
  show ?thesis unfolding staged_operations_def staging_entries [OF assms] using o(2)
    by (auto simp: staged_entry_def loadOperation_encoded [OF o(1)])
qed

lemma other_keys_same:
  assumes "\<forall>k. \<not> queue_key k \<longrightarrow> content d' k = content d k" and "ld_encs d' = ld_encs d"
  shows "known d' = known d" "proposals_readable d' = proposals_readable d" "stored_proposals d' = stored_proposals d"
  using assms(1) unfolding known_def proposals_readable_def stored_proposals_def [abs_def]
  by (simp_all add: queue_key_simps loadProposal_cong [OF assms(2)] fun_eq_iff split: option.split)

interpretation leveldb: proposal_store "leveldb_storage :: ('s database, 'a) storage_db" leveldb_inv staged_operations known stored_proposals "\<lambda>d. storable_proposal (ld_enc d)"
proof unfold_locales
  fix d :: "'s database" and h hs op p
  fix cb :: "operation option \<Rightarrow> 'a \<Rightarrow> bool res \<times> 'a" and a
  assume i: "leveldb_inv d"
  then obtain q where q: "staging d q" and r: "proposals_readable d" by (auto simp: leveldb_inv_def)
  have o: "opened d" and s: "staged_map (ld_enc d) (content d) q" using q by (auto simp: staging_def)
  note sq = staged_operations_queue [OF q]
  show "db_HasOperationFact leveldb_storage d h = Ok (Hash_Bytes h \<in> known d)"
    by (simp add: leveldb_storage_def HasOperationFact_known [OF o])
  show "distinct (map opkey (staged_operations d))" using s by (simp add: sq staged_map_def)
  show "op \<in> set (staged_operations d) \<Longrightarrow> \<exists>h. Operation_FactHash op = Ok h" using s by (auto simp: sq staged_map_def stageable_def)
  show "db_StagedOperations leveldb_storage d cb True a = op_iter cb (staged_operations d) a"
    by (simp add: leveldb_storage_def StagedOperations_iter [OF q] sq)
  show "db_StagedOperationsByFact leveldb_storage d hs =
      Ok (map Some (concat (map (\<lambda>h. filter (\<lambda>op. opkey op = Hash_Bytes h) (staged_operations d)) hs)))"
    by (simp add: leveldb_storage_def StagedOperationsByFact_staging [OF q] sq)
  show "\<exists>d'. db_UnstagedOperations leveldb_storage d hs = (Ok (), d') \<and> leveldb_inv d' \<and> known d' = known d \<and>
      staged_operations d' = filter (\<lambda>op. opkey op \<notin> Hash_Bytes ` set hs) (staged_operations d)"
  proof -
    obtain d' where d': "Database_UnstagedOperations d hs = (Ok (), d')" "\<forall>k. \<not> queue_key k \<longrightarrow> content d' k = content d k" "ld_encs d' = ld_encs d"
      "staging d' (filter (\<lambda>e. opkey (snd e) \<notin> Hash_Bytes ` set hs) q)" using UnstagedOperations_staging [OF q] by blast
    then show ?thesis using r other_keys_same [OF d'(2,3)]
      by (auto simp: leveldb_storage_def leveldb_inv_def staged_operations_queue [OF d'(4)] sq filter_map comp_def)
  qed
  show "db_Proposal leveldb_storage d h = Ok (stored_proposals d (Hash_Bytes h), stored_proposals d (Hash_Bytes h) \<noteq> None)"
    by (simp add: leveldb_storage_def Proposal_lookup [OF o r])
  show "storable_proposal (ld_enc d) p \<Longrightarrow> \<exists>d'. db_NewProposal leveldb_storage d p = (Ok (), d') \<and> leveldb_inv d' \<and>
      staged_operations d' = staged_operations d \<and> known d' = known d \<and>
      stored_proposals d' = (if proposal_key p \<in> dom (stored_proposals d) then stored_proposals d
        else (stored_proposals d)(proposal_key p \<mapsto> without_closure p))"
  proof -
    assume p: "storable_proposal (ld_enc d) p"
    obtain d' where d': "Database_NewProposal d p = (Ok (), d')" "opened d'" "proposals_readable d'" "ld_enc d' = ld_enc d"
      "\<forall>k. take 2 k \<noteq> keyPrefixProposal \<and> take 2 k \<noteq> keyPrefixProposalFacts \<longrightarrow> content d' k = content d k"
      "stored_proposals d' = (if proposal_key p \<in> dom (stored_proposals d) then stored_proposals d
        else (stored_proposals d)(proposal_key p \<mapsto> without_closure p))" using NewProposal_stored [OF o r p] by blast
    have "content d' k = content d k" if "queue_key k" for k
      using that by (intro d'(5) [rule_format]) (auto simp: queue_key_def key_prefixes)
    then have "staging d' q" using s d'(2,4) unfolding staging_def by (metis staged_map_frame)
    moreover have "known d' = known d"
      using d'(5) unfolding known_def by (simp add: key_prefixes)
    ultimately show ?thesis using d'(1,3,6) sq by (auto simp: leveldb_storage_def leveldb_inv_def staged_operations_queue)
  qed
qed

section \<open>Properties\<close>


text \<open>
  The order of arrival is lost when ULIDs start over: \<open>util.ULID\<close> uses a fixed time and a fixed seed, so a restarted node draws the same
  ULIDs again; an operation that gets a smaller ULID than the waiting ones is served before all of them, although the interface says
  staged operations come by incoming order.
\<close>

theorem staged_order_lost_on_restart:
  assumes "base58_codec L" and "staging d q" and "stageable (ld_enc d) op" and "opkey op \<notin> known d \<union> opkey ` set (staged_operations d)"
    and "length u = 16" and "\<forall>e \<in> set q. u < fst e"
  shows "\<exists>d'. Database_NewOperations L (\<lambda>_. u) d [Some op] = (Ok (), d') \<and> staged_operations d' = op # staged_operations d"
proof -
  note sq = staged_operations_queue [OF assms(2)]
  have o: "opened d" "staged_map (ld_enc d) (content d) q" using assms(2) by (simp_all add: staging_def)
  let ?K = "known d \<union> {b. content d (keyPrefixStagedOperationFactHashReverse @ b) \<noteq> None} \<union> {}"
  have k: "opkey op \<notin> ?K" "opkey op \<notin> (opkey \<circ> snd) ` set ([] @ q)" using assms(4) unfolding staging_index [OF assms(2)] sq by (auto simp: image_comp)
  let ?b = "stage_puts (ld_enc d) (u, op)"
  have "\<exists>n' ins'. newOperations L d (\<lambda>_. u) (map Some [op]) 0 [] [] = Ok (n', ins', [] @ concat (map (stage_puts (ld_enc d)) (fresh ?K (\<lambda>_. u) 0 [op])))"
    by (rule newOperations_fresh [OF assms(1) o(1) _ _ refl]) (use assms(3) in auto)
  then obtain n' ins' where "newOperations L d (\<lambda>_. u) [Some op] 0 [] [] = Ok (n', ins', ?b)" using k(1) by auto
  moreover obtain d' where d': "Database_Write d ?b = (Ok (), d')" "opened d'" "content d' = apply_batch ?b (content d)" "ld_enc d' = ld_enc d"
    using write_content [OF o(1)] by blast
  ultimately have "Database_NewOperations L (\<lambda>_. u) d [Some op] = (Ok (), d')" by (simp add: Database_NewOperations_def)
  moreover have "staging d' ([] @ (u, op) # q)"
    unfolding staging_def d'(3,4) using staged_map_insert [of "ld_enc d" "content d" "[]" q u op] o(2) assms(3,5,6) k(2) d'(2) by simp
  ultimately show ?thesis using staged_operations_queue [of d' "(u, op) # q"] sq by simp
qed

lemma newOperations_append:
  "newOperations L st ulid (xs @ ys) n ins batch =
     bind_res (newOperations L st ulid xs n ins batch) (\<lambda>(n', ins', batch'). newOperations L st ulid ys n' ins' batch')"
proof (induction xs arbitrary: n ins batch)
  case (Cons x xs)
  show ?case
  proof (cases x)
    case (Some op)
    show ?thesis
    proof (cases "Operation_FactHash op")
      case (Ok h)
      obtain r ins' where f: "stagedOperationFilter L st ins h = (r, ins')" by fastforce
      show ?thesis using Cons Some Ok f by (cases r; cases "Database_newOperation st (ulid n) batch op h") auto
    qed (simp_all add: Some)
  qed simp
qed simp

lemma newOperationSeals_concat:
  "newOperationSeals L st ulid seals n ins batch =
     bind_res (newOperations L st ulid (concat (map os_ops seals)) n ins batch) (\<lambda>(n', ins', batch'). Ok batch')"
proof (induction L st ulid seals n ins batch rule: newOperationSeals.induct)
  case (2 L st ulid sl sls n ins batch)
  then show ?case by (cases "newOperations L st ulid (os_ops sl) n ins batch") (auto simp: newOperations_append)
qed simp

text \<open>
  Storing operation seals is storing their operations: \<open>NewOperationSeals\<close> of any seals, on any database, behaves as \<open>NewOperations\<close> of
  all their operations in a row, results, errors and the written batch included.
\<close>

theorem operation_seals_as_operations:
  "Database_NewOperationSeals L ulid st seals = Database_NewOperations L ulid st (concat (map os_ops seals))"
  unfolding Database_NewOperationSeals_def Database_NewOperations_def newOperationSeals_concat
  by (cases "newOperations L st ulid (concat (map os_ops seals)) 0 [] []") auto

text \<open>
  A proposal that was saved is found under its fact hash, the first one saved for a hash stays, and every proposal that could be found
  before still is.
\<close>

theorem proposals_saved:
  fixes d :: "'s database"
  assumes "leveldb_inv d" and "storable_proposal (ld_enc d) p" and "Hash_Bytes h = proposal_key p"
  shows "\<exists>d' p'. Database_NewProposal d p = (Ok (), d') \<and> leveldb_inv d' \<and> Database_Proposal d' h = Ok (Some p', True) \<and>
    (stored_proposals d (proposal_key p) = None \<longrightarrow> p' = without_closure p) \<and>
    (\<forall>g q. Database_Proposal d g = Ok (Some q, True) \<longrightarrow> Database_Proposal d' g = Ok (Some q, True))"
proof -
  let ?D = "leveldb_storage :: ('s database, unit) storage_db"
  have f: "db_NewProposal ?D = Database_NewProposal" "db_Proposal ?D = Database_Proposal" by (simp_all add: leveldb_storage_def)
  obtain d' where d': "db_NewProposal ?D d p = (Ok (), d')" "leveldb_inv d'"
    using leveldb.save [OF assms(1,2)] by blast
  from leveldb.saved_found [OF assms(1,2) d'(1) assms(3)] leveldb.saved_keeps [OF assms(1,2) d'(1)] d' show ?thesis unfolding f by metis
qed

section \<open>A concrete instance\<close>

text \<open>A store kept as a list sorted by key.\<close>

type_synonym alist_store = "(bytes \<times> bytes) list"

fun al_put :: "bytes \<Rightarrow> bytes \<Rightarrow> alist_store \<Rightarrow> alist_store" where
  "al_put k v [] = [(k, v)]"
| "al_put k v ((k', v') # m) =
     (if k < k' then (k, v) # (k', v') # m else if k = k' then (k, v) # m else (k', v') # al_put k v m)"

fun al_apply :: "batch_op \<Rightarrow> alist_store \<Rightarrow> alist_store" where
  "al_apply (BPut k v) m = al_put k v m"
| "al_apply (BDelete k) m = filter (\<lambda>e. fst e \<noteq> k) m"

definition sample_leveldb :: "alist_store leveldb" where
  "sample_leveldb = \<lparr>
     lv_Get = (\<lambda>m k. case map_of m k of None \<Rightarrow> Err ErrNotFound | Some v \<Rightarrow> Ok v),
     lv_Has = (\<lambda>m k. Ok (map_of m k \<noteq> None)),
     lv_Put = (\<lambda>m k v. (Ok (), al_put k v m)),
     lv_Write = (\<lambda>m b. (Ok (), fold al_apply b m)),
     lv_Iterate = (\<lambda>m p. (filter (\<lambda>e. take (length p) (fst e) = p) m, None)),
     lv_OpenMem = []\<rparr>"

lemma al_put_keys: "fst ` set (al_put k v m) = insert k (fst ` set m)"
  by (induction k v m rule: al_put.induct) auto

lemma al_put_sorted: "sorted_wrt (<) (map fst m) \<Longrightarrow> sorted_wrt (<) (map fst (al_put k v m))"
proof (induction k v m rule: al_put.induct)
  case (2 k v k' v' m)
  have "x \<in> set (al_put k v m) \<Longrightarrow> fst x = k \<or> fst x \<in> fst ` set m" for x using al_put_keys [of k v m] by auto
  with 2 show ?case by (force intro: less_trans)
qed simp

lemma al_put_map_of: "sorted_wrt (<) (map fst m) \<Longrightarrow> map_of (al_put k v m) = (map_of m)(k \<mapsto> v)"
proof (induction k v m rule: al_put.induct)
  case (2 k v k' v' m)
  have "k \<notin> fst ` set ((k', v') # m)" if "k < k'" using 2(2) that by (auto dest: less_asym)
  with 2 show ?case by (auto simp: fun_eq_iff)
qed simp

lemma al_apply_ok:
  assumes "sorted_wrt (<) (map fst m)"
  shows "sorted_wrt (<) (map fst (al_apply b m))" "map_of (al_apply b m) = apply_op b (map_of m)"
proof -
  have del: "map_of (filter (\<lambda>e. fst e \<noteq> k) m) = (map_of m)(k := None)" for k by (induction m) auto
  have flt: "sorted_wrt (<) (map fst (filter P m))" for P using assms by (simp add: sorted_wrt_map sorted_wrt_filter)
  show "sorted_wrt (<) (map fst (al_apply b m))" using al_put_sorted [OF assms] flt by (cases b) simp_all
  show "map_of (al_apply b m) = apply_op b (map_of m)" using al_put_map_of [OF assms] del by (cases b) simp_all
qed

lemma al_fold_ok:
  "sorted_wrt (<) (map fst m) \<Longrightarrow> sorted_wrt (<) (map fst (fold al_apply b m)) \<and> map_of (fold al_apply b m) = apply_batch b (map_of m)"
  by (induction b arbitrary: m) (simp_all add: al_apply_ok)

lemma sample_kv: "kv sample_leveldb m = map_of m"
  by (simp add: kv_def sample_leveldb_def fun_eq_iff split: option.split)

lemma sample_goleveldb: "goleveldb sample_leveldb {m. sorted_wrt (<) (map fst m)}"
proof -
  have "(k, v) \<in> set (filter (\<lambda>e. take (length p) (fst e) = p) m) \<longleftrightarrow> map_of m k = Some v \<and> take (length p) k = p"
    if "sorted_wrt (<) (map fst m)" for m :: alist_store and k v p
  proof -
    have "distinct (map fst m)" using that by (simp add: strict_sorted_iff)
    then show ?thesis by auto
  qed
  moreover have "sorted_wrt (<) (map fst (filter P m))" if "sorted_wrt (<) (map fst m)" for P and m :: alist_store
    using that by (simp add: sorted_wrt_map sorted_wrt_filter)
  moreover have "lv_Iterate sample_leveldb m p = (filter (\<lambda>e. take (length p) (fst e) = p) m, None)"
    "lv_Get sample_leveldb m k = (case map_of m k of None \<Rightarrow> Err ErrNotFound | Some v \<Rightarrow> Ok v)" "lv_Has sample_leveldb m k = Ok (map_of m k \<noteq> None)"
    "lv_Put sample_leveldb m k v = (Ok (), al_put k v m)" "lv_Write sample_leveldb m b = (Ok (), fold al_apply b m)" "lv_OpenMem sample_leveldb = []"
    for m p k v b by (simp_all add: sample_leveldb_def)
  ultimately show ?thesis unfolding goleveldb_def sample_kv
    by (simp add: al_put_sorted al_put_map_of al_fold_ok del: set_filter)
qed

text \<open>Operations told apart by the bytes of their fact hash, and an encoder that writes those bytes.\<close>

definition op_of :: "bytes \<Rightarrow> operation" where
  "op_of b = NewBaseOperation (NewHint ''op'' ''v0.0.1'') (Some (sample_opfact\<lparr>of_h := Some (NewBytes b)\<rparr>)) None []"

definition sample_proposal :: ballot where
  "sample_proposal = \<lparr>bl_kind = KProposal, bl_seal = (NewBaseSealWithHint ProposalHint)\<lparr>sl_bodyHashFunc := Some (NewBytes [8])\<rparr>,
     bl_sfs = Some (NewBaseSignedBallotFact (Some (ProposalFact \<lparr>bf_ht = ProposalFactHint, bf_h = Some (NewBytes [7, 7]), bf_height = 33, bf_round = 0\<rparr>
       (Some (NewStringAddress ''node0'')) [Some (NewBytes [3])] 4)) None),
     bl_baseVoteproof = None, bl_acceptVoteproof = None\<rparr>"

definition sample_encoder :: encoder where
  "sample_encoder = \<lparr>
     en_ht = NewHint ''json-encoder'' ''v0.0.1'',
     en_Marshal = (\<lambda>x. case x of
        SHash h \<Rightarrow> Ok (Hash_Bytes h)
      | SOperation op \<Rightarrow> Ok (1 # opkey op)
      | SProposal p \<Rightarrow> Ok [2]
      | _ \<Rightarrow> Err (plain ''unknown type'')),
     en_Decode = (\<lambda>b. if b = [2] then Ok (Some (decoded_form (SProposal sample_proposal)))
        else if b \<noteq> [] \<and> hd b = 1 then Ok (Some (SOperation (op_of (tl b)))) else Err (plain ''unknown type'')),
     en_UnmarshalHash = (\<lambda>b. Ok b)\<rparr>"

definition sample_encoders :: encoders where
  "sample_encoders = (NewHintset ())\<lparr>hs_m := [''json-encoder-v0.0.1'' \<mapsto> (NewHint ''json-encoder'' ''v0.0.1'', Some sample_encoder)]\<rparr>"

definition sample_db :: "alist_store \<Rightarrow> alist_store database" where
  "sample_db m = NewDatabase sample_leveldb m sample_encoders sample_encoder"

lemma sample_encoder_registered: "encoder_registered sample_encoders sample_encoder"
proof -
  have h: "ParseHint ''json-encoder-v0.0.1'' = Ok (NewHint ''json-encoder'' ''v0.0.1'')" "Hint_String (NewHint ''json-encoder'' ''v0.0.1'') = ''json-encoder-v0.0.1''"
    "length ''json-encoder-v0.0.1'' \<le> MaxHintLength" by code_simp+
  have "Encoders_Encoder sample_encoders ''json-encoder'' ''v0.0.1'' = Ok sample_encoder"
    by (simp add: Encoders_Encoder_def sample_encoders_def Hintset_Get_def Hint_RawString_def NewHint_def)
  with h show ?thesis unfolding encoder_registered_def by (simp add: sample_encoder_def [THEN arg_cong [where f = en_ht]] NewHint_def)
qed

lemma sample_opened: "sorted_wrt (<) (map fst m) \<Longrightarrow> opened (sample_db m)"
  using sample_goleveldb sample_encoder_registered by (auto simp: opened_def sample_db_def NewDatabase_def)

lemma op_of_key: "Operation_FactHash (op_of b) = Ok (NewBytes b)" "opkey (op_of b) = b"
  by (simp_all add: opkey_def op_of_def NewBaseOperation_def Operation_FactHash_def of_hash_def NewBytes_def)

lemma op_of_stageable: "stageable sample_encoder (op_of b)"
  unfolding stageable_def reads_back_def by (simp add: op_of_key) (simp add: sample_encoder_def op_of_key)

lemma sample_staging_empty: "staging (sample_db []) []"
  using sample_opened [of "[]"] by (simp add: staging_def staged_map_def content_def sample_db_def NewDatabase_def sample_kv)

subsection \<open>Witnesses\<close>

definition sample_ulid :: "nat \<Rightarrow> bytes" where
  "sample_ulid i = replicate 15 0 @ [of_nat i + 5]"

lemma sample_empty:
  "content (sample_db []) k = None" "known (sample_db []) = {}" "staged_operations (sample_db []) = []" "ld_enc (sample_db m) = sample_encoder"
proof -
  show c: "content (sample_db []) k = None" for k by (simp add: content_def sample_db_def NewDatabase_def sample_kv)
  then show "known (sample_db []) = {}" by (simp add: known_def)
  show "staged_operations (sample_db []) = []" using staged_operations_queue [OF sample_staging_empty] by simp
  show "ld_enc (sample_db m) = sample_encoder" by (simp add: sample_db_def NewDatabase_def)
qed


theorem staged_order_lost_on_restart_witness:
  "\<exists>d d'. staged_operations (d :: alist_store database) = [op_of [3]] \<and>
     Database_NewOperations sample_lib (\<lambda>_. replicate 16 1) d [Some (op_of [4])] = (Ok (), d') \<and> staged_operations d' = [op_of [4], op_of [3]]"
proof -
  have u: "ulids_ok (\<lambda>_. replicate 16 9) (length [op_of [3]])" by (simp add: ulids_ok_def)
  obtain d :: "alist_store database" where d: "\<forall>k. \<not> queue_key k \<longrightarrow> content d k = content (sample_db []) k" "ld_enc d = sample_encoder" "staging d [(replicate 16 9, op_of [3])]"
    using NewOperations_staging [OF sample_base58_codec sample_staging_empty _ u] by (auto simp: op_of_stageable sample_empty op_of_key)
  have s: "staged_operations d = [op_of [3]]" using staged_operations_queue [OF d(3)] by simp
  have k: "known d = {}" using d(1) by (auto simp: known_def queue_key_simps sample_empty)
  have "replicate 16 (1 :: byte) < replicate 16 9" by code_simp
  then have "\<exists>d'. Database_NewOperations sample_lib (\<lambda>_. replicate 16 1) d [Some (op_of [4])] = (Ok (), d') \<and>
      staged_operations d' = op_of [4] # staged_operations d"
    by (intro staged_order_lost_on_restart [OF sample_base58_codec d(3)]) (simp_all add: d(2) op_of_stageable s k op_of_key)
  then show ?thesis using s by auto
qed

lemma sample_proposal_storable: "storable_proposal sample_encoder sample_proposal" "proposal_key sample_proposal = Hash_Bytes (NewBytes (proposal_key sample_proposal))"
proof -
  have "\<exists>f h a. Proposal_Fact sample_proposal = Ok f \<and> Fact_Hash f = Some h \<and> Fact_Stage f = StageProposal \<and> proposer f = Some a"
    by (simp add: Proposal_Fact_def Ballot_RawFact_def sample_proposal_def NewBaseSignedBallotFact_def Fact_Hash_def Fact_Stage_def BaseFact_Stage_def
        ProposalFactHint_def NewHint_def fact_types)
  moreover have "reads_back sample_encoder (SProposal sample_proposal)" by (simp add: reads_back_def sample_encoder_def)
  ultimately show "storable_proposal sample_encoder sample_proposal"
    unfolding storable_proposal_def by simp
  show "proposal_key sample_proposal = Hash_Bytes (NewBytes (proposal_key sample_proposal))" by (simp add: NewBytes_def)
qed

theorem proposals_saved_witness:
  "\<exists>d'. Database_NewProposal (sample_db []) sample_proposal = (Ok (), d') \<and>
     Database_Proposal d' (NewBytes (proposal_key sample_proposal)) = Ok (Some (without_closure sample_proposal), True)"
proof -
  have i: "leveldb_inv (sample_db [])" using sample_staging_empty by (auto simp: leveldb_inv_def proposals_readable_def sample_empty)
  have n: "stored_proposals (sample_db []) b = None" for b by (simp add: stored_proposals_def sample_empty)
  from proposals_saved [OF i, unfolded sample_empty, OF sample_proposal_storable(1) sample_proposal_storable(2) [symmetric]] n show ?thesis by auto
qed

end
