(* ===== verification/Mitum_BlockStore.thy ===== *)
theory Mitum_BlockStore
  imports Mitum_Database
begin

text \<open>
  Blocks in the LevelDB database: what a committed session leaves behind, the order of the height keys that \<open>LastManifest\<close> relies on, the
  removal of blocks by \<open>CleanByHeight\<close>, which ends, and the session a syncer uses to collect blocks before they reach the main database.
\<close>

section \<open>The order of height keys\<close>

lemma digits_val_Cons: "digits_val (c # s) = (of_char c - 48) * 10 ^ length s + digits_val s"
proof -
  have "foldl (\<lambda>v c. 10 * v + (of_char c - 48)) a s = a * 10 ^ length s + foldl (\<lambda>v c. 10 * v + (of_char c - 48)) 0 s" for a :: nat
  proof (induction s arbitrary: a)
    case (Cons d s)
    from Cons [of "10 * a + (of_char d - 48)"] Cons [of "of_char d - 48"] show ?case by (simp add: algebra_simps)
  qed simp
  from this [of "of_char c - 48"] show ?thesis by (simp add: digits_val_def)
qed

lemma digits_val_bound: "\<forall>c \<in> set s. is_digit c \<Longrightarrow> digits_val s < 10 ^ length s"
proof (induction s)
  case (Cons c s)
  then have "(of_char c :: nat) \<le> 57" by (simp add: is_digit_def)
  then have "(of_char c :: nat) - 48 \<le> 9" by linarith
  then have "(of_char c - 48) * 10 ^ length s \<le> 9 * (10 :: nat) ^ length s" by (rule mult_right_mono) simp
  moreover have "digits_val s < 10 ^ length s" using Cons by simp
  ultimately show ?case unfolding digits_val_Cons length_Cons power_Suc by linarith
qed (simp add: digits_val_def)

lemma of_char_byte_less: "(of_char c :: byte) < of_char d \<longleftrightarrow> (of_char c :: nat) < of_char d"
  by (simp add: word_less_nat_alt unat_of_char)

lemma digits_order:
  "length s = length t \<Longrightarrow> \<forall>c \<in> set s. is_digit c \<Longrightarrow> \<forall>c \<in> set t. is_digit c \<Longrightarrow> digits_val s < digits_val t \<Longrightarrow> string_bytes s < string_bytes t"
proof (induction s t rule: list_induct2)
  case (Cons c s d t)
  let ?c = "of_char c - (48 :: nat)" and ?d = "of_char d - (48 :: nat)"
  have b: "digits_val s < 10 ^ length s" "digits_val t < 10 ^ length s" 
    using digits_val_bound [of s] digits_val_bound [of t] Cons.prems Cons.hyps by auto
  have lt: "?c * 10 ^ length s + digits_val s < ?d * 10 ^ length s + digits_val t"
    using Cons.prems(3) Cons.hyps by (simp add: digits_val_Cons)
  have le: "?c \<le> ?d"
  proof (rule ccontr)
    assume "\<not> ?c \<le> ?d"
    then have "Suc ?d * 10 ^ length s \<le> ?c * 10 ^ length s" by (intro mult_right_mono) auto
    with lt b show False by simp
  qed
  have dc: "48 \<le> (of_char c :: nat)" "48 \<le> (of_char d :: nat)" using Cons.prems by (simp_all add: is_digit_def)
  show ?case
  proof (cases "?c = ?d")
    case True
    then have "c = d" using dc by (metis eq_diff_iff of_char_eq_iff)
    moreover have "string_bytes s < string_bytes t" using Cons.IH Cons.prems lt True by simp
    ultimately show ?thesis by (simp add: string_bytes_def)
  next
    case False
    with le dc have "(of_char c :: nat) < of_char d" by linarith
    then show ?thesis by (simp add: string_bytes_def of_char_byte_less)
  qed
qed (simp add: digits_val_def)

lemma length_dec_nat: "n < 10 ^ k \<Longrightarrow> 0 < k \<Longrightarrow> length (dec_nat n) \<le> k"
proof (induction n arbitrary: k rule: dec_nat.induct)
  case (1 n)
  show ?case
  proof (cases "n < 10")
    case True
    then show ?thesis using 1(3) by (subst dec_nat.simps) simp
  next
    case False
    then have "\<not> k \<le> 1" using 1(2,3) by (cases "k = 1") auto
    then obtain k' where k: "k = Suc k'" "0 < k'" by (cases k) auto
    have "n div 10 < 10 ^ k'" using 1(2) k by (simp add: div_less_iff_less_mult mult.commute)
    with 1(1) False k have "length (dec_nat (n div 10)) \<le> k'" by simp
    then show ?thesis using False k by (subst dec_nat.simps) simp
  qed
qed

lemma digits_val_zeros: "digits_val (replicate n (CHR ''0'') @ s) = digits_val s"
  by (induction n) (simp_all add: digits_val_Cons)

lemma fmt_020d_nonneg:
  assumes "0 \<le> x" and "x < 2 ^ 63"
  shows "length (fmt_020d x) = 20" "\<forall>c \<in> set (fmt_020d x). is_digit c" "digits_val (fmt_020d x) = nat x"
proof -
  have "nat x < 10 ^ 20" using assms by simp
  then have l: "length (dec_nat (nat x)) \<le> 20" using length_dec_nat [of "nat x" 20] by simp
  have f: "fmt_020d x = replicate (20 - length (dec_nat (nat x))) (CHR ''0'') @ dec_nat (nat x)" using assms by (simp add: fmt_020d_def Let_def)
  show "length (fmt_020d x) = 20" using l by (simp add: f)
  have "is_digit (CHR ''0'')" by code_simp
  then show "\<forall>c \<in> set (fmt_020d x). is_digit c" using dec_nat_digits [of "nat x"] by (auto simp: f)
  show "digits_val (fmt_020d x) = nat x" by (simp add: f digits_val_zeros)
qed

lemma fmt_020d_order:
  assumes "-1 \<le> x" and "x < y" and "y < 2 ^ 63" shows "string_bytes (fmt_020d x) < string_bytes (fmt_020d y)"
proof (cases "x = -1")
  case True
  obtain c s where y: "fmt_020d y = c # s" "is_digit c"
    using fmt_020d_nonneg [of y] assms True by (cases "fmt_020d y") auto
  have m: "fmt_020d (-1) = CHR ''-'' # tl (fmt_020d (-1))" by (simp add: fmt_020d_def Let_def)
  have "(of_char (CHR ''-'') :: byte) < of_char c"
  proof -
    have "48 \<le> (of_char c :: nat)" using y(2) by (simp add: is_digit_def)
    moreover have "(of_char (CHR ''-'') :: nat) = 45" by simp
    ultimately show ?thesis unfolding of_char_byte_less by linarith
  qed
  then have "of_char (CHR ''-'') # string_bytes (tl (fmt_020d (-1))) < of_char c # string_bytes s" by simp
  moreover have "string_bytes (fmt_020d (-1)) = of_char (CHR ''-'') # string_bytes (tl (fmt_020d (-1)))" by (subst m) (simp add: string_bytes_def)
  moreover have "string_bytes (fmt_020d y) = of_char c # string_bytes s" by (simp add: y(1) string_bytes_def)
  ultimately show ?thesis using True by (simp only:)
next
  case False
  then have x: "0 \<le> x" "x < 2 ^ 63" and y: "0 \<le> y" "y < 2 ^ 63" using assms by auto
  show ?thesis using fmt_020d_nonneg [OF x] fmt_020d_nonneg [OF y] assms(2) x by (intro digits_order) auto
qed

lemma fmt_020d_inject: "fmt_020d x = fmt_020d y \<longleftrightarrow> x = y"
proof
  assume e: "fmt_020d x = fmt_020d y"
  have neg: "x < 0 \<longleftrightarrow> hd (fmt_020d x) = CHR ''-''" for x
  proof -
    have d: "hd (dec_nat n) \<noteq> CHR ''-''" for n
    proof
      assume "hd (dec_nat n) = CHR ''-''"
      then have "is_digit (CHR ''-'')" using dec_nat_digits [of n] by (metis dec_nat_nonempty list.set_sel(1))
      then show False by (simp add: is_digit_def)
    qed
    show ?thesis
    proof (cases "x < 0")
      case False
      then have "hd (fmt_020d x) \<noteq> CHR ''-''" using d [of "nat \<bar>x\<bar>"]
        by (cases "20 - length (dec_nat (nat \<bar>x\<bar>))") (simp_all add: fmt_020d_def Let_def)
      with False show ?thesis by simp
    qed (simp add: fmt_020d_def Let_def)
  qed
  have val: "digits_val (if x < 0 then tl (fmt_020d x) else fmt_020d x) = nat \<bar>x\<bar>" for x
    by (simp add: fmt_020d_def Let_def digits_val_zeros)
  have "x < 0 \<longleftrightarrow> y < 0" using neg [of x] neg [of y] e by simp
  moreover from this have "digits_val (if x < 0 then tl (fmt_020d x) else fmt_020d x) = digits_val (if y < 0 then tl (fmt_020d y) else fmt_020d y)"
    using e by simp
  then have "nat \<bar>x\<bar> = nat \<bar>y\<bar>" by (simp only: val)
  ultimately show "x = y" by linarith
qed simp

section \<open>What a session writes\<close>

definition block_states :: "blockv0 \<Rightarrow> statev0 list" where
  "block_states blk = (case bk_states blk of None \<Rightarrow> [] | Some sts \<Rightarrow> sts)"

text \<open>A block with its hash and its data map that the encoder can write and read back.\<close>

definition committable :: "encoder \<Rightarrow> blockv0 \<Rightarrow> hash \<Rightarrow> blockdatamap \<Rightarrow> bool" where
  "committable enc blk h bd \<longleftrightarrow>
     mf_h (bk_manifest blk) = Some h \<and> Hash_Bytes h \<noteq> [] \<and> bd_height bd = mf_height (bk_manifest blk) \<and>
     (\<forall>x \<in> {SHash h, SBlock blk, SManifest (bk_manifest blk), SBlockdataMap bd}. reads_back enc x) \<and>
     (0 < FixedTree_Len (bk_operationsTree blk) \<longrightarrow> reads_back enc (SOpTree (bk_operationsTree blk)) \<and> None \<notin> set (tr_nodes (bk_operationsTree blk))) \<and>
     (\<forall>s \<in> set (block_states blk). reads_back enc (SState s)) \<and>
     (\<forall>v. ci_initVoteproof (bk_ci blk) = Some v \<longrightarrow> reads_back enc (SVoteproof v)) \<and>
     (\<forall>v. ci_acceptVoteproof (bk_ci blk) = Some v \<longrightarrow> reads_back enc (SVoteproof v) \<and> vp_stage v = StageACCEPT)"

definition tree_puts :: "encoder \<Rightarrow> blockv0 \<Rightarrow> batch" where
  "tree_puts enc blk =
     (let tr = bk_operationsTree blk in
      if FixedTree_Len tr < 1 then []
      else BPut (leveldbBlockOperationsKey (bk_manifest blk)) (encoded enc (SOpTree tr)) #
        map (\<lambda>n. BPut (leveldbOperationFactHashKey (NewBytes (fn_key (the n)))) []) (tr_nodes tr))"

definition voteproof_puts :: "encoder \<Rightarrow> blockv0 \<Rightarrow> batch" where
  "voteproof_puts enc blk =
     (case ci_initVoteproof (bk_ci blk) of None \<Rightarrow> [] | Some v \<Rightarrow> [BPut (leveldbVoteproofKey (vp_height v) StageINIT) (encoded enc (SVoteproof v))]) @
     (case ci_acceptVoteproof (bk_ci blk) of None \<Rightarrow> [] | Some v \<Rightarrow> [BPut (leveldbVoteproofKey (vp_height v) StageACCEPT) (encoded enc (SVoteproof v))])"

definition block_puts :: "encoder \<Rightarrow> blockv0 \<Rightarrow> hash \<Rightarrow> batch" where
  "block_puts enc blk h =
     (let m = bk_manifest blk in
      [BPut (leveldbBlockHashKey h) (encoded enc (SBlock blk)), BPut (leveldbManifestKey h) (encoded enc (SManifest m)),
       BPut (leveldbBlockHeightKey (mf_height m)) (encoded enc (SHash h)), BPut (leveldbManifestHeightKey (mf_height m)) (encoded enc (SHash h))] @
      tree_puts enc blk @
      map (\<lambda>s. BPut (leveldbStateKey (st_key s)) (encoded enc (SState s))) (block_states blk) @
      voteproof_puts enc blk)"

lemma marshal_encoded: "reads_back enc x \<Longrightarrow> marshal x enc = Ok (encoded enc x)"
  by (auto simp: reads_back_def encoded_def marshal_def split: res.splits)

lemma Session_put_Ok: "reads_back enc x \<Longrightarrow> Session_put bst k (marshal x enc) = (Ok (), bst\<lparr>ss_batch := ss_batch bst @ [BPut k (encoded enc x)]\<rparr>)"
  by (simp add: Session_put_def marshal_encoded)

lemma Session_setOperationsTree_Ok:
  assumes "0 < FixedTree_Len (bk_operationsTree blk) \<longrightarrow> reads_back enc (SOpTree (bk_operationsTree blk)) \<and> None \<notin> set (tr_nodes (bk_operationsTree blk))"
    and "bk_manifest (ss_block bst) = bk_manifest blk"
  shows "Session_setOperationsTree enc (bk_operationsTree blk) bst = (Ok (), bst\<lparr>ss_batch := ss_batch bst @ tree_puts enc blk\<rparr>)"
proof (cases "FixedTree_Len (bk_operationsTree blk) < 1")
  case False
  have t: "FixedTree_Traverse
      (\<lambda>bst no. case no of None \<Rightarrow> (Panic, bst)
         | Some n \<Rightarrow> (Ok True, bst\<lparr>ss_batch := ss_batch bst @ [BPut (leveldbOperationFactHashKey (NewBytes (fn_key n))) []]\<rparr>)) ns bst =
      (Ok (), bst\<lparr>ss_batch := ss_batch bst @ map (\<lambda>n. BPut (leveldbOperationFactHashKey (NewBytes (fn_key (the n)))) []) ns\<rparr>)"
    if "None \<notin> set ns" for ns :: "(unit opnode_ext) nodes" and bst
    using that
  proof (induction ns arbitrary: bst)
    case (Cons n ns)
    then show ?case by (cases n) simp_all
  qed simp
  have "reads_back enc (SOpTree (bk_operationsTree blk))" "None \<notin> set (tr_nodes (bk_operationsTree blk))" using assms(1) False by (simp_all add: not_less)
  then show ?thesis using False by (simp add: Session_setOperationsTree_def Session_put_Ok t tree_puts_def Let_def assms(2))
qed (simp add: Session_setOperationsTree_def tree_puts_def Let_def)

lemma Session_setStates_Ok:
  "\<forall>s \<in> set sts. reads_back enc (SState s) \<Longrightarrow> Session_setStates enc sts bst =
     (Ok (), bst\<lparr>ss_batch := ss_batch bst @ map (\<lambda>s. BPut (leveldbStateKey (st_key s)) (encoded enc (SState s))) sts\<rparr>)"
  unfolding Session_setStates_def by (induction sts arbitrary: bst) (simp_all add: Session_put_Ok)

lemma Session_setVoteproofs_Ok:
  assumes "\<forall>v. ci_initVoteproof (bk_ci blk) = Some v \<longrightarrow> reads_back enc (SVoteproof v)"
    and "\<forall>v. ci_acceptVoteproof (bk_ci blk) = Some v \<longrightarrow> reads_back enc (SVoteproof v) \<and> vp_stage v = StageACCEPT"
  shows "Session_setVoteproofs enc (ci_initVoteproof (bk_ci blk)) (ci_acceptVoteproof (bk_ci blk)) bst =
    (Ok (), bst\<lparr>ss_batch := ss_batch bst @ voteproof_puts enc blk\<rparr>)"
  using assms
  by (cases "ci_initVoteproof (bk_ci blk)"; cases "ci_acceptVoteproof (bk_ci blk)")
    (simp_all add: Session_setVoteproofs_def Session_put_Ok Session_SetACCEPTVoteproof_def voteproof_puts_def)

lemma Session_SetBlock_Ok:
  assumes "committable enc blk h bd"
  shows "Session_SetBlock enc blk (NewSession blk) = (Ok (), \<lparr>ss_block = blk, ss_batch = block_puts enc blk h\<rparr>)"
proof -
  have c: "mf_h (bk_manifest blk) = Some h" "reads_back enc (SHash h)" "reads_back enc (SBlock blk)" "reads_back enc (SManifest (bk_manifest blk))"
    "0 < FixedTree_Len (bk_operationsTree blk) \<longrightarrow> reads_back enc (SOpTree (bk_operationsTree blk)) \<and> None \<notin> set (tr_nodes (bk_operationsTree blk))"
    "\<forall>s \<in> set (block_states blk). reads_back enc (SState s)"
    "\<forall>v. ci_initVoteproof (bk_ci blk) = Some v \<longrightarrow> reads_back enc (SVoteproof v)"
    "\<forall>v. ci_acceptVoteproof (bk_ci blk) = Some v \<longrightarrow> reads_back enc (SVoteproof v) \<and> vp_stage v = StageACCEPT"
    using assms by (simp_all add: committable_def)
  show ?thesis
    unfolding Session_SetBlock_def Let_def block_states_def [symmetric]
    by (simp add: NewSession_def of_hash_def c(1) marshal_encoded [OF c(2)] marshal_encoded [OF c(3)] marshal_encoded [OF c(4)]
        Session_setOperationsTree_Ok [OF c(5)] Session_setStates_Ok [OF c(6)] Session_setVoteproofs_Ok [OF c(7,8)]
        Session_put_def block_puts_def Let_def)
qed

definition commit_puts :: "encoder \<Rightarrow> blockv0 \<Rightarrow> hash \<Rightarrow> blockdatamap \<Rightarrow> batch" where
  "commit_puts enc blk h bd = block_puts enc blk h @ [BPut (leveldbBlockdataMapKey (bd_height bd)) (encoded enc (SBlockdataMap bd))]"

lemma commitBlock_Ok:
  assumes "opened d" and "committable (ld_enc d) blk h bd"
  shows "\<exists>d'. Database_commitBlock d blk bd = (Ok (), d') \<and> opened d' \<and> content d' = apply_batch (commit_puts (ld_enc d) blk h bd) (content d) \<and>
    ld_enc d' = ld_enc d \<and> ld_encs d' = ld_encs d"
proof -
  have r: "reads_back (ld_enc d) (SBlockdataMap bd)" using assms(2) by (simp add: committable_def)
  obtain d' where d': "Database_Write d (commit_puts (ld_enc d) blk h bd) = (Ok (), d')" "opened d'"
    "content d' = apply_batch (commit_puts (ld_enc d) blk h bd) (content d)" "ld_enc d' = ld_enc d" "ld_encs d' = ld_encs d"
    using write_content [OF assms(1)] by blast
  have "ss_batch \<lparr>ss_block = blk, ss_batch = block_puts (ld_enc d) blk h\<rparr> \<noteq> []" by (simp add: block_puts_def Let_def)
  then have "Database_commitBlock d blk bd = (Ok (), d')"
    using d'(1) by (simp add: Database_commitBlock_def Session_SetBlock_Ok [OF assms(2)] Session_Commit_def Session_put_Ok [OF r] commit_puts_def)
  with d' show ?thesis by blast
qed

section \<open>Reading blocks back\<close>

fun op_target :: "batch_op \<Rightarrow> bytes" where
  "op_target (BPut k v) = k"
| "op_target (BDelete k) = k"

lemma apply_batch_other: "k \<notin> op_target ` set b \<Longrightarrow> apply_batch b m k = m k"
proof (induction b arbitrary: m)
  case (Cons x b)
  then show ?case by (cases x) auto
qed simp

definition index_key :: "bytes \<Rightarrow> bool" where
  "index_key k \<longleftrightarrow> take 2 k \<in> {keyPrefixBlockHash, keyPrefixManifest, keyPrefixBlockHeight, keyPrefixManifestHeight}"

lemma height_key_append:
  "leveldbBlockHeightKey x = keyPrefixBlockHeight @ string_bytes (fmt_020d x)" "leveldbManifestHeightKey x = keyPrefixManifestHeight @ string_bytes (fmt_020d x)"
  "leveldbBlockHashKey h = keyPrefixBlockHash @ Hash_Bytes h" "leveldbManifestKey h = keyPrefixManifest @ Hash_Bytes h"
  by (simp_all add: leveldbBlockHeightKey_def leveldbManifestHeightKey_def height_key_def leveldbBlockHashKey_def leveldbManifestKey_def)

lemma index_key_simps:
  "index_key (leveldbBlockHeightKey x)" "index_key (leveldbManifestHeightKey x)" "index_key (leveldbBlockHashKey h)" "index_key (leveldbManifestKey h)"
  by (simp_all add: height_key_append index_key_def key_prefixes)

lemma index_keys_differ:
  "leveldbBlockHeightKey x \<noteq> leveldbManifestHeightKey y" "leveldbBlockHeightKey x \<noteq> leveldbBlockHashKey h" "leveldbBlockHeightKey x \<noteq> leveldbManifestKey h"
  "leveldbManifestKey h \<noteq> leveldbManifestHeightKey y" "leveldbManifestKey h \<noteq> leveldbBlockHashKey g" "leveldbManifestKey h \<noteq> leveldbBlockHeightKey x"
  "leveldbManifestHeightKey y \<noteq> leveldbBlockHeightKey x" "leveldbManifestHeightKey y \<noteq> leveldbBlockHashKey h" "leveldbManifestHeightKey y \<noteq> leveldbManifestKey h"
  "leveldbBlockHashKey h \<noteq> leveldbBlockHeightKey x" "leveldbBlockHashKey h \<noteq> leveldbManifestHeightKey x" "leveldbBlockHashKey h \<noteq> leveldbManifestKey g"
  "leveldbBlockHeightKey x = leveldbBlockHeightKey y \<longleftrightarrow> x = y" "leveldbManifestHeightKey x = leveldbManifestHeightKey y \<longleftrightarrow> x = y"
  "leveldbManifestKey h = leveldbManifestKey g \<longleftrightarrow> Hash_Bytes h = Hash_Bytes g" "leveldbBlockHashKey h = leveldbBlockHashKey g \<longleftrightarrow> Hash_Bytes h = Hash_Bytes g"
  by (simp_all add: height_key_append key_prefixes fmt_020d_inject)

text \<open>What \<open>Commit\<close> changes among the index keys.\<close>

definition index_puts :: "encoder \<Rightarrow> blockv0 \<Rightarrow> hash \<Rightarrow> (bytes \<rightharpoonup> bytes) \<Rightarrow> (bytes \<rightharpoonup> bytes)" where
  "index_puts enc blk h m =
     m(leveldbBlockHashKey h \<mapsto> encoded enc (SBlock blk), leveldbManifestKey h \<mapsto> encoded enc (SManifest (bk_manifest blk)),
       leveldbBlockHeightKey (mf_height (bk_manifest blk)) \<mapsto> encoded enc (SHash h),
       leveldbManifestHeightKey (mf_height (bk_manifest blk)) \<mapsto> encoded enc (SHash h))"

lemma commit_index:
  assumes "index_key k" shows "apply_batch (commit_puts enc blk h bd) m k = index_puts enc blk h m k"
proof -
  let ?rest = "tree_puts enc blk @ map (\<lambda>s. BPut (leveldbStateKey (st_key s)) (encoded enc (SState s))) (block_states blk) @ voteproof_puts enc blk @
    [BPut (leveldbBlockdataMapKey (bd_height bd)) (encoded enc (SBlockdataMap bd))]"
  have "\<not> index_key (leveldbBlockOperationsKey x)" "\<not> index_key (leveldbOperationFactHashKey y)" "\<not> index_key (leveldbStateKey z)"
    "\<not> index_key (leveldbVoteproofKey i StageINIT)" "\<not> index_key (leveldbVoteproofKey i StageACCEPT)" "\<not> index_key (leveldbBlockdataMapKey i)" for x y z i
    by (simp_all add: index_key_def leveldbBlockOperationsKey_def leveldbOperationFactHashKey_def leveldbStateKey_def leveldbVoteproofKey_def
        leveldbBlockdataMapKey_def height_key_def key_prefixes)
  then have "\<forall>t \<in> op_target ` set ?rest. \<not> index_key t"
    by (auto simp: tree_puts_def voteproof_puts_def Let_def split: option.splits if_splits)
  then have "k \<notin> op_target ` set ?rest" using assms by blast
  then have "apply_batch ?rest (index_puts enc blk h m) k = index_puts enc blk h m k" by (rule apply_batch_other)
  moreover have "apply_batch (commit_puts enc blk h bd) m = apply_batch ?rest (index_puts enc blk h m)"
    by (simp add: commit_puts_def block_puts_def Let_def index_puts_def)
  ultimately show ?thesis by simp
qed

lemma Manifest_content:
  assumes "opened d"
  shows "Database_Manifest d h = (case content d (leveldbManifestKey h) of None \<Rightarrow> Ok (None, False) | Some v \<Rightarrow> loaded (Database_loadManifest d v))"
  by (simp add: Database_Manifest_def lookup_with_def get_content [OF assms] split: option.split)

lemma ManifestByHeight_content:
  assumes "opened d"
  shows "Database_ManifestByHeight d x = (case content d (leveldbBlockHeightKey x) of None \<Rightarrow> Ok (None, False)
     | Some v \<Rightarrow> bind_res (Database_loadHash d v) (Database_Manifest d))"
  by (simp add: Database_ManifestByHeight_def lookup_with_def get_content [OF assms] split: option.split)

lemma blockByHeight_content:
  assumes "opened d"
  shows "Database_blockByHeight d x = (case content d (leveldbBlockHeightKey x) of None \<Rightarrow> Ok (None, False)
     | Some v \<Rightarrow> bind_res (Database_loadHash d v) (\<lambda>h. case content d (leveldbBlockHashKey h) of None \<Rightarrow> Ok (None, False)
         | Some v \<Rightarrow> loaded (Database_loadBlock d v)))"
  by (auto simp: Database_blockByHeight_def Database_block_def lookup_with_def get_content [OF assms] split: option.split
      intro!: arg_cong2 [where f = bind_res])

lemma load_cong:
  assumes "ld_encs d' = ld_encs d"
  shows "Database_loadHash d' = Database_loadHash d" "Database_loadManifest d' = Database_loadManifest d" "Database_loadBlock d' = Database_loadBlock d"
    "Database_loadBlockdataMap d' = Database_loadBlockdataMap d"
  using assms by (simp_all add: fun_eq_iff Database_loadHash_def Database_loadManifest_def Database_loadBlock_def Database_loadBlockdataMap_def load_as_def
      Database_loadHinter_def)

lemma load_committed:
  assumes "opened d" and "committable (ld_enc d) blk h bd"
  shows "Database_loadHash d (encoded (ld_enc d) (SHash h)) = Ok (HBytes (Hash_Bytes h))"
    "Database_loadManifest d (encoded (ld_enc d) (SManifest (bk_manifest blk))) = Ok (Some (bk_manifest blk))"
    "Database_loadBlock d (encoded (ld_enc d) (SBlock blk)) = Ok (Some blk)"
    "Database_loadBlockdataMap d (encoded (ld_enc d) (SBlockdataMap bd)) = Ok (Some bd)"
proof -
  have r: "reads_back (ld_enc d) (SHash h)" "reads_back (ld_enc d) (SManifest (bk_manifest blk))" "reads_back (ld_enc d) (SBlock blk)"
    "reads_back (ld_enc d) (SBlockdataMap bd)" and h: "Hash_Bytes h \<noteq> []"
    using assms(2) by (simp_all add: committable_def)
  show "Database_loadHash d (encoded (ld_enc d) (SHash h)) = Ok (HBytes (Hash_Bytes h))" by (rule load_encoded(3) [OF assms(1) r(1) refl h])
  show "Database_loadManifest d (encoded (ld_enc d) (SManifest (bk_manifest blk))) = Ok (Some (bk_manifest blk))"
    using load_encoded(2) [OF assms(1) r(2)] by (simp add: Database_loadManifest_def load_as_def)
  show "Database_loadBlock d (encoded (ld_enc d) (SBlock blk)) = Ok (Some blk)"
    using load_encoded(2) [OF assms(1) r(3)] by (simp add: Database_loadBlock_def load_as_def)
  show "Database_loadBlockdataMap d (encoded (ld_enc d) (SBlockdataMap bd)) = Ok (Some bd)"
    using load_encoded(2) [OF assms(1) r(4)] by (simp add: Database_loadBlockdataMap_def load_as_def)
qed

lemma commit_read:
  assumes "opened d" and "committable (ld_enc d) blk h bd" and "Database_commitBlock d blk bd = (Ok (), d')"
  shows "opened d'" "ld_enc d' = ld_enc d" "ld_encs d' = ld_encs d"
    "\<And>k. index_key k \<Longrightarrow> content d' k = index_puts (ld_enc d) blk h (content d) k"
    "Database_ManifestByHeight d' (mf_height (bk_manifest blk)) = Ok (Some (bk_manifest blk), True)"
    "Database_blockByHeight d' (mf_height (bk_manifest blk)) = Ok (Some blk, True)"
    "Database_BlockdataMap d' (bd_height bd) = Ok (Some bd, True)"
proof -
  obtain e where e: "Database_commitBlock d blk bd = (Ok (), e)" "opened e" "content e = apply_batch (commit_puts (ld_enc d) blk h bd) (content d)"
    "ld_enc e = ld_enc d" "ld_encs e = ld_encs d" using commitBlock_Ok [OF assms(1,2)] by blast
  then have d': "d' = e" using assms(3) by simp
  show o: "opened d'" and enc: "ld_enc d' = ld_enc d" and encs: "ld_encs d' = ld_encs d" using e d' by simp_all
  show c: "content d' k = index_puts (ld_enc d) blk h (content d) k" if "index_key k" for k
    using commit_index [OF that] e(3) d' by simp
  note l = load_committed [OF assms(1,2)] and lc = load_cong [OF encs]
  have ks: "leveldbManifestKey (HBytes (Hash_Bytes h)) = leveldbManifestKey h" "leveldbBlockHashKey (HBytes (Hash_Bytes h)) = leveldbBlockHashKey h"
    by (simp_all add: height_key_append)
  show "Database_ManifestByHeight d' (mf_height (bk_manifest blk)) = Ok (Some (bk_manifest blk), True)"
    by (simp add: ManifestByHeight_content [OF o] Manifest_content [OF o] c index_key_simps index_puts_def index_keys_differ lc l ks loaded_def)
  show "Database_blockByHeight d' (mf_height (bk_manifest blk)) = Ok (Some blk, True)"
    by (simp add: blockByHeight_content [OF o] c index_key_simps index_puts_def index_keys_differ lc l ks loaded_def)
  have "content d' (leveldbBlockdataMapKey (bd_height bd)) = Some (encoded (ld_enc d) (SBlockdataMap bd))"
    using e(3) d' by (simp add: commit_puts_def)
  then show "Database_BlockdataMap d' (bd_height bd) = Ok (Some bd, True)"
    by (simp add: Database_BlockdataMap_def lookup_with_def get_content [OF o] lc l loaded_def)
qed

section \<open>Properties\<close>

lemma iter_take_first: "iter_loop take_first (rev es) None None = (Ok (), if es = [] then None else Some (snd (last es)))"
proof (cases "rev es")
  case (Cons e r)
  then have "es = rev r @ [e]" by (metis rev.simps(2) rev_swap)
  then show ?thesis using Cons by (cases e) (simp add: take_first_def)
qed simp

lemma LastManifest_content:
  assumes "opened d"
  shows "Database_LastManifest d = (let es = entries d keyPrefixManifestHeight in
     if es = [] then Ok (None, False) else bind_res (Database_loadHash d (snd (last es))) (Database_Manifest d))"
  by (simp add: Database_LastManifest_def iter_content [OF assms] iter_take_first Let_def)

lemma last_entry:
  assumes "opened d" and "content d k = Some v" and "take (length p) k = p" and "\<And>k' v'. content d k' = Some v' \<Longrightarrow> take (length p) k' = p \<Longrightarrow> k' \<le> k"
  shows "entries d p \<noteq> []" "last (entries d p) = (k, v)"
proof -
  note e = entries_content [OF assms(1), where p = p]
  have i: "(k, v) \<in> set (entries d p)" using assms(2,3) e(3) by simp
  then show ne: "entries d p \<noteq> []" by auto
  obtain k' v' where l: "last (entries d p) = (k', v')" by fastforce
  then have m: "(k', v') \<in> set (entries d p)" using ne last_in_set by metis
  then have "k' \<le> k" using assms(4) e(3) by blast
  have "k \<le> k'"
  proof -
    have s: "entries d p = butlast (entries d p) @ [(k', v')]" using ne l by (metis append_butlast_last_id)
    then have "sorted_wrt (<) (map fst (butlast (entries d p) @ [(k', v')]))" using e(2) by simp
    then have "\<forall>x \<in> set (butlast (entries d p)). fst x < k'" by (simp add: sorted_wrt_append)
    moreover have "(k, v) \<in> set (butlast (entries d p)) \<or> k = k'" using i s by (metis Un_iff empty_iff fst_conv list.set(1) set_ConsD set_append)
    ultimately show ?thesis by force
  qed
  with \<open>k' \<le> k\<close> have "k' = k" by simp
  moreover have "v' = v" using m e(3) assms(2) \<open>k' = k\<close> by auto
  ultimately show "last (entries d p) = (k, v)" using l by simp
qed


subsection \<open>Removing blocks\<close>

definition clean_dels :: "'s database \<Rightarrow> height \<Rightarrow> batch" where
  "clean_dels d x =
     (case Database_ManifestByHeight d x of
        Ok (Some m, True) \<Rightarrow>
          (case mf_h m of
             None \<Rightarrow> []
           | Some mh \<Rightarrow> [BDelete (leveldbBlockHeightKey x), BDelete (leveldbBlockHashKey mh), BDelete (leveldbManifestHeightKey x),
               BDelete (leveldbManifestKey mh), BDelete (leveldbBlockOperationsKey m), BDelete (leveldbBlockStatesKey m)])
      | _ \<Rightarrow> [])"

text \<open>A loop that ended without an error went through heights that were all found, up to the first that was not.\<close>

definition cleaned_to :: "'s database \<Rightarrow> height \<Rightarrow> height \<Rightarrow> bool" where
  "cleaned_to d x y \<longleftrightarrow> x \<le> y \<and> (\<forall>i. x \<le> i \<and> i < y \<longrightarrow> BDelete (leveldbBlockHeightKey i) \<in> set (clean_dels d i)) \<and>
     (\<exists>m. Database_ManifestByHeight d y = Ok (m, False))"

lemma CleanByHeight_loop_ends:
  assumes "opened d" and "content d (leveldbBlockHeightKey z) = None" and "z < 2 ^ 63"
  shows "- (2 ^ 63) \<le> x \<Longrightarrow> x \<le> z \<Longrightarrow>
    \<exists>r. CleanByHeight_loop d x batch = Some r \<and> (\<forall>b. r = Ok b \<longrightarrow> (\<exists>y \<le> z. cleaned_to d x y \<and> b = batch @ concat (map (clean_dels d) [x..y - 1])))"
proof (induction "nat (z - x)" arbitrary: x batch)
  case 0
  then have "x = z" by simp
  then have n: "Database_ManifestByHeight d x = Ok (None, False)" using assms(2) by (simp add: ManifestByHeight_content [OF assms(1)])
  then have "CleanByHeight_loop d x batch = Some (Ok batch)" by (subst CleanByHeight_loop.simps) simp
  moreover have "cleaned_to d x x" using n by (auto simp: cleaned_to_def)
  ultimately show ?case using \<open>x = z\<close> by auto
next
  case (Suc n)
  show ?case
  proof (cases "Database_ManifestByHeight d x")
    case (Ok mf)
    obtain m f where mf: "mf = (m, f)" by fastforce
    show ?thesis
    proof (cases f)
      case False
      then have "CleanByHeight_loop d x batch = Some (Ok batch)" using Ok mf by (subst CleanByHeight_loop.simps) simp
      moreover have "cleaned_to d x x" using Ok mf False by (auto simp: cleaned_to_def)
      ultimately show ?thesis using Suc.prems by auto
    next
      case True
      show ?thesis
      proof (cases "\<exists>m' mh. m = Some m' \<and> mf_h m' = Some mh")
        case False
        then have "CleanByHeight_loop d x batch = Some Panic" using Ok mf True
          by (subst CleanByHeight_loop.simps) (auto split: option.splits)
        then show ?thesis by auto
      next
        case T: True
        then obtain m' mh where m': "m = Some m'" "mf_h m' = Some mh" by blast
        have i: "i64 (x + 1) = x + 1" "nat (z - (x + 1)) = n" "x + 1 \<le> z" using Suc.prems Suc.hyps(2) assms(3) by (auto intro!: i64_id simp: is_i64_def)
        have dels: "clean_dels d x = [BDelete (leveldbBlockHeightKey x), BDelete (leveldbBlockHashKey mh), BDelete (leveldbManifestHeightKey x),
               BDelete (leveldbManifestKey mh), BDelete (leveldbBlockOperationsKey m'), BDelete (leveldbBlockStatesKey m')]"
          using Ok mf True m' by (simp add: clean_dels_def)
        have step: "CleanByHeight_loop d x batch = CleanByHeight_loop d (x + 1) (batch @ clean_dels d x)"
          using Ok mf True m' i(1) dels by (subst CleanByHeight_loop.simps) simp
        obtain r where r: "CleanByHeight_loop d (x + 1) (batch @ clean_dels d x) = Some r"
          "\<forall>b. r = Ok b \<longrightarrow> (\<exists>y \<le> z. cleaned_to d (x + 1) y \<and> b = (batch @ clean_dels d x) @ concat (map (clean_dels d) [x + 1..y - 1]))"
          using Suc.hyps(1) [OF i(2) [symmetric] _ i(3)] Suc.prems by fastforce
        have "\<exists>y \<le> z. cleaned_to d x y \<and> b = batch @ concat (map (clean_dels d) [x..y - 1])" if "r = Ok b" for b
        proof -
          obtain y where y: "y \<le> z" "cleaned_to d (x + 1) y" "b = (batch @ clean_dels d x) @ concat (map (clean_dels d) [x + 1..y - 1])"
            using r(2) \<open>r = Ok b\<close> by blast
          have "BDelete (leveldbBlockHeightKey i) \<in> set (clean_dels d i)" if "x \<le> i" "i < y" for i
            using y(2) that dels by (cases "i = x") (auto simp: cleaned_to_def)
          then have "cleaned_to d x y" using y(2) by (auto simp: cleaned_to_def)
          moreover have "[x..y - 1] = x # [x + 1..y - 1]" using y(2) by (subst upto.simps) (simp add: cleaned_to_def)
          ultimately show ?thesis using y by auto
        qed
        then show ?thesis using step r(1) by auto
      qed
    qed
  qed (subst CleanByHeight_loop.simps, simp)+
qed

lemma deletes_content:
  assumes "\<forall>x \<in> set b. \<exists>k. x = BDelete k"
  shows "apply_batch b m k = (if BDelete k \<in> set b then None else m k)"
  using assms
proof (induction b arbitrary: m)
  case (Cons x b)
  then obtain k' where "x = BDelete k'" by auto
  then show ?case using Cons by auto
qed simp

text \<open>The keys \<open>CleanByHeight\<close> removes.\<close>

definition block_key :: "bytes \<Rightarrow> bool" where
  "block_key k \<longleftrightarrow> take 2 k \<in> {keyPrefixBlockHeight, keyPrefixBlockHash, keyPrefixManifestHeight, keyPrefixManifest, keyPrefixBlockOperations, keyPrefixBlockStates}"

lemma clean_dels_keys:
  "x \<in> set (clean_dels d i) \<Longrightarrow> \<exists>k. x = BDelete k \<and> block_key k \<and> (k = leveldbBlockHeightKey y \<longrightarrow> y = i)"
  by (auto simp: clean_dels_def block_key_def height_key_append leveldbBlockOperationsKey_def leveldbBlockStatesKey_def height_key_def key_prefixes
      fmt_020d_inject split: res.splits option.splits bool.splits)


subsection \<open>The session of a syncer\<close>

text \<open>A block, its hash and its data map; \<open>holds\<close>: the database has the entries that the look-ups by height need.\<close>

type_synonym sync_item = "blockv0 \<times> hash \<times> blockdatamap"

definition item_height :: "sync_item \<Rightarrow> height" where
  "item_height it = mf_height (bk_manifest (fst it))"

definition holds :: "'s database \<Rightarrow> sync_item \<Rightarrow> bool" where
  "holds d it \<longleftrightarrow> (case it of (blk, h, bd) \<Rightarrow>
     content d (leveldbBlockHeightKey (mf_height (bk_manifest blk))) = Some (encoded (ld_enc d) (SHash h)) \<and>
     content d (leveldbBlockHashKey h) = Some (encoded (ld_enc d) (SBlock blk)) \<and>
     content d (leveldbManifestKey h) = Some (encoded (ld_enc d) (SManifest (bk_manifest blk))) \<and>
     content d (leveldbBlockdataMapKey (bd_height bd)) = Some (encoded (ld_enc d) (SBlockdataMap bd)))"

definition item_ok :: "encoder \<Rightarrow> sync_item \<Rightarrow> bool" where
  "item_ok enc it \<longleftrightarrow> committable enc (fst it) (fst (snd it)) (snd (snd it)) \<and> is_i64 (item_height it)"

definition items_apart :: "sync_item \<Rightarrow> sync_item \<Rightarrow> bool" where
  "items_apart a b \<longleftrightarrow> item_height a \<noteq> item_height b \<and> Hash_Bytes (fst (snd a)) \<noteq> Hash_Bytes (fst (snd b))"

lemma holds_read:
  assumes "opened d" and "item_ok (ld_enc d) (blk, h, bd)" and "holds d (blk, h, bd)"
  shows "Database_blockByHeight d (mf_height (bk_manifest blk)) = Ok (Some blk, True)"
    "Database_ManifestByHeight d (mf_height (bk_manifest blk)) = Ok (Some (bk_manifest blk), True)"
    "Database_BlockdataMap d (mf_height (bk_manifest blk)) = Ok (Some bd, True)"
proof -
  have c: "committable (ld_enc d) blk h bd" using assms(2) by (simp add: item_ok_def)
  then have bd: "bd_height bd = mf_height (bk_manifest blk)" by (simp add: committable_def)
  note l = load_committed [OF assms(1) c]
  have ks: "leveldbManifestKey (HBytes (Hash_Bytes h)) = leveldbManifestKey h" "leveldbBlockHashKey (HBytes (Hash_Bytes h)) = leveldbBlockHashKey h"
    by (simp_all add: height_key_append)
  show "Database_blockByHeight d (mf_height (bk_manifest blk)) = Ok (Some blk, True)"
    "Database_ManifestByHeight d (mf_height (bk_manifest blk)) = Ok (Some (bk_manifest blk), True)"
    "Database_BlockdataMap d (mf_height (bk_manifest blk)) = Ok (Some bd, True)"
    using assms(3) bd by (simp_all add: holds_def blockByHeight_content [OF assms(1)] ManifestByHeight_content [OF assms(1)] Manifest_content [OF assms(1)]
        Database_BlockdataMap_def lookup_with_def get_content [OF assms(1)] l ks loaded_def)
qed

lemma commit_other_datamap:
  assumes "is_i64 y" and "is_i64 (bd_height bd)" and "y \<noteq> bd_height bd"
  shows "apply_batch (commit_puts enc blk h bd) m (leveldbBlockdataMapKey y) = m (leveldbBlockdataMapKey y)"
proof (rule apply_batch_other)
  have "leveldbBlockdataMapKey y \<noteq> leveldbBlockdataMapKey (bd_height bd)"
    using assms by (simp add: leveldbBlockdataMapKey_def Height_Bytes_def Int64ToBytes_inject)
  moreover have "leveldbBlockdataMapKey y \<notin> op_target ` set (block_puts enc blk h)"
    by (auto simp: block_puts_def tree_puts_def voteproof_puts_def Let_def leveldbBlockdataMapKey_def leveldbBlockOperationsKey_def leveldbOperationFactHashKey_def
        leveldbStateKey_def leveldbVoteproofKey_def height_key_def height_key_append key_prefixes split: option.splits if_splits)
  ultimately show "leveldbBlockdataMapKey y \<notin> op_target ` set (commit_puts enc blk h bd)" by (auto simp: commit_puts_def)
qed

lemma commit_holds:
  assumes "opened d" and "item_ok (ld_enc d) it"
  shows "\<exists>d'. Database_commitBlock d (fst it) (snd (snd it)) = (Ok (), d') \<and> opened d' \<and> ld_enc d' = ld_enc d \<and> ld_encs d' = ld_encs d \<and> holds d' it \<and>
    (\<forall>it'. items_apart it it' \<and> item_ok (ld_enc d) it' \<and> holds d it' \<longrightarrow> holds d' it') \<and>
    (\<forall>y. y \<noteq> item_height it \<longrightarrow> content d' (leveldbBlockHeightKey y) = content d (leveldbBlockHeightKey y))"
proof -
  obtain blk h bd where it: "it = (blk, h, bd)" by (cases it) auto
  then have c: "committable (ld_enc d) blk h bd" and i: "is_i64 (mf_height (bk_manifest blk))" using assms(2) by (simp_all add: item_ok_def item_height_def)
  then have bd: "bd_height bd = mf_height (bk_manifest blk)" by (simp add: committable_def)
  obtain d' where d': "Database_commitBlock d blk bd = (Ok (), d')" "content d' = apply_batch (commit_puts (ld_enc d) blk h bd) (content d)"
    using commitBlock_Ok [OF assms(1) c] by blast
  note r = commit_read(1-4) [OF assms(1) c d'(1)]
  have "content d' (leveldbBlockdataMapKey (bd_height bd)) = Some (encoded (ld_enc d) (SBlockdataMap bd))" by (simp add: d'(2) commit_puts_def)
  then have "holds d' it" by (simp add: it holds_def r(2,4) index_key_simps index_puts_def index_keys_differ)
  moreover have "holds d' it'" if a: "items_apart it it'" "item_ok (ld_enc d) it'" "holds d it'" for it'
  proof -
    obtain blk' h' bd' where it': "it' = (blk', h', bd')" by (cases it') auto
    have b: "bd_height bd' = mf_height (bk_manifest blk')" "is_i64 (mf_height (bk_manifest blk'))"
      using a(2) by (simp_all add: it' item_ok_def committable_def item_height_def)
    have "content d' (leveldbBlockdataMapKey (bd_height bd')) = content d (leveldbBlockdataMapKey (bd_height bd'))"
      unfolding d'(2) by (rule commit_other_datamap) (use a(1) b i bd in \<open>simp_all add: it it' items_apart_def item_height_def\<close>)
    moreover have "Hash_Bytes h' \<noteq> Hash_Bytes h" "mf_height (bk_manifest blk') \<noteq> mf_height (bk_manifest blk)"
      using a(1) by (auto simp: it it' items_apart_def item_height_def)
    ultimately show ?thesis using a(3) by (simp add: it' holds_def r(2,4) index_key_simps index_puts_def index_keys_differ)
  qed
  moreover have "content d' (leveldbBlockHeightKey y) = content d (leveldbBlockHeightKey y)" if "y \<noteq> item_height it" for y
    using that by (simp add: it item_height_def r(4) index_key_simps index_puts_def index_keys_differ)
  ultimately show ?thesis using d'(1) r(1-3) it by auto
qed

fun consecutive :: "height \<Rightarrow> sync_item list \<Rightarrow> bool" where
  "consecutive x [] = True"
| "consecutive x (it # its) = (item_height it = x \<and> consecutive (x + 1) its)"

definition blocks_maps :: "sync_item list \<Rightarrow> (blockv0 \<times> blockdatamap) list" where
  "blocks_maps its = map (\<lambda>it. (fst it, snd (snd it))) its"

lemma checkHeight_database: "SyncerSession_checkHeight (st\<lparr>sn_database := e\<rparr>) x = (SyncerSession_checkHeight st x)\<lparr>sn_database := e\<rparr>"
  by (simp add: SyncerSession_checkHeight_def)

lemma SetBlocks_loop_holds:
  "opened (sn_database st) \<Longrightarrow> \<forall>it \<in> set its. item_ok (ld_enc (sn_database st)) it \<Longrightarrow> pairwise items_apart (set held \<union> set its) \<Longrightarrow> distinct (held @ its) \<Longrightarrow>
   \<forall>it \<in> set held. item_ok (ld_enc (sn_database st)) it \<and> holds (sn_database st) it \<Longrightarrow>
   \<exists>st'. SetBlocks_loop (blocks_maps its) st = (Ok (), st') \<and> opened (sn_database st') \<and> ld_enc (sn_database st') = ld_enc (sn_database st) \<and>
     (\<forall>it \<in> set held \<union> set its. holds (sn_database st') it) \<and> sn_main st' = sn_main st \<and>
     (let f = fold (\<lambda>it st. SyncerSession_checkHeight st (item_height it)) its st in sn_heightFrom st' = sn_heightFrom f \<and> sn_heightTo st' = sn_heightTo f)"
proof (induction its arbitrary: st held)
  case Nil
  then show ?case by (simp add: blocks_maps_def)
next
  case (Cons it its)
  let ?st = "SyncerSession_checkHeight st (item_height it)"
  have db: "sn_database ?st = sn_database st" "sn_main ?st = sn_main st" by (simp_all add: SyncerSession_checkHeight_def)
  have "item_ok (ld_enc (sn_database st)) it" using Cons.prems(2) by simp
  from commit_holds [OF Cons.prems(1) this] obtain d' where d': "Database_commitBlock (sn_database st) (fst it) (snd (snd it)) = (Ok (), d')" "opened d'"
    "ld_enc d' = ld_enc (sn_database st)" "holds d' it"
    "\<forall>it'. items_apart it it' \<and> item_ok (ld_enc (sn_database st)) it' \<and> holds (sn_database st) it' \<longrightarrow> holds d' it'" by blast
  have "holds d' x" if "x \<in> set held" for x
  proof -
    have "x \<noteq> it" using that Cons.prems(4) by auto
    then have "items_apart it x" using Cons.prems(3) that unfolding pairwise_def by auto
    then show ?thesis using d'(5) Cons.prems(5) that by blast
  qed
  note kept = this
  let ?st1 = "?st\<lparr>sn_database := d'\<rparr>"
  have "\<exists>st'. SetBlocks_loop (blocks_maps its) ?st1 = (Ok (), st') \<and> opened (sn_database st') \<and> ld_enc (sn_database st') = ld_enc (sn_database ?st1) \<and>
     (\<forall>x \<in> set (held @ [it]) \<union> set its. holds (sn_database st') x) \<and> sn_main st' = sn_main ?st1 \<and>
     (let f = fold (\<lambda>it st. SyncerSession_checkHeight st (item_height it)) its ?st1 in sn_heightFrom st' = sn_heightFrom f \<and> sn_heightTo st' = sn_heightTo f)"
    by (rule Cons.IH) (use Cons.prems d' kept in \<open>auto simp: Un_commute insert_commute\<close>)
  moreover have "SetBlocks_loop (blocks_maps (it # its)) st = SetBlocks_loop (blocks_maps its) ?st1"
    using d'(1) db by (simp add: blocks_maps_def Let_def item_height_def)
  moreover have h: "sn_heightFrom (fold (\<lambda>it st. SyncerSession_checkHeight st (item_height it)) its (st\<lparr>sn_database := e\<rparr>)) =
      sn_heightFrom (fold (\<lambda>it st. SyncerSession_checkHeight st (item_height it)) its st) \<and>
      sn_heightTo (fold (\<lambda>it st. SyncerSession_checkHeight st (item_height it)) its (st\<lparr>sn_database := e\<rparr>)) =
      sn_heightTo (fold (\<lambda>it st. SyncerSession_checkHeight st (item_height it)) its st)" for st and e :: "'a database"
  proof -
    have "fold (\<lambda>it st. SyncerSession_checkHeight st (item_height it)) its (st\<lparr>sn_database := e\<rparr>) =
        (fold (\<lambda>it st. SyncerSession_checkHeight st (item_height it)) its st)\<lparr>sn_database := e\<rparr>"
      by (induction its arbitrary: st) (simp_all add: checkHeight_database)
    then show ?thesis by simp
  qed
  ultimately show ?case using d'(3) db by (auto simp: Let_def)
qed

lemma Commit_loop_holds:
  "opened (sn_main st) \<Longrightarrow> opened (sn_database st) \<Longrightarrow> \<forall>it \<in> set its. item_ok (ld_enc (sn_database st)) it \<and> holds (sn_database st) it \<Longrightarrow>
   ld_enc (sn_main st) = ld_enc (sn_database st) \<Longrightarrow> pairwise items_apart (set held \<union> set its) \<Longrightarrow> distinct (held @ its) \<Longrightarrow> consecutive x its \<Longrightarrow>
   \<forall>it \<in> set held. item_ok (ld_enc (sn_database st)) it \<and> holds (sn_main st) it \<Longrightarrow>
   \<exists>st'. Commit_loop (length its) x st = (Ok (), st') \<and> opened (sn_main st') \<and> ld_enc (sn_main st') = ld_enc (sn_main st) \<and>
     (\<forall>it \<in> set held \<union> set its. holds (sn_main st') it) \<and>
     (\<forall>y. y \<notin> item_height ` set its \<longrightarrow> content (sn_main st') (leveldbBlockHeightKey y) = content (sn_main st) (leveldbBlockHeightKey y))"
proof (induction its arbitrary: st held x)
  case (Cons it its)
  obtain blk h bd where it: "it = (blk, h, bd)" by (cases it) auto
  have x: "x = mf_height (bk_manifest blk)" using Cons.prems(7) by (simp add: it item_height_def)
  have ok: "item_ok (ld_enc (sn_database st)) (blk, h, bd)" "holds (sn_database st) (blk, h, bd)" using Cons.prems(3) by (simp_all add: it)
  note rd = holds_read [OF Cons.prems(2) ok]
  from ok(1) have "item_ok (ld_enc (sn_main st)) it" using Cons.prems(4) it by simp
  from commit_holds [OF Cons.prems(1) this] obtain d' where d': "Database_commitBlock (sn_main st) (fst it) (snd (snd it)) = (Ok (), d')" "opened d'"
    "ld_enc d' = ld_enc (sn_main st)" "holds d' it"
    "\<forall>it'. items_apart it it' \<and> item_ok (ld_enc (sn_main st)) it' \<and> holds (sn_main st) it' \<longrightarrow> holds d' it'"
    "\<forall>y. y \<noteq> item_height it \<longrightarrow> content d' (leveldbBlockHeightKey y) = content (sn_main st) (leveldbBlockHeightKey y)" by blast
  have "holds d' z" if "z \<in> set held" for z
  proof -
    have "z \<noteq> it" using that Cons.prems(6) by auto
    then have "items_apart it z" using Cons.prems(5) that unfolding pairwise_def by auto
    then show ?thesis using d'(5) Cons.prems(4,8) that by metis
  qed
  note kept = this
  let ?st1 = "st\<lparr>sn_main := d'\<rparr>"
  have "\<exists>st'. Commit_loop (length its) (x + 1) ?st1 = (Ok (), st') \<and> opened (sn_main st') \<and> ld_enc (sn_main st') = ld_enc (sn_main ?st1) \<and>
     (\<forall>z \<in> set (held @ [it]) \<union> set its. holds (sn_main st') z) \<and>
     (\<forall>y. y \<notin> item_height ` set its \<longrightarrow> content (sn_main st') (leveldbBlockHeightKey y) = content (sn_main ?st1) (leveldbBlockHeightKey y))"
    by (rule Cons.IH) (use Cons.prems d' kept in \<open>auto simp: Un_commute insert_commute\<close>)
  moreover have "Commit_loop (length (it # its)) x st = Commit_loop (length its) (x + 1) ?st1"
    using rd d'(1) by (simp add: x it)
  ultimately show ?case using d'(3,6) by auto
qed simp

lemma NewSyncerSession_opened:
  "opened d \<Longrightarrow> opened (sn_database (NewSyncerSession d))" "ld_enc (sn_database (NewSyncerSession d)) = ld_enc d" "sn_main (NewSyncerSession d) = d"
  by (auto simp: NewSyncerSession_def NewMemDatabase_def NewDatabase_def opened_def goleveldb_def)

lemma checkHeight_consecutive:
  "consecutive x its \<Longrightarrow> 0 \<le> sn_heightFrom st \<Longrightarrow> sn_heightTo st = x - 1 \<Longrightarrow> sn_heightFrom st \<le> x - 1 \<Longrightarrow>
   (let f = fold (\<lambda>it st. SyncerSession_checkHeight st (item_height it)) its st
    in sn_heightFrom f = sn_heightFrom st \<and> sn_heightTo f = x - 1 + int (length its))"
proof (induction its arbitrary: x st)
  case (Cons it its)
  let ?st = "SyncerSession_checkHeight st (item_height it)"
  have "sn_heightFrom ?st = sn_heightFrom st" "sn_heightTo ?st = x" using Cons.prems by (simp_all add: SyncerSession_checkHeight_def)
  then show ?case using Cons.IH [of "x + 1" ?st] Cons.prems by (simp add: Let_def)
qed (simp add: Let_def)

lemma session_heights:
  assumes "consecutive x (it # its)" and "0 \<le> x" and "sn_heightFrom st < 0"
  shows "let f = fold (\<lambda>it st. SyncerSession_checkHeight st (item_height it)) (it # its) st in sn_heightFrom f = x \<and> sn_heightTo f = x + int (length its)"
proof -
  let ?st = "SyncerSession_checkHeight st (item_height it)"
  have "sn_heightFrom ?st = x" "sn_heightTo ?st = x" using assms by (simp_all add: SyncerSession_checkHeight_def)
  then show ?thesis using checkHeight_consecutive [of "x + 1" its ?st] assms by (simp add: Let_def)
qed

lemma SetBlocks_collects:
  assumes "opened d" and "\<forall>it \<in> set its. item_ok (ld_enc d) it \<and> CompareManifestWithMap (bk_manifest (fst it)) (snd (snd it)) = Ok ()"
    and "pairwise items_apart (set its)" and "distinct its"
  shows "\<exists>st. SyncerSession_SetBlocks (NewSyncerSession d) (map fst its) (map (snd \<circ> snd) its) = (Ok (), st) \<and> opened (sn_database st) \<and> sn_main st = d \<and>
    ld_enc (sn_database st) = ld_enc d \<and> (\<forall>it \<in> set its. holds (sn_database st) it) \<and>
    (let f = fold (\<lambda>it st. SyncerSession_checkHeight st (item_height it)) its (NewSyncerSession d)
     in sn_heightFrom st = sn_heightFrom f \<and> sn_heightTo st = sn_heightTo f)"
proof -
  note n = NewSyncerSession_opened [of d]
  have z: "zip (map fst its) (map (snd \<circ> snd) its) = blocks_maps its" by (simp add: blocks_maps_def zip_map_map zip_same_conv_map comp_def)
  have "seq (map (\<lambda>(b, m). CompareManifestWithMap (bk_manifest b) m) (blocks_maps its)) = Ok ()"
    using assms(2) by (auto simp: seq_Ok_iff blocks_maps_def)
  then have s: "SyncerSession_SetBlocks (NewSyncerSession d) (map fst its) (map (snd \<circ> snd) its) = SetBlocks_loop (blocks_maps its) (NewSyncerSession d)"
    unfolding SyncerSession_SetBlocks_def z by simp
  from SetBlocks_loop_holds [of "NewSyncerSession d" its "[]"] assms n show ?thesis unfolding s by auto
qed


text \<open>
  A syncer's session that starts with the pre-genesis block loses it: \<open>checkHeight\<close> takes the height -1 for ``not set'', so \<open>Commit\<close> begins at
  height 0 and succeeds, and the main database is left without the block of height -1.
\<close>

theorem syncer_session_skips_pregenesis:
  assumes "opened d" and "\<forall>it \<in> set its. item_ok (ld_enc d) it \<and> CompareManifestWithMap (bk_manifest (fst it)) (snd (snd it)) = Ok ()"
    and "pairwise items_apart (set its)" and "distinct its" and "2 \<le> length its" and "consecutive PreGenesisHeight its"
    and "content d (leveldbBlockHeightKey PreGenesisHeight) = None"
  shows "\<exists>st st'. SyncerSession_SetBlocks (NewSyncerSession d) (map fst its) (map (snd \<circ> snd) its) = (Ok (), st) \<and>
    Database_blockByHeight (sn_database st) PreGenesisHeight = Ok (Some (fst (hd its)), True) \<and>
    SyncerSession_Commit st = (Ok (), st') \<and> Database_ManifestByHeight (sn_main st') PreGenesisHeight = Ok (None, False)"
proof -
  obtain st where st: "SyncerSession_SetBlocks (NewSyncerSession d) (map fst its) (map (snd \<circ> snd) its) = (Ok (), st)" "opened (sn_database st)" "sn_main st = d"
    "ld_enc (sn_database st) = ld_enc d" "\<forall>it \<in> set its. holds (sn_database st) it"
    "let f = fold (\<lambda>it st. SyncerSession_checkHeight st (item_height it)) its (NewSyncerSession d) in sn_heightFrom st = sn_heightFrom f \<and> sn_heightTo st = sn_heightTo f"
    using SetBlocks_collects [OF assms(1-4)] by blast
  obtain it0 it its' where its: "its = it0 # it # its'" using assms(5) by (cases its; cases "tl its") auto
  have c: "item_height it0 = PreGenesisHeight" "consecutive 0 (it # its')" using assms(6) by (simp_all add: its PreGenesisHeight_def)
  let ?st0 = "SyncerSession_checkHeight (NewSyncerSession d) (item_height it0)"
  have neg: "sn_heightFrom ?st0 < 0" by (simp add: NewSyncerSession_def SyncerSession_checkHeight_def c(1) PreGenesisHeight_def)
  have h: "sn_heightFrom st = 0" "sn_heightTo st = int (length its')"
    using st(6) session_heights [OF c(2) _ neg] by (simp_all add: its Let_def)
  then have "nat (sn_heightTo st - sn_heightFrom st + 1) = length (it # its')" by simp
  then have e: "SyncerSession_Commit st = Commit_loop (length (it # its')) 0 st" by (simp only: SyncerSession_Commit_def h(1))
  have "\<exists>st'. Commit_loop (length (it # its')) 0 st = (Ok (), st') \<and> opened (sn_main st') \<and> ld_enc (sn_main st') = ld_enc (sn_main st) \<and>
     (\<forall>x \<in> set [] \<union> set (it # its'). holds (sn_main st') x) \<and>
     (\<forall>y. y \<notin> item_height ` set (it # its') \<longrightarrow> content (sn_main st') (leveldbBlockHeightKey y) = content (sn_main st) (leveldbBlockHeightKey y))"
    by (rule Commit_loop_holds) (use assms(1-4) st c(2) in \<open>auto simp: its pairwise_insert\<close>)
  then obtain st' where st': "SyncerSession_Commit st = (Ok (), st')" "opened (sn_main st')"
    "\<forall>y. y \<notin> item_height ` set (it # its') \<longrightarrow> content (sn_main st') (leveldbBlockHeightKey y) = content d (leveldbBlockHeightKey y)"
    unfolding e st(3) by blast
  have "PreGenesisHeight \<notin> item_height ` set (it # its')"
  proof
    assume "PreGenesisHeight \<in> item_height ` set (it # its')"
    then obtain z where z: "z \<in> set (it # its')" "item_height z = PreGenesisHeight" by (elim imageE) simp
    then have "z \<noteq> it0" "z \<in> set its" "it0 \<in> set its" using assms(4) by (auto simp: its)
    then have "items_apart z it0" using assms(3) unfolding pairwise_def by blast
    with z(2) c(1) show False by (simp add: items_apart_def)
  qed
  then have m: "Database_ManifestByHeight (sn_main st') PreGenesisHeight = Ok (None, False)"
    using st'(3) assms(7) by (simp add: ManifestByHeight_content [OF st'(2)])
  have "Database_blockByHeight (sn_database st) PreGenesisHeight = Ok (Some (fst it0), True)"
    using holds_read(1) [OF st(2), of "fst it0" "fst (snd it0)" "snd (snd it0)"] st(4,5) assms(2) c(1) by (auto simp: its item_height_def)
  with st(1) st'(1) m show ?thesis by (auto simp: its)
qed

section \<open>Witnesses\<close>

definition blk_of :: "int \<Rightarrow> blockv0" where
  "blk_of i = \<lparr>bk_ht = BlockV0Hint,
     bk_manifest = \<lparr>mf_ht = ManifestV0Hint, mf_h = Some (NewBytes [of_int i + 10]), mf_height = i, mf_round = 0, mf_proposal = None, mf_previousBlock = None,
       mf_operationsHash = None, mf_statesHash = None, mf_confirmedAt = 10, mf_createdAt = 10\<rparr>,
     bk_operationsTree = emptyFixedTree, bk_operations = None, bk_statesTree = emptyFixedTree, bk_states = None,
     bk_ci = \<lparr>ci_ht = BlockConsensusInfoV0Hint, ci_initVoteproof = None, ci_acceptVoteproof = None, ci_suffrageInfo = None, ci_sfs = None\<rparr>\<rparr>"

definition bdm_of :: "int \<Rightarrow> blockdatamap" where
  "bdm_of i = (NewBaseBlockdataMap 20 BaseV0Hint i)\<lparr>bd_block := Some (NewBytes [of_int i + 10])\<rparr>"

definition block_encoder :: encoder where
  "block_encoder = \<lparr>
     en_ht = NewHint ''json-encoder'' ''v0.0.1'',
     en_Marshal = (\<lambda>x. case x of
        SHash h \<Rightarrow> Ok (Hash_Bytes h)
      | SBlock b \<Rightarrow> Ok [1, of_int (mf_height (bk_manifest b))]
      | SManifest m \<Rightarrow> Ok [2, of_int (mf_height m)]
      | SBlockdataMap bd \<Rightarrow> Ok [3, of_int (bd_height bd)]
      | _ \<Rightarrow> Err (plain ''unknown type'')),
     en_Decode = (\<lambda>b. case b of
        [t, n] \<Rightarrow>
          if t = 1 then Ok (Some (SBlock (blk_of (sint n)))) else if t = 2 then Ok (Some (SManifest (bk_manifest (blk_of (sint n)))))
          else if t = 3 then Ok (Some (SBlockdataMap (bdm_of (sint n)))) else Err (plain ''unknown type'')
      | _ \<Rightarrow> Err (plain ''unknown type'')),
     en_UnmarshalHash = (\<lambda>b. Ok b)\<rparr>"

definition block_encoders :: encoders where
  "block_encoders = (NewHintset ())\<lparr>hs_m := [''json-encoder-v0.0.1'' \<mapsto> (NewHint ''json-encoder'' ''v0.0.1'', Some block_encoder)]\<rparr>"

definition block_db :: "alist_store \<Rightarrow> alist_store database" where
  "block_db m = NewDatabase sample_leveldb m block_encoders block_encoder"

lemma block_db_opened: "sorted_wrt (<) (map fst m) \<Longrightarrow> opened (block_db m)" "ld_enc (block_db m) = block_encoder" "content (block_db []) k = None"
proof -
  have h: "ParseHint ''json-encoder-v0.0.1'' = Ok (NewHint ''json-encoder'' ''v0.0.1'')" "Hint_String (NewHint ''json-encoder'' ''v0.0.1'') = ''json-encoder-v0.0.1''"
    "length ''json-encoder-v0.0.1'' \<le> MaxHintLength" by code_simp+
  have "Encoders_Encoder block_encoders ''json-encoder'' ''v0.0.1'' = Ok block_encoder"
    by (simp add: Encoders_Encoder_def block_encoders_def Hintset_Get_def Hint_RawString_def NewHint_def)
  with h have "encoder_registered block_encoders block_encoder"
    unfolding encoder_registered_def by (simp add: block_encoder_def [THEN arg_cong [where f = en_ht]] NewHint_def)
  then show "sorted_wrt (<) (map fst m) \<Longrightarrow> opened (block_db m)"
    using sample_goleveldb by (auto simp: opened_def block_db_def NewDatabase_def)
  show "ld_enc (block_db m) = block_encoder" "content (block_db []) k = None"
    by (simp_all add: block_db_def NewDatabase_def content_def sample_kv)
qed

definition sample_item :: "int \<Rightarrow> sync_item" where
  "sample_item i = (blk_of i, NewBytes [of_int i + 10], bdm_of i)"

lemma sample_item_ok:
  assumes "i \<in> {-1, 0, 1}"
  shows "item_ok block_encoder (sample_item i) \<and> CompareManifestWithMap (bk_manifest (fst (sample_item i))) (snd (snd (sample_item i))) = Ok ()"
proof -
  have s: "sint (of_int i :: byte) = i" using assms by auto
  have r: "reads_back block_encoder (SHash (NewBytes [of_int i + 10]))" "reads_back block_encoder (SBlock (blk_of i))"
    "reads_back block_encoder (SManifest (bk_manifest (blk_of i)))" "reads_back block_encoder (SBlockdataMap (bdm_of i))"
    using s by (simp_all add: reads_back_def block_encoder_def blk_of_def bdm_of_def NewBaseBlockdataMap_def)
  have "committable block_encoder (blk_of i) (NewBytes [of_int i + 10]) (bdm_of i)"
    unfolding committable_def using r
    by (simp add: NewBytes_def blk_of_def bdm_of_def NewBaseBlockdataMap_def emptyFixedTree_def FixedTree_Len_def block_states_def)
  moreover have "is_i64 i" using assms by (auto simp: is_i64_def)
  ultimately show ?thesis
    by (simp add: item_ok_def sample_item_def item_height_def CompareManifestWithMap_def of_hash_def Hash_Equal_def)
      (simp add: blk_of_def bdm_of_def NewBaseBlockdataMap_def of_hash_def Hash_Equal_def)
qed

lemma sample_items:
  "item_height (sample_item i) = i" "pairwise items_apart {sample_item (-1), sample_item 0}" "pairwise items_apart {sample_item 0, sample_item 1}"
  "sample_item 0 \<noteq> sample_item 1" "sample_item (-1) \<noteq> sample_item 0"
proof -
  show h: "item_height (sample_item i) = i" for i by (simp add: item_height_def sample_item_def blk_of_def)
  show "sample_item 0 \<noteq> sample_item 1" "sample_item (-1) \<noteq> sample_item 0" using h [of 0] h [of 1] h [of "-1"] by auto
  show "pairwise items_apart {sample_item (-1), sample_item 0}" "pairwise items_apart {sample_item 0, sample_item 1}"
    by (auto simp: pairwise_def items_apart_def h) (simp_all add: sample_item_def NewBytes_def)
qed




theorem syncer_session_skips_pregenesis_witness:
  "\<exists>st st'. SyncerSession_SetBlocks (NewSyncerSession (block_db [])) [blk_of (-1), blk_of 0] [bdm_of (-1), bdm_of 0] = (Ok (), st) \<and>
     SyncerSession_Commit st = (Ok (), st') \<and> Database_ManifestByHeight (sn_main st') PreGenesisHeight = Ok (None, False)"
proof -
  let ?its = "[sample_item (-1), sample_item 0]"
  have i: "\<forall>it \<in> set ?its. item_ok (ld_enc (block_db [])) it \<and> CompareManifestWithMap (bk_manifest (fst it)) (snd (snd it)) = Ok ()"
    using sample_item_ok [of "-1"] sample_item_ok [of 0] by (simp add: block_db_opened(2))
  have f: "map fst ?its = [blk_of (-1), blk_of 0]" "map (snd \<circ> snd) ?its = [bdm_of (-1), bdm_of 0]" by (simp_all add: sample_item_def)
  have o: "opened (block_db [])" by (rule block_db_opened(1)) simp
  have p: "pairwise items_apart (set ?its)" "distinct ?its" "2 \<le> length ?its" "consecutive PreGenesisHeight ?its"
    using sample_items by (simp_all add: PreGenesisHeight_def)
  from syncer_session_skips_pregenesis [OF o i p block_db_opened(3)] show ?thesis unfolding f by blast
qed

end
