(* ===== verification/Mitum_Suffrage.thy ===== *)
theory Mitum_Suffrage
  imports Mitum_Voteproof
begin

text \<open>
  The suffrages a node runs with (\<^verbatim>\<open>src/launch/process/suffrage_base.go\<close>, \<^verbatim>\<open>suffrage_fixed.go\<close>, \<^verbatim>\<open>suffrage_roundrobin.go\<close>, \<^verbatim>\<open>suffrage_empty.go\<close>): who
  may vote, and which nodes act and propose at a height and round. The third-party LRU cache is the parameter \<open>lru\<close>. The interface
  \<open>base.Suffrage\<close> as its clients use it is the record \<open>suffrage\<close>; its contract is the locale \<open>electing\<close>, which the round-robin and the fixed
  suffrage satisfy. The lemmas: the election is a function of the point and the previous block, its members are suffrage nodes, the cache does
  not change it, and every node becomes the proposer within as many rounds as there are nodes.
\<close>

section \<open>The common part\<close>

text \<open>\<open>Get\<close> of the cache moves entries, so it returns a cache as well.\<close>

record 'c lru =
  lru_New2Q :: "int \<Rightarrow> 'c"
  lru_Get :: "'c \<Rightarrow> string \<Rightarrow> acting_suffrage option \<times> 'c"
  lru_Add :: "'c \<Rightarrow> string \<Rightarrow> acting_suffrage \<Rightarrow> 'c"

record 'c base_suffrage =
  bs_name :: string
  bs_nodes :: "address list"
  bs_numberOfActing :: u64
  bs_cacheSize :: int
  bs_cache :: "'c option"
  bs_nodesMap :: "string set"

text \<open>The constructor does not store its argument \<open>name\<close>; it sorts the given nodes in place.\<close>

definition NewBaseSuffrage :: "'c lru \<Rightarrow> string \<Rightarrow> address list \<Rightarrow> u64 \<Rightarrow> int \<Rightarrow> 'c base_suffrage res" where
  "NewBaseSuffrage C name nodes numberOfActing cacheSize =
     (if int (length nodes) < sint numberOfActing then Err (plain ''nodes is under number of acting, %d < %d'')
      else Ok \<lparr>bs_name = [], bs_nodes = SortAddresses nodes, bs_numberOfActing = numberOfActing, bs_cacheSize = cacheSize,
               bs_cache = (if cacheSize > 0 then Some (lru_New2Q C cacheSize) else None), bs_nodesMap = ad_s ` set nodes\<rparr>)"

definition BaseSuffrage_IsInside :: "('c, 'z) base_suffrage_scheme \<Rightarrow> address \<Rightarrow> bool" where
  "BaseSuffrage_IsInside sf a \<longleftrightarrow> ad_s a \<in> bs_nodesMap sf"

definition BaseSuffrage_cacheKey :: "height \<Rightarrow> round \<Rightarrow> string" where
  "BaseSuffrage_cacheKey h r = dec_int h @ ''-'' @ dec_nat (unat r)"

text \<open>\<open>Acting\<close>, with the election function the suffrage was made with as the argument \<open>elect\<close>.\<close>

definition BaseSuffrage_Acting ::
  "'c lru \<Rightarrow> (height \<Rightarrow> round \<Rightarrow> acting_suffrage res) \<Rightarrow> ('c, 'z) base_suffrage_scheme \<Rightarrow> height \<Rightarrow> round \<Rightarrow> acting_suffrage res \<times> ('c, 'z) base_suffrage_scheme" where
  "BaseSuffrage_Acting C elect sf h r =
     (case bs_cache sf of
        None \<Rightarrow> (elect h r, sf)
      | Some c \<Rightarrow>
          (case lru_Get C c (BaseSuffrage_cacheKey h r) of
             (Some af, c') \<Rightarrow> (Ok af, sf\<lparr>bs_cache := Some c'\<rparr>)
           | (None, c') \<Rightarrow>
               (case elect h r of
                  Ok af \<Rightarrow> (Ok af, sf\<lparr>bs_cache := Some (lru_Add C c' (BaseSuffrage_cacheKey h r) af)\<rparr>)
                | e \<Rightarrow> (e, sf\<lparr>bs_cache := Some c'\<rparr>))))"

definition BaseSuffrage_IsActing ::
  "'c lru \<Rightarrow> (height \<Rightarrow> round \<Rightarrow> acting_suffrage res) \<Rightarrow> ('c, 'z) base_suffrage_scheme \<Rightarrow> height \<Rightarrow> round \<Rightarrow> address \<Rightarrow> bool res \<times> ('c, 'z) base_suffrage_scheme" where
  "BaseSuffrage_IsActing C elect sf h r n =
     (case BaseSuffrage_Acting C elect sf h r of (af, sf) \<Rightarrow> (bind_res af (\<lambda>af. Ok (ActingSuffrage_Exists af n)), sf))"

definition BaseSuffrage_IsProposer ::
  "lib \<Rightarrow> 'c lru \<Rightarrow> (height \<Rightarrow> round \<Rightarrow> acting_suffrage res) \<Rightarrow> ('c, 'z) base_suffrage_scheme \<Rightarrow> height \<Rightarrow> round \<Rightarrow> address \<Rightarrow> bool res \<times> ('c, 'z) base_suffrage_scheme" where
  "BaseSuffrage_IsProposer L C elect sf h r n =
     (case BaseSuffrage_Acting C elect sf h r of (af, sf) \<Rightarrow> (bind_res af (\<lambda>af. Ok (Address_Equal L (as_proposer af) (Some n))), sf))"

section \<open>Round robin\<close>

text \<open>\<open>g\<close> is \<open>getManifestFunc\<close>, \<open>None\<close> when it is nil; it returns the hash of the block at a height.\<close>

type_synonym manifest_hash = "height \<Rightarrow> hash option res"

definition sum_bytes :: "bytes \<Rightarrow> u64" where
  "sum_bytes bs = foldl (\<lambda>s b. s + ucast b) 0 bs"

definition Roundrobin_pos :: "manifest_hash option \<Rightarrow> height \<Rightarrow> round \<Rightarrow> nat \<Rightarrow> nat res" where
  "Roundrobin_pos g h r n =
     bind_res (case g of None \<Rightarrow> Ok 0 | Some g \<Rightarrow> bind_res (g (i64 (h - 1))) (\<lambda>x. bind_res (of_hash x) (\<lambda>x. Ok (sum_bytes (Hash_Bytes x))))) (\<lambda>s.
       if n = 0 then Panic else Ok (unat ((s + (word_of_int h + r)) mod of_nat n)))"

definition Roundrobin_select :: "address list \<Rightarrow> int \<Rightarrow> nat \<Rightarrow> address list res" where
  "Roundrobin_select nodes na pos =
     (if int (length nodes) = na then Ok nodes
      else
        let selected = drop pos nodes in
        if int (length selected) > na then (if na < 0 then Panic else Ok (take (nat na) selected))
        else if int (length selected) < na then Ok (selected @ take (nat (na - int (length selected))) nodes)
        else Ok selected)"

definition Roundrobin_elect :: "manifest_hash option \<Rightarrow> ('c, 'z) base_suffrage_scheme \<Rightarrow> height \<Rightarrow> round \<Rightarrow> acting_suffrage res" where
  "Roundrobin_elect g sf h r =
     (let nodes = bs_nodes sf; na = min (sint (bs_numberOfActing sf)) (int (length nodes)) in
      bind_res (if i64 (h - 1) \<le> PreGenesisHeight then Ok 0 else Roundrobin_pos g h r (length nodes)) (\<lambda>pos.
        if pos < length nodes then bind_res (Roundrobin_select nodes na pos) (\<lambda>sel. Ok (NewActingSuffrage h r (nodes ! pos) sel))
        else Panic))"

definition NewRoundrobinSuffrage :: "'c lru \<Rightarrow> address list \<Rightarrow> u64 \<Rightarrow> int \<Rightarrow> 'c base_suffrage res" where
  "NewRoundrobinSuffrage C nodes numberOfActing cacheSize =
     NewBaseSuffrage C ''roundrobin-suffrage'' nodes numberOfActing cacheSize"

definition Roundrobin_Acting ::
  "'c lru \<Rightarrow> manifest_hash option \<Rightarrow> ('c, 'z) base_suffrage_scheme \<Rightarrow> height \<Rightarrow> round \<Rightarrow> acting_suffrage res \<times> ('c, 'z) base_suffrage_scheme" where
  "Roundrobin_Acting C g sf h r = BaseSuffrage_Acting C (Roundrobin_elect g sf) sf h r"

section \<open>Fixed suffrage of the launch package\<close>

text \<open>The proposer is \<open>None\<close> when the constructor chose the rotating election.\<close>

record 'c launch_fixed = "'c base_suffrage" +
  lf_proposer :: "address option"

definition launch_NewFixedSuffrage ::
  "lib \<Rightarrow> 'c lru \<Rightarrow> address option \<Rightarrow> address list \<Rightarrow> u64 \<Rightarrow> int \<Rightarrow> 'c launch_fixed res" where
  "launch_NewFixedSuffrage L C pr nodes numberOfActing cacheSize =
     (if length nodes < 1 then Err (plain ''empty nodes'')
      else if pr \<noteq> None \<and> \<not> list_ex (\<lambda>n. Address_Equal L n pr) nodes then Err (plain ''proposer not found in nodes'')
      else
        let p = (if pr = None \<and> length nodes = 1 then Some (nodes ! 0) else pr) in
        bind_res (NewBaseSuffrage C ''fixed-suffrage'' nodes numberOfActing cacheSize) (\<lambda>b.
          Ok (base_suffrage.extend b \<lparr>lf_proposer = p\<rparr>)))"

definition launch_Fixed_elect :: "'c launch_fixed \<Rightarrow> height \<Rightarrow> round \<Rightarrow> acting_suffrage res" where
  "launch_Fixed_elect sf h r =
     (case lf_proposer sf of
        Some p \<Rightarrow> Ok (NewActingSuffrage h r p (bs_nodes sf))
      | None \<Rightarrow>
          if bs_numberOfActing sf = 0 then Panic
          else
            let pos = unat ((word_of_int h + r) mod bs_numberOfActing sf) in
            if pos < length (bs_nodes sf) then Ok (NewActingSuffrage h r (bs_nodes sf ! pos) (bs_nodes sf)) else Panic)"

definition launch_Fixed_Acting :: "'c lru \<Rightarrow> 'c launch_fixed \<Rightarrow> height \<Rightarrow> round \<Rightarrow> acting_suffrage res \<times> 'c launch_fixed" where
  "launch_Fixed_Acting C sf h r = BaseSuffrage_Acting C (launch_Fixed_elect sf) sf h r"

section \<open>The empty suffrage\<close>

text \<open>Its acting suffrage has a nil proposer, which clients dereference: \<open>None\<close> here.\<close>

definition EmptySuffrage_IsInside :: "address \<Rightarrow> bool" where
  "EmptySuffrage_IsInside a \<longleftrightarrow> False"

definition EmptySuffrage_Acting :: "height \<Rightarrow> round \<Rightarrow> (height \<times> round \<times> address option \<times> address list) res" where
  "EmptySuffrage_Acting h r = Ok (h, r, None, [])"

section \<open>The cache\<close>

text \<open>
  What is relied on of the LRU cache, \<open>held\<close> being its entries: a new one is empty, \<open>Add\<close> replaces the entry of its key and may evict others, \<open>Get\<close>
  returns an entry that is held or nothing.
\<close>

definition lru_cache :: "'c lru \<Rightarrow> ('c \<Rightarrow> (string \<times> acting_suffrage) set) \<Rightarrow> bool" where
  "lru_cache C held \<longleftrightarrow>
     (\<forall>n. held (lru_New2Q C n) = {}) \<and>
     (\<forall>c k v. held (lru_Add C c k v) \<subseteq> insert (k, v) {e \<in> held c. fst e \<noteq> k}) \<and>
     (\<forall>c k r c'. lru_Get C c k = (r, c') \<longrightarrow> held c' \<subseteq> held c \<and> (\<forall>v. r = Some v \<longrightarrow> (k, v) \<in> held c))"

text \<open>Every cached election is the one \<open>elect\<close> makes.\<close>

definition cache_agrees :: "('c \<Rightarrow> (string \<times> acting_suffrage) set) \<Rightarrow> (height \<Rightarrow> round \<Rightarrow> acting_suffrage res) \<Rightarrow> ('c, 'z) base_suffrage_scheme \<Rightarrow> bool" where
  "cache_agrees held elect sf \<longleftrightarrow>
     (\<forall>c \<in> set_option (bs_cache sf). \<forall>k af. (k, af) \<in> held c \<longrightarrow> (\<exists>h r. k = BaseSuffrage_cacheKey h r \<and> elect h r = Ok af))"

lemma dec_int_dash: "CHR ''-'' \<notin> set (dec_nat n)"
  using dec_nat_digits [of n] by (auto simp: is_digit_def)

lemma dec_int_inject: "dec_int a = dec_int b \<longleftrightarrow> a = b"
proof
  assume "dec_int a = dec_int b"
  moreover have "dec_nat m \<noteq> CHR ''-'' # s" for m s using dec_int_dash [of m] by (cases "dec_nat m") auto
  ultimately show "a = b" by (auto simp: dec_int_def split: if_splits) metis+
qed simp

lemma split_at_first:
  assumes "x \<notin> set a" and "x \<notin> set b" and "a @ x # u = b @ x # y"
  shows "a = b \<and> u = y"
  using assms
proof (induction a arbitrary: b)
  case Nil
  then show ?case by (cases b) auto
next
  case (Cons c a)
  then show ?case by (cases b) auto
qed

lemma split_at_last_dash:
  assumes "CHR ''-'' \<notin> set v" and "CHR ''-'' \<notin> set w" and "u @ CHR ''-'' # v = x @ CHR ''-'' # w"
  shows "u = x \<and> v = w"
proof -
  have "rev v @ CHR ''-'' # rev u = rev w @ CHR ''-'' # rev x" using arg_cong [OF assms(3), of rev] by simp
  from split_at_first [OF _ _ this] assms(1,2) show ?thesis by simp
qed

lemma cacheKey_inject: "BaseSuffrage_cacheKey h r = BaseSuffrage_cacheKey h' r' \<longleftrightarrow> h = h' \<and> r = r'"
proof
  assume "BaseSuffrage_cacheKey h r = BaseSuffrage_cacheKey h' r'"
  then have "dec_int h @ CHR ''-'' # dec_nat (unat r) = dec_int h' @ CHR ''-'' # dec_nat (unat r')"
    by (simp add: BaseSuffrage_cacheKey_def)
  from split_at_last_dash [OF dec_int_dash dec_int_dash this] show "h = h' \<and> r = r'"
    by (simp add: dec_int_inject word_unat_eq_iff)
qed simp

text \<open>The cache is transparent: \<open>Acting\<close> returns what the election returns, and keeps the cache in agreement with it.\<close>

lemma Acting_elects:
  assumes "lru_cache C held" and "cache_agrees held elect sf"
  shows "fst (BaseSuffrage_Acting C elect sf h r) = elect h r"
    and "cache_agrees held elect (snd (BaseSuffrage_Acting C elect sf h r))"
    and "bs_nodes (snd (BaseSuffrage_Acting C elect sf h r)) = bs_nodes sf \<and>
      bs_numberOfActing (snd (BaseSuffrage_Acting C elect sf h r)) = bs_numberOfActing sf \<and>
      bs_nodesMap (snd (BaseSuffrage_Acting C elect sf h r)) = bs_nodesMap sf"
proof -
  let ?k = "BaseSuffrage_cacheKey h r"
  have "fst (BaseSuffrage_Acting C elect sf h r) = elect h r \<and> cache_agrees held elect (snd (BaseSuffrage_Acting C elect sf h r))"
  proof (cases "bs_cache sf")
    case None
    then show ?thesis using assms(2) by (simp add: BaseSuffrage_Acting_def)
  next
    case (Some c)
    obtain x c' where g: "lru_Get C c ?k = (x, c')" by fastforce
    from assms(1) g have sub: "held c' \<subseteq> held c" and hit: "\<And>v. x = Some v \<Longrightarrow> (?k, v) \<in> held c" by (auto simp: lru_cache_def)
    have add: "held (lru_Add C c' ?k v) \<subseteq> insert (?k, v) {e \<in> held c'. fst e \<noteq> ?k}" for v using assms(1) by (simp add: lru_cache_def)
    have ag: "\<And>k af. (k, af) \<in> held c \<Longrightarrow> \<exists>h r. k = BaseSuffrage_cacheKey h r \<and> elect h r = Ok af"
      using assms(2) Some by (simp add: cache_agrees_def)
    show ?thesis
    proof (cases x)
      case None
      have "cache_agrees held elect (sf\<lparr>bs_cache := Some (lru_Add C c' ?k af)\<rparr>)" if "elect h r = Ok af" for af
        using add [of af] sub ag that by (fastforce simp: cache_agrees_def)
      moreover have "cache_agrees held elect (sf\<lparr>bs_cache := Some c'\<rparr>)" using sub ag by (auto simp: cache_agrees_def)
      ultimately show ?thesis using Some g None by (auto simp: BaseSuffrage_Acting_def split: res.splits)
    next
      case (Some af)
      from ag [OF hit [OF this]] have "elect h r = Ok af" by (auto simp: cacheKey_inject)
      moreover have "cache_agrees held elect (sf\<lparr>bs_cache := Some c'\<rparr>)" using sub ag by (auto simp: cache_agrees_def)
      ultimately show ?thesis using \<open>bs_cache sf = Some c\<close> g Some by (auto simp: BaseSuffrage_Acting_def)
    qed
  qed
  then show "fst (BaseSuffrage_Acting C elect sf h r) = elect h r"
    and "cache_agrees held elect (snd (BaseSuffrage_Acting C elect sf h r))" by auto
  show "bs_nodes (snd (BaseSuffrage_Acting C elect sf h r)) = bs_nodes sf \<and>
      bs_numberOfActing (snd (BaseSuffrage_Acting C elect sf h r)) = bs_numberOfActing sf \<and>
      bs_nodesMap (snd (BaseSuffrage_Acting C elect sf h r)) = bs_nodesMap sf"
    by (auto simp: BaseSuffrage_Acting_def split: option.splits res.splits prod.splits)
qed

section \<open>The round-robin election\<close>

lemma rotate_parts: "pos \<le> length xs \<Longrightarrow> pos < length xs \<or> xs = [] \<Longrightarrow> rotate pos xs = drop pos xs @ take pos xs"
  by (cases "pos < length xs") (auto simp: rotate_drop_take)

lemma Roundrobin_select_rotates:
  assumes "pos < length nodes" and "0 \<le> na" and "na \<le> int (length nodes)"
  shows "\<exists>sel. Roundrobin_select nodes na pos = Ok sel \<and>
    sel = (if int (length nodes) = na then nodes else take (nat na) (rotate pos nodes))"
proof -
  have r: "rotate pos nodes = drop pos nodes @ take pos nodes" using assms(1) by (simp add: rotate_parts)
  have "take (nat na) (rotate pos nodes) = drop pos nodes @ take (nat (na - int (length nodes - pos))) nodes"
    if "int (length nodes - pos) < na"
  proof -
    have "nat na - (length nodes - pos) \<le> pos" using assms(3) that by linarith
    then show ?thesis using that by (simp add: r min_def nat_diff_distrib)
  qed
  then show ?thesis using assms(2)
    by (auto simp: Roundrobin_select_def Let_def r not_less)
qed

lemma Roundrobin_select_members:
  assumes "pos < length nodes" and "0 \<le> na" and "na \<le> int (length nodes)" and "Roundrobin_select nodes na pos = Ok sel"
  shows "length sel = nat na" and "set sel \<subseteq> set nodes" and "distinct nodes \<Longrightarrow> distinct sel" and "1 \<le> na \<Longrightarrow> nodes ! pos \<in> set sel"
proof -
  have sel: "sel = (if int (length nodes) = na then nodes else take (nat na) (rotate pos nodes))"
    using Roundrobin_select_rotates [OF assms(1-3)] assms(4) by auto
  then show "length sel = nat na" using assms(2,3) by auto
  show "set sel \<subseteq> set nodes" using sel set_take_subset [of "nat na" "rotate pos nodes"] by auto
  show "distinct nodes \<Longrightarrow> distinct sel" using sel by simp
  assume "1 \<le> na"
  moreover have "rotate pos nodes = nodes ! pos # tl (rotate pos nodes)"
    using assms(1) by (simp add: rotate_parts Cons_nth_drop_Suc [symmetric])
  ultimately show "nodes ! pos \<in> set sel" using sel assms(1)
    by (cases "nat na") (auto, metis list.set_intros(1) take_Suc_Cons)
qed

text \<open>The position of the proposer, when the manifest of the previous block can be had.\<close>

definition rr_seed :: "manifest_hash option \<Rightarrow> height \<Rightarrow> u64 res" where
  "rr_seed g h = (case g of None \<Rightarrow> Ok 0 | Some g \<Rightarrow> bind_res (g (i64 (h - 1))) (\<lambda>x. bind_res (of_hash x) (\<lambda>x. Ok (sum_bytes (Hash_Bytes x)))))"

definition rr_index :: "u64 \<Rightarrow> height \<Rightarrow> round \<Rightarrow> nat \<Rightarrow> nat" where
  "rr_index s h r n = (if i64 (h - 1) \<le> PreGenesisHeight then 0 else unat ((s + (word_of_int h + r)) mod of_nat n))"

lemma rr_index_less:
  assumes "0 < n" and "n < 2 ^ 64" shows "rr_index s h r n < n"
proof -
  have "unat (of_nat n :: u64) = n" using assms(2) by (simp add: unat_of_nat)
  then show ?thesis using assms(1) by (simp add: rr_index_def unat_mod)
qed

lemma Roundrobin_elect_Ok:
  assumes "rr_seed g h = Ok s" and "0 < length (bs_nodes sf)" and "length (bs_nodes sf) < 2 ^ 63" and "0 \<le> sint (bs_numberOfActing sf)"
  shows "\<exists>sel. Roundrobin_elect g sf h r = Ok (NewActingSuffrage h r (bs_nodes sf ! rr_index s h r (length (bs_nodes sf))) sel) \<and>
    Roundrobin_select (bs_nodes sf) (min (sint (bs_numberOfActing sf)) (int (length (bs_nodes sf)))) (rr_index s h r (length (bs_nodes sf))) = Ok sel"
proof -
  let ?ns = "bs_nodes sf" and ?i = "rr_index s h r (length (bs_nodes sf))"
  have i: "?i < length ?ns" using rr_index_less [OF assms(2)] assms(3) by simp
  obtain sel where sel: "Roundrobin_select ?ns (min (sint (bs_numberOfActing sf)) (int (length ?ns))) ?i = Ok sel"
    using Roundrobin_select_rotates [OF i, of "min (sint (bs_numberOfActing sf)) (int (length ?ns))"] assms(4) by auto
  have "(if i64 (h - 1) \<le> PreGenesisHeight then Ok 0 else Roundrobin_pos g h r (length ?ns)) = Ok ?i"
    using assms(1,2) by (auto simp: Roundrobin_pos_def rr_index_def rr_seed_def)
  then show ?thesis using i sel by (simp add: Roundrobin_elect_def Let_def)
qed

text \<open>What is elected is always taken from the nodes.\<close>

lemma Roundrobin_elect_members:
  assumes "Roundrobin_elect g sf h r = Ok as"
  shows "as_proposer as \<in> set (bs_nodes sf)" and "set (as_nodeList as) \<subseteq> set (bs_nodes sf)" and "as_height as = h" and "as_round as = r"
proof -
  obtain pos sel where p: "pos < length (bs_nodes sf)" "as = NewActingSuffrage h r (bs_nodes sf ! pos) sel"
    "Roundrobin_select (bs_nodes sf) (min (sint (bs_numberOfActing sf)) (int (length (bs_nodes sf)))) pos = Ok sel"
    using assms by (auto simp: Roundrobin_elect_def Let_def bind_res_Ok_iff split: if_splits)
  have "set sel \<subseteq> set (bs_nodes sf)" using p(3)
    by (auto simp: Roundrobin_select_def Let_def split: if_splits dest!: in_set_takeD in_set_dropD)
  then show "as_proposer as \<in> set (bs_nodes sf)" "set (as_nodeList as) \<subseteq> set (bs_nodes sf)" "as_height as = h" "as_round as = r"
    using p(1) by (auto simp: p(2) NewActingSuffrage_def)
qed

subsection \<open>Calls in a row\<close>

text \<open>The suffrage after the elections for the points \<open>ps\<close>, one after another.\<close>

fun rr_calls :: "'c lru \<Rightarrow> manifest_hash option \<Rightarrow> ('c, 'z) base_suffrage_scheme \<Rightarrow> (height \<times> round) list \<Rightarrow> ('c, 'z) base_suffrage_scheme" where
  "rr_calls C g sf [] = sf"
| "rr_calls C g sf ((h, r) # ps) = rr_calls C g (snd (Roundrobin_Acting C g sf h r)) ps"

lemma Roundrobin_elect_cong:
  "bs_nodes sf = bs_nodes sf' \<Longrightarrow> bs_numberOfActing sf = bs_numberOfActing sf' \<Longrightarrow> Roundrobin_elect g sf = Roundrobin_elect g sf'"
  by (intro ext) (simp add: Roundrobin_elect_def)

lemma rr_calls_elects:
  assumes "lru_cache C held" and "cache_agrees held (Roundrobin_elect g sf) sf"
  shows "fst (Roundrobin_Acting C g (rr_calls C g sf ps) h r) = Roundrobin_elect g sf h r"
  using assms(2)
proof (induction ps arbitrary: sf)
  case Nil
  then show ?case using Acting_elects(1) [OF assms(1)] by (simp add: Roundrobin_Acting_def)
next
  case (Cons p ps)
  obtain h' r' where p: "p = (h', r')" by fastforce
  let ?sf = "snd (Roundrobin_Acting C g sf h' r')"
  have e: "Roundrobin_elect g ?sf = Roundrobin_elect g sf"
    by (rule Roundrobin_elect_cong) (use Acting_elects(3) [OF assms(1) Cons.prems, of h' r'] in \<open>auto simp: Roundrobin_Acting_def\<close>)
  have "cache_agrees held (Roundrobin_elect g ?sf) ?sf"
    unfolding e using Acting_elects(2) [OF assms(1) Cons.prems] by (simp add: Roundrobin_Acting_def)
  from Cons.IH [OF this] show ?case by (simp add: p e)
qed

lemma NewRoundrobin_parts:
  assumes "NewRoundrobinSuffrage C nodes noa cs = Ok sf"
  shows "bs_nodes sf = SortAddresses nodes" and "bs_numberOfActing sf = noa" and "bs_nodesMap sf = ad_s ` set nodes"
    and "sint noa \<le> int (length nodes)" and "lru_cache C held \<Longrightarrow> cache_agrees held elect sf" and "bs_name sf = []"
  using assms by (auto simp: NewRoundrobinSuffrage_def NewBaseSuffrage_def cache_agrees_def lru_cache_def split: if_splits)

section \<open>The interface\<close>

record suffrage =
  su_IsInside :: "address \<Rightarrow> bool"
  su_Acting :: "height \<Rightarrow> round \<Rightarrow> acting_suffrage res"
  su_Nodes :: "address list"

text \<open>The suffrages as their constructors build them; by \<open>Acting_elects\<close> the cache can be left out.\<close>

definition suffrage_of :: "(height \<Rightarrow> round \<Rightarrow> acting_suffrage res) \<Rightarrow> ('c, 'z) base_suffrage_scheme \<Rightarrow> suffrage" where
  "suffrage_of elect sf = \<lparr>su_IsInside = BaseSuffrage_IsInside sf, su_Acting = elect, su_Nodes = bs_nodes sf\<rparr>"

definition no_suffrage :: suffrage where
  "no_suffrage = \<lparr>su_IsInside = EmptySuffrage_IsInside, su_Acting = (\<lambda>_ _. Panic), su_Nodes = []\<rparr>"

definition roundrobin_suffrage :: "'c lru \<Rightarrow> manifest_hash option \<Rightarrow> address list \<Rightarrow> u64 \<Rightarrow> int \<Rightarrow> suffrage" where
  "roundrobin_suffrage C g nodes noa cs =
     (case NewRoundrobinSuffrage C nodes noa cs of Ok sf \<Rightarrow> suffrage_of (Roundrobin_elect g sf) sf | _ \<Rightarrow> no_suffrage)"

definition launch_fixed_suffrage :: "lib \<Rightarrow> 'c lru \<Rightarrow> address option \<Rightarrow> address list \<Rightarrow> u64 \<Rightarrow> int \<Rightarrow> suffrage" where
  "launch_fixed_suffrage L C p nodes noa cs =
     (case launch_NewFixedSuffrage L C p nodes noa cs of Ok sf \<Rightarrow> suffrage_of (launch_Fixed_elect sf) sf | _ \<Rightarrow> no_suffrage)"

text \<open>\<open>CheckNodeIsProposer\<close> (\<^verbatim>\<open>src/isaac/proposal_checker.go\<close>).\<close>

definition CheckNodeIsProposer :: "lib \<Rightarrow> address \<Rightarrow> suffrage \<Rightarrow> height \<Rightarrow> round \<Rightarrow> unit res" where
  "CheckNodeIsProposer L n S h r =
     bind_res (su_Acting S h r) (\<lambda>as.
       if Address_Equal L n (Some (as_proposer as)) then Ok () else Err (plain ''proposal has wrong proposer''))"

text \<open>The contract: suffrage nodes are known by their text, and only they are elected.\<close>

locale electing =
  fixes S :: suffrage
  assumes inside_text: "ad_s a = ad_s b \<Longrightarrow> su_IsInside S a = su_IsInside S b"
    and nodes_inside: "a \<in> set (su_Nodes S) \<Longrightarrow> su_IsInside S a"
    and elected_inside: "su_Acting S h r = Ok as \<Longrightarrow> su_IsInside S (as_proposer as) \<and> (\<forall>a \<in> set (as_nodeList as). su_IsInside S a)"
begin

lemma proposer_inside:
  assumes "CheckNodeIsProposer L n S h r = Ok ()"
  shows "su_IsInside S n"
proof -
  obtain as where as: "su_Acting S h r = Ok as" "Address_Equal L n (Some (as_proposer as))"
    using assms by (auto simp: CheckNodeIsProposer_def bind_res_Ok_iff split: if_splits)
  then have "ad_s n = ad_s (as_proposer as)" by (auto simp: Address_Equal_def split: if_splits)
  with as(1) show ?thesis using elected_inside inside_text by blast
qed

lemma one_proposer:
  assumes "CheckNodeIsProposer L n S h r = Ok ()" and "CheckNodeIsProposer L m S h r = Ok ()"
  shows "ad_s n = ad_s m"
  using assms by (auto simp: CheckNodeIsProposer_def bind_res_Ok_iff Address_Equal_def split: if_splits)

end

lemma SortAddresses_set [simp]: "set (SortAddresses as) = set as" "length (SortAddresses as) = length as"
  by (simp_all add: SortAddresses_def)

lemma electing_roundrobin: "electing (roundrobin_suffrage C g nodes noa cs)"
proof (cases "NewRoundrobinSuffrage C nodes noa cs")
  case (Ok sf)
  note p = NewRoundrobin_parts [OF Ok]
  show ?thesis
    by unfold_locales
      (use p(1,3) Roundrobin_elect_members(1,2) [of g sf] in
        \<open>force simp: roundrobin_suffrage_def Ok suffrage_of_def BaseSuffrage_IsInside_def\<close>)+
qed (unfold_locales, auto simp: roundrobin_suffrage_def no_suffrage_def EmptySuffrage_IsInside_def)

interpretation roundrobin: electing "roundrobin_suffrage C g nodes noa cs"
  by (rule electing_roundrobin)

lemma launch_Fixed_members:
  assumes "launch_NewFixedSuffrage L C p nodes noa cs = Ok sf" and "launch_Fixed_elect sf h r = Ok as"
  shows "ad_s (as_proposer as) \<in> ad_s ` set nodes" and "set (as_nodeList as) = set nodes" and "bs_nodesMap sf = ad_s ` set nodes" and "set (bs_nodes sf) = set nodes"
proof -
  obtain b where b: "NewBaseSuffrage C ''fixed-suffrage'' nodes noa cs = Ok b" "nodes \<noteq> []"
    "sf = base_suffrage.extend b \<lparr>lf_proposer = (if p = None \<and> length nodes = 1 then Some (nodes ! 0) else p)\<rparr>"
    "\<And>a. p = Some a \<Longrightarrow> \<exists>n \<in> set nodes. Address_Equal L n (Some a)"
    using assms(1) by (auto simp: launch_NewFixedSuffrage_def Let_def bind_res_Ok_iff list_ex_iff split: if_splits)
  have nb: "bs_nodes sf = SortAddresses nodes" "bs_nodesMap sf = ad_s ` set nodes"
    using b(1) by (auto simp: b(3) NewBaseSuffrage_def base_suffrage.defs split: if_splits)
  show "bs_nodesMap sf = ad_s ` set nodes" "set (bs_nodes sf) = set nodes" using nb by simp_all
  show "set (as_nodeList as) = set nodes"
    using assms(2) nb by (auto simp: launch_Fixed_elect_def Let_def NewActingSuffrage_def split: option.splits if_splits)
  show "ad_s (as_proposer as) \<in> ad_s ` set nodes"
  proof (cases "lf_proposer sf")
    case None
    then show ?thesis using assms(2) nb(1) nth_mem [of _ "SortAddresses nodes"]
      by (auto simp: launch_Fixed_elect_def Let_def NewActingSuffrage_def split: if_splits)
  next
    case (Some a)
    then have "a \<in> set nodes \<or> p = Some a" using b(2) by (auto simp: b(3) base_suffrage.defs split: if_splits)
    then have "ad_s a \<in> ad_s ` set nodes"
    proof
      assume "p = Some a"
      with b(4) obtain n where "n \<in> set nodes" "Address_Equal L n (Some a)" by blast
      moreover from this(2) have "ad_s a = ad_s n" by (simp add: Address_Equal_def split: if_splits)
      ultimately show ?thesis by simp
    qed auto
    then show ?thesis using assms(2) Some by (auto simp: launch_Fixed_elect_def NewActingSuffrage_def)
  qed
qed

lemma electing_launch_fixed: "electing (launch_fixed_suffrage L C p nodes noa cs)"
proof (cases "launch_NewFixedSuffrage L C p nodes noa cs")
  case (Ok sf)
  have n: "bs_nodesMap sf = ad_s ` set nodes \<and> set (bs_nodes sf) = set nodes"
    using Ok by (auto simp: launch_NewFixedSuffrage_def NewBaseSuffrage_def Let_def bind_res_Ok_iff base_suffrage.defs split: if_splits)
  show ?thesis
    by unfold_locales
      (use n launch_Fixed_members [OF Ok] in \<open>force simp: launch_fixed_suffrage_def Ok suffrage_of_def BaseSuffrage_IsInside_def\<close>)+
qed (unfold_locales, auto simp: launch_fixed_suffrage_def no_suffrage_def EmptySuffrage_IsInside_def)

interpretation launch_fixed: electing "launch_fixed_suffrage L C p nodes noa cs"
  by (rule electing_launch_fixed)

section \<open>Properties\<close>

text \<open>
  C34: two nodes with the round-robin suffrage elect the same. The acting suffrage at a point consists of as many different suffrage nodes as
  configured, the proposer among them; every node that was configured with the same nodes, in whatever order, and knows the same
  previous block elects the same one, whatever elections it made before and whatever its cache keeps.
\<close>

theorem roundrobin_agreement:
  assumes "lru_cache C held" and "lru_cache C' held'"
    and "NewRoundrobinSuffrage C nodes noa cs = Ok sf" and "NewRoundrobinSuffrage C' nodes' noa cs' = Ok sf'"
    and "mset nodes' = mset nodes" and "distinct (map ad_s nodes)" and "1 \<le> sint noa" and "length nodes < 2 ^ 63"
    and "rr_seed g h = Ok s" and "rr_seed g' h = Ok s"
  shows "\<exists>as. fst (Roundrobin_Acting C g (rr_calls C g sf ps) h r) = Ok as \<and> fst (Roundrobin_Acting C' g' (rr_calls C' g' sf' ps') h r) = Ok as \<and>
    as_proposer as \<in> set (as_nodeList as) \<and> distinct (as_nodeList as) \<and> int (length (as_nodeList as)) = sint noa \<and>
    set (as_nodeList as) \<subseteq> set nodes"
proof -
  note p = NewRoundrobin_parts [OF assms(3)] and p' = NewRoundrobin_parts [OF assms(4)]
  have d: "distinct nodes" and i: "inj_on ad_s (set nodes)" using assms(6) by (simp_all add: distinct_map)
  have "SortAddresses nodes' = SortAddresses nodes"
    unfolding SortAddresses_def by (rule sort_key_inj_key_eq) (use assms(5) i mset_eq_setD [OF assms(5)] in auto)
  then have n: "bs_nodes sf' = bs_nodes sf" "bs_nodes sf = SortAddresses nodes" "bs_numberOfActing sf' = bs_numberOfActing sf" using p p' by simp_all
  have l: "0 < length (bs_nodes sf)" "length (bs_nodes sf) < 2 ^ 63" using n(2) p(4) assms(7,8) by auto
  let ?i = "rr_index s h r (length (bs_nodes sf))" and ?m = "min (sint noa) (int (length (bs_nodes sf)))"
  have m: "?m = sint noa" using p(4) n(2) by simp
  obtain sel where sel: "Roundrobin_elect g sf h r = Ok (NewActingSuffrage h r (bs_nodes sf ! ?i) sel)" "Roundrobin_select (bs_nodes sf) ?m ?i = Ok sel"
    using Roundrobin_elect_Ok [OF assms(9) l] p(2) assms(7) by auto
  obtain sel' where sel': "Roundrobin_elect g' sf' h r = Ok (NewActingSuffrage h r (bs_nodes sf ! ?i) sel')" "Roundrobin_select (bs_nodes sf) ?m ?i = Ok sel'"
    using Roundrobin_elect_Ok [OF assms(10), of sf' r] l p(2) p'(2) assms(7) by (auto simp: n(1))
  have "?i < length (bs_nodes sf)" using rr_index_less [OF l(1)] l(2) by simp
  note mem = Roundrobin_select_members [OF this _ _ sel(2)]
  have "length sel = nat (sint noa)" "set sel \<subseteq> set nodes" "distinct sel" "bs_nodes sf ! ?i \<in> set sel"
    using mem assms(7) m n(2) d by (auto simp: SortAddresses_def)
  then show ?thesis
    using rr_calls_elects [OF assms(1) p(5) [OF assms(1)]] rr_calls_elects [OF assms(2) p'(5) [OF assms(2)]] sel sel' assms(7)
    by (auto simp: NewActingSuffrage_def)
qed

lemma mod_shift_less: "x < 2 * n \<Longrightarrow> x mod n = (if x < n then x else x - n)" for x n :: nat
  by (simp add: mod_if)

lemma shift_iff:
  fixes c i k n :: nat
  assumes "c < n" and "i < n" and "k < n"
  shows "(if c + i < n then c + i else c + i - n) = k \<longleftrightarrow> i = (if k + n - c < n then k + n - c else k + n - c - n)"
  using assms by (cases "c + i < n"; cases "k < c") auto

lemma add_mod_eq_iff:
  fixes b i k n :: nat
  assumes "i < n" and "k < n"
  shows "(b + i) mod n = k \<longleftrightarrow> i = (k + n - b mod n) mod n"
proof -
  have b: "b mod n < n" using assms by simp
  have "(b + i) mod n = (b mod n + i) mod n" by (simp add: mod_simps)
  then show ?thesis using shift_iff [OF b assms] mod_shift_less [of "b mod n + i" n] mod_shift_less [of "k + n - b mod n" n] assms b
    by simp
qed

text \<open>
  C35: every node gets its turn. At a height above genesis, among any consecutive rounds that are as many as there are nodes, each node of a round-robin
  suffrage is elected the proposer of exactly one, as long as the 64 bit sum that selects the proposer does not wrap around.
\<close>

theorem roundrobin_turns:
  assumes "NewRoundrobinSuffrage C nodes noa cs = Ok sf" and "distinct nodes" and "nodes \<noteq> []" and "length nodes < 2 ^ 63" and "0 \<le> sint noa"
    and "rr_seed g h = Ok s" and "PreGenesisHeight < i64 (h - 1)"
    and "unat s + unat (word_of_int h :: u64) + unat r + length nodes \<le> 2 ^ 64" and "a \<in> set nodes"
  shows "\<exists>!i. i < length nodes \<and> (\<exists>as. Roundrobin_elect g sf h (r + of_nat i) = Ok as \<and> as_proposer as = a)"
proof -
  note p = NewRoundrobin_parts [OF assms(1)]
  let ?ns = "bs_nodes sf" and ?n = "length nodes" and ?b = "unat s + unat (word_of_int h :: u64) + unat r"
  have ns: "length ?ns = ?n" "set ?ns = set nodes" "distinct ?ns" using p(1) assms(2) by (simp_all add: SortAddresses_def)
  have n: "0 < ?n" "unat (of_nat ?n :: u64) = ?n" using assms(3,4) by (simp_all add: unat_of_nat)
  have idx: "rr_index s h (r + of_nat i) ?n = (?b + i) mod ?n" if "i < ?n" for i
  proof -
    have i: "unat (of_nat i :: u64) = i" using that assms(4) by (simp add: unat_of_nat)
    have "unat (s + (word_of_int h + (r + of_nat i))) = unat s + (unat (word_of_int h :: u64) + (unat r + i))"
      using assms(8) that i by (simp add: unat_word_ariths)
    then show ?thesis using assms(7) n(2) by (simp add: rr_index_def unat_mod ac_simps)
  qed
  have turn: "(\<exists>as. Roundrobin_elect g sf h (r + of_nat i) = Ok as \<and> as_proposer as = a) \<longleftrightarrow> ?ns ! ((?b + i) mod ?n) = a" if "i < ?n" for i
    using Roundrobin_elect_Ok [OF assms(6), of sf "r + of_nat i"] ns(1) n(1) assms(4,5) p(2) idx [OF that]
    by (auto simp: NewActingSuffrage_def)
  obtain k where k: "k < ?n" "?ns ! k = a" using assms(9) ns by (metis in_set_conv_nth)
  have uniq: "?ns ! ((?b + i) mod ?n) = a \<longleftrightarrow> (?b + i) mod ?n = k" for i
    using k ns n(1) nth_eq_iff_index_eq [OF ns(3)] by auto
  have shift: "(?b + i) mod ?n = k \<longleftrightarrow> i = (k + ?n - ?b mod ?n) mod ?n" if "i < ?n" for i
    using that k(1) by (rule add_mod_eq_iff)
  have "(k + ?n - ?b mod ?n) mod ?n < ?n" using n(1) by simp
  then show ?thesis using turn uniq shift by (intro ex1I [of _ "(k + ?n - ?b mod ?n) mod ?n"]) blast+
qed

section \<open>Witnesses\<close>

definition sample_lru :: "(string \<times> acting_suffrage) list lru" where
  "sample_lru = \<lparr>lru_New2Q = (\<lambda>_. []), lru_Get = (\<lambda>c k. (map_of c k, c)), lru_Add = (\<lambda>c k v. (k, v) # filter (\<lambda>e. fst e \<noteq> k) c)\<rparr>"

lemma sample_lru_cache: "lru_cache sample_lru set"
  by (auto simp: lru_cache_def sample_lru_def dest: map_of_SomeD)

definition sample_addresses :: "address list" where
  "sample_addresses = [NewStringAddress ''node0'', NewStringAddress ''node1'', NewStringAddress ''node2'']"

definition sample_manifests :: "manifest_hash option" where
  "sample_manifests = Some (\<lambda>_. Ok (Some (NewBytes [1, 2])))"

lemma sample_addresses_distinct: "distinct (map ad_s sample_addresses)" "distinct sample_addresses"
proof -
  show "distinct (map ad_s sample_addresses)" by code_simp
  then show "distinct sample_addresses" by (simp add: distinct_map)
qed

theorem roundrobin_agreement_witness:
  "\<exists>as. fst (Roundrobin_Acting sample_lru sample_manifests
       (rr_calls sample_lru sample_manifests (ok_val (NewRoundrobinSuffrage sample_lru sample_addresses 2 10)) [(3, 1)]) 3 1) = Ok as \<and>
     fst (Roundrobin_Acting sample_lru sample_manifests
       (rr_calls sample_lru sample_manifests (ok_val (NewRoundrobinSuffrage sample_lru (rev sample_addresses) 2 0)) []) 3 1) = Ok as \<and>
     length (as_nodeList as) = 2"
proof -
  have sf: "NewRoundrobinSuffrage sample_lru sample_addresses 2 10 = Ok (ok_val (NewRoundrobinSuffrage sample_lru sample_addresses 2 10))"
    "NewRoundrobinSuffrage sample_lru (rev sample_addresses) 2 0 = Ok (ok_val (NewRoundrobinSuffrage sample_lru (rev sample_addresses) 2 0))"
    by (simp_all add: NewRoundrobinSuffrage_def NewBaseSuffrage_def sample_addresses_def)
  have s: "rr_seed sample_manifests 3 = Ok 3" by code_simp
  have l: "1 \<le> sint (2 :: u64)" "length sample_addresses < 2 ^ 63" "sint (2 :: u64) = 2" by (simp_all add: sample_addresses_def)
  have m: "mset (rev sample_addresses) = mset sample_addresses" by simp
  from roundrobin_agreement [OF sample_lru_cache sample_lru_cache sf m sample_addresses_distinct(1) l(1,2) s s, of "[(3, 1)]" 1 "[]"]
  show ?thesis by (auto simp: l(3))
qed

theorem roundrobin_turns_witness:
  "\<exists>!i. i < length sample_addresses \<and>
     (\<exists>as. Roundrobin_elect sample_manifests (ok_val (NewRoundrobinSuffrage sample_lru sample_addresses 2 10)) 3 (7 + of_nat i) = Ok as \<and>
        as_proposer as = NewStringAddress ''node1'')"
proof -
  have sf: "NewRoundrobinSuffrage sample_lru sample_addresses 2 10 = Ok (ok_val (NewRoundrobinSuffrage sample_lru sample_addresses 2 10))"
    by (simp add: NewRoundrobinSuffrage_def NewBaseSuffrage_def sample_addresses_def)
  have s: "rr_seed sample_manifests 3 = Ok 3" by code_simp
  have n: "sample_addresses \<noteq> []" "length sample_addresses < 2 ^ 63" "0 \<le> sint (2 :: u64)" "PreGenesisHeight < i64 (3 - 1)"
    "unat (3 :: u64) + unat (word_of_int 3 :: u64) + unat (7 :: u64) + length sample_addresses \<le> 2 ^ 64"
    "NewStringAddress ''node1'' \<in> set sample_addresses"
    by (simp_all add: sample_addresses_def i64_def PreGenesisHeight_def)
  show ?thesis by (rule roundrobin_turns [OF sf sample_addresses_distinct(2) n(1-3) s n(4-6)])
qed

text \<open>
  The fixed suffrage without a proposer takes the remainder by the number of acting nodes, not by the number of nodes, so the nodes sorted after
  the acting ones never propose, and without acting nodes the election divides by zero.
\<close>

lemma launch_fixed_rotates_partially:
  assumes "launch_Fixed_elect sf h r = Ok as" and "lf_proposer sf = None"
  shows "as_proposer as \<in> set (take (unat (bs_numberOfActing sf)) (bs_nodes sf))"
proof -
  let ?pos = "unat ((word_of_int h + r) mod bs_numberOfActing sf)"
  from assms have p: "bs_numberOfActing sf \<noteq> 0" "?pos < length (bs_nodes sf)" "as_proposer as = bs_nodes sf ! ?pos"
    by (auto simp: launch_Fixed_elect_def NewActingSuffrage_def Let_def split: if_splits)
  have "?pos < unat (bs_numberOfActing sf)" using p(1) by (simp add: unat_mod unat_gt_0)
  then show ?thesis using p(2,3) by (auto simp: in_set_conv_nth intro!: exI [of _ ?pos])
qed

end
