(* ===== verification/Mitum_Policy.thy ===== *)
theory Mitum_Policy
  imports Mitum_Suffrage Mitum_Database
begin

text \<open>
  What the checkers of a node share: its policy (\<^verbatim>\<open>src/isaac/localpolicy.go\<close>) and its pool of known nodes with the channels to them
  (\<^verbatim>\<open>src/network/nodepool.go\<close>, \<^verbatim>\<open>src/base/node/local.go\<close>). Each \<open>LockedItem\<close> of the policy is a field. A channel is the
  answers a remote node gives; it is \<open>None\<close> for a node that is not reachable. The passthroughs of the pool (connections that are not nodes, in a
  third-party cache) and the sending of seals are not modelled. The lemmas: the limits of the policy stay positive; in every reachable pool nodes and
  channels belong together and the local node stays.
\<close>

section \<open>Policy\<close>

definition DefaultPolicyThresholdRatio :: ratio where "DefaultPolicyThresholdRatio = 100"
definition DefaultPolicyMaxOperationsInSeal :: u64 where "DefaultPolicyMaxOperationsInSeal = 100"
definition DefaultPolicyMaxOperationsInProposal :: u64 where "DefaultPolicyMaxOperationsInProposal = 100"
definition Second :: int where "Second = 1000000000"
definition DefaultPolicyTimeoutWaitingProposal :: int where "DefaultPolicyTimeoutWaitingProposal = Second * 5"
definition DefaultPolicyIntervalBroadcastingINITBallot :: int where "DefaultPolicyIntervalBroadcastingINITBallot = Second * 1"
definition DefaultPolicyIntervalBroadcastingProposal :: int where "DefaultPolicyIntervalBroadcastingProposal = Second * 1"
definition DefaultPolicyWaitBroadcastingACCEPTBallot :: int where "DefaultPolicyWaitBroadcastingACCEPTBallot = Second * 1"
definition DefaultPolicyIntervalBroadcastingACCEPTBallot :: int where "DefaultPolicyIntervalBroadcastingACCEPTBallot = Second * 1"
definition DefaultPolicyTimespanValidBallot :: int where "DefaultPolicyTimespanValidBallot = Second * 60"
definition DefaultPolicyNetworkConnectionTimeout :: int where "DefaultPolicyNetworkConnectionTimeout = Second * 3"

lemmas policy_defaults = DefaultPolicyThresholdRatio_def DefaultPolicyMaxOperationsInSeal_def DefaultPolicyMaxOperationsInProposal_def
  DefaultPolicyTimeoutWaitingProposal_def DefaultPolicyIntervalBroadcastingINITBallot_def DefaultPolicyIntervalBroadcastingProposal_def
  DefaultPolicyWaitBroadcastingACCEPTBallot_def DefaultPolicyIntervalBroadcastingACCEPTBallot_def DefaultPolicyTimespanValidBallot_def
  DefaultPolicyNetworkConnectionTimeout_def Second_def

record local_policy =
  lp_networkID :: bytes
  lp_thresholdRatio :: ratio
  lp_maxOperationsInSeal :: u64
  lp_maxOperationsInProposal :: u64
  lp_timeoutWaitingProposal :: int
  lp_intervalBroadcastingINITBallot :: int
  lp_intervalBroadcastingProposal :: int
  lp_waitBroadcastingACCEPTBallot :: int
  lp_intervalBroadcastingACCEPTBallot :: int
  lp_timespanValidBallot :: int
  lp_networkConnectionTimeout :: int

definition NewLocalPolicy :: "bytes \<Rightarrow> local_policy" where
  "NewLocalPolicy networkID = \<lparr>
     lp_networkID = networkID,
     lp_thresholdRatio = DefaultPolicyThresholdRatio,
     lp_maxOperationsInSeal = DefaultPolicyMaxOperationsInSeal,
     lp_maxOperationsInProposal = DefaultPolicyMaxOperationsInProposal,
     lp_timeoutWaitingProposal = DefaultPolicyTimeoutWaitingProposal,
     lp_intervalBroadcastingINITBallot = DefaultPolicyIntervalBroadcastingINITBallot,
     lp_intervalBroadcastingProposal = DefaultPolicyIntervalBroadcastingProposal,
     lp_waitBroadcastingACCEPTBallot = DefaultPolicyWaitBroadcastingACCEPTBallot,
     lp_intervalBroadcastingACCEPTBallot = DefaultPolicyIntervalBroadcastingACCEPTBallot,
     lp_timespanValidBallot = DefaultPolicyTimespanValidBallot,
     lp_networkConnectionTimeout = DefaultPolicyNetworkConnectionTimeout\<rparr>"

text \<open>The setters, each with the policy after it; a refused value leaves the policy.\<close>

definition SetThresholdRatio :: "ratio \<Rightarrow> local_policy \<Rightarrow> local_policy" where
  "SetThresholdRatio x lp = lp\<lparr>lp_thresholdRatio := x\<rparr>"

definition SetTimeoutWaitingProposal :: "int \<Rightarrow> local_policy \<Rightarrow> unit res \<times> local_policy" where
  "SetTimeoutWaitingProposal d lp =
     (if d < 1 then (Err (plain ''TimeoutWaitingProposal too short; %v''), lp) else (Ok (), lp\<lparr>lp_timeoutWaitingProposal := d\<rparr>))"

definition SetIntervalBroadcastingINITBallot :: "int \<Rightarrow> local_policy \<Rightarrow> unit res \<times> local_policy" where
  "SetIntervalBroadcastingINITBallot d lp =
     (if d < 1 then (Err (plain ''IntervalBroadcastingINITBallot too short; %v''), lp) else (Ok (), lp\<lparr>lp_intervalBroadcastingINITBallot := d\<rparr>))"

definition SetIntervalBroadcastingProposal :: "int \<Rightarrow> local_policy \<Rightarrow> unit res \<times> local_policy" where
  "SetIntervalBroadcastingProposal d lp =
     (if d < 1 then (Err (plain ''IntervalBroadcastingProposal too short; %v''), lp) else (Ok (), lp\<lparr>lp_intervalBroadcastingProposal := d\<rparr>))"

definition SetWaitBroadcastingACCEPTBallot :: "int \<Rightarrow> local_policy \<Rightarrow> unit res \<times> local_policy" where
  "SetWaitBroadcastingACCEPTBallot d lp =
     (if d < 1 then (Err (plain ''WaitBroadcastingACCEPTBallot too short; %v''), lp) else (Ok (), lp\<lparr>lp_waitBroadcastingACCEPTBallot := d\<rparr>))"

definition SetIntervalBroadcastingACCEPTBallot :: "int \<Rightarrow> local_policy \<Rightarrow> unit res \<times> local_policy" where
  "SetIntervalBroadcastingACCEPTBallot d lp =
     (if d < 1 then (Err (plain ''IntervalBroadcastingACCEPTBallot too short; %v''), lp) else (Ok (), lp\<lparr>lp_intervalBroadcastingACCEPTBallot := d\<rparr>))"

definition SetTimespanValidBallot :: "int \<Rightarrow> local_policy \<Rightarrow> unit res \<times> local_policy" where
  "SetTimespanValidBallot d lp =
     (if d < 1 then (Err (plain ''TimespanValidBallot too short; %v''), lp) else (Ok (), lp\<lparr>lp_timespanValidBallot := d\<rparr>))"

definition SetNetworkConnectionTimeout :: "int \<Rightarrow> local_policy \<Rightarrow> unit res \<times> local_policy" where
  "SetNetworkConnectionTimeout d lp =
     (if d < Second then (Err (plain ''networkConnectionTimeout too short; %v''), lp) else (Ok (), lp\<lparr>lp_networkConnectionTimeout := d\<rparr>))"

definition SetMaxOperationsInSeal :: "u64 \<Rightarrow> local_policy \<Rightarrow> unit res \<times> local_policy" where
  "SetMaxOperationsInSeal m lp =
     (if m < 1 then (Err (plain ''zero MaxOperationsInSeal''), lp) else (Ok (), lp\<lparr>lp_maxOperationsInSeal := m\<rparr>))"

definition SetMaxOperationsInProposal :: "u64 \<Rightarrow> local_policy \<Rightarrow> unit res \<times> local_policy" where
  "SetMaxOperationsInProposal m lp =
     (if m < 1 then (Err (plain ''zero MaxOperationsInProposal''), lp) else (Ok (), lp\<lparr>lp_maxOperationsInProposal := m\<rparr>))"

text \<open>The policies that can come about.\<close>

inductive policy_reach :: "local_policy \<Rightarrow> bool" where
  new: "policy_reach (NewLocalPolicy nid)"
| ratio: "policy_reach lp \<Longrightarrow> policy_reach (SetThresholdRatio x lp)"
| timeout: "policy_reach lp \<Longrightarrow> policy_reach (snd (SetTimeoutWaitingProposal d lp))"
| init: "policy_reach lp \<Longrightarrow> policy_reach (snd (SetIntervalBroadcastingINITBallot d lp))"
| propose: "policy_reach lp \<Longrightarrow> policy_reach (snd (SetIntervalBroadcastingProposal d lp))"
| wait: "policy_reach lp \<Longrightarrow> policy_reach (snd (SetWaitBroadcastingACCEPTBallot d lp))"
| accept: "policy_reach lp \<Longrightarrow> policy_reach (snd (SetIntervalBroadcastingACCEPTBallot d lp))"
| timespan: "policy_reach lp \<Longrightarrow> policy_reach (snd (SetTimespanValidBallot d lp))"
| connection: "policy_reach lp \<Longrightarrow> policy_reach (snd (SetNetworkConnectionTimeout d lp))"
| in_seal: "policy_reach lp \<Longrightarrow> policy_reach (snd (SetMaxOperationsInSeal m lp))"
| in_proposal: "policy_reach lp \<Longrightarrow> policy_reach (snd (SetMaxOperationsInProposal m lp))"

definition policy_ok :: "local_policy \<Rightarrow> bool" where
  "policy_ok lp \<longleftrightarrow> 1 \<le> lp_maxOperationsInSeal lp \<and> 1 \<le> lp_maxOperationsInProposal lp \<and> 1 \<le> lp_timeoutWaitingProposal lp \<and>
     1 \<le> lp_intervalBroadcastingINITBallot lp \<and> 1 \<le> lp_intervalBroadcastingProposal lp \<and> 1 \<le> lp_waitBroadcastingACCEPTBallot lp \<and>
     1 \<le> lp_intervalBroadcastingACCEPTBallot lp \<and> 1 \<le> lp_timespanValidBallot lp \<and> Second \<le> lp_networkConnectionTimeout lp"

lemmas policy_setters = SetThresholdRatio_def SetTimeoutWaitingProposal_def SetIntervalBroadcastingINITBallot_def SetIntervalBroadcastingProposal_def
  SetWaitBroadcastingACCEPTBallot_def SetIntervalBroadcastingACCEPTBallot_def SetTimespanValidBallot_def SetNetworkConnectionTimeout_def
  SetMaxOperationsInSeal_def SetMaxOperationsInProposal_def

lemma word_ge_1: "m \<noteq> 0 \<Longrightarrow> 1 \<le> (m :: u64)"
  by (simp add: word_le_nat_alt unat_gt_0 Suc_leI)

lemma policy_reach_ok: "policy_reach lp \<Longrightarrow> policy_ok lp"
proof (induction rule: policy_reach.induct)
  case (new nid)
  show ?case by (simp add: policy_ok_def NewLocalPolicy_def policy_defaults)
qed (auto simp: policy_ok_def policy_setters not_less word_ge_1)

section \<open>Nodes\<close>

record local_node = node +
  ln_privatekey :: privatekey

definition NewLocal :: "address \<Rightarrow> privatekey \<Rightarrow> local_node" where
  "NewLocal a pk = node.extend (NewBaseV0 a (priv_pub pk)) \<lparr>ln_privatekey = pk\<rparr>"

text \<open>The methods of \<open>network.Channel\<close> that the checkers and the operation extractor call.\<close>

record channel =
  ch_Proposal :: "hash \<Rightarrow> ballot option res"
  ch_StagedOperations :: "hash list \<Rightarrow> operation option list res"

record nodepool =
  np_local :: local_node
  np_localch :: "channel option"
  np_nodes :: "(string \<times> node) list"
  np_chs :: "(string \<times> channel option) list"

definition local_address :: "nodepool \<Rightarrow> address" where
  "local_address np = the (nd_address (np_local np))"

definition NewNodepool :: "local_node \<Rightarrow> channel option \<Rightarrow> nodepool res" where
  "NewNodepool lo ch =
     (case nd_address lo of
        None \<Rightarrow> Panic
      | Some a \<Rightarrow> Ok \<lparr>np_local = lo, np_localch = ch, np_nodes = [(ad_s a, node.truncate lo)], np_chs = [(ad_s a, ch)]\<rparr>)"

definition chs_at :: "nodepool \<Rightarrow> string \<Rightarrow> channel option" where
  "chs_at np k = (case map_of (np_chs np) k of None \<Rightarrow> None | Some c \<Rightarrow> c)"

definition Nodepool_Node :: "nodepool \<Rightarrow> address \<Rightarrow> (node \<times> channel option) option" where
  "Nodepool_Node np a = (case map_of (np_nodes np) (ad_s a) of None \<Rightarrow> None | Some n \<Rightarrow> Some (n, chs_at np (ad_s a)))"

definition Nodepool_Exists :: "nodepool \<Rightarrow> address \<Rightarrow> bool" where
  "Nodepool_Exists np a \<longleftrightarrow> map_of (np_nodes np) (ad_s a) \<noteq> None"

definition Nodepool_Add :: "nodepool \<Rightarrow> node \<Rightarrow> channel option \<Rightarrow> unit res \<times> nodepool" where
  "Nodepool_Add np no ch =
     (case nd_address no of
        None \<Rightarrow> (Panic, np)
      | Some a \<Rightarrow>
          if Nodepool_Exists np a then (Err (Errorf FoundError ''already exists''), np)
          else (Ok (), np\<lparr>np_nodes := np_nodes np @ [(ad_s a, no)], np_chs := AList.update (ad_s a) ch (np_chs np)\<rparr>))"

definition Nodepool_Channel :: "nodepool \<Rightarrow> address \<Rightarrow> channel option option" where
  "Nodepool_Channel np a = map_of (np_chs np) (ad_s a)"

definition Nodepool_SetChannel :: "lib \<Rightarrow> nodepool \<Rightarrow> address \<Rightarrow> channel option \<Rightarrow> unit res \<times> nodepool" where
  "Nodepool_SetChannel L np a ch =
     (if \<not> Nodepool_Exists np a then (Err (Errorf NotFoundError ''unknown node, %q''), np)
      else
        let np = np\<lparr>np_chs := AList.update (ad_s a) ch (np_chs np)\<rparr> in
        (Ok (), if Address_Equal L a (Some (local_address np)) then np\<lparr>np_localch := ch\<rparr> else np))"

fun Remove_check :: "lib \<Rightarrow> nodepool \<Rightarrow> string set \<Rightarrow> address list \<Rightarrow> unit res" where
  "Remove_check L np founds [] = Ok ()"
| "Remove_check L np founds (a # as) =
     (if Address_Equal L a (Some (local_address np)) then Err (plain ''local can not be removed, %q'')
      else if \<not> Nodepool_Exists np a then Err (plain ''Address does not exist, %q'')
      else if ad_s a \<in> founds then Err (plain ''duplicated Address found, %q'')
      else Remove_check L np (insert (ad_s a) founds) as)"

definition Nodepool_Remove :: "lib \<Rightarrow> nodepool \<Rightarrow> address list \<Rightarrow> unit res \<times> nodepool" where
  "Nodepool_Remove L np as =
     (case Remove_check L np {} as of
        Ok _ \<Rightarrow> (Ok (), np\<lparr>np_nodes := filter (\<lambda>e. fst e \<notin> ad_s ` set as) (np_nodes np),
                              np_chs := filter (\<lambda>e. fst e \<notin> ad_s ` set as) (np_chs np)\<rparr>)
      | r \<Rightarrow> (r, np))"

definition Nodepool_Len :: "nodepool \<Rightarrow> nat" where
  "Nodepool_Len np = length (np_nodes np)"

text \<open>
  \<open>nc\<close> copies the nodes and channels into slices, the local node left out or not; \<open>ord\<close> is the order in which Go visits the keys of the map. The
  slices have room for all nodes but one when the local node is left out; an entry that stays empty is a nil node.
\<close>

definition Nodepool_nc :: "(string list \<Rightarrow> string list) \<Rightarrow> nodepool \<Rightarrow> bool \<Rightarrow> (node option \<times> channel option) list res" where
  "Nodepool_nc ord np filterLocal =
     (let ks = filter (\<lambda>k. \<not> (filterLocal \<and> k = ad_s (local_address np))) (ord (map fst (np_nodes np)));
          room = length (np_nodes np) - (if filterLocal then 1 else 0)
      in if length (np_nodes np) < 1 then Ok []
         else if length ks > room then Panic
         else Ok (map (\<lambda>k. (map_of (np_nodes np) k, chs_at np k)) ks @ replicate (room - length ks) (None, None)))"

text \<open>The traversals, with the callback as a function on a state; it returns whether to go on.\<close>

fun visit :: "(node option \<Rightarrow> channel option \<Rightarrow> 's \<Rightarrow> bool \<times> 's) \<Rightarrow> (node option \<times> channel option) list \<Rightarrow> 's \<Rightarrow> 's" where
  "visit cb [] s = s"
| "visit cb ((n, c) # xs) s = (case cb n c s of (True, s) \<Rightarrow> visit cb xs s | (False, s) \<Rightarrow> s)"

definition Nodepool_Traverse ::
  "(string list \<Rightarrow> string list) \<Rightarrow> nodepool \<Rightarrow> (node option \<Rightarrow> channel option \<Rightarrow> 's \<Rightarrow> bool \<times> 's) \<Rightarrow> 's \<Rightarrow> 's res" where
  "Nodepool_Traverse ord np cb s = bind_res (Nodepool_nc ord np False) (\<lambda>xs. Ok (visit cb xs s))"

definition Nodepool_TraverseRemotes ::
  "(string list \<Rightarrow> string list) \<Rightarrow> nodepool \<Rightarrow> (node option \<Rightarrow> channel option \<Rightarrow> 's \<Rightarrow> bool \<times> 's) \<Rightarrow> 's \<Rightarrow> 's res" where
  "Nodepool_TraverseRemotes ord np cb s = bind_res (Nodepool_nc ord np True) (\<lambda>xs. Ok (visit cb xs s))"

definition Nodepool_TraverseAliveRemotes ::
  "(string list \<Rightarrow> string list) \<Rightarrow> nodepool \<Rightarrow> (node option \<Rightarrow> channel option \<Rightarrow> 's \<Rightarrow> bool \<times> 's) \<Rightarrow> 's \<Rightarrow> 's res" where
  "Nodepool_TraverseAliveRemotes ord np cb s =
     bind_res (Nodepool_nc ord np True) (\<lambda>xs. Ok (visit (\<lambda>n c s. if c = None then (True, s) else cb n c s) xs s))"

definition Nodepool_LenRemoteAlives :: "(string list \<Rightarrow> string list) \<Rightarrow> nodepool \<Rightarrow> nat res" where
  "Nodepool_LenRemoteAlives ord np = Nodepool_TraverseAliveRemotes ord np (\<lambda>_ _ i. (True, Suc i)) 0"

subsection \<open>Reachable pools\<close>

inductive pool_of :: "lib \<Rightarrow> local_node \<Rightarrow> nodepool \<Rightarrow> bool" for L lo where
  new: "NewNodepool lo ch = Ok np \<Longrightarrow> pool_of L lo np"
| add: "pool_of L lo np \<Longrightarrow> pool_of L lo (snd (Nodepool_Add np no ch))"
| channel: "pool_of L lo np \<Longrightarrow> pool_of L lo (snd (Nodepool_SetChannel L np a ch))"
| remove: "pool_of L lo np \<Longrightarrow> \<forall>a \<in> set as. Address_IsValid L a = Ok () \<Longrightarrow> pool_of L lo (snd (Nodepool_Remove L np as))"

definition pool_ok :: "local_node \<Rightarrow> nodepool \<Rightarrow> bool" where
  "pool_ok lo np \<longleftrightarrow> np_local np = lo \<and> distinct (map fst (np_nodes np)) \<and> distinct (map fst (np_chs np)) \<and>
     fst ` set (np_chs np) = fst ` set (np_nodes np) \<and> map_of (np_nodes np) (ad_s (the (nd_address lo))) = Some (node.truncate lo) \<and>
     (\<forall>e \<in> set (np_nodes np). map_option ad_s (nd_address (snd e)) = Some (fst e))"

lemma Remove_check_Ok:
  assumes "Remove_check L np founds as = Ok u" and "a \<in> set as"
  shows "\<not> Address_Equal L a (Some (local_address np))"
  using assms by (induction L np founds as rule: Remove_check.induct) (auto split: if_splits)

lemma distinct_filter_keys: "distinct (map fst xs) \<Longrightarrow> distinct (map fst (filter P xs))"
  by (induction xs) auto

lemma filter_keys_image: "fst ` {e \<in> X. fst e \<notin> K} = fst ` X - K"
  by auto

lemma map_of_append_other: "k \<noteq> l \<Longrightarrow> map_of (xs @ [(l, v)]) k = map_of xs k"
  by (simp add: map_add_def split: option.splits)

lemma pool_ok_add: "pool_ok lo np \<Longrightarrow> pool_ok lo (snd (Nodepool_Add np no ch))"
proof -
  assume p: "pool_ok lo np"
  show ?thesis
  proof (cases "nd_address no")
    case None
    then show ?thesis using p by (simp add: Nodepool_Add_def)
  next
    case (Some b)
    show ?thesis
    proof (cases "Nodepool_Exists np b")
      case True
      then show ?thesis using p Some by (simp add: Nodepool_Add_def)
    next
      case False
      then have f: "ad_s b \<notin> fst ` set (np_nodes np)" by (simp add: Nodepool_Exists_def map_of_eq_None_iff)
      have l: "ad_s (the (nd_address lo)) \<in> fst ` set (np_nodes np)" using p by (metis map_of_eq_None_iff option.distinct(1) pool_ok_def)
      with f have "ad_s (the (nd_address lo)) \<noteq> ad_s b" by metis
      then show ?thesis using p f False Some
        by (simp add: Nodepool_Add_def pool_ok_def distinct_update dom_update map_of_append_other)
    qed
  qed
qed

lemma pool_ok_channel: "pool_ok lo np \<Longrightarrow> pool_ok lo (snd (Nodepool_SetChannel L np a ch))"
proof (cases "Nodepool_Exists np a")
  case True
  assume p: "pool_ok lo np"
  have "ad_s a \<in> fst ` set (np_nodes np)" using True by (simp add: Nodepool_Exists_def map_of_eq_None_iff)
  with p have "fst ` set (AList.update (ad_s a) ch (np_chs np)) = fst ` set (np_nodes np)" by (auto simp: dom_update pool_ok_def)
  with p True show ?thesis by (auto simp: Nodepool_SetChannel_def pool_ok_def distinct_update Let_def)
qed (simp add: Nodepool_SetChannel_def)

lemma pool_ok_remove:
  assumes "pool_ok lo np" and "\<forall>b \<in> set as. Address_IsValid L b = Ok ()" and "nd_address lo = Some a" and "Address_IsValid L a = Ok ()"
  shows "pool_ok lo (snd (Nodepool_Remove L np as))"
proof (cases "Remove_check L np {} as")
  case (Ok u)
  have "ad_s a \<notin> ad_s ` set as"
  proof
    assume "ad_s a \<in> ad_s ` set as"
    then obtain b where b: "b \<in> set as" "ad_s b = ad_s a" by auto
    have "Address_Equal L b (Some a)" using Address_Equal_valid [OF _ assms(4), of b] assms(2) b by simp
    with Remove_check_Ok [OF Ok b(1)] assms(1,3) show False by (simp add: pool_ok_def local_address_def)
  qed
  with assms(1,3) show ?thesis
    by (simp add: Nodepool_Remove_def Ok pool_ok_def distinct_filter_keys map_of_filter_keys filter_keys_image)
qed (use assms(1) in \<open>simp_all add: Nodepool_Remove_def\<close>)

lemma pool_of_ok:
  assumes "pool_of L lo np" and "nd_address lo = Some a" and "Address_IsValid L a = Ok ()"
  shows "pool_ok lo np"
  using assms(1)
proof (induction rule: pool_of.induct)
  case (new ch np)
  then show ?case using assms(2) by (auto simp: NewNodepool_def pool_ok_def node.defs)
qed (use assms pool_ok_add pool_ok_channel pool_ok_remove in blast)+

text \<open>The slices of \<open>nc\<close> are filled exactly: every node but the local one, each once, with its own channel.\<close>

lemma nc_remotes:
  assumes "pool_ok lo np" and "nd_address lo = Some a" and "mset (ord (map fst (np_nodes np))) = mset (map fst (np_nodes np))"
  shows "\<exists>xs. Nodepool_nc ord np True = Ok xs \<and>
    mset xs = mset (map (\<lambda>(k, n). (Some n, chs_at np k)) (filter (\<lambda>e. fst e \<noteq> ad_s a) (np_nodes np)))"
proof -
  let ?ns = "np_nodes np" and ?l = "ad_s a"
  let ?f = "\<lambda>k. (map_of ?ns k, chs_at np k)"
  have p: "distinct (map fst ?ns)" "map_of ?ns ?l \<noteq> None" "local_address np = a"
    using assms(1,2) by (auto simp: pool_ok_def local_address_def)
  let ?ks = "filter (\<lambda>k. k \<noteq> ?l) (ord (map fst ?ns))"
  have m: "mset ?ks = mset (filter (\<lambda>k. k \<noteq> ?l) (map fst ?ns))" using assms(3) by (metis mset_filter)
  have c: "length (filter (\<lambda>k. k \<noteq> ?l) (map fst ?ns)) = length ?ns - 1"
  proof -
    have "?l \<in> set (map fst ?ns)" using p(2) by (auto simp: map_of_eq_None_iff)
    then have "remove1 ?l (map fst ?ns) = filter (\<lambda>k. k \<noteq> ?l) (map fst ?ns)" using distinct_remove1_removeAll [OF p(1)] by (simp add: removeAll_filter_not_eq eq_commute)
    then show ?thesis using length_remove1 [of ?l "map fst ?ns"] \<open>?l \<in> _\<close> by (metis length_map)
  qed
  have len: "length ?ks = length ?ns - 1" using m c mset_eq_length by metis
  have ne: "?ns \<noteq> []" using p(2) by auto
  have nc: "Nodepool_nc ord np True = Ok (map ?f ?ks)" using len ne p(3) by (simp add: Nodepool_nc_def Let_def)
  have "mset (map ?f ?ks) = mset (map ?f (filter (\<lambda>k. k \<noteq> ?l) (map fst ?ns)))" using m by (metis mset_map)
  also have "map ?f (filter (\<lambda>k. k \<noteq> ?l) (map fst ?ns)) = map (\<lambda>(k, n). (Some n, chs_at np k)) (filter (\<lambda>e. fst e \<noteq> ?l) ?ns)"
    using p(1) by (auto simp: filter_map comp_def map_of_is_SomeI)
  finally show ?thesis using nc by blast
qed

section \<open>Properties\<close>

text \<open>
  The limits of a policy are positive in every policy that its constructor and setters produce, refused values included: at least one
  operation fits in a seal and in a proposal, all intervals and time-outs last, and a connection is given a second.
\<close>

theorem policy_limits_positive:
  assumes "policy_reach lp"
  shows "1 \<le> lp_maxOperationsInSeal lp \<and> 1 \<le> lp_maxOperationsInProposal lp \<and> 1 \<le> lp_timeoutWaitingProposal lp \<and>
     1 \<le> lp_intervalBroadcastingINITBallot lp \<and> 1 \<le> lp_intervalBroadcastingProposal lp \<and> 1 \<le> lp_waitBroadcastingACCEPTBallot lp \<and>
     1 \<le> lp_intervalBroadcastingACCEPTBallot lp \<and> 1 \<le> lp_timespanValidBallot lp \<and> Second \<le> lp_networkConnectionTimeout lp"
  using policy_reach_ok [OF assms] by (simp add: policy_ok_def)

theorem policy_limits_positive_witness:
  "policy_reach (snd (SetMaxOperationsInProposal 0 (NewLocalPolicy [1]))) \<and>
   1 \<le> lp_maxOperationsInProposal (snd (SetMaxOperationsInProposal 0 (NewLocalPolicy [1])))"
  using policy_limits_positive [OF policy_reach.in_proposal [OF policy_reach.new, of 0 "[1]"]]
    policy_reach.in_proposal [OF policy_reach.new, of 0 "[1]"] by blast

text \<open>
  The node pool stays consistent under adding and removing nodes and setting channels. The local node is always known and cannot be removed;
  every known node has a channel entry and is found under its own address; and a traversal of the remote nodes, in whatever order Go
  visits the map, never fails and meets each node except the local one exactly once, with its own channel.
\<close>

theorem nodepool_consistent:
  assumes "pool_of L lo np" and "nd_address lo = Some a" and "Address_IsValid L a = Ok ()"
    and "mset (ord (map fst (np_nodes np))) = mset (map fst (np_nodes np))"
  shows "Nodepool_Node np a = Some (node.truncate lo, chs_at np (ad_s a)) \<and>
    (\<forall>n b. Nodepool_Node np b = Some n \<longrightarrow> map_option ad_s (nd_address (fst n)) = Some (ad_s b) \<and> Nodepool_Channel np b = Some (snd n)) \<and>
    (\<exists>xs. Nodepool_nc ord np True = Ok xs \<and>
       mset xs = mset (map (\<lambda>(k, n). (Some n, chs_at np k)) (filter (\<lambda>e. fst e \<noteq> ad_s a) (np_nodes np))))"
proof -
  note p = pool_of_ok [OF assms(1-3)]
  have "map_of (np_nodes np) (ad_s a) = Some (node.truncate lo)" using p assms(2) by (simp add: pool_ok_def)
  moreover have "map_option ad_s (nd_address (fst n)) = Some (ad_s b) \<and> Nodepool_Channel np b = Some (snd n)" if n: "Nodepool_Node np b = Some n" for n b
  proof -
    obtain m where m: "map_of (np_nodes np) (ad_s b) = Some m" "n = (m, chs_at np (ad_s b))"
      using n by (auto simp: Nodepool_Node_def split: option.splits)
    from map_of_SomeD [OF m(1)] p have "map_option ad_s (nd_address m) = Some (ad_s b)" by (fastforce simp: pool_ok_def)
    moreover have "map_of (np_chs np) (ad_s b) \<noteq> None"
      using p map_of_SomeD [OF m(1)] by (metis map_of_eq_None_iff m(1) option.distinct(1) pool_ok_def)
    ultimately show ?thesis by (auto simp: m(2) Nodepool_Channel_def chs_at_def)
  qed
  ultimately show ?thesis using nc_remotes [where ord = ord, OF p assms(2,4)] by (simp add: Nodepool_Node_def)
qed

definition sample_local :: local_node where
  "sample_local = NewLocal (NewStringAddress ''node0'') (newBasePrivatekey sample_lib [1])"

definition sample_remote :: "string \<Rightarrow> node" where
  "sample_remote s = NewBaseV0 (NewStringAddress s) (NewBasePublickey sample_lib (btcec_PubKey sample_lib [2]))"

definition sample_nodepool :: nodepool where
  "sample_nodepool = snd (Nodepool_Add (snd (Nodepool_Add (ok_val (NewNodepool sample_local None)) (sample_remote ''node1'') None)) (sample_remote ''node2'') None)"

lemma sample_pool: "pool_of sample_lib sample_local sample_nodepool" "nd_address sample_local = Some (NewStringAddress ''node0'')"
  "Address_IsValid sample_lib (NewStringAddress ''node0'') = Ok ()"
proof -
  show a: "nd_address sample_local = Some (NewStringAddress ''node0'')" by (simp add: sample_local_def NewLocal_def NewBaseV0_def node.defs)
  have "NewNodepool sample_local None = Ok (ok_val (NewNodepool sample_local None))" by (simp add: NewNodepool_def a)
  from pool_of.new [OF this] show "pool_of sample_lib sample_local sample_nodepool" unfolding sample_nodepool_def by (intro pool_of.add)
  show "Address_IsValid sample_lib (NewStringAddress ''node0'') = Ok ()" by code_simp
qed

theorem nodepool_consistent_witness:
  "\<exists>xs. Nodepool_nc rev sample_nodepool True = Ok xs \<and>
     mset xs = mset (map (\<lambda>(k, n). (Some n, chs_at sample_nodepool k)) (filter (\<lambda>e. fst e \<noteq> ad_s (NewStringAddress ''node0'')) (np_nodes sample_nodepool)))"
  using nodepool_consistent [OF sample_pool, of rev] by (simp add: mset_rev)

end
