(* ===== verification/Mitum_VoteRecords.thy ===== *)
theory Mitum_VoteRecords
  imports Mitum_Ballot
begin

text \<open>
  Vote counting (\<^verbatim>\<open>src/isaac/voterecords.go\<close>): the ballots of one height, round and stage, one per node, counted into a voteproof.
  Go maps are association lists without repeated keys; \<open>order\<close> is the iteration order of Go's maps. The lemmas: a node is
  counted once, a majority voteproof is backed by the threshold of distinct nodes, and a result once reached never changes.
\<close>

section \<open>State and operations\<close>

record vote_records =
  vr_facts :: "(string \<times> ballot_fact) list"
  vr_votes :: "(string \<times> hash) list"
  vr_ballots :: "(string \<times> ballot) list"
  vr_voteproof :: voteproof
  vr_threshold :: threshold
  vr_set :: "string list"

definition NewVoteRecords :: "height \<Rightarrow> round \<Rightarrow> stage \<Rightarrow> address list \<Rightarrow> threshold \<Rightarrow> vote_records" where
  "NewVoteRecords h r st suffrages t =
     \<lparr>vr_facts = [], vr_votes = [], vr_ballots = [],
      vr_voteproof = NewVoteproofV0 h r suffrages (thr_Ratio t) st, vr_threshold = t, vr_set = []\<rparr>"

fun sanitizeHash :: "hash \<Rightarrow> hash" where
  "sanitizeHash (HBytes b) = HBytes b"
| "sanitizeHash h = NewBytes (Hash_Bytes h)"

text \<open>What a ballot brings to a vote: its node's text, its fact and the fact's hash; a nil among them panics.\<close>

definition ballot_vote :: "ballot \<Rightarrow> (string \<times> ballot_fact \<times> hash) option" where
  "ballot_vote blt =
     (case (Ballot_Node blt, Ballot_RawFact blt) of
        (Some n, Some f) \<Rightarrow> map_option (\<lambda>h. (ad_s n, f, h)) (Fact_Hash f)
      | _ \<Rightarrow> None)"

definition VoteRecords_addBallot :: "lib \<Rightarrow> vote_records \<Rightarrow> ballot \<Rightarrow> (bool \<times> vote_records) res" where
  "VoteRecords_addBallot L vrs blt =
     (case ballot_vote blt of
        None \<Rightarrow> Panic
      | Some (n, f, h) \<Rightarrow>
          if map_of (vr_votes vrs) n \<noteq> None then Ok (True, vrs)
          else
            let factHash = sanitizeHash h;
                vrs = vrs\<lparr>vr_ballots := (vr_ballots vrs) @ [(n, blt)], vr_votes := (vr_votes vrs) @ [(n, factHash)]\<rparr>
            in Ok (False,
                 if map_of (vr_facts vrs) (Hash_String L factHash) = None
                 then vrs\<lparr>vr_facts := (vr_facts vrs) @ [(Hash_String L factHash, f)]\<rparr> else vrs))"

definition range_map :: "(string list \<Rightarrow> string list) \<Rightarrow> (string \<times> 'a) list \<Rightarrow> 'a list" where
  "range_map order m = map (\<lambda>k. the (map_of m k)) (order (map fst m))"

definition VoteRecords_finishVoteproof ::
  "(string list \<Rightarrow> string list) \<Rightarrow> gotime \<Rightarrow> vote_records \<Rightarrow> voteproof \<Rightarrow> voteproof" where
  "VoteRecords_finishVoteproof order now vrs vp =
     Voteproof_Finish now
       (Voteproof_SetVotes
          (map (\<lambda>blt. NewBaseSignedBallotFact (Ballot_RawFact blt) (Ballot_FactSign blt)) (range_map order (vr_ballots vrs)))
          (Voteproof_SetFacts (range_map order (vr_facts vrs)) vp))"

definition close_finished :: "voteproof \<Rightarrow> voteproof" where
  "close_finished vp = (if Voteproof_IsFinished vp \<and> \<not> vp_closed vp then Voteproof_Close vp else vp)"

definition count_votes ::
  "(string list \<Rightarrow> string list) \<Rightarrow> gotime \<Rightarrow> vote_records \<Rightarrow> voteproof" where
  "count_votes order now vrs =
     (let t = vr_threshold vrs; vp = vr_voteproof vrs in
      if int (length (vr_set vrs)) < sint (thr_Threshold t) then vp
      else case FindMajorityFromSlice order (thr_Total t) (thr_Threshold t) (vr_set vrs) of
        (result, key) \<Rightarrow>
          let vp = (if result = VoteResultMajority then Voteproof_SetMajority (map_of (vr_facts vrs) key) vp else vp)
          in if result \<noteq> VoteResultNotYet
             then VoteRecords_finishVoteproof order now vrs (Voteproof_SetResult result vp) else vp)"

definition VoteRecords_vote ::
  "lib \<Rightarrow> (string list \<Rightarrow> string list) \<Rightarrow> gotime \<Rightarrow> vote_records \<Rightarrow> ballot \<Rightarrow> vote_records res" where
  "VoteRecords_vote L order now vrs blt =
     bind_res (VoteRecords_addBallot L vrs blt) (\<lambda>(found, vrs).
       let vp = vr_voteproof vrs in
       if found then Ok (vrs\<lparr>vr_voteproof := close_finished vp\<rparr>)
       else if Voteproof_IsFinished vp \<and> \<not> vp_closed vp then Ok (vrs\<lparr>vr_voteproof := Voteproof_Close vp\<rparr>)
       else
         bind_res (of_hash (Option.bind (Ballot_RawFact blt) Fact_Hash)) (\<lambda>h.
           let vrs = vrs\<lparr>vr_set := (vr_set vrs) @ [Hash_String L (sanitizeHash h)]\<rparr>
           in Ok (vrs\<lparr>vr_voteproof := count_votes order now vrs\<rparr>)))"

definition VoteRecords_Vote ::
  "lib \<Rightarrow> (string list \<Rightarrow> string list) \<Rightarrow> gotime \<Rightarrow> vote_records \<Rightarrow> ballot \<Rightarrow> (voteproof \<times> vote_records) res" where
  "VoteRecords_Vote L order now vrs blt =
     bind_res (VoteRecords_vote L order now vrs blt) (\<lambda>vrs. Ok (vr_voteproof vrs, vrs))"

text \<open>\<open>voteRecordsPoolPut\<close> empties the records before they go back to the pool.\<close>

definition voteRecordsPoolPut :: "vote_records \<Rightarrow> vote_records" where
  "voteRecordsPoolPut vrs =
     \<lparr>vr_facts = [], vr_votes = [], vr_ballots = [], vr_voteproof = (NewVoteproofV0 0 0 [] 0 0)\<lparr>vp_ht := NewHint '''' ''''\<rparr>,
      vr_threshold = \<lparr>thr_Total = 0, thr_Threshold = 0, thr_Ratio = 0\<rparr>, vr_set = []\<rparr>"

section \<open>Voting as a transition system\<close>

text \<open>
  The records reachable from new ones by voting: each step is one call of \<open>Vote\<close> with some ballot, time and map order.
\<close>

inductive vr_reach :: "lib \<Rightarrow> vote_records \<Rightarrow> vote_records \<Rightarrow> bool" for L v0 where
  vr_start: "vr_reach L v0 v0"
| vr_step: "vr_reach L v0 vrs \<Longrightarrow> \<forall>xs. mset (order xs) = mset xs \<Longrightarrow> VoteRecords_vote L order now vrs blt = Ok vrs' \<Longrightarrow>
    vr_reach L v0 vrs'"

inductive_cases vr_reachE: "vr_reach L v0 vrs"

section \<open>Invariant\<close>

definition add_vote :: "lib \<Rightarrow> vote_records \<Rightarrow> string \<Rightarrow> ballot_fact \<Rightarrow> hash \<Rightarrow> ballot \<Rightarrow> vote_records" where
  "add_vote L vrs n f h blt = vrs\<lparr>vr_ballots := (vr_ballots vrs) @ [(n, blt)], vr_votes := (vr_votes vrs) @ [(n, sanitizeHash h)],
     vr_facts := (if map_of (vr_facts vrs) (Hash_String L h) = None then vr_facts vrs @ [(Hash_String L h, f)] else vr_facts vrs)\<rparr>"

lemma Hash_String_sanitize [simp]: "Hash_String L (sanitizeHash h) = Hash_String L h"
  by (cases h) (simp_all add: Hash_String_def NewBytes_def)

lemma VoteRecords_vote_cases:
  assumes "VoteRecords_vote L order now vrs blt = Ok vrs'"
  obtains (dup) n f h where "ballot_vote blt = Some (n, f, h)" "map_of (vr_votes vrs) n \<noteq> None"
      "vrs' = vrs\<lparr>vr_voteproof := close_finished (vr_voteproof vrs)\<rparr>"
  | (closing) n f h where "ballot_vote blt = Some (n, f, h)" "map_of (vr_votes vrs) n = None"
      "Voteproof_IsFinished (vr_voteproof vrs)" "\<not> vp_closed (vr_voteproof vrs)"
      "vrs' = (add_vote L vrs n f h blt)\<lparr>vr_voteproof := Voteproof_Close (vr_voteproof vrs)\<rparr>"
  | (counted) n f h vrs1 where "ballot_vote blt = Some (n, f, h)" "map_of (vr_votes vrs) n = None"
      "vrs1 = (add_vote L vrs n f h blt)\<lparr>vr_set := vr_set vrs @ [Hash_String L h]\<rparr>"
      "vrs' = vrs1\<lparr>vr_voteproof := count_votes order now vrs1\<rparr>"
proof -
  obtain n f h where b: "ballot_vote blt = Some (n, f, h)"
    using assms by (cases "ballot_vote blt") (auto simp: VoteRecords_vote_def VoteRecords_addBallot_def)
  have fh: "Option.bind (Ballot_RawFact blt) Fact_Hash = Some h"
    using b by (auto simp: ballot_vote_def split: option.splits)
  show thesis
  proof (cases "map_of (vr_votes vrs) n")
    case (Some x)
    then show thesis using assms b dup by (simp add: VoteRecords_vote_def VoteRecords_addBallot_def Let_def)
  next
    case None
    have add: "VoteRecords_addBallot L vrs blt = Ok (False, add_vote L vrs n f h blt)"
      using None b by (simp add: VoteRecords_addBallot_def add_vote_def Let_def)
    have vp: "vr_voteproof (add_vote L vrs n f h blt) = vr_voteproof vrs" "vr_set (add_vote L vrs n f h blt) = vr_set vrs"
      by (simp_all add: add_vote_def)
    show thesis
    proof (cases "Voteproof_IsFinished (vr_voteproof vrs) \<and> \<not> vp_closed (vr_voteproof vrs)")
      case True
      then show thesis using assms closing [OF b None] by (simp add: VoteRecords_vote_def add vp Let_def)
    next
      case False
      then have c: "(Voteproof_IsFinished (vr_voteproof vrs) \<and> \<not> vp_closed (vr_voteproof vrs)) = False" by simp
      from assms show thesis
        using counted [OF b None refl] unfolding VoteRecords_vote_def add bind_res.simps prod.case Let_def vp c if_False fh
        by (simp add: of_hash_def)
    qed
  qed
qed

definition vr_keys :: "lib \<Rightarrow> vote_records \<Rightarrow> bool" where
  "vr_keys L vrs \<longleftrightarrow>
     distinct (map fst (vr_votes vrs)) \<and> map fst (vr_ballots vrs) = map fst (vr_votes vrs) \<and>
     distinct (map fst (vr_facts vrs)) \<and>
     (\<forall>n h. map_of (vr_votes vrs) n = Some h \<longrightarrow> map_of (vr_facts vrs) (Hash_String L h) \<noteq> None) \<and>
     (\<forall>k f. map_of (vr_facts vrs) k = Some f \<longrightarrow> (\<exists>h. Fact_Hash f = Some h \<and> k = Hash_String L h)) \<and>
     (\<exists>ns. distinct ns \<and> set ns \<subseteq> dom (map_of (vr_votes vrs)) \<and>
        vr_set vrs = map (\<lambda>n. Hash_String L (the (map_of (vr_votes vrs) n))) ns)"

definition vr_result :: "vote_records \<Rightarrow> bool" where
  "vr_result vrs \<longleftrightarrow>
     (let t = vr_threshold vrs; vp = vr_voteproof vrs in
      vp_result vp \<in> {VoteResultNotYet, VoteResultDraw, VoteResultMajority} \<and>
      (vp_result vp = VoteResultMajority \<longrightarrow>
         (\<exists>k. vp_majority vp = map_of (vr_facts vrs) k \<and> map_of (vr_facts vrs) k \<noteq> None \<and>
              unat (thr_Threshold t) \<le> count_list (vr_set vrs) k)) \<and>
      (vp_result vp \<noteq> VoteResultMajority \<longrightarrow> vp_majority vp = None) \<and>
      (vp_result vp = VoteResultDraw \<longrightarrow>
         (\<forall>rest k. length (vr_set vrs @ rest) \<le> unat (thr_Total t) \<longrightarrow> count_list (vr_set vrs @ rest) k < unat (thr_Threshold t))))"

definition thr_ok :: "threshold \<Rightarrow> bool" where
  "thr_ok t \<longleftrightarrow> thr_Threshold t \<le> thr_Total t \<and> unat (thr_Total t) < 2 * unat (thr_Threshold t)"

lemma vr_keys_set_votes:
  assumes "vr_keys L vrs" and "k \<in> set (vr_set vrs)"
  shows "map_of (vr_facts vrs) k \<noteq> None"
proof -
  from assms(1) obtain ns where ns: "set ns \<subseteq> dom (map_of (vr_votes vrs))"
    "vr_set vrs = map (\<lambda>n. Hash_String L (the (map_of (vr_votes vrs) n))) ns" unfolding vr_keys_def by blast
  from assms(2) obtain n where n: "n \<in> set ns" "k = Hash_String L (the (map_of (vr_votes vrs) n))"
    unfolding ns(2) set_map by blast
  from n ns(1) obtain h where "map_of (vr_votes vrs) n = Some h" "k = Hash_String L h" by auto
  then show ?thesis using assms(1) unfolding vr_keys_def by blast
qed

lemma vr_keys_voteproof [simp]: "vr_keys L (vrs\<lparr>vr_voteproof := vp\<rparr>) = vr_keys L vrs"
  by (simp add: vr_keys_def)

lemma vr_keys_length:
  assumes "vr_keys L vrs"
  shows "length (vr_set vrs) \<le> length (vr_votes vrs)"
proof -
  from assms obtain ns where ns: "distinct ns" "set ns \<subseteq> dom (map_of (vr_votes vrs))" "length (vr_set vrs) = length ns"
    by (auto simp: vr_keys_def)
  have "set ns \<subseteq> set (map fst (vr_votes vrs))" using ns(2) by (simp add: dom_map_of_conv_image_fst)
  then have "card (set ns) \<le> card (set (map fst (vr_votes vrs)))" by (intro card_mono) auto
  moreover have "card (set ns) = length (vr_set vrs)" using ns by (simp only: distinct_card)
  moreover have "card (set (map fst (vr_votes vrs))) \<le> length (vr_votes vrs)" by (metis card_length length_map)
  ultimately show ?thesis by linarith
qed

lemma ballot_vote_hash: "ballot_vote blt = Some (n, f, h) \<Longrightarrow> Fact_Hash f = Some h"
  by (auto simp: ballot_vote_def split: option.splits)

lemma add_vote_fields:
  "vr_votes (add_vote L vrs n f h blt) = vr_votes vrs @ [(n, sanitizeHash h)]"
  "vr_ballots (add_vote L vrs n f h blt) = vr_ballots vrs @ [(n, blt)]"
  "vr_set (add_vote L vrs n f h blt) = vr_set vrs" "vr_threshold (add_vote L vrs n f h blt) = vr_threshold vrs"
  "vr_voteproof (add_vote L vrs n f h blt) = vr_voteproof vrs"
  "map_of (vr_facts (add_vote L vrs n f h blt)) k =
     (case map_of (vr_facts vrs) k of None \<Rightarrow> (if k = Hash_String L h then Some f else None) | Some g \<Rightarrow> Some g)"
  by (simp_all add: add_vote_def map_add_def split: option.split)

lemma vr_set_update_fields:
  "vr_votes (v\<lparr>vr_set := s\<rparr>) = vr_votes v" "vr_ballots (v\<lparr>vr_set := s\<rparr>) = vr_ballots v"
  "vr_facts (v\<lparr>vr_set := s\<rparr>) = vr_facts v" "vr_set (v\<lparr>vr_set := s\<rparr>) = s"
  "vr_threshold (v\<lparr>vr_set := s\<rparr>) = vr_threshold v" "vr_voteproof (v\<lparr>vr_set := s\<rparr>) = vr_voteproof v"
  by simp_all

lemma add_vote_keys:
  assumes "vr_keys L vrs" and "ballot_vote blt = Some (n, f, h)" and "map_of (vr_votes vrs) n = None"
  shows "vr_keys L (add_vote L vrs n f h blt)"
    and "vr_keys L ((add_vote L vrs n f h blt)\<lparr>vr_set := vr_set vrs @ [Hash_String L h]\<rparr>)"
proof -
  let ?v = "add_vote L vrs n f h blt"
  note fields = add_vote_fields [of L vrs n f h blt]
  from assms(1) obtain ns where ns: "distinct ns" "set ns \<subseteq> dom (map_of (vr_votes vrs))"
      "vr_set vrs = map (\<lambda>n. Hash_String L (the (map_of (vr_votes vrs) n))) ns"
    and d: "distinct (map fst (vr_votes vrs))" "map fst (vr_ballots vrs) = map fst (vr_votes vrs)" "distinct (map fst (vr_facts vrs))"
    and vf: "\<forall>n h. map_of (vr_votes vrs) n = Some h \<longrightarrow> map_of (vr_facts vrs) (Hash_String L h) \<noteq> None"
    and fh: "\<forall>k f. map_of (vr_facts vrs) k = Some f \<longrightarrow> (\<exists>h. Fact_Hash f = Some h \<and> k = Hash_String L h)"
    unfolding vr_keys_def by blast
  have n: "n \<notin> fst ` set (vr_votes vrs)" using assms(3) by (simp add: map_of_eq_None_iff)
  have d': "distinct (map fst (vr_votes ?v))" "map fst (vr_ballots ?v) = map fst (vr_votes ?v)"
    using d(1,2) n by (simp_all add: fields)
  have f': "distinct (map fst (vr_facts ?v))"
    using d(3) by (auto simp: add_vote_def map_of_eq_None_iff)
  have vf': "\<forall>m g. map_of (vr_votes ?v) m = Some g \<longrightarrow> map_of (vr_facts ?v) (Hash_String L g) \<noteq> None"
  proof (intro allI impI)
    fix m g assume g: "map_of (vr_votes ?v) m = Some g"
    show "map_of (vr_facts ?v) (Hash_String L g) \<noteq> None"
    proof (cases "map_of (vr_votes vrs) m")
      case None
      with g have "g = sanitizeHash h" by (simp add: fields map_add_def split: if_splits)
      then show ?thesis by (simp add: fields split: option.split)
    next
      case (Some x)
      with g vf have "map_of (vr_facts vrs) (Hash_String L g) \<noteq> None" by (auto simp: fields map_add_def)
      then show ?thesis by (auto simp: fields)
    qed
  qed
  have fh': "\<forall>k g. map_of (vr_facts ?v) k = Some g \<longrightarrow> (\<exists>h. Fact_Hash g = Some h \<and> k = Hash_String L h)"
    using fh ballot_vote_hash [OF assms(2)] by (auto simp: fields split: option.splits if_splits)
  have keep: "map_of (vr_votes ?v) m = map_of (vr_votes vrs) m" if "m \<in> set ns" for m
    using ns(2) that by (auto simp: fields map_add_def dom_def split: option.splits)
  have ns': "set ns \<subseteq> dom (map_of (vr_votes ?v))" "vr_set vrs = map (\<lambda>n. Hash_String L (the (map_of (vr_votes ?v) n))) ns"
    using ns(2,3) keep by (auto simp: dom_def subset_iff)
  show "vr_keys L ?v"
    unfolding vr_keys_def using d' f' vf' fh' ns(1) ns' by (simp only: fields(3)) blast
  have "n \<notin> set ns" using ns(2) assms(3) by auto
  moreover have "map_of (vr_votes ?v) n = Some (sanitizeHash h)" using assms(3) by (simp add: fields map_add_def)
  ultimately have "distinct (ns @ [n])" "set (ns @ [n]) \<subseteq> dom (map_of (vr_votes ?v))"
    "vr_set vrs @ [Hash_String L h] = map (\<lambda>n. Hash_String L (the (map_of (vr_votes ?v) n))) (ns @ [n])"
    using ns(1) ns' by (auto simp: domI)
  with d' f' vf' fh' show "vr_keys L (?v\<lparr>vr_set := vr_set vrs @ [Hash_String L h]\<rparr>)"
    unfolding vr_keys_def vr_set_update_fields by blast
qed

lemma vote_keys:
  assumes "vr_keys L vrs" and "VoteRecords_vote L order now vrs blt = Ok vrs'"
  shows "vr_keys L vrs'"
  using assms(2)
proof (cases rule: VoteRecords_vote_cases)
  case (dup n f h)
  then show ?thesis using assms(1) by simp
next
  case (closing n f h)
  then show ?thesis using add_vote_keys(1) [OF assms(1) closing(1,2)] by simp
next
  case (counted n f h vrs1)
  then show ?thesis using add_vote_keys(2) [OF assms(1) counted(1,2)] by simp
qed

lemma vote_monotone:
  assumes "VoteRecords_vote L order now vrs blt = Ok vrs'"
  shows "vr_threshold vrs' = vr_threshold vrs"
    and "map_of (vr_votes vrs) n = Some h \<Longrightarrow> map_of (vr_votes vrs') n = Some h"
    and "map_of (vr_facts vrs) k = Some f \<Longrightarrow> map_of (vr_facts vrs') k = Some f"
    and "\<exists>rest. vr_set vrs' = vr_set vrs @ rest"
    and "length (vr_votes vrs) \<le> length (vr_votes vrs')"
proof -
  show "vr_threshold vrs' = vr_threshold vrs"
    using assms by (cases rule: VoteRecords_vote_cases) (simp_all add: add_vote_fields)
  show "map_of (vr_votes vrs) n = Some h \<Longrightarrow> map_of (vr_votes vrs') n = Some h"
    using assms by (cases rule: VoteRecords_vote_cases) (simp_all add: add_vote_fields map_add_def)
  show "map_of (vr_facts vrs) k = Some f \<Longrightarrow> map_of (vr_facts vrs') k = Some f"
    using assms by (cases rule: VoteRecords_vote_cases) (simp_all add: add_vote_fields)
  show "\<exists>rest. vr_set vrs' = vr_set vrs @ rest"
    using assms by (cases rule: VoteRecords_vote_cases) (simp_all add: add_vote_fields)
  show "length (vr_votes vrs) \<le> length (vr_votes vrs')"
    using assms by (cases rule: VoteRecords_vote_cases) (simp_all add: add_vote_fields)
qed

lemma close_finished_fields [simp]:
  "vp_result (close_finished vp) = vp_result vp" "vp_majority (close_finished vp) = vp_majority vp"
  "vp_result (Voteproof_Close vp) = vp_result vp" "vp_majority (Voteproof_Close vp) = vp_majority vp"
  by (simp_all add: close_finished_def Voteproof_Close_def)

lemma finishVoteproof_fields [simp]:
  "vp_result (VoteRecords_finishVoteproof order now vrs vp) = vp_result vp"
  "vp_majority (VoteRecords_finishVoteproof order now vrs vp) = vp_majority vp"
  "vp_closed (VoteRecords_finishVoteproof order now vrs vp) = vp_closed vp"
  by (simp_all add: VoteRecords_finishVoteproof_def Voteproof_Finish_def Voteproof_SetVotes_def Voteproof_SetFacts_def)

lemma vr_result_more_facts:
  assumes "vr_result vrs" and "\<And>k f. map_of (vr_facts vrs) k = Some f \<Longrightarrow> map_of (vr_facts vrs') k = Some f"
    and "vr_set vrs' = vr_set vrs" and "vr_threshold vrs' = vr_threshold vrs"
    and "vp_result (vr_voteproof vrs') = vp_result (vr_voteproof vrs)" and "vp_majority (vr_voteproof vrs') = vp_majority (vr_voteproof vrs)"
  shows "vr_result vrs'"
proof -
  have "vp_result (vr_voteproof vrs) = VoteResultMajority \<Longrightarrow>
      \<exists>k. vp_majority (vr_voteproof vrs) = map_of (vr_facts vrs') k \<and> map_of (vr_facts vrs') k \<noteq> None \<and>
        unat (thr_Threshold (vr_threshold vrs)) \<le> count_list (vr_set vrs) k"
    using assms(1,2) unfolding vr_result_def Let_def by (metis option.exhaust)
  then show ?thesis using assms(1) unfolding vr_result_def Let_def assms(3-6) by blast
qed

text \<open>Counting: what \<open>FindMajorityFromSlice\<close> reports about the votes of the records.\<close>

lemma count_votes_result:
  assumes "thr_ok (vr_threshold vrs)" and "\<forall>xs. mset (order xs) = mset xs"
    and "length (vr_set vrs) \<le> unat (thr_Total (vr_threshold vrs))" and "int (length (vr_set vrs)) \<ge> sint (thr_Threshold (vr_threshold vrs))"
  obtains (majority) k where "unat (thr_Threshold (vr_threshold vrs)) \<le> count_list (vr_set vrs) k"
      "vp_result (count_votes order now vrs) = VoteResultMajority" "vp_majority (count_votes order now vrs) = map_of (vr_facts vrs) k"
  | (draw) "\<forall>rest k. length (vr_set vrs @ rest) \<le> unat (thr_Total (vr_threshold vrs)) \<longrightarrow>
        count_list (vr_set vrs @ rest) k < unat (thr_Threshold (vr_threshold vrs))"
      "vp_result (count_votes order now vrs) = VoteResultDraw" "vp_majority (count_votes order now vrs) = vp_majority (vr_voteproof vrs)"
  | (notyet) "\<forall>k. count_list (vr_set vrs) k < unat (thr_Threshold (vr_threshold vrs))"
      "\<exists>rest k. length (vr_set vrs @ rest) \<le> unat (thr_Total (vr_threshold vrs)) \<and>
         unat (thr_Threshold (vr_threshold vrs)) \<le> count_list (vr_set vrs @ rest) k"
      "count_votes order now vrs = vr_voteproof vrs"
proof -
  let ?t = "vr_threshold vrs"
  let ?r = "FindMajorityFromSlice order (thr_Total ?t) (thr_Threshold ?t) (vr_set vrs)"
  have pos: "0 < thr_Threshold ?t" using assms(1) by (auto simp: thr_ok_def word_greater_zero_iff)
  have le: "thr_Threshold ?t \<le> thr_Total ?t" using assms(1) by (simp add: thr_ok_def)
  note p = assms(2) [THEN spec, of "remdups (vr_set vrs)"]
  note m = FindMajorityFromSlice_majority [where order = order, OF assms(3) p pos le]
  note d = FindMajorityFromSlice_draw [where order = order, OF assms(3) p pos le]
  obtain res key where r: "?r = (res, key)" by fastforce
  have cv: "count_votes order now vrs =
      (let vp = (if res = VoteResultMajority then Voteproof_SetMajority (map_of (vr_facts vrs) key) (vr_voteproof vrs) else vr_voteproof vrs)
       in if res \<noteq> VoteResultNotYet then VoteRecords_finishVoteproof order now vrs (Voteproof_SetResult res vp) else vp)"
    using assms(4) r by (simp add: count_votes_def)
  have "res \<in> {VoteResultNotYet, VoteResultDraw, VoteResultMajority}"
    using FindMajorityFromSlice_range [of order "thr_Total ?t" "thr_Threshold ?t" "vr_set vrs"] r by simp
  then consider "res = VoteResultMajority" | "res = VoteResultDraw" | "res = VoteResultNotYet" by blast
  then show thesis
  proof cases
    case 1
    then show thesis using majority [of key] m(2) r cv
      by (simp add: Let_def Voteproof_SetMajority_def Voteproof_SetResult_def)
  next
    case 2
    then show thesis using draw d r cv by (simp add: Let_def Voteproof_SetResult_def)
  next
    case 3
    then show thesis using notyet m(1) d r cv by (auto simp: Let_def not_le not_less)
  qed
qed

lemma majority_key_unique:
  assumes "thr_ok t" and "length s \<le> unat (thr_Total t)" and "unat (thr_Threshold t) \<le> count_list s j"
    and "unat (thr_Threshold t) \<le> count_list s k"
  shows "j = k"
  using assms count_list_two [of j k s] by (force simp: thr_ok_def)

text \<open>One counted vote: the result keeps its justification, and a result that was reached stays.\<close>

lemma count_votes_step:
  assumes "thr_ok (vr_threshold vrs)" and "\<forall>xs. mset (order xs) = mset xs" and "vr_keys L vrs" and "vr_result vrs0"
    and "vr_set vrs = vr_set vrs0 @ [x]" and "vr_threshold vrs = vr_threshold vrs0" and "vr_voteproof vrs = vr_voteproof vrs0"
    and "\<And>k f. map_of (vr_facts vrs0) k = Some f \<Longrightarrow> map_of (vr_facts vrs) k = Some f"
    and "length (vr_set vrs) \<le> unat (thr_Total (vr_threshold vrs))"
  shows "vr_result (vrs\<lparr>vr_voteproof := count_votes order now vrs\<rparr>) \<and>
    (Voteproof_IsFinished (vr_voteproof vrs0) \<longrightarrow>
       vp_result (count_votes order now vrs) = vp_result (vr_voteproof vrs0) \<and>
       vp_majority (count_votes order now vrs) = vp_majority (vr_voteproof vrs0))"
proof -
  let ?t = "vr_threshold vrs" and ?vp = "vr_voteproof vrs0"
  have maj: "\<exists>k. vp_majority ?vp = map_of (vr_facts vrs) k \<and> map_of (vr_facts vrs) k \<noteq> None \<and>
      unat (thr_Threshold ?t) \<le> count_list (vr_set vrs) k" if M: "vp_result ?vp = VoteResultMajority"
  proof -
    obtain k where k: "vp_majority ?vp = map_of (vr_facts vrs0) k" "map_of (vr_facts vrs0) k \<noteq> None"
      "unat (thr_Threshold ?t) \<le> count_list (vr_set vrs0) k"
      using assms(4) M unfolding vr_result_def Let_def assms(6) by blast
    then obtain f where "map_of (vr_facts vrs0) k = Some f" by blast
    then show ?thesis using k assms(8) by (metis assms(5) count_list_append option.distinct(1) trans_le_add1)
  qed
  have dr: "\<forall>rest k. length (vr_set vrs @ rest) \<le> unat (thr_Total ?t) \<longrightarrow> count_list (vr_set vrs @ rest) k < unat (thr_Threshold ?t)"
    if "vp_result ?vp = VoteResultDraw"
  proof (intro allI impI)
    fix rest k assume "length (vr_set vrs @ rest) \<le> unat (thr_Total ?t)"
    then show "count_list (vr_set vrs @ rest) k < unat (thr_Threshold ?t)"
      using assms(4) that unfolding vr_result_def Let_def assms(5,6) append_assoc by blast
  qed
  have nm: "vp_result ?vp \<noteq> VoteResultMajority \<Longrightarrow> vp_majority ?vp = None"
    and rg: "vp_result ?vp \<in> {VoteResultNotYet, VoteResultDraw, VoteResultMajority}"
    using assms(4) unfolding vr_result_def Let_def by blast+
  show ?thesis
  proof (cases "int (length (vr_set vrs)) < sint (thr_Threshold ?t)")
    case True
    then have "count_votes order now vrs = ?vp" by (simp add: count_votes_def assms(7))
    then show ?thesis using maj dr nm rg unfolding vr_result_def Let_def by (auto simp del: append_assoc)
  next
    case False
    then have ge: "int (length (vr_set vrs)) \<ge> sint (thr_Threshold ?t)" by simp
    from assms(1,2,9) ge show ?thesis
    proof (cases rule: count_votes_result [where now = now])
      case (majority k)
      have "count_list (vr_set vrs) k \<noteq> 0" using majority(1) assms(1) by (auto simp: thr_ok_def)
      then have "k \<in> set (vr_set vrs)" using count_notin by metis
      then have kf: "map_of (vr_facts vrs) k \<noteq> None" by (rule vr_keys_set_votes [OF assms(3)])
      have nd: "vp_result ?vp \<noteq> VoteResultDraw"
        using dr [THEN spec, of "[]", THEN spec, of k] majority(1) assms(9) by auto
      have same: "vp_majority ?vp = map_of (vr_facts vrs) k" if "vp_result ?vp = VoteResultMajority"
        using maj [OF that] majority_key_unique [OF assms(1,9) _ majority(1)] by blast
      show ?thesis using majority kf nd same rg
        unfolding vr_result_def Let_def Voteproof_IsFinished_def by auto
    next
      case draw
      have "vp_result ?vp \<noteq> VoteResultMajority"
        using maj draw(1) [THEN spec, of "[]"] assms(9) by (auto simp: not_le [symmetric])
      then show ?thesis using draw nm rg assms(7)
        unfolding vr_result_def Let_def Voteproof_IsFinished_def by auto
    next
      case notyet
      have "vp_result ?vp \<noteq> VoteResultMajority" using maj notyet(1) by (auto simp: not_le [symmetric])
      moreover have "vp_result ?vp \<noteq> VoteResultDraw" using dr notyet(2) by (meson not_le)
      ultimately show ?thesis using notyet(3) nm rg assms(7)
        unfolding vr_result_def Let_def Voteproof_IsFinished_def by auto
    qed
  qed
qed

lemma vote_result:
  assumes "vr_keys L vrs" and "vr_result vrs" and "thr_ok (vr_threshold vrs)" and "\<forall>xs. mset (order xs) = mset xs"
    and "VoteRecords_vote L order now vrs blt = Ok vrs'" and "length (vr_votes vrs') \<le> unat (thr_Total (vr_threshold vrs))"
  shows "vr_result vrs' \<and>
    (Voteproof_IsFinished (vr_voteproof vrs) \<longrightarrow>
       vp_result (vr_voteproof vrs') = vp_result (vr_voteproof vrs) \<and> vp_majority (vr_voteproof vrs') = vp_majority (vr_voteproof vrs))"
  using assms(5)
proof (cases rule: VoteRecords_vote_cases)
  case (dup n f h)
  show ?thesis unfolding dup(3) by (auto intro: vr_result_more_facts [OF assms(2)])
next
  case (closing n f h)
  show ?thesis unfolding closing(5) by (auto intro!: vr_result_more_facts [OF assms(2)] simp: add_vote_fields)
next
  case (counted n f h vrs1)
  have k: "vr_keys L vrs1" unfolding counted(3) by (rule add_vote_keys(2) [OF assms(1) counted(1,2)])
  have len: "length (vr_set vrs1) \<le> unat (thr_Total (vr_threshold vrs1))"
    using vr_keys_length [OF k] assms(6) by (simp add: counted(3,4) add_vote_fields)
  have "vr_result (vrs1\<lparr>vr_voteproof := count_votes order now vrs1\<rparr>) \<and>
    (Voteproof_IsFinished (vr_voteproof vrs) \<longrightarrow>
       vp_result (count_votes order now vrs1) = vp_result (vr_voteproof vrs) \<and>
       vp_majority (count_votes order now vrs1) = vp_majority (vr_voteproof vrs))"
    by (rule count_votes_step [OF _ assms(4) k assms(2) _ _ _ _ len, of "Hash_String L h"])
      (simp_all add: counted(3) add_vote_fields assms(3))
  then show ?thesis by (simp add: counted(4))
qed

section \<open>Reachable records\<close>

definition voters_for :: "lib \<Rightarrow> vote_records \<Rightarrow> string \<Rightarrow> string set" where
  "voters_for L vrs k = {n. \<exists>h. map_of (vr_votes vrs) n = Some h \<and> Hash_String L h = k}"

definition vr_notyet :: "vote_records \<Rightarrow> bool" where
  "vr_notyet vrs \<longleftrightarrow> (vp_result (vr_voteproof vrs) = VoteResultNotYet \<longrightarrow>
     length (vr_set vrs) = length (vr_votes vrs) \<and> (\<forall>k. count_list (vr_set vrs) k < unat (thr_Threshold (vr_threshold vrs))))"

lemma count_votes_notyet:
  assumes "thr_ok (vr_threshold vrs)" and "\<forall>xs. mset (order xs) = mset xs"
    and "length (vr_set vrs) \<le> unat (thr_Total (vr_threshold vrs))" and "unat (thr_Total (vr_threshold vrs)) < 2 ^ 63"
    and "vp_result (count_votes order now vrs) = VoteResultNotYet"
  shows "\<forall>k. count_list (vr_set vrs) k < unat (thr_Threshold (vr_threshold vrs))"
proof (cases "int (length (vr_set vrs)) < sint (thr_Threshold (vr_threshold vrs))")
  case True
  have "unat (thr_Threshold (vr_threshold vrs)) \<le> unat (thr_Total (vr_threshold vrs))"
    using assms(1) by (simp add: thr_ok_def word_le_nat_alt)
  then have "sint (thr_Threshold (vr_threshold vrs)) = int (unat (thr_Threshold (vr_threshold vrs)))"
    using assms(4) by (intro sint_unat_small) linarith
  then have "length (vr_set vrs) < unat (thr_Threshold (vr_threshold vrs))" using True by linarith
  then show ?thesis using count_list_le_length [of "vr_set vrs"] le_less_trans by metis
next
  case False
  then have ge: "int (length (vr_set vrs)) \<ge> sint (thr_Threshold (vr_threshold vrs))" by simp
  from assms(1-3) ge show ?thesis
    by (cases rule: count_votes_result [where now = now]) (use assms(5) in auto)
qed

lemma vote_notyet:
  assumes "vr_keys L vrs" and "vr_result vrs" and "vr_notyet vrs" and "thr_ok (vr_threshold vrs)" and "\<forall>xs. mset (order xs) = mset xs"
    and "VoteRecords_vote L order now vrs blt = Ok vrs'" and "length (vr_votes vrs') \<le> unat (thr_Total (vr_threshold vrs))"
    and "unat (thr_Total (vr_threshold vrs)) < 2 ^ 63"
  shows "vr_notyet vrs'"
  using assms(6)
proof (cases rule: VoteRecords_vote_cases)
  case (dup n f h)
  show ?thesis unfolding dup(3) using assms(3) by (simp add: vr_notyet_def)
next
  case (closing n f h)
  have "vp_result (vr_voteproof vrs') \<noteq> VoteResultNotYet"
    unfolding closing(5) using closing(3) by (simp add: Voteproof_IsFinished_def)
  then show ?thesis unfolding vr_notyet_def by blast
next
  case (counted n f h vrs1)
  have k: "vr_keys L vrs1" unfolding counted(3) by (rule add_vote_keys(2) [OF assms(1) counted(1,2)])
  have f: "vr_set vrs1 = vr_set vrs @ [Hash_String L h]" "vr_votes vrs1 = vr_votes vrs @ [(n, sanitizeHash h)]"
    "vr_threshold vrs1 = vr_threshold vrs" by (simp_all add: counted(3) add_vote_fields)
  have len: "length (vr_set vrs1) \<le> unat (thr_Total (vr_threshold vrs1))"
    using vr_keys_length [OF k] assms(7) unfolding counted(4) by (simp add: f)
  have v': "vr_voteproof vrs' = count_votes order now vrs1" "vr_set vrs' = vr_set vrs1" "vr_votes vrs' = vr_votes vrs1"
    "vr_threshold vrs' = vr_threshold vrs" by (simp_all add: counted(4) f(3))
  have st: "Voteproof_IsFinished (vr_voteproof vrs) \<Longrightarrow> vp_result (vr_voteproof vrs') = vp_result (vr_voteproof vrs)"
    using vote_result [OF assms(1,2,4-7)] by blast
  show ?thesis unfolding vr_notyet_def
  proof
    assume ny: "vp_result (vr_voteproof vrs') = VoteResultNotYet"
    then have "vp_result (vr_voteproof vrs) = VoteResultNotYet" using st unfolding Voteproof_IsFinished_def by metis
    with assms(3) have "length (vr_set vrs) = length (vr_votes vrs)" by (simp add: vr_notyet_def)
    moreover have "\<forall>k. count_list (vr_set vrs1) k < unat (thr_Threshold (vr_threshold vrs1))"
      by (rule count_votes_notyet [OF _ assms(5) len _ ny [unfolded v'(1)]]) (use assms(4,8) f(3) in simp_all)
    ultimately show "length (vr_set vrs') = length (vr_votes vrs') \<and>
        (\<forall>k. count_list (vr_set vrs') k < unat (thr_Threshold (vr_threshold vrs')))"
      unfolding v' f by simp
  qed
qed

lemma New_invariants:
  assumes "thr_ok t"
  shows "vr_keys L (NewVoteRecords h r st suf t)" "vr_result (NewVoteRecords h r st suf t)" "vr_notyet (NewVoteRecords h r st suf t)"
proof -
  have "0 < unat (thr_Threshold t)" using assms by (auto simp: thr_ok_def)
  then show "vr_keys L (NewVoteRecords h r st suf t)" "vr_result (NewVoteRecords h r st suf t)" "vr_notyet (NewVoteRecords h r st suf t)"
    by (simp_all add: vr_keys_def vr_result_def vr_notyet_def NewVoteRecords_def NewVoteproofV0_def)
qed

lemma reach_invariants:
  assumes "vr_reach L (NewVoteRecords h r st suf t) vrs" and "thr_ok t" and "length (vr_votes vrs) \<le> unat (thr_Total t)"
    and "unat (thr_Total t) < 2 ^ 63"
  shows "vr_keys L vrs \<and> vr_result vrs \<and> vr_notyet vrs \<and> vr_threshold vrs = t"
  using assms(1,3)
proof (induction rule: vr_reach.induct)
  case vr_start
  then show ?case using New_invariants [OF assms(2)] by (simp add: NewVoteRecords_def)
next
  case (vr_step vrs order now blt vrs')
  have "length (vr_votes vrs) \<le> unat (thr_Total t)" using vote_monotone(5) [OF vr_step.hyps(3)] vr_step.prems by simp
  with vr_step.IH have I: "vr_keys L vrs" "vr_result vrs" "vr_notyet vrs" "vr_threshold vrs = t" by auto
  show ?case
    using vote_keys [OF I(1) vr_step.hyps(3)] vote_result [OF I(1,2) _ vr_step.hyps(2,3)]
      vote_notyet [OF I(1,2,3) _ vr_step.hyps(2,3)] vote_monotone(1) [OF vr_step.hyps(3)] I(4) assms(2,4) vr_step.prems
    by simp
qed

lemma count_map_card:
  "distinct ns \<Longrightarrow> count_list (map g ns) k = card {n \<in> set ns. g n = k}"
proof (induction ns)
  case (Cons n ns)
  have "{m \<in> set (n # ns). g m = k} = (if g n = k then insert n {m \<in> set ns. g m = k} else {m \<in> set ns. g m = k})" by auto
  with Cons show ?case by simp
qed simp

lemma voters_for_count:
  assumes "vr_keys L vrs"
  obtains rest where "length (vr_set vrs @ rest) = length (vr_votes vrs)"
    "\<And>k. count_list (vr_set vrs @ rest) k = card (voters_for L vrs k)"
proof -
  let ?g = "\<lambda>n. Hash_String L (the (map_of (vr_votes vrs) n))" and ?V = "map fst (vr_votes vrs)"
  from assms obtain ns where ns: "distinct ns" "set ns \<subseteq> dom (map_of (vr_votes vrs))" "vr_set vrs = map ?g ns"
    and d: "distinct ?V" unfolding vr_keys_def by blast
  let ?ms = "filter (\<lambda>n. n \<notin> set ns) ?V"
  have all: "distinct (ns @ ?ms)" "set (ns @ ?ms) = set ?V"
    using ns(1,2) d by (auto simp: dom_map_of_conv_image_fst)
  then have "length (ns @ ?ms) = length ?V" by (metis d distinct_card)
  then have len: "length (vr_set vrs @ map ?g ?ms) = length (vr_votes vrs)" by (simp add: ns(3))
  have "count_list (vr_set vrs @ map ?g ?ms) k = card (voters_for L vrs k)" for k
  proof -
    have "vr_set vrs @ map ?g ?ms = map ?g (ns @ ?ms)" by (simp add: ns(3))
    then have "count_list (vr_set vrs @ map ?g ?ms) k = card {n \<in> set ?V. ?g n = k}"
      by (simp only: count_map_card [OF all(1)] all(2))
    moreover have "{n \<in> set ?V. ?g n = k} = voters_for L vrs k"
    proof (rule set_eqI)
      fix n
      have "n \<in> set ?V \<longleftrightarrow> map_of (vr_votes vrs) n \<noteq> None" by (simp add: map_of_eq_None_iff)
      then show "n \<in> {n \<in> set ?V. ?g n = k} \<longleftrightarrow> n \<in> voters_for L vrs k"
        unfolding voters_for_def mem_Collect_eq by (metis option.distinct(1) option.exhaust_sel option.sel)
    qed
    ultimately show ?thesis by simp
  qed
  with len that show thesis by blast
qed

lemma reach_majority_iff:
  assumes "vr_reach L (NewVoteRecords h r st suf t) vrs" and "thr_ok t" and "length (vr_votes vrs) \<le> unat (thr_Total t)"
    and "unat (thr_Total t) < 2 ^ 63"
  shows "(vp_result (vr_voteproof vrs) = VoteResultMajority \<and>
      (\<exists>m mh. vp_majority (vr_voteproof vrs) = Some m \<and> Fact_Hash m = Some mh \<and> Hash_String L mh = k)) \<longleftrightarrow>
    unat (thr_Threshold t) \<le> card (voters_for L vrs k)"
proof -
  have I: "vr_keys L vrs" "vr_result vrs" "vr_notyet vrs" "vr_threshold vrs = t" using reach_invariants [OF assms] by auto
  obtain rest where len: "length (vr_set vrs @ rest) = length (vr_votes vrs)"
    and cnt: "\<And>k. count_list (vr_set vrs @ rest) k = card (voters_for L vrs k)"
    using voters_for_count [OF I(1)] by metis
  have uniq: "j = k" if "unat (thr_Threshold t) \<le> card (voters_for L vrs j)" "unat (thr_Threshold t) \<le> card (voters_for L vrs k)" for j k
    using majority_key_unique [OF assms(2), of "vr_set vrs @ rest" j k] that len assms(3) cnt by metis
  have maj: "\<exists>j m mh. vp_majority (vr_voteproof vrs) = Some m \<and> Fact_Hash m = Some mh \<and> Hash_String L mh = j \<and>
      unat (thr_Threshold t) \<le> card (voters_for L vrs j)" if M: "vp_result (vr_voteproof vrs) = VoteResultMajority"
  proof -
    obtain j where j: "vp_majority (vr_voteproof vrs) = map_of (vr_facts vrs) j" "map_of (vr_facts vrs) j \<noteq> None"
      "unat (thr_Threshold t) \<le> count_list (vr_set vrs) j"
      using I(2,4) M unfolding vr_result_def Let_def by blast
    then obtain m mh where "map_of (vr_facts vrs) j = Some m" "Fact_Hash m = Some mh" "j = Hash_String L mh"
      using I(1) unfolding vr_keys_def by (metis option.exhaust)
    moreover have "unat (thr_Threshold t) \<le> card (voters_for L vrs j)"
      using j(3) cnt [of j] by (simp add: count_list_append)
    ultimately show ?thesis using j(1) by metis
  qed
  show ?thesis
  proof
    assume "unat (thr_Threshold t) \<le> card (voters_for L vrs k)"
    then have k: "unat (thr_Threshold t) \<le> count_list (vr_set vrs @ rest) k" by (simp only: cnt)
    have "vp_result (vr_voteproof vrs) \<noteq> VoteResultDraw"
      using I(2,4) k len assms(3) unfolding vr_result_def Let_def by (metis not_le)
    moreover have "vp_result (vr_voteproof vrs) \<noteq> VoteResultNotYet"
    proof
      assume ny: "vp_result (vr_voteproof vrs) = VoteResultNotYet"
      then have "rest = []" using I(3) len by (simp add: vr_notyet_def)
      then show False using k I(3,4) ny by (simp add: vr_notyet_def not_less [symmetric])
    qed
    ultimately have "vp_result (vr_voteproof vrs) = VoteResultMajority"
      using I(2) unfolding vr_result_def Let_def by blast
    with maj uniq \<open>unat (thr_Threshold t) \<le> card (voters_for L vrs k)\<close>
    show "vp_result (vr_voteproof vrs) = VoteResultMajority \<and>
      (\<exists>m mh. vp_majority (vr_voteproof vrs) = Some m \<and> Fact_Hash m = Some mh \<and> Hash_String L mh = k)" by metis
  qed (use maj in auto)
qed

section \<open>Properties\<close>

text \<open>
  C2: vote counting is exact. In every state of the records reached by voting, whatever the order of ballots and of Go's map iteration,
  the voteproof is a majority for the fact with hash text \<open>k\<close> exactly when at least the threshold of distinct nodes
  voted for \<open>k\<close> (each node counts once, with its first ballot).
\<close>

theorem voterecords_majority_exact:
  assumes "vr_reach L (NewVoteRecords h r st suf t) vrs" and "thr_ok t" and "length (vr_votes vrs) \<le> unat (thr_Total t)"
    and "unat (thr_Total t) < 2 ^ 63"
  shows "(vp_result (vr_voteproof vrs) = VoteResultMajority \<and>
      (\<exists>m mh. vp_majority (vr_voteproof vrs) = Some m \<and> Fact_Hash m = Some mh \<and> Hash_String L mh = k)) \<longleftrightarrow>
    unat (thr_Threshold t) \<le> card (voters_for L vrs k)"
  by (rule reach_majority_iff [OF assms])

text \<open>
  C16: a result once reached never changes: after the voteproof has finished, no further ballot changes its result or its majority, and
  a vote once recorded is never replaced.
\<close>

theorem voterecords_result_stable:
  assumes "vr_reach L (NewVoteRecords h r st suf t) vrs" and "thr_ok t" and "unat (thr_Total t) < 2 ^ 63"
    and "\<forall>xs. mset (order xs) = mset xs" and "VoteRecords_vote L order now vrs blt = Ok vrs'"
    and "length (vr_votes vrs') \<le> unat (thr_Total t)"
  shows "(Voteproof_IsFinished (vr_voteproof vrs) \<longrightarrow>
      vp_result (vr_voteproof vrs') = vp_result (vr_voteproof vrs) \<and> vp_majority (vr_voteproof vrs') = vp_majority (vr_voteproof vrs)) \<and>
    (\<forall>n x. map_of (vr_votes vrs) n = Some x \<longrightarrow> map_of (vr_votes vrs') n = Some x)"
proof -
  have "length (vr_votes vrs) \<le> unat (thr_Total t)" using vote_monotone(5) [OF assms(5)] assms(6) by simp
  then have I: "vr_keys L vrs" "vr_result vrs" "vr_threshold vrs = t" using reach_invariants [OF assms(1,2) _ assms(3)] by auto
  from vote_result [OF I(1,2) _ assms(4,5)] I(3) assms(2,6) vote_monotone(2) [OF assms(5)] show ?thesis by simp
qed

subsection \<open>A sample vote\<close>

definition vote_fact :: "byte \<Rightarrow> ballot_fact" where
  "vote_fact b = ACCEPTFact \<lparr>bf_ht = ACCEPTFactHint, bf_h = Some (HBytes [b]), bf_height = 33, bf_round = 0\<rparr> None None"

definition vote_ballot :: "string \<Rightarrow> byte \<Rightarrow> ballot" where
  "vote_ballot n b = \<lparr>bl_kind = KACCEPT, bl_seal = NewBaseSealWithHint ACCEPTHint,
     bl_sfs = Some (NewBaseSignedBallotFact (Some (vote_fact b)) (Some (NewBaseBallotFactSign (Some (NewStringAddress n)) None 5 None))),
     bl_baseVoteproof = None, bl_acceptVoteproof = None\<rparr>"

definition vote_thr :: threshold where
  "vote_thr = \<lparr>thr_Total = 4, thr_Threshold = 3, thr_Ratio = 67\<rparr>"

definition vote_records0 :: vote_records where
  "vote_records0 = NewVoteRecords 33 0 StageACCEPT [] vote_thr"

fun run_votes :: "gotime \<Rightarrow> vote_records \<Rightarrow> (string \<times> byte) list \<Rightarrow> vote_records res" where
  "run_votes now vrs [] = Ok vrs"
| "run_votes now vrs ((n, b) # vs) =
     bind_res (VoteRecords_vote sample_lib (\<lambda>xs. xs) now vrs (vote_ballot n b)) (\<lambda>vrs. run_votes now vrs vs)"

lemma run_votes_reach:
  "vr_reach sample_lib v0 vrs \<Longrightarrow> run_votes now vrs vs = Ok vrs' \<Longrightarrow> vr_reach sample_lib v0 vrs'"
proof (induction now vrs vs arbitrary: vrs' rule: run_votes.induct)
  case (2 now vrs n b vs)
  from "2.prems"(2) obtain v1 where v1: "VoteRecords_vote sample_lib (\<lambda>xs. xs) now vrs (vote_ballot n b) = Ok v1"
    "run_votes now v1 vs = Ok vrs'" by (auto simp: bind_res_Ok_iff)
  from vr_step [OF "2.prems"(1) _ v1(1)] "2.IH" [OF _ v1(2)] show ?case by simp
qed simp

lemma is_Ok_val: "is_Ok r \<Longrightarrow> r = Ok (ok_val r)"
  by (cases r) (simp_all add: is_Ok_def)

lemma vote_thr_ok: "thr_ok vote_thr"
  by (simp add: thr_ok_def vote_thr_def)

definition three_votes :: vote_records where
  "three_votes = ok_val (run_votes 7 vote_records0 [(''n0'', 1), (''n1'', 1), (''n2'', 1)])"

lemma three_votes_run: "run_votes 7 vote_records0 [(''n0'', 1), (''n1'', 1), (''n2'', 1)] = Ok three_votes"
proof -
  have "is_Ok (run_votes 7 vote_records0 [(''n0'', 1), (''n1'', 1), (''n2'', 1)])" by code_simp
  from is_Ok_val [OF this] show ?thesis by (simp add: three_votes_def)
qed

lemma three_votes_reach: "vr_reach sample_lib vote_records0 three_votes"
  by (rule run_votes_reach [OF vr_start three_votes_run])

theorem voterecords_majority_exact_witness:
  "(vp_result (vr_voteproof three_votes) = VoteResultMajority \<and>
      (\<exists>m mh. vp_majority (vr_voteproof three_votes) = Some m \<and> Fact_Hash m = Some mh \<and> Hash_String sample_lib mh = Hash_String sample_lib (HBytes [1]))) \<longleftrightarrow>
    3 \<le> card (voters_for sample_lib three_votes (Hash_String sample_lib (HBytes [1])))"
proof -
  have "length (vr_votes three_votes) = 3" by code_simp
  then have l: "length (vr_votes three_votes) \<le> unat (thr_Total vote_thr)" by (simp add: vote_thr_def)
  from voterecords_majority_exact [OF three_votes_reach [unfolded vote_records0_def] vote_thr_ok l]
  show ?thesis by (simp add: vote_thr_def)
qed

theorem voterecords_result_stable_witness:
  "\<exists>vrs'. VoteRecords_vote sample_lib (\<lambda>xs. xs) 9 three_votes (vote_ballot ''n3'' 2) = Ok vrs' \<and>
     vp_result (vr_voteproof vrs') = vp_result (vr_voteproof three_votes) \<and> vp_majority (vr_voteproof vrs') = vp_majority (vr_voteproof three_votes)"
proof -
  let ?r = "VoteRecords_vote sample_lib (\<lambda>xs. xs) 9 three_votes (vote_ballot ''n3'' 2)"
  have "is_Ok ?r" "length (vr_votes (ok_val ?r)) = 4" "Voteproof_IsFinished (vr_voteproof three_votes)" by code_simp+
  then have v: "?r = Ok (ok_val ?r)" "length (vr_votes (ok_val ?r)) \<le> unat (thr_Total vote_thr)" "Voteproof_IsFinished (vr_voteproof three_votes)"
    using is_Ok_val by (auto simp: vote_thr_def)
  have "unat (thr_Total vote_thr) < 2 ^ 63" "\<forall>xs. mset ((\<lambda>xs :: string list. xs) xs) = mset xs" by (simp_all add: vote_thr_def)
  from voterecords_result_stable [OF three_votes_reach [unfolded vote_records0_def] vote_thr_ok this v(1,2)] v(1,3)
  show ?thesis by blast
qed

text \<open>
  A finished and closed voteproof is still rewritten: a ballot of a node that has not voted yet makes \<open>Vote\<close> count and finish again,
  which replaces the voteproof's votes, facts and finishing time.
\<close>

theorem voterecords_refinished:
  assumes "vr_reach L (NewVoteRecords h r st suf t) vrs" and "thr_ok t" and "unat (thr_Total t) < 2 ^ 63"
    and "\<forall>xs. mset (order xs) = mset xs" and "VoteRecords_vote L order now vrs blt = Ok vrs'"
    and "length (vr_votes vrs') \<le> unat (thr_Total t)"
    and "Voteproof_IsFinished (vr_voteproof vrs)" and "vp_closed (vr_voteproof vrs)" and "ballot_vote blt = Some (n, f, fh)"
    and "map_of (vr_votes vrs) n = None" and "sint (thr_Threshold t) \<le> int (length (vr_set vrs))"
  shows "vp_finishedAt (vr_voteproof vrs') = now \<and> length (vp_votes (vr_voteproof vrs')) = length (vr_ballots vrs) + 1"
proof -
  have "length (vr_votes vrs) \<le> unat (thr_Total t)" using vote_monotone(5) [OF assms(5)] assms(6) by simp
  then have I: "vr_keys L vrs" "vr_result vrs" "vr_threshold vrs = t" using reach_invariants [OF assms(1,2) _ assms(3)] by auto
  have res: "vp_result (vr_voteproof vrs') = vp_result (vr_voteproof vrs)"
    using vote_result [OF I(1,2) _ assms(4,5)] I(3) assms(2,6,7) by simp
  from assms(5) show ?thesis
  proof (cases rule: VoteRecords_vote_cases)
    case (counted n' f' h' vrs1)
    have vp: "vr_voteproof vrs1 = vr_voteproof vrs" "vr_threshold vrs1 = t"
      "int (length (vr_set vrs1)) \<ge> sint (thr_Threshold t)" "vr_ballots vrs1 = vr_ballots vrs @ [(n', blt)]"
      using I(3) assms(11) by (simp_all add: counted(3) add_vote_fields)
    obtain rs key where rk: "FindMajorityFromSlice order (thr_Total t) (thr_Threshold t) (vr_set vrs1) = (rs, key)" by fastforce
    have cv: "vr_voteproof vrs' = count_votes order now vrs1" by (simp add: counted(4))
    have "rs \<noteq> VoteResultNotYet"
    proof
      assume "rs = VoteResultNotYet"
      have "length (vr_set vrs1) \<le> unat (thr_Total t)"
        using vr_keys_length [OF vote_keys [OF I(1) assms(5)]] assms(6) by (simp add: counted(4))
      have p: "0 < thr_Threshold t" using assms(2) by (auto simp: thr_ok_def word_greater_zero_iff)
      have le: "thr_Threshold t \<le> thr_Total t" using assms(2) by (simp add: thr_ok_def)
      note m = FindMajorityFromSlice_majority(1) [where order = order, OF \<open>length (vr_set vrs1) \<le> unat (thr_Total t)\<close>
          assms(4) [THEN spec] p le]
      note d = FindMajorityFromSlice_draw [where order = order, OF \<open>length (vr_set vrs1) \<le> unat (thr_Total t)\<close>
          assms(4) [THEN spec] p le]
      have "vr_result vrs'" using vote_result [OF I(1,2) _ assms(4,5)] I(3) assms(2,6) by simp
      moreover have "vr_set vrs' = vr_set vrs1" "vr_threshold vrs' = t" by (simp_all add: counted(4) vp(2))
      ultimately have "\<not> vp_result (vr_voteproof vrs') = VoteResultMajority" "\<not> vp_result (vr_voteproof vrs') = VoteResultDraw"
        using m d rk \<open>rs = VoteResultNotYet\<close> unfolding vr_result_def Let_def by auto
      with \<open>vr_result vrs'\<close> have "vp_result (vr_voteproof vrs') = VoteResultNotYet" unfolding vr_result_def Let_def by blast
      then show False using res assms(7) by (simp add: Voteproof_IsFinished_def)
    qed
    moreover have "length (order (map fst (vr_ballots vrs1))) = length (map fst (vr_ballots vrs1))"
      using assms(4) by (metis size_mset)
    ultimately show ?thesis unfolding cv using rk vp
      by (simp add: count_votes_def Let_def VoteRecords_finishVoteproof_def Voteproof_Finish_def Voteproof_SetVotes_def
          Voteproof_SetFacts_def range_map_def)
  qed (use assms(8,9,10) in auto)
qed

definition closed_votes :: vote_records where
  "closed_votes = ok_val (run_votes 7 vote_records0 [(''n0'', 1), (''n1'', 1), (''n2'', 1), (''n0'', 1)])"

lemma closed_votes_reach: "vr_reach sample_lib vote_records0 closed_votes"
proof -
  have "is_Ok (run_votes 7 vote_records0 [(''n0'', 1), (''n1'', 1), (''n2'', 1), (''n0'', 1)])" by code_simp
  from run_votes_reach [OF vr_start is_Ok_val [OF this]] show ?thesis by (simp add: closed_votes_def)
qed

theorem voterecords_refinished_witness:
  "\<exists>vrs'. VoteRecords_vote sample_lib (\<lambda>xs. xs) 9 closed_votes (vote_ballot ''n3'' 2) = Ok vrs' \<and>
     vp_finishedAt (vr_voteproof closed_votes) = 7 \<and> vp_finishedAt (vr_voteproof vrs') = 9"
proof -
  let ?r = "VoteRecords_vote sample_lib (\<lambda>xs. xs) 9 closed_votes (vote_ballot ''n3'' 2)"
  have a: "is_Ok ?r" "length (vr_votes (ok_val ?r)) = 4" "vp_finishedAt (vr_voteproof closed_votes) = 7"
    "Voteproof_IsFinished (vr_voteproof closed_votes)" "vp_closed (vr_voteproof closed_votes)"
    "map_of (vr_votes closed_votes) ''n3sas'' = None" "length (vr_set closed_votes) = 3" by code_simp+
  then have v: "?r = Ok (ok_val ?r)" "length (vr_votes (ok_val ?r)) \<le> unat (thr_Total vote_thr)"
    "sint (thr_Threshold vote_thr) \<le> int (length (vr_set closed_votes))"
    using is_Ok_val by (auto simp: vote_thr_def)
  have b: "ballot_vote (vote_ballot ''n3'' 2) = Some (''n3sas'', vote_fact 2, HBytes [2])" by code_simp
  have "unat (thr_Total vote_thr) < 2 ^ 63" "\<forall>xs. mset ((\<lambda>xs :: string list. xs) xs) = mset xs" by (simp_all add: vote_thr_def)
  from voterecords_refinished [OF closed_votes_reach [unfolded vote_records0_def] vote_thr_ok this v(1,2) a(4,5) b a(6) v(3)] v(1) a(3)
  show ?thesis by blast
qed

end
