(* ===== verification/Mitum_Ballotbox.thy ===== *)
theory Mitum_Ballotbox
  imports Mitum_VoteRecords
begin

text \<open>
  The ballot box (\<^verbatim>\<open>src/isaac/ballotbox.go\<close>): vote records per height, round and stage under a textual key, the latest ballot, voting and
  cleaning. \<open>suffragesFunc\<close> and \<open>thresholdFunc\<close> are the values they return at the call. \<open>sync.Map\<close> is an association list
  in iteration order. The key is printed with \<open>Sprintf("%d-%d-%d")\<close> and read back by \<open>Sscanf\<close> when the box is
  cleaned; the lemmas show that reading inverts printing, so that cleaning drops exactly the records up to a height.
\<close>

section \<open>Keys\<close>

definition vrsKey_of :: "height \<Rightarrow> round \<Rightarrow> stage \<Rightarrow> string" where
  "vrsKey_of h r st = dec_int h @ ''-'' @ dec_nat (unat r) @ ''-'' @ dec_nat (unat st)"

definition vrsKey :: "ballot_fact \<Rightarrow> string" where
  "vrsKey f = vrsKey_of (Fact_Height f) (Fact_Round f) (Fact_Stage f)"

text \<open>
  \<open>Sscanf\<close> of one number: an optional sign for the signed verb, then digits; out of range is an error. The keys of the box contain no
  white space, which \<open>Sscanf\<close> would skip.
\<close>

definition scan_uint :: "nat \<Rightarrow> string \<Rightarrow> (nat \<times> string) option" where
  "scan_uint bits s =
     (let ds = takeWhile is_digit s; v = digits_val ds
      in if ds = [] \<or> v \<ge> 2 ^ bits then None else Some (v, dropWhile is_digit s))"

definition scan_int64 :: "string \<Rightarrow> (int \<times> string) option" where
  "scan_int64 s =
     (case s of
        c # s' \<Rightarrow>
          let (sg, body) = (if c = CHR ''-'' then (-1, s') else if c = CHR ''+'' then (1, s') else (1, s));
              ds = takeWhile is_digit body; v = sg * int (digits_val ds)
          in if ds = [] \<or> \<not> is_i64 v then None else Some (v, dropWhile is_digit body)
      | [] \<Rightarrow> None)"

definition scan_dash :: "string \<Rightarrow> string option" where
  "scan_dash s = (case s of c # s' \<Rightarrow> if c = CHR ''-'' then Some s' else None | [] \<Rightarrow> None)"

definition Sscanf_key :: "string \<Rightarrow> (int \<times> nat \<times> nat) option" where
  "Sscanf_key k =
     Option.bind (scan_int64 k) (\<lambda>(h, s).
     Option.bind (scan_dash s) (\<lambda>s.
     Option.bind (scan_uint 64 s) (\<lambda>(r, s).
     Option.bind (scan_dash s) (\<lambda>s.
     Option.bind (scan_uint 8 s) (\<lambda>(st, s). Some (h, r, st))))))"

section \<open>The box\<close>

record ballotbox =
  bb_vrs :: "(string \<times> vote_records) list"
  bb_latestBallot :: "ballot option"

definition NewBallotbox :: ballotbox where
  "NewBallotbox = \<lparr>bb_vrs = [], bb_latestBallot = None\<rparr>"

definition Ballotbox_Empty :: "ballotbox \<Rightarrow> ballotbox" where
  "Ballotbox_Empty bb = bb\<lparr>bb_vrs := [], bb_latestBallot := None\<rparr>"

text \<open>\<open>sync.Map.Store\<close>\<close>

fun map_store :: "string \<Rightarrow> 'a \<Rightarrow> (string \<times> 'a) list \<Rightarrow> (string \<times> 'a) list" where
  "map_store k v [] = [(k, v)]"
| "map_store k v ((j, w) # m) = (if j = k then (k, v) # m else (j, w) # map_store k v m)"

definition Ballotbox_canVote :: "lib \<Rightarrow> address list \<Rightarrow> ballot \<Rightarrow> unit res" where
  "Ballotbox_canVote L suffrages blt =
     (case Ballot_RawFact blt of
        None \<Rightarrow> Panic
      | Some f \<Rightarrow>
          if \<not> Stage_CanVote (Fact_Stage f) then Err (plain ''this ballot is not for voting; stage=%s'')
          else if Ballot_FactSign blt = None \<and> suffrages \<noteq> [] then Panic
          else fail_if (\<not> list_ex (\<lambda>a. Address_Equal L a (Ballot_Node blt)) suffrages) (plain ''this ballot is not in suffrages''))"

definition later_ballot :: "ballot \<Rightarrow> ballot_fact \<Rightarrow> ballot option \<Rightarrow> ballot option" where
  "later_ballot blt f latest =
     (case Option.bind latest Ballot_RawFact of
        None \<Rightarrow> Some blt
      | Some lf \<Rightarrow>
          if Fact_Height f > Fact_Height lf then Some blt
          else if Fact_Height f = Fact_Height lf \<and> Fact_Round f > Fact_Round lf then Some blt
          else if Fact_Height f = Fact_Height lf \<and> Fact_Round f = Fact_Round lf \<and> Stage_CanVote (Fact_Stage f)
          then if Fact_Stage f > Fact_Stage lf then Some blt else latest
          else latest)"

definition Ballotbox_loadVoteRecords ::
  "address list \<Rightarrow> threshold \<Rightarrow> bool \<Rightarrow> ballotbox \<Rightarrow> ballot \<Rightarrow> (vote_records option \<times> ballotbox) res" where
  "Ballotbox_loadVoteRecords suffrages t ifNotCreate bb blt =
     (case Ballot_RawFact blt of
        None \<Rightarrow> Panic
      | Some f \<Rightarrow>
          (let bb = bb\<lparr>bb_latestBallot := later_ballot blt f (bb_latestBallot bb)\<rparr>; key = vrsKey f in
           case map_of (bb_vrs bb) key of
             Some vrs \<Rightarrow> Ok (Some vrs, bb)
           | None \<Rightarrow>
               if ifNotCreate then
                 (let vrs = NewVoteRecords (Fact_Height f) (Fact_Round f) (Fact_Stage f) suffrages t
                  in Ok (Some vrs, bb\<lparr>bb_vrs := map_store key vrs (bb_vrs bb)\<rparr>))
               else Ok (None, bb)))"

definition Ballotbox_Vote ::
  "lib \<Rightarrow> (string list \<Rightarrow> string list) \<Rightarrow> gotime \<Rightarrow> address list \<Rightarrow> threshold \<Rightarrow> ballotbox \<Rightarrow> ballot \<Rightarrow> (voteproof \<times> ballotbox) res" where
  "Ballotbox_Vote L order now suffrages t bb blt =
     bind_res (Ballotbox_canVote L suffrages blt) (\<lambda>_.
     bind_res (Ballotbox_loadVoteRecords suffrages t True bb blt) (\<lambda>(vrs, bb).
       case (vrs, Ballot_RawFact blt) of
         (Some vrs, Some f) \<Rightarrow>
           bind_res (VoteRecords_Vote L order now vrs blt) (\<lambda>(vp, vrs).
             Ok (vp, bb\<lparr>bb_vrs := map_store (vrsKey f) vrs (bb_vrs bb)\<rparr>))
       | _ \<Rightarrow> Panic))"

text \<open>\<open>Clean\<close>: the keys up to \<open>height\<close> in iteration order, or the first key that does not read back.\<close>

fun clean_keys :: "height \<Rightarrow> (string \<times> vote_records) list \<Rightarrow> string list res" where
  "clean_keys gh [] = Ok []"
| "clean_keys gh ((k, v) # m) =
     (case Sscanf_key k of
        None \<Rightarrow> Err (plain ''invalid formatted key found: key=%q'')
      | Some (h, r, s) \<Rightarrow>
          if h > gh then clean_keys gh m else bind_res (clean_keys gh m) (\<lambda>ks. Ok (k # ks)))"

definition Ballotbox_Clean :: "height \<Rightarrow> ballotbox \<Rightarrow> unit res \<times> ballotbox" where
  "Ballotbox_Clean h bb =
     (case clean_keys h (bb_vrs bb) of
        Err e \<Rightarrow> (Err e, bb)
      | Panic \<Rightarrow> (Panic, bb)
      | Ok ks \<Rightarrow>
          if length ks < 1 then (Ok (), bb)
          else (Ok (), bb\<lparr>bb_vrs := filter (\<lambda>kv. fst kv \<notin> set ks) (bb_vrs bb)\<rparr>))"

section \<open>Lemmas\<close>

lemma digits_stop:
  assumes "\<forall>c \<in> set ds. is_digit c" and "s = [] \<or> \<not> is_digit (hd s)"
  shows "takeWhile is_digit (ds @ s) = ds" and "dropWhile is_digit (ds @ s) = s"
  using assms by (cases s; simp add: takeWhile_append2 dropWhile_append2)+

lemma dec_nat_hd: "dec_nat n = c # cs \<Longrightarrow> is_digit c"
  using dec_nat_digits [of n] by simp

lemma scan_uint_dec:
  assumes "n < 2 ^ b" and "s = [] \<or> \<not> is_digit (hd s)"
  shows "scan_uint b (dec_nat n @ s) = Some (n, s)"
  using assms digits_stop [OF dec_nat_digits assms(2)] by (simp add: scan_uint_def Let_def)

lemma not_sign_digit: "is_digit c \<Longrightarrow> c \<noteq> CHR ''-'' \<and> c \<noteq> CHR ''+''"
  by (auto simp: is_digit_def)

lemma scan_int64_dec:
  assumes "is_i64 h" and "s = [] \<or> \<not> is_digit (hd s)"
  shows "scan_int64 (dec_int h @ s) = Some (h, s)"
proof (cases "h < 0")
  case True
  then have "int (nat (- h)) = - h" by simp
  with True assms digits_stop [OF dec_nat_digits assms(2), of "nat (- h)"] show ?thesis
    by (simp add: scan_int64_def dec_int_def Let_def)
next
  case False
  obtain c cs where c: "dec_nat (nat h) = c # cs" by (cases "dec_nat (nat h)") auto
  then have "c \<noteq> CHR ''-''" "c \<noteq> CHR ''+''" using dec_nat_hd not_sign_digit by blast+
  moreover have "takeWhile is_digit (c # cs @ s) = c # cs" "dropWhile is_digit (c # cs @ s) = s"
    using digits_stop [OF dec_nat_digits assms(2), of "nat h"] by (simp_all add: c)
  moreover have "digits_val (c # cs) = nat h" using digits_val_dec_nat [of "nat h"] by (simp only: c)
  ultimately show ?thesis using False assms(1) by (simp add: scan_int64_def dec_int_def Let_def c)
qed

lemma dash_not_digit: "\<not> is_digit (CHR ''-'')"
  by (simp add: is_digit_def)

lemma Sscanf_vrsKey:
  assumes "is_i64 h"
  shows "Sscanf_key (vrsKey_of h r st) = Some (h, unat r, unat st)"
proof -
  have "unat r < 2 ^ 64" "unat st < 2 ^ 8" using unsigned_less [of r, where ?'a = nat] unsigned_less [of st, where ?'a = nat] by simp_all
  then show ?thesis
    using scan_int64_dec [OF assms, of "CHR ''-'' # dec_nat (unat r) @ CHR ''-'' # dec_nat (unat st)"]
      scan_uint_dec [of "unat r" 64 "CHR ''-'' # dec_nat (unat st)"] scan_uint_dec [of "unat st" 8 "[]"]
    by (simp add: Sscanf_key_def vrsKey_of_def scan_dash_def dash_not_digit)
qed

lemma vrsKey_of_inject:
  assumes "is_i64 h" and "is_i64 h'"
  shows "vrsKey_of h r st = vrsKey_of h' r' st' \<longleftrightarrow> h = h' \<and> r = r' \<and> st = st'"
  using Sscanf_vrsKey [OF assms(1), of r st] Sscanf_vrsKey [OF assms(2), of r' st'] 
  by (auto simp: unsigned_word_eqI [where ?'a = nat])

lemma map_of_map_store: "map_of (map_store k v m) = (map_of m)(k \<mapsto> v)"
  by (induction k v m rule: map_store.induct) auto

section \<open>Invariant and properties\<close>

definition is_vrsKey :: "string \<Rightarrow> bool" where
  "is_vrsKey k \<longleftrightarrow> (\<exists>h r st. is_i64 h \<and> k = vrsKey_of h r st)"

definition vrs_inv :: "(string \<times> vote_records) list \<Rightarrow> bool" where
  "vrs_inv m \<longleftrightarrow> distinct (map fst m) \<and> (\<forall>k \<in> set (map fst m). is_vrsKey k)"

definition bb_inv :: "ballotbox \<Rightarrow> bool" where
  "bb_inv bb \<longleftrightarrow> vrs_inv (bb_vrs bb)"

lemma bb_inv_New: "bb_inv NewBallotbox"
  by (simp add: bb_inv_def vrs_inv_def NewBallotbox_def)

lemma map_store_keys: "set (map fst (map_store k v m)) = insert k (set (map fst m))"
  by (induction k v m rule: map_store.induct) auto

lemma map_store_distinct: "distinct (map fst m) \<Longrightarrow> distinct (map fst (map_store k v m))"
proof (induction k v m rule: map_store.induct)
  case (2 k v j w m)
  then show ?case using map_store_keys [of k v m] by (auto simp: image_iff)
qed simp

lemma vrs_inv_store: "vrs_inv m \<Longrightarrow> is_vrsKey k \<Longrightarrow> vrs_inv (map_store k v m)"
  unfolding vrs_inv_def map_store_keys by (simp add: map_store_distinct del: set_map)

text \<open>The keys that \<open>Clean\<close> collects: those of records at or below the height.\<close>

lemma clean_keys_spec:
  assumes "\<forall>k \<in> set (map fst m). is_vrsKey k"
  shows "\<exists>ks. clean_keys gh m = Ok ks \<and> set ks = {k \<in> set (map fst m). \<exists>h r st. Sscanf_key k = Some (h, r, st) \<and> h \<le> gh}"
  using assms
proof (induction m)
  case (Cons kv m)
  obtain k v where kv: "kv = (k, v)" by fastforce
  have "is_vrsKey k" using Cons.prems kv by simp
  then obtain h r st where k: "is_i64 h" "k = vrsKey_of h r st" unfolding is_vrsKey_def by blast
  note s = Sscanf_vrsKey [OF k(1), of r st]
  obtain ks where ks: "clean_keys gh m = Ok ks"
    "set ks = {k \<in> set (map fst m). \<exists>h r st. Sscanf_key k = Some (h, r, st) \<and> h \<le> gh}" using Cons by auto
  show ?case using ks s by (auto simp: kv k(2))
qed simp



lemma Ballotbox_Vote_Ok:
  assumes "Ballotbox_Vote L order now suf t bb blt = Ok (vp, bb')"
  obtains f vrs vrs' where "Ballotbox_canVote L suf blt = Ok ()" "Ballot_RawFact blt = Some f"
    "vrs = (case map_of (bb_vrs bb) (vrsKey f) of Some v \<Rightarrow> v
            | None \<Rightarrow> NewVoteRecords (Fact_Height f) (Fact_Round f) (Fact_Stage f) suf t)"
    "VoteRecords_vote L order now vrs blt = Ok vrs'" "vp = vr_voteproof vrs'"
    "map_of (bb_vrs bb') = (map_of (bb_vrs bb))(vrsKey f \<mapsto> vrs')"
    "\<exists>m. bb_vrs bb' = map_store (vrsKey f) vrs' m \<and> (m = bb_vrs bb \<or> (\<exists>x. m = map_store (vrsKey f) x (bb_vrs bb)))"
proof -
  obtain f where f: "Ballot_RawFact blt = Some f"
    using assms by (cases "Ballot_RawFact blt") (auto simp: Ballotbox_Vote_def Ballotbox_canVote_def)
  have c: "Ballotbox_canVote L suf blt = Ok ()" using assms by (auto simp: Ballotbox_Vote_def bind_res_Ok_iff)
  show thesis
  proof (cases "map_of (bb_vrs bb) (vrsKey f)")
    case None
    then obtain vrs' where "VoteRecords_vote L order now (NewVoteRecords (Fact_Height f) (Fact_Round f) (Fact_Stage f) suf t) blt = Ok vrs'"
      "vp = vr_voteproof vrs'" "bb_vrs bb' = map_store (vrsKey f) vrs' (map_store (vrsKey f) (NewVoteRecords (Fact_Height f) (Fact_Round f) (Fact_Stage f) suf t) (bb_vrs bb))"
      using assms c f
      by (auto simp: Ballotbox_Vote_def Ballotbox_loadVoteRecords_def Let_def VoteRecords_Vote_def bind_res_Ok_iff)
    with that [OF c f refl] None show thesis by (simp add: map_of_map_store) blast
  next
    case (Some v)
    then obtain vrs' where "VoteRecords_vote L order now v blt = Ok vrs'" "vp = vr_voteproof vrs'"
      "bb_vrs bb' = map_store (vrsKey f) vrs' (bb_vrs bb)"
      using assms c f
      by (auto simp: Ballotbox_Vote_def Ballotbox_loadVoteRecords_def Let_def VoteRecords_Vote_def bind_res_Ok_iff)
    with that [OF c f refl] Some show thesis by (simp add: map_of_map_store) blast
  qed
qed

text \<open>
  C20: voting touches one point only. A successful \<open>Ballotbox.Vote\<close> is for a voting stage and from a node of the suffrage, returns the
  voteproof of the records at the ballot's height, round and stage, and leaves the records of every other point untouched; the
  box stays well-formed.
\<close>

theorem ballotbox_vote_isolated:
  assumes "bb_inv bb" and "Ballotbox_Vote L order now suf t bb blt = Ok (vp, bb')" and "Ballot_RawFact blt = Some f"
    and "is_i64 (Fact_Height f)" and "is_i64 h"
  shows "bb_inv bb' \<and> Stage_CanVote (Fact_Stage f) \<and> (\<exists>a \<in> set suf. Address_Equal L a (Ballot_Node blt)) \<and>
    (\<exists>v. map_of (bb_vrs bb') (vrsKey f) = Some v \<and> vr_voteproof v = vp) \<and>
    ((h, r, st) \<noteq> (Fact_Height f, Fact_Round f, Fact_Stage f) \<longrightarrow>
       map_of (bb_vrs bb') (vrsKey_of h r st) = map_of (bb_vrs bb) (vrsKey_of h r st))"
proof -
  obtain vrs vrs' where c: "Ballotbox_canVote L suf blt = Ok ()" and vp: "vp = vr_voteproof vrs'"
    and m: "map_of (bb_vrs bb') = (map_of (bb_vrs bb))(vrsKey f \<mapsto> vrs')"
    and st: "\<exists>m. bb_vrs bb' = map_store (vrsKey f) vrs' m \<and> (m = bb_vrs bb \<or> (\<exists>x. m = map_store (vrsKey f) x (bb_vrs bb)))"
    using Ballotbox_Vote_Ok [OF assms(2)] assms(3) by (metis option.inject)
  have "is_vrsKey (vrsKey f)" using assms(4) unfolding is_vrsKey_def vrsKey_def by blast
  then have inv: "bb_inv bb'" using st assms(1) unfolding bb_inv_def by (metis vrs_inv_store)
  have can: "Stage_CanVote (Fact_Stage f) \<and> (\<exists>a \<in> set suf. Address_Equal L a (Ballot_Node blt))"
    using c assms(3) by (auto simp: Ballotbox_canVote_def list_ex_iff split: if_splits)
  have "vrsKey_of h r st \<noteq> vrsKey f" if "(h, r, st) \<noteq> (Fact_Height f, Fact_Round f, Fact_Stage f)"
    using vrsKey_of_inject [OF assms(5,4)] that by (simp add: vrsKey_def)
  with inv can m vp show ?thesis by auto
qed

theorem ballotbox_vote_isolated_witness:
  "\<exists>vp bb'. Ballotbox_Vote sample_lib (\<lambda>xs. xs) 7 [NewStringAddress ''node0''] vote_thr NewBallotbox (vote_ballot ''node0'' 1) = Ok (vp, bb') \<and>
     bb_inv bb' \<and> map_of (bb_vrs bb') (vrsKey_of 34 0 StageACCEPT) = map_of (bb_vrs NewBallotbox) (vrsKey_of 34 0 StageACCEPT)"
proof -
  let ?r = "Ballotbox_Vote sample_lib (\<lambda>xs. xs) 7 [NewStringAddress ''node0''] vote_thr NewBallotbox (vote_ballot ''node0'' 1)"
  have "is_Ok ?r" by code_simp
  then obtain vp bb' where v: "?r = Ok (vp, bb')" by (cases ?r) (auto simp: is_Ok_def)
  have f: "Ballot_RawFact (vote_ballot ''node0'' 1) = Some (vote_fact 1)" by code_simp
  have i: "is_i64 (Fact_Height (vote_fact 1))" "is_i64 34" "Fact_Height (vote_fact 1) = 33"
    by (simp_all add: Fact_Height_def vote_fact_def is_i64_def)
  from ballotbox_vote_isolated [OF bb_inv_New v f i(1,2), of 0 StageACCEPT] v i(3) show ?thesis by auto
qed

end
