(* ===== verification/Mitum_Checkers.thy ===== *)
theory Mitum_Checkers
  imports Mitum_Policy Mitum_Ballotbox
begin

text \<open>
  What a node checks before it believes a message: the voteproof checker (\<^verbatim>\<open>src/isaac/voteproof_checker.go\<close>), the ballot checker
  (\<^verbatim>\<open>ballot_checker.go\<close>), the proposal checker (\<^verbatim>\<open>proposal_checker.go\<close>), the seal checker (\<^verbatim>\<open>seal_checker.go\<close>) and the handler
  of incoming seals that runs them (\<open>handlerNewSeal\<close> of \<^verbatim>\<open>src/launch/process/hook_network_handlers.go\<close>). The checkers reach the database through
  the interface \<open>storage_db\<close>; a method that may write to it takes and returns the database. A \<open>CheckerFunc\<close> returns whether to go on
  or an error; a chain that stops early without an error has succeeded.
\<close>

section \<open>Time\<close>

definition localtime_Within :: "gotime \<Rightarrow> gotime \<Rightarrow> int \<Rightarrow> bool" where
  "localtime_Within b target d \<longleftrightarrow> (if d \<le> 0 then b = target else \<not> target > b + d \<and> \<not> target < b + d * -1)"

section \<open>Voteproofs\<close>

definition is_inside :: "suffrage \<Rightarrow> address option \<Rightarrow> bool res" where
  "is_inside S a = (case a of None \<Rightarrow> Panic | Some a \<Rightarrow> Ok (su_IsInside S a))"

definition VoteProofChecker_IsValid :: "lib \<Rightarrow> (string list \<Rightarrow> string list) \<Rightarrow> local_policy \<Rightarrow> voteproof option \<Rightarrow> bool res" where
  "VoteProofChecker_IsValid L order lp vp =
     (case vp of None \<Rightarrow> Panic | Some vp \<Rightarrow> bind_res (Voteproof_IsValid L order vp (lp_networkID lp)) (\<lambda>_. Ok True))"

fun votes_inside :: "suffrage \<Rightarrow> signed_fact list \<Rightarrow> bool res" where
  "votes_inside S [] = Ok True"
| "votes_inside S (nf # nfs) =
     (case sf_factSign nf of
        None \<Rightarrow> Panic
      | Some fs \<Rightarrow> bind_res (is_inside S (fs_node fs)) (\<lambda>b. if b then votes_inside S nfs else Ok False))"

definition VoteProofChecker_NodeIsInSuffrage :: "suffrage \<Rightarrow> voteproof option \<Rightarrow> bool res" where
  "VoteProofChecker_NodeIsInSuffrage S vp = (case vp of None \<Rightarrow> Panic | Some vp \<Rightarrow> votes_inside S (vp_votes vp))"

definition VoteProofChecker_CheckThreshold :: "local_policy \<Rightarrow> voteproof option \<Rightarrow> bool res" where
  "VoteProofChecker_CheckThreshold lp vp =
     (case vp of None \<Rightarrow> Panic | Some vp \<Rightarrow> Ok (lp_thresholdRatio lp = vp_thresholdRatio vp))"

section \<open>Proposals\<close>

definition CheckBallotSigningNode :: "ballot_fact_sign option \<Rightarrow> nodepool \<Rightarrow> unit res" where
  "CheckBallotSigningNode fs np =
     (case fs of
        None \<Rightarrow> Panic
      | Some fs \<Rightarrow>
          (case fs_node fs of
             None \<Rightarrow> Panic
           | Some a \<Rightarrow>
               (case Nodepool_Node np a of
                  None \<Rightarrow> Err (plain ''node not found'')
                | Some (n, _) \<Rightarrow>
                    (case fs_signer fs of
                       None \<Rightarrow> Panic
                     | Some k \<Rightarrow> fail_if (\<not> Publickey_Equal k (map_option KPub (nd_publickey n))) (plain ''publickey not matched'')))))"

record proposal_checker =
  pc_suffrage :: suffrage
  pc_nodepool :: nodepool
  pc_proposal :: ballot
  pc_fact :: ballot_fact
  pc_factSign :: "ballot_fact_sign option"
  pc_livp :: "voteproof option"

definition NewProposalValidationChecker :: "suffrage \<Rightarrow> nodepool \<Rightarrow> ballot \<Rightarrow> voteproof option \<Rightarrow> proposal_checker res" where
  "NewProposalValidationChecker S np p livp =
     bind_res (Proposal_Fact p) (\<lambda>f. Ok \<lparr>pc_suffrage = S, pc_nodepool = np, pc_proposal = p, pc_fact = f, pc_factSign = Ballot_FactSign p, pc_livp = livp\<rparr>)"

definition ProposalChecker_IsKnown :: "('d, 'a) storage_db \<Rightarrow> proposal_checker \<Rightarrow> 'd \<Rightarrow> bool res \<times> 'd" where
  "ProposalChecker_IsKnown D pvc d =
     (bind_res (of_hash (Fact_Hash (pc_fact pvc))) (\<lambda>h. bind_res (db_Proposal D d h) (\<lambda>(_, found).
        if found then Err (NError_Wrap KnownSealError (Errorf FoundError ''proposal already in database'')) else Ok True)), d)"

definition ProposalChecker_CheckSigning :: "proposal_checker \<Rightarrow> bool res" where
  "ProposalChecker_CheckSigning pvc = bind_res (CheckBallotSigningNode (pc_factSign pvc) (pc_nodepool pvc)) (\<lambda>_. Ok True)"

definition ProposalChecker_IsProposer :: "lib \<Rightarrow> proposal_checker \<Rightarrow> bool res" where
  "ProposalChecker_IsProposer L pvc =
     (case proposer (pc_fact pvc) of
        None \<Rightarrow> bind_res (su_Acting (pc_suffrage pvc) (Fact_Height (pc_fact pvc)) (Fact_Round (pc_fact pvc))) (\<lambda>_. Panic)
      | Some a \<Rightarrow> bind_res (CheckNodeIsProposer L a (pc_suffrage pvc) (Fact_Height (pc_fact pvc)) (Fact_Round (pc_fact pvc))) (\<lambda>_. Ok True))"

definition ProposalChecker_SaveProposal :: "('d, 'a) storage_db \<Rightarrow> proposal_checker \<Rightarrow> 'd \<Rightarrow> bool res \<times> 'd" where
  "ProposalChecker_SaveProposal D pvc d =
     (case db_NewProposal D d (pc_proposal pvc) of
        (Ok _, d) \<Rightarrow> (Ok True, d)
      | (Err e, d) \<Rightarrow> (if error_Is e DuplicatedError then Ok True else Err e, d)
      | (Panic, d) \<Rightarrow> (Panic, d))"

definition ProposalChecker_IsOlder :: "('d, 'a) storage_db \<Rightarrow> 'd \<Rightarrow> proposal_checker \<Rightarrow> bool res" where
  "ProposalChecker_IsOlder D d pvc =
     (case pc_livp pvc of
        None \<Rightarrow> Err (plain ''no last voteproof'')
      | Some livp \<Rightarrow>
          let ph = Fact_Height (pc_fact pvc); lh = vp_height livp; pr = Fact_Round (pc_fact pvc); lr = vp_round livp in
          if ph < lh then Err (plain ''lower proposal height than last voteproof: %v < %v'')
          else if ph = lh \<and> pr < lr then Err (plain ''same height, but lower proposal round than last voteproof: %v < %v'')
          else
            (case db_LastManifest D d of
               Ok (m, found) \<Rightarrow>
                 if \<not> found then Ok True
                 else (case m of
                         None \<Rightarrow> Panic
                       | Some m \<Rightarrow> if ph \<le> mf_height m then Err (plain ''lower proposal height than last manifest: %v < %v'') else Ok True)
             | Err _ \<Rightarrow> Ok True
             | Panic \<Rightarrow> Panic))"

definition ProposalChecker_IsWaiting :: "proposal_checker \<Rightarrow> bool res" where
  "ProposalChecker_IsWaiting pvc =
     (case pc_livp pvc of
        None \<Rightarrow> Err (plain ''no last voteproof'')
      | Some livp \<Rightarrow>
          if Fact_Height (pc_fact pvc) \<noteq> vp_height livp then Err (plain ''proposal height does not match with last voteproof: %v != %v'')
          else if Fact_Round (pc_fact pvc) \<noteq> vp_round livp then Err (plain ''proposal round does not match with last voteproof: %v != %v'')
          else Ok True)"

section \<open>Ballots\<close>

record ballot_checker =
  bc_policy :: local_policy
  bc_suffrage :: suffrage
  bc_nodepool :: nodepool
  bc_ballot :: ballot
  bc_fact :: "ballot_fact option"
  bc_factSign :: "ballot_fact_sign option"
  bc_lvp :: "voteproof option"

definition NewBallotChecker :: "ballot \<Rightarrow> local_policy \<Rightarrow> suffrage \<Rightarrow> nodepool \<Rightarrow> voteproof option \<Rightarrow> ballot_checker" where
  "NewBallotChecker blt lp S np lvp =
     \<lparr>bc_policy = lp, bc_suffrage = S, bc_nodepool = np, bc_ballot = blt, bc_fact = Ballot_RawFact blt, bc_factSign = Ballot_FactSign blt, bc_lvp = lvp\<rparr>"

definition BallotChecker_IsFromLocal :: "lib \<Rightarrow> ballot_checker \<Rightarrow> bool res" where
  "BallotChecker_IsFromLocal L bc =
     (case bc_factSign bc of
        None \<Rightarrow> Panic
      | Some fs \<Rightarrow> Ok (\<not> Address_Equal L (local_address (bc_nodepool bc)) (fs_node fs)))"

definition BallotChecker_InTimespan :: "gotime \<Rightarrow> ballot_checker \<Rightarrow> bool res" where
  "BallotChecker_InTimespan now bc =
     (case bc_fact bc of
        None \<Rightarrow> Panic
      | Some f \<Rightarrow>
          if Fact_Stage f = StageProposal then
            (if \<not> localtime_Within now (sl_signedAt (bl_seal (bc_ballot bc))) (lp_timespanValidBallot (bc_policy bc))
             then Err (plain ''too old or new proposal'') else Ok True)
          else
            (case bc_factSign bc of
               None \<Rightarrow> Panic
             | Some fs \<Rightarrow>
                 if \<not> localtime_Within now (fs_signedAt fs) (lp_timespanValidBallot (bc_policy bc))
                 then Err (plain ''too old or new ballot'') else Ok True))"

definition BallotChecker_InSuffrage :: "ballot_checker \<Rightarrow> bool res" where
  "BallotChecker_InSuffrage bc = (case bc_factSign bc of None \<Rightarrow> Panic | Some fs \<Rightarrow> is_inside (bc_suffrage bc) (fs_node fs))"

definition BallotChecker_CheckSigning :: "ballot_checker \<Rightarrow> bool res" where
  "BallotChecker_CheckSigning bc = bind_res (CheckBallotSigningNode (bc_factSign bc) (bc_nodepool bc)) (\<lambda>_. Ok True)"

definition BallotChecker_IsFromAliveNode :: "ballot_checker \<Rightarrow> bool res" where
  "BallotChecker_IsFromAliveNode bc =
     (case bc_fact bc of
        None \<Rightarrow> Panic
      | Some f \<Rightarrow>
          if Fact_Stage f = StageProposal then Ok True
          else
            (case Option.bind (bc_factSign bc) fs_node of
               None \<Rightarrow> Panic
             | Some a \<Rightarrow>
                 (case Nodepool_Node (bc_nodepool bc) a of
                    None \<Rightarrow> Err (plain ''unknown node, %q'')
                  | Some (_, None) \<Rightarrow> Err (plain ''from dead node, %q'')
                  | Some (_, Some _) \<Rightarrow> Ok True)))"

definition BallotChecker_CheckWithLastVoteproof :: "ballot_checker \<Rightarrow> bool res" where
  "BallotChecker_CheckWithLastVoteproof bc =
     (case bc_lvp bc of
        None \<Rightarrow> Ok True
      | Some lvp \<Rightarrow>
          (case bc_fact bc of
             None \<Rightarrow> Panic
           | Some f \<Rightarrow>
               if Fact_Height f < vp_height lvp then Ok False
               else if Fact_Height f > vp_height lvp then Ok True
               else if Fact_Round f \<le> vp_round lvp then Ok False
               else Ok True))"

text \<open>A proposal a remote node answers with is validated and saved; that its fact has the hash that was asked for is not checked.\<close>

definition BallotChecker_requestProposal ::
  "lib \<Rightarrow> (string list \<Rightarrow> string list) \<Rightarrow> ('d, 'a) storage_db \<Rightarrow> ballot_checker \<Rightarrow> channel \<Rightarrow> hash \<Rightarrow> 'd \<Rightarrow> ballot res \<times> 'd" where
  "BallotChecker_requestProposal L order D bc ch h d =
     (case bind_res (ch_Proposal ch h) (\<lambda>p.
             case p of
               None \<Rightarrow> Err NotFoundError
             | Some p \<Rightarrow>
                 bind_res (Proposal_IsValid L order p (lp_networkID (bc_policy bc))) (\<lambda>_.
                 bind_res (NewProposalValidationChecker (bc_suffrage bc) (bc_nodepool bc) p None) (\<lambda>pvc. Ok (p, pvc)))) of
        Err e \<Rightarrow> (Err e, d)
      | Panic \<Rightarrow> (Panic, d)
      | Ok (p, pvc) \<Rightarrow>
          (case Checker_run [ProposalChecker_IsKnown D pvc, \<lambda>d. (ProposalChecker_CheckSigning pvc, d), ProposalChecker_SaveProposal D pvc] d of
             (Ok _, d) \<Rightarrow> (Ok p, d)
           | (Err e, d) \<Rightarrow> (if error_Is e IgnoreError \<or> error_Is e KnownSealError then Ok p else Err e, d)
           | (Panic, d) \<Rightarrow> (Panic, d)))"

text \<open>
  \<open>requestProposalFromNodes\<close> asks all reachable suffrage nodes at the same time. \<open>chs\<close> are the channels in the order in which the answers come; the
  worker waits for all of them and returns the first that was accepted.
\<close>

fun request_jobs ::
  "lib \<Rightarrow> (string list \<Rightarrow> string list) \<Rightarrow> ('d, 'a) storage_db \<Rightarrow> ballot_checker \<Rightarrow> hash \<Rightarrow> channel list \<Rightarrow> ballot option \<Rightarrow> 'd \<Rightarrow> ballot option res \<times> 'd" where
  "request_jobs L order D bc h [] got d = (Ok got, d)"
| "request_jobs L order D bc h (ch # chs) got d =
     (case BallotChecker_requestProposal L order D bc ch h d of
        (Panic, d) \<Rightarrow> (Panic, d)
      | (Err _, d) \<Rightarrow> request_jobs L order D bc h chs got d
      | (Ok p, d) \<Rightarrow> request_jobs L order D bc h chs (if got = None then Some p else got) d)"

definition alive_channels :: "(string list \<Rightarrow> string list) \<Rightarrow> nodepool \<Rightarrow> suffrage \<Rightarrow> channel list res" where
  "alive_channels ord np S =
     Nodepool_TraverseAliveRemotes ord np (\<lambda>n c cs.
       (True, case (Option.bind n nd_address, c) of
                (Some a, Some c) \<Rightarrow> (if su_IsInside S a then cs @ [c] else cs) | _ \<Rightarrow> cs)) []"

definition BallotChecker_requestProposalFromNodes ::
  "lib \<Rightarrow> (string list \<Rightarrow> string list) \<Rightarrow> (channel list \<Rightarrow> channel list) \<Rightarrow> ('d, 'a) storage_db \<Rightarrow> ballot_checker \<Rightarrow> hash \<Rightarrow> 'd \<Rightarrow> ballot_fact res \<times> 'd" where
  "BallotChecker_requestProposalFromNodes L order sched D bc h d =
     (case alive_channels order (bc_nodepool bc) (bc_suffrage bc) of
        Err e \<Rightarrow> (Err e, d)
      | Panic \<Rightarrow> (Panic, d)
      | Ok chs \<Rightarrow>
          (case request_jobs L order D bc h (sched chs) None d of
             (Ok (Some p), d) \<Rightarrow> (Proposal_Fact p, d)
           | (Ok None, d) \<Rightarrow> (Err (plain ''failed to request proposal, %v''), d)
           | (Err e, d) \<Rightarrow> (Err e, d)
           | (Panic, d) \<Rightarrow> (Panic, d)))"

definition BallotChecker_CheckProposalInACCEPTBallot ::
  "lib \<Rightarrow> (string list \<Rightarrow> string list) \<Rightarrow> (channel list \<Rightarrow> channel list) \<Rightarrow> ('d, 'a) storage_db \<Rightarrow> ballot_checker \<Rightarrow> 'd \<Rightarrow> bool res \<times> 'd" where
  "BallotChecker_CheckProposalInACCEPTBallot L order sched D bc d =
     (case bc_fact bc of
        Some (ACCEPTFact b p nb) \<Rightarrow>
          (case bind_res (of_hash p) (\<lambda>h. bind_res (db_Proposal D d h) (\<lambda>(pr, found).
                  if \<not> found then Ok (h, None) else case pr of None \<Rightarrow> Panic | Some pr \<Rightarrow> bind_res (Proposal_Fact pr) (\<lambda>f. Ok (h, Some f)))) of
             Err e \<Rightarrow> (Err e, d)
           | Panic \<Rightarrow> (Panic, d)
           | Ok (h, f) \<Rightarrow>
               (case (case f of Some f \<Rightarrow> (Ok f, d) | None \<Rightarrow> BallotChecker_requestProposalFromNodes L order sched D bc h d) of
                  (Ok f, d) \<Rightarrow>
                    (if bf_height b \<noteq> Fact_Height f then Err (plain ''proposal in ACCEPTBallot is invalid; different height, ballot=%v proposal=%v'')
                     else if bf_round b \<noteq> Fact_Round f then Err (plain ''proposal in ACCEPTBallot is invalid; different round, ballot=%v proposal=%v'')
                     else Ok True, d)
                | (Err e, d) \<Rightarrow> (Err e, d)
                | (Panic, d) \<Rightarrow> (Panic, d)))
      | _ \<Rightarrow> (Ok True, d))"

definition BallotChecker_CheckVoteproof :: "lib \<Rightarrow> (string list \<Rightarrow> string list) \<Rightarrow> ballot_checker \<Rightarrow> bool res" where
  "BallotChecker_CheckVoteproof L order bc =
     (let vp = bl_baseVoteproof (bc_ballot bc) in
      bind_res (Checker_Check [VoteProofChecker_IsValid L order (bc_policy bc) vp, VoteProofChecker_NodeIsInSuffrage (bc_suffrage bc) vp,
                               VoteProofChecker_CheckThreshold (bc_policy bc) vp]) (\<lambda>_. Ok True))"

section \<open>Seals\<close>

datatype seal = SOperations operation_seal | SBallot ballot

definition seal_base :: "seal \<Rightarrow> base_seal" where
  "seal_base sl = (case sl of SOperations s \<Rightarrow> os_seal s | SBallot b \<Rightarrow> bl_seal b)"

definition seal_IsValid :: "lib \<Rightarrow> (string list \<Rightarrow> string list) \<Rightarrow> seal \<Rightarrow> bytes \<Rightarrow> unit res" where
  "seal_IsValid L order sl nid = (case sl of SOperations s \<Rightarrow> OperationSeal_IsValid L s nid | SBallot b \<Rightarrow> Ballot_IsValid L order b nid)"

text \<open>The cache of known seals (\<open>cache.Cache\<close>); entries may expire.\<close>

record 'c seal_cache =
  sc_Has :: "'c \<Rightarrow> string \<Rightarrow> bool"
  sc_Set :: "'c \<Rightarrow> string \<Rightarrow> unit res \<times> 'c"

definition SealChecker_IsKnown :: "lib \<Rightarrow> 'c seal_cache option \<Rightarrow> seal \<Rightarrow> 'c \<Rightarrow> bool res \<times> 'c" where
  "SealChecker_IsKnown L C sl c =
     (case C of
        None \<Rightarrow> (Ok True, c)
      | Some C \<Rightarrow>
          (case sl_h (seal_base sl) of
             None \<Rightarrow> (Panic, c)
           | Some h \<Rightarrow>
               if sc_Has C c (Hash_String L h) then (Err (Errorf IgnoreError ''seal is known''), c)
               else
                 (case sc_Set C c (Hash_String L h) of
                    (Ok _, c) \<Rightarrow> (Ok True, c)
                  | (Err e, c) \<Rightarrow> (Err (NError_Errorf IgnoreError ''failed to set cache for seal: %w'' (Some e)), c)
                  | (Panic, c) \<Rightarrow> (Panic, c))))"

definition SealChecker_IsValid :: "lib \<Rightarrow> (string list \<Rightarrow> string list) \<Rightarrow> local_policy \<Rightarrow> seal \<Rightarrow> bool res" where
  "SealChecker_IsValid L order lp sl = bind_res (seal_IsValid L order sl (lp_networkID lp)) (\<lambda>_. Ok True)"

fun some_new_operation :: "('d, 'a) storage_db \<Rightarrow> 'd \<Rightarrow> operation option list \<Rightarrow> bool res" where
  "some_new_operation D d [] = Ok False"
| "some_new_operation D d (op # ops) =
     (case op of
        None \<Rightarrow> Panic
      | Some op \<Rightarrow>
          bind_res (Operation_FactHash op) (\<lambda>h.
            case db_HasOperationFact D d h of
              Err e \<Rightarrow> Err (FmtErr ''failed to check HasOperationFact'' (Some e))
            | Panic \<Rightarrow> Panic
            | Ok found \<Rightarrow> if found then some_new_operation D d ops else Ok True))"

definition SealChecker_IsValidOperationSeal :: "('d, 'a) storage_db \<Rightarrow> local_policy \<Rightarrow> seal \<Rightarrow> 'd \<Rightarrow> bool res" where
  "SealChecker_IsValidOperationSeal D lp sl d =
     (case sl of
        SBallot _ \<Rightarrow> Ok True
      | SOperations s \<Rightarrow>
          let l = length (os_ops s) in
          if l < 1 then Err (Errorf InvalidError ''empty operations'')
          else if of_nat l > lp_maxOperationsInSeal lp then Err (Errorf InvalidError ''operations over limit; %d > %d'')
          else bind_res (some_new_operation D d (os_ops s)) (\<lambda>b.
            if b then Ok True else Err (Errorf IgnoreError ''operation seal does not have new operations'')))"

section \<open>The handler of incoming seals\<close>

text \<open>The network's environment of the handler: time, iteration order of maps, order of the answers of remote nodes, last voteproof of the states.\<close>

record env =
  ev_now :: gotime
  ev_order :: "string list \<Rightarrow> string list"
  ev_sched :: "channel list \<Rightarrow> channel list"
  ev_lvp :: "voteproof option"

definition ballot_checks ::
  "lib \<Rightarrow> env \<Rightarrow> ('d, 'a) storage_db \<Rightarrow> ballot_checker \<Rightarrow> ('d \<Rightarrow> bool res \<times> 'd) list" where
  "ballot_checks L ev D bc =
     [\<lambda>d. (BallotChecker_IsFromLocal L bc, d),
      \<lambda>d. (BallotChecker_InTimespan (ev_now ev) bc, d),
      \<lambda>d. (BallotChecker_InSuffrage bc, d),
      \<lambda>d. (BallotChecker_CheckSigning bc, d),
      \<lambda>d. (BallotChecker_IsFromAliveNode bc, d),
      \<lambda>d. (BallotChecker_CheckWithLastVoteproof bc, d),
      BallotChecker_CheckProposalInACCEPTBallot L (ev_order ev) (ev_sched ev) D bc,
      \<lambda>d. (BallotChecker_CheckVoteproof L (ev_order ev) bc, d)]"

text \<open>The result of the handler, and whether the seal was handed over to the node's states.\<close>

definition handlerNewSeal ::
  "lib \<Rightarrow> env \<Rightarrow> ('d, 'a) storage_db \<Rightarrow> 'c seal_cache option \<Rightarrow> local_policy \<Rightarrow> suffrage \<Rightarrow> nodepool \<Rightarrow> seal \<Rightarrow> 'c \<times> 'd \<Rightarrow> (unit res \<times> bool) \<times> 'c \<times> 'd" where
  "handlerNewSeal L ev D C lp S np sl s =
     (case Checker_run [\<lambda>(c, d). (case SealChecker_IsKnown L C sl c of (r, c) \<Rightarrow> (r, c, d)),
                        \<lambda>s. (SealChecker_IsValid L (ev_order ev) lp sl, s),
                        \<lambda>(c, d). (SealChecker_IsValidOperationSeal D lp sl d, c, d)] s of
        (Err e, s) \<Rightarrow> ((if error_Is e IgnoreError then Ok () else Err e, False), s)
      | (Panic, s) \<Rightarrow> ((Panic, False), s)
      | (Ok _, c, d) \<Rightarrow>
          (case sl of
             SOperations _ \<Rightarrow> ((Ok (), True), c, d)
           | SBallot blt \<Rightarrow>
               (case Checker_run (ballot_checks L ev D (NewBallotChecker blt lp S np (ev_lvp ev))) d of
                  (Ok _, d) \<Rightarrow> ((Ok (), True), c, d)
                | (r, d) \<Rightarrow> ((r, False), c, d))))"

section \<open>Lemmas\<close>

lemma SignedFact_IsValid_parts:
  assumes "SignedFact_IsValid L v nid = Ok ()"
  shows "\<exists>f fs a k. sf_fact v = Some f \<and> sf_factSign v = Some fs \<and> fs_node fs = Some a \<and> fs_signer fs = Some k"
  using assms unfolding SignedFact_IsValid_def seq_Ok_iff
  by (cases "sf_fact v"; cases "sf_factSign v")
    (auto simp: BallotFactSign_IsValid_def FactSign_IsValid_def IsValidBallotFactSign_def seq_Ok_iff split: option.splits)

lemma Ballot_IsValid_parts:
  assumes "Ballot_IsValid L order b nid = Ok ()"
  shows "\<exists>f fs a k. Ballot_RawFact b = Some f \<and> Ballot_FactSign b = Some fs \<and> fs_node fs = Some a \<and> fs_signer fs = Some k"
proof -
  have "BallotSeal_IsValid L order b nid = Ok ()"
    using assms by (auto simp: Ballot_IsValid_def INIT_IsValid_def ACCEPT_IsValid_def Proposal_IsValid_def bind_res_Ok_iff split: ballot_kind.splits)
  then obtain s where "bl_sfs b = Some s" "SignedFact_IsValid L s nid = Ok ()"
    unfolding BallotSeal_IsValid_def seq_Ok_iff by auto
  then show ?thesis using SignedFact_IsValid_parts by (fastforce simp: Ballot_RawFact_def Ballot_FactSign_def)
qed

lemma votes_inside_not_Panic:
  assumes "\<forall>v \<in> set vs. SignedFact_IsValid L v nid = Ok ()"
  shows "\<exists>b. votes_inside S vs = Ok b"
  using assms
proof (induction vs)
  case (Cons v vs)
  obtain fs a where "sf_factSign v = Some fs" "fs_node fs = Some a" using SignedFact_IsValid_parts [of L v nid] Cons.prems by auto
  with Cons show ?case by (cases "su_IsInside S a") (auto simp: is_inside_def)
qed (simp, blast)

text \<open>The check of a ballot's voteproof comes down to its validity: neither the suffrage nor the threshold ratio can make it fail.\<close>

lemma CheckVoteproof_iff:
  "BallotChecker_CheckVoteproof L order bc = Ok True \<longleftrightarrow>
     (\<exists>vp. bl_baseVoteproof (bc_ballot bc) = Some vp \<and> Voteproof_IsValid L order vp (lp_networkID (bc_policy bc)) = Ok ())"
proof (cases "bl_baseVoteproof (bc_ballot bc)")
  case None
  then show ?thesis by (simp add: BallotChecker_CheckVoteproof_def VoteProofChecker_IsValid_def)
next
  case (Some vp)
  show ?thesis
  proof (cases "Voteproof_IsValid L order vp (lp_networkID (bc_policy bc))")
    case (Ok u)
    then have "\<forall>v \<in> set (vp_votes vp). SignedFact_IsValid L v (lp_networkID (bc_policy bc)) = Ok ()" using Voteproof_IsValid_votes by simp
    then obtain b where "votes_inside (bc_suffrage bc) (vp_votes vp) = Ok b" using votes_inside_not_Panic by blast
    then show ?thesis using Some Ok
      by (simp add: BallotChecker_CheckVoteproof_def VoteProofChecker_IsValid_def VoteProofChecker_NodeIsInSuffrage_def VoteProofChecker_CheckThreshold_def)
  qed (auto simp: BallotChecker_CheckVoteproof_def VoteProofChecker_IsValid_def Some)
qed

text \<open>The point of a ballot is not after that of the last voteproof.\<close>

definition not_after :: "ballot_fact \<Rightarrow> voteproof option \<Rightarrow> bool" where
  "not_after f lvp \<longleftrightarrow> (case lvp of None \<Rightarrow> False
     | Some v \<Rightarrow> Fact_Height f < vp_height v \<or> Fact_Height f = vp_height v \<and> Fact_Round f \<le> vp_round v)"

lemma CheckWithLastVoteproof_eq:
  "bc_fact bc = Some f \<Longrightarrow> BallotChecker_CheckWithLastVoteproof bc = Ok (\<not> not_after f (bc_lvp bc))"
  by (auto simp: BallotChecker_CheckWithLastVoteproof_def not_after_def split: option.splits)

lemma bool_res_cases: "(r :: bool res) = Ok True \<or> r = Ok False \<or> (\<exists>e. r = Err e) \<or> r = Panic"
  by (cases r) auto

lemma Ballot_IsValid_voteproof:
  assumes "Ballot_IsValid L order b nid = Ok ()"
  shows "\<exists>vp. bl_baseVoteproof b = Some vp \<and> Voteproof_IsValid L order vp nid = Ok ()"
proof -
  have "BallotSeal_IsValid L order b nid = Ok () \<and> bl_baseVoteproof b \<noteq> None"
    using assms
    by (auto simp: Ballot_IsValid_def INIT_IsValid_def ACCEPT_IsValid_def Proposal_IsValid_def bind_res_Ok_iff
        INIT_isValidBaseVoteproof_def isValidBaseVoteproofAfterINIT_def split: ballot_kind.splits option.splits ballot_fact.splits if_splits)
  then show ?thesis by (auto simp: BallotSeal_IsValid_iff voteproof_ok_def)
qed

lemma Checker_run_Cons_pure:
  "Checker_run ((\<lambda>s. (r, s)) # fns) s = (case r of Err e \<Rightarrow> (Err e, s) | Panic \<Rightarrow> (Panic, s) | Ok k \<Rightarrow> if k then Checker_run fns s else (Ok (), s))"
  by (cases r) auto

lemma handler_ballot:
  assumes "SealChecker_IsKnown L C (SBallot b) c = (Ok True, c')" and "Ballot_IsValid L (ev_order ev) b (lp_networkID lp) = Ok ()"
  shows "snd (fst (handlerNewSeal L ev D C lp S np (SBallot b) (c, d))) \<longleftrightarrow>
    fst (Checker_run (ballot_checks L ev D (NewBallotChecker b lp S np (ev_lvp ev))) d) = Ok ()"
  using assms
  by (cases "Checker_run (ballot_checks L ev D (NewBallotChecker b lp S np (ev_lvp ev))) d")
    (auto simp: handlerNewSeal_def SealChecker_IsValid_def seal_IsValid_def SealChecker_IsValidOperationSeal_def split: res.splits)

text \<open>\<open>errors.Is\<close> looks at the identifier of its target only.\<close>

lemma error_Is_same_id:
  assumes "t = NErr i m v" and "t' = NErr i m' v'"
  shows "error_Is e t = error_Is e t'"
  unfolding assms by (induction e) (auto split: option.splits)

lemma storage_is_ignore: "error_Is e StorageError = error_Is e IgnoreError"
  unfolding StorageError_def IgnoreError_def NewError_def by (rule error_Is_same_id [OF refl refl])

section \<open>Properties\<close>


text \<open>
  A failing database makes operation seals disappear. \<open>StorageError\<close> and \<open>IgnoreError\<close> have the same identity, so when the look-up of an operation of
  a valid seal fails with a storage error, the handler takes it for a seal to be ignored: it reports success, the seal is not handed over, and, since the
  cache of known seals keeps it, sending it again does not help.
\<close>

theorem storage_failure_swallowed:
  assumes "SealChecker_IsKnown L C (SOperations s) c = (Ok True, c')" and "OperationSeal_IsValid L s (lp_networkID lp) = Ok ()"
    and "of_nat (length (os_ops s)) \<le> lp_maxOperationsInSeal lp" and "os_ops s = Some op # ops" and "Operation_FactHash op = Ok h"
    and "db_HasOperationFact D d h = Err e" and "error_Is e StorageError"
  shows "handlerNewSeal L ev D C lp S np (SOperations s) (c, d) = ((Ok (), False), c', d)"
proof -
  have "error_Is (FmtErr m (Some e)) IgnoreError" for m using assms(7) by (simp add: storage_is_ignore)
  moreover have "some_new_operation D d (os_ops s) = Err (FmtErr ''failed to check HasOperationFact'' (Some e))"
    using assms(4-6) by simp
  ultimately show ?thesis using assms(1-4)
    by (simp add: handlerNewSeal_def SealChecker_IsValid_def seal_IsValid_def SealChecker_IsValidOperationSeal_def Let_def not_less)
qed

section \<open>Witnesses\<close>

text \<open>An INIT ballot in the name of \<open>node0\<close>, signed with the key \<open>[9]\<close>.\<close>

lemma sample_forged_ballot:
  assumes "Height_IsValid h = Ok ()" and "st = StageProposal"
  shows "\<exists>sl fs. Ballot_IsValid sample_lib (\<lambda>xs. xs) sl [1] = Ok () \<and> Ballot_RawFact sl = Some sample_INIT \<and> Ballot_FactSign sl = Some fs \<and>
    fs_node fs = Some (NewStringAddress ''node0'') \<and> fs_signer fs = Some (priv_pub (newBasePrivatekey sample_lib [9])) \<and>
    bl_baseVoteproof sl = Some (sample_vp h r st) \<and> bl_acceptVoteproof sl = None \<and> bl_kind sl = KINIT"
proof -
  let ?n = "NewStringAddress ''node0''" and ?b = "Some (sample_vp h r st)"
  have s: "semver_IsValid sample_lib ''v0.0.1''" and a: "Address_IsValid sample_lib ?n = Ok ()" by code_simp+
  have st: "Fact_Stage sample_INIT = StageINIT" by code_simp
  have f: "Fact_IsValid sample_lib sample_INIT = Ok ()"
    unfolding sample_INIT_def by (rule Fact_IsValid_new [OF s sample_sha3_shape]) (simp_all add: maxBytesHashSize_def)
  have p: "proposal_signed_by sample_lib sample_INIT (Some ?n) = Ok ()" by (simp add: proposal_signed_by_def st)
  have ty: "ballot_type_of (Fact_Stage sample_INIT) = Some (hint_ty INITHint)" by (simp add: st ballot_type_of_def INITHint_def NewHint_def)
  have b: "\<And>v. ?b = Some v \<Longrightarrow> voteproof_ok sample_lib (\<lambda>xs. xs) [1] v"
    using sample_vp_ok [OF assms(1), of st] assms(2) by (simp add: Stage_IsValid_def)
  obtain sl where sl: "NewBaseSeal sample_lib 5 6 KINIT INITHint sample_INIT ?n ?b None (newBasePrivatekey sample_lib [9]) [1] = Ok sl"
    using NewBaseSeal_exists [OF f _ a, of "[9]" ?b "\<lambda>xs. xs" "[1]" None 5 6 KINIT INITHint] b by (auto simp: sample_lib_def)
  have v: "BallotSeal_IsValid sample_lib (\<lambda>xs. xs) sl [1] = Ok ()" "Ballot_RawFact sl = Some sample_INIT" "bl_baseVoteproof sl = ?b"
    "bl_acceptVoteproof sl = None" "bl_kind sl = KINIT"
    by (rule NewBaseSeal_valid [OF sample_btcec_signs s a _ _ _ p ballot_hints_valid(1) [OF s] ty b _ sl]; simp)+
  obtain bf q where i: "sample_INIT = INITFact bf q" by (simp add: sample_INIT_def NewINITFact_def Let_def)
  have "INIT_isValidBaseVoteproof sl sample_INIT = Ok ()" "INIT_isValidACCEPTVoteproof sl sample_INIT = Ok ()"
    using v(3,4) assms(2) by (simp_all add: INIT_isValidBaseVoteproof_def INIT_isValidACCEPTVoteproof_def)
  then have "Ballot_IsValid sample_lib (\<lambda>xs. xs) sl [1] = Ok ()"
    using v(1,2,5) unfolding i by (simp add: Ballot_IsValid_def INIT_IsValid_def)
  moreover obtain sfs where sfs: "NewBaseSignedBallotFactFromFact sample_lib 5 sample_INIT ?n (newBasePrivatekey sample_lib [9]) [1] = Ok sfs" "bl_sfs sl = Some sfs"
    by (rule NewBaseSeal_Ok [OF sl]) simp
  obtain sig where "sfs = NewBaseSignedBallotFact (Some sample_INIT) (Some (NewBaseBallotFactSign (Some ?n) (Some (priv_pub (newBasePrivatekey sample_lib [9]))) 5 sig))"
    using sfs(1) by (auto simp: NewBaseSignedBallotFactFromFact_def NewBaseBallotFactSignFromFact_def bind_res_Ok_iff split: option.splits)
  then have "\<exists>fs. Ballot_FactSign sl = Some fs \<and> fs_node fs = Some ?n \<and> fs_signer fs = Some (priv_pub (newBasePrivatekey sample_lib [9]))"
    using sfs(2) by (simp add: Ballot_FactSign_def NewBaseSignedBallotFact_def NewBaseBallotFactSign_def)
  ultimately show ?thesis using v by blast
qed

definition sample_env :: env where
  "sample_env = \<lparr>ev_now = 1000, ev_order = (\<lambda>xs. xs), ev_sched = (\<lambda>xs. xs), ev_lvp = None\<rparr>"


theorem storage_failure_swallowed_witness:
  "\<exists>s. OperationSeal_IsValid sample_lib s [1] = Ok () \<and>
     handlerNewSeal sample_lib sample_env
       ((leveldb_storage :: (alist_store database, unit) storage_db)\<lparr>db_HasOperationFact := (\<lambda>_ _. Err StorageError)\<rparr>) (None :: unit seal_cache option)
       (NewLocalPolicy [1]) no_suffrage sample_nodepool (SOperations s) ((), sample_db []) = ((Ok (), False), (), sample_db [])"
proof -
  let ?op = "sample_op [sample_sign 8 10]"
  let ?s = "ok_val (NewOperationSeal sample_lib 30 (newBasePrivatekey sample_lib [8]) [Some ?op] [1])"
  let ?D = "(leveldb_storage :: (alist_store database, unit) storage_db)\<lparr>db_HasOperationFact := (\<lambda>_ _. Err StorageError)\<rparr>"
  have v: "OperationSeal_IsValid sample_lib ?s (lp_networkID (NewLocalPolicy [1])) = Ok ()" and h: "is_Ok (Operation_FactHash ?op)"
    and n: "is_Ok (NewOperationSeal sample_lib 30 (newBasePrivatekey sample_lib [8]) [Some ?op] [1])" by code_simp+
  from n have o': "os_ops ?s = [Some ?op]" by (auto simp: is_Ok_def NewOperationSeal_def Let_def bind_res_Ok_iff split: res.splits)
  from h obtain x where x: "Operation_FactHash ?op = Ok x" by (auto simp: is_Ok_def split: res.splits)
  have k: "SealChecker_IsKnown sample_lib (None :: unit seal_cache option) (SOperations ?s) () = (Ok True, ())" by (simp add: SealChecker_IsKnown_def)
  have m: "of_nat (length (os_ops ?s)) \<le> lp_maxOperationsInSeal (NewLocalPolicy [1])" by (simp add: o' NewLocalPolicy_def policy_defaults)
  have e: "db_HasOperationFact ?D (sample_db []) x = Err StorageError" "error_Is StorageError StorageError" by (simp_all add: StorageError_def NewError_def)
  from storage_failure_swallowed [where D = ?D and ev = sample_env and S = no_suffrage and np = sample_nodepool, OF k v m o' x e] v
  show ?thesis by (auto simp: NewLocalPolicy_def)
qed

end
