(* ===== verification/Mitum_Maker.thy ===== *)
theory Mitum_Maker
  imports Mitum_Checkers
begin

text \<open>
  What a node says: the ballots it builds from voteproofs (\<^verbatim>\<open>src/isaac/ballot.go\<close>, \<^verbatim>\<open>src/states/basic/ballot.go\<close>), the proposals it makes of its
  staged operations (\<^verbatim>\<open>src/isaac/proposal_maker.go\<close>), and how it collects the operations of a proposal it received
  (\<^verbatim>\<open>src/isaac/operation.go\<close>). The lemmas about the proposal maker are proved from the contract \<open>staging_store\<close> of the database and hold for
  LevelDB through its interpretation.
\<close>

section \<open>INIT and ACCEPT ballots\<close>

text \<open>\<open>now\<close> and \<open>now'\<close> are the times of the signature of the fact and of the seal. A nil manifest or voteproof of the database is dereferenced.\<close>

definition isaac_NewINITBallotRound0 ::
  "lib \<Rightarrow> gotime \<Rightarrow> gotime \<Rightarrow> ('d, 'a) storage_db \<Rightarrow> 'd \<Rightarrow> address \<Rightarrow> privatekey \<Rightarrow> bytes \<Rightarrow> ballot res" where
  "isaac_NewINITBallotRound0 L now now' D d n pk networkID =
     bind_res (map_err (\<lambda>e. FmtErr ''failed to get last block'' (Some e)) (db_LastManifest D d)) (\<lambda>(m, found).
       if \<not> found then Err (plain ''last block not found'')
       else case m of
         None \<Rightarrow> Panic
       | Some m \<Rightarrow>
           bind_res (db_LastVoteproof D d StageACCEPT) (\<lambda>avp.
             NewINIT L now now' (NewINITFact L (i64 (mf_height m + 1)) 0 (mf_h m)) n avp None pk networkID))"

text \<open>The previous block an INIT voteproof agreed on: of its majority fact, nil when there is none.\<close>

definition majority_block :: "voteproof \<Rightarrow> hash option" where
  "majority_block vp =
     (case vp_majority vp of Some (INITFact _ p) \<Rightarrow> p | Some (ACCEPTFact _ _ nb) \<Rightarrow> nb | _ \<Rightarrow> None)"

definition isaac_NewINITBallotWithVoteproof ::
  "lib \<Rightarrow> gotime \<Rightarrow> gotime \<Rightarrow> ('d, 'a) storage_db \<Rightarrow> 'd \<Rightarrow> address \<Rightarrow> voteproof \<Rightarrow> privatekey \<Rightarrow> bytes \<Rightarrow> ballot res" where
  "isaac_NewINITBallotWithVoteproof L now now' D d n vp pk networkID =
     bind_res
       (if vp_stage vp = StageINIT then
          bind_res (db_LastVoteproof D d StageACCEPT) (\<lambda>avp. Ok (vp_height vp, vp_round vp + 1, majority_block vp, avp))
        else if vp_stage vp = StageACCEPT then
          (case vp_majority vp of
             Some (ACCEPTFact _ _ nb) \<Rightarrow> Ok (i64 (vp_height vp + 1), 0, nb, None)
           | _ \<Rightarrow> Err (plain ''invalid voteproof found; should have ACCEPTBallotFact, not %T''))
        else Ok (0, 0, None, None))
       (\<lambda>(h, r, prev, avp). NewINIT L now now' (NewINITFact L h r prev) n (Some vp) avp pk networkID)"

definition isaac_NewACCEPTBallot ::
  "lib \<Rightarrow> gotime \<Rightarrow> gotime \<Rightarrow> address \<Rightarrow> manifest \<Rightarrow> voteproof option \<Rightarrow> privatekey \<Rightarrow> bytes \<Rightarrow> ballot res" where
  "isaac_NewACCEPTBallot L now now' n m vp pk networkID =
     NewACCEPT L now now' (NewACCEPTFact L (mf_height m) (mf_round m) (mf_proposal m) (mf_h m)) n vp pk networkID"

text \<open>The ACCEPT voteproof of a height, as the two functions below ask for it.\<close>

definition accept_voteproof_at :: "('d, 'a) storage_db \<Rightarrow> 'd \<Rightarrow> height \<Rightarrow> voteproof option res" where
  "accept_voteproof_at D d h = map_err (\<lambda>e. FmtErr ''failed to get last voteproof'' (Some e)) (db_Voteproof D d h StageACCEPT)"

definition manifest_hash_at :: "string \<Rightarrow> string \<Rightarrow> ('d, 'a) storage_db \<Rightarrow> 'd \<Rightarrow> height \<Rightarrow> hash option res" where
  "manifest_hash_at failed missing D d h =
     bind_res (map_err (\<lambda>e. FmtErr failed (Some e)) (db_ManifestByHeight D d h)) (\<lambda>(m, found).
       if \<not> found then Err (plain missing) else case m of None \<Rightarrow> Panic | Some m \<Rightarrow> Ok (mf_h m))"

definition NextINITBallotFromACCEPTVoteproof ::
  "lib \<Rightarrow> gotime \<Rightarrow> gotime \<Rightarrow> ('d, 'a) storage_db \<Rightarrow> 'd \<Rightarrow> local_node \<Rightarrow> voteproof \<Rightarrow> bytes \<Rightarrow> ballot res" where
  "NextINITBallotFromACCEPTVoteproof L now now' D d lo vp networkID =
     (if vp_stage vp \<noteq> StageACCEPT then Err (plain ''not accept voteproof'')
      else if \<not> Voteproof_IsFinished vp then Err (plain ''voteproof not yet finished'')
      else
        bind_res
          (case vp_majority vp of
             None \<Rightarrow>
               bind_res (manifest_hash_at ''failed to get manifest'' ''manfest, height=%d not found'' D d (i64 (vp_height vp - 1))) (\<lambda>p.
                 Ok (vp_height vp, vp_round vp + 1, p))
           | Some (ACCEPTFact _ _ nb) \<Rightarrow> Ok (i64 (vp_height vp + 1), 0, nb)
           | Some _ \<Rightarrow> Err (plain ''not ballot.ACCEPTBallotFact in voteproof.Majority(); %T''))
          (\<lambda>(h, r, prev).
        bind_res (if vp_result vp \<noteq> VoteResultMajority then accept_voteproof_at D d (i64 (vp_height vp - 1)) else Ok None) (\<lambda>avp.
          case nd_address lo of
            None \<Rightarrow> Panic
          | Some a \<Rightarrow> NewINIT L now now' (NewINITFact L h r prev) a (Some vp) avp (ln_privatekey lo) networkID)))"

definition NextINITBallotFromINITVoteproof ::
  "lib \<Rightarrow> gotime \<Rightarrow> gotime \<Rightarrow> ('d, 'a) storage_db \<Rightarrow> 'd \<Rightarrow> local_node \<Rightarrow> voteproof \<Rightarrow> voteproof option \<Rightarrow> bytes \<Rightarrow> ballot res" where
  "NextINITBallotFromINITVoteproof L now now' D d lo vp avp networkID =
     (if vp_stage vp \<noteq> StageINIT then Err (plain ''not init voteproof'')
      else if \<not> Voteproof_IsFinished vp then Err (plain ''voteproof not yet finished'')
      else
        bind_res (if avp = None then accept_voteproof_at D d (i64 (vp_height vp - 1)) else Ok avp) (\<lambda>avp.
        bind_res (manifest_hash_at ''failed to get previous manifest'' ''previous manfest, height=%d not found'' D d (i64 (vp_height vp - 1))) (\<lambda>prev.
          case nd_address lo of
            None \<Rightarrow> Panic
          | Some a \<Rightarrow> NewINIT L now now' (NewINITFact L (vp_height vp) (vp_round vp + 1) prev) a (Some vp) avp (ln_privatekey lo) networkID)))"

section \<open>The proposal maker\<close>

record proposal_maker =
  pm_local :: local_node
  pm_policy :: local_policy
  pm_proposed :: "ballot option"

definition NewProposalMaker :: "local_node \<Rightarrow> local_policy \<Rightarrow> proposal_maker" where
  "NewProposalMaker lo lp = \<lparr>pm_local = lo, pm_policy = lp, pm_proposed = None\<rparr>"

text \<open>The callback on the staged operations, with the texts it has seen, the operations it takes and the ones it finds useless.\<close>

type_synonym maker_state = "string set \<times> hash list \<times> hash list"

definition maker_callback :: "lib \<Rightarrow> ('d, maker_state) storage_db \<Rightarrow> 'd \<Rightarrow> u64 \<Rightarrow> operation option \<Rightarrow> maker_state \<Rightarrow> bool res \<times> maker_state" where
  "maker_callback L D d maxOperations op = (\<lambda>(founds, ops, uselesses).
     case op of
       None \<Rightarrow> (Panic, founds, ops, uselesses)
     | Some op \<Rightarrow>
         (case Operation_FactHash op of
            Err e \<Rightarrow> (Err e, founds, ops, uselesses)
          | Panic \<Rightarrow> (Panic, founds, ops, uselesses)
          | Ok fh \<Rightarrow>
              if Hash_String L fh \<in> founds then (Ok True, founds, ops, uselesses @ [fh])
              else
                (case db_HasOperationFact D d fh of
                   Err e \<Rightarrow> (Err e, founds, ops, uselesses)
                 | Panic \<Rightarrow> (Panic, founds, ops, uselesses)
                 | Ok found \<Rightarrow>
                     if found then (Ok True, founds, ops, uselesses @ [fh])
                     else if of_nat (length (ops @ [fh])) = maxOperations then (Ok False, founds, ops @ [fh], uselesses)
                     else (Ok True, insert (Hash_String L fh) founds, ops @ [fh], uselesses))))"

definition ProposalMaker_operations :: "lib \<Rightarrow> ('d, maker_state) storage_db \<Rightarrow> proposal_maker \<Rightarrow> 'd \<Rightarrow> hash list res \<times> 'd" where
  "ProposalMaker_operations L D pm d =
     (case db_StagedOperations D d (maker_callback L D d (lp_maxOperationsInProposal (pm_policy pm))) True ({}, [], []) of
        (Err e, _) \<Rightarrow> (Err e, d)
      | (Panic, _) \<Rightarrow> (Panic, d)
      | (Ok _, _, ops, uselesses) \<Rightarrow>
          if length uselesses > 0 then
            (case db_UnstagedOperations D d uselesses of
               (Ok _, d) \<Rightarrow> (Ok ops, d) | (Err e, d) \<Rightarrow> (Err e, d) | (Panic, d) \<Rightarrow> (Panic, d))
          else (Ok ops, d))"

definition ProposalMaker_Proposal ::
  "lib \<Rightarrow> gotime \<Rightarrow> gotime \<Rightarrow> gotime \<Rightarrow> ('d, maker_state) storage_db \<Rightarrow> height \<Rightarrow> round \<Rightarrow> voteproof option \<Rightarrow> proposal_maker \<times> 'd \<Rightarrow>
   ballot res \<times> proposal_maker \<times> 'd" where
  "ProposalMaker_Proposal L t now now' D h r vp = (\<lambda>(pm, d).
     case (case pm_proposed pm of
             None \<Rightarrow> Ok None
           | Some p \<Rightarrow> bind_res (Proposal_Fact p) (\<lambda>f. Ok (if Fact_Height f = h \<and> Fact_Round f = r then Some p else None))) of
       Err e \<Rightarrow> (Err e, pm, d)
     | Panic \<Rightarrow> (Panic, pm, d)
     | Ok (Some p) \<Rightarrow> (Ok p, pm, d)
     | Ok None \<Rightarrow>
         (case ProposalMaker_operations L D pm d of
            (Err e, d) \<Rightarrow> (Err e, pm, d)
          | (Panic, d) \<Rightarrow> (Panic, pm, d)
          | (Ok ops, d) \<Rightarrow>
              (case nd_address (pm_local pm) of
                 None \<Rightarrow> (Panic, pm, d)
               | Some a \<Rightarrow>
                   (case NewProposal L now now' (NewProposalFact L t h r (Some a) (map Some ops)) a vp (ln_privatekey (pm_local pm)) (lp_networkID (pm_policy pm)) of
                      Ok p \<Rightarrow> (Ok p, pm\<lparr>pm_proposed := Some p\<rparr>, d)
                    | Err e \<Rightarrow> (Err e, pm, d)
                    | Panic \<Rightarrow> (Panic, pm, d)))))"

section \<open>The operation extractor\<close>

record extractor =
  ex_local :: address
  ex_proposer :: address
  ex_nodepool :: nodepool
  ex_opsh :: "hash list"

definition NewOperationsExtractor :: "address \<Rightarrow> address \<Rightarrow> nodepool \<Rightarrow> hash list \<Rightarrow> extractor" where
  "NewOperationsExtractor lo pr np opsh = \<lparr>ex_local = lo, ex_proposer = pr, ex_nodepool = np, ex_opsh = opsh\<rparr>"

text \<open>The maps from the text of a fact hash to its operation, the last one winning.\<close>

fun op_map :: "lib \<Rightarrow> operation option list \<Rightarrow> (string \<rightharpoonup> operation) \<Rightarrow> (string \<rightharpoonup> operation) res" where
  "op_map L [] m = Ok m"
| "op_map L (op # ops) m =
     (case op of None \<Rightarrow> Panic | Some op \<Rightarrow> bind_res (Operation_FactHash op) (\<lambda>h. op_map L ops (m(Hash_String L h \<mapsto> op))))"

definition extractFromStorage :: "lib \<Rightarrow> ('d, 'a) storage_db \<Rightarrow> extractor \<Rightarrow> 'd \<Rightarrow> ((string \<rightharpoonup> operation) \<times> hash list) res" where
  "extractFromStorage L D se d =
     bind_res (db_StagedOperationsByFact D d (ex_opsh se)) (\<lambda>ops.
     bind_res (op_map L ops Map.empty) (\<lambda>extracted.
       Ok (extracted, if card (dom extracted) \<noteq> length (ex_opsh se) then filter (\<lambda>h. extracted (Hash_String L h) = None) (ex_opsh se) else [])))"

definition extractFromChannel ::
  "lib \<Rightarrow> (nat \<Rightarrow> bytes) \<Rightarrow> ('d, 'a) storage_db \<Rightarrow> extractor \<Rightarrow> hash list \<Rightarrow> 'd \<Rightarrow> (string \<rightharpoonup> operation) res \<times> 'd" where
  "extractFromChannel L ulid D se notFounds d =
     (if Address_Equal L (ex_local se) (Some (ex_proposer se)) then (Err (plain ''proposer is local, but it does not have operations. Hmmm''), d)
      else
        case Nodepool_Node (ex_nodepool se) (ex_proposer se) of
          None \<Rightarrow> (Err (plain ''proposer is not in nodes: %v''), d)
        | Some (_, None) \<Rightarrow> (Err (plain ''proposer is dead: %v''), d)
        | Some (_, Some ch) \<Rightarrow>
            (case ch_StagedOperations ch notFounds of
               Err e \<Rightarrow> (Err e, d)
             | Panic \<Rightarrow> (Panic, d)
             | Ok received \<Rightarrow>
                 (case db_NewOperations D L ulid d received of
                    (Panic, d) \<Rightarrow> (Panic, d)
                  | (Err e, d) \<Rightarrow> (if \<not> error_Is e DuplicatedError then Err e else op_map L received Map.empty, d)
                  | (Ok _, d) \<Rightarrow> (op_map L received Map.empty, d))))"

fun pick_ops :: "lib \<Rightarrow> (string \<rightharpoonup> operation) \<Rightarrow> hash list \<Rightarrow> operation list res" where
  "pick_ops L l [] = Ok []"
| "pick_ops L l (h # hs) =
     (case l (Hash_String L h) of
        None \<Rightarrow> Err (plain ''some operation is missing, %v'')
      | Some j \<Rightarrow> bind_res (pick_ops L l hs) (\<lambda>ops. Ok (j # ops)))"

definition OperationsExtractor_Extract ::
  "lib \<Rightarrow> (nat \<Rightarrow> bytes) \<Rightarrow> ('d, 'a) storage_db \<Rightarrow> extractor \<Rightarrow> 'd \<Rightarrow> operation list res \<times> 'd" where
  "OperationsExtractor_Extract L ulid D se d =
     (case extractFromStorage L D se d of
        Err e \<Rightarrow> (Err e, d)
      | Panic \<Rightarrow> (Panic, d)
      | Ok (l, notFounds) \<Rightarrow>
          (case (if length notFounds > 0
                 then (case extractFromChannel L ulid D se notFounds d of (i, d) \<Rightarrow> (bind_res i (\<lambda>i. Ok (l ++ i)), d))
                 else (Ok l, d)) of
             (Err e, d) \<Rightarrow> (Err e, d)
           | (Panic, d) \<Rightarrow> (Panic, d)
           | (Ok l, d) \<Rightarrow>
               (if card (dom l) < length (ex_opsh se) then Err (plain ''some operations are missing, %d'')
                else pick_ops L l (ex_opsh se), d)))"

section \<open>The operations of a proposal\<close>

text \<open>The maker as a client of the contract of staged operations.\<close>

locale maker_store = staging_store D inv staged facts
  for D :: "('d, maker_state) storage_db" and inv :: "'d \<Rightarrow> bool" and staged :: "'d \<Rightarrow> operation list" and facts :: "'d \<Rightarrow> bytes set"
begin

lemma callback_runs:
  assumes "base58_codec L" and "inv d" and "length ops < unat m" and "set q \<subseteq> set (staged d)" and "distinct (map opkey q)"
    and "founds = Hash_String L ` set ops" and "opkey ` set q \<inter> Hash_Bytes ` set ops = {}"
  shows "\<exists>founds' ops' us'. op_iter (maker_callback L D d m) q (founds, ops, us) = (Ok (), founds', ops', us') \<and>
    map Hash_Bytes ops' = map Hash_Bytes ops @ take (unat m - length ops) (filter (\<lambda>k. k \<notin> facts d) (map opkey q)) \<and>
    (\<forall>h \<in> set us'. h \<in> set us \<or> Hash_Bytes h \<in> facts d)"
  using assms(3-7)
proof (induction q arbitrary: founds ops us)
  case (Cons op q)
  have m64: "unat m < 2 ^ 64" using unsigned_less [of m, where ?'a = nat] by simp
  obtain h where h: "Operation_FactHash op = Ok h" using staged_hash [OF assms(2)] Cons.prems(2) by auto
  then have k: "opkey op = Hash_Bytes h" by (simp add: opkey_def)
  have new: "Hash_String L h \<notin> founds"
    using Cons.prems(4,5) k Hash_String_inject [OF assms(1)] by (auto simp: image_iff)
  have sub: "set q \<subseteq> set (staged d)" "distinct (map opkey q)" "opkey op \<notin> opkey ` set q" "opkey ` set q \<inter> Hash_Bytes ` set ops = {}"
    using Cons.prems(2,3,5) by auto
  show ?case
  proof (cases "Hash_Bytes h \<in> facts d")
    case True
    from Cons.IH [OF Cons.prems(1) sub(1,2) Cons.prems(4) sub(4), of "us @ [h]"]
    show ?thesis using True by (auto simp: maker_callback_def h new has_fact [OF assms(2)] k)
  next
    case fresh: False
    show ?thesis
    proof (cases "Suc (length ops) = unat m")
      case True
      then have "of_nat (length (ops @ [h])) = m" using m64 by (simp add: word_unat_eq_iff unat_of_nat)
      moreover have "unat m - length ops = Suc 0" using True by simp
      ultimately show ?thesis using fresh by (simp add: maker_callback_def h new has_fact [OF assms(2)] k)
    next
      case False
      then have l: "length (ops @ [h]) < unat m" using Cons.prems(1) by simp
      then have "unat (of_nat (length (ops @ [h])) :: u64) = length (ops @ [h])" using m64 by (subst unat_of_nat) (rule mod_less, simp)
      with l have n: "of_nat (length (ops @ [h])) \<noteq> m" by auto
      have f: "insert (Hash_String L h) founds = Hash_String L ` set (ops @ [h])" using Cons.prems(4) by simp
      have d: "opkey ` set q \<inter> Hash_Bytes ` set (ops @ [h]) = {}" using sub(3,4) k by auto
      have t: "unat m - length ops = Suc (unat m - Suc (length ops))" using Cons.prems(1) by simp
      from Cons.IH [OF l sub(1,2) f d, of us] show ?thesis
        using fresh n by (auto simp: maker_callback_def h new has_fact [OF assms(2)] k t)
    qed
  qed
qed simp

text \<open>The maker takes the first staged operations that are not in a block, in their order, up to the limit, and unstages only operations that are in a block.\<close>

lemma operations_taken:
  assumes "base58_codec L" and "inv d" and "1 \<le> lp_maxOperationsInProposal (pm_policy pm)"
  shows "\<exists>ops d' us. ProposalMaker_operations L D pm d = (Ok ops, d') \<and> inv d' \<and>
    map Hash_Bytes ops = take (unat (lp_maxOperationsInProposal (pm_policy pm))) (filter (\<lambda>k. k \<notin> facts d) (map opkey (staged d))) \<and>
    facts d' = facts d \<and> us \<subseteq> facts d \<and> staged d' = filter (\<lambda>op. opkey op \<notin> us) (staged d)"
proof -
  let ?m = "lp_maxOperationsInProposal (pm_policy pm)"
  have m: "0 < unat ?m" using assms(3) by (simp add: word_le_nat_alt)
  obtain fs ops us where r: "op_iter (maker_callback L D d ?m) (staged d) ({}, [], []) = (Ok (), fs, ops, us)"
    "map Hash_Bytes ops = take (unat ?m) (filter (\<lambda>k. k \<notin> facts d) (map opkey (staged d)))" "\<forall>h \<in> set us. Hash_Bytes h \<in> facts d"
    using callback_runs [OF assms(1,2), of "[]" ?m "staged d" "{}" "[]"] m staged_unique [OF assms(2)] by auto
  obtain d' where d': "db_UnstagedOperations D d us = (Ok (), d')" "inv d'" "facts d' = facts d"
    "staged d' = filter (\<lambda>op. opkey op \<notin> Hash_Bytes ` set us) (staged d)" using unstage [OF assms(2)] by blast
  show ?thesis
  proof (cases "us = []")
    case True
    then show ?thesis using r assms(2) by (intro exI [of _ ops] exI [of _ d] exI [of _ "{}"]) (simp add: ProposalMaker_operations_def iterate [OF assms(2)])
  next
    case False
    then show ?thesis using r d'
      by (intro exI [of _ ops] exI [of _ d'] exI [of _ "Hash_Bytes ` set us"]) (auto simp: ProposalMaker_operations_def iterate [OF assms(2)])
  qed
qed

end

interpretation leveldb_maker: maker_store "leveldb_storage :: ('s database, maker_state) storage_db" leveldb_inv staged_operations known
  by unfold_locales

section \<open>Extracted operations\<close>

definition keyed :: "lib \<Rightarrow> (string \<rightharpoonup> operation) \<Rightarrow> bool" where
  "keyed L m \<longleftrightarrow> (\<forall>s op. m s = Some op \<longrightarrow> (\<exists>h. Operation_FactHash op = Ok h \<and> s = Hash_String L h))"

lemma op_map_keyed: "op_map L ops m = Ok m' \<Longrightarrow> keyed L m \<Longrightarrow> keyed L m'"
proof (induction ops arbitrary: m)
  case (Cons x ops)
  then obtain op h where o: "x = Some op" "Operation_FactHash op = Ok h" "op_map L ops (m(Hash_String L h \<mapsto> op)) = Ok m'"
    by (auto simp: bind_res_Ok_iff split: option.splits)
  have "keyed L (m(Hash_String L h \<mapsto> op))" using Cons.prems(2) o(2) by (auto simp: keyed_def)
  with Cons.IH o(3) show ?case by blast
qed simp

lemma pick_ops_Ok:
  assumes "pick_ops L l hs = Ok ops"
  shows "length ops = length hs" and "i < length hs \<Longrightarrow> l (Hash_String L (hs ! i)) = Some (ops ! i)"
proof -
  have "length ops = length hs \<and> (\<forall>i < length hs. l (Hash_String L (hs ! i)) = Some (ops ! i))"
    using assms
  proof (induction hs arbitrary: ops)
    case (Cons h hs)
    then obtain j rest where "l (Hash_String L h) = Some j" "pick_ops L l hs = Ok rest" "ops = j # rest"
      by (auto simp: bind_res_Ok_iff split: option.splits)
    with Cons.IH show ?case by (auto simp: nth_Cons split: nat.splits)
  qed simp
  then show "length ops = length hs" "i < length hs \<Longrightarrow> l (Hash_String L (hs ! i)) = Some (ops ! i)" by auto
qed

lemma extractFromStorage_map:
  assumes "extractFromStorage L D se d = Ok (l, nf)"
  shows "keyed L l"
proof -
  obtain xs where "op_map L xs Map.empty = Ok l" using assms by (auto simp: extractFromStorage_def bind_res_Ok_iff)
  from op_map_keyed [OF this] show ?thesis by (simp add: keyed_def)
qed

lemma extractFromChannel_map:
  assumes "extractFromChannel L ulid D se nf d = (Ok i, d')"
  shows "keyed L i"
proof -
  obtain n ch where "Nodepool_Node (ex_nodepool se) (ex_proposer se) = Some (n, Some ch)"
    using assms by (auto simp: extractFromChannel_def split: if_splits option.splits)
  with assms obtain xs where "op_map L xs Map.empty = Ok i"
    by (auto simp: extractFromChannel_def split: if_splits res.splits prod.splits)
  from op_map_keyed [OF this] show ?thesis by (simp add: keyed_def)
qed

lemma Extract_keyed:
  assumes "OperationsExtractor_Extract L ulid D se d = (Ok ops, d')"
  shows "\<exists>l. keyed L l \<and> pick_ops L l (ex_opsh se) = Ok ops"
proof -
  obtain l nf where s: "extractFromStorage L D se d = Ok (l, nf)"
    using assms by (cases "extractFromStorage L D se d") (auto simp: OperationsExtractor_Extract_def)
  note k = extractFromStorage_map [OF s]
  show ?thesis
  proof (cases "nf = []")
    case True
    with assms s k show ?thesis by (auto simp: OperationsExtractor_Extract_def split: if_splits)
  next
    case False
    obtain r e where e: "extractFromChannel L ulid D se nf d = (r, e)" by fastforce
    with assms s False obtain i where i: "r = Ok i" "pick_ops L (l ++ i) (ex_opsh se) = Ok ops"
      by (cases r) (auto simp: OperationsExtractor_Extract_def split: if_splits)
    have "keyed L i" using extractFromChannel_map [of L ulid D se nf d i e] e i(1) by simp
    with k have "keyed L (l ++ i)" by (auto simp: keyed_def map_add_def split: option.splits)
    with i(2) show ?thesis by blast
  qed
qed

lemma op_map_lookup:
  assumes "base58_codec L" and "\<forall>op \<in> set ops. \<exists>h. Operation_FactHash op = Ok h"
  shows "\<exists>m'. op_map L (map Some ops) m = Ok m' \<and> dom m' = dom m \<union> (\<lambda>op. Hash_String L (ok_val (Operation_FactHash op))) ` set ops"
  using assms(2)
proof (induction ops arbitrary: m)
  case (Cons op ops)
  then obtain h where h: "Operation_FactHash op = Ok h" by auto
  obtain m' where "op_map L (map Some ops) (m(Hash_String L h \<mapsto> op)) = Ok m'"
    "dom m' = dom (m(Hash_String L h \<mapsto> op)) \<union> (\<lambda>op. Hash_String L (ok_val (Operation_FactHash op))) ` set ops"
    using Cons.IH Cons.prems by (metis list.set_intros(2))
  with h show ?case by auto
qed simp

lemma pick_ops_all: "\<forall>h \<in> set hs. Hash_String L h \<in> dom l \<Longrightarrow> \<exists>ops. pick_ops L l hs = Ok ops"
  by (induction hs) auto

context staging_store
begin

text \<open>When every operation of the proposal is staged, no remote node is asked and the database is left alone.\<close>

lemma extract_staged:
  assumes "base58_codec L" and "inv d" and "distinct (map Hash_Bytes (ex_opsh se))" and "\<forall>h \<in> set (ex_opsh se). \<exists>op \<in> set (staged d). opkey op = Hash_Bytes h"
  shows "\<exists>ops. OperationsExtractor_Extract L ulid D se d = (Ok ops, d)"
proof -
  let ?hs = "ex_opsh se" and ?key = "\<lambda>op. Hash_String L (ok_val (Operation_FactHash op))"
  let ?ops = "concat (map (\<lambda>h. filter (\<lambda>op. opkey op = Hash_Bytes h) (staged d)) ?hs)"
  have "\<forall>op \<in> set ?ops. \<exists>h. Operation_FactHash op = Ok h" using staged_hash [OF assms(2)] by auto
  from op_map_lookup [OF assms(1) this, of Map.empty] obtain m where m: "op_map L (map Some ?ops) Map.empty = Ok m" "dom m = ?key ` set ?ops" by auto
  have key: "?key op = Hash_String L h" if "opkey op = Hash_Bytes h" for op h
    using that Hash_String_inject [OF assms(1)] by (simp add: opkey_def)
  have dom: "dom m = Hash_String L ` set ?hs"
  proof
    show "dom m \<subseteq> Hash_String L ` set ?hs" using m(2) key by auto
    show "Hash_String L ` set ?hs \<subseteq> dom m"
    proof
      fix s assume "s \<in> Hash_String L ` set ?hs"
      then obtain h op where h: "h \<in> set ?hs" "s = Hash_String L h" "op \<in> set (staged d)" "opkey op = Hash_Bytes h" using assms(4) by blast
      then have "op \<in> set ?ops" by auto
      with m(2) key [OF h(4)] h(2) show "s \<in> dom m" by (metis image_eqI)
    qed
  qed
  have "inj_on (Hash_String L) (set ?hs)" "distinct ?hs"
    using assms(3) Hash_String_inject [OF assms(1)] by (auto simp: distinct_map inj_on_def)
  then have card: "card (dom m) = length ?hs" unfolding dom by (simp add: card_image distinct_card)
  obtain ops where ops: "pick_ops L m ?hs = Ok ops" using pick_ops_all [of ?hs L m] dom by auto
  have "extractFromStorage L D se d = Ok (m, [])" using m card by (simp add: extractFromStorage_def by_fact [OF assms(2)])
  then show ?thesis using ops card by (simp add: OperationsExtractor_Extract_def)
qed

end

section \<open>Properties\<close>


text \<open>
  The operations of a proposal. What the extractor returns are, in the order of the proposal, operations with exactly the fact hashes that were asked for,
  wherever they came from; and when all of them are staged in the LevelDB database it returns them without asking a remote node and without a
  change of the database.
\<close>

theorem extracted_operations_match:
  assumes "base58_codec L" and "leveldb_inv d"
  shows "(\<forall>ops e. OperationsExtractor_Extract L ulid leveldb_storage se d = (Ok ops, e) \<longrightarrow>
      length ops = length (ex_opsh se) \<and> (\<forall>i < length ops. \<exists>h. Operation_FactHash (ops ! i) = Ok h \<and> Hash_Bytes h = Hash_Bytes (ex_opsh se ! i))) \<and>
    (distinct (map Hash_Bytes (ex_opsh se)) \<and> (\<forall>h \<in> set (ex_opsh se). \<exists>op \<in> set (staged_operations d). opkey op = Hash_Bytes h) \<longrightarrow>
      (\<exists>ops. OperationsExtractor_Extract L ulid leveldb_storage se d = (Ok ops, d)))"
proof (intro conjI allI impI)
  fix ops e assume "OperationsExtractor_Extract L ulid leveldb_storage se d = (Ok ops, e)"
  from Extract_keyed [OF this] obtain l where l: "keyed L l" "pick_ops L l (ex_opsh se) = Ok ops" by blast
  note p = pick_ops_Ok [OF l(2)]
  show "length ops = length (ex_opsh se)" by (rule p(1))
  fix i assume "i < length ops"
  with p have "l (Hash_String L (ex_opsh se ! i)) = Some (ops ! i)" by simp
  with l(1) Hash_String_inject [OF assms(1)] show "\<exists>h. Operation_FactHash (ops ! i) = Ok h \<and> Hash_Bytes h = Hash_Bytes (ex_opsh se ! i)"
    unfolding keyed_def by metis
qed (use leveldb.extract_staged [OF assms] in blast)

section \<open>Witnesses\<close>

lemma sample_one_staged: "\<exists>d :: alist_store database. leveldb_inv d \<and> staged_operations d = [op_of [3]] \<and> known d = {}"
proof -
  have u: "ulids_ok (\<lambda>_. replicate 16 9) (length [op_of [3]])" by (simp add: ulids_ok_def)
  obtain d :: "alist_store database" where d: "\<forall>k. \<not> queue_key k \<longrightarrow> content d k = content (sample_db []) k" "staging d [(replicate 16 9, op_of [3])]"
    using NewOperations_staging [OF sample_base58_codec sample_staging_empty _ u] by (auto simp: op_of_stageable sample_empty op_of_key)
  have "proposals_readable d" using d(1) by (auto simp: proposals_readable_def queue_key_simps sample_empty)
  moreover have "known d = {}" using d(1) by (auto simp: known_def queue_key_simps sample_empty)
  ultimately show ?thesis using staged_operations_queue [OF d(2)] d(2) by (auto simp: leveldb_inv_def)
qed


theorem extracted_operations_match_witness:
  "\<exists>(d :: alist_store database) ops. OperationsExtractor_Extract sample_lib sample_ulid leveldb_storage
     (NewOperationsExtractor (NewStringAddress ''node0'') (NewStringAddress ''node1'') sample_nodepool [NewBytes [3]]) d = (Ok ops, d)"
proof -
  obtain d :: "alist_store database" where d: "leveldb_inv d" "staged_operations d = [op_of [3]]" using sample_one_staged by blast
  show ?thesis
    using extracted_operations_match [OF sample_base58_codec d(1), of sample_ulid
        "NewOperationsExtractor (NewStringAddress ''node0'') (NewStringAddress ''node1'') sample_nodepool [NewBytes [3]]"] d(2)
    by (auto simp: NewOperationsExtractor_def op_of_key NewBytes_def)
qed

end
