(* ===== verification/Mitum_States.thy ===== *)
theory Mitum_States
  imports Mitum_VoteproofChecker
begin

text \<open>
  The node's states (\<^verbatim>\<open>src/states/basic/states.go\<close>): it receives seals, counts ballots, follows voteproofs and switches between the states of a
  node. The states themselves are behind the interface \<open>State\<close> (\<^verbatim>\<open>state.go\<close>); those modelled here are the stopped, the empty and the booting state. A
  channel that goroutines send to is the list of what was sent and not yet received; the loop \<open>watch\<close> receives
  any of it. What a state implementation promises about the last voteproof is the locale \<open>keeps_voteproof\<close>. The lemmas: the last
  voteproof of a node only moves forward, what a ballot brings about, where booting leads, and what a draw does.
\<close>

section \<open>State of the node\<close>

text \<open>The part of \<open>handover.go\<close> that the states ask: is another node with the same address running, and may this one take over?\<close>

record handover =
  hd_uh :: bool
  hd_on :: "channel option"
  hd_ir :: bool
  hd_g :: bool

definition handoverState_setUnderHandover :: "bool \<Rightarrow> handover \<Rightarrow> handover" where
  "handoverState_setUnderHandover b ho = (if hd_g ho then ho else ho\<lparr>hd_uh := b\<rparr>)"

definition handoverState_setOldNode :: "channel option \<Rightarrow> handover \<Rightarrow> handover" where
  "handoverState_setOldNode on ho = (if hd_g ho then ho else ho\<lparr>hd_on := on\<rparr>)"

definition handoverState_setIsReady :: "bool \<Rightarrow> handover \<Rightarrow> handover" where
  "handoverState_setIsReady b ho = (if hd_g ho then ho else ho\<lparr>hd_ir := b\<rparr>)"

text \<open>\<open>reset\<close> leaves the state locked; \<open>unlock\<close> is the function it returns.\<close>

definition handoverState_reset :: "handover \<Rightarrow> handover" where
  "handoverState_reset ho = ho\<lparr>hd_uh := False, hd_on := None, hd_ir := False, hd_g := True\<rparr>"

definition handoverState_unlock :: "handover \<Rightarrow> handover" where
  "handoverState_unlock ho = ho\<lparr>hd_g := False\<rparr>"

definition Handover_IsReady :: "handover \<Rightarrow> bool" where
  "Handover_IsReady ho \<longleftrightarrow> hd_uh ho \<and> hd_ir ho"

text \<open>\<open>ss_priv\<close> is what the state implementations keep for themselves.\<close>

record ('d, 'p) states =
  ss_database :: 'd
  ss_policy :: local_policy
  ss_nodepool :: nodepool
  ss_suffrage :: suffrage
  ss_state :: state
  ss_statech :: "sctx list"
  ss_voteproofch :: "vproof list"
  ss_proposalch :: "ballot list"
  ss_ballotbox :: ballotbox
  ss_lvp :: "vproof option"
  ss_livp :: "vproof option"
  ss_isNoneSuffrageNode :: bool
  ss_hd :: "handover option"
  ss_exiting :: "state \<Rightarrow> bool"
  ss_outbox :: "seal list"
  ss_sealch :: "seal list"
  ss_priv :: 'p

text \<open>The surroundings: map order, time, tries against the database, \<open>suffragesFunc\<close> and \<open>thresholdFunc\<close> of the ballot box, new ULIDs.\<close>

record senv =
  se_order :: "string list \<Rightarrow> string list"
  se_now :: gotime
  se_tries :: nat
  se_suffrages :: "address list"
  se_threshold :: threshold
  se_ulid :: "nat \<Rightarrow> bytes"

section \<open>The interface of a state\<close>

text \<open>\<open>Enter\<close> and \<open>Exit\<close> return a function to be called after the switch, nil, or an error.\<close>

datatype 's entry = Callback "('s \<Rightarrow> outcome \<times> 's) option" | Switch sctx

record 's state_if =
  if_Enter :: "sctx \<Rightarrow> 's \<Rightarrow> 's entry res \<times> 's"
  if_Exit :: "sctx \<Rightarrow> 's \<Rightarrow> 's entry res \<times> 's"
  if_ProcessProposal :: "ballot \<Rightarrow> 's \<Rightarrow> outcome \<times> 's"
  if_ProcessVoteproof :: "vproof \<Rightarrow> 's \<Rightarrow> outcome \<times> 's"

type_synonym 's implementations = "state \<Rightarrow> 's state_if option"

definition opt_set :: "voteproof option \<Rightarrow> vproof option \<Rightarrow> vproof option" where
  "opt_set v old = (case v of None \<Rightarrow> old | Some v \<Rightarrow> Some (VP v))"

definition last_voteproofs :: "('d, 'a) storage_db \<Rightarrow> ('d, 'p) states \<Rightarrow> unit res \<times> ('d, 'p) states" where
  "last_voteproofs D s =
     (case bind_res (db_LastVoteproof D (ss_database s) StageACCEPT) (\<lambda>a. bind_res (db_LastVoteproof D (ss_database s) StageINIT) (\<lambda>i. Ok (a, i))) of
        Ok (a, i) \<Rightarrow> (Ok (), s\<lparr>ss_lvp := opt_set a (ss_lvp s), ss_livp := opt_set i (ss_livp s)\<rparr>)
      | Err e \<Rightarrow> (Err e, s)
      | Panic \<Rightarrow> (Panic, s))"

definition NewStates ::
  "('d, 'a) storage_db \<Rightarrow> 'd \<Rightarrow> local_policy \<Rightarrow> nodepool \<Rightarrow> suffrage \<Rightarrow> ballotbox \<Rightarrow> handover option \<Rightarrow> 'p \<Rightarrow> unit res \<times> ('d, 'p) states" where
  "NewStates D d lp np S bb ho p =
     last_voteproofs D
       \<lparr>ss_database = d, ss_policy = lp, ss_nodepool = np, ss_suffrage = S, ss_state = StateStopped, ss_statech = [], ss_voteproofch = [],
        ss_proposalch = [], ss_ballotbox = bb, ss_lvp = None, ss_livp = None, ss_isNoneSuffrageNode = (\<not> su_IsInside S (local_address np)),
        ss_hd = ho, ss_exiting = (\<lambda>_. False), ss_outbox = [], ss_sealch = [], ss_priv = p\<rparr>"

definition setState :: "state \<Rightarrow> ('d, 'p) states \<Rightarrow> ('d, 'p) states" where
  "setState st s = s\<lparr>ss_state := st\<rparr>"

definition States_SwitchState :: "sctx \<Rightarrow> ('d, 'p) states \<Rightarrow> unit res \<times> ('d, 'p) states" where
  "States_SwitchState c s = (case sctx_IsValid c of Ok _ \<Rightarrow> (Ok (), s\<lparr>ss_statech := ss_statech s @ [c]\<rparr>) | r \<Rightarrow> (r, s))"

definition States_NewVoteproof :: "vproof \<Rightarrow> ('d, 'p) states \<Rightarrow> ('d, 'p) states" where
  "States_NewVoteproof v s = s\<lparr>ss_voteproofch := ss_voteproofch s @ [v]\<rparr>"

definition States_NewProposal :: "ballot \<Rightarrow> ('d, 'p) states \<Rightarrow> ('d, 'p) states" where
  "States_NewProposal p s = s\<lparr>ss_proposalch := ss_proposalch s @ [p]\<rparr>"

text \<open>A seal to the other suffrage nodes and, if wanted, to the node itself.\<close>

definition States_broadcast :: "seal \<Rightarrow> bool \<Rightarrow> ('d, 'p) states \<Rightarrow> ('d, 'p) states" where
  "States_broadcast sl toLocal s =
     s\<lparr>ss_sealch := (if toLocal then ss_sealch s @ [sl] else ss_sealch s), ss_outbox := ss_outbox s @ [sl]\<rparr>"

definition BroadcastBallot :: "ballot \<Rightarrow> bool \<Rightarrow> ('d, 'p) states \<Rightarrow> ('d, 'p) states" where
  "BroadcastBallot blt toLocal s = States_broadcast (SBallot blt) toLocal s"

definition broadcastOperationSealToSuffrageNodes :: "operation_seal \<Rightarrow> ('d, 'p) states \<Rightarrow> ('d, 'p) states" where
  "broadcastOperationSealToSuffrageNodes sl s =
     (if length (su_Nodes (ss_suffrage s)) < 1 then s else States_broadcast (SOperations sl) False s)"

definition vproof_ID :: "lib \<Rightarrow> vproof \<Rightarrow> string res" where
  "vproof_ID L v = bind_res (vproof_base v) (Voteproof_ID L)"

definition SetLastVoteproof :: "lib \<Rightarrow> vproof \<Rightarrow> ('d, 'p) states \<Rightarrow> bool res \<times> ('d, 'p) states" where
  "SetLastVoteproof L v s =
     (case (case ss_lvp s of None \<Rightarrow> Ok True | Some l \<Rightarrow> bind_res (vproof_Compare (Some v) (Some l)) (\<lambda>c. Ok (\<not> c < 1))) of
        Err e \<Rightarrow> (Err e, s)
      | Panic \<Rightarrow> (Panic, s)
      | Ok False \<Rightarrow> (Ok False, s)
      | Ok True \<Rightarrow>
          (case vproof_base v of
             Ok vp \<Rightarrow>
               let s = s\<lparr>ss_lvp := Some v, ss_livp := (if vp_stage vp = StageINIT then Some v else ss_livp s)\<rparr>
               in (bind_res (vproof_ID L v) (\<lambda>_. Ok True), s)
           | Err e \<Rightarrow> (Err e, s\<lparr>ss_lvp := Some v\<rparr>)
           | Panic \<Rightarrow> (Panic, s\<lparr>ss_lvp := Some v\<rparr>)))"

definition States_resetBallotbox :: "('d, 'a) storage_db \<Rightarrow> ('d, 'p) states \<Rightarrow> unit res \<times> ('d, 'p) states" where
  "States_resetBallotbox D s =
     (case last_voteproofs D s of
        (Ok _, s) \<Rightarrow> (Ok (), s\<lparr>ss_ballotbox := Ballotbox_Empty (ss_ballotbox s)\<rparr>)
      | r \<Rightarrow> r)"

definition underHandover :: "('d, 'p) states \<Rightarrow> bool" where
  "underHandover s \<longleftrightarrow> (case ss_hd s of None \<Rightarrow> False | Some ho \<Rightarrow> hd_uh ho)"

definition isHandoverReady :: "('d, 'p) states \<Rightarrow> bool" where
  "isHandoverReady s \<longleftrightarrow> (case ss_hd s of None \<Rightarrow> False | Some ho \<Rightarrow> Handover_IsReady ho)"

section \<open>Incoming seals\<close>

definition proposer_is_local :: "lib \<Rightarrow> ballot \<Rightarrow> ('d, 'p) states \<Rightarrow> bool res" where
  "proposer_is_local L p s =
     bind_res (Proposal_Fact p) (\<lambda>f.
       case proposer f of None \<Rightarrow> Panic | Some a \<Rightarrow> Ok (Address_Equal L a (Some (local_address (ss_nodepool s)))))"

definition States_validateProposal :: "lib \<Rightarrow> ('d, 'a) storage_db \<Rightarrow> ballot \<Rightarrow> ('d, 'p) states \<Rightarrow> unit res \<times> ('d, 'p) states" where
  "States_validateProposal L D p s =
     (case bind_res (opt_base (ss_livp s)) (\<lambda>livp. bind_res (NewProposalValidationChecker (ss_suffrage s) (ss_nodepool s) p livp) (\<lambda>pvc.
             bind_res (proposer_is_local L p s) (\<lambda>mine. Ok (pvc, mine)))) of
        Err e \<Rightarrow> (Err e, s)
      | Panic \<Rightarrow> (Panic, s)
      | Ok (pvc, mine) \<Rightarrow>
          (case Checker_run
             (if mine then [ProposalChecker_SaveProposal D pvc, \<lambda>d. (ProposalChecker_IsOlder D d pvc, d)]
              else [ProposalChecker_IsKnown D pvc, \<lambda>d. (ProposalChecker_CheckSigning pvc, d), ProposalChecker_SaveProposal D pvc,
                    \<lambda>d. (ProposalChecker_IsOlder D d pvc, d)]) (ss_database s) of
             (Ok _, d) \<Rightarrow> (Ok (), s\<lparr>ss_database := d\<rparr>)
           | (Err e, d) \<Rightarrow> (if error_Is e KnownSealError \<or> error_Is e IgnoreError then Ok () else Err e, s\<lparr>ss_database := d\<rparr>)
           | (Panic, d) \<Rightarrow> (Panic, s\<lparr>ss_database := d\<rparr>)))"

definition States_validateBallot :: "ballot \<Rightarrow> ('d, 'p) states \<Rightarrow> unit res" where
  "States_validateBallot blt s = Checker_Check [states_CheckWithLastVoteproof (ss_lvp s) blt]"

definition States_voteBallot :: "lib \<Rightarrow> senv \<Rightarrow> ballot \<Rightarrow> ('d, 'p) states \<Rightarrow> voteproof option res \<times> ('d, 'p) states" where
  "States_voteBallot L ev blt s =
     (case Ballot_RawFact blt of
        None \<Rightarrow> (Panic, s)
      | Some f \<Rightarrow>
          if \<not> Stage_CanVote (Fact_Stage f) then (Ok None, s)
          else
            (case Ballotbox_Vote L (se_order ev) (se_now ev) (se_suffrages ev) (se_threshold ev) (ss_ballotbox s) blt of
               Err e \<Rightarrow> (Err (FmtErr ''failed to vote'' (Some e)), s)
             | Panic \<Rightarrow> (Panic, s)
             | Ok (vp, bb) \<Rightarrow>
                 (Ok (if \<not> Voteproof_IsFinished vp \<or> vp_closed vp then None else Some vp), s\<lparr>ss_ballotbox := bb\<rparr>)))"

text \<open>The voteproof a ballot brings along.\<close>

definition ballot_voteproof :: "ballot \<Rightarrow> vproof option res" where
  "ballot_voteproof blt =
     (case bl_kind blt of
        KINIT \<Rightarrow>
          (case Ballot_RawFact blt of
             None \<Rightarrow> Panic
           | Some f \<Rightarrow>
               if Fact_Round f > 0 then Ok (Some (VPSet (NewVoteproofSet (bl_baseVoteproof blt) (Ballot_ACCEPTVoteproof blt))))
               else Ok (map_option VP (Ballot_ACCEPTVoteproof blt)))
      | _ \<Rightarrow> Ok (map_option VP (bl_baseVoteproof blt)))"

definition checkBallotVoteproof :: "lib \<Rightarrow> ballot \<Rightarrow> ('d, 'p) states \<Rightarrow> unit res \<times> ('d, 'p) states" where
  "checkBallotVoteproof L blt s =
     (if ss_state s \<notin> {StateJoining, StateConsensus, StateSyncing} then (Ok (), s)
      else case Ballot_Node blt of
        None \<Rightarrow> (Panic, s)
      | Some a \<Rightarrow>
          if Address_Equal L a (Some (local_address (ss_nodepool s))) then (Ok (), s)
          else
            (case bind_res (ballot_voteproof blt) (\<lambda>v. case v of None \<Rightarrow> Panic | Some v \<Rightarrow> bind_res (vproof_ID L v) (\<lambda>_. Ok v)) of
               Err e \<Rightarrow> (Err e, s)
             | Panic \<Rightarrow> (Panic, s)
             | Ok v \<Rightarrow>
                 (case ss_lvp s of
                    None \<Rightarrow> (Ok (), States_NewVoteproof v s)
                  | Some l \<Rightarrow>
                      (case vproof_Compare (Some v) (Some l) of
                         Ok c \<Rightarrow> (Ok (), if c < 1 then s else States_NewVoteproof v s)
                       | Err e \<Rightarrow> (Err e, s)
                       | Panic \<Rightarrow> (Panic, s)))))"

definition newSealProposal :: "lib \<Rightarrow> ('d, 'a) storage_db \<Rightarrow> ballot \<Rightarrow> ('d, 'p) states \<Rightarrow> unit res \<times> ('d, 'p) states" where
  "newSealProposal L D p s =
     (if ss_isNoneSuffrageNode s then (Ok (), s)
      else case (if underHandover s then Ok False else proposer_is_local L p s) of
        Err e \<Rightarrow> (Err e, s)
      | Panic \<Rightarrow> (Panic, s)
      | Ok True \<Rightarrow> (Ok (), s)
      | Ok False \<Rightarrow>
          (case States_validateProposal L D p s of
             (Ok _, s) \<Rightarrow>
               (case checkBallotVoteproof L p s of
                  (Ok _, s) \<Rightarrow> (Ok (), States_NewProposal p s)
                | r \<Rightarrow> r)
           | r \<Rightarrow> r))"

definition newSealBallot :: "lib \<Rightarrow> senv \<Rightarrow> ballot \<Rightarrow> ('d, 'p) states \<Rightarrow> unit res \<times> ('d, 'p) states" where
  "newSealBallot L ev blt s =
     (if ss_isNoneSuffrageNode s then (Ok (), s)
      else case States_validateBallot blt s of
        Err e \<Rightarrow> (Err e, s)
      | Panic \<Rightarrow> (Panic, s)
      | Ok _ \<Rightarrow>
          (case States_voteBallot L ev blt s of
             (Err e, s) \<Rightarrow> (Err e, s)
           | (Panic, s) \<Rightarrow> (Panic, s)
           | (Ok None, s) \<Rightarrow> checkBallotVoteproof L blt s
           | (Ok (Some vp), s) \<Rightarrow> (Ok (), States_NewVoteproof (VP vp) s)))"

definition newOperationSeal :: "lib \<Rightarrow> senv \<Rightarrow> ('d, 'a) storage_db \<Rightarrow> operation_seal \<Rightarrow> ('d, 'p) states \<Rightarrow> unit res \<times> ('d, 'p) states" where
  "newOperationSeal L ev D sl s =
     (case db_NewOperationSeals D L (se_ulid ev) (ss_database s) [sl] of
        (r, d) \<Rightarrow>
          let s = s\<lparr>ss_database := d\<rparr>; s' = (if ss_isNoneSuffrageNode s then broadcastOperationSealToSuffrageNodes sl s else s) in
          case r of
            Ok _ \<Rightarrow> (Ok (), s')
          | Err e \<Rightarrow> if error_Is e DuplicatedError then (Ok (), s') else (Err e, s)
          | Panic \<Rightarrow> (Panic, s))"

definition States_NewSeal :: "lib \<Rightarrow> senv \<Rightarrow> ('d, 'a) storage_db \<Rightarrow> seal \<Rightarrow> ('d, 'p) states \<Rightarrow> unit res \<times> ('d, 'p) states" where
  "States_NewSeal L ev D sl s =
     (case sl of
        SBallot b \<Rightarrow> if bl_kind b = KProposal then newSealProposal L D b s else newSealBallot L ev b s
      | SOperations o' \<Rightarrow> newOperationSeal L ev D o' s)"

section \<open>Voteproofs and proposals\<close>

definition voteproof_checks ::
  "lib \<Rightarrow> senv \<Rightarrow> ('d, 'a) storage_db \<Rightarrow> vproof \<Rightarrow> ('d, 'p) states \<Rightarrow> unit res \<times> 'd" where
  "voteproof_checks L ev D v s =
     (let vc = NewVoteproofChecker (ss_suffrage s) (ss_nodepool s) (ss_lvp s) v in
      Checker_run [\<lambda>d. (VoteproofChecker_CheckPoint vc, d), \<lambda>d. (CheckINITVoteproofWithLocalBlock D vc d, d),
                   CheckACCEPTVoteproofProposal L (se_tries ev) D vc] (ss_database s))"

text \<open>What becomes of the error of the checks: \<open>Ok None\<close> goes on without one, \<open>Ok (Some c)\<close> with a switch to syncing.\<close>

definition voteproof_error :: "vproof \<Rightarrow> state \<Rightarrow> unit res \<Rightarrow> outcome" where
  "voteproof_error v st r =
     (case r of
        Ok _ \<Rightarrow> Ok None
      | Panic \<Rightarrow> Panic
      | Err e \<Rightarrow>
          if error_Is e SyncByVoteproofError then
            Ok (if st = StateSyncing then None
                else Some (sctx_SetError (Some e) (sctx_SetVoteproof (Some v) (NewStateSwitchContext st StateSyncing))))
          else if error_Is e IgnoreError then Ok None
          else Err e)"

definition processVoteproofInternal ::
  "lib \<Rightarrow> senv \<Rightarrow> ('d, 'a) storage_db \<Rightarrow> ('d, 'p) states implementations \<Rightarrow> vproof \<Rightarrow> ('d, 'p) states \<Rightarrow> outcome \<times> ('d, 'p) states" where
  "processVoteproofInternal L ev D sts v s =
     (case vproof_ID L v of
        Err e \<Rightarrow> (Err e, s)
      | Panic \<Rightarrow> (Panic, s)
      | Ok _ \<Rightarrow>
          (case voteproof_checks L ev D v s of
             (r, d) \<Rightarrow>
               let s = s\<lparr>ss_database := d\<rparr> in
               (case voteproof_error v (ss_state s) r of
                  Err e \<Rightarrow> (Err e, s)
                | Panic \<Rightarrow> (Panic, s)
                | Ok c \<Rightarrow>
                    (case (if ss_state s \<in> {StateJoining, StateConsensus, StateHandover} then SetLastVoteproof L v s else (Ok True, s)) of
                       (Err e, s) \<Rightarrow> (Err e, s)
                     | (Panic, s) \<Rightarrow> (Panic, s)
                     | (Ok False, s) \<Rightarrow> (Err (Errorf IgnoreError ''old voteproof received''), s)
                     | (Ok True, s) \<Rightarrow>
                         if c = None \<or> ss_state s = StateEmpty
                         then (case sts (ss_state s) of None \<Rightarrow> (Panic, s) | Some st \<Rightarrow> if_ProcessVoteproof st v s)
                         else (Ok c, s)))))"

definition processVoteproof ::
  "lib \<Rightarrow> senv \<Rightarrow> ('d, 'a) storage_db \<Rightarrow> ('d, 'p) states implementations \<Rightarrow> vproof \<Rightarrow> ('d, 'p) states \<Rightarrow> outcome \<times> ('d, 'p) states" where
  "processVoteproof L ev D sts v s =
     (case ss_lvp s of
        None \<Rightarrow> processVoteproofInternal L ev D sts v s
      | Some l \<Rightarrow>
          (case vproof_Compare (Some v) (Some l) of
             Err e \<Rightarrow> (Err e, s)
           | Panic \<Rightarrow> (Panic, s)
           | Ok c \<Rightarrow> if c < 1 then (Ok None, s) else processVoteproofInternal L ev D sts v s))"

definition States_processProposal ::
  "lib \<Rightarrow> ('d, 'a) storage_db \<Rightarrow> ('d, 'p) states implementations \<Rightarrow> ballot \<Rightarrow> ('d, 'p) states \<Rightarrow> outcome \<times> ('d, 'p) states" where
  "States_processProposal L D sts p s =
     (case bind_res (opt_base (ss_livp s)) (NewProposalValidationChecker (ss_suffrage s) (ss_nodepool s) p) of
        Err e \<Rightarrow> (Err e, s)
      | Panic \<Rightarrow> (Panic, s)
      | Ok pvc \<Rightarrow>
          (case Checker_Check [ProposalChecker_IsOlder D (ss_database s) pvc, ProposalChecker_IsWaiting pvc, ProposalChecker_IsProposer L pvc] of
             Err e \<Rightarrow> (Err (NError_Wrap IgnoreError e), s)
           | Panic \<Rightarrow> (Panic, s)
           | Ok _ \<Rightarrow> (case sts (ss_state s) of None \<Rightarrow> (Panic, s) | Some st \<Rightarrow> if_ProcessProposal st p s)))"

section \<open>Switching states\<close>

definition switchStateHandover :: "sctx \<Rightarrow> ('d, 'p) states \<Rightarrow> sctx res" where
  "switchStateHandover c s =
     (if sc_from c = StateHandover then Ok c
      else if sc_from c = sc_to c then Ok c
      else if sc_to c = StateBooting then Ok c
      else if \<not> underHandover s then (if sc_to c = StateHandover then Err (Errorf IgnoreError ''handover is not ready'') else Ok c)
      else if \<not> isHandoverReady s then Ok (sctx_SetToState StateSyncing c)
      else if sc_to c = StateConsensus then Ok (sctx_SetToState StateHandover c)
      else Ok c)"

text \<open>The function a state returned, called; another error than a switch is wrapped.\<close>

definition call_back :: "('s \<Rightarrow> outcome \<times> 's) option \<Rightarrow> 's \<Rightarrow> outcome \<times> 's" where
  "call_back f s =
     (case f of
        None \<Rightarrow> (Ok None, s)
      | Some f \<Rightarrow> (case f s of (r, s) \<Rightarrow> (map_err (\<lambda>e. FmtErr '''' (Some e)) r, s)))"

definition exitState :: "('d, 'p) states implementations \<Rightarrow> sctx \<Rightarrow> ('d, 'p) states \<Rightarrow> outcome \<times> ('d, 'p) states" where
  "exitState sts c s =
     (case sts (sc_from c) of
        None \<Rightarrow> (Panic, s)
      | Some st \<Rightarrow>
          (case if_Exit st c s of
             (Err e, s) \<Rightarrow> (Err e, s)
           | (Panic, s) \<Rightarrow> (Panic, s)
           | (Ok (Switch n), s) \<Rightarrow> (Ok (Some n), s)
           | (Ok (Callback f), s) \<Rightarrow> call_back f s))"

definition enterState :: "('d, 'p) states implementations \<Rightarrow> sctx \<Rightarrow> ('d, 'p) states \<Rightarrow> outcome \<times> ('d, 'p) states" where
  "enterState sts c s =
     (case sts (sc_to c) of
        None \<Rightarrow> (Panic, s)
      | Some st \<Rightarrow>
          (case if_Enter st c s of
             (Err e, s) \<Rightarrow> (Err e, s)
           | (Panic, s) \<Rightarrow> (Panic, s)
           | (Ok (Switch n), s) \<Rightarrow> (Ok (Some n), s)
           | (Ok (Callback f), s) \<Rightarrow> call_back f (setState (sc_to c) s)))"

definition enter_switch :: "('d, 'p) states implementations \<Rightarrow> sctx \<Rightarrow> ('d, 'p) states \<Rightarrow> outcome \<times> ('d, 'p) states" where
  "enter_switch sts c s =
     (case enterState sts c s of
        (Ok (Some n), s) \<Rightarrow> (Ok (if sc_to c = sc_to n then None else Some n), s)
      | r \<Rightarrow> r)"

text \<open>An error of \<open>exitState\<close> other than a switch is looked at and dropped.\<close>

definition switchState ::
  "lib \<Rightarrow> senv \<Rightarrow> ('d, 'a) storage_db \<Rightarrow> ('d, 'p) states implementations \<Rightarrow> sctx \<Rightarrow> ('d, 'p) states \<Rightarrow> outcome \<times> ('d, 'p) states" where
  "switchState L ev D sts c s =
     (let c = (if sc_from c = StateEmpty then sctx_SetFromState (ss_state s) c else c) in
      case sctx_IsValid c of
        Err e \<Rightarrow> (Err (FmtErr ''invalid state switch context'' (Some e)), s)
      | Panic \<Rightarrow> (Panic, s)
      | Ok _ \<Rightarrow>
          if ss_state s \<noteq> sc_from c then (Ok None, s)
          else
            (case switchStateHandover c s of
               Err e \<Rightarrow> (Err e, s)
             | Panic \<Rightarrow> (Panic, s)
             | Ok c \<Rightarrow>
                 if ss_state s = sc_to c then
                   (case sc_voteproof c of
                      None \<Rightarrow> (Ok None, s)
                    | Some v \<Rightarrow> (case processVoteproofInternal L ev D sts v s of (Panic, s) \<Rightarrow> (Panic, s) | (_, s) \<Rightarrow> (Ok None, s)))
                 else
                   (case exitState sts c s of
                      (Panic, s) \<Rightarrow> (Panic, s)
                    | (r, s) \<Rightarrow>
                        (case r of
                           Ok (Some n) \<Rightarrow> if sc_from c \<noteq> sc_to n then (Ok (Some n), s) else enter_switch sts c s
                         | _ \<Rightarrow> enter_switch sts c s))))"

text \<open>Switching goes on while a state asks for the next switch; it may not end, then the value is \<open>None\<close>.\<close>

partial_function (option) processSwitchStates ::
  "lib \<Rightarrow> senv \<Rightarrow> ('d, 'a) storage_db \<Rightarrow> ('d, 'p) states implementations \<Rightarrow> sctx \<Rightarrow> ('d, 'p) states \<Rightarrow> (unit res \<times> ('d, 'p) states) option" where
  "processSwitchStates L ev D sts c s =
     (case switchState L ev D sts c s of
        (Panic, s) \<Rightarrow> Some (Panic, s)
      | (Ok None, s) \<Rightarrow> Some (Ok (), s)
      | (Ok (Some n), s) \<Rightarrow> processSwitchStates L ev D sts n s
      | (Err e, s) \<Rightarrow>
          if error_Is e IgnoreError then Some (Ok (), s)
          else if sc_to c = StateBooting then Some (Err (FmtErr ''failed to move to booting'' (Some e)), s)
          else processSwitchStates L ev D sts (sctx_SetError (Some e) (NewStateSwitchContext (ss_state s) StateBooting)) s)"

text \<open>One turn of \<open>watch\<close>: what was received, and what \<open>errch\<close> is sent when the loop ends.\<close>

datatype msg = MSwitch sctx | MVoteproof vproof | MProposal ballot

definition receive ::
  "lib \<Rightarrow> senv \<Rightarrow> ('d, 'a) storage_db \<Rightarrow> ('d, 'p) states implementations \<Rightarrow> msg \<Rightarrow> ('d, 'p) states \<Rightarrow> outcome \<times> ('d, 'p) states" where
  "receive L ev D sts m s =
     (case m of
        MSwitch c \<Rightarrow> (Ok (Some c), s\<lparr>ss_statech := remove1 c (ss_statech s)\<rparr>)
      | MVoteproof v \<Rightarrow> processVoteproof L ev D sts v (s\<lparr>ss_voteproofch := remove1 v (ss_voteproofch s)\<rparr>)
      | MProposal p \<Rightarrow> States_processProposal L D sts p (s\<lparr>ss_proposalch := remove1 p (ss_proposalch s)\<rparr>))"

datatype turn = Continue | Ended "goerr option" | Crashed

definition watch_switch ::
  "lib \<Rightarrow> senv \<Rightarrow> ('d, 'a) storage_db \<Rightarrow> ('d, 'p) states implementations \<Rightarrow> sctx \<Rightarrow> ('d, 'p) states \<Rightarrow> (turn \<times> ('d, 'p) states) option" where
  "watch_switch L ev D sts c s =
     map_option (\<lambda>(r, s).
       (case r of
          Panic \<Rightarrow> Crashed
        | Err e \<Rightarrow> Ended (Some e)
        | Ok _ \<Rightarrow> if ss_state s = StateStopped then Ended (sc_err c) else Continue, s)) (processSwitchStates L ev D sts c s)"

definition watch ::
  "lib \<Rightarrow> senv \<Rightarrow> ('d, 'a) storage_db \<Rightarrow> ('d, 'p) states implementations \<Rightarrow> msg \<Rightarrow> ('d, 'p) states \<Rightarrow> (turn \<times> ('d, 'p) states) option" where
  "watch L ev D sts m s =
     (case receive L ev D sts m s of
        (Panic, s) \<Rightarrow> Some (Crashed, s)
      | (Ok None, s) \<Rightarrow> Some (Continue, s)
      | (Ok (Some c), s) \<Rightarrow> watch_switch L ev D sts c s
      | (Err e, s) \<Rightarrow>
          if error_Is e IgnoreError then Some (Continue, s)
          else
            (case States_resetBallotbox D s of
               (Ok _, s) \<Rightarrow> watch_switch L ev D sts (NewStateSwitchContext StateEmpty StateBooting) s
             | (_, s) \<Rightarrow> Some (Crashed, s)))"

definition States_Stop :: "('d, 'p) states implementations \<Rightarrow> ('d, 'p) states \<Rightarrow> outcome \<times> ('d, 'p) states" where
  "States_Stop sts s =
     (if ss_state s = StateStopped then (Ok None, s)
      else case sts (ss_state s) of
        None \<Rightarrow> (Ok None, setState StateStopped s)
      | Some st \<Rightarrow>
          (case if_Exit st (NewStateSwitchContext (ss_state s) StateStopped) s of
             (Err e, s) \<Rightarrow> (Err e, s)
           | (Panic, s) \<Rightarrow> (Panic, s)
           | (Ok (Switch n), s) \<Rightarrow> (Ok (Some n), s)
           | (Ok (Callback f), s) \<Rightarrow>
               (case (case f of None \<Rightarrow> (Ok None, s) | Some f \<Rightarrow> f s) of
                  (Ok None, s) \<Rightarrow> (Ok None, setState StateStopped s)
                | r \<Rightarrow> r)))"

section \<open>Ticks\<close>

definition cleanBallotbox :: "('d, 'p) states \<Rightarrow> ('d, 'p) states res" where
  "cleanBallotbox s =
     bind_res (opt_base (ss_lvp s)) (\<lambda>lvp.
       case lvp of
         None \<Rightarrow> Ok s
       | Some vp \<Rightarrow>
           if vp_height vp < 1 then Ok s
           else let h = i64 (vp_height vp - 3) in
             if h < 0 then Ok s else Ok (s\<lparr>ss_ballotbox := snd (Ballotbox_Clean h (ss_ballotbox s))\<rparr>))"

definition ConsensusStuckError :: goerr where [err_defs]: "ConsensusStuckError = NewError ''init'' 220 ''consensus looks stuck''"

definition StuckChecker_IsValidState :: "state \<Rightarrow> bool res" where
  "StuckChecker_IsValidState st = Ok (st = StateConsensus)"

definition StuckChecker_IsOldLastVoteproofTime :: "gotime \<Rightarrow> int \<Rightarrow> vproof option \<Rightarrow> bool res" where
  "StuckChecker_IsOldLastVoteproofTime now endure lvp =
     bind_res (opt_base lvp) (\<lambda>lvp.
       case lvp of
         None \<Rightarrow> Ok True
       | Some vp \<Rightarrow> if now - vp_finishedAt vp > endure then Err (Errorf ConsensusStuckError ''last voteproof is too old, %s from now'') else Ok True)"

text \<open>A tick of \<open>detectStuck\<close>: the new value of \<open>stucked\<close>.\<close>

definition detectStuck :: "gotime \<Rightarrow> ('d, 'p) states \<Rightarrow> bool \<Rightarrow> bool res" where
  "detectStuck now s stucked =
     (case Checker_Check [StuckChecker_IsValidState (ss_state s), StuckChecker_IsOldLastVoteproofTime now (60 * Second) (ss_lvp s)] of
        Panic \<Rightarrow> Panic
      | Err e \<Rightarrow> Ok (if \<not> stucked \<and> \<not> error_Is e IgnoreError then True else stucked)
      | Ok _ \<Rightarrow> Ok False)"

section \<open>Handover\<close>

definition HandoverRejectedError :: goerr where [err_defs]: "HandoverRejectedError = NewError ''init'' 10 ''handover failed''"

text \<open>\<open>Refresh\<close> investigates the network for the other node; what it finds is the argument \<open>refresh\<close>.\<close>

definition startHandover :: "(handover \<Rightarrow> unit res \<times> handover) \<Rightarrow> ('d, 'p) states \<Rightarrow> unit res \<times> ('d, 'p) states" where
  "startHandover refresh s =
     (if ss_state s = StateStopped \<or> ss_state s = StateBroken then (Err (Errorf HandoverRejectedError ''node can not start handover; state=%v''), s)
      else if ss_state s = StateHandover then (Err (Errorf HandoverRejectedError ''node is already in handover''), s)
      else if ss_state s = StateConsensus then (Err (Errorf HandoverRejectedError ''node is already in consensus''), s)
      else case ss_hd s of
        None \<Rightarrow> (Panic, s)
      | Some ho \<Rightarrow>
          (case refresh ho of
             (Err e, ho) \<Rightarrow> (Err (FmtErr ''trying to start handover; but failed to refresh handover: %w'' (Some e)), s\<lparr>ss_hd := Some ho\<rparr>)
           | (Panic, ho) \<Rightarrow> (Panic, s\<lparr>ss_hd := Some ho\<rparr>)
           | (Ok _, ho) \<Rightarrow>
               if \<not> hd_uh ho then (Err (Errorf HandoverRejectedError ''not under handover''), s\<lparr>ss_hd := Some ho\<rparr>)
               else if Handover_IsReady ho then (Err (Errorf HandoverRejectedError ''handover was already ready''), s\<lparr>ss_hd := Some ho\<rparr>)
               else (Ok (), s\<lparr>ss_hd := Some (handoverState_setIsReady True ho)\<rparr>)))"

section \<open>States that are always there\<close>

definition BaseState_Enter :: "state \<Rightarrow> sctx \<Rightarrow> ('d, 'p) states \<Rightarrow> ('d, 'p) states entry res \<times> ('d, 'p) states" where
  "BaseState_Enter st c s =
     (if sc_to c \<noteq> st then (Err (plain ''context not for entering this state, %v''), s)
      else (Ok (Callback None), s\<lparr>ss_exiting := (ss_exiting s)(st := False)\<rparr>))"

definition BaseState_Exit :: "state \<Rightarrow> sctx \<Rightarrow> ('d, 'p) states \<Rightarrow> ('d, 'p) states entry res \<times> ('d, 'p) states" where
  "BaseState_Exit st c s =
     (if sc_from c \<noteq> st then (Err (plain ''context not for exiting this state, %v''), s) else (Ok (Callback None), s))"

definition BaseState :: "state \<Rightarrow> ('d, 'p) states state_if" where
  "BaseState st = \<lparr>if_Enter = BaseState_Enter st, if_Exit = BaseState_Exit st,
     if_ProcessProposal = (\<lambda>_ s. (Ok None, s)), if_ProcessVoteproof = (\<lambda>_ s. (Ok None, s))\<rparr>"

definition StoppedState :: "('d, 'p) states state_if" where
  "StoppedState = BaseState StateStopped"

definition EmptyState :: "('d, 'p) states state_if" where
  "EmptyState = \<lparr>if_Enter = (\<lambda>c s. (Ok (Switch (sctx_Return c)), s)), if_Exit = (\<lambda>_ s. (Ok (Callback None), s)),
     if_ProcessProposal = (\<lambda>_ s. (Ok None, s)), if_ProcessVoteproof = (\<lambda>_ s. (Ok None, s))\<rparr>"

text \<open>The channels a node can sync from: the reachable remote nodes and, under handover, the node it replaces.\<close>

definition syncableChannels :: "(string list \<Rightarrow> string list) \<Rightarrow> ('d, 'p) states \<Rightarrow> channel list res" where
  "syncableChannels ord s =
     bind_res (Nodepool_TraverseAliveRemotes ord (ss_nodepool s) (\<lambda>_ c cs. (True, case c of None \<Rightarrow> cs | Some c \<Rightarrow> cs @ [c])) []) (\<lambda>cs.
       Ok (cs @ (if underHandover s then (case Option.bind (ss_hd s) hd_on of None \<Rightarrow> [] | Some c \<Rightarrow> [c]) else [])))"

definition CheckBlockEmpty :: "('d, 'a) storage_db \<Rightarrow> 'd \<Rightarrow> manifest option res" where
  "CheckBlockEmpty D d = bind_res (db_LastManifest D d) (\<lambda>(m, found). Ok (if found then m else None))"

definition storage_CheckBlock :: "lib \<Rightarrow> ('d, 'a) storage_db \<Rightarrow> 'd \<Rightarrow> manifest res" where
  "storage_CheckBlock L D d =
     bind_res (CheckBlockEmpty D d) (\<lambda>m.
       case m of
         None \<Rightarrow> Err (Errorf NotFoundError ''empty block manifest'')
       | Some m \<Rightarrow> bind_res (map_err (\<lambda>e. FmtErr ''invalid block manifest found, clean up block'' (Some e)) (Manifest_IsValid L m)) (\<lambda>_. Ok m))"

text \<open>\<open>clean\<close> is \<open>blockdata.Clean\<close>, which empties the database and the files of the blocks.\<close>

definition Booting_Enter ::
  "lib \<Rightarrow> (string list \<Rightarrow> string list) \<Rightarrow> ('d, 'a) storage_db \<Rightarrow> ('d \<Rightarrow> unit res \<times> 'd) \<Rightarrow> sctx \<Rightarrow> ('d, 'p) states \<Rightarrow> ('d, 'p) states entry res \<times> ('d, 'p) states" where
  "Booting_Enter L ord D clean c s =
     (case BaseState_Enter StateBooting c s of
        (Err e, s) \<Rightarrow> (Err e, s)
      | (Panic, s) \<Rightarrow> (Panic, s)
      | (Ok _, s) \<Rightarrow>
          (case States_resetBallotbox D s of
             (Err e, s) \<Rightarrow> (Err e, s)
           | (Panic, s) \<Rightarrow> (Panic, s)
           | (Ok _, s) \<Rightarrow>
               (case storage_CheckBlock L D (ss_database s) of
                  Panic \<Rightarrow> (Panic, s)
                | Ok _ \<Rightarrow>
                    let next = (if su_IsInside (ss_suffrage s) (local_address (ss_nodepool s)) then StateJoining else StateSyncing) in
                    (Ok (Callback (Some (\<lambda>s. (Ok (Some (NewStateSwitchContext StateBooting next)), s)))), s)
                | Err e \<Rightarrow>
                    if \<not> error_Is e NotFoundError then (Err e, s)
                    else
                      (case clean (ss_database s) of
                         (Err e, d) \<Rightarrow> (Err e, s\<lparr>ss_database := d\<rparr>)
                       | (Panic, d) \<Rightarrow> (Panic, s\<lparr>ss_database := d\<rparr>)
                       | (Ok _, d) \<Rightarrow>
                           let s = s\<lparr>ss_database := d\<rparr> in
                           (case syncableChannels ord s of
                              Err e \<Rightarrow> (Err e, s)
                            | Panic \<Rightarrow> (Panic, s)
                            | Ok cs \<Rightarrow>
                                if length cs < 1 then (Err (plain ''empty blocks, but no channels for syncing; can not sync''), s)
                                else (Ok (Callback (Some (\<lambda>s. (Ok (Some (NewStateSwitchContext StateBooting StateSyncing)), s)))), s))))))"

definition BootingState :: "lib \<Rightarrow> (string list \<Rightarrow> string list) \<Rightarrow> ('d, 'a) storage_db \<Rightarrow> ('d \<Rightarrow> unit res \<times> 'd) \<Rightarrow> ('d, 'p) states state_if" where
  "BootingState L ord D clean = (BaseState StateBooting)\<lparr>if_Enter := Booting_Enter L ord D clean\<rparr>"

section \<open>The order of voteproofs\<close>

definition vproof_point :: "vproof \<Rightarrow> (int \<times> nat \<times> nat) option" where
  "vproof_point v = (case vproof_base v of Ok vp \<Rightarrow> Some (vp_height vp, unat (vp_round vp), unat (vp_stage vp)) | _ \<Rightarrow> None)"

definition point_less :: "int \<times> nat \<times> nat \<Rightarrow> int \<times> nat \<times> nat \<Rightarrow> bool" where
  "point_less a b \<longleftrightarrow> (case (a, b) of ((h, r, st), (h', r', st')) \<Rightarrow> h < h' \<or> h = h' \<and> (r < r' \<or> r = r' \<and> st < st'))"

text \<open>The last voteproof moves forward: it stays, is set for the first time, or is replaced by one of a later point.\<close>

definition lvp_le :: "vproof option \<Rightarrow> vproof option \<Rightarrow> bool" where
  "lvp_le a b \<longleftrightarrow> a = b \<or> a = None \<or>
     (\<exists>v w p q. a = Some v \<and> b = Some w \<and> vproof_point v = Some p \<and> vproof_point w = Some q \<and> point_less p q)"

lemma lvp_le_refl [simp]: "lvp_le a a"
  by (simp add: lvp_le_def)

lemma point_less_trans: "point_less a b \<Longrightarrow> point_less b c \<Longrightarrow> point_less a c"
  by (auto simp: point_less_def split: prod.splits)

lemma lvp_le_trans: "lvp_le a b \<Longrightarrow> lvp_le b c \<Longrightarrow> lvp_le a c"
  unfolding lvp_le_def using point_less_trans by (metis option.inject option.distinct(1))

lemma vproof_Compare_newer:
  assumes "vproof_Compare (Some v) (Some l) = Ok c" and "\<not> c < 1"
  shows "\<exists>p q. vproof_point l = Some p \<and> vproof_point v = Some q \<and> point_less p q"
proof -
  obtain a b where "vproof_base v = Ok a" "vproof_base l = Ok b" "c = CompareVoteproof (Some a) (Some b)"
    using assms(1) by (auto simp: vproof_Compare_def bind_res_Ok_iff)
  then show ?thesis using assms(2)
    by (auto simp: vproof_point_def point_less_def CompareVoteproof_def CompareVoteproofSamePoint_def Let_def word_less_nat_alt split: if_splits)
qed

lemma Compare_lvp_le: "vproof_Compare (Some v) (Some l) = Ok c \<Longrightarrow> \<not> c < 1 \<Longrightarrow> lvp_le (Some l) (Some v)"
  using vproof_Compare_newer unfolding lvp_le_def by blast

text \<open>The last INIT voteproof is one, and not later than the last voteproof.\<close>

definition lvps_ok :: "('d, 'p) states \<Rightarrow> bool" where
  "lvps_ok s \<longleftrightarrow> (\<forall>i. ss_livp s = Some i \<longrightarrow> (\<exists>vp. vproof_base i = Ok vp \<and> vp_stage vp = StageINIT)) \<and> lvp_le (ss_livp s) (ss_lvp s)"

definition forward :: "('d, 'p) states \<Rightarrow> ('d, 'p) states \<Rightarrow> bool" where
  "forward s s' \<longleftrightarrow> lvp_le (ss_lvp s) (ss_lvp s') \<and> (lvps_ok s \<longrightarrow> lvps_ok s')"

lemma forward_trans: "forward s s' \<Longrightarrow> forward s' s'' \<Longrightarrow> forward s s''"
  unfolding forward_def using lvp_le_trans by blast

lemma forward_same: "ss_lvp s' = ss_lvp s \<Longrightarrow> ss_livp s' = ss_livp s \<Longrightarrow> forward s s'"
  by (simp add: forward_def lvps_ok_def)

lemma vproof_base_not_Err [simp]: "vproof_base v \<noteq> Err e"
  by (auto simp: vproof_base_def split: vproof.splits option.splits)

lemma SetLastVoteproof_cases:
  assumes "SetLastVoteproof L v s = (r, s')" and "r \<noteq> Panic"
  obtains (old) "r = Ok False" "s' = s"
  | (new) vp where "r = bind_res (vproof_ID L v) (\<lambda>_. Ok True)" "vproof_base v = Ok vp" "lvp_le (ss_lvp s) (Some v)"
      "s' = s\<lparr>ss_lvp := Some v, ss_livp := (if vp_stage vp = StageINIT then Some v else ss_livp s)\<rparr>"
  | (bad) e where "r = Err e" "s' = s"
proof (cases "ss_lvp s")
  case None
  then show thesis using assms new by (cases "vproof_base v") (auto simp: SetLastVoteproof_def lvp_le_def Let_def)
next
  case (Some l)
  show thesis
  proof (cases "vproof_Compare (Some v) (Some l)")
    case (Ok c)
    show thesis
    proof (cases "c < 1")
      case False
      then show thesis using assms Some Ok new Compare_lvp_le [OF Ok] by (cases "vproof_base v") (auto simp: SetLastVoteproof_def Let_def)
    qed (use assms Some Ok old in \<open>auto simp: SetLastVoteproof_def\<close>)
  qed (use assms Some bad in \<open>auto simp: SetLastVoteproof_def\<close>)
qed

lemma SetLastVoteproof_forward:
  assumes "SetLastVoteproof L v s = (r, s')" and "r \<noteq> Panic"
  shows "forward s s'"
  using assms
proof (cases rule: SetLastVoteproof_cases)
  case (new vp)
  then show ?thesis using lvp_le_trans [of "ss_livp s" "ss_lvp s" "Some v"] by (auto simp: forward_def lvps_ok_def)
qed (simp_all add: forward_same)

text \<open>What the implementation of a state promises: while it works on a voteproof or a proposal, the last voteproof does not go back.\<close>

locale keeps_voteproof =
  fixes sts :: "('d, 'p) states implementations"
  assumes voteproof_forward: "sts st = Some i \<Longrightarrow> if_ProcessVoteproof i v s = (r, s') \<Longrightarrow> r \<noteq> Panic \<Longrightarrow> forward s s'"
    and proposal_forward: "sts st = Some i \<Longrightarrow> if_ProcessProposal i p s = (r, s') \<Longrightarrow> r \<noteq> Panic \<Longrightarrow> forward s s'"
begin

lemma internal_forward:
  assumes "processVoteproofInternal L ev D sts v s = (r, s')" and "r \<noteq> Panic"
  shows "forward s s'"
proof -
  obtain r1 d where c: "voteproof_checks L ev D v s = (r1, d)" by (rule prod.exhaust)
  let ?s = "s\<lparr>ss_database := d\<rparr>"
  obtain r2 s2 where l: "(if ss_state ?s \<in> {StateJoining, StateConsensus, StateHandover} then SetLastVoteproof L v ?s else (Ok True, ?s)) = (r2, s2)"
    by (rule prod.exhaust)
  have f0: "forward s ?s" by (simp add: forward_same)
  have f1: "forward ?s s2" if "r2 \<noteq> Panic"
    using l that SetLastVoteproof_forward [of L v ?s r2 s2] by (auto simp: forward_same split: if_splits)
  have "forward s s' \<or> forward s2 s' \<and> r2 \<noteq> Panic"
    using assms c l f0 voteproof_forward
    by (auto simp: processVoteproofInternal_def Let_def forward_same split: res.splits option.splits bool.splits if_splits)
  then show ?thesis using forward_trans [OF f0 forward_trans [OF f1]] by blast
qed

lemma processVoteproof_forward:
  assumes "processVoteproof L ev D sts v s = (r, s')" and "r \<noteq> Panic"
  shows "forward s s'"
  using assms internal_forward
  by (auto simp: processVoteproof_def forward_same split: option.splits res.splits if_splits)

lemma processProposal_forward:
  assumes "States_processProposal L D sts p s = (r, s')" and "r \<noteq> Panic"
  shows "forward s s'"
  using assms proposal_forward
  by (auto simp: States_processProposal_def forward_same split: option.splits res.splits if_splits)

end

section \<open>Steps of a node\<close>

text \<open>
  What happens to a node between two switches of its state: a seal arrives, \<open>watch\<close> processes a voteproof or a proposal, somebody asks for a switch,
  the ballot box is cleaned, a handover starts.
\<close>

inductive node_step ::
  "lib \<Rightarrow> ('d, 'a) storage_db \<Rightarrow> ('d, 'p) states implementations \<Rightarrow> ('d, 'p) states \<Rightarrow> ('d, 'p) states \<Rightarrow> bool"
  for L D sts where
  seal_step: "States_NewSeal L ev D sl s = (r, s') \<Longrightarrow> r \<noteq> Panic \<Longrightarrow> node_step L D sts s s'"
| voteproof_step: "v \<in> set (ss_voteproofch s) \<Longrightarrow> receive L ev D sts (MVoteproof v) s = (r, s') \<Longrightarrow> r \<noteq> Panic \<Longrightarrow> node_step L D sts s s'"
| proposal_step: "p \<in> set (ss_proposalch s) \<Longrightarrow> receive L ev D sts (MProposal p) s = (r, s') \<Longrightarrow> r \<noteq> Panic \<Longrightarrow> node_step L D sts s s'"
| request_step: "States_SwitchState c s = (r, s') \<Longrightarrow> node_step L D sts s s'"
| clean_step: "cleanBallotbox s = Ok s' \<Longrightarrow> node_step L D sts s s'"
| handover_step: "startHandover refresh s = (r, s') \<Longrightarrow> node_step L D sts s s'"

definition same_lvps :: "('d, 'p) states \<Rightarrow> ('d, 'p) states \<Rightarrow> bool" where
  "same_lvps s s' \<longleftrightarrow> ss_lvp s' = ss_lvp s \<and> ss_livp s' = ss_livp s"

lemma same_lvps_forward: "same_lvps s s' \<Longrightarrow> forward s s'"
  by (simp add: same_lvps_def forward_same)

lemma checkBallotVoteproof_same: "same_lvps s (snd (checkBallotVoteproof L blt s))"
  by (auto simp: same_lvps_def checkBallotVoteproof_def States_NewVoteproof_def split: option.splits res.splits)

lemma validateProposal_same: "same_lvps s (snd (States_validateProposal L D p s))"
  unfolding States_validateProposal_def by (auto simp: same_lvps_def split: res.splits prod.splits)

lemma voteBallot_same: "same_lvps s (snd (States_voteBallot L ev blt s))"
  by (auto simp: same_lvps_def States_voteBallot_def split: option.splits res.splits)

lemma same_lvps_trans: "same_lvps s s' \<Longrightarrow> same_lvps s' s'' \<Longrightarrow> same_lvps s s''"
  by (simp add: same_lvps_def)

lemma newSealProposal_same: "same_lvps s (snd (newSealProposal L D p s))"
proof -
  obtain r1 s1 where v: "States_validateProposal L D p s = (r1, s1)" by (rule prod.exhaust)
  obtain r2 s2 where c: "checkBallotVoteproof L p s1 = (r2, s2)" by (rule prod.exhaust)
  have "same_lvps s s1" "same_lvps s1 s2" using validateProposal_same [of s L D p] checkBallotVoteproof_same [of s1 L p] v c by simp_all
  then show ?thesis using v c same_lvps_trans
    by (auto simp: newSealProposal_def same_lvps_def States_NewProposal_def split: res.splits bool.splits)
qed

lemma newSealBallot_same: "same_lvps s (snd (newSealBallot L ev blt s))"
proof -
  obtain r1 s1 where v: "States_voteBallot L ev blt s = (r1, s1)" by (rule prod.exhaust)
  obtain r2 s2 where c: "checkBallotVoteproof L blt s1 = (r2, s2)" by (rule prod.exhaust)
  have "same_lvps s s1" "same_lvps s1 s2" using voteBallot_same [of s L ev blt] checkBallotVoteproof_same [of s1 L blt] v c by simp_all
  then show ?thesis using v c
    by (auto simp: newSealBallot_def same_lvps_def States_NewVoteproof_def split: res.splits option.splits)
qed

lemma newOperationSeal_same: "same_lvps s (snd (newOperationSeal L ev D sl s))"
  by (auto simp: newOperationSeal_def same_lvps_def broadcastOperationSealToSuffrageNodes_def States_broadcast_def Let_def split: res.splits prod.splits)

lemma NewSeal_same: "same_lvps s (snd (States_NewSeal L ev D sl s))"
  using newSealProposal_same newSealBallot_same newOperationSeal_same by (auto simp: States_NewSeal_def split: seal.splits)

lemma SwitchState_same: "States_SwitchState c s = (r, s') \<Longrightarrow> same_lvps s s'"
  by (auto simp: States_SwitchState_def same_lvps_def split: res.splits)

lemma cleanBallotbox_same: "cleanBallotbox s = Ok s' \<Longrightarrow> same_lvps s s'"
  unfolding cleanBallotbox_def by (cases "opt_base (ss_lvp s)") (auto simp: same_lvps_def Let_def split: option.split_asm if_split_asm)

lemma startHandover_same: "startHandover refresh s = (r, s') \<Longrightarrow> same_lvps s s'"
  unfolding startHandover_def by (auto simp: same_lvps_def split: if_split_asm option.split_asm prod.split_asm res.split_asm)

lemmas other_steps_same = SwitchState_same cleanBallotbox_same startHandover_same

context keeps_voteproof
begin

lemma node_step_forward: "node_step L D sts s s' \<Longrightarrow> forward s s'"
proof (induction rule: node_step.induct)
  case (seal_step ev sl s r s')
  then show ?case using same_lvps_forward [OF NewSeal_same [of s L ev D sl]] by simp
next
  case (voteproof_step v s ev r s')
  have "forward s (s\<lparr>ss_voteproofch := remove1 v (ss_voteproofch s)\<rparr>)" by (simp add: forward_same)
  then show ?case using voteproof_step processVoteproof_forward forward_trans by (fastforce simp: receive_def)
next
  case (proposal_step p s ev r s')
  have "forward s (s\<lparr>ss_proposalch := remove1 p (ss_proposalch s)\<rparr>)" by (simp add: forward_same)
  then show ?case using proposal_step processProposal_forward forward_trans by (fastforce simp: receive_def)
qed (use other_steps_same same_lvps_forward in blast)+

lemma node_steps_forward: "(node_step L D sts)\<^sup>*\<^sup>* s s' \<Longrightarrow> forward s s'"
  by (induction rule: rtranclp_induct) (auto simp: forward_same intro: forward_trans node_step_forward)

end

section \<open>Implementations\<close>

definition resting_states ::
  "lib \<Rightarrow> (string list \<Rightarrow> string list) \<Rightarrow> ('d, 'a) storage_db \<Rightarrow> ('d \<Rightarrow> unit res \<times> 'd) \<Rightarrow> ('d, 'p) states implementations" where
  "resting_states L ord D clean st =
     (case st of StateStopped \<Rightarrow> Some StoppedState | StateBooting \<Rightarrow> Some (BootingState L ord D clean) | _ \<Rightarrow> None)"

lemma resting_states_process:
  assumes "resting_states L ord D clean st = Some i"
  shows "if_ProcessVoteproof i v s = (Ok None, s)" and "if_ProcessProposal i p s = (Ok None, s)"
  using assms by (auto simp: resting_states_def StoppedState_def BootingState_def BaseState_def split: state.splits)

interpretation resting: keeps_voteproof "resting_states L ord D clean" for L ord D clean
  by unfold_locales (auto simp: resting_states_process forward_same)

section \<open>Properties\<close>

text \<open>
  The last voteproof of a node only moves forward. Whatever seals arrive and in whatever order voteproofs and proposals are processed, as long as the
  states themselves do not take it back, the last voteproof stays or is replaced by one of a later height, round or stage; the last
  INIT voteproof is an INIT voteproof and not later than the last one.
\<close>

theorem last_voteproof_advances:
  assumes "\<forall>st i v t r t'. sts st = Some i \<and> if_ProcessVoteproof i v t = (r, t') \<and> r \<noteq> Panic \<longrightarrow> forward t t'"
    and "\<forall>st i p t r t'. sts st = Some i \<and> if_ProcessProposal i p t = (r, t') \<and> r \<noteq> Panic \<longrightarrow> forward t t'"
    and "(node_step L D sts)\<^sup>*\<^sup>* s s'" and "lvps_ok s"
  shows "lvp_le (ss_lvp s) (ss_lvp s') \<and> lvp_le (ss_livp s') (ss_lvp s') \<and>
    (\<forall>i. ss_livp s' = Some i \<longrightarrow> (\<exists>vp. vproof_base i = Ok vp \<and> vp_stage vp = StageINIT))"
proof -
  have "keeps_voteproof sts" using assms(1,2) by (intro keeps_voteproof.intro) blast+
  from keeps_voteproof.node_steps_forward [OF this assms(3)] have "forward s s'" .
  then show ?thesis using assms(4) unfolding forward_def lvps_ok_def by blast
qed

lemma CheckPoint_next_init:
  assumes "vp_stage vp = StageINIT" and "vproof_base l = Ok lp" and "is_i64 (vp_height lp)" and "vp_height lp < 2 ^ 63 - 1"
    and "vp_height vp = vp_height lp \<and> vp_round vp > vp_round lp \<or> vp_height vp = vp_height lp + 1"
  shows "VoteproofChecker_CheckPoint (NewVoteproofChecker S np (Some l) (VP vp)) = Ok True"
proof -
  have "i64 (vp_height lp + 1) = vp_height lp + 1" using assms(3,4) by (intro i64_id) (auto simp: is_i64_def)
  moreover have "i64 0 = 0" by (simp add: i64_def)
  ultimately show ?thesis using assms(1,2,5)
    by (auto simp: VoteproofChecker_CheckPoint_def NewVoteproofChecker_def checkPointINITVoteproof_def opt_base_def vproof_base_def Let_def)
qed

lemma drawn_block_check:
  assumes "vp_stage vp = StageINIT" and "vp_majority vp = None"
  shows "CheckINITVoteproofWithLocalBlock D (NewVoteproofChecker S np lvp (VP vp)) d =
    Err (NError_Wrap SyncByVoteproofError (plain ''needs INITTBallotFact: fact=%T''))"
  using assms by (simp add: CheckINITVoteproofWithLocalBlock_def NewVoteproofChecker_def CheckBlockWithINITVoteproof_def vproof_base_def plain_def)

text \<open>
  C39: a drawn INIT voteproof sends the node to syncing. The next INIT voteproof of the same height, or the first of the next height, that ended in a
  draw fails the comparison with the local block, since it has no majority; the node takes it for its last voteproof and asks to leave
  for syncing instead of starting the next round.
\<close>

theorem drawn_init_syncs:
  assumes "vp_stage vp = StageINIT" and "vp_majority vp = None" and "vproof_ID L (VP vp) = Ok i"
    and "ss_lvp s = Some l" and "vproof_base l = Ok lp" and "is_i64 (vp_height lp)" and "vp_height lp < 2 ^ 63 - 1"
    and "vp_height vp = vp_height lp \<and> vp_round vp > vp_round lp \<or> vp_height vp = vp_height lp + 1"
    and "ss_state s \<in> {StateJoining, StateConsensus, StateHandover}"
  shows "\<exists>e. processVoteproof L ev D sts (VP vp) s =
    (Ok (Some \<lparr>sc_to = StateSyncing, sc_from = ss_state s, sc_voteproof = Some (VP vp), sc_err = Some e, sc_ae = False\<rparr>),
     s\<lparr>ss_lvp := Some (VP vp), ss_livp := Some (VP vp)\<rparr>)"
proof -
  let ?e = "NError_Wrap SyncByVoteproofError (plain ''needs INITTBallotFact: fact=%T'')"
  let ?c = "\<lparr>sc_to = StateSyncing, sc_from = ss_state s, sc_voteproof = Some (VP vp), sc_err = Some ?e, sc_ae = False\<rparr>"
  let ?s = "s\<lparr>ss_lvp := Some (VP vp), ss_livp := Some (VP vp)\<rparr>"
  have b: "vproof_base (VP vp) = Ok vp" by (simp add: vproof_base_def)
  have c: "vproof_Compare (Some (VP vp)) (Some l) = Ok 1"
    using assms(5,8) b by (auto simp: vproof_Compare_def CompareVoteproof_def CompareVoteproofSamePoint_def)
  have v: "voteproof_checks L ev D (VP vp) s = (Err ?e, ss_database s)"
    by (simp add: voteproof_checks_def Let_def CheckPoint_next_init [OF assms(1,5-8)] assms(4) drawn_block_check [OF assms(1,2)])
  have "error_Is ?e SyncByVoteproofError" by (simp add: err_defs NewError_def)
  then have er: "voteproof_error (VP vp) (ss_state s) (Err ?e) = Ok (Some ?c)"
    using assms(9) by (auto simp: voteproof_error_def sctx_SetError_def sctx_SetVoteproof_def NewStateSwitchContext_def)
  have st: "SetLastVoteproof L (VP vp) s = (Ok True, ?s)" using assms(1,3,4) b c by (simp add: SetLastVoteproof_def Let_def)
  have "processVoteproofInternal L ev D sts (VP vp) s = (Ok (Some ?c), ?s)"
    unfolding processVoteproofInternal_def assms(3) v using assms(9) by (auto simp: Let_def er st)
  then show ?thesis unfolding processVoteproof_def assms(4) by (simp add: c)
qed

lemma syncableChannels_cong: "ss_nodepool s = ss_nodepool t \<Longrightarrow> ss_hd s = ss_hd t \<Longrightarrow> syncableChannels ord s = syncableChannels ord t"
  by (simp add: syncableChannels_def underHandover_def)

text \<open>
  C40: where booting leads. When the last block of the database is sound, entering the booting state empties the ballot box, takes the last voteproofs
  from the database and asks for the joining state on a suffrage node and for syncing on any other. Without a block the data is cleaned and the node
  syncs if it knows a node to sync from; otherwise booting fails.
\<close>

theorem booting_leads:
  assumes "sts StateBooting = Some (BootingState L ord D clean)" and "sc_to c = StateBooting"
    and "db_LastVoteproof D (ss_database s) StageACCEPT = Ok a" and "db_LastVoteproof D (ss_database s) StageINIT = Ok i"
    and "CheckBlockEmpty D (ss_database s) = Ok m" and "\<And>m'. m = Some m' \<Longrightarrow> Manifest_IsValid L m' = Ok ()"
    and "clean (ss_database s) = (Ok (), d)" and "syncableChannels ord (s\<lparr>ss_database := d\<rparr>) = Ok chs"
  shows "\<exists>r s'. enterState sts c s = (r, s') \<and> ss_ballotbox s' = Ballotbox_Empty (ss_ballotbox s) \<and>
    ss_lvp s' = opt_set a (ss_lvp s) \<and> ss_livp s' = opt_set i (ss_livp s) \<and> ss_database s' = (if m = None then d else ss_database s) \<and>
    (if m = None \<and> chs = [] then (\<exists>e. r = Err e) \<and> ss_state s' = ss_state s
     else r = Ok (Some (NewStateSwitchContext StateBooting
       (if m \<noteq> None \<and> su_IsInside (ss_suffrage s) (local_address (ss_nodepool s)) then StateJoining else StateSyncing))) \<and> ss_state s' = StateBooting)"
proof -
  let ?s = "s\<lparr>ss_exiting := (ss_exiting s)(StateBooting := False), ss_lvp := opt_set a (ss_lvp s), ss_livp := opt_set i (ss_livp s),
    ss_ballotbox := Ballotbox_Empty (ss_ballotbox s)\<rparr>"
  have e: "BaseState_Enter StateBooting c s = (Ok (Callback None), s\<lparr>ss_exiting := (ss_exiting s)(StateBooting := False)\<rparr>)"
    using assms(2) by (simp add: BaseState_Enter_def)
  have r: "States_resetBallotbox D (s\<lparr>ss_exiting := (ss_exiting s)(StateBooting := False)\<rparr>) = (Ok (), ?s)"
    using assms(3,4) by (simp add: States_resetBallotbox_def last_voteproofs_def)
  have ch: "syncableChannels ord (?s\<lparr>ss_database := d\<rparr>) = Ok chs"
    using assms(8) syncableChannels_cong [of "?s\<lparr>ss_database := d\<rparr>" "s\<lparr>ss_database := d\<rparr>"] by simp
  show ?thesis
  proof (cases m)
    case (Some m')
    then have "storage_CheckBlock L D (ss_database ?s) = Ok m'" using assms(5,6) by (simp add: storage_CheckBlock_def)
    then show ?thesis using assms(1,2) e r Some
      by (simp add: enterState_def BootingState_def Booting_Enter_def call_back_def setState_def Let_def)
  next
    case None
    then have "storage_CheckBlock L D (ss_database ?s) = Err (Errorf NotFoundError ''empty block manifest'')"
      using assms(5) by (simp add: storage_CheckBlock_def)
    moreover have "error_Is (Errorf NotFoundError ''empty block manifest'') NotFoundError" by (simp add: err_defs NewError_def)
    ultimately show ?thesis using assms(1,2,7) e r ch None
      by (simp add: enterState_def BootingState_def Booting_Enter_def call_back_def setState_def Let_def)
  qed
qed

section \<open>Witnesses\<close>

definition sample_states :: "state \<Rightarrow> vproof option \<Rightarrow> (alist_store database, unit) states" where
  "sample_states st lvp =
     \<lparr>ss_database = sample_db [], ss_policy = NewLocalPolicy [1], ss_nodepool = sample_nodepool, ss_suffrage = no_suffrage, ss_state = st, ss_statech = [],
      ss_voteproofch = [], ss_proposalch = [], ss_ballotbox = NewBallotbox, ss_lvp = lvp, ss_livp = None, ss_isNoneSuffrageNode = True,
      ss_hd = None, ss_exiting = (\<lambda>_. False), ss_outbox = [], ss_sealch = [], ss_priv = ()\<rparr>"

definition sample_senv :: senv where
  "sample_senv = \<lparr>se_order = (\<lambda>xs. xs), se_now = 1000, se_tries = 3, se_suffrages = [], se_threshold = vote_thr, se_ulid = sample_ulid\<rparr>"

definition drawn_init :: "height \<Rightarrow> round \<Rightarrow> voteproof" where
  "drawn_init h r = Voteproof_SetResult VoteResultDraw (NewVoteproofV0 h r [] 67 StageINIT)"

lemma drawn_init_fields:
  "vp_stage (drawn_init h r) = StageINIT" "vp_majority (drawn_init h r) = None" "vp_height (drawn_init h r) = h" "vp_round (drawn_init h r) = r"
  by (simp_all add: drawn_init_def Voteproof_SetResult_def NewVoteproofV0_def)

lemma drawn_init_ID: "\<exists>i. vproof_ID L (VP (drawn_init h r)) = Ok i"
  by (simp add: vproof_ID_def vproof_base_def Voteproof_ID_def Voteproof_Bytes_def Voteproof_factsBytes_def Voteproof_votesBytes_def
      drawn_init_def Voteproof_SetResult_def NewVoteproofV0_def)

theorem drawn_init_syncs_witness:
  "\<exists>e. processVoteproof sample_lib sample_senv (leveldb_storage :: (alist_store database, unit) storage_db) (\<lambda>_. None) (VP (drawn_init 34 1))
     (sample_states StateConsensus (Some (VP (drawn_init 34 0)))) =
    (Ok (Some \<lparr>sc_to = StateSyncing, sc_from = StateConsensus, sc_voteproof = Some (VP (drawn_init 34 1)), sc_err = Some e, sc_ae = False\<rparr>),
     (sample_states StateConsensus (Some (VP (drawn_init 34 0))))\<lparr>ss_lvp := Some (VP (drawn_init 34 1)), ss_livp := Some (VP (drawn_init 34 1))\<rparr>)"
proof -
  let ?s = "sample_states StateConsensus (Some (VP (drawn_init 34 0)))"
  obtain i where i: "vproof_ID sample_lib (VP (drawn_init 34 1)) = Ok i" using drawn_init_ID by blast
  have s: "ss_lvp ?s = Some (VP (drawn_init 34 0))" "ss_state ?s = StateConsensus" by (simp_all add: sample_states_def)
  have b: "vproof_base (VP (drawn_init 34 0)) = Ok (drawn_init 34 0)" by (simp add: vproof_base_def)
  have h: "is_i64 (vp_height (drawn_init 34 0))" "vp_height (drawn_init 34 0) < 2 ^ 63 - 1"
    "vp_height (drawn_init 34 1) = vp_height (drawn_init 34 0) \<and> vp_round (drawn_init 34 1) > vp_round (drawn_init 34 0) \<or>
     vp_height (drawn_init 34 1) = vp_height (drawn_init 34 0) + 1"
    by (simp_all add: drawn_init_fields is_i64_def)
  have j: "ss_state ?s \<in> {StateJoining, StateConsensus, StateHandover}" by (simp add: s)
  show ?thesis by (rule drawn_init_syncs [OF drawn_init_fields(1,2) i s(1) b h j, unfolded s(2)])
qed

lemma sample_last_voteproof:
  "db_LastVoteproof (leveldb_storage :: (alist_store database, unit) storage_db) (sample_db []) StageINIT = Ok None"
  "db_LastVoteproof (leveldb_storage :: (alist_store database, unit) storage_db) (sample_db []) StageACCEPT = Ok None"
  "CheckBlockEmpty (leveldb_storage :: (alist_store database, unit) storage_db) (sample_db []) = Ok None"
  by code_simp+

theorem booting_leads_witness:
  "\<exists>e s'. enterState (resting_states sample_lib (\<lambda>xs. xs) (leveldb_storage :: (alist_store database, unit) storage_db) (\<lambda>d. (Ok (), d)))
     (NewStateSwitchContext StateStopped StateBooting) (sample_states StateStopped None) = (Err e, s') \<and> ss_state s' = StateStopped"
proof -
  let ?s = "sample_states StateStopped None" and ?c = "NewStateSwitchContext StateStopped StateBooting"
  let ?D = "leveldb_storage :: (alist_store database, unit) storage_db"
  let ?sts = "resting_states sample_lib (\<lambda>xs. xs) ?D (\<lambda>d. (Ok (), d))"
  have b: "?sts StateBooting = Some (BootingState sample_lib (\<lambda>xs. xs) ?D (\<lambda>d. (Ok (), d)))" by (simp add: resting_states_def)
  have c: "sc_to ?c = StateBooting" by (simp add: NewStateSwitchContext_def)
  have d: "ss_database ?s = sample_db []" "ss_state ?s = StateStopped" by (simp_all add: sample_states_def)
  have "case syncableChannels (\<lambda>xs. xs) ?s of Ok cs \<Rightarrow> length cs = 0 | _ \<Rightarrow> False" by code_simp
  then have "syncableChannels (\<lambda>xs. xs) ?s = Ok []" by (simp split: res.splits)
  then have ch: "syncableChannels (\<lambda>xs. xs) (?s\<lparr>ss_database := sample_db []\<rparr>) = Ok []" by (simp add: sample_states_def)
  have "\<exists>r s'. enterState ?sts ?c ?s = (r, s') \<and> (\<exists>e. r = Err e) \<and> ss_state s' = ss_state ?s"
    using booting_leads [where sts = ?sts and ord = "\<lambda>xs. xs" and clean = "\<lambda>d. (Ok (), d)" and s = ?s and c = ?c and m = None and a = None and i = None and d = "sample_db []" and chs = "[]", OF b c] ch
      sample_last_voteproof d(1) by auto
  then show ?thesis using d(2) by auto
qed

theorem last_voteproof_advances_witness:
  "lvp_le (Some (VP (drawn_init 34 0))) (ss_lvp (snd (States_SwitchState (NewStateSwitchContext StateStopped StateBooting)
     (sample_states StateStopped (Some (VP (drawn_init 34 0)))))))"
proof -
  let ?s = "sample_states StateStopped (Some (VP (drawn_init 34 0)))" and ?D = "leveldb_storage :: (alist_store database, unit) storage_db"
  let ?s' = "snd (States_SwitchState (NewStateSwitchContext StateStopped StateBooting) ?s)"
  let ?sts = "resting_states sample_lib (\<lambda>xs. xs) ?D (\<lambda>d. (Ok (), d))"
  have "node_step sample_lib ?D ?sts ?s ?s'" by (rule request_step [OF surjective_pairing])
  then have n: "(node_step sample_lib ?D ?sts)\<^sup>*\<^sup>* ?s ?s'" by (rule r_into_rtranclp)
  have o': "lvps_ok ?s" by (simp add: lvps_ok_def sample_states_def lvp_le_def)
  have v: "\<forall>st i v t r t'. ?sts st = Some i \<and> if_ProcessVoteproof i v t = (r, t') \<and> r \<noteq> Panic \<longrightarrow> forward t t'"
    "\<forall>st i p t r t'. ?sts st = Some i \<and> if_ProcessProposal i p t = (r, t') \<and> r \<noteq> Panic \<longrightarrow> forward t t'"
    using resting.voteproof_forward resting.proposal_forward by blast+
  have "lvp_le (ss_lvp ?s) (ss_lvp ?s')" using last_voteproof_advances [OF v n o'] by blast
  then show ?thesis by (simp add: sample_states_def)
qed

end
