(* ===== verification/Mitum_Timers.thy ===== *)
theory Mitum_Timers
  imports Mitum_Prelude "HOL-Library.AList"
begin

text \<open>
  Timers (\<^verbatim>\<open>src/util/localtime/timers.go\<close>) and the timer they hold (\<^verbatim>\<open>context_timer.go\<close>, a \<open>ContextDaemon\<close> of \<^verbatim>\<open>src/util/context_daemon.go\<close>). A timer that
  runs calls back after each of its intervals; what a callback does is a value of type \<open>'a\<close>, given its meaning where a turn of the timer is
  taken. \<open>Stop\<close> has waited for the running callback when it returns. The lemmas: which timers run after each
  operation, and with which counts a callback is called.
\<close>

section \<open>A timer\<close>

definition DaemonAlreadyStartedError :: goerr where [err_defs]: "DaemonAlreadyStartedError = NewError ''init'' 4 ''daemon already started''"
definition DaemonAlreadyStoppedError :: goerr where [err_defs]: "DaemonAlreadyStoppedError = NewError ''init'' 5 ''daemon already stopped''"
definition StopTimerError :: goerr where [err_defs]: "StopTimerError = NewError ''init'' 10 ''stop timer''"

type_synonym timer_id = string

record 'a timer =
  tm_id :: timer_id
  tm_interval :: "(nat \<Rightarrow> int) option"
  tm_callback :: "'a option"
  tm_c :: nat
  tm_started :: bool

definition NewContextTimer :: "timer_id \<Rightarrow> int \<Rightarrow> 'a \<Rightarrow> 'a timer" where
  "NewContextTimer i interval callback = \<lparr>tm_id = i, tm_interval = Some (\<lambda>_. interval), tm_callback = Some callback, tm_c = 0, tm_started = False\<rparr>"

definition Timer_SetInterval :: "(nat \<Rightarrow> int) \<Rightarrow> 'a timer \<Rightarrow> 'a timer" where
  "Timer_SetInterval f t = t\<lparr>tm_interval := Some f\<rparr>"

definition Timer_Reset :: "'a timer \<Rightarrow> 'a timer" where
  "Timer_Reset t = t\<lparr>tm_c := 0\<rparr>"

text \<open>The goroutine that \<open>Start\<close> begins resets the count before its first turn.\<close>

definition Timer_Start :: "'a timer \<Rightarrow> unit res \<times> 'a timer" where
  "Timer_Start t = (if tm_started t then (Err DaemonAlreadyStartedError, t) else (Ok (), Timer_Reset (t\<lparr>tm_started := True\<rparr>)))"

definition Timer_Stop :: "'a timer \<Rightarrow> unit res \<times> 'a timer" where
  "Timer_Stop t = (if \<not> tm_started t then (Err DaemonAlreadyStoppedError, t) else (Ok (), t\<lparr>tm_started := False\<rparr>))"

definition finishCallback :: "nat \<Rightarrow> 'a timer \<Rightarrow> 'a timer" where
  "finishCallback cnt t = (if tm_c t = cnt then t\<lparr>tm_c := Suc (tm_c t)\<rparr> else t)"

text \<open>\<open>ended\<close> says that the context ends before the interval is over.\<close>

definition waitAndRun :: "('a \<Rightarrow> nat \<Rightarrow> 'x \<Rightarrow> bool res \<times> 'x) \<Rightarrow> bool \<Rightarrow> 'a \<Rightarrow> nat \<Rightarrow> 'a timer \<Rightarrow> 'x \<Rightarrow> unit res \<times> 'a timer \<times> 'x" where
  "waitAndRun run ended callback cnt t x =
     (if ended then (Ok (), t, x)
      else case run callback cnt x of
        (Err e, x) \<Rightarrow> (Err e, t, x)
      | (Panic, x) \<Rightarrow> (Panic, t, x)
      | (Ok False, x) \<Rightarrow> (Err StopTimerError, t, x)
      | (Ok True, x) \<Rightarrow> (Ok (), finishCallback cnt t, x))"

definition prepareCallback :: "('a \<Rightarrow> nat \<Rightarrow> 'x \<Rightarrow> bool res \<times> 'x) \<Rightarrow> bool \<Rightarrow> 'a timer \<Rightarrow> 'x \<Rightarrow> unit res \<times> 'a timer \<times> 'x" where
  "prepareCallback run ended t x =
     (case (tm_interval t, tm_callback t) of
        (Some intervalfunc, Some callback) \<Rightarrow>
          let cnt = tm_c t in
          if intervalfunc cnt < 1 then (Err (plain ''invalid interval; too narrow, %v''), t, x)
          else waitAndRun run ended callback cnt t x
      | _ \<Rightarrow> (Err (Errorf IgnoreError ''empty interval or callback''), t, x))"

text \<open>A turn of the loop of \<open>start\<close>; the loop ends with the context or an error, and the daemon with it.\<close>

definition Timer_turn :: "('a \<Rightarrow> nat \<Rightarrow> 'x \<Rightarrow> bool res \<times> 'x) \<Rightarrow> bool \<Rightarrow> bool \<Rightarrow> 'a timer \<Rightarrow> 'x \<Rightarrow> unit res \<times> 'a timer \<times> 'x" where
  "Timer_turn run finished ended t x =
     (if finished then (Ok (), t\<lparr>tm_started := False\<rparr>, x)
      else case prepareCallback run ended t x of
        (Ok _, t, x) \<Rightarrow> (Ok (), t, x)
      | (Err _, t, x) \<Rightarrow> (Ok (), t\<lparr>tm_started := False\<rparr>, x)
      | (Panic, t, x) \<Rightarrow> (Panic, t, x))"

section \<open>Many timers\<close>

text \<open>\<open>ts_timers\<close> is the map of the timers by their ids; \<open>None\<close> is an id without a timer.\<close>

record 'a timers =
  ts_timers :: "(timer_id \<times> 'a timer option) list"
  ts_allowNew :: bool

definition NewTimers :: "timer_id list \<Rightarrow> bool \<Rightarrow> 'a timers" where
  "NewTimers ids allowNew = \<lparr>ts_timers = map (\<lambda>i. (i, None)) (remdups ids), ts_allowNew = allowNew\<rparr>"

definition Timers_Stop :: "'a timers \<Rightarrow> unit res \<times> 'a timers" where
  "Timers_Stop ts = (Ok (), ts\<lparr>ts_timers := []\<rparr>)"

definition ResetTimer :: "timer_id \<Rightarrow> 'a timers \<Rightarrow> unit res \<times> 'a timers" where
  "ResetTimer i ts =
     (case map_of (ts_timers ts) i of
        None \<Rightarrow> (Err (plain ''timer, %q not found''), ts)
      | Some None \<Rightarrow> (Err (plain ''timer, %q not running''), ts)
      | Some (Some t) \<Rightarrow> (Ok (), ts\<lparr>ts_timers := AList.update i (Some (Timer_Reset t)) (ts_timers ts)\<rparr>))"

definition SetTimer :: "'a timer \<Rightarrow> 'a timers \<Rightarrow> unit res \<times> 'a timers" where
  "SetTimer timer ts =
     (if map_of (ts_timers ts) (tm_id timer) = None \<and> \<not> ts_allowNew ts then (Err (plain ''not allowed to add new timer: %s''), ts)
      else
        (case (case map_of (ts_timers ts) (tm_id timer) of
                 Some (Some existing) \<Rightarrow> if tm_started existing then fst (Timer_Stop existing) else Ok ()
               | _ \<Rightarrow> Ok ()) of
           Ok _ \<Rightarrow> (Ok (), ts\<lparr>ts_timers := AList.update (tm_id timer) (Some timer) (ts_timers ts)\<rparr>)
         | r \<Rightarrow> (r, ts)))"

definition Timers_checkExists :: "timer_id list \<Rightarrow> 'a timers \<Rightarrow> unit res" where
  "Timers_checkExists ids ts = seq (map (\<lambda>i. fail_if (map_of (ts_timers ts) i = None) (plain ''timer not found: %s'')) ids)"

text \<open>\<open>traverse\<close> runs the callback on the timers in goroutines of their own, each on its own timer.\<close>

definition Timers_traverse :: "('a timer \<Rightarrow> 'a timer) \<Rightarrow> timer_id list \<Rightarrow> 'a timers \<Rightarrow> unit res \<times> 'a timers" where
  "Timers_traverse callback ids ts =
     (case Timers_checkExists ids ts of
        Ok _ \<Rightarrow> (Ok (), ts\<lparr>ts_timers := map (\<lambda>(i, t). (i, if i \<in> set ids then map_option callback t else t)) (ts_timers ts)\<rparr>)
      | r \<Rightarrow> (r, ts))"

definition stop_callback :: "'a timer \<Rightarrow> 'a timer" where
  "stop_callback t = (if \<not> tm_started t then t else snd (Timer_Stop t))"

definition start_callback :: "'a timer \<Rightarrow> 'a timer" where
  "start_callback t = (if tm_started t then t else snd (Timer_Start t))"

definition Timers_stopTimers :: "timer_id list \<Rightarrow> 'a timers \<Rightarrow> unit res \<times> 'a timers" where
  "Timers_stopTimers ids ts =
     (case Timers_traverse stop_callback ids ts of
        (Ok _, ts) \<Rightarrow> (Ok (), ts\<lparr>ts_timers := foldl (\<lambda>m i. AList.update i None m) (ts_timers ts) ids\<rparr>)
      | r \<Rightarrow> r)"

definition StartTimers :: "timer_id list \<Rightarrow> bool \<Rightarrow> 'a timers \<Rightarrow> unit res \<times> 'a timers" where
  "StartTimers ids stopOthers ts =
     (let stopIDs = filter (\<lambda>i. i \<notin> set ids) (map fst (ts_timers ts)) in
      case (if stopOthers \<and> length stopIDs > 0 then Timers_stopTimers stopIDs ts else (Ok (), ts)) of
        (Ok _, ts) \<Rightarrow> Timers_traverse start_callback ids ts
      | r \<Rightarrow> r)"

definition StopTimers :: "timer_id list \<Rightarrow> 'a timers \<Rightarrow> unit res \<times> 'a timers" where
  "StopTimers ids ts = Timers_stopTimers ids ts"

definition StopTimersAll :: "'a timers \<Rightarrow> unit res \<times> 'a timers" where
  "StopTimersAll ts = (let ids = map fst (ts_timers ts) in if length ids < 1 then (Ok (), ts) else Timers_stopTimers ids ts)"

definition Timers_Started :: "'a timers \<Rightarrow> timer_id list" where
  "Timers_Started ts = map fst (filter (\<lambda>(i, t). case t of None \<Rightarrow> False | Some t \<Rightarrow> tm_started t) (ts_timers ts))"

definition IsTimerStarted :: "timer_id \<Rightarrow> 'a timers \<Rightarrow> bool" where
  "IsTimerStarted i ts = (case map_of (ts_timers ts) i of Some (Some t) \<Rightarrow> tm_started t | _ \<Rightarrow> False)"

section \<open>Which timers run\<close>

text \<open>Ids are listed once, and a timer is found under its own id.\<close>

definition timers_ok :: "'a timers \<Rightarrow> bool" where
  "timers_ok ts \<longleftrightarrow> distinct (map fst (ts_timers ts)) \<and> (\<forall>i t. map_of (ts_timers ts) i = Some (Some t) \<longrightarrow> tm_id t = i)"

lemma NewTimers_ok: "timers_ok (NewTimers ids b)"
  by (auto simp: timers_ok_def NewTimers_def comp_def dest!: map_of_SomeD)

lemma map_of_map_if:
  "map_of (map (\<lambda>(i, t). (i, if i \<in> A then f t else t)) m) i = (if i \<in> A then map_option f (map_of m i) else map_of m i)"
  by (induction m) auto

lemma foldl_update_None:
  "map_of (foldl (\<lambda>m i. AList.update i None m) m ids) i = (if i \<in> set ids then Some None else map_of m i)"
  by (induction ids arbitrary: m) (auto simp: update_conv)

lemma foldl_update_keys:
  "set ids \<subseteq> fst ` set m \<Longrightarrow> map fst (foldl (\<lambda>m i. AList.update i None m) m ids) = map fst m"
proof (induction ids arbitrary: m)
  case (Cons i ids)
  then have "map fst (AList.update i None m) = map fst m" by (simp add: update_keys)
  moreover from this have "set ids \<subseteq> fst ` set (AList.update i None m)" using Cons.prems by (metis list.set_map set_subset_Cons subset_trans list.set_intros insert_subset list.simps(15))
  ultimately show ?case using Cons.IH by simp
qed simp

lemma checkExists_iff: "Timers_checkExists ids ts = Ok () \<longleftrightarrow> set ids \<subseteq> fst ` set (ts_timers ts)"
  by (induction ids) (auto simp: Timers_checkExists_def fail_if_def map_of_eq_None_iff image_iff)

lemma traverse_Ok:
  assumes "Timers_traverse f ids ts = (Ok (), ts')"
  shows "set ids \<subseteq> fst ` set (ts_timers ts)" and "map fst (ts_timers ts') = map fst (ts_timers ts)" and "ts_allowNew ts' = ts_allowNew ts"
    and "map_of (ts_timers ts') i = (if i \<in> set ids then map_option (map_option f) (map_of (ts_timers ts) i) else map_of (ts_timers ts) i)"
  using assms checkExists_iff [of ids ts]
  by (auto simp: Timers_traverse_def map_of_map_if comp_def split: res.splits prod.splits)

lemma stopTimers_Ok:
  assumes "Timers_stopTimers ids ts = (Ok (), ts')"
  shows "set ids \<subseteq> fst ` set (ts_timers ts)" and "map fst (ts_timers ts') = map fst (ts_timers ts)" and "ts_allowNew ts' = ts_allowNew ts"
    and "map_of (ts_timers ts') i = (if i \<in> set ids then Some None else map_of (ts_timers ts) i)"
proof -
  obtain t where t: "Timers_traverse stop_callback ids ts = (Ok (), t)" "ts' = t\<lparr>ts_timers := foldl (\<lambda>m i. AList.update i None m) (ts_timers t) ids\<rparr>"
    using assms by (auto simp: Timers_stopTimers_def split: res.splits prod.splits)
  note tr = traverse_Ok [OF t(1)]
  show "set ids \<subseteq> fst ` set (ts_timers ts)" by (rule tr(1))
  have "set ids \<subseteq> fst ` set (ts_timers t)" using tr(1,2) by (metis list.set_map)
  then show "map fst (ts_timers ts') = map fst (ts_timers ts)" using t(2) tr(2) foldl_update_keys [of ids "ts_timers t"] by simp
  show "ts_allowNew ts' = ts_allowNew ts" using t(2) tr(3) by simp
  show "map_of (ts_timers ts') i = (if i \<in> set ids then Some None else map_of (ts_timers ts) i)"
    using t(2) tr(4) by (simp add: foldl_update_None)
qed

lemma stopTimers_total: "set ids \<subseteq> fst ` set (ts_timers ts) \<Longrightarrow> \<exists>ts'. Timers_stopTimers ids ts = (Ok (), ts')"
  using checkExists_iff [of ids ts] by (simp add: Timers_stopTimers_def Timers_traverse_def)

text \<open>\<open>StartTimers\<close> succeeds exactly when the ids exist; what it leaves of every id.\<close>

lemma StartTimers_Ok:
  assumes "timers_ok ts" and "set ids \<subseteq> fst ` set (ts_timers ts)"
  shows "\<exists>ts'. StartTimers ids stopOthers ts = (Ok (), ts') \<and> map fst (ts_timers ts') = map fst (ts_timers ts) \<and> ts_allowNew ts' = ts_allowNew ts \<and>
    (\<forall>i. map_of (ts_timers ts') i =
       (if i \<in> set ids then map_option (map_option start_callback) (map_of (ts_timers ts) i)
        else if stopOthers then map_option (\<lambda>_. None) (map_of (ts_timers ts) i) else map_of (ts_timers ts) i))"
proof -
  let ?stop = "filter (\<lambda>i. i \<notin> set ids) (map fst (ts_timers ts))"
  obtain t where t: "(if stopOthers \<and> length ?stop > 0 then Timers_stopTimers ?stop ts else (Ok (), ts)) = (Ok (), t)"
    using stopTimers_total [of ?stop ts] by (cases "stopOthers \<and> length ?stop > 0") auto
  have k: "map fst (ts_timers t) = map fst (ts_timers ts)" "ts_allowNew t = ts_allowNew ts"
    and m: "\<And>i. map_of (ts_timers t) i = (if stopOthers \<and> i \<in> set ?stop then Some None else map_of (ts_timers ts) i)"
    using t stopTimers_Ok [of ?stop ts t] by (auto split: if_splits simp: filter_empty_conv)
  have "set ids \<subseteq> fst ` set (ts_timers t)" using assms(2) k(1) by (metis list.set_map)
  then obtain ts' where ts': "Timers_traverse start_callback ids t = (Ok (), ts')" using checkExists_iff [of ids t] by (simp add: Timers_traverse_def)
  have "i \<in> fst ` set (ts_timers ts) \<longleftrightarrow> map_of (ts_timers ts) i \<noteq> None" for i by (simp add: map_of_eq_None_iff)
  then have "map_of (ts_timers ts') i =
       (if i \<in> set ids then map_option (map_option start_callback) (map_of (ts_timers ts) i)
        else if stopOthers then map_option (\<lambda>_. None) (map_of (ts_timers ts) i) else map_of (ts_timers ts) i)" for i
    using traverse_Ok(4) [OF ts', of i] m [of i] by (cases "map_of (ts_timers ts) i") (auto simp: image_iff)
  moreover have "StartTimers ids stopOthers ts = (Ok (), ts')" unfolding StartTimers_def Let_def t using ts' by simp
  ultimately show ?thesis using traverse_Ok(2,3) [OF ts'] k by auto
qed

lemma start_callback_started [simp]: "tm_started (start_callback t)" "tm_id (start_callback t) = tm_id t"
  by (simp_all add: start_callback_def Timer_Start_def Timer_Reset_def)

lemma SetTimer_Ok:
  assumes "timers_ok ts" and "tm_id t \<in> fst ` set (ts_timers ts)"
  shows "\<exists>ts'. SetTimer t ts = (Ok (), ts') \<and> timers_ok ts' \<and> fst ` set (ts_timers ts') = fst ` set (ts_timers ts) \<and>
    ts_allowNew ts' = ts_allowNew ts \<and> map_of (ts_timers ts') = (map_of (ts_timers ts))(tm_id t \<mapsto> Some t)"
proof -
  have "map_of (ts_timers ts) (tm_id t) \<noteq> None" using assms(2) by (simp add: map_of_eq_None_iff)
  then have "SetTimer t ts = (Ok (), ts\<lparr>ts_timers := AList.update (tm_id t) (Some t) (ts_timers ts)\<rparr>)"
    by (auto simp: SetTimer_def Timer_Stop_def split: option.splits)
  moreover have "fst ` set (AList.update (tm_id t) (Some t) (ts_timers ts)) = fst ` set (ts_timers ts)"
    using assms(2) by (metis update_keys list.set_map)
  ultimately show ?thesis using assms(1) by (auto simp: timers_ok_def update_conv' distinct_update)
qed

text \<open>
  After \<open>SetTimer\<close> and \<open>StartTimers(ids, true)\<close> the new timer runs from its first interval on, if its id is one of \<open>ids\<close>; the other timers that run are
  those of \<open>ids\<close> that were set before, and nothing else: every timer of another id has been stopped and removed. Both calls succeed on
  known ids.
\<close>

theorem started_timers_exclusive:
  assumes "timers_ok ts" and "set ids \<subseteq> fst ` set (ts_timers ts)" and "tm_id t \<in> set ids" and "\<not> tm_started t"
  shows "\<exists>ts1 ts2. SetTimer t ts = (Ok (), ts1) \<and> StartTimers ids True ts1 = (Ok (), ts2) \<and> timers_ok ts2 \<and>
    map_of (ts_timers ts2) (tm_id t) = Some (Some (t\<lparr>tm_started := True, tm_c := 0\<rparr>)) \<and>
    (\<forall>i. IsTimerStarted i ts2 \<longleftrightarrow> i = tm_id t \<or> i \<in> set ids \<and> (\<exists>t'. map_of (ts_timers ts) i = Some (Some t')))"
proof -
  obtain ts1 where a: "SetTimer t ts = (Ok (), ts1)" "timers_ok ts1" "fst ` set (ts_timers ts1) = fst ` set (ts_timers ts)"
    "map_of (ts_timers ts1) = (map_of (ts_timers ts))(tm_id t \<mapsto> Some t)" using SetTimer_Ok [OF assms(1), of t] assms(2,3) by auto
  obtain ts2 where b: "StartTimers ids True ts1 = (Ok (), ts2)" "map fst (ts_timers ts2) = map fst (ts_timers ts1)"
    "\<And>i. map_of (ts_timers ts2) i = (if i \<in> set ids then map_option (map_option start_callback) (map_of (ts_timers ts1) i)
       else map_option (\<lambda>_. None) (map_of (ts_timers ts1) i))"
    using StartTimers_Ok [OF a(2), of ids True] assms(2) a(3) by auto
  have "timers_ok ts2" using a(2) b(2,3) by (auto simp: timers_ok_def split: if_splits)
  moreover have "map_of (ts_timers ts2) (tm_id t) = Some (Some (t\<lparr>tm_started := True, tm_c := 0\<rparr>))"
    using a(4) b(3) assms(3,4) by (simp add: start_callback_def Timer_Start_def Timer_Reset_def)
  moreover have "IsTimerStarted i ts2 \<longleftrightarrow> i = tm_id t \<or> i \<in> set ids \<and> (\<exists>t'. map_of (ts_timers ts) i = Some (Some t'))" for i
    using a(4) b(3) [of i] assms(3) by (auto simp: IsTimerStarted_def split: option.splits if_splits)
  ultimately show ?thesis using a(1) b(1) by blast
qed

definition sample_timers :: "nat timers" where
  "sample_timers = snd (SetTimer (NewContextTimer ''b'' 5 1) (NewTimers [''a'', ''b''] False))"

theorem started_timers_exclusive_witness:
  "\<exists>ts1 ts2. SetTimer (NewContextTimer ''a'' 5 0) sample_timers = (Ok (), ts1) \<and> StartTimers [''a''] True ts1 = (Ok (), ts2) \<and>
     IsTimerStarted ''a'' ts2 \<and> \<not> IsTimerStarted ''b'' ts2"
proof -
  let ?t = "NewContextTimer ''a'' 5 0 :: nat timer"
  have "map fst (ts_timers sample_timers) = [''a'', ''b'']" by (simp add: sample_timers_def NewTimers_def SetTimer_def NewContextTimer_def)
  then have k: "set [''a''] \<subseteq> fst ` set (ts_timers sample_timers)" by (metis list.set_map list.set_intros(1) empty_subsetI insert_subset list.set(1) list.simps(15))
  have o: "timers_ok sample_timers"
    by (auto simp: timers_ok_def sample_timers_def NewTimers_def SetTimer_def NewContextTimer_def split: if_splits)
  have t: "tm_id ?t = ''a''" "\<not> tm_started ?t" by (simp_all add: NewContextTimer_def)
  then have m: "tm_id ?t \<in> set [''a'']" by simp
  from started_timers_exclusive [OF o k m t(2)] obtain ts1 ts2 where "SetTimer ?t sample_timers = (Ok (), ts1)" "StartTimers [''a''] True ts1 = (Ok (), ts2)"
    "\<forall>i. IsTimerStarted i ts2 \<longleftrightarrow> i = tm_id ?t \<or> i \<in> set [''a''] \<and> (\<exists>t'. map_of (ts_timers sample_timers) i = Some (Some t'))" by blast
  moreover from this(3) have "IsTimerStarted ''a'' ts2" "\<not> IsTimerStarted ''b'' ts2" by (simp_all add: t(1))
  ultimately show ?thesis by blast
qed

end
