(* ===== verification/Mitum_OpProcessor.thy ===== *)
theory Mitum_OpProcessor
  imports Mitum_Block Mitum_State
begin

text \<open>
  Processing the operations of a proposal: the reasons of refused operations (\<^verbatim>\<open>src/base/operation/tree.go\<close>), the node of the states
  tree (\<^verbatim>\<open>src/base/state/tree.go\<close>) and \<open>ConcurrentOperationsProcessor\<close> (\<^verbatim>\<open>src/base/prprocessor/operation.go\<close>).
  What an operation does to the states is application code: the methods of \<open>state.Processor\<close> and \<open>OperationProcessor\<close> are arguments. The
  accepted jobs run concurrently; a schedule says when each one runs, a whole job at a time.
\<close>

section \<open>Reasons\<close>

definition NewBaseReasonError :: "string \<Rightarrow> goerr" where
  "NewBaseReasonError s = Errorf (NewError ''NewBaseReasonError'' 106 []) s"

text \<open>\<open>errors.As\<close> with a target of type \<open>ReasonError\<close>; only \<open>NewBaseReasonError\<close> makes errors with its identifier.\<close>

fun error_As_Reason :: "goerr \<Rightarrow> bool" where
  "error_As_Reason (NErr i m w) \<longleftrightarrow> i = ''NewBaseReasonError:106'' \<or> (case w of None \<Rightarrow> False | Some e \<Rightarrow> error_As_Reason e)"
| "error_As_Reason (FmtErr m w) \<longleftrightarrow> (case w of None \<Rightarrow> False | Some e \<Rightarrow> error_As_Reason e)"

definition operationIgnored :: "goerr \<Rightarrow> bool" where
  "operationIgnored e \<longleftrightarrow> error_Is e IgnoreError \<or> error_As_Reason e"

definition StateFixedTreeNodeHint :: hint where
  "StateFixedTreeNodeHint = NewHint ''state-fixedtree-node'' ''v0.0.1''"

definition NewStateFixedTreeNode :: "u64 \<Rightarrow> bytes \<Rightarrow> fnode" where
  "NewStateFixedTreeNode i k = \<lparr>fn_ht = StateFixedTreeNodeHint, fn_index = i, fn_key = k, fn_hash = []\<rparr>"

section \<open>Operation processors\<close>

text \<open>
  The interface \<open>OperationProcessor\<close>, on a state of type \<open>'o\<close>; a pre-processed operation that is no \<open>operation.Operation\<close> is \<open>None\<close>.
\<close>

record 'o op_processor =
  opp_New :: 'o
  opp_PreProcess :: "'o \<Rightarrow> operation \<Rightarrow> statepool \<Rightarrow> operation option res \<times> 'o \<times> statepool"
  opp_Process :: "'o \<Rightarrow> operation \<Rightarrow> statepool \<Rightarrow> unit res \<times> 'o \<times> statepool"
  opp_Close :: "'o \<Rightarrow> unit res"
  opp_Cancel :: "'o \<Rightarrow> unit res"

text \<open>
  What the processor calls: the library, the cache of the hint set, and of an operation whether it is a \<open>state.Processor\<close>, its
  \<open>PreProcess\<close> when it is a \<open>state.PreProcessor\<close>, and its \<open>Process\<close>, the latter two on the pool's \<open>Get\<close> and \<open>Set\<close>.
\<close>

record 'c openv =
  oe_L :: lib
  oe_cget :: "'c \<Rightarrow> string \<Rightarrow> unit cache_lookup \<times> 'c"
  oe_cset :: "'c \<Rightarrow> string \<Rightarrow> unit cached \<Rightarrow> 'c"
  oe_IsProcessor :: "operation \<Rightarrow> bool"
  oe_PreProcess :: "operation \<Rightarrow> (statepool \<Rightarrow> operation option res \<times> statepool) option"
  oe_Process :: "operation \<Rightarrow> statepool \<Rightarrow> unit res \<times> statepool"

definition default_PreProcess :: "'c openv \<Rightarrow> operation \<Rightarrow> statepool \<Rightarrow> operation option res \<times> statepool" where
  "default_PreProcess E op pool = (case oe_PreProcess E op of Some f \<Rightarrow> f pool | None \<Rightarrow> (Ok (Some op), pool))"

definition default_Process :: "'c openv \<Rightarrow> operation \<Rightarrow> statepool \<Rightarrow> unit res \<times> statepool" where
  "default_Process E op pool = oe_Process E op pool"

section \<open>The concurrent processor\<close>

text \<open>
  \<open>co_oprs\<close> has an operation processor per hint, \<open>None\<close> for the default one. \<open>co_pending\<close> are the jobs that the worker has accepted and not
  yet run, \<open>co_err\<close> the first error of a job, which cancels the worker; \<open>co_canceled\<close> says that the context around it is done.
\<close>

record ('o, 'c) coproc =
  co_max :: int
  co_pool :: statepool
  co_oppHintSet :: "(unit, 'c, 'o op_processor) hintmap option"
  co_oprs :: "(hint \<times> ('o op_processor \<times> 'o) option) list"
  co_tree :: "unit opnode_ext fixedtree_generator"
  co_wk :: bool
  co_closed :: bool
  co_canceled :: bool
  co_pending :: "(nat \<times> operation option) list"
  co_err :: "goerr option"

definition maxConcurrentOperations :: int where "maxConcurrentOperations = 500"

definition NewConcurrentOperationsProcessor ::
  "u64 \<Rightarrow> int \<Rightarrow> statepool \<Rightarrow> (unit, 'c, 'o op_processor) hintmap option \<Rightarrow> ('o, 'c) coproc res" where
  "NewConcurrentOperationsProcessor sz mx pool hm =
     (if mx < 1 then Err (plain ''max must be over 0'')
      else Ok \<lparr>co_max = (if mx > maxConcurrentOperations then maxConcurrentOperations else mx), co_pool = pool, co_oppHintSet = hm,
              co_oprs = [], co_tree = NewFixedTreeGenerator sz, co_wk = False, co_closed = False, co_canceled = False,
              co_pending = [], co_err = None\<rparr>)"

definition Co_Start :: "('o, 'c) coproc \<Rightarrow> ('o, 'c) coproc" where
  "Co_Start co = co\<lparr>co_wk := True\<rparr>"

definition addOperationsTree :: "nat \<Rightarrow> hash \<Rightarrow> goerr option \<Rightarrow> ('o, 'c) coproc \<Rightarrow> unit res \<times> ('o, 'c) coproc" where
  "addOperationsTree index fh reason co =
     (case FixedTreeGenerator_Add (co_tree co) (NewOperationFixedTreeNode (of_nat index) (Hash_Bytes fh) (reason = None) reason) of
        (r, tg) \<Rightarrow> (r, co\<lparr>co_tree := tg\<rparr>))"

text \<open>\<open>opr\<close> leaves the operation processor of the operation's hint in \<open>co_oprs\<close>.\<close>

definition Co_opr :: "'c openv \<Rightarrow> operation \<Rightarrow> ('o, 'c) coproc \<Rightarrow> unit res \<times> ('o, 'c) coproc" where
  "Co_opr E op co =
     (if map_of (co_oprs co) (op_ht op) \<noteq> None then (Ok (), co)
      else case co_oppHintSet co of
        None \<Rightarrow> (Ok (), co\<lparr>co_oprs := AList.update (op_ht op) None (co_oprs co)\<rparr>)
      | Some hm \<Rightarrow>
          (case Hintmap_CompatibleByHint (oe_L E) (oe_cget E) (oe_cset E) hm (op_ht op) of
             (Panic, hm) \<Rightarrow> (Panic, co\<lparr>co_oppHintSet := Some hm\<rparr>)
           | (Err _, hm) \<Rightarrow> (Ok (), co\<lparr>co_oppHintSet := Some hm, co_oprs := AList.update (op_ht op) None (co_oprs co)\<rparr>)
           | (Ok None, hm) \<Rightarrow> (Panic, co\<lparr>co_oppHintSet := Some hm\<rparr>)
           | (Ok (Some opp), hm) \<Rightarrow>
               (Ok (), co\<lparr>co_oppHintSet := Some hm, co_oprs := AList.update (op_ht op) (Some (opp, opp_New opp)) (co_oprs co)\<rparr>)))"

definition Co_PreProcess :: "'c openv \<Rightarrow> operation \<Rightarrow> ('o, 'c) coproc \<Rightarrow> operation option res \<times> ('o, 'c) coproc" where
  "Co_PreProcess E op co =
     (case Co_opr E op co of
        (Err e, co) \<Rightarrow> (Err e, co)
      | (Panic, co) \<Rightarrow> (Panic, co)
      | (Ok _, co) \<Rightarrow>
          (case map_of (co_oprs co) (op_ht op) of
             Some (Some (opp, s)) \<Rightarrow>
               (case opp_PreProcess opp s op (co_pool co) of
                  (r, s, pool) \<Rightarrow> (r, co\<lparr>co_pool := pool, co_oprs := AList.update (op_ht op) (Some (opp, s)) (co_oprs co)\<rparr>))
           | _ \<Rightarrow> (case default_PreProcess E op (co_pool co) of (r, pool) \<Rightarrow> (r, co\<lparr>co_pool := pool\<rparr>))))"

definition Co_process :: "'c openv \<Rightarrow> nat \<Rightarrow> operation \<Rightarrow> ('o, 'c) coproc \<Rightarrow> unit res \<times> ('o, 'c) coproc" where
  "Co_process E index op co =
     (case Co_PreProcess E op co of
        (Err e, co) \<Rightarrow> (Err e, co)
      | (Panic, co) \<Rightarrow> (Panic, co)
      | (Ok ppr, co) \<Rightarrow>
          if co_canceled co \<or> co_err co \<noteq> None then (Err (Errorf IgnoreError ''operation processor already closed''), co)
          else (Ok (), co\<lparr>co_pending := co_pending co @ [(index, ppr)]\<rparr>))"

definition Co_Process :: "'c openv \<Rightarrow> nat \<Rightarrow> operation \<Rightarrow> ('o, 'c) coproc \<Rightarrow> unit res \<times> ('o, 'c) coproc" where
  "Co_Process E index op co =
     (if \<not> co_wk co then (Err (plain ''not started''), co)
      else case Operation_FactHash op of
        Err e \<Rightarrow> (Err e, co)
      | Panic \<Rightarrow> (Panic, co)
      | Ok fh \<Rightarrow>
          if \<not> oe_IsProcessor E op then addOperationsTree index fh (Some (NewBaseReasonError ''not operation, %T'')) co
          else case Co_process E index op co of
            (Ok _, co) \<Rightarrow> (Ok (), co)
          | (Panic, co) \<Rightarrow> (Panic, co)
          | (Err e, co) \<Rightarrow>
              (case addOperationsTree index fh (Some e) co of
                 (Ok _, co) \<Rightarrow> (if operationIgnored e then Ok () else Err e, co)
               | (r, co) \<Rightarrow> (r, co)))"

definition Co_workProcess ::
  "'c openv \<Rightarrow> (operation \<Rightarrow> unit res) \<Rightarrow> operation \<Rightarrow> ('o, 'c) coproc \<Rightarrow> unit res \<times> ('o, 'c) coproc" where
  "Co_workProcess E workFilter op co =
     (case workFilter op of
        Err e \<Rightarrow> (Err e, co)
      | Panic \<Rightarrow> (Panic, co)
      | Ok _ \<Rightarrow>
          (case Co_opr E op co of
             (Err e, co) \<Rightarrow> (Err e, co)
           | (Panic, co) \<Rightarrow> (Panic, co)
           | (Ok _, co) \<Rightarrow>
               (case map_of (co_oprs co) (op_ht op) of
                  Some (Some (opp, s)) \<Rightarrow>
                    (case opp_Process opp s op (co_pool co) of
                       (r, s, pool) \<Rightarrow> (r, co\<lparr>co_pool := pool, co_oprs := AList.update (op_ht op) (Some (opp, s)) (co_oprs co)\<rparr>))
                | _ \<Rightarrow> (case default_Process E op (co_pool co) of (r, pool) \<Rightarrow> (r, co\<lparr>co_pool := pool\<rparr>)))))"

text \<open>A job, with the worker's note of the first error.\<close>

definition Co_work ::
  "'c openv \<Rightarrow> (operation \<Rightarrow> unit res) \<Rightarrow> nat \<Rightarrow> operation option \<Rightarrow> ('o, 'c) coproc \<Rightarrow> unit res \<times> ('o, 'c) coproc" where
  "Co_work E workFilter jobid ppr co =
     (case ppr of
        None \<Rightarrow> (Err (plain ''operation.Operation is not operation.Operation, %T''), co)
      | Some op \<Rightarrow>
          (case Co_workProcess E workFilter op co of
             (Panic, co) \<Rightarrow> (Panic, co)
           | (r, co) \<Rightarrow>
               (case Operation_FactHash op of
                  Ok fh \<Rightarrow>
                    (let reason = (case r of Err e \<Rightarrow> Some e | _ \<Rightarrow> None) in
                     case addOperationsTree jobid fh reason co of
                       (Ok _, co) \<Rightarrow> (case r of Err e \<Rightarrow> if operationIgnored e then Ok () else Err e | _ \<Rightarrow> Ok (), co)
                     | (cerr, co) \<Rightarrow> (cerr, co))
                | _ \<Rightarrow> (Panic, co))))"

definition Co_job ::
  "'c openv \<Rightarrow> (operation \<Rightarrow> unit res) \<Rightarrow> nat \<times> operation option \<Rightarrow> ('o, 'c) coproc \<Rightarrow> unit res \<times> ('o, 'c) coproc" where
  "Co_job E workFilter j co =
     (case Co_work E workFilter (fst j) (snd j) co of
        (Ok _, co) \<Rightarrow> (Ok (), co)
      | (Err e, co) \<Rightarrow> (Ok (), co\<lparr>co_err := (case co_err co of None \<Rightarrow> Some e | Some e0 \<Rightarrow> Some e0)\<rparr>)
      | (Panic, co) \<Rightarrow> (Panic, co))"

section \<open>Schedules\<close>

text \<open>
  The goroutine of \<open>concurrentProcessStatesTree\<close> hands the operations over in order while the workers run the accepted jobs: at each turn
  the next operation is handed over, an accepted job runs, or the context ends. When the schedule is used up, the operations that are left
  are handed over and then the jobs that are left run, which is what \<open>Close\<close> waits for.
\<close>

datatype co_turn = THandOver | TWork nat | TCancel

fun hand_over :: "'c openv \<Rightarrow> nat \<Rightarrow> operation list \<Rightarrow> ('o, 'c) coproc \<Rightarrow> unit res \<times> ('o, 'c) coproc" where
  "hand_over E i [] co = (Ok (), co)"
| "hand_over E i (op # ops) co = (case Co_Process E i op co of (Ok _, co) \<Rightarrow> hand_over E (Suc i) ops co | (r, co) \<Rightarrow> (r, co))"

fun run_jobs :: "'c openv \<Rightarrow> (operation \<Rightarrow> unit res) \<Rightarrow> (nat \<times> operation option) list \<Rightarrow> ('o, 'c) coproc \<Rightarrow> unit res \<times> ('o, 'c) coproc" where
  "run_jobs E workFilter [] co = (Ok (), co)"
| "run_jobs E workFilter (j # js) co = 
     (case Co_job E workFilter j (co\<lparr>co_pending := js\<rparr>) of (Ok _, co) \<Rightarrow> run_jobs E workFilter js co | (r, co) \<Rightarrow> (r, co))"

fun run_schedule ::
  "'c openv \<Rightarrow> (operation \<Rightarrow> unit res) \<Rightarrow> co_turn list \<Rightarrow> nat \<Rightarrow> operation list \<Rightarrow> ('o, 'c) coproc \<Rightarrow> unit res \<times> ('o, 'c) coproc" where
  "run_schedule E F [] i ops co =
     (case hand_over E i ops co of
        (Ok _, co) \<Rightarrow> run_jobs E F (co_pending co) co
      | (r, co) \<Rightarrow> (r, co))"
| "run_schedule E F (THandOver # s) i [] co = run_schedule E F s i [] co"
| "run_schedule E F (THandOver # s) i (op # ops) co =
     (case Co_Process E i op co of (Ok _, co) \<Rightarrow> run_schedule E F s (Suc i) ops co | (r, co) \<Rightarrow> (r, co))"
| "run_schedule E F (TWork k # s) i ops co =
     (if k < length (co_pending co)
      then case Co_job E F (co_pending co ! k) (co\<lparr>co_pending := take k (co_pending co) @ drop (Suc k) (co_pending co)\<rparr>) of
             (Ok _, co) \<Rightarrow> run_schedule E F s i ops co
           | (r, co) \<Rightarrow> (r, co)
      else run_schedule E F s i ops co)"
| "run_schedule E F (TCancel # s) i ops co = run_schedule E F s i ops (co\<lparr>co_canceled := True\<rparr>)"

section \<open>Ending the work\<close>

definition oprs_each :: "('o op_processor \<Rightarrow> 'o \<Rightarrow> unit res) \<Rightarrow> ('o, 'c) coproc \<Rightarrow> unit res" where
  "oprs_each f co = seq (map (\<lambda>e. case snd e of None \<Rightarrow> Ok () | Some (opp, s) \<Rightarrow> f opp s) (co_oprs co))"

definition Co_Close :: "('o, 'c) coproc \<Rightarrow> unit res \<times> ('o, 'c) coproc" where
  "Co_Close co =
     (if \<not> co_wk co \<or> co_closed co then (Ok (), co)
      else (case co_err co of Some e \<Rightarrow> Err e | None \<Rightarrow> oprs_each opp_Close co, co\<lparr>co_closed := True\<rparr>))"

definition Co_Cancel :: "('o, 'c) coproc \<Rightarrow> unit res \<times> ('o, 'c) coproc" where
  "Co_Cancel co =
     (if \<not> co_wk co \<or> co_closed co then (Ok (), co)
      else (oprs_each opp_Cancel co, co\<lparr>co_closed := True, co_canceled := True\<rparr>))"

section \<open>The trees\<close>

fun hashed_states :: "lib \<Rightarrow> updater list \<Rightarrow> statev0 list res" where
  "hashed_states L [] = Ok []"
| "hashed_states L (s # ss) =
     bind_res (StateV0_GenerateHash L (StateUpdater_GetState s)) (\<lambda>(h, st).
     bind_res (StateV0_SetHash st h) (\<lambda>ust.
     bind_res (StateV0_IsValid ust) (\<lambda>_.
     bind_res (hashed_states L ss) (\<lambda>sts. Ok (ust # sts)))))"

fun add_states :: "nat \<Rightarrow> statev0 list \<Rightarrow> unit fixedtree_generator \<Rightarrow> unit res \<times> unit fixedtree_generator" where
  "add_states i [] trg = (Ok (), trg)"
| "add_states i (s # ss) trg =
     (case st_h s of
        None \<Rightarrow> (Panic, trg)
      | Some h \<Rightarrow>
          (case FixedTreeGenerator_Add trg (NewStateFixedTreeNode (of_nat i) (Hash_Bytes h)) of
             (Ok _, trg) \<Rightarrow> add_states (Suc i) ss trg | (r, trg) \<Rightarrow> (r, trg)))"

definition state_bytes :: "statev0 \<Rightarrow> bytes" where
  "state_bytes s = (case st_h s of None \<Rightarrow> [] | Some h \<Rightarrow> Hash_Bytes h)"

definition Co_StatesTree :: "lib \<Rightarrow> ('o, 'c) coproc \<Rightarrow> (statetree \<times> statev0 list) res" where
  "Co_StatesTree L co =
     (let updates = Statepool_Updates (co_pool co) in
      bind_res (hashed_states L updates) (\<lambda>states.
        let states = sort_key state_bytes states in
        case add_states 0 states (NewFixedTreeGenerator (of_nat (length updates))) of
          (Ok _, trg) \<Rightarrow> bind_res (fst (FixedTreeGenerator_Tree L trg)) (\<lambda>tr. Ok (tr, states))
        | (Err e, _) \<Rightarrow> Err e
        | (Panic, _) \<Rightarrow> Panic))"

fun add_added :: "nat \<Rightarrow> operation list \<Rightarrow> ('o, 'c) coproc \<Rightarrow> unit res \<times> ('o, 'c) coproc" where
  "add_added i [] co = (Ok (), co)"
| "add_added i (op # ops) co =
     (case Operation_FactHash op of
        Ok fh \<Rightarrow> (case addOperationsTree i fh None co of (Ok _, co) \<Rightarrow> add_added (Suc i) ops co | (r, co) \<Rightarrow> (r, co))
      | Err e \<Rightarrow> (Err e, co) | Panic \<Rightarrow> (Panic, co))"

text \<open>The new generator takes over the nodes of the old one.\<close>

definition copy_node :: "'a fixedtree_generator \<Rightarrow> 'a fnode_scheme option \<Rightarrow> bool res \<times> 'a fixedtree_generator" where
  "copy_node trg no = (case no of None \<Rightarrow> (Panic, trg)
     | Some no \<Rightarrow> (case FixedTreeGenerator_Add trg no of (Ok _, trg) \<Rightarrow> (Ok True, trg) | (Err e, trg) \<Rightarrow> (Err e, trg) | (Panic, trg) \<Rightarrow> (Panic, trg)))"

text \<open>\<open>added\<close> are the operations of \<open>AddedOperations\<close>, a map, in the order in which the loop happens to meet them.\<close>

definition Co_OperationsTree :: "lib \<Rightarrow> operation list \<Rightarrow> ('o, 'c) coproc \<Rightarrow> optree res \<times> ('o, 'c) coproc" where
  "Co_OperationsTree L added co =
     (let sz = length (tr_nodes (tg_tree (co_tree co))); n = length added;
          finish = (\<lambda>co. case FixedTreeGenerator_Tree L (co_tree co) of (r, tg) \<Rightarrow> (r, co\<lparr>co_tree := tg\<rparr>))
      in if n < 1 then finish co
         else case FixedTree_Traverse copy_node
                (tr_nodes (tg_tree (co_tree co))) (NewFixedTreeGenerator (of_nat (sz + n))) of
            (Err e, _) \<Rightarrow> (Err e, co)
          | (Panic, _) \<Rightarrow> (Panic, co)
          | (Ok _, trg) \<Rightarrow>
              (case add_added sz added (co\<lparr>co_tree := trg\<rparr>) of
                 (Ok _, co) \<Rightarrow> finish co
               | (Err e, co) \<Rightarrow> (Err e, co)
               | (Panic, co) \<Rightarrow> (Panic, co)))"

section \<open>The outcome does not depend on the schedule\<close>

text \<open>
  The reason that the operations tree records for an operation of an application without operation processors of its own: the reference
  is a run of the operation alone, at any pool.
\<close>

definition op_reason :: "'c openv \<Rightarrow> (operation \<Rightarrow> unit res) \<Rightarrow> statepool \<Rightarrow> operation \<Rightarrow> goerr option" where
  "op_reason E F pool op =
     (if \<not> oe_IsProcessor E op then Some (NewBaseReasonError ''not operation, %T'')
      else case fst (default_PreProcess E op pool) of
        Err e \<Rightarrow> Some e
      | _ \<Rightarrow> (case F op of Err e \<Rightarrow> Some e | _ \<Rightarrow> (case fst (default_Process E op pool) of Err e \<Rightarrow> Some e | _ \<Rightarrow> None)))"

text \<open>
  An operation whose results do not depend on what other operations have done: pre-processing gives the operation itself or an error,
  nothing panics, and an error is one that the processor ignores.
\<close>

definition settled :: "'c openv \<Rightarrow> (operation \<Rightarrow> unit res) \<Rightarrow> operation \<Rightarrow> bool" where
  "settled E F op \<longleftrightarrow>
     (\<exists>fh. Operation_FactHash op = Ok fh \<and> Hash_Bytes fh \<noteq> []) \<and> F op \<noteq> Panic \<and>
     (\<exists>r s. (\<forall>pool. fst (default_PreProcess E op pool) = r \<and> fst (default_Process E op pool) = s) \<and>
        (r = Ok (Some op) \<or> (\<exists>e. r = Err e)) \<and> s \<noteq> Panic) \<and>
     (\<forall>pool e. op_reason E F pool op = Some e \<longrightarrow> operationIgnored e)"

definition op_node :: "'c openv \<Rightarrow> (operation \<Rightarrow> unit res) \<Rightarrow> statepool \<Rightarrow> operation list \<Rightarrow> nat \<Rightarrow> opnode" where
  "op_node E F pool ops j =
     NewOperationFixedTreeNode (of_nat j) (Hash_Bytes (ok_val (Operation_FactHash (ops ! j))))
       (op_reason E F pool (ops ! j) = None) (op_reason E F pool (ops ! j))"

text \<open>What holds while the schedule runs: \<open>i\<close> operations are handed over, each of them waits as a job or has its node.\<close>

definition co_ready :: "lib \<Rightarrow> nat \<Rightarrow> ('o, 'c) coproc \<Rightarrow> bool" where
  "co_ready L n co \<longleftrightarrow> co_wk co \<and> \<not> co_closed co \<and> \<not> co_canceled co \<and> co_err co = None \<and> co_oppHintSet co = None \<and>
     (\<forall>x \<in> set (co_oprs co). snd x = None) \<and> gen_inv L n (co_tree co)"

definition co_runs :: "lib \<Rightarrow> 'c openv \<Rightarrow> (operation \<Rightarrow> unit res) \<Rightarrow> statepool \<Rightarrow> operation list \<Rightarrow> nat \<Rightarrow> ('o, 'c) coproc \<Rightarrow> bool" where
  "co_runs L E F pool ops i co \<longleftrightarrow> co_ready L (length ops) co \<and> i \<le> length ops \<and>
     (\<forall>p \<in> set (co_pending co). fst p < i \<and> snd p = Some (ops ! fst p) \<and> oe_IsProcessor E (ops ! fst p) \<and>
        fst (default_PreProcess E (ops ! fst p) pool) = Ok (Some (ops ! fst p))) \<and>
     (\<forall>j < i. (j, Some (ops ! j)) \<in> set (co_pending co) \<or> tr_nodes (tg_tree (co_tree co)) ! j = Some (op_node E F pool ops j))"

lemma op_type_valid: "Type_IsValid ''operation-fixedtree-node'' = Ok ()"
  by code_simp

lemma gen_inv_length: "gen_inv L n tg \<Longrightarrow> length (tr_nodes (tg_tree tg)) = n"
  by (simp add: gen_inv_def)

text \<open>Recording an operation fills its slot.\<close>

lemma addOperationsTree_node:
  assumes "semver_IsValid L ''v0.0.1''" and "co_ready L n co" and "j < n" and "n < 2 ^ 40" and "Hash_Bytes fh \<noteq> []"
  shows "\<exists>tg. addOperationsTree j fh reason co = (Ok (), co\<lparr>co_tree := tg\<rparr>) \<and> co_ready L n (co\<lparr>co_tree := tg\<rparr>) \<and>
    tr_nodes (tg_tree tg) = (tr_nodes (tg_tree (co_tree co)))[j := Some (NewOperationFixedTreeNode (of_nat j) (Hash_Bytes fh) (reason = None) reason)]"
proof -
  let ?x = "NewOperationFixedTreeNode (of_nat j) (Hash_Bytes fh) (reason = None) reason"
  have x: "fn_index ?x = of_nat j" "fn_key ?x = Hash_Bytes fh" "?x\<lparr>fn_hash := []\<rparr> = ?x" "Hint_IsValid L (fn_ht ?x) = Ok ()"
    by (simp_all add: NewOperationFixedTreeNode_def NewOperationFixedTreeNodeWithHash_def OperationFixedTreeNodeHint_def
        std_hint_valid [OF op_type_valid assms(1)])
  have j: "j < 2 ^ 64" "unat (of_nat j :: u64) = j" using assms(3,4) by (simp_all add: unat_of_nat_small)
  have g: "gen_inv L n (co_tree co)" using assms(2) by (simp add: co_ready_def)
  have "\<not> of_nat n \<le> (of_nat j :: u64)" using assms(3,4) j of_nat_u64_less [of j n] by (simp add: not_le)
  then have "fst (FixedTreeGenerator_Add (co_tree co) ?x) = Ok ()"
    using g assms(5) by (simp add: FixedTreeGenerator_Add_def x gen_inv_def Suc_le_eq)
  then obtain tg where tg: "FixedTreeGenerator_Add (co_tree co) ?x = (Ok (), tg)" by (metis prod.collapse)
  from gen_inv_Add [OF g assms(4) x(4)] tg j(2) assms(3,5) x have "gen_inv L n tg" "tr_nodes (tg_tree tg) = (tr_nodes (tg_tree (co_tree co)))[j := Some ?x]"
    by simp_all
  with tg assms(2) show ?thesis by (auto simp: addOperationsTree_def co_ready_def)
qed

lemma oprs_update_all: "\<forall>x \<in> set m. P (snd x) \<Longrightarrow> P v \<Longrightarrow> \<forall>x \<in> set (AList.update k v m). P (snd x)"
  by (induction m) auto

lemma Co_opr_default:
  assumes "co_oppHintSet co = None" and "\<forall>x \<in> set (co_oprs co). snd x = None"
  shows "\<exists>os. Co_opr E op co = (Ok (), co\<lparr>co_oprs := os\<rparr>) \<and> map_of os (op_ht op) = Some None \<and> (\<forall>x \<in> set os. snd x = None)"
proof (cases "map_of (co_oprs co) (op_ht op)")
  case None
  show ?thesis using None assms(1) oprs_update_all [of "co_oprs co" "\<lambda>y. y = None" None "op_ht op"] assms(2)
    by (auto simp: Co_opr_def update_conv)
next
  case (Some x)
  then have "(op_ht op, x) \<in> set (co_oprs co)" by (rule map_of_SomeD)
  with assms(2) Some have "map_of (co_oprs co) (op_ht op) = Some None" by auto
  then show ?thesis using assms(2) by (auto simp: Co_opr_def intro!: exI [of _ "co_oprs co"])
qed

text \<open>Without operation processors of the application the default one runs, on the pool as it is.\<close>

lemma Co_PreProcess_default:
  assumes "co_ready L n co" and "default_PreProcess E op (co_pool co) = (r, pool)"
  shows "\<exists>os. Co_PreProcess E op co = (r, co\<lparr>co_oprs := os, co_pool := pool\<rparr>) \<and> co_ready L n (co\<lparr>co_oprs := os, co_pool := pool\<rparr>)"
proof -
  have "co_oppHintSet co = None" "\<forall>x \<in> set (co_oprs co). snd x = None" using assms(1) by (simp_all add: co_ready_def)
  from Co_opr_default [OF this, of E op] obtain os where "Co_opr E op co = (Ok (), co\<lparr>co_oprs := os\<rparr>)"
    "map_of os (op_ht op) = Some None" "\<forall>x \<in> set os. snd x = None" by blast
  then show ?thesis using assms by (auto simp: Co_PreProcess_def co_ready_def)
qed

lemma Co_workProcess_default:
  assumes "co_ready L n co" and "F op \<noteq> Panic" and "\<forall>pool. fst (default_Process E op pool) = s"
  shows "\<exists>os pool. Co_workProcess E F op co = (case F op of Ok _ \<Rightarrow> s | r \<Rightarrow> r, co\<lparr>co_oprs := os, co_pool := pool\<rparr>) \<and>
    co_ready L n (co\<lparr>co_oprs := os, co_pool := pool\<rparr>)"
proof (cases "F op")
  case (Ok u)
  have "co_oppHintSet co = None" "\<forall>x \<in> set (co_oprs co). snd x = None" using assms(1) by (simp_all add: co_ready_def)
  from Co_opr_default [OF this, of E op] obtain os where "Co_opr E op co = (Ok (), co\<lparr>co_oprs := os\<rparr>)"
    "map_of os (op_ht op) = Some None" "\<forall>x \<in> set os. snd x = None" by blast
  moreover obtain pool where "default_Process E op (co_pool co) = (s, pool)" using assms(3) by (metis prod.collapse)
  ultimately show ?thesis using assms(1) Ok by (auto simp: Co_workProcess_def co_ready_def)
next
  case (Err e)
  then show ?thesis using assms(1) by (auto simp: Co_workProcess_def co_ready_def intro!: exI [of _ "co_oprs co"] exI [of _ "co_pool co"])
qed (use assms(2) in simp)

lemma settled_parts:
  assumes "settled E F op"
  obtains fh r s where "Operation_FactHash op = Ok fh" "Hash_Bytes fh \<noteq> []" "F op \<noteq> Panic" "s \<noteq> Panic"
    "\<forall>pool. fst (default_PreProcess E op pool) = r" "\<forall>pool. fst (default_Process E op pool) = s" "r = Ok (Some op) \<or> (\<exists>e. r = Err e)"
    "\<forall>pool e. op_reason E F pool op = Some e \<longrightarrow> operationIgnored e"
  using assms unfolding settled_def by blast

lemma op_node_eq: "Operation_FactHash (ops ! j) = Ok fh \<Longrightarrow> op_reason E F pool (ops ! j) = reason \<Longrightarrow>
    NewOperationFixedTreeNode (of_nat j) (Hash_Bytes fh) (reason = None) reason = op_node E F pool ops j"
  by (simp add: op_node_def)

text \<open>Handing over the next operation: it has its node at once or it waits as a job.\<close>

lemma Co_Process_runs:
  assumes "semver_IsValid L ''v0.0.1''" and "length ops < 2 ^ 40" and "settled E F (ops ! i)" and "i < length ops" and "co_runs L E F pool ops i co"
  shows "\<exists>co'. Co_Process E i (ops ! i) co = (Ok (), co') \<and> co_runs L E F pool ops (Suc i) co'"
proof -
  let ?op = "ops ! i" and ?n = "length ops"
  obtain fh r s where p: "Operation_FactHash ?op = Ok fh" "Hash_Bytes fh \<noteq> []" "\<forall>pool. fst (default_PreProcess E ?op pool) = r"
    "r = Ok (Some ?op) \<or> (\<exists>e. r = Err e)" "\<forall>pool e. op_reason E F pool ?op = Some e \<longrightarrow> operationIgnored e"
    by (rule settled_parts [OF assms(3)])
  have rd: "co_ready L ?n co" using assms(5) by (simp add: co_runs_def)
  have wk: "co_wk co" using rd by (simp add: co_ready_def)
  have filled: "\<exists>co'. addOperationsTree i fh reason co1 = (Ok (), co') \<and> co_runs L E F pool ops (Suc i) co'"
    if "co_ready L ?n co1" "co_pending co1 = co_pending co" "co_tree co1 = co_tree co" "op_reason E F pool ?op = reason" for co1 reason
  proof -
    note c = that
    obtain tg where tg: "addOperationsTree i fh reason co1 = (Ok (), co1\<lparr>co_tree := tg\<rparr>)" "co_ready L ?n (co1\<lparr>co_tree := tg\<rparr>)"
      "tr_nodes (tg_tree tg) = (tr_nodes (tg_tree (co_tree co)))[i := Some (op_node E F pool ops i)]"
      using addOperationsTree_node [OF assms(1) c(1) assms(4,2) p(2), of reason] op_node_eq [OF p(1) c(4)] c(3) by auto
    then show ?thesis using assms(4,5) c(2) gen_inv_length [of L ?n "co_tree co"] rd
      by (auto simp: co_runs_def co_ready_def nth_list_update less_Suc_eq)
  qed
  show ?thesis
  proof (cases "oe_IsProcessor E ?op")
    case False
    with filled [OF rd refl refl, of "Some (NewBaseReasonError ''not operation, %T'')"] show ?thesis
      using wk p(1) by (auto simp: Co_Process_def op_reason_def)
  next
    case True
    obtain q where q: "default_PreProcess E ?op (co_pool co) = (r, q)" using p(3) by (metis prod.collapse)
    obtain os where os: "Co_PreProcess E ?op co = (r, co\<lparr>co_oprs := os, co_pool := q\<rparr>)" "co_ready L ?n (co\<lparr>co_oprs := os, co_pool := q\<rparr>)"
      using Co_PreProcess_default [OF rd q] by blast
    from p(4) show ?thesis
    proof
      assume r: "r = Ok (Some ?op)"
      let ?co = "co\<lparr>co_oprs := os, co_pool := q, co_pending := co_pending co @ [(i, Some ?op)]\<rparr>"
      have "Co_Process E i ?op co = (Ok (), ?co)"
        using os r wk p(1) True by (simp add: Co_Process_def Co_process_def co_ready_def)
      moreover have "co_runs L E F pool ops (Suc i) ?co"
        using assms(4,5) os(2) True p(3) r by (auto simp: co_runs_def co_ready_def less_Suc_eq)
      ultimately show ?thesis by blast
    next
      assume "\<exists>e. r = Err e"
      then obtain e where e: "r = Err e" by blast
      then have re: "op_reason E F pool ?op = Some e" using True p(3) by (simp add: op_reason_def)
      with filled [OF os(2), of "Some e"] p(5) show ?thesis
        using os(1) e wk p(1) True by (auto simp: Co_Process_def Co_process_def)
    qed
  qed
qed

text \<open>A job that runs fills the slot of its operation.\<close>

lemma Co_job_runs:
  assumes "semver_IsValid L ''v0.0.1''" and "length ops < 2 ^ 40" and "\<forall>op \<in> set ops. settled E F op" and "co_runs L E F pool ops i co"
    and "p \<in> set (co_pending co)" and "set (co_pending co) = insert p (set ps)"
  shows "\<exists>co'. Co_job E F p (co\<lparr>co_pending := ps\<rparr>) = (Ok (), co') \<and> co_runs L E F pool ops i co' \<and> co_pending co' = ps"
proof -
  let ?n = "length ops" and ?j = "fst p" and ?co = "co\<lparr>co_pending := ps\<rparr>"
  have q: "?j < i" "i \<le> ?n" "snd p = Some (ops ! ?j)" "oe_IsProcessor E (ops ! ?j)" "fst (default_PreProcess E (ops ! ?j) pool) = Ok (Some (ops ! ?j))"
    using assms(4,5) by (auto simp: co_runs_def)
  then have j: "?j < ?n" by simp
  then have st: "settled E F (ops ! ?j)" using assms(3) by simp
  obtain fh s where p: "Operation_FactHash (ops ! ?j) = Ok fh" "Hash_Bytes fh \<noteq> []" "F (ops ! ?j) \<noteq> Panic" "s \<noteq> Panic"
    "\<forall>pool. fst (default_Process E (ops ! ?j) pool) = s" "\<forall>pool e. op_reason E F pool (ops ! ?j) = Some e \<longrightarrow> operationIgnored e"
    by (rule settled_parts [OF st])
  let ?r = "case F (ops ! ?j) of Ok _ \<Rightarrow> s | r \<Rightarrow> r"
  let ?reason = "case ?r of Err e \<Rightarrow> Some e | _ \<Rightarrow> None"
  have rd: "co_ready L ?n ?co" using assms(4) by (simp add: co_runs_def co_ready_def)
  obtain os pl where os: "Co_workProcess E F (ops ! ?j) ?co = (?r, ?co\<lparr>co_oprs := os, co_pool := pl\<rparr>)" "co_ready L ?n (?co\<lparr>co_oprs := os, co_pool := pl\<rparr>)"
    using Co_workProcess_default [where F = F and op = "ops ! fst p", OF rd p(3,5)] by blast
  have re: "op_reason E F pool (ops ! ?j) = ?reason"
    using q(4,5) p(3,5) by (simp add: op_reason_def split: res.splits)
  obtain tg where tg: "addOperationsTree ?j fh ?reason (?co\<lparr>co_oprs := os, co_pool := pl\<rparr>) = (Ok (), ?co\<lparr>co_oprs := os, co_pool := pl, co_tree := tg\<rparr>)"
    "co_ready L ?n (?co\<lparr>co_oprs := os, co_pool := pl, co_tree := tg\<rparr>)"
    "tr_nodes (tg_tree tg) = (tr_nodes (tg_tree (co_tree co)))[?j := Some (op_node E F pool ops ?j)]"
    using addOperationsTree_node [OF assms(1) os(2) j assms(2) p(2), of ?reason] op_node_eq [OF p(1) re] by auto
  let ?co' = "?co\<lparr>co_oprs := os, co_pool := pl, co_tree := tg\<rparr>"
  have ign: "operationIgnored e" if "?r = Err e" for e using p(6) re unfolding that by simp
  have "?r \<noteq> Panic" using p(3,4) by (cases "F (ops ! ?j)") auto
  then have "Co_job E F p ?co = (Ok (), ?co')"
    using os(1) tg(1) p(1) q(3) ign by (cases ?r) (simp_all add: Co_job_def Co_work_def)
  moreover have "co_runs L E F pool ops i ?co'"
    using assms(4,6) tg(2,3) q(1,2) j gen_inv_length [of L ?n "co_tree co"] rd
    by (auto simp: co_runs_def co_ready_def nth_list_update)
  ultimately show ?thesis by auto
qed

lemma hand_over_runs:
  assumes "semver_IsValid L ''v0.0.1''" and "length ops < 2 ^ 40" and "\<forall>op \<in> set ops. settled E F op" and "co_runs L E F pool ops i co"
  shows "\<exists>co'. hand_over E i (drop i ops) co = (Ok (), co') \<and> co_runs L E F pool ops (length ops) co'"
  using assms(4)
proof (induction "length ops - i" arbitrary: i co)
  case 0
  then have "i = length ops" by (simp add: co_runs_def)
  with 0 show ?case by simp
next
  case (Suc k)
  then have i: "i < length ops" by simp
  then obtain co1 where "Co_Process E i (ops ! i) co = (Ok (), co1)" "co_runs L E F pool ops (Suc i) co1"
    using Co_Process_runs [OF assms(1,2) _ i Suc.prems] assms(3) by auto
  moreover have "k = length ops - Suc i" using Suc.hyps(2) by simp
  from Suc.hyps(1) [OF this calculation(2)] obtain co' where "hand_over E (Suc i) (drop (Suc i) ops) co1 = (Ok (), co')" "co_runs L E F pool ops (length ops) co'" by auto
  ultimately show ?case by (simp add: Cons_nth_drop_Suc [OF i, symmetric])
qed

lemma run_jobs_runs:
  assumes "semver_IsValid L ''v0.0.1''" and "length ops < 2 ^ 40" and "\<forall>op \<in> set ops. settled E F op" and "co_runs L E F pool ops i co"
    and "co_pending co = ps"
  shows "\<exists>co'. run_jobs E F ps co = (Ok (), co') \<and> co_runs L E F pool ops i co' \<and> co_pending co' = []"
  using assms(4,5)
proof (induction ps arbitrary: co)
  case (Cons p ps)
  then obtain co1 where "Co_job E F p (co\<lparr>co_pending := ps\<rparr>) = (Ok (), co1)" "co_runs L E F pool ops i co1" "co_pending co1 = ps"
    using Co_job_runs [OF assms(1-3) Cons.prems(1), of p ps] by auto
  with Cons.IH show ?case by simp
qed auto

lemma run_schedule_runs:
  assumes "semver_IsValid L ''v0.0.1''" and "length ops < 2 ^ 40" and "\<forall>op \<in> set ops. settled E F op" and "co_runs L E F pool ops i co"
    and "TCancel \<notin> set s"
  shows "\<exists>co'. run_schedule E F s i (drop i ops) co = (Ok (), co') \<and> co_runs L E F pool ops (length ops) co' \<and> co_pending co' = []"
  using assms(4,5)
proof (induction s arbitrary: i co)
  case Nil
  from hand_over_runs [OF assms(1-3) Nil.prems(1)] obtain co1 where
    "hand_over E i (drop i ops) co = (Ok (), co1)" "co_runs L E F pool ops (length ops) co1" by blast
  then show ?case using run_jobs_runs [OF assms(1-3), of pool "length ops" co1] by simp
next
  case (Cons t s)
  show ?case
  proof (cases t)
    case THandOver
    show ?thesis
    proof (cases "i < length ops")
      case True
      then obtain co1 where "Co_Process E i (ops ! i) co = (Ok (), co1)" "co_runs L E F pool ops (Suc i) co1"
        using Co_Process_runs [OF assms(1,2) _ True Cons.prems(1)] assms(3) by auto
      with Cons.IH [of "Suc i" co1] Cons.prems(2) THandOver show ?thesis by (simp add: Cons_nth_drop_Suc [OF True, symmetric])
    next
      case False
      with Cons.IH [of i co] Cons.prems THandOver show ?thesis by simp
    qed
  next
    case (TWork k)
    show ?thesis
    proof (cases "k < length (co_pending co)")
      case True
      let ?ps = "take k (co_pending co) @ drop (Suc k) (co_pending co)"
      have "co_pending co = take k (co_pending co) @ co_pending co ! k # drop (Suc k) (co_pending co)" using True by (rule id_take_nth_drop)
      then have "set (co_pending co) = insert (co_pending co ! k) (set ?ps)" by (metis Un_insert_right list.simps(15) set_append)
      with Co_job_runs [OF assms(1-3) Cons.prems(1), of "co_pending co ! k" ?ps] True
      obtain co1 where "Co_job E F (co_pending co ! k) (co\<lparr>co_pending := ?ps\<rparr>) = (Ok (), co1)" "co_runs L E F pool ops i co1" by auto
      with Cons.IH [of i co1] Cons.prems(2) TWork True show ?thesis by simp
    next
      case False
      with Cons.IH [of i co] Cons.prems TWork show ?thesis by simp
    qed
  next
    case TCancel
    with Cons.prems(2) show ?thesis by simp
  qed
qed

lemma new_runs:
  assumes "NewConcurrentOperationsProcessor (of_nat (length ops)) (int (length ops)) pool0 None = Ok co" and "length ops < 2 ^ 40"
  shows "co_runs L E F pool ops 0 (Co_Start co)"
  using assms gen_inv_new [OF assms(2)]
  by (auto simp: NewConcurrentOperationsProcessor_def Co_Start_def co_runs_def co_ready_def split: if_splits)


section \<open>Operations added while processing\<close>

lemma traverse_copies:
  assumes "gen_inv L n tg" and "None \<notin> set (tr_nodes (tg_tree tg))" and "n \<le> m" and "m < 2 ^ 40" and "gen_inv L m trg" and "k \<le> n"
  shows "\<exists>trg'. FixedTree_Traverse copy_node (drop k (tr_nodes (tg_tree tg))) trg = (Ok (), trg') \<and> gen_inv L m trg' \<and>
    (\<forall>j < m. tr_nodes (tg_tree trg') ! j = (if k \<le> j \<and> j < n then tr_nodes (tg_tree tg) ! j else tr_nodes (tg_tree trg) ! j))"
  using assms(5,6)
proof (induction "n - k" arbitrary: k trg)
  case 0
  then show ?case using gen_inv_length [OF assms(1)] by auto
next
  case (Suc d)
  let ?ns = "tr_nodes (tg_tree tg)"
  have k: "k < n" "k < length ?ns" using Suc.hyps(2) gen_inv_length [OF assms(1)] by auto
  have "?ns ! k \<noteq> None" using assms(2) nth_mem [OF k(2)] by metis
  then obtain x where x: "?ns ! k = Some x" by blast
  then have p: "fn_index x = of_nat k" "fn_key x \<noteq> []" "fn_hash x = []" "Hint_IsValid L (fn_ht x) = Ok ()"
    using assms(1) k(1) by (auto simp: gen_inv_def)
  have u: "unat (fn_index x) = k" using k(1) assms(3,4) p(1) by (simp add: unat_of_nat_small)
  have same: "x\<lparr>fn_hash := []\<rparr> = x" using p(3) by (cases x) simp
  obtain r t where t: "FixedTreeGenerator_Add trg x = (r, t)" by fastforce
  have "\<not> tg_size trg \<le> fn_index x"
    using Suc.prems(1) p(1) k(1) assms(3,4) of_nat_u64_less [of k m] by (simp add: gen_inv_def not_le)
  then have r: "r = Ok ()" using t p(2) by (auto simp: FixedTreeGenerator_Add_def Suc_le_eq)
  have g: "gen_inv L m t" "tr_nodes (tg_tree t) = (tr_nodes (tg_tree trg))[k := Some x]"
    using gen_inv_Add [OF Suc.prems(1) assms(4) p(4)] t u p(2) same k(1) assms(3) by simp_all
  have d: "d = n - Suc k" "Suc k \<le> n" using Suc.hyps(2) k(1) by auto
  from Suc.hyps(1) [OF d(1) g(1) d(2)] obtain t' where t': "FixedTree_Traverse copy_node (drop (Suc k) ?ns) t = (Ok (), t')" "gen_inv L m t'"
    "\<forall>j < m. tr_nodes (tg_tree t') ! j = (if Suc k \<le> j \<and> j < n then ?ns ! j else tr_nodes (tg_tree t) ! j)"
    by blast
  have "FixedTree_Traverse copy_node (drop k ?ns) trg = (Ok (), t')"
    using t t'(1) r x by (simp add: Cons_nth_drop_Suc [OF k(2), symmetric] copy_node_def)
  moreover have "tr_nodes (tg_tree t') ! j = (if k \<le> j \<and> j < n then ?ns ! j else tr_nodes (tg_tree trg) ! j)" if "j < m" for j
    using t'(3) that g(2) x gen_inv_length [OF Suc.prems(1)] k(1) by (cases "j = k") (simp_all add: Suc_le_eq)
  ultimately show ?case using t'(2) by blast
qed

lemma add_added_fills:
  assumes "semver_IsValid L ''v0.0.1''" and "n < 2 ^ 40" and "\<forall>op \<in> set ops. \<exists>fh. Operation_FactHash op = Ok fh \<and> Hash_Bytes fh \<noteq> []"
    and "co_ready L n co" and "i + length ops = n"
  shows "\<exists>tg. add_added i ops co = (Ok (), co\<lparr>co_tree := tg\<rparr>) \<and> gen_inv L n tg \<and>
    tr_nodes (tg_tree tg) = take i (tr_nodes (tg_tree (co_tree co))) @
      map (\<lambda>j. Some (NewOperationFixedTreeNode (of_nat (i + j)) (Hash_Bytes (ok_val (Operation_FactHash (ops ! j)))) True None)) [0..<length ops]"
  using assms(3-5)
proof (induction ops arbitrary: i co)
  case Nil
  then show ?case by (auto simp: co_ready_def gen_inv_def intro!: exI [of _ "co_tree co"])
next
  case (Cons op ops)
  obtain fh where fh: "Operation_FactHash op = Ok fh" "Hash_Bytes fh \<noteq> []" using Cons.prems(1) by auto
  have i: "i < n" using Cons.prems(3) by simp
  let ?x = "Some (NewOperationFixedTreeNode (of_nat i) (Hash_Bytes fh) True None)"
  have ln: "length (tr_nodes (tg_tree (co_tree co))) = n" using Cons.prems(2) gen_inv_length by (auto simp: co_ready_def)
  obtain t where t: "addOperationsTree i fh None co = (Ok (), co\<lparr>co_tree := t\<rparr>)" "co_ready L n (co\<lparr>co_tree := t\<rparr>)"
    "tr_nodes (tg_tree t) = (tr_nodes (tg_tree (co_tree co)))[i := ?x]"
    using addOperationsTree_node [OF assms(1) Cons.prems(2) i assms(2) fh(2), of None] by auto
  from Cons.IH [OF _ t(2), of "Suc i"] Cons.prems(1,3) obtain tg where tg: "add_added (Suc i) ops (co\<lparr>co_tree := t\<rparr>) = (Ok (), co\<lparr>co_tree := tg\<rparr>)"
    "gen_inv L n tg" "tr_nodes (tg_tree tg) = take (Suc i) (tr_nodes (tg_tree t)) @
      map (\<lambda>j. Some (NewOperationFixedTreeNode (of_nat (Suc i + j)) (Hash_Bytes (ok_val (Operation_FactHash (ops ! j)))) True None)) [0..<length ops]"
    by auto
  have "take (Suc i) (tr_nodes (tg_tree t)) = take i (tr_nodes (tg_tree (co_tree co))) @ [?x]"
    using ln i t(3) by (simp add: take_Suc_conv_app_nth take_update_cancel)
  moreover have "[0..<length (op # ops)] = 0 # map Suc [0..<length ops]" using upt_conv_Cons [of 0 "Suc (length ops)"] by (simp add: map_Suc_upt del: upt_Suc)
  ultimately have "tr_nodes (tg_tree tg) = take i (tr_nodes (tg_tree (co_tree co))) @
      map (\<lambda>j. Some (NewOperationFixedTreeNode (of_nat (i + j)) (Hash_Bytes (ok_val (Operation_FactHash ((op # ops) ! j)))) True None)) [0..<length (op # ops)]"
    using tg(3) fh(1) by (simp add: comp_def add_ac del: upt_Suc)
  then show ?case using tg(1,2) t(1) fh(1) by auto
qed

definition fact_key :: "operation \<Rightarrow> bytes" where
  "fact_key op = Hash_Bytes (ok_val (Operation_FactHash op))"

definition added_node :: "nat \<Rightarrow> operation list \<Rightarrow> nat \<Rightarrow> opnode option" where
  "added_node n ops j = Some (NewOperationFixedTreeNode (of_nat (n + j)) (fact_key (ops ! j)) True None)"

lemma added_node_keys: "map (map_option fn_key) (map (added_node n ops) [0..<length ops]) = map (\<lambda>op. Some (fact_key op)) ops"
  by (rule nth_equalityI) (simp_all add: added_node_def NewOperationFixedTreeNode_def NewOperationFixedTreeNodeWithHash_def)

lemma cleared_keys: "map (map_option fn_key) (cleared ns) = map (map_option fn_key) ns"
  by (simp add: cleared_def comp_def option.map_comp)

text \<open>The added operations come after those of the proposal, in the order of the loop.\<close>

lemma OperationsTree_added:
  assumes "log2_exact L" and "sha256_shape L" and "semver_IsValid L ''v0.0.1''" and "co_ready L n co" and "None \<notin> set (tr_nodes (tg_tree (co_tree co)))"
    and "ops \<noteq> []" and "n + length ops < 2 ^ 40" and "\<forall>op \<in> set ops. \<exists>fh. Operation_FactHash op = Ok fh \<and> Hash_Bytes fh \<noteq> []"
  shows "\<exists>tr. fst (Co_OperationsTree L ops co) = Ok tr \<and> FixedTree_IsValid L tr = Ok () \<and>
    map (map_option fn_key) (tr_nodes tr) = map (map_option fn_key) (tr_nodes (tg_tree (co_tree co))) @ map (\<lambda>op. Some (fact_key op)) ops"
proof -
  let ?ns = "tr_nodes (tg_tree (co_tree co))" and ?m = "n + length ops"
  let ?new = "NewFixedTreeGenerator (of_nat ?m) :: unit opnode_ext fixedtree_generator"
  have g: "gen_inv L n (co_tree co)" using assms(4) by (simp add: co_ready_def)
  have m: "0 < ?m" using assms(6) by simp
  have nw: "gen_inv L ?m ?new" using assms(7) by (rule gen_inv_new)
  obtain t where t: "FixedTree_Traverse copy_node ?ns ?new = (Ok (), t)" "gen_inv L ?m t"
    "\<forall>j < ?m. tr_nodes (tg_tree t) ! j = (if j < n then ?ns ! j else tr_nodes (tg_tree ?new) ! j)"
    using traverse_copies [OF g assms(5) le_add1 assms(7) nw le0] by auto
  have rd: "co_ready L ?m (co\<lparr>co_tree := t\<rparr>)" using assms(4) t(2) by (simp add: co_ready_def)
  have tk: "take n (tr_nodes (tg_tree t)) = ?ns" using t(3) gen_inv_length [OF t(2)] gen_inv_length [OF g] by (intro nth_equalityI) auto
  obtain tg where tg: "add_added n ops (co\<lparr>co_tree := t\<rparr>) = (Ok (), co\<lparr>co_tree := tg\<rparr>)" "gen_inv L ?m tg"
    "tr_nodes (tg_tree tg) = ?ns @ map (added_node n ops) [0..<length ops]"
    using add_added_fills [OF assms(3,7,8) rd refl] tk by (auto simp: added_node_def [abs_def] fact_key_def)
  have nn: "None \<notin> set (tr_nodes (tg_tree tg))" unfolding tg(3) using assms(5) by (auto simp: added_node_def)
  obtain tr tg' where tr: "FixedTreeGenerator_Tree L tg = (Ok tr, tg')" "FixedTree_IsValid L tr = Ok ()" "cleared (tr_nodes tr) = tr_nodes (tg_tree tg)"
    using Tree_complete [OF assms(1-3) m assms(7) tg(2) nn] by blast
  have "map (map_option fn_key) (tr_nodes tr) = map (map_option fn_key) ?ns @ map (\<lambda>op. Some (fact_key op)) ops"
    using cleared_keys [of "tr_nodes tr"] unfolding tr(3) tg(3) map_append added_node_keys by (rule sym)
  moreover have "fst (Co_OperationsTree L ops co) = Ok tr"
    using assms(6) t(1) tg(1) tr(1) gen_inv_length [OF g] by (simp add: Co_OperationsTree_def Let_def Suc_le_eq)
  ultimately show ?thesis using tr(2) by blast
qed

text \<open>
  The operations that processing adds are appended to the operations tree in the order in which the loop meets them, which for the map
  of added operations is any order: two nodes with the same states and operations build different trees, and so different blocks.
\<close>

theorem added_operations_order_matters:
  assumes "log2_exact L" and "sha256_shape L" and "semver_IsValid L ''v0.0.1''" and "co_ready L n co" and "None \<notin> set (tr_nodes (tg_tree (co_tree co)))"
    and "added \<noteq> []" and "n + length added < 2 ^ 40" and "\<forall>op \<in> set added. \<exists>fh. Operation_FactHash op = Ok fh \<and> Hash_Bytes fh \<noteq> []"
    and "mset added' = mset added" and "map fact_key added' \<noteq> map fact_key added"
  shows "\<exists>tr tr'. fst (Co_OperationsTree L added co) = Ok tr \<and> fst (Co_OperationsTree L added' co) = Ok tr' \<and>
    FixedTree_IsValid L tr = Ok () \<and> FixedTree_IsValid L tr' = Ok () \<and> tr_nodes tr \<noteq> tr_nodes tr'"
proof -
  have s: "set added' = set added" "length added' = length added" using assms(9) by (metis mset_eq_setD, metis mset_eq_length)
  then have "added' \<noteq> []" using assms(6) by auto
  with OperationsTree_added [OF assms(1-5), of added'] s assms(7,8) obtain tr' where tr': "fst (Co_OperationsTree L added' co) = Ok tr'"
    "FixedTree_IsValid L tr' = Ok ()"
    "map (map_option fn_key) (tr_nodes tr') = map (map_option fn_key) (tr_nodes (tg_tree (co_tree co))) @ map (\<lambda>op. Some (fact_key op)) added'" by auto
  obtain tr where tr: "fst (Co_OperationsTree L added co) = Ok tr" "FixedTree_IsValid L tr = Ok ()"
    "map (map_option fn_key) (tr_nodes tr) = map (map_option fn_key) (tr_nodes (tg_tree (co_tree co))) @ map (\<lambda>op. Some (fact_key op)) added"
    using OperationsTree_added [OF assms(1-8)] by blast
  have "tr_nodes tr \<noteq> tr_nodes tr'"
  proof
    assume "tr_nodes tr = tr_nodes tr'"
    then have "map (\<lambda>op. Some (fact_key op)) added = map (\<lambda>op. Some (fact_key op)) added'" using tr(3) tr'(3) by simp
    from arg_cong [OF this, of "map the"] show False using assms(10) by (simp add: comp_def)
  qed
  with tr tr' show ?thesis by blast
qed

section \<open>Witnesses\<close>

definition numbered_op :: "byte \<Rightarrow> operation" where
  "numbered_op n = (sample_op [])\<lparr>op_fact := Some (sample_opfact\<lparr>of_h := Some (HBytes [n])\<rparr>)\<rparr>"

definition sample_openv :: "unit openv" where
  "sample_openv = \<lparr>oe_L = sample_lib, oe_cget = (\<lambda>c _. (KeyNotFound, c)), oe_cset = (\<lambda>c _ _. c),
     oe_IsProcessor = (\<lambda>op. Operation_FactHash op \<noteq> Ok (HBytes [1])), oe_PreProcess = (\<lambda>_. None), oe_Process = (\<lambda>_ pool. (Ok (), pool))\<rparr>"

definition sample_filter :: "operation \<Rightarrow> unit res" where
  "sample_filter op = (if Operation_FactHash op = Ok (HBytes [2]) then Err (NewBaseReasonError ''known operation'') else Ok ())"

lemma numbered_hash [simp]: "Operation_FactHash (numbered_op n) = Ok (HBytes [n])"
  by (simp add: numbered_op_def Operation_FactHash_def)

lemma dec_106: "dec_nat 106 = ''106''"
  by code_simp

lemma reason_ignored: "operationIgnored (NewBaseReasonError m)"
  by (simp add: operationIgnored_def NewBaseReasonError_def NewError_def dec_106)

lemma numbered_settled: "settled sample_openv sample_filter (numbered_op n)"
  unfolding settled_def
  by (auto simp: sample_openv_def sample_filter_def default_PreProcess_def default_Process_def op_reason_def reason_ignored
      split: if_splits)


end
