(* ===== verification/Mitum_Processor.thy ===== *)
theory Mitum_Processor
  imports Mitum_OpProcessor Mitum_Maker Mitum_BlockStore
begin

text \<open>
  \<open>DefaultProcessor\<close> (\<^verbatim>\<open>src/isaac/proposal_processor.go\<close>, \<^verbatim>\<open>proposal_processor_prepare.go\<close>, \<^verbatim>\<open>proposal_processor_save.go\<close>): it turns a
  proposal into a block and saves the block that the nodes have accepted. The database is the one of \<^verbatim>\<open>src/storage/leveldb\<close>; the files
  of the block data are reached through the interface \<open>blockdata.Blockdata\<close>. A call is atomic, as the processor's lock makes it; \<open>None\<close>
  stands for a call that does not return. Statistics and logging are left out.
\<close>

section \<open>States of a processor\<close>

datatype pstate = BeforePrepared | Preparing | PrepareFailed | Prepared | Saving | SaveFailed | Saved | Canceled

fun pstate_iota :: "pstate \<Rightarrow> nat" where
  "pstate_iota BeforePrepared = 0"
| "pstate_iota Preparing = 1"
| "pstate_iota PrepareFailed = 2"
| "pstate_iota Prepared = 3"
| "pstate_iota Saving = 4"
| "pstate_iota SaveFailed = 5"
| "pstate_iota Saved = 6"
| "pstate_iota Canceled = 7"

lemma pstate_iota_inject [simp]: "pstate_iota a = pstate_iota b \<longleftrightarrow> a = b"
  by (cases a; cases b) simp_all

instantiation pstate :: linorder
begin

definition less_eq_pstate :: "pstate \<Rightarrow> pstate \<Rightarrow> bool" where "less_eq_pstate a b \<longleftrightarrow> pstate_iota a \<le> pstate_iota b"
definition less_pstate :: "pstate \<Rightarrow> pstate \<Rightarrow> bool" where "less_pstate a b \<longleftrightarrow> pstate_iota a < pstate_iota b"

instance
  by standard (auto simp: less_eq_pstate_def less_pstate_def)

end

lemmas pstate_order = less_eq_pstate_def less_pstate_def

section \<open>Block data\<close>

text \<open>
  The methods of \<open>blockdata.Blockdata\<close> and of its \<open>Session\<close> that the processor calls, on block data of type \<open>'b\<close> and sessions of type \<open>'t\<close>.
\<close>

record ('b, 't) blockdata =
  bdt_NewSession :: "'b \<Rightarrow> height \<Rightarrow> 't res \<times> 'b"
  bdt_SaveSession :: "'b \<Rightarrow> 't \<Rightarrow> blockdatamap res \<times> 't \<times> 'b"
  bdt_RemoveAll :: "'b \<Rightarrow> height \<Rightarrow> unit res \<times> 'b"
  bds_SetINITVoteproof :: "voteproof \<Rightarrow> 't \<Rightarrow> unit res \<times> 't"
  bds_SetACCEPTVoteproof :: "voteproof \<Rightarrow> 't \<Rightarrow> unit res \<times> 't"
  bds_SetSuffrageInfo :: "suffrage_info \<Rightarrow> 't \<Rightarrow> unit res \<times> 't"
  bds_SetProposal :: "signed_fact \<Rightarrow> 't \<Rightarrow> unit res \<times> 't"
  bds_SetManifest :: "manifest \<Rightarrow> 't \<Rightarrow> unit res \<times> 't"
  bds_AddOperations :: "operation list \<Rightarrow> 't \<Rightarrow> unit res \<times> 't"
  bds_CloseOperations :: "'t \<Rightarrow> unit res \<times> 't"
  bds_SetOperationsTree :: "optree \<Rightarrow> 't \<Rightarrow> unit res \<times> 't"
  bds_AddStates :: "statev0 list \<Rightarrow> 't \<Rightarrow> unit res \<times> 't"
  bds_CloseStates :: "'t \<Rightarrow> unit res \<times> 't"
  bds_SetStatesTree :: "statetree \<Rightarrow> 't \<Rightarrow> unit res \<times> 't"
  bds_Cancel :: "'t \<Rightarrow> unit res \<times> 't"

record ('s, 'b) world =
  w_db :: "'s database"
  w_bd :: 'b

definition remove_local :: "('b, 't) blockdata \<Rightarrow> blockdatamap \<Rightarrow> 'b \<Rightarrow> bool res \<times> 'b" where
  "remove_local B bd b =
     (case bdt_RemoveAll B b (bd_height bd) of
        (Ok _, b) \<Rightarrow> (Ok True, b)
      | (Err e, b) \<Rightarrow> (if error_Is e NotFoundError then Ok True else Err e, b)
      | (Panic, b) \<Rightarrow> (Panic, b))"

definition CleanByHeight :: "('b, 't) blockdata \<Rightarrow> height \<Rightarrow> ('s, 'b) world \<Rightarrow> (unit res \<times> ('s, 'b) world) option" where
  "CleanByHeight B h w =
     (case Database_LocalBlockdataMapsByHeight (w_db w) h (remove_local B) (w_bd w) of
        (Ok _, b) \<Rightarrow> map_option (\<lambda>(r, d). (r, w\<lparr>w_bd := b, w_db := d\<rparr>)) (Database_CleanByHeight (w_db w) h)
      | (r, b) \<Rightarrow> Some (r, w\<lparr>w_bd := b\<rparr>))"

section \<open>The processor\<close>

record ('t, 'o, 'c) dproc =
  pp_nodepool :: nodepool
  pp_baseManifest :: "manifest option"
  pp_suffrage :: suffrage
  pp_oprHintset :: "(unit, 'c, 'o op_processor) hintmap option"
  pp_sfs :: signed_fact
  pp_initVoteproof :: "voteproof option"
  pp_state :: pstate
  pp_blk :: "blockv0 option"
  pp_suffrageInfo :: suffrage_info
  pp_operations :: "operation list option"
  pp_states :: "statev0 list option"
  pp_operationsTree :: optree
  pp_statesTree :: statetree
  pp_ss :: "session option"
  pp_blockdataSession :: "'t option"

text \<open>
  What a call meets: the application and the library, the identifiers of stored operations, the clock, the schedule of the jobs, the orders
  in which the two loops over the map of added operations go, the block data, the hooks, and the context: whether it is done at each of the
  checks, and whether the wait for the jobs ends because of it.
\<close>

record ('c, 'b, 't) penv =
  pe_op :: "'c openv"
  pe_ulid :: "nat \<Rightarrow> bytes"
  pe_now :: gotime
  pe_sched :: "co_turn list"
  pe_added :: "operation list \<Rightarrow> operation list"
  pe_appended :: "operation list \<Rightarrow> operation list"
  pe_B :: "('b, 't) blockdata"
  pe_prePrepare :: "unit res option"
  pe_postPrepare :: "unit res option"
  pe_preSave :: "unit res option"
  pe_postSave :: "unit res option"
  pe_done :: "nat \<Rightarrow> bool"
  pe_waitDone :: bool

definition ContextCanceled :: goerr where "ContextCanceled = plain ''context canceled''"

definition hook :: "unit res option \<Rightarrow> unit res" where
  "hook h = (case h of None \<Rightarrow> Ok () | Some r \<Rightarrow> r)"

type_synonym ('s, 'b, 't, 'o, 'c) pst = "('t, 'o, 'c) dproc \<times> ('s, 'b) world"

text \<open>Calls in sequence: an error or a panic ends the sequence with the state as it is.\<close>

definition pbind :: "('a res \<times> 'x) option \<Rightarrow> ('a \<Rightarrow> 'x \<Rightarrow> ('b res \<times> 'x) option) \<Rightarrow> ('b res \<times> 'x) option" where
  "pbind m f = (case m of
       None \<Rightarrow> None | Some (Ok a, x) \<Rightarrow> f a x | Some (Err e, x) \<Rightarrow> Some (Err e, x) | Some (Panic, x) \<Rightarrow> Some (Panic, x))"

definition pp_setState :: "pstate \<Rightarrow> ('t, 'o, 'c) dproc \<Rightarrow> ('t, 'o, 'c) dproc" where
  "pp_setState s pp = (if s \<le> pp_state pp then pp else pp\<lparr>pp_state := s\<rparr>)"

definition pp_Fact :: "('t, 'o, 'c) dproc \<Rightarrow> ballot_fact res" where
  "pp_Fact pp = (case sf_fact (pp_sfs pp) of Some (ProposalFact b p ops t) \<Rightarrow> Ok (ProposalFact b p ops t) | _ \<Rightarrow> Panic)"

fun suffrage_nodes :: "nodepool \<Rightarrow> address list \<Rightarrow> node option list res" where
  "suffrage_nodes np [] = Ok []"
| "suffrage_nodes np (a # as) =
     (case Nodepool_Node np a of
        None \<Rightarrow> Err (plain ''suffrage node, %s not found in node pool'')
      | Some (n, _) \<Rightarrow> bind_res (suffrage_nodes np as) (\<lambda>ns. Ok (Some n # ns)))"

definition pp_getSuffrageInfo :: "('t, 'o, 'c) dproc \<Rightarrow> suffrage_info res" where
  "pp_getSuffrageInfo pp =
     bind_res (suffrage_nodes (pp_nodepool pp) (su_Nodes (pp_suffrage pp))) (\<lambda>ns.
     bind_res (pp_Fact pp) (\<lambda>f. case proposer f of None \<Rightarrow> Panic | Some a \<Rightarrow> Ok (NewSuffrageInfoV0 a ns)))"

definition EmptyFixedTree :: "'a fixedtree" where
  "EmptyFixedTree = NewFixedTree []"

definition NewDefaultProcessor ::
  "nodepool \<Rightarrow> suffrage \<Rightarrow> (unit, 'c, 'o op_processor) hintmap option \<Rightarrow> signed_fact \<Rightarrow> voteproof option \<Rightarrow> 's database \<Rightarrow> ('t, 'o, 'c) dproc res" where
  "NewDefaultProcessor np S hm sfs ivp d =
     (case sf_fact sfs of
        None \<Rightarrow> Panic
      | Some f \<Rightarrow>
          bind_res (Database_ManifestByHeight d (i64 (Fact_Height f - 1))) (\<lambda>(m, found).
            if \<not> found then Err (Errorf NotFoundError ''base manifest, %d is empty'')
            else
              let pp = \<lparr>pp_nodepool = np, pp_baseManifest = m, pp_suffrage = S, pp_oprHintset = hm, pp_sfs = sfs, pp_initVoteproof = ivp,
                        pp_state = BeforePrepared, pp_blk = None, pp_suffrageInfo = \<lparr>si_ht = \<lparr>hint_ty = [], hint_v = []\<rparr>, si_proposer = None, si_nodes = []\<rparr>,
                        pp_operations = None, pp_states = None, pp_operationsTree = emptyFixedTree, pp_statesTree = emptyFixedTree,
                        pp_ss = None, pp_blockdataSession = None\<rparr>
              in bind_res (pp_getSuffrageInfo pp) (\<lambda>i. Ok (pp\<lparr>pp_suffrageInfo := i\<rparr>))))"

definition NewDefaultProcessorNewFunc ::
  "nodepool \<Rightarrow> suffrage \<Rightarrow> (unit, 'c, 'o op_processor) hintmap option \<Rightarrow> 's database \<Rightarrow> signed_fact \<Rightarrow> voteproof option \<Rightarrow> ('t, 'o, 'c) dproc res" where
  "NewDefaultProcessorNewFunc np S hm d sfs ivp =
     (case sf_fact sfs of
        None \<Rightarrow> Panic
      | Some f \<Rightarrow>
          if Fact_Stage f \<noteq> StageProposal then Err (plain ''invalid proposal signed ballot fact; %T'')
          else NewDefaultProcessor np S hm sfs ivp d)"

text \<open>The call of a method of the block data session.\<close>

definition on_session :: "('t \<Rightarrow> unit res \<times> 't) \<Rightarrow> ('s, 'b, 't, 'o, 'c) pst \<Rightarrow> (unit res \<times> ('s, 'b, 't, 'o, 'c) pst) option" where
  "on_session f x =
     (case pp_blockdataSession (fst x) of
        None \<Rightarrow> Some (Panic, x)
      | Some t \<Rightarrow> (case f t of (r, t) \<Rightarrow> Some (r, (fst x)\<lparr>pp_blockdataSession := Some t\<rparr>, snd x)))"

fun each :: "('x \<Rightarrow> (unit res \<times> 'x) option) list \<Rightarrow> 'x \<Rightarrow> (unit res \<times> 'x) option" where
  "each [] x = Some (Ok (), x)"
| "each (f # fs) x = pbind (f x) (\<lambda>_. each fs)"

section \<open>Resetting\<close>

definition pp_clear :: "('t, 'o, 'c) dproc \<Rightarrow> ('t, 'o, 'c) dproc" where
  "pp_clear pp = pp\<lparr>pp_ss := None, pp_blockdataSession := None, pp_blk := None, pp_operations := None, pp_operationsTree := EmptyFixedTree,
     pp_states := None, pp_statesTree := EmptyFixedTree\<rparr>"

definition pp_cancelPrepare :: "('b, 't) blockdata \<Rightarrow> ('s, 'b, 't, 'o, 'c) pst \<Rightarrow> (unit res \<times> ('s, 'b, 't, 'o, 'c) pst) option" where
  "pp_cancelPrepare B x =
     pbind (if pp_blockdataSession (fst x) = None then Some (Ok (), x) else on_session (bds_Cancel B) x) (\<lambda>_ x. Some (Ok (), pp_clear (fst x), snd x))"

definition pp_resetSave :: "('b, 't) blockdata \<Rightarrow> ('s, 'b, 't, 'o, 'c) pst \<Rightarrow> (unit res \<times> ('s, 'b, 't, 'o, 'c) pst) option" where
  "pp_resetSave B x =
     (case x of (pp, w) \<Rightarrow>
      if pp_state pp \<in> {BeforePrepared, Preparing, PrepareFailed, Prepared, Canceled} then Some (Ok (), pp_setState BeforePrepared pp, w)
      else case pp_Fact pp of
        Ok f \<Rightarrow>
          (case CleanByHeight B (Fact_Height f) w of
             None \<Rightarrow> None
           | Some (Ok _, w) \<Rightarrow> Some (Ok (), pp_setState Prepared pp, w)
           | Some (r, w) \<Rightarrow> Some (r, pp, w))
      | _ \<Rightarrow> Some (Panic, pp, w))"

definition pp_resetPrepare :: "('b, 't) blockdata \<Rightarrow> ('s, 'b, 't, 'o, 'c) pst \<Rightarrow> (unit res \<times> ('s, 'b, 't, 'o, 'c) pst) option" where
  "pp_resetPrepare B x = pbind (pp_cancelPrepare B x) (\<lambda>_. pp_resetSave B)"

section \<open>Preparing\<close>

definition pp_prepareBlockdataSession :: "('c, 'b, 't) penv \<Rightarrow> ('s, 'b, 't, 'o, 'c) pst \<Rightarrow> (unit res \<times> ('s, 'b, 't, 'o, 'c) pst) option" where
  "pp_prepareBlockdataSession E x =
     (case x of (pp, w) \<Rightarrow>
      case pp_Fact pp of
        Ok f \<Rightarrow>
          (case bdt_NewSession (pe_B E) (w_bd w) (Fact_Height f) of
             (Err e, b) \<Rightarrow> Some (Err e, pp, w\<lparr>w_bd := b\<rparr>)
           | (Panic, b) \<Rightarrow> Some (Panic, pp, w\<lparr>w_bd := b\<rparr>)
           | (Ok t, b) \<Rightarrow>
               each [(case pp_initVoteproof pp of None \<Rightarrow> (\<lambda>x. Some (Ok (), x)) | Some vp \<Rightarrow> on_session (bds_SetINITVoteproof (pe_B E) vp)),
                     on_session (bds_SetSuffrageInfo (pe_B E) (pp_suffrageInfo pp)),
                     on_session (bds_SetProposal (pe_B E) (pp_sfs pp))]
                 (pp\<lparr>pp_blockdataSession := Some t\<rparr>, w\<lparr>w_bd := b\<rparr>))
      | _ \<Rightarrow> Some (Panic, x))"

definition pp_prepareOperations :: "('c, 'b, 't) penv \<Rightarrow> ('s, 'b, 't, 'o, 'c) pst \<Rightarrow> (unit res \<times> ('s, 'b, 't, 'o, 'c) pst) option" where
  "pp_prepareOperations E x =
     (case x of (pp, w) \<Rightarrow>
      case pp_Fact pp of
        Ok f \<Rightarrow>
          if length (fact_ops f) < 1 then Some (Ok (), x)
          else
            (case (proposer f, those (fact_ops f)) of
               (Some p, Some opsh) \<Rightarrow>
                 (case OperationsExtractor_Extract (oe_L (pe_op E)) (pe_ulid E) (leveldb_storage :: ('s database, unit) storage_db)
                         (NewOperationsExtractor (local_address (pp_nodepool pp)) p (pp_nodepool pp) opsh) (w_db w) of
                    (Ok ops, d) \<Rightarrow> Some (Ok (), pp\<lparr>pp_operations := Some ops\<rparr>, w\<lparr>w_db := d\<rparr>)
                  | (Err e, d) \<Rightarrow> Some (Err (FmtErr ''failed to extract seals'' (Some e)), pp, w\<lparr>w_db := d\<rparr>)
                  | (Panic, d) \<Rightarrow> Some (Panic, pp, w\<lparr>w_db := d\<rparr>))
             | _ \<Rightarrow> Some (Panic, x))
      | _ \<Rightarrow> Some (Panic, x))"

definition ops_of :: "('t, 'o, 'c) dproc \<Rightarrow> operation list" where
  "ops_of pp = (case pp_operations pp of None \<Rightarrow> [] | Some ops \<Rightarrow> ops)"

definition known_operation :: "'s database \<Rightarrow> operation \<Rightarrow> unit res" where
  "known_operation d op =
     bind_res (Operation_FactHash op) (\<lambda>h. bind_res (Database_HasOperationFact d h) (\<lambda>found.
       if found then Err (NewBaseReasonError ''known operation'') else Ok ()))"

definition added_operations :: "statepool \<Rightarrow> operation list" where
  "added_operations pool = map snd (sp_addedOps pool)"

definition pp_concurrentProcessStatesTree ::
  "('c, 'b, 't) penv \<Rightarrow> ('o, 'c) coproc \<Rightarrow> ('s, 'b, 't, 'o, 'c) pst \<Rightarrow> (unit res \<times> ('s, 'b, 't, 'o, 'c) pst) option" where
  "pp_concurrentProcessStatesTree E co x =
     (case x of (pp, w) \<Rightarrow>
      case run_schedule (pe_op E) (known_operation (w_db w)) (pe_sched E) 0 (ops_of pp) co of
        (Err e, co) \<Rightarrow> Some (Err e, pp\<lparr>pp_oprHintset := co_oppHintSet co\<rparr>, w)
      | (Panic, co) \<Rightarrow> Some (Panic, pp, w)
      | (Ok _, co) \<Rightarrow>
          let pp = pp\<lparr>pp_oprHintset := co_oppHintSet co\<rparr> in
          if pe_waitDone E then Some (Err ContextCanceled, pp, w)
          else case Co_Close co of
            (Err e, _) \<Rightarrow> Some (Err e, pp, w)
          | (Panic, _) \<Rightarrow> Some (Panic, pp, w)
          | (Ok _, co) \<Rightarrow>
              (case (if Statepool_IsUpdated (co_pool co)
                     then bind_res (Co_StatesTree (oe_L (pe_op E)) co) (\<lambda>(tr, sts). Ok (pp\<lparr>pp_statesTree := tr, pp_states := Some sts\<rparr>))
                     else Ok pp) of
                 Err e \<Rightarrow> Some (Err e, pp, w)
               | Panic \<Rightarrow> Some (Panic, pp, w)
               | Ok pp \<Rightarrow>
                   (case Co_OperationsTree (oe_L (pe_op E)) (pe_added E (added_operations (co_pool co))) co of
                      (Err e, _) \<Rightarrow> Some (Err e, pp, w)
                    | (Panic, _) \<Rightarrow> Some (Panic, pp, w)
                    | (Ok tr, co) \<Rightarrow>
                        Some (Ok (), pp\<lparr>pp_operations := Some (ops_of pp @ pe_appended E (added_operations (co_pool co))), pp_operationsTree := tr\<rparr>, w))))"

definition pp_processStatesTree :: "('c, 'b, 't) penv \<Rightarrow> statepool \<Rightarrow> ('s, 'b, 't, 'o, 'c) pst \<Rightarrow> (unit res \<times> ('s, 'b, 't, 'o, 'c) pst) option" where
  "pp_processStatesTree E pool x =
     (let pp = (fst x)\<lparr>pp_operationsTree := EmptyFixedTree, pp_statesTree := EmptyFixedTree, pp_states := None\<rparr>; n = length (ops_of pp) in
      case NewConcurrentOperationsProcessor (of_nat n) (int n) pool (pp_oprHintset pp) of
        Err e \<Rightarrow> Some (Err e, pp, snd x)
      | Panic \<Rightarrow> Some (Panic, pp, snd x)
      | Ok co \<Rightarrow> pp_concurrentProcessStatesTree E (Co_Start co) (pp, snd x))"

definition last_height :: "'s database \<Rightarrow> height option res" where
  "last_height d = bind_res (Database_LastManifest d) (\<lambda>(m, found). if \<not> found then Ok None else case m of None \<Rightarrow> Panic | Some m \<Rightarrow> Ok (Some (mf_height m)))"

definition pp_processOperations :: "('c, 'b, 't) penv \<Rightarrow> ('s, 'b, 't, 'o, 'c) pst \<Rightarrow> (unit res \<times> ('s, 'b, 't, 'o, 'c) pst) option" where
  "pp_processOperations E x =
     (if length (ops_of (fst x)) < 1 then Some (Ok (), x)
      else case NewStatepool (last_height (w_db (snd x))) of
        Err e \<Rightarrow> Some (Err e, x)
      | Panic \<Rightarrow> Some (Panic, x)
      | Ok pool \<Rightarrow> pp_processStatesTree E pool x)"

text \<open>The operations go to the block data session before they are processed, the states and the trees after.\<close>

definition pp_process :: "('c, 'b, 't) penv \<Rightarrow> ('s, 'b, 't, 'o, 'c) pst \<Rightarrow> (unit res \<times> ('s, 'b, 't, 'o, 'c) pst) option" where
  "pp_process E x =
     each [(\<lambda>x. on_session (bds_AddOperations (pe_B E) (ops_of (fst x))) x),
           on_session (bds_CloseOperations (pe_B E)),
           pp_processOperations E,
           (\<lambda>x. on_session (bds_SetOperationsTree (pe_B E) (pp_operationsTree (fst x))) x),
           (\<lambda>x. on_session (bds_SetStatesTree (pe_B E) (pp_statesTree (fst x))) x),
           (\<lambda>x. on_session (bds_AddStates (pe_B E) (case pp_states (fst x) of None \<Rightarrow> [] | Some sts \<Rightarrow> sts)) x),
           on_session (bds_CloseStates (pe_B E))] x"

definition tree_hash :: "'a fixedtree \<Rightarrow> hash option res" where
  "tree_hash tr = (if FixedTree_Len tr > 0 then bind_res (FixedTree_Root tr) (\<lambda>h. Ok (Some (NewBytes h))) else Ok None)"

text \<open>The block of the proposal, from what the steps before have left.\<close>

definition pp_new_block :: "('c, 'b, 't) penv \<Rightarrow> ('t, 'o, 'c) dproc \<Rightarrow> blockv0 res" where
  "pp_new_block E pp =
     bind_res (tree_hash (pp_operationsTree pp)) (\<lambda>opsHash.
     bind_res (tree_hash (pp_statesTree pp)) (\<lambda>stsHash.
     bind_res (pp_Fact pp) (\<lambda>f.
       case pp_baseManifest pp of
         None \<Rightarrow> Panic
       | Some m \<Rightarrow>
           NewBlockV0 (oe_L (pe_op E)) (pe_now E) (pp_suffrageInfo pp) (Fact_Height f) (Fact_Round f) (Fact_Hash f) (mf_h m) opsHash stsHash (proposedAt f))))"

definition pp_prepareBlock :: "('c, 'b, 't) penv \<Rightarrow> ('s, 'b, 't, 'o, 'c) pst \<Rightarrow> (unit res \<times> ('s, 'b, 't, 'o, 'c) pst) option" where
  "pp_prepareBlock E x =
     (case pp_new_block E (fst x) of
        Err e \<Rightarrow> Some (Err e, x)
      | Panic \<Rightarrow> Some (Panic, x)
      | Ok b \<Rightarrow>
          pbind (on_session (bds_SetManifest (pe_B E) (bk_manifest b)) x) (\<lambda>_ (pp, w).
            Some (Ok (), pp\<lparr>pp_blk := Some
              (Block_SetProposal (Some (pp_sfs pp)) (Block_SetINITVoteproof (pp_initVoteproof pp)
                (Block_SetStates (pp_states pp) (Block_SetStatesTree (pp_statesTree pp)
                  (Block_SetOperations (pp_operations pp) (Block_SetOperationsTree (pp_operationsTree pp) b))))))\<rparr>, w)))"

definition pp_prepareDatabaseSession :: "('s, 'b, 't, 'o, 'c) pst \<Rightarrow> (unit res \<times> ('s, 'b, 't, 'o, 'c) pst) option" where
  "pp_prepareDatabaseSession x =
     (case x of (pp, w) \<Rightarrow>
      case pp_blk pp of
        None \<Rightarrow> Some (Panic, x)
      | Some blk \<Rightarrow>
          (case Session_SetBlock (ld_enc (w_db w)) blk (NewSession blk) of
             (Ok _, bs) \<Rightarrow> Some (Ok (), pp\<lparr>pp_ss := Some bs\<rparr>, w)
           | (r, _) \<Rightarrow> Some (r, pp, w)))"

text \<open>The steps of \<open>prepare\<close>, each after a look at the context.\<close>

fun guarded :: "(nat \<Rightarrow> bool) \<Rightarrow> nat \<Rightarrow> ('x \<Rightarrow> (unit res \<times> 'x) option) list \<Rightarrow> 'x \<Rightarrow> (unit res \<times> 'x) option" where
  "guarded d k [] x = Some (Ok (), x)"
| "guarded d k (f # fs) x = (if d k then Some (Err ContextCanceled, x) else pbind (f x) (\<lambda>_. guarded d (Suc k) fs))"

definition pp_prepare :: "('c, 'b, 't) penv \<Rightarrow> ('s, 'b, 't, 'o, 'c) pst \<Rightarrow> (unit res \<times> ('s, 'b, 't, 'o, 'c) pst) option" where
  "pp_prepare E x =
     pbind (Some (hook (pe_prePrepare E), x)) (\<lambda>_ x.
     pbind (guarded (pe_done E) 0 [pp_prepareBlockdataSession E, pp_prepareOperations E, pp_process E, pp_prepareBlock E, pp_prepareDatabaseSession] x) (\<lambda>_ x.
       Some (hook (pe_postPrepare E), x)))"

definition pp_Prepare :: "('c, 'b, 't) penv \<Rightarrow> ('s, 'b, 't, 'o, 'c) pst \<Rightarrow> (blockv0 option res \<times> ('s, 'b, 't, 'o, 'c) pst) option" where
  "pp_Prepare E x =
     (case pp_resetPrepare (pe_B E) x of
        None \<Rightarrow> None
      | Some (Err e, x) \<Rightarrow> Some (Err e, x)
      | Some (Panic, x) \<Rightarrow> Some (Panic, x)
      | Some (Ok _, pp, w) \<Rightarrow>
          (case pp_prepare E (pp_setState Preparing pp, w) of
             None \<Rightarrow> None
           | Some (Panic, x) \<Rightarrow> Some (Panic, x)
           | Some (Err e, pp, w) \<Rightarrow>
               (case pp_resetPrepare (pe_B E) (pp_setState PrepareFailed pp, w) of
                  None \<Rightarrow> None
                | Some (Ok _, x) \<Rightarrow> Some (Err e, x)
                | Some (Err e0, x) \<Rightarrow> Some (Err e0, x)
                | Some (Panic, x) \<Rightarrow> Some (Panic, x))
           | Some (Ok _, pp, w) \<Rightarrow> (let pp = pp_setState Prepared pp in Some (Ok (pp_blk pp), pp, w))))"

section \<open>Saving\<close>

definition pp_SetACCEPTVoteproof :: "('b, 't) blockdata \<Rightarrow> voteproof \<Rightarrow> ('s, 'b, 't, 'o, 'c) pst \<Rightarrow> (unit res \<times> ('s, 'b, 't, 'o, 'c) pst) option" where
  "pp_SetACCEPTVoteproof B avp x =
     (case x of (pp, w) \<Rightarrow>
      case (pp_blk pp, pp_ss pp, pp_blockdataSession pp) of
        (None, _, _) \<Rightarrow> Some (Err (plain ''empty block, not prepared''), x)
      | (_, None, _) \<Rightarrow> Some (Err (plain ''empty block session, not prepared''), x)
      | (_, _, None) \<Rightarrow> Some (Err (plain ''empty block database session, not prepared''), x)
      | (Some blk, Some ss, Some _) \<Rightarrow>
          (case vp_majority avp of
             None \<Rightarrow> Some (Err (plain ''acceptVoteproof has empty majority''), x)
           | Some (ACCEPTFact _ _ nb) \<Rightarrow>
               (case (mf_h (bk_manifest blk), nb) of
                  (Some h, Some nb) \<Rightarrow>
                    if \<not> Hash_Equal h nb then Some (Err (plain ''hash of the processed block does not match with acceptVoteproof''), x)
                    else
                      let pp = pp\<lparr>pp_blk := Some (Block_SetACCEPTVoteproof (Some avp) blk)\<rparr> in
                      (case Session_SetACCEPTVoteproof (ld_enc (w_db w)) avp ss of
                         (Ok _, ss) \<Rightarrow> on_session (bds_SetACCEPTVoteproof B avp) (pp\<lparr>pp_ss := Some ss\<rparr>, w)
                       | (r, ss) \<Rightarrow> Some (r, pp\<lparr>pp_ss := Some ss\<rparr>, w))
                | _ \<Rightarrow> Some (Panic, x))
           | Some _ \<Rightarrow> Some (Err (plain ''acceptVoteproof does not have ACCEPTBallotFact''), x)))"

definition pp_storeBlockdataSession :: "('b, 't) blockdata \<Rightarrow> ('s, 'b, 't, 'o, 'c) pst \<Rightarrow> (blockdatamap res \<times> ('s, 'b, 't, 'o, 'c) pst) option" where
  "pp_storeBlockdataSession B x =
     (case x of (pp, w) \<Rightarrow>
      case pp_blockdataSession pp of
        None \<Rightarrow> Some (Err (plain ''not prepared''), x)
      | Some t \<Rightarrow> (case bdt_SaveSession B (w_bd w) t of (r, t, b) \<Rightarrow> Some (r, pp\<lparr>pp_blockdataSession := Some t\<rparr>, w\<lparr>w_bd := b\<rparr>)))"

definition pp_storeStorage :: "blockdatamap \<Rightarrow> ('s, 'b, 't, 'o, 'c) pst \<Rightarrow> (unit res \<times> ('s, 'b, 't, 'o, 'c) pst) option" where
  "pp_storeStorage bd x =
     (case x of (pp, w) \<Rightarrow>
      case pp_ss pp of
        None \<Rightarrow> Some (Panic, x)
      | Some ss \<Rightarrow>
          (case Session_Commit (w_db w) bd ss of
             (Ok _, _, d) \<Rightarrow> Some (Ok (), pp\<lparr>pp_ss := None\<rparr>, w\<lparr>w_db := d\<rparr>)
           | (r, ss, d) \<Rightarrow> Some (r, pp\<lparr>pp_ss := Some ss\<rparr>, w\<lparr>w_db := d\<rparr>)))"

definition pp_save :: "('c, 'b, 't) penv \<Rightarrow> ('s, 'b, 't, 'o, 'c) pst \<Rightarrow> (unit res \<times> ('s, 'b, 't, 'o, 'c) pst) option" where
  "pp_save E x =
     pbind (Some (hook (pe_preSave E), x)) (\<lambda>_ x.
     if pe_done E 0 then Some (Err ContextCanceled, x)
     else pbind (pp_storeBlockdataSession (pe_B E) x) (\<lambda>bd x.
       if pe_done E 1 then Some (Err ContextCanceled, x)
       else pbind (pp_storeStorage bd x) (\<lambda>_ x. Some (hook (pe_postSave E), x))))"

definition pp_Save :: "('c, 'b, 't) penv \<Rightarrow> ('s, 'b, 't, 'o, 'c) pst \<Rightarrow> (unit res \<times> ('s, 'b, 't, 'o, 'c) pst) option" where
  "pp_Save E x =
     pbind (pp_resetSave (pe_B E) x) (\<lambda>_ (pp, w).
       case pp_save E (pp_setState Saving pp, w) of
         None \<Rightarrow> None
       | Some (Panic, x) \<Rightarrow> Some (Panic, x)
       | Some (Err e, pp, w) \<Rightarrow> pbind (pp_resetSave (pe_B E) (pp_setState SaveFailed pp, w)) (\<lambda>_ x. Some (Err e, x))
       | Some (Ok _, pp, w) \<Rightarrow> Some (Ok (), pp_setState Saved pp, w))"

definition pp_Cancel :: "('b, 't) blockdata \<Rightarrow> ('s, 'b, 't, 'o, 'c) pst \<Rightarrow> (unit res \<times> ('s, 'b, 't, 'o, 'c) pst) option" where
  "pp_Cancel B x =
     (if pp_state (fst x) = Canceled then Some (Ok (), x)
      else pbind (pp_cancelPrepare B x) (\<lambda>_ (pp, w). Some (Ok (), pp_setState Canceled pp, w)))"

section \<open>What every call keeps\<close>

text \<open>A call keeps the proposal and what it was built on, and the state never goes back; most steps keep the block and its session too.\<close>

definition carries :: "('t, 'o, 'c) dproc \<Rightarrow> ('t, 'o, 'c) dproc \<Rightarrow> bool" where
  "carries pp pp' \<longleftrightarrow> pp_sfs pp' = pp_sfs pp \<and> pp_baseManifest pp' = pp_baseManifest pp \<and> pp_initVoteproof pp' = pp_initVoteproof pp \<and>
     pp_suffrageInfo pp' = pp_suffrageInfo pp \<and> pp_nodepool pp' = pp_nodepool pp \<and> pp_suffrage pp' = pp_suffrage pp \<and> pp_state pp \<le> pp_state pp'"

definition keeps :: "('t, 'o, 'c) dproc \<Rightarrow> ('t, 'o, 'c) dproc \<Rightarrow> bool" where
  "keeps pp pp' \<longleftrightarrow> carries pp pp' \<and> pp_state pp' = pp_state pp \<and> pp_blk pp' = pp_blk pp \<and> pp_ss pp' = pp_ss pp"

definition steps :: "('p \<Rightarrow> 'p \<Rightarrow> bool) \<Rightarrow> ('p \<times> 'w \<Rightarrow> ('a res \<times> 'p \<times> 'w) option) \<Rightarrow> bool" where
  "steps R f \<longleftrightarrow> (\<forall>x r x'. f x = Some (r, x') \<longrightarrow> R (fst x) (fst x'))"

lemma stepsI: "(\<And>x r x'. f x = Some (r, x') \<Longrightarrow> R (fst x) (fst x')) \<Longrightarrow> steps R f"
  unfolding steps_def by blast

lemma stepsD: "steps R f \<Longrightarrow> f x = Some (r, x') \<Longrightarrow> R (fst x) (fst x')"
  unfolding steps_def by blast

lemma pbind_Some:
  "pbind m f = Some (r, x) \<longleftrightarrow>
     (\<exists>a y. m = Some (Ok a, y) \<and> f a y = Some (r, x)) \<or> (\<exists>e. m = Some (Err e, x) \<and> r = Err e) \<or> (m = Some (Panic, x) \<and> r = Panic)"
  by (auto simp: pbind_def split: option.splits res.splits)

lemma pbind_begins: "pbind m f = Some y \<Longrightarrow> \<exists>q z. m = Some (q, z)"
  by (cases m) (auto simp: pbind_def)

text \<open>A relation between the processor before and after that sequences of steps keep.\<close>

locale step_relation =
  fixes R :: "'p \<Rightarrow> 'p \<Rightarrow> bool"
  assumes same: "R pp pp" and chain: "R a b \<Longrightarrow> R b c \<Longrightarrow> R a c"
begin

lemma bind: "steps R f \<Longrightarrow> (\<And>a. steps R (g a)) \<Longrightarrow> steps R (\<lambda>x. pbind (f x) g)"
  by (rule stepsI) (auto simp: pbind_Some dest: stepsD intro: chain)

lemma each: "\<forall>f \<in> set fs. steps R f \<Longrightarrow> steps R (each fs)"
proof (induction fs)
  case (Cons f fs)
  then have "steps R (\<lambda>x. pbind (f x) (\<lambda>_. each fs))" by (intro bind) auto
  then show ?case by (auto intro!: stepsI dest: stepsD)
qed (auto intro!: stepsI simp: same)

lemma guarded: "\<forall>f \<in> set fs. steps R f \<Longrightarrow> steps R (guarded d k fs)"
proof (induction fs arbitrary: k)
  case (Cons f fs)
  then have "steps R (\<lambda>x. pbind (f x) (\<lambda>_. guarded d (Suc k) fs))" by (intro bind) auto
  then show ?case by (auto intro!: stepsI same dest: stepsD split: if_splits)
qed (auto intro!: stepsI simp: same)

end

interpretation carry: step_relation carries
  by unfold_locales (auto simp: carries_def)

interpretation keep: step_relation keeps
  by unfold_locales (auto simp: keeps_def carries_def)

lemma keeps_carries: "steps keeps f \<Longrightarrow> steps carries f"
  by (auto simp: steps_def keeps_def)

lemma carries_setState [simp]: "carries pp (pp_setState s pp)"
  by (auto simp: carries_def pp_setState_def)

lemma carries_clear [simp]: "carries pp (pp_clear pp)"
  by (simp add: carries_def pp_clear_def)

lemma keeps_session: "steps keeps (on_session f)"
  by (rule stepsI) (auto simp: on_session_def carries_def keeps_def split: option.splits prod.splits)

lemma keeps_session_of: "steps keeps (\<lambda>x. on_session (f x) x)"
  by (rule stepsI) (rule stepsD [OF keeps_session])

lemma keeps_prepareBlockdataSession: "steps keeps (pp_prepareBlockdataSession E)"
proof (rule stepsI)
  fix x r x' assume a: "pp_prepareBlockdataSession E x = Some (r, x')"
  obtain pp w where x: "x = (pp, w)" by fastforce
  have e: "steps keeps (each [(case ivp of None \<Rightarrow> (\<lambda>x. Some (Ok (), x)) | Some vp \<Rightarrow> on_session (bds_SetINITVoteproof (pe_B E) vp)),
      on_session (bds_SetSuffrageInfo (pe_B E) si), on_session (bds_SetProposal (pe_B E) sfs)])" for ivp si sfs
    by (rule keep.each) (auto simp: keeps_session keep.same intro: stepsI split: option.splits)
  show "keeps (fst x) (fst x')"
  proof (cases "\<exists>f t b. pp_Fact pp = Ok f \<and> bdt_NewSession (pe_B E) (w_bd w) (Fact_Height f) = (Ok t, b)")
    case True
    then obtain f t b where "pp_Fact pp = Ok f" "bdt_NewSession (pe_B E) (w_bd w) (Fact_Height f) = (Ok t, b)" by blast
    then have "keeps (pp\<lparr>pp_blockdataSession := Some t\<rparr>) (fst x')"
      using a stepsD [OF e, where x = "(pp\<lparr>pp_blockdataSession := Some t\<rparr>, w\<lparr>w_bd := b\<rparr>)"] x by (simp add: pp_prepareBlockdataSession_def)
    then show ?thesis using x by (simp add: keeps_def carries_def)
  qed (use a x in \<open>auto simp: pp_prepareBlockdataSession_def keep.same split: res.splits prod.splits\<close>)
qed

lemma keeps_prepareOperations: "steps keeps (pp_prepareOperations E)"
  by (rule stepsI) (auto simp: pp_prepareOperations_def keeps_def carries_def split: res.splits prod.splits option.splits if_splits)

lemma keeps_concurrent: "steps keeps (pp_concurrentProcessStatesTree E co)"
proof (rule stepsI)
  fix x r x' assume a: "pp_concurrentProcessStatesTree E co x = Some (r, x')"
  obtain pp w where x: "x = (pp, w)" by fastforce
  obtain q c where q: "run_schedule (pe_op E) (known_operation (w_db w)) (pe_sched E) 0 (ops_of pp) co = (q, c)" by fastforce
  show "keeps (fst x) (fst x')" using a unfolding x pp_concurrentProcessStatesTree_def Let_def prod.case q
    by (auto simp: keeps_def carries_def bind_res_Ok_iff split: res.splits prod.splits if_splits)
qed

lemma keeps_processStatesTree: "steps keeps (pp_processStatesTree E pool)"
proof (rule stepsI)
  fix x r x' assume a: "pp_processStatesTree E pool x = Some (r, x')"
  let ?pp = "(fst x)\<lparr>pp_operationsTree := EmptyFixedTree, pp_statesTree := EmptyFixedTree, pp_states := None\<rparr>"
  have "keeps ?pp (fst x')"
    using a stepsD [OF keeps_concurrent, of E _ "(?pp, snd x)"] by (auto simp: pp_processStatesTree_def Let_def keep.same split: res.splits)
  then show "keeps (fst x) (fst x')" by (simp add: keeps_def carries_def)
qed

lemma keeps_process: "steps keeps (pp_process E)"
proof -
  have "steps keeps (pp_processOperations E)"
    using stepsD [OF keeps_processStatesTree] by (auto intro!: stepsI simp: pp_processOperations_def keep.same split: if_splits res.splits)
  then show ?thesis unfolding pp_process_def [abs_def] by (intro keep.each) (auto intro: keeps_session_of keeps_session)
qed

lemma carries_cancelPrepare: "steps carries (pp_cancelPrepare B)"
proof -
  have "steps carries (\<lambda>x. if pp_blockdataSession (fst x) = None then Some (Ok (), x) else on_session (bds_Cancel B) x)"
    using keeps_carries [OF keeps_session, of "bds_Cancel B"] by (auto intro!: stepsI carry.same dest: stepsD split: if_splits)
  then show ?thesis unfolding pp_cancelPrepare_def [abs_def] by (rule carry.bind) (auto intro: stepsI)
qed

lemma carries_resetSave: "steps carries (pp_resetSave B)"
  by (rule stepsI) (auto simp: pp_resetSave_def carry.same split: if_splits res.splits option.splits)

lemma carries_resetPrepare: "steps carries (pp_resetPrepare B)"
  unfolding pp_resetPrepare_def [abs_def] by (intro carry.bind carries_cancelPrepare carries_resetSave)

lemma carries_set_block:
  "steps carries (\<lambda>x. pbind (on_session f x) (\<lambda>_ (pp, w). Some (Ok (), pp\<lparr>pp_blk := h pp\<rparr>, w)))"
  by (intro carry.bind keeps_carries [OF keeps_session]) (auto intro!: stepsI simp: carries_def)

lemma carries_prepareBlock: "steps carries (pp_prepareBlock E)"
proof (rule stepsI)
  fix x r x' assume a: "pp_prepareBlock E x = Some (r, x')"
  show "carries (fst x) (fst x')"
    using a unfolding pp_prepareBlock_def by (auto simp: carry.same split: res.splits dest: stepsD [OF carries_set_block])
qed

lemma carries_prepareDatabaseSession: "steps carries pp_prepareDatabaseSession"
  by (rule stepsI) (auto simp: pp_prepareDatabaseSession_def carries_def split: option.splits prod.splits res.splits)

lemma carries_prepare: "steps carries (pp_prepare E)"
  unfolding pp_prepare_def [abs_def]
  by (intro carry.bind carry.guarded) (auto intro!: stepsI carry.same keeps_carries keeps_prepareBlockdataSession keeps_prepareOperations keeps_process
      carries_prepareBlock carries_prepareDatabaseSession simp: keep.same)

lemma carries_after: "carries a pp \<Longrightarrow> carries (pp_setState s pp) b \<Longrightarrow> carries a b"
  using carry.chain [OF carry.chain [OF _ carries_setState]] by blast

lemma carries_if: "steps carries f \<Longrightarrow> steps carries (\<lambda>x. if b then Some (r, x) else f x)"
  by (cases b) (auto intro: stepsI simp: carry.same)

lemma carries_Prepare: "steps carries (pp_Prepare E)"
proof (rule stepsI)
  fix x r x' assume a: "pp_Prepare E x = Some (r, x')"
  obtain q y where q: "pp_resetPrepare (pe_B E) x = Some (q, y)" using a by (auto simp: pp_Prepare_def split: option.splits)
  note c = stepsD [OF carries_resetPrepare q]
  show "carries (fst x) (fst x')"
  proof (cases q)
    case (Ok u)
    obtain pp w where y: "y = (pp, w)" by fastforce
    obtain p z where z: "pp_prepare E (pp_setState Preparing pp, w) = Some (p, z)" using a q Ok y by (auto simp: pp_Prepare_def split: option.splits)
    have cz: "carries (fst x) (fst z)" using c y stepsD [OF carries_prepare z] by (auto intro: carries_after)
    obtain pz wz where zz: "z = (pz, wz)" by fastforce
    show ?thesis
    proof (cases p)
      case (Err e)
      obtain t v where t: "pp_resetPrepare (pe_B E) (pp_setState PrepareFailed pz, wz) = Some (t, v)"
        using a q Ok y z zz Err by (auto simp: pp_Prepare_def split: option.splits)
      then have "x' = v" using a q Ok y z zz Err by (auto simp: pp_Prepare_def split: res.splits)
      then show ?thesis using cz zz stepsD [OF carries_resetPrepare t] by (auto intro: carries_after)
    qed (use a q Ok y z zz cz in \<open>auto simp: pp_Prepare_def Let_def intro: carry.chain\<close>)
  qed (use a q c in \<open>auto simp: pp_Prepare_def\<close>)
qed

lemma carries_SetACCEPTVoteproof: "steps carries (pp_SetACCEPTVoteproof B avp)"
proof (rule stepsI)
  fix x r x' assume a: "pp_SetACCEPTVoteproof B avp x = Some (r, x')"
  obtain pp w where x: "x = (pp, w)" by fastforce
  have s: "carries pp (fst y')" if "on_session f (pp\<lparr>pp_blk := u, pp_ss := v\<rparr>, w) = Some (q, y')" for u v q y' and f
    using stepsD [OF keeps_session that] by (simp add: keeps_def carries_def)
  show "carries (fst x) (fst x')"
    using a s unfolding x pp_SetACCEPTVoteproof_def
    by (auto simp: carry.same Let_def carries_def split: option.splits if_splits ballot_fact.splits prod.splits res.splits)
qed

lemma carries_save: "steps carries (pp_save E)"
proof -
  have s: "steps carries (pp_storeStorage bd)" for bd
    by (rule stepsI) (auto simp: pp_storeStorage_def carries_def split: option.splits prod.splits res.splits)
  have b: "steps carries (pp_storeBlockdataSession B)" for B
    by (rule stepsI) (auto simp: pp_storeBlockdataSession_def carries_def split: option.splits prod.splits)
  show ?thesis unfolding pp_save_def [abs_def]
    by (intro carry.bind carries_if s b) (auto intro: stepsI simp: carry.same)
qed

lemma carries_Save: "steps carries (pp_Save E)"
proof (rule stepsI)
  fix x r x' assume a: "pp_Save E x = Some (r, x')"
  obtain q y where q: "pp_resetSave (pe_B E) x = Some (q, y)" using a by (auto simp: pp_Save_def pbind_def split: option.splits)
  note c = stepsD [OF carries_resetSave q]
  show "carries (fst x) (fst x')"
  proof (cases q)
    case (Ok u)
    obtain pp w where y: "y = (pp, w)" by fastforce
    obtain p z where z: "pp_save E (pp_setState Saving pp, w) = Some (p, z)" using a q Ok y by (auto simp: pp_Save_def pbind_Some split: option.splits)
    have cz: "carries (fst x) (fst z)" using c y stepsD [OF carries_save z] by (auto intro: carries_after)
    obtain pz wz where zz: "z = (pz, wz)" by fastforce
    have fin: "x' = v" if "p = Err e" "pp_resetSave (pe_B E) (pp_setState SaveFailed pz, wz) = Some (t, v)" for e t v
      using a q Ok y z zz that by (auto simp: pp_Save_def pbind_Some)
    show ?thesis
    proof (cases p)
      case (Err e)
      have "pp_resetSave (pe_B E) (pp_setState SaveFailed pz, wz) \<noteq> None"
        using a q Ok y z zz Err by (cases "pp_resetSave (pe_B E) (pp_setState SaveFailed pz, wz)") (auto simp: pp_Save_def pbind_def)
      then obtain t v where t: "pp_resetSave (pe_B E) (pp_setState SaveFailed pz, wz) = Some (t, v)" by fast
      then show ?thesis using fin [OF Err t] cz zz stepsD [OF carries_resetSave t] by (auto intro: carries_after)
    qed (use a q Ok y z zz cz in \<open>auto simp: pp_Save_def pbind_Some intro: carry.chain\<close>)
  qed (use a q c in \<open>auto simp: pp_Save_def pbind_Some\<close>)
qed

lemma carries_Cancel: "steps carries (pp_Cancel B)"
proof -
  have "steps carries (\<lambda>x. pbind (pp_cancelPrepare B x) (\<lambda>_ (pp, w). Some (Ok (), pp_setState Canceled pp, w)))"
    by (rule carry.bind [OF carries_cancelPrepare]) (auto intro: stepsI)
  from stepsD [OF this] show ?thesis by (auto intro!: stepsI simp: pp_Cancel_def carry.same split: if_splits)
qed

section \<open>The block of a processor\<close>

text \<open>The block that belongs to the proposal: on top of the base manifest, with the roots of its trees and its own hash.\<close>

definition built_from :: "lib \<Rightarrow> ('t, 'o, 'c) dproc \<Rightarrow> blockv0 \<Rightarrow> bool" where
  "built_from L pp blk \<longleftrightarrow> (\<exists>f m. pp_Fact pp = Ok f \<and> pp_baseManifest pp = Some m \<and>
     (let b = bk_manifest blk in
      mf_height b = Fact_Height f \<and> mf_round b = Fact_Round f \<and> mf_proposal b = Fact_Hash f \<and> mf_previousBlock b = mf_h m \<and>
      mf_confirmedAt b = proposedAt f \<and> tree_hash (bk_operationsTree blk) = Ok (mf_operationsHash b) \<and>
      tree_hash (bk_statesTree blk) = Ok (mf_statesHash b) \<and> (\<exists>g. mf_h b = Some g \<and> Manifest_GenerateHash L b = Ok g)) \<and>
     ci_sfs (bk_ci blk) = Some (pp_sfs pp) \<and> ci_initVoteproof (bk_ci blk) = pp_initVoteproof pp \<and> ci_suffrageInfo (bk_ci blk) = Some (pp_suffrageInfo pp))"

definition pp_inv :: "lib \<Rightarrow> ('t, 'o, 'c) dproc \<Rightarrow> bool" where
  "pp_inv L pp \<longleftrightarrow> (\<forall>blk. pp_blk pp = Some blk \<longrightarrow> built_from L pp blk) \<and>
     (\<forall>ss. pp_ss pp = Some ss \<longrightarrow> (\<exists>blk. pp_blk pp = Some blk \<and> bk_manifest (ss_block ss) = bk_manifest blk))"

lemma built_carries: "carries pp pp' \<Longrightarrow> built_from L pp blk \<Longrightarrow> built_from L pp' blk"
  by (auto simp: built_from_def carries_def pp_Fact_def)

lemma inv_keeps: "keeps pp pp' \<Longrightarrow> pp_inv L pp \<Longrightarrow> pp_inv L pp'"
  by (auto simp: pp_inv_def keeps_def intro: built_carries)

lemma inv_same: "carries pp pp' \<Longrightarrow> pp_blk pp' = pp_blk pp \<Longrightarrow> pp_ss pp' = pp_ss pp \<Longrightarrow> pp_inv L pp \<Longrightarrow> pp_inv L pp'"
  by (auto simp: pp_inv_def intro: built_carries)

lemma setState_fields [simp]: "pp_blk (pp_setState s pp) = pp_blk pp" "pp_ss (pp_setState s pp) = pp_ss pp"
  "pp_blockdataSession (pp_setState s pp) = pp_blockdataSession pp" "pp_sfs (pp_setState s pp) = pp_sfs pp"
  by (simp_all add: pp_setState_def)

lemma inv_setState [simp]: "pp_inv L pp \<Longrightarrow> pp_inv L (pp_setState s pp)"
  by (rule inv_same [OF carries_setState]) simp_all

lemma inv_clear [simp]: "pp_inv L (pp_clear pp)"
  by (simp add: pp_inv_def pp_clear_def)

lemma Manifest_GenerateHash_h: "Manifest_GenerateHash L (m\<lparr>mf_h := g\<rparr>) = Manifest_GenerateHash L m"
  by (simp add: Manifest_GenerateHash_def Manifest_bytes_def)

lemma new_block_built:
  assumes "pp_new_block E pp = Ok b" and "oe_L (pe_op E) = L"
  shows "built_from L pp (Block_SetProposal (Some (pp_sfs pp)) (Block_SetINITVoteproof (pp_initVoteproof pp)
    (Block_SetStates sts (Block_SetStatesTree (pp_statesTree pp) (Block_SetOperations ops (Block_SetOperationsTree (pp_operationsTree pp) b))))))"
proof -
  obtain oh sh f m where p: "tree_hash (pp_operationsTree pp) = Ok oh" "tree_hash (pp_statesTree pp) = Ok sh" "pp_Fact pp = Ok f" "pp_baseManifest pp = Some m"
    "NewBlockV0 L (pe_now E) (pp_suffrageInfo pp) (Fact_Height f) (Fact_Round f) (Fact_Hash f) (mf_h m) oh sh (proposedAt f) = Ok b"
    using assms by (auto simp: pp_new_block_def bind_res_Ok_iff split: option.splits)
  from p(5) show ?thesis
    by (auto simp: built_from_def p NewBlockV0_def Let_def bind_res_Ok_iff Block_SetProposal_def Block_SetINITVoteproof_def Block_SetStates_def
        Block_SetStatesTree_def Block_SetOperations_def Block_SetOperationsTree_def Manifest_GenerateHash_h Manifest_GenerateHash_def Manifest_bytes_def)
qed

text \<open>Resetting and canceling: on success nothing is left, on failure what was there is still there.\<close>

lemma cancelPrepare_inv:
  assumes "pp_cancelPrepare B x = Some (r, x')" and "pp_inv L (fst x)"
  shows "pp_inv L (fst x')" and "r = Ok () \<Longrightarrow> pp_blk (fst x') = None \<and> pp_ss (fst x') = None"
proof -
  have s: "pp_inv L (fst y)" if "on_session (bds_Cancel B) x = Some (q, y)" for q y
    using inv_keeps [OF stepsD [OF keeps_session that] assms(2)] .
  show "pp_inv L (fst x')" using assms s by (cases x') (auto simp: pp_cancelPrepare_def pbind_Some split: if_splits)
  show "r = Ok () \<Longrightarrow> pp_blk (fst x') = None \<and> pp_ss (fst x') = None"
    using assms(1) by (auto simp: pp_cancelPrepare_def pbind_Some pp_clear_def split: if_splits)
qed

lemma resetSave_same:
  assumes "pp_resetSave B x = Some (r, x')"
  shows "pp_blk (fst x') = pp_blk (fst x)" and "pp_ss (fst x') = pp_ss (fst x)"
  using assms by (cases x; auto simp: pp_resetSave_def split: if_splits res.splits option.splits)+

lemma resetSave_inv: "pp_resetSave B x = Some (r, x') \<Longrightarrow> pp_inv L (fst x) \<Longrightarrow> pp_inv L (fst x')"
  using resetSave_same stepsD [OF carries_resetSave] inv_same by blast

lemma resetPrepare_inv:
  assumes "pp_resetPrepare B x = Some (r, x')" and "pp_inv L (fst x)"
  shows "pp_inv L (fst x') \<and> (r = Ok () \<longrightarrow> pp_blk (fst x') = None \<and> pp_ss (fst x') = None)"
proof -
  obtain q y where q: "pp_cancelPrepare B x = Some (q, y)" using pbind_begins [OF assms(1) [unfolded pp_resetPrepare_def]] by blast
  note c = cancelPrepare_inv [OF q assms(2)]
  show ?thesis
  proof (cases q)
    case (Ok u)
    then have r: "pp_resetSave B y = Some (r, x')" using assms(1) q by (simp add: pp_resetPrepare_def pbind_def)
    show ?thesis using resetSave_inv [OF r c(1)] resetSave_same [OF r] c(2) Ok by simp
  qed (use assms(1) q c(1) in \<open>simp_all add: pp_resetPrepare_def pbind_def\<close>, blast)
qed

text \<open>The steps before the block is made leave it empty; then the block is that of the proposal and the session holds it.\<close>

lemma prepareBlock_blk:
  assumes "pp_prepareBlock E x = Some (r, x')" and "oe_L (pe_op E) = L" and "pp_blk (fst x) = None" and "pp_ss (fst x) = None"
  shows "pp_inv L (fst x') \<and> pp_ss (fst x') = None"
proof (cases "pp_new_block E (fst x)")
  case (Ok b)
  obtain q y where q: "on_session (bds_SetManifest (pe_B E) (bk_manifest b)) x = Some (q, y)"
    using assms(1) Ok pbind_begins by (fastforce simp: pp_prepareBlock_def)
  obtain pp w where y: "y = (pp, w)" by fastforce
  have k: "keeps (fst x) pp" using stepsD [OF keeps_session q] y by simp
  have nb: "built_from L (fst x) (Block_SetProposal (Some (pp_sfs (fst x))) (Block_SetINITVoteproof (pp_initVoteproof (fst x))
    (Block_SetStates sts (Block_SetStatesTree (pp_statesTree (fst x)) (Block_SetOperations ops (Block_SetOperationsTree (pp_operationsTree (fst x)) b))))))" for sts ops
    by (rule new_block_built [OF Ok assms(2)])
  have t: "pp_statesTree pp = pp_statesTree (fst x)" "pp_operationsTree pp = pp_operationsTree (fst x)"
    using q y by (auto simp: on_session_def split: option.splits prod.splits)
  show ?thesis
  proof (cases q)
    case (Ok u)
    let ?blk = "Block_SetProposal (Some (pp_sfs pp)) (Block_SetINITVoteproof (pp_initVoteproof pp) (Block_SetStates (pp_states pp)
      (Block_SetStatesTree (pp_statesTree pp) (Block_SetOperations (pp_operations pp) (Block_SetOperationsTree (pp_operationsTree pp) b)))))"
    have "x' = (pp\<lparr>pp_blk := Some ?blk\<rparr>, w)" using assms(1) \<open>pp_new_block E (fst x) = Ok b\<close> q y Ok by (simp add: pp_prepareBlock_def pbind_def)
    moreover have "built_from L (fst x) ?blk" using nb [of "pp_states pp" "pp_operations pp"] k t by (simp add: keeps_def carries_def)
    then have "built_from L (pp\<lparr>pp_blk := Some ?blk\<rparr>) ?blk"
      by (rule built_carries [rotated]) (use k in \<open>simp add: keeps_def carries_def\<close>)
    ultimately show ?thesis using k assms(4) by (simp add: pp_inv_def keeps_def)
  qed (use assms \<open>pp_new_block E (fst x) = Ok b\<close> q y k in \<open>auto simp: pp_prepareBlock_def pbind_def pp_inv_def keeps_def\<close>)
qed (use assms in \<open>auto simp: pp_prepareBlock_def pp_inv_def\<close>)

lemma Session_steps_last:
  "Session_steps fs bst = (Ok u, bs) \<Longrightarrow> fs \<noteq> [] \<Longrightarrow> \<exists>b0. last fs b0 = (Ok u, bs)"
  by (induction fs arbitrary: bst) (auto split: prod.splits res.splits if_splits)

lemma SetBlock_block: "Session_SetBlock enc blk bst = (Ok u, bs) \<Longrightarrow> ss_block bs = blk"
  unfolding Session_SetBlock_def Let_def by (auto simp del: Session_steps.simps split: if_splits dest!: Session_steps_last)

lemma prepareDatabaseSession_ss:
  assumes "pp_prepareDatabaseSession x = Some (r, x')" and "pp_inv L (fst x)" and "pp_ss (fst x) = None"
  shows "pp_inv L (fst x')" and "r = Ok () \<Longrightarrow> \<exists>blk bs. pp_blk (fst x') = Some blk \<and> pp_ss (fst x') = Some bs \<and>
    pp_blockdataSession (fst x') = pp_blockdataSession (fst x) \<and> w_db (snd x') = w_db (snd x) \<and>
    Session_SetBlock (ld_enc (w_db (snd x))) blk (NewSession blk) = (Ok (), bs)"
proof -
  obtain pp w where x: "x = (pp, w)" by fastforce
  have c: "carries pp (fst x')" using stepsD [OF carries_prepareDatabaseSession assms(1)] x by simp
  have m: "bk_manifest (ss_block bs) = bk_manifest blk" if "Session_SetBlock enc blk (NewSession blk) = (Ok u, bs)" for enc blk u bs
    using SetBlock_block [OF that] by simp
  show "pp_inv L (fst x')" using assms x c m
    by (auto simp: pp_prepareDatabaseSession_def pp_inv_def intro: built_carries split: option.splits prod.splits res.splits)
  show "r = Ok () \<Longrightarrow> \<exists>blk bs. pp_blk (fst x') = Some blk \<and> pp_ss (fst x') = Some bs \<and>
    pp_blockdataSession (fst x') = pp_blockdataSession (fst x) \<and> w_db (snd x') = w_db (snd x) \<and>
    Session_SetBlock (ld_enc (w_db (snd x))) blk (NewSession blk) = (Ok (), bs)"
    using assms(1) x by (auto simp: pp_prepareDatabaseSession_def split: option.splits prod.splits res.splits)
qed

text \<open>Where the state is left by \<open>prepare\<close>, and on success.\<close>

definition prepared :: "lib \<Rightarrow> ('s, 'b, 't, 'o, 'c) pst \<Rightarrow> blockv0 \<Rightarrow> bool" where
  "prepared L x blk \<longleftrightarrow> pp_inv L (fst x) \<and> pp_blk (fst x) = Some blk \<and> pp_blockdataSession (fst x) \<noteq> None \<and>
     (\<exists>bs. pp_ss (fst x) = Some bs \<and> Session_SetBlock (ld_enc (w_db (snd x))) blk (NewSession blk) = (Ok (), bs))"

lemma guarded_Cons: "guarded d k (f # fs) x = Some (r, x') \<Longrightarrow>
    (d k \<and> r = Err ContextCanceled \<and> x' = x) \<or> (\<exists>y. f x = Some (Ok (), y) \<and> guarded d (Suc k) fs y = Some (r, x')) \<or> (f x = Some (r, x') \<and> r \<noteq> Ok ())"
  by (auto simp: pbind_Some split: if_splits)

lemma inv_empty: "pp_blk pp = None \<Longrightarrow> pp_ss pp = None \<Longrightarrow> pp_inv L pp"
  by (simp add: pp_inv_def)

lemma prepareBlock_session: "pp_prepareBlock E x = Some (Ok (), x') \<Longrightarrow> pp_blockdataSession (fst x') \<noteq> None"
  by (auto simp: pp_prepareBlock_def pbind_Some on_session_def split: res.splits option.splits prod.splits)

lemma guarded_keeps:
  assumes "guarded d k (fs @ gs) x = Some (r, x')" and "\<forall>f \<in> set fs. steps keeps f"
  shows "(r \<noteq> Ok () \<and> keeps (fst x) (fst x')) \<or> (\<exists>y j. keeps (fst x) (fst y) \<and> guarded d j gs y = Some (r, x'))"
  using assms
proof (induction fs arbitrary: k x)
  case (Cons f fs)
  have f: "steps keeps f" using Cons.prems(2) by simp
  from guarded_Cons [OF Cons.prems(1) [unfolded append_Cons]] show ?case
  proof (elim disjE exE conjE)
    fix y assume y: "f x = Some (Ok (), y)" "guarded d (Suc k) (fs @ gs) y = Some (r, x')"
    have k: "keeps (fst x) (fst y)" using stepsD [OF f y(1)] .
    have "\<forall>f \<in> set fs. steps keeps f" using Cons.prems(2) by simp
    from Cons.IH [OF y(2) this] show ?case using keep.chain [OF k] by blast
  next
    assume "f x = Some (r, x')" "r \<noteq> Ok ()"
    then show ?case using stepsD [OF f] by blast
  qed (auto simp: keep.same)
qed (auto simp: keep.same)

lemma guarded_last_steps:
  assumes "guarded d j [pp_prepareBlock E, pp_prepareDatabaseSession] y = Some (r, x')" and "oe_L (pe_op E) = L" and "pp_blk (fst y) = None" and "pp_ss (fst y) = None"
  shows "pp_inv L (fst x') \<and> (r = Ok () \<longrightarrow> (\<exists>blk. prepared L x' blk))"
  using guarded_Cons [OF assms(1)]
proof (elim disjE exE conjE)
  fix z assume z: "pp_prepareBlock E y = Some (Ok (), z)" "guarded d (Suc j) [pp_prepareDatabaseSession] z = Some (r, x')"
  have i: "pp_inv L (fst z)" "pp_ss (fst z) = None" using prepareBlock_blk [OF z(1) assms(2-4)] by auto
  from guarded_Cons [OF z(2)] show ?thesis
  proof (elim disjE exE conjE)
    fix v assume v: "pp_prepareDatabaseSession z = Some (Ok (), v)" "guarded d (Suc (Suc j)) [] v = Some (r, x')"
    then show ?thesis using prepareDatabaseSession_ss [OF v(1) i] prepareBlock_session [OF z(1)] by (auto simp: prepared_def)
  next
    assume "pp_prepareDatabaseSession z = Some (r, x')" "r \<noteq> Ok ()"
    then show ?thesis using prepareDatabaseSession_ss(1) [OF _ i] by blast
  qed (use i in simp)
next
  assume "pp_prepareBlock E y = Some (r, x')" "r \<noteq> Ok ()"
  then show ?thesis using prepareBlock_blk [OF _ assms(2-4)] by blast
qed (use inv_empty [OF assms(3,4)] in simp)

lemma prepare_inv:
  assumes "pp_prepare E x = Some (r, x')" and "oe_L (pe_op E) = L" and "pp_blk (fst x) = None" and "pp_ss (fst x) = None"
  shows "pp_inv L (fst x') \<and> (r = Ok () \<longrightarrow> (\<exists>blk. prepared L x' blk))"
proof -
  let ?fs = "[pp_prepareBlockdataSession E, pp_prepareOperations E, pp_process E]" and ?gs = "[pp_prepareBlock E, pp_prepareDatabaseSession]"
  have g: "pp_inv L (fst y) \<and> (q = Ok () \<longrightarrow> (\<exists>blk. prepared L y blk))" if y: "guarded (pe_done E) 0 (?fs @ ?gs) x = Some (q, y)" for q y
  proof -
    have "\<forall>f \<in> set ?fs. steps keeps f" by (simp add: keeps_prepareBlockdataSession keeps_prepareOperations keeps_process)
    from guarded_keeps [OF y this] show ?thesis
    proof (elim disjE exE conjE)
      fix z j assume z: "keeps (fst x) (fst z)" "guarded (pe_done E) j ?gs z = Some (q, y)"
      show ?thesis by (rule guarded_last_steps [OF z(2) assms(2)]) (use z(1) assms(3,4) in \<open>simp_all add: keeps_def\<close>)
    next
      assume "q \<noteq> Ok ()" "keeps (fst x) (fst y)"
      then show ?thesis using inv_empty [of "fst y"] assms(3,4) by (simp add: keeps_def)
    qed
  qed
  have "(\<exists>q. guarded (pe_done E) 0 (?fs @ ?gs) x = Some (q, x') \<and> (r = Ok () \<longrightarrow> q = Ok ())) \<or> (x' = x \<and> r \<noteq> Ok ())"
    using assms(1) by (auto simp: pp_prepare_def pbind_Some simp del: guarded.simps)
  then show ?thesis using g inv_empty [OF assms(3,4)] by blast
qed

lemma Prepare_inv:
  assumes "pp_Prepare E x = Some (r, x')" and "oe_L (pe_op E) = L" and "pp_inv L (fst x)"
  shows "pp_inv L (fst x')" and "r = Ok b \<Longrightarrow> \<exists>blk. b = Some blk \<and> prepared L x' blk"
proof -
  obtain q y where q: "pp_resetPrepare (pe_B E) x = Some (q, y)" using assms(1) by (auto simp: pp_Prepare_def split: option.splits)
  note c = resetPrepare_inv [OF q assms(3)]
  have "pp_inv L (fst x') \<and> (r = Ok b \<longrightarrow> (\<exists>blk. b = Some blk \<and> prepared L x' blk))"
  proof (cases q)
    case (Ok u)
    obtain pp w where y: "y = (pp, w)" by fastforce
    obtain p z where z: "pp_prepare E (pp_setState Preparing pp, w) = Some (p, z)" using assms(1) q Ok y by (auto simp: pp_Prepare_def split: option.splits)
    obtain pz wz where zz: "z = (pz, wz)" by fastforce
    have i: "pp_inv L pz \<and> (p = Ok () \<longrightarrow> (\<exists>blk. prepared L (pz, wz) blk))"
      using prepare_inv [OF z assms(2)] c Ok y zz by simp
    show ?thesis
    proof (cases p)
      case (Ok u')
      then have x': "x' = (pp_setState Prepared pz, wz)" "r = Ok (pp_blk pz)"
        using assms(1) q \<open>q = Ok u\<close> y z zz by (auto simp: pp_Prepare_def Let_def)
      then show ?thesis using i Ok by (auto simp: prepared_def)
    next
      case (Err e)
      obtain t v where t: "pp_resetPrepare (pe_B E) (pp_setState PrepareFailed pz, wz) = Some (t, v)"
        using assms(1) q Ok y z zz Err by (auto simp: pp_Prepare_def split: option.splits)
      then have "x' = v" "r \<noteq> Ok b" using assms(1) q Ok y z zz Err by (auto simp: pp_Prepare_def split: res.splits)
      then show ?thesis using resetPrepare_inv [OF t] i by simp
    qed (use assms(1) q Ok y z zz i in \<open>auto simp: pp_Prepare_def\<close>)
  qed (use assms(1) q c in \<open>auto simp: pp_Prepare_def\<close>)
  then show "pp_inv L (fst x')" "r = Ok b \<Longrightarrow> \<exists>blk. b = Some blk \<and> prepared L x' blk" by simp_all
qed

text \<open>A database session stays the session of its block.\<close>

lemma Session_put_block [simp]: "ss_block (snd (Session_put bst k r)) = ss_block bst"
  by (simp add: Session_put_def split: res.splits)

lemma Session_steps_block:
  "\<forall>f \<in> set fs. \<forall>b. ss_block (snd (f b)) = (if ss_block b = blk then blk else ss_block (snd (f b))) \<Longrightarrow> ss_block bst = blk \<Longrightarrow> ss_block (snd (Session_steps fs bst)) = blk"
proof (induction fs arbitrary: bst)
  case (Cons f fs)
  obtain r b where f: "f bst = (r, b)" by fastforce
  have "ss_block (snd (f bst)) = (if ss_block bst = blk then blk else ss_block (snd (f bst)))" using Cons.prems(1) by simp
  then have "ss_block b = blk" using f Cons.prems(2) by simp
  with Cons.IH Cons.prems(1) f show ?case by (cases r) auto
qed simp

lemma Traverse_block:
  "ss_block (snd (FixedTree_Traverse (\<lambda>bst no. case no of None \<Rightarrow> (Panic, bst)
      | Some n \<Rightarrow> (Ok True, bst\<lparr>ss_batch := ss_batch bst @ [BPut (leveldbOperationFactHashKey (NewBytes (fn_key n))) []]\<rparr>)) ns bst)) = ss_block bst"
proof (induction ns arbitrary: bst)
  case (Cons n ns)
  then show ?case by (cases n) simp_all
qed simp

lemma setOperationsTree_block: "ss_block (snd (Session_setOperationsTree enc tr bst)) = ss_block bst"
  unfolding Session_setOperationsTree_def
  by (auto simp: Traverse_block Session_put_def split: res.splits)

lemma setStates_block: "ss_block (snd (Session_setStates enc sts bst)) = ss_block bst"
  unfolding Session_setStates_def by (rule Session_steps_block) auto

lemma SetACCEPT_block: "ss_block (snd (Session_SetACCEPTVoteproof enc vp bst)) = ss_block bst"
  by (simp add: Session_SetACCEPTVoteproof_def)

lemma setVoteproofs_block: "ss_block (snd (Session_setVoteproofs enc ini acc bst)) = ss_block bst"
  unfolding Session_setVoteproofs_def by (rule Session_steps_block) (auto simp: SetACCEPT_block split: option.splits)

lemma SetBlock_same: "ss_block bst = blk \<Longrightarrow> ss_block (snd (Session_SetBlock enc blk bst)) = blk"
  unfolding Session_SetBlock_def Let_def
  by (auto simp del: Session_steps.simps simp: setOperationsTree_block setStates_block setVoteproofs_block
      intro!: Session_steps_block split: res.splits)

lemma Commit_block: "Session_Commit st bd bst = (r, bst', st') \<Longrightarrow> ss_block bst' = ss_block bst"
proof -
  assume a: "Session_Commit st bd bst = (r, bst', st')"
  let ?fs = "[(\<lambda>b. if length (ss_batch b) < 1 then Session_SetBlock (ld_enc st) (ss_block b) b else (Ok (), b)),
     (\<lambda>b. Session_put b (leveldbBlockdataMapKey (bd_height bd)) (marshal (SBlockdataMap bd) (ld_enc st)))]"
  have "ss_block (snd (Session_steps ?fs bst)) = ss_block bst"
    by (rule Session_steps_block) (auto simp: SetBlock_same)
  then show ?thesis using a by (auto simp: Session_Commit_def simp del: Session_steps.simps split: prod.splits res.splits)
qed

lemma built_accept: "built_from L pp (Block_SetACCEPTVoteproof avp blk) = built_from L pp blk"
  by (simp add: built_from_def Block_SetACCEPTVoteproof_def)

lemma SetACCEPTVoteproof_inv:
  assumes "pp_SetACCEPTVoteproof B avp x = Some (r, x')" and "pp_inv L (fst x)"
  shows "pp_inv L (fst x')"
proof (cases "fst x' = fst x")
  case False
  obtain pp w where x: "x = (pp, w)" by fastforce
  obtain blk ss where b: "pp_blk pp = Some blk" "pp_ss pp = Some ss"
    using assms(1) False x by (auto simp: pp_SetACCEPTVoteproof_def split: option.splits)
  obtain q ss' where q: "Session_SetACCEPTVoteproof (ld_enc (w_db w)) avp ss = (q, ss')" by fastforce
  then have s: "ss_block ss' = ss_block ss" using SetACCEPT_block [of "ld_enc (w_db w)" avp ss] by simp
  let ?pp = "pp\<lparr>pp_blk := Some (Block_SetACCEPTVoteproof (Some avp) blk), pp_ss := Some ss'\<rparr>"
  have m: "built_from L pp blk" "bk_manifest (ss_block ss) = bk_manifest blk" using assms(2) b x by (auto simp: pp_inv_def)
  have i: "pp_inv L ?pp" using m(2) s built_carries [OF _ m(1), of ?pp]
    by (auto simp: pp_inv_def built_accept carries_def) (simp add: Block_SetACCEPTVoteproof_def)
  have "x' = (?pp, w) \<or> on_session (bds_SetACCEPTVoteproof B avp) (?pp, w) = Some (r, x')"
    using assms(1) b q x False
    by (auto simp: pp_SetACCEPTVoteproof_def Let_def split: option.splits ballot_fact.splits if_splits res.splits)
  then show ?thesis using i inv_keeps [OF stepsD [OF keeps_session, of "bds_SetACCEPTVoteproof B avp" "(?pp, w)"]] by (cases x') auto
qed (use assms(2) in simp)

lemma save_inv:
  assumes "pp_save E x = Some (r, x')" and "pp_inv L (fst x)"
  shows "pp_inv L (fst x')"
proof -
  have b: "pp_inv L (fst y')" if "pp_storeBlockdataSession (pe_B E) y = Some (q, y')" "pp_inv L (fst y)" for y q y'
    by (rule inv_same [OF _ _ _ that(2)])
      (use that(1) in \<open>auto simp: pp_storeBlockdataSession_def carries_def split: option.splits prod.splits\<close>)
  have s: "pp_inv L (fst y')" if y: "pp_storeStorage bd y = Some (q, y')" "pp_inv L (fst y)" for bd y q y'
  proof -
    obtain pp w where yy: "y = (pp, w)" by fastforce
    have "built_from L (fst y') blk" if "built_from L pp blk" for blk
      using built_carries [OF _ that, of "fst y'"] y(1) yy by (auto simp: pp_storeStorage_def carries_def split: option.splits prod.splits res.splits)
    then show ?thesis using y yy
      by (auto simp: pp_storeStorage_def pp_inv_def split: option.splits prod.splits res.splits dest!: Commit_block)
  qed
  consider "x' = x" | q where "pp_storeBlockdataSession (pe_B E) x = Some (q, x')"
    | bd y q where "pp_storeBlockdataSession (pe_B E) x = Some (Ok bd, y)" "pp_storeStorage bd y = Some (q, x')"
    using assms(1) by (cases x') (auto simp: pp_save_def pbind_Some split: if_splits)
  then show ?thesis by cases (use assms(2) b s in blast)+
qed

lemma Save_inv:
  assumes "pp_Save E x = Some (r, x')" and "pp_inv L (fst x)"
  shows "pp_inv L (fst x')"
proof -
  obtain q y where q: "pp_resetSave (pe_B E) x = Some (q, y)" using pbind_begins [OF assms(1) [unfolded pp_Save_def]] by blast
  note c = resetSave_inv [OF q assms(2)]
  show ?thesis
  proof (cases q)
    case (Ok u)
    obtain pp w where y: "y = (pp, w)" by fastforce
    obtain p z where z: "pp_save E (pp_setState Saving pp, w) = Some (p, z)" using assms(1) q Ok y by (auto simp: pp_Save_def pbind_Some split: option.splits)
    have i: "pp_inv L (fst z)" using save_inv [OF z] c y by simp
    obtain pz wz where zz: "z = (pz, wz)" by fastforce
    show ?thesis
    proof (cases p)
      case (Err e)
      have r: "pbind (pp_resetSave (pe_B E) (pp_setState SaveFailed pz, wz)) (\<lambda>_ x. Some (Err e :: unit res, x)) = Some (r, x')"
        using assms(1) q Ok y z zz Err by (simp add: pp_Save_def pbind_def)
      then obtain t v where t: "pp_resetSave (pe_B E) (pp_setState SaveFailed pz, wz) = Some (t, v)" using pbind_begins [OF r] by blast
      then have "x' = v" using r by (auto simp: pbind_Some)
      then show ?thesis using resetSave_inv [OF t] i zz by simp
    qed (use assms(1) q Ok y z zz i in \<open>auto simp: pp_Save_def pbind_Some\<close>)
  qed (use assms(1) q c in \<open>auto simp: pp_Save_def pbind_Some\<close>)
qed

lemma Cancel_inv: "pp_Cancel B x = Some (r, x') \<Longrightarrow> pp_inv L (fst x) \<Longrightarrow> pp_inv L (fst x')"
  using cancelPrepare_inv(1) [of B x _ _ L] by (cases x') (auto simp: pp_Cancel_def pbind_Some split: if_splits)

section \<open>The life of a processor\<close>

text \<open>The calls on a processor, one after the other; between two calls the rest of the node may change the database and the block data.\<close>

inductive pp_life :: "lib \<Rightarrow> ('s, 'b, 't, 'o, 'c) pst \<Rightarrow> ('s, 'b, 't, 'o, 'c) pst \<Rightarrow> bool" for L x0 where
  life_start: "pp_life L x0 x0"
| life_other: "pp_life L x0 (pp, w) \<Longrightarrow> pp_life L x0 (pp, w')"
| life_prepare: "pp_life L x0 x \<Longrightarrow> oe_L (pe_op E) = L \<Longrightarrow> pp_Prepare E x = Some (r, x') \<Longrightarrow> pp_life L x0 x'"
| life_accept: "pp_life L x0 x \<Longrightarrow> pp_SetACCEPTVoteproof B avp x = Some (r', x') \<Longrightarrow> pp_life L x0 x'"
| life_save: "pp_life L x0 x \<Longrightarrow> oe_L (pe_op E) = L \<Longrightarrow> pp_Save E x = Some (r', x') \<Longrightarrow> pp_life L x0 x'"
| life_cancel: "pp_life L x0 x \<Longrightarrow> pp_Cancel B x = Some (r', x') \<Longrightarrow> pp_life L x0 x'"

lemma life_keeps:
  assumes "pp_life L x0 x" and "pp_inv L (fst x0)"
  shows "carries (fst x0) (fst x) \<and> pp_inv L (fst x)"
  using assms
proof (induction rule: pp_life.induct)
  case life_start
  then show ?case by (simp add: carry.same)
next
  case (life_prepare x E r x')
  then show ?case using Prepare_inv(1) stepsD [OF carries_Prepare] carry.chain by metis
next
  case (life_accept x B avp r' x')
  then show ?case using SetACCEPTVoteproof_inv stepsD [OF carries_SetACCEPTVoteproof] carry.chain by metis
next
  case (life_save x E r' x')
  then show ?case using Save_inv stepsD [OF carries_Save] carry.chain by metis
next
  case (life_cancel x B r' x')
  then show ?case using Cancel_inv stepsD [OF carries_Cancel] carry.chain by metis
qed simp

lemma new_inv:
  assumes "NewDefaultProcessor np S hm sfs ivp d = Ok pp"
  shows "pp_inv L pp" and "pp_sfs pp = sfs" and "pp_initVoteproof pp = ivp" and "pp_state pp = BeforePrepared"
    and "\<exists>f. sf_fact sfs = Some f \<and> Database_ManifestByHeight d (i64 (Fact_Height f - 1)) = Ok (pp_baseManifest pp, True)"
  using assms by (auto simp: NewDefaultProcessor_def Let_def bind_res_Ok_iff pp_inv_def split: option.splits if_splits)

text \<open>
  C11: whatever calls a processor has gone through, successful or not, its state has not gone back, and the block it holds is the block of
  the proposal it was made for: its height, round and hash, on top of the manifest stored at the height before, with the roots of its
  operations and states, the hash of its own manifest, the signed proposal and the INIT voteproof; its database session is for that block.
\<close>

theorem processor_holds_proposal_block:
  assumes "NewDefaultProcessor np S hm sfs ivp d = Ok pp0" and "pp_life L (pp0, w0) (pp, w)"
  shows "pp_state pp0 \<le> pp_state pp \<and>
    (\<forall>blk. pp_blk pp = Some blk \<longrightarrow> (\<exists>f m. sf_fact sfs = Some f \<and> Database_ManifestByHeight d (i64 (Fact_Height f - 1)) = Ok (Some m, True) \<and>
       (let b = bk_manifest blk in
        mf_height b = Fact_Height f \<and> mf_round b = Fact_Round f \<and> mf_proposal b = Fact_Hash f \<and> mf_previousBlock b = mf_h m \<and>
        tree_hash (bk_operationsTree blk) = Ok (mf_operationsHash b) \<and> tree_hash (bk_statesTree blk) = Ok (mf_statesHash b) \<and>
        (\<exists>g. mf_h b = Some g \<and> Manifest_GenerateHash L b = Ok g)) \<and>
       ci_sfs (bk_ci blk) = Some sfs \<and> ci_initVoteproof (bk_ci blk) = ivp)) \<and>
    (\<forall>ss. pp_ss pp = Some ss \<longrightarrow> (\<exists>blk. pp_blk pp = Some blk \<and> bk_manifest (ss_block ss) = bk_manifest blk))"
proof -
  note n = new_inv [OF assms(1)]
  have l: "carries pp0 pp" "pp_inv L pp" using life_keeps [OF assms(2)] n(1) by simp_all
  have f: "pp_sfs pp = sfs" "pp_initVoteproof pp = ivp" "pp_baseManifest pp = pp_baseManifest pp0" using l(1) n(2,3) by (simp_all add: carries_def)
  have b: "built_from L pp blk" if "pp_blk pp = Some blk" for blk using l(2) that by (simp add: pp_inv_def)
  have "\<exists>f m. sf_fact sfs = Some f \<and> Database_ManifestByHeight d (i64 (Fact_Height f - 1)) = Ok (Some m, True) \<and>
       (let b = bk_manifest blk in
        mf_height b = Fact_Height f \<and> mf_round b = Fact_Round f \<and> mf_proposal b = Fact_Hash f \<and> mf_previousBlock b = mf_h m \<and>
        tree_hash (bk_operationsTree blk) = Ok (mf_operationsHash b) \<and> tree_hash (bk_statesTree blk) = Ok (mf_statesHash b) \<and>
        (\<exists>g. mf_h b = Some g \<and> Manifest_GenerateHash L b = Ok g)) \<and>
       ci_sfs (bk_ci blk) = Some sfs \<and> ci_initVoteproof (bk_ci blk) = ivp" if "pp_blk pp = Some blk" for blk
    using b [OF that] n(5) unfolding built_from_def pp_Fact_def f Let_def
    by (auto split: option.splits ballot_fact.splits)
  then show ?thesis using l by (auto simp: carries_def pp_inv_def)
qed

section \<open>From the proposal to the stored block\<close>

lemma index_determines:
  assumes "opened d" and "opened e" and "ld_encs d = ld_encs e" and "\<forall>k. index_key k \<longrightarrow> content d k = content e k"
  shows "Database_ManifestByHeight d x = Database_ManifestByHeight e x" and "Database_blockByHeight d x = Database_blockByHeight e x"
  using assms(4) index_key_simps
  by (simp_all add: ManifestByHeight_content [OF assms(1)] ManifestByHeight_content [OF assms(2)] blockByHeight_content [OF assms(1)] blockByHeight_content [OF assms(2)]
      Manifest_content [OF assms(1), abs_def] Manifest_content [OF assms(2), abs_def] load_cong [OF assms(3)] cong: option.case_cong)

text \<open>A session that got its block and then other keys outside the indexes commits the block.\<close>

lemma session_commits:
  assumes "opened d" and "committable (ld_enc d) blk h bd" and "ss_batch ss = block_puts (ld_enc d) blk h @ [BPut k v]" and "\<not> index_key k"
    and "Session_Commit d bd ss = (r, ss', d')"
  shows "r = Ok ()" and "Database_ManifestByHeight d' (mf_height (bk_manifest blk)) = Ok (Some (bk_manifest blk), True)"
    and "Database_blockByHeight d' (mf_height (bk_manifest blk)) = Ok (Some blk, True)"
proof -
  let ?bd = "BPut (leveldbBlockdataMapKey (bd_height bd)) (encoded (ld_enc d) (SBlockdataMap bd))"
  let ?b = "block_puts (ld_enc d) blk h @ [BPut k v, ?bd]"
  have rb: "reads_back (ld_enc d) (SBlockdataMap bd)" using assms(2) by (simp add: committable_def)
  obtain e where e: "Database_Write d ?b = (Ok (), e)" "opened e" "content e = apply_batch ?b (content d)" "ld_encs e = ld_encs d"
    using write_content [OF assms(1)] by blast
  have "Session_Commit d bd ss = (Ok (), ss\<lparr>ss_batch := ?b\<rparr>, e)"
    using e(1) assms(3) by (simp add: Session_Commit_def Session_put_Ok [OF rb])
  then have r: "r = Ok ()" "d' = e" using assms(5) by simp_all
  obtain c where c: "Database_commitBlock d blk bd = (Ok (), c)" using commitBlock_Ok [OF assms(1,2)] by blast
  note cr = commit_read [OF assms(1,2) c]
  have "content e x = content c x" if x: "index_key x" for x
  proof -
    have "x \<noteq> k" "x \<noteq> leveldbBlockdataMapKey (bd_height bd)" using x assms(4)
      by (auto simp: index_key_def leveldbBlockdataMapKey_def height_key_def key_prefixes)
    then have "content e x = apply_batch (commit_puts (ld_enc d) blk h bd) (content d) x"
      unfolding e(3) commit_puts_def apply_batch_def by simp
    then show ?thesis using commit_index [OF x] cr(4) [OF x] by simp
  qed
  then have i: "Database_ManifestByHeight e x = Database_ManifestByHeight c x" "Database_blockByHeight e x = Database_blockByHeight c x" for x
    using index_determines [OF e(2) cr(1)] e(4) cr(3) by simp_all
  show "r = Ok ()" by (rule r)
  show "Database_ManifestByHeight d' (mf_height (bk_manifest blk)) = Ok (Some (bk_manifest blk), True)" using cr(5) i r(2) by simp
  show "Database_blockByHeight d' (mf_height (bk_manifest blk)) = Ok (Some blk, True)" using cr(6) i r(2) by simp
qed

text \<open>What an accepted voteproof has to say, and what it leaves.\<close>

lemma SetACCEPTVoteproof_Ok:
  assumes "pp_SetACCEPTVoteproof B avp (pp, w) = Some (Ok (), x')"
  shows "\<exists>blk ss t t' bf p nb h ss'. pp_blk pp = Some blk \<and> pp_ss pp = Some ss \<and> vp_majority avp = Some (ACCEPTFact bf p (Some nb)) \<and>
    mf_h (bk_manifest blk) = Some h \<and> Hash_Equal h nb \<and> Session_SetACCEPTVoteproof (ld_enc (w_db w)) avp ss = (Ok (), ss') \<and>
    x' = (pp\<lparr>pp_blk := Some (Block_SetACCEPTVoteproof (Some avp) blk), pp_ss := Some ss', pp_blockdataSession := Some t'\<rparr>, w)"
  using assms
  by (auto simp: pp_SetACCEPTVoteproof_def Let_def on_session_def split: option.splits ballot_fact.splits if_splits res.splits prod.splits)

definition same_state :: "('t, 'o, 'c) dproc \<Rightarrow> ('t, 'o, 'c) dproc \<Rightarrow> bool" where
  "same_state pp pp' \<longleftrightarrow> pp_state pp' = pp_state pp"

interpretation still: step_relation same_state
  by unfold_locales (auto simp: same_state_def)

lemma keeps_state: "steps keeps f \<Longrightarrow> steps same_state f"
  by (auto simp: steps_def keeps_def same_state_def)

lemma state_set_block:
  "steps same_state (\<lambda>x. pbind (on_session f x) (\<lambda>_ (pp, w). Some (Ok (), pp\<lparr>pp_blk := h pp\<rparr>, w)))"
  by (intro still.bind keeps_state [OF keeps_session]) (auto intro!: stepsI simp: same_state_def)

lemma state_prepareBlock: "steps same_state (pp_prepareBlock E)"
  by (rule stepsI) (auto simp: pp_prepareBlock_def still.same split: res.splits dest: stepsD [OF state_set_block])

lemma state_prepareDatabaseSession: "steps same_state pp_prepareDatabaseSession"
  by (rule stepsI) (auto simp: pp_prepareDatabaseSession_def same_state_def split: option.splits prod.splits res.splits)

lemma state_prepare: "steps same_state (pp_prepare E)"
  unfolding pp_prepare_def [abs_def]
  by (intro still.bind still.guarded) (auto intro!: stepsI keeps_state keeps_prepareBlockdataSession keeps_prepareOperations keeps_process
      state_prepareBlock state_prepareDatabaseSession simp: still.same keep.same)

lemma resetPrepare_state:
  assumes "pp_resetPrepare B x = Some (Ok (), x')" and "pp_state (fst x) \<le> Prepared"
  shows "pp_state (fst x') \<le> Prepared"
proof -
  obtain y where y: "pp_cancelPrepare B x = Some (Ok (), y)" "pp_resetSave B y = Some (Ok (), x')"
    using assms(1) by (auto simp: pp_resetPrepare_def pbind_Some)
  have "pp_state (fst y) = pp_state (fst x)"
    using y(1) by (auto simp: pp_cancelPrepare_def pbind_Some on_session_def pp_clear_def split: if_splits option.splits prod.splits)
  then show ?thesis using y(2) assms(2)
    by (cases y; cases "pp_state (fst x)") (auto simp: pp_resetSave_def pp_setState_def pstate_order)
qed

lemma Prepare_state:
  assumes "pp_Prepare E x = Some (Ok b, x')" and "pp_state (fst x) \<le> Prepared"
  shows "pp_state (fst x') = Prepared"
proof -
  obtain pp w where y: "pp_resetPrepare (pe_B E) x = Some (Ok (), pp, w)" using assms(1) by (auto simp: pp_Prepare_def split: option.splits res.splits)
  obtain pz wz where z: "pp_prepare E (pp_setState Preparing pp, w) = Some (Ok (), pz, wz)" "x' = (pp_setState Prepared pz, wz)"
    using assms(1) y by (auto simp: pp_Prepare_def Let_def split: option.splits res.splits)
  have "pp_state pz = pp_state (pp_setState Preparing pp)" using stepsD [OF state_prepare z(1)] by (simp add: same_state_def)
  then have "pp_state pz \<le> Prepared" using resetPrepare_state [OF y assms(2)]
    by (auto simp: pp_setState_def pstate_order)
  then show ?thesis using z(2) by (auto simp: pp_setState_def)
qed

lemma Save_Ok:
  assumes "pp_Save E (pp, w) = Some (Ok (), x')" and "pp_state pp = Prepared" and "pp_ss pp = Some ss"
  shows "\<exists>t bd t' b' ss' d. bdt_SaveSession (pe_B E) (w_bd w) t = (Ok bd, t', b') \<and> Session_Commit (w_db w) bd ss = (Ok (), ss', d) \<and>
    w_db (snd x') = d \<and> pp_state (fst x') = Saved"
proof -
  have r: "pp_resetSave (pe_B E) (pp, w) = Some (Ok (), pp, w)" using assms(2) by (simp add: pp_resetSave_def pp_setState_def pstate_order)
  have st: "pp_state (pp_setState Saving pp) = Saving" using assms(2) by (simp add: pp_setState_def pstate_order)
  obtain pz wz where z: "pp_save E (pp_setState Saving pp, w) = Some (Ok (), pz, wz)" "x' = (pp_setState Saved pz, wz)"
    using assms(1) r by (auto simp: pp_Save_def pbind_Some split: option.splits res.splits)
  obtain bd py wy where y: "pp_storeBlockdataSession (pe_B E) (pp_setState Saving pp, w) = Some (Ok bd, py, wy)"
    "pp_storeStorage bd (py, wy) = Some (Ok (), pz, wz)"
    using z(1) by (auto simp: pp_save_def pbind_Some split: if_splits)
  have "w_db wy = w_db w \<and> pp_ss py = Some ss \<and> pp_state py = Saving \<and> (\<exists>t t' b'. bdt_SaveSession (pe_B E) (w_bd w) t = (Ok bd, t', b'))"
    using y(1) assms(3) st by (auto simp: pp_storeBlockdataSession_def split: option.splits prod.splits)
  then obtain t t' b' where p: "w_db wy = w_db w" "pp_ss py = Some ss" "pp_state py = Saving" "bdt_SaveSession (pe_B E) (w_bd w) t = (Ok bd, t', b')" by blast
  then obtain ss' d where "Session_Commit (w_db w) bd ss = (Ok (), ss', d)" "pz = py\<lparr>pp_ss := None\<rparr>" "wz = wy\<lparr>w_db := d\<rparr>"
    using y(2) by (auto simp: pp_storeStorage_def split: prod.splits res.splits)
  then show ?thesis using p z(2)
    by (intro exI [of _ t] exI [of _ bd] exI [of _ t'] exI [of _ b'] exI [of _ ss'] exI [of _ d]) (simp add: pp_setState_def pstate_order)
qed

lemma accept_put:
  assumes "Session_SetACCEPTVoteproof enc avp ss = (Ok (), ss')"
  shows "\<exists>v. ss_batch ss' = ss_batch ss @ [BPut (leveldbVoteproofKey (vp_height avp) StageACCEPT) v]"
  using assms by (auto simp: Session_SetACCEPTVoteproof_def Session_put_def split: if_splits res.splits)


section \<open>Witnesses\<close>

definition sample_pfact :: ballot_fact where
  "sample_pfact = ProposalFact \<lparr>bf_ht = ProposalFactHint, bf_h = Some (NewBytes [7]), bf_height = 1, bf_round = 0\<rparr> (Some (local_address sample_nodepool)) [] 40"

definition sample_sfs :: signed_fact where
  "sample_sfs = NewBaseSignedBallotFact (Some sample_pfact) None"

definition sample_psi :: suffrage_info where
  "sample_psi = NewSuffrageInfoV0 (local_address sample_nodepool) []"

definition sample_pblock :: blockv0 where
  "sample_pblock = Block_SetProposal (Some sample_sfs) (Block_SetINITVoteproof None (Block_SetStates None (Block_SetStatesTree EmptyFixedTree
     (Block_SetOperations None (Block_SetOperationsTree EmptyFixedTree
       (ok_val (NewBlockV0 sample_lib 50 sample_psi 1 0 (Some (NewBytes [7])) (Some (NewBytes [10])) None None 40)))))))"

definition proc_encoder :: encoder where
  "proc_encoder = \<lparr>
     en_ht = NewHint ''json-encoder'' ''v0.0.1'',
     en_Marshal = (\<lambda>x. case x of
        SHash h \<Rightarrow> Ok (Hash_Bytes h)
      | SBlock b \<Rightarrow> Ok [1, of_int (mf_height (bk_manifest b))]
      | SManifest m \<Rightarrow> Ok [2, of_int (mf_height m)]
      | SBlockdataMap bd \<Rightarrow> Ok [3, of_int (bd_height bd)]
      | SVoteproof v \<Rightarrow> Ok [4]
      | _ \<Rightarrow> Err (plain ''unknown type'')),
     en_Decode = (\<lambda>b. case b of
        [t, n] \<Rightarrow>
          let blk = (if n = 1 then sample_pblock else blk_of (sint n)) in
          if t = 1 then Ok (Some (SBlock blk)) else if t = 2 then Ok (Some (SManifest (bk_manifest blk)))
          else if t = 3 then Ok (Some (SBlockdataMap (bdm_of (sint n)))) else Err (plain ''unknown type'')
      | _ \<Rightarrow> Err (plain ''unknown type'')),
     en_UnmarshalHash = (\<lambda>b. Ok b)\<rparr>"

definition proc_db :: "alist_store database" where
  "proc_db = NewDatabase sample_leveldb [] ((NewHintset ())\<lparr>hs_m := [''json-encoder-v0.0.1'' \<mapsto> (NewHint ''json-encoder'' ''v0.0.1'', Some proc_encoder)]\<rparr>) proc_encoder"

definition proc_db1 :: "alist_store database" where
  "proc_db1 = snd (Database_commitBlock proc_db (blk_of 0) (bdm_of 0))"

definition sample_blockdata :: "(unit, unit) blockdata" where
  "sample_blockdata = \<lparr>bdt_NewSession = (\<lambda>b h. (Ok (), b)), bdt_SaveSession = (\<lambda>b t. (Ok (bdm_of 1), t, b)), bdt_RemoveAll = (\<lambda>b h. (Ok (), b)),
     bds_SetINITVoteproof = (\<lambda>_ t. (Ok (), t)), bds_SetACCEPTVoteproof = (\<lambda>_ t. (Ok (), t)), bds_SetSuffrageInfo = (\<lambda>_ t. (Ok (), t)),
     bds_SetProposal = (\<lambda>_ t. (Ok (), t)), bds_SetManifest = (\<lambda>_ t. (Ok (), t)), bds_AddOperations = (\<lambda>_ t. (Ok (), t)),
     bds_CloseOperations = (\<lambda>t. (Ok (), t)), bds_SetOperationsTree = (\<lambda>_ t. (Ok (), t)), bds_AddStates = (\<lambda>_ t. (Ok (), t)),
     bds_CloseStates = (\<lambda>t. (Ok (), t)), bds_SetStatesTree = (\<lambda>_ t. (Ok (), t)), bds_Cancel = (\<lambda>t. (Ok (), t))\<rparr>"

definition sample_penv :: "(unit, unit, unit) penv" where
  "sample_penv = \<lparr>pe_op = sample_openv, pe_ulid = (\<lambda>_. []), pe_now = 50, pe_sched = [], pe_added = id, pe_appended = id, pe_B = sample_blockdata,
     pe_prePrepare = None, pe_postPrepare = None, pe_preSave = None, pe_postSave = None, pe_done = (\<lambda>_. False), pe_waitDone = False\<rparr>"

definition sample_dproc :: "(unit, unit, unit) dproc" where
  "sample_dproc = ok_val (NewDefaultProcessor sample_nodepool no_suffrage None sample_sfs None proc_db1)"

definition sample_avp :: voteproof where
  "sample_avp = (NewVoteproofV0 1 0 [] 67 StageACCEPT)\<lparr>vp_majority := Some (ACCEPTFact (NewBaseFact ACCEPTFactHint 1 0) None (mf_h (bk_manifest sample_pblock)))\<rparr>"

lemma sha3_sample: "sha3_Sum256 sample_lib b \<noteq> []"
  by (simp add: sample_lib_def)

lemma sample_new_block:
  "\<exists>b h. NewBlockV0 sample_lib 50 sample_psi 1 0 (Some (NewBytes [7])) (Some (NewBytes [10])) None None 40 = Ok b \<and> mf_h (bk_manifest b) = Some h \<and>
     Hash_Bytes h \<noteq> [] \<and> mf_height (bk_manifest b) = 1"
  using sha3_sample by (auto simp: NewBlockV0_def Let_def Manifest_GenerateHash_def Manifest_bytes_def of_hash_def NewSHA256_def)

lemma sample_pblock_parts:
  "mf_height (bk_manifest sample_pblock) = 1" "\<exists>h. mf_h (bk_manifest sample_pblock) = Some h \<and> Hash_Bytes h \<noteq> []"
  "bk_operationsTree sample_pblock = EmptyFixedTree" "bk_states sample_pblock = None" "ci_initVoteproof (bk_ci sample_pblock) = None"
  "ci_acceptVoteproof (bk_ci sample_pblock) = None"
proof -
  obtain b where b: "NewBlockV0 sample_lib 50 sample_psi 1 0 (Some (NewBytes [7])) (Some (NewBytes [10])) None None 40 = Ok b"
    "\<exists>h. mf_h (bk_manifest b) = Some h \<and> Hash_Bytes h \<noteq> []" "mf_height (bk_manifest b) = 1" using sample_new_block by blast
  have "ci_acceptVoteproof (bk_ci b) = None" using b(1) by (auto simp: NewBlockV0_def Let_def bind_res_Ok_iff)
  then show "mf_height (bk_manifest sample_pblock) = 1" "\<exists>h. mf_h (bk_manifest sample_pblock) = Some h \<and> Hash_Bytes h \<noteq> []"
    "bk_operationsTree sample_pblock = EmptyFixedTree" "bk_states sample_pblock = None" "ci_initVoteproof (bk_ci sample_pblock) = None"
    "ci_acceptVoteproof (bk_ci sample_pblock) = None"
    using b by (simp_all add: sample_pblock_def Block_SetProposal_def Block_SetINITVoteproof_def Block_SetStates_def
        Block_SetStatesTree_def Block_SetOperations_def Block_SetOperationsTree_def)
qed

lemma proc_committable:
  "committable proc_encoder (blk_of 0) (NewBytes [10]) (bdm_of 0)"
  "mf_h (bk_manifest sample_pblock) = Some h \<Longrightarrow> committable proc_encoder sample_pblock h (bdm_of 1)"
proof -
  have h: "reads_back proc_encoder (SHash h)" for h by (simp add: reads_back_def proc_encoder_def)
  have bd: "reads_back proc_encoder (SBlockdataMap (bdm_of 0))" "reads_back proc_encoder (SBlockdataMap (bdm_of 1))" "bd_height (bdm_of i) = i" for i
    by (simp_all add: reads_back_def proc_encoder_def bdm_of_def NewBaseBlockdataMap_def)
  have b0: "reads_back proc_encoder (SBlock (blk_of 0))" "reads_back proc_encoder (SManifest (bk_manifest (blk_of 0)))"
    by (simp_all add: reads_back_def proc_encoder_def blk_of_def)
  have b1: "reads_back proc_encoder (SBlock sample_pblock)" "reads_back proc_encoder (SManifest (bk_manifest sample_pblock))"
    using sample_pblock_parts(1) by (simp_all add: reads_back_def proc_encoder_def)
  show "committable proc_encoder (blk_of 0) (NewBytes [10]) (bdm_of 0)"
    unfolding committable_def using h bd b0
    by (simp add: NewBytes_def blk_of_def emptyFixedTree_def FixedTree_Len_def block_states_def)
  show "mf_h (bk_manifest sample_pblock) = Some h \<Longrightarrow> committable proc_encoder sample_pblock h (bdm_of 1)"
    unfolding committable_def using h bd b1 sample_pblock_parts
    by (auto simp: block_states_def EmptyFixedTree_def NewFixedTree_def NewFixedTreeWithHint_def FixedTree_Len_def)
qed

lemma proc_db_opened: "opened proc_db" "ld_enc proc_db = proc_encoder"
proof -
  have h: "ParseHint ''json-encoder-v0.0.1'' = Ok (NewHint ''json-encoder'' ''v0.0.1'')" "Hint_String (NewHint ''json-encoder'' ''v0.0.1'') = ''json-encoder-v0.0.1''"
    "length ''json-encoder-v0.0.1'' \<le> MaxHintLength" by code_simp+
  let ?es = "(NewHintset ())\<lparr>hs_m := [''json-encoder-v0.0.1'' \<mapsto> (NewHint ''json-encoder'' ''v0.0.1'', Some proc_encoder)]\<rparr>"
  have "Encoders_Encoder ?es ''json-encoder'' ''v0.0.1'' = Ok proc_encoder"
    by (simp add: Encoders_Encoder_def Hintset_Get_def Hint_RawString_def NewHint_def)
  with h have "encoder_registered ?es proc_encoder"
    unfolding encoder_registered_def by (simp add: proc_encoder_def [THEN arg_cong [where f = en_ht]] NewHint_def)
  then show "opened proc_db" using sample_goleveldb by (auto simp: opened_def proc_db_def NewDatabase_def)
  show "ld_enc proc_db = proc_encoder" by (simp add: proc_db_def NewDatabase_def)
qed

lemma proc_db1_facts:
  "opened proc_db1" "ld_enc proc_db1 = proc_encoder" "Database_ManifestByHeight proc_db1 0 = Ok (Some (bk_manifest (blk_of 0)), True)"
proof -
  have c: "committable (ld_enc proc_db) (blk_of 0) (NewBytes [10]) (bdm_of 0)" using proc_committable(1) proc_db_opened(2) by simp
  obtain e where e: "Database_commitBlock proc_db (blk_of 0) (bdm_of 0) = (Ok (), e)" using commitBlock_Ok [OF proc_db_opened(1) c] by blast
  note r = commit_read [OF proc_db_opened(1) c e]
  have "proc_db1 = e" using e by (simp add: proc_db1_def)
  then show "opened proc_db1" "ld_enc proc_db1 = proc_encoder" "Database_ManifestByHeight proc_db1 0 = Ok (Some (bk_manifest (blk_of 0)), True)"
    using r proc_db_opened(2) by (simp_all add: blk_of_def)
qed

lemma sample_dproc_new:
  "NewDefaultProcessor sample_nodepool no_suffrage None sample_sfs None proc_db1 = Ok sample_dproc"
  "pp_sfs sample_dproc = sample_sfs" "pp_state sample_dproc = BeforePrepared" "pp_baseManifest sample_dproc = Some (bk_manifest (blk_of 0))"
  "pp_suffrageInfo sample_dproc = sample_psi" "pp_initVoteproof sample_dproc = None" "pp_blockdataSession sample_dproc = None"
proof -
  have f: "Fact_Height sample_pfact = 1" by (simp add: Fact_Height_def sample_pfact_def)
  obtain pp :: "(unit, unit, unit) dproc" where pp: "NewDefaultProcessor sample_nodepool no_suffrage None sample_sfs None proc_db1 = Ok pp"
    "pp_sfs pp = sample_sfs" "pp_state pp = BeforePrepared" "pp_baseManifest pp = Some (bk_manifest (blk_of 0))"
    "pp_suffrageInfo pp = sample_psi" "pp_initVoteproof pp = None" "pp_blockdataSession pp = None"
    using proc_db1_facts(3) f
    by (simp add: NewDefaultProcessor_def sample_sfs_def NewBaseSignedBallotFact_def i64_def Let_def pp_getSuffrageInfo_def no_suffrage_def pp_Fact_def
        sample_psi_def) (simp add: sample_pfact_def)
  then have "sample_dproc = pp" by (simp add: sample_dproc_def)
  with pp show "NewDefaultProcessor sample_nodepool no_suffrage None sample_sfs None proc_db1 = Ok sample_dproc"
    "pp_sfs sample_dproc = sample_sfs" "pp_state sample_dproc = BeforePrepared" "pp_baseManifest sample_dproc = Some (bk_manifest (blk_of 0))"
    "pp_suffrageInfo sample_dproc = sample_psi" "pp_initVoteproof sample_dproc = None" "pp_blockdataSession sample_dproc = None" by simp_all
qed

definition sample_world :: "(alist_store, unit) world" where
  "sample_world = \<lparr>w_db = proc_db1, w_bd = ()\<rparr>"

lemma sample_fact: "pp_sfs pp = sample_sfs \<Longrightarrow> pp_Fact pp = Ok sample_pfact" "fact_ops sample_pfact = []" "Fact_Height sample_pfact = 1"
  "Fact_Round sample_pfact = 0" "Fact_Hash sample_pfact = Some (NewBytes [7])" "proposedAt sample_pfact = 40"
  by (simp_all add: pp_Fact_def sample_sfs_def NewBaseSignedBallotFact_def sample_pfact_def Fact_Height_def Fact_Round_def Fact_Hash_def)

lemma sample_session:
  "on_session (bds_SetSuffrageInfo sample_blockdata i) x = on_session (\<lambda>t. (Ok (), t)) x"
  "on_session (bds_SetProposal sample_blockdata sfs) x = on_session (\<lambda>t. (Ok (), t)) x"
  "on_session (bds_AddOperations sample_blockdata ops) x = on_session (\<lambda>t. (Ok (), t)) x"
  "on_session (bds_CloseOperations sample_blockdata) x = on_session (\<lambda>t. (Ok (), t)) x"
  "on_session (bds_SetOperationsTree sample_blockdata tr) x = on_session (\<lambda>t. (Ok (), t)) x"
  "on_session (bds_SetStatesTree sample_blockdata str) x = on_session (\<lambda>t. (Ok (), t)) x"
  "on_session (bds_AddStates sample_blockdata sts) x = on_session (\<lambda>t. (Ok (), t)) x"
  "on_session (bds_CloseStates sample_blockdata) x = on_session (\<lambda>t. (Ok (), t)) x"
  "on_session (bds_SetManifest sample_blockdata m) x = on_session (\<lambda>t. (Ok (), t)) x"
  "on_session (bds_SetACCEPTVoteproof sample_blockdata avp) x = on_session (\<lambda>t. (Ok (), t)) x"
  "pp_blockdataSession pp = Some () \<Longrightarrow> on_session (\<lambda>t. (Ok (), t)) (pp, w) = Some (Ok (), pp, w)"
  by (simp_all add: on_session_def sample_blockdata_def)

text \<open>The steps of the preparation of the sample proposal.\<close>

lemma sample_steps:
  assumes "pp_sfs pp = sample_sfs" and "pp_initVoteproof pp = None"
  shows "pp_prepareBlockdataSession sample_penv (pp, w) = Some (Ok (), pp\<lparr>pp_blockdataSession := Some ()\<rparr>, w)"
    and "pp_prepareOperations sample_penv (pp, w) = Some (Ok (), pp, w)"
    and "pp_blockdataSession pp = Some () \<Longrightarrow> pp_operations pp = None \<Longrightarrow> pp_process sample_penv (pp, w) = Some (Ok (), pp, w)"
proof -
  have B: "pe_B sample_penv = sample_blockdata" by (simp add: sample_penv_def)
  have "bdt_NewSession sample_blockdata b h = (Ok (), b)" for b h by (simp add: sample_blockdata_def)
  then show "pp_prepareBlockdataSession sample_penv (pp, w) = Some (Ok (), pp\<lparr>pp_blockdataSession := Some ()\<rparr>, w)"
    using assms by (simp add: pp_prepareBlockdataSession_def sample_fact B sample_session pbind_def)
  show "pp_prepareOperations sample_penv (pp, w) = Some (Ok (), pp, w)"
    using assms by (simp add: pp_prepareOperations_def sample_fact)
  show "pp_blockdataSession pp = Some () \<Longrightarrow> pp_operations pp = None \<Longrightarrow> pp_process sample_penv (pp, w) = Some (Ok (), pp, w)"
    by (simp add: pp_process_def B sample_session pbind_def pp_processOperations_def ops_of_def)
qed

lemma tree_hash_empty: "tree_hash EmptyFixedTree = Ok None"
  by (simp add: tree_hash_def EmptyFixedTree_def NewFixedTree_def NewFixedTreeWithHint_def FixedTree_Len_def)

lemma sample_prepareBlock:
  assumes "pp_sfs pp = sample_sfs" and "pp_initVoteproof pp = None" and "pp_blockdataSession pp = Some ()" and "pp_operations pp = None" and "pp_states pp = None"
    and "pp_operationsTree pp = EmptyFixedTree" and "pp_statesTree pp = EmptyFixedTree" and "pp_baseManifest pp = Some (bk_manifest (blk_of 0))"
    and "pp_suffrageInfo pp = sample_psi"
  shows "pp_prepareBlock sample_penv (pp, w) = Some (Ok (), pp\<lparr>pp_blk := Some sample_pblock\<rparr>, w)"
proof -
  have E: "pe_B sample_penv = sample_blockdata" "oe_L (pe_op sample_penv) = sample_lib" "pe_now sample_penv = 50" by (simp_all add: sample_penv_def sample_openv_def)
  obtain b where b: "NewBlockV0 sample_lib 50 sample_psi 1 0 (Some (NewBytes [7])) (Some (NewBytes [10])) None None 40 = Ok b" using sample_new_block by blast
  have m: "mf_h (bk_manifest (blk_of 0)) = Some (NewBytes [10])" by (simp add: blk_of_def)
  have "pp_new_block sample_penv pp = Ok b" using assms b by (simp add: pp_new_block_def E tree_hash_empty sample_fact m)
  then show ?thesis using assms b by (simp add: pp_prepareBlock_def E sample_session pbind_def sample_pblock_def)
qed

lemma sample_prepare:
  "\<exists>pp bs. pp_Prepare sample_penv (sample_dproc, sample_world) = Some (Ok (Some sample_pblock), pp, sample_world) \<and>
     pp_blk pp = Some sample_pblock \<and> pp_ss pp = Some bs \<and> pp_blockdataSession pp = Some () \<and> pp_state pp = Prepared"
proof -
  note n = sample_dproc_new
  have B: "pe_B sample_penv = sample_blockdata" "pe_prePrepare sample_penv = None" "pe_postPrepare sample_penv = None" "pe_done sample_penv k = False" for k
    by (simp_all add: sample_penv_def)
  let ?p0 = "pp_clear sample_dproc"
  have r: "pp_resetPrepare sample_blockdata (sample_dproc, sample_world) = Some (Ok (), ?p0, sample_world)"
    using n(3,7) by (simp add: pp_resetPrepare_def pp_cancelPrepare_def pbind_def pp_resetSave_def pp_clear_def pp_setState_def pstate_order)
  define q where "q = pp_setState Preparing ?p0"
  define p1 where "p1 = q\<lparr>pp_blockdataSession := Some ()\<rparr>"
  have q: "pp_sfs q = sample_sfs" "pp_initVoteproof q = None" using n by (simp_all add: q_def pp_setState_def pp_clear_def)
  have p1: "pp_sfs p1 = sample_sfs" "pp_initVoteproof p1 = None" "pp_blockdataSession p1 = Some ()" "pp_operations p1 = None" "pp_states p1 = None"
    "pp_operationsTree p1 = EmptyFixedTree" "pp_statesTree p1 = EmptyFixedTree" "pp_baseManifest p1 = Some (bk_manifest (blk_of 0))"
    "pp_suffrageInfo p1 = sample_psi" "pp_state p1 = Preparing"
    using n by (simp_all add: p1_def q_def pp_setState_def pp_clear_def pstate_order)
  obtain h where h: "mf_h (bk_manifest sample_pblock) = Some h" using sample_pblock_parts(2) by blast
  obtain bs where bs: "Session_SetBlock proc_encoder sample_pblock (NewSession sample_pblock) = (Ok (), bs)"
    using Session_SetBlock_Ok [OF proc_committable(2) [OF h]] by blast
  define p2 where "p2 = p1\<lparr>pp_blk := Some sample_pblock, pp_ss := Some bs\<rparr>"
  have d: "pp_prepareDatabaseSession (p1\<lparr>pp_blk := Some sample_pblock\<rparr>, sample_world) = Some (Ok (), p2, sample_world)"
    using bs proc_db1_facts(2) by (simp add: pp_prepareDatabaseSession_def sample_world_def p2_def)
  note st = sample_steps(1) [OF q, folded p1_def] sample_steps(2) [OF p1(1,2)] sample_steps(3) [OF p1(1-4)] sample_prepareBlock [OF p1(1-9)]
  have "pp_prepare sample_penv (q, sample_world) = Some (Ok (), p2, sample_world)"
    by (simp add: pp_prepare_def B pbind_def hook_def st d)
  then have "pp_Prepare sample_penv (sample_dproc, sample_world) = Some (Ok (Some sample_pblock), pp_setState Prepared p2, sample_world)"
    using r by (simp add: pp_Prepare_def B Let_def q_def [symmetric]) (simp add: p2_def)
  moreover have "pp_state (pp_setState Prepared p2) = Prepared" using p1(10) by (simp add: pp_setState_def pstate_order p2_def)
  ultimately show ?thesis using p1(3) by (auto simp: p2_def)
qed

lemma sample_accept_save:
  assumes "pp_blk pp = Some sample_pblock" and "pp_ss pp = Some bs" and "pp_blockdataSession pp = Some ()" and "pp_state pp = Prepared"
  shows "\<exists>x2 x3. pp_SetACCEPTVoteproof sample_blockdata sample_avp (pp, sample_world) = Some (Ok (), x2) \<and> pp_Save sample_penv x2 = Some (Ok (), x3)"
proof -
  obtain h where h: "mf_h (bk_manifest sample_pblock) = Some h" using sample_pblock_parts(2) by blast
  obtain ss where ss: "Session_SetACCEPTVoteproof proc_encoder sample_avp bs = (Ok (), ss)"
    by (simp add: Session_SetACCEPTVoteproof_def sample_avp_def NewVoteproofV0_def Session_put_def marshal_def proc_encoder_def)
  let ?p = "pp\<lparr>pp_blk := Some (Block_SetACCEPTVoteproof (Some sample_avp) sample_pblock), pp_ss := Some ss\<rparr>"
  have a: "pp_SetACCEPTVoteproof sample_blockdata sample_avp (pp, sample_world) = Some (Ok (), ?p, sample_world)"
    using assms ss h proc_db1_facts(2)
    by (simp add: pp_SetACCEPTVoteproof_def sample_avp_def Hash_Equal_def sample_world_def Let_def sample_session)
  have B: "pe_B sample_penv = sample_blockdata" "pe_preSave sample_penv = None" "pe_postSave sample_penv = None" "pe_done sample_penv k = False" for k
    by (simp_all add: sample_penv_def)
  have rb: "reads_back proc_encoder (SBlockdataMap (bdm_of 1))" using proc_committable(2) [OF h] by (simp add: committable_def)
  obtain d where d: "Database_Write proc_db1 (ss_batch ss @ [BPut (leveldbBlockdataMapKey (bd_height (bdm_of 1))) (encoded proc_encoder (SBlockdataMap (bdm_of 1)))]) = (Ok (), d)"
    using write_content [OF proc_db1_facts(1)] by blast
  have "ss_batch ss \<noteq> []" using accept_put [OF ss] by auto
  then have c: "Session_Commit proc_db1 (bdm_of 1) ss = (Ok (), ss\<lparr>ss_batch := ss_batch ss @ [BPut (leveldbBlockdataMapKey (bd_height (bdm_of 1))) (encoded proc_encoder (SBlockdataMap (bdm_of 1)))]\<rparr>, d)"
    using d by (simp add: Session_Commit_def Session_put_Ok [OF rb] proc_db1_facts(2))
  have "bdt_SaveSession sample_blockdata b t = (Ok (bdm_of 1), t, b)" for b t by (simp add: sample_blockdata_def)
  then have "\<exists>x3. pp_Save sample_penv (?p, sample_world) = Some (Ok (), x3)"
    using assms(3,4) c
    by (simp add: pp_Save_def pp_resetSave_def pp_setState_def pstate_order pbind_def pp_save_def B hook_def pp_storeBlockdataSession_def
        pp_storeStorage_def sample_world_def)
  with a show ?thesis by blast
qed


theorem processor_holds_proposal_block_witness:
  "\<exists>pp. pp_Prepare sample_penv (sample_dproc, sample_world) = Some (Ok (Some sample_pblock), pp, sample_world) \<and>
     mf_previousBlock (bk_manifest sample_pblock) = Some (NewBytes [10])"
proof -
  obtain pp bs where p: "pp_Prepare sample_penv (sample_dproc, sample_world) = Some (Ok (Some sample_pblock), pp, sample_world)"
    "pp_blk pp = Some sample_pblock" using sample_prepare by blast
  have L: "oe_L (pe_op sample_penv) = sample_lib" by (simp add: sample_penv_def sample_openv_def)
  have l: "pp_life sample_lib (sample_dproc, sample_world) (pp, sample_world)" by (rule life_prepare [OF life_start L p(1)])
  have f: "sf_fact sample_sfs = Some sample_pfact" by (simp add: sample_sfs_def NewBaseSignedBallotFact_def)
  have "mf_h (bk_manifest (blk_of 0)) = Some (NewBytes [10])" by (simp add: blk_of_def)
  then show ?thesis using processor_holds_proposal_block [OF sample_dproc_new(1) l] p f proc_db1_facts(3)
    by (auto simp: sample_fact(3) i64_def Let_def)
qed

end
