(* ===== verification/Mitum_Processors.thy ===== *)
theory Mitum_Processors
  imports Mitum_Processor
begin

text \<open>
  \<open>Processors\<close> (\<^verbatim>\<open>src/base/prprocessor/processors.go\<close>) keeps the processor of the current proposal: new proposals, saving, retries
  (\<^verbatim>\<open>src/util/retry.go\<close>). A processor is reached through a pointer, here an index into the list of the processors made so far: the
  goroutines that prepare and save keep their pointer while the current one may change. Contexts show as what a call meets at its checks.
\<close>

section \<open>Retrying\<close>

definition StopRetryingError :: goerr where [err_defs]: "StopRetryingError = NewError ''init'' 13 ''stop retrying''"
definition PrepareFailedError :: goerr where [err_defs]: "PrepareFailedError = NewError ''init'' 18 ''failed to prepare''"
definition SaveFailedError :: goerr where [err_defs]: "SaveFailedError = NewError ''init'' 19 ''failed to save''"

text \<open>\<open>Retry\<close>; with \<open>max = 0\<close> it goes on until the callback stops it. \<open>err\<close> is the error of the last call, nil before the first.\<close>

partial_function (option) Retry_from ::
  "nat \<Rightarrow> (nat \<Rightarrow> 'x \<Rightarrow> (unit res \<times> 'x) option) \<Rightarrow> nat \<Rightarrow> unit res \<Rightarrow> 'x \<Rightarrow> (unit res \<times> 'x) option" where
  "Retry_from mx callback tried err x =
     (if mx > 0 \<and> tried = mx then Some (err, x)
      else case callback tried x of
        None \<Rightarrow> None
      | Some (r, x) \<Rightarrow>
          (case r of
             Ok _ \<Rightarrow> Some (Ok (), x)
           | Panic \<Rightarrow> Some (Panic, x)
           | Err e \<Rightarrow> if error_Is e StopRetryingError then Some (Err e, x) else Retry_from mx callback (Suc tried) (Err e) x))"

definition Retry :: "nat \<Rightarrow> (nat \<Rightarrow> 'x \<Rightarrow> (unit res \<times> 'x) option) \<Rightarrow> 'x \<Rightarrow> (unit res \<times> 'x) option" where
  "Retry mx callback x = Retry_from mx callback 0 (Ok ()) x"

section \<open>The processors\<close>

record ('t, 'o, 'c) processors =
  ps_store :: "('t, 'o, 'c) dproc list"
  ps_current :: "nat option"

type_synonym ('s, 'b, 't, 'o, 'c) psst = "('t, 'o, 'c) processors \<times> ('s, 'b) world"

record presult =
  pr_block :: "blockv0 option"
  pr_err :: "goerr option"

definition Result_IsEmpty :: "presult \<Rightarrow> bool" where
  "Result_IsEmpty r \<longleftrightarrow> pr_block r = None \<and> pr_err r = None"

text \<open>A method of the processor behind a pointer.\<close>

definition on_processor ::
  "nat \<Rightarrow> (('s, 'b, 't, 'o, 'c) pst \<Rightarrow> ('a res \<times> ('s, 'b, 't, 'o, 'c) pst) option) \<Rightarrow> ('s, 'b, 't, 'o, 'c) psst \<Rightarrow> ('a res \<times> ('s, 'b, 't, 'o, 'c) psst) option" where
  "on_processor i f x =
     map_option (\<lambda>(r, pp, w). (r, (fst x)\<lparr>ps_store := (ps_store (fst x))[i := pp]\<rparr>, w)) (f (ps_store (fst x) ! i, snd x))"

definition Processors_cancelProcessor :: "('b, 't) blockdata \<Rightarrow> nat \<Rightarrow> ('s, 'b, 't, 'o, 'c) psst \<Rightarrow> (unit res \<times> ('s, 'b, 't, 'o, 'c) psst) option" where
  "Processors_cancelProcessor B i x = on_processor i (pp_Cancel B) x"

definition Processors_checkProposal :: "(ballot_fact \<Rightarrow> unit res) option \<Rightarrow> ballot_fact \<Rightarrow> unit res" where
  "Processors_checkProposal proposalChecker f =
     (if Fact_Hash f = None then Err (plain ''invalid proposal'') else case proposalChecker of None \<Rightarrow> Ok () | Some c \<Rightarrow> c f)"

definition fact_hashes_equal :: "('t, 'o, 'c) dproc \<Rightarrow> hash option \<Rightarrow> bool res" where
  "fact_hashes_equal pp h =
     bind_res (pp_Fact pp) (\<lambda>g. bind_res (of_hash (Fact_Hash g)) (\<lambda>a. bind_res (of_hash h) (\<lambda>b. Ok (Hash_Equal a b))))"

definition Processors_checkCurrent ::
  "('b, 't) blockdata \<Rightarrow> ballot_fact \<Rightarrow> ('s, 'b, 't, 'o, 'c) psst \<Rightarrow> (nat option res \<times> ('s, 'b, 't, 'o, 'c) psst) option" where
  "Processors_checkCurrent B f x =
     (case ps_current (fst x) of
        None \<Rightarrow> Some (Ok None, x)
      | Some i \<Rightarrow>
          (let current = ps_store (fst x) ! i; state = pp_state current in
           case fact_hashes_equal current (Fact_Hash f) of
             Err e \<Rightarrow> Some (Err e, x)
           | Panic \<Rightarrow> Some (Panic, x)
           | Ok False \<Rightarrow>
               (case pp_Fact current of
                  Ok g \<Rightarrow>
                    if Fact_Height g = Fact_Height f \<and> Fact_Round g = Fact_Round f then Some (Err (Errorf IgnoreError ''duplicated proposal received''), x)
                    else if state \<noteq> Saved
                    then (case Processors_cancelProcessor B i x of
                            None \<Rightarrow> None
                          | Some (Ok _, x) \<Rightarrow> Some (Ok None, x)
                          | Some (Err e, x) \<Rightarrow> Some (Err (NError_Wrap PrepareFailedError e), x)
                          | Some (Panic, x) \<Rightarrow> Some (Panic, x))
                    else Some (Ok None, x)
                | _ \<Rightarrow> Some (Panic, x))
           | Ok True \<Rightarrow>
               Some (case state of
                  BeforePrepared \<Rightarrow> Ok (Some i)
                | Preparing \<Rightarrow> Err (Errorf IgnoreError ''already preparing'')
                | Prepared \<Rightarrow> Err (Errorf IgnoreError ''already prepared'')
                | Saving \<Rightarrow> Err (Errorf IgnoreError ''already saving'')
                | Saved \<Rightarrow> Err (Errorf IgnoreError ''already saved'')
                | PrepareFailed \<Rightarrow> Ok None
                | SaveFailed \<Rightarrow> Ok None
                | Canceled \<Rightarrow> Err (Errorf IgnoreError ''already canceled''), x)))"

text \<open>\<open>newFunc\<close> gets the database as it is; the factory of the node is \<open>NewDefaultProcessorNewFunc\<close>.\<close>

definition Processors_newProcessor ::
  "('s database \<Rightarrow> signed_fact \<Rightarrow> voteproof option \<Rightarrow> ('t, 'o, 'c) dproc res) \<Rightarrow> signed_fact \<Rightarrow> voteproof option \<Rightarrow> 's database \<Rightarrow> ('t, 'o, 'c) dproc res" where
  "Processors_newProcessor newFunc sfs ivp d =
     (case newFunc d sfs ivp of
        Err e \<Rightarrow> Err (NError_Wrap PrepareFailedError e)
      | Panic \<Rightarrow> Panic
      | Ok pp \<Rightarrow>
          if pp_state pp \<noteq> BeforePrepared then Err (Errorf PrepareFailedError ''new Processor should be BeforePrepared state, not %s'')
          else Ok pp)"

text \<open>\<open>handleProposal\<close> returns the processor that the new goroutine prepares.\<close>

definition Processors_handleProposal ::
  "('b, 't) blockdata \<Rightarrow> (ballot_fact \<Rightarrow> unit res) option \<Rightarrow> ('s database \<Rightarrow> signed_fact \<Rightarrow> voteproof option \<Rightarrow> ('t, 'o, 'c) dproc res) \<Rightarrow> signed_fact \<Rightarrow>
   voteproof option \<Rightarrow> ('s, 'b, 't, 'o, 'c) psst \<Rightarrow> (nat res \<times> ('s, 'b, 't, 'o, 'c) psst) option" where
  "Processors_handleProposal B proposalChecker newFunc sfs ivp x =
     (case sf_fact sfs of
        Some (ProposalFact bf p ops t) \<Rightarrow>
          (let f = ProposalFact bf p ops t in
           case Processors_checkProposal proposalChecker f of
             Err e \<Rightarrow> Some (Err (NError_Wrap PrepareFailedError e), x)
           | Panic \<Rightarrow> Some (Panic, x)
           | Ok _ \<Rightarrow>
               (case Processors_checkCurrent B f x of
                  None \<Rightarrow> None
                | Some (Err e, x) \<Rightarrow> Some (Err (NError_Wrap PrepareFailedError e), x)
                | Some (Panic, x) \<Rightarrow> Some (Panic, x)
                | Some (Ok (Some i), x) \<Rightarrow> Some (Ok i, x)
                | Some (Ok None, ps, w) \<Rightarrow>
                    (case Processors_newProcessor newFunc sfs ivp (w_db w) of
                       Err e \<Rightarrow> Some (Err e, ps, w)
                     | Panic \<Rightarrow> Some (Panic, ps, w)
                     | Ok pp \<Rightarrow>
                         let i = length (ps_store ps) in
                         Some (Ok i, ps\<lparr>ps_store := ps_store ps @ [pp], ps_current := Some i\<rparr>, w))))
      | _ \<Rightarrow> Some (Panic, x))"

fun error_Is_context :: "goerr \<Rightarrow> bool" where
  "error_Is_context (NErr i m w) = (case w of None \<Rightarrow> False | Some e \<Rightarrow> error_Is_context e)"
| "error_Is_context (FmtErr m w) = (FmtErr m w = ContextCanceled \<or> (case w of None \<Rightarrow> False | Some e \<Rightarrow> error_Is_context e))"

text \<open>One attempt of \<open>doPrepare\<close>: \<open>c\<close> says whether the context is done before it; a prepared block is kept as the attempt's effect.\<close>

definition prepare_attempt ::
  "('c, 'b, 't) penv \<Rightarrow> bool \<Rightarrow> nat \<Rightarrow> blockv0 option \<times> ('s, 'b, 't, 'o, 'c) psst \<Rightarrow> (unit res \<times> blockv0 option \<times> ('s, 'b, 't, 'o, 'c) psst) option" where
  "prepare_attempt E c i bx =
     (case bx of (blk, x) \<Rightarrow>
      if c then Some (Err (NError_Wrap StopRetryingError ContextCanceled), blk, x)
      else case on_processor i (pp_Prepare E) x of
        None \<Rightarrow> None
      | Some (Ok b, x) \<Rightarrow> Some (Ok (), b, x)
      | Some (Panic, x) \<Rightarrow> Some (Panic, blk, x)
      | Some (Err e, x) \<Rightarrow>
          Some (Err (if error_Is_context e then NError_Wrap StopRetryingError e
                     else if pp_state (ps_store (fst x) ! i) = Canceled then Errorf StopRetryingError ''canceled''
                     else e), blk, x))"

definition settled_states :: "pstate set" where
  "settled_states = {Prepared, BeforePrepared, PrepareFailed, SaveFailed, Saved, Canceled}"

definition Processors_doPrepare ::
  "(nat \<Rightarrow> ('c, 'b, 't) penv) \<Rightarrow> (nat \<Rightarrow> bool) \<Rightarrow> nat \<Rightarrow> ('s, 'b, 't, 'o, 'c) psst \<Rightarrow> (presult res \<times> ('s, 'b, 't, 'o, 'c) psst) option" where
  "Processors_doPrepare Es ctx i x =
     (case Retry 3 (\<lambda>k. prepare_attempt (Es k) (ctx k) i) (None, x) of
        None \<Rightarrow> None
      | Some (Panic, _, x) \<Rightarrow> Some (Panic, x)
      | Some (Ok _, blk, x) \<Rightarrow> Some (Ok \<lparr>pr_block = blk, pr_err = None\<rparr>, x)
      | Some (Err e, blk, x) \<Rightarrow>
          (case (if pp_state (ps_store (fst x) ! i) \<in> settled_states then Some (Ok (), x) else Processors_cancelProcessor (pe_B (Es 0)) i x) of
             None \<Rightarrow> None
           | Some (Panic, x) \<Rightarrow> Some (Panic, x)
           | Some (_, ps, w) \<Rightarrow> Some (Ok \<lparr>pr_block = blk, pr_err = Some (NError_Wrap PrepareFailedError e)\<rparr>, ps\<lparr>ps_current := None\<rparr>, w)))"

definition Processors_saveProposal :: "hash \<Rightarrow> ('s, 'b, 't, 'o, 'c) psst \<Rightarrow> nat res" where
  "Processors_saveProposal fh x =
     (case ps_current (fst x) of
        None \<Rightarrow> Err (NError_Wrap SaveFailedError (plain ''not yet prepared''))
      | Some i \<Rightarrow>
          bind_res (fact_hashes_equal (ps_store (fst x) ! i) (Some fh)) (\<lambda>same.
            if \<not> same then Err (NError_Wrap SaveFailedError (plain ''not yet prepared; another processor already exists'')) else Ok i))"

text \<open>
  The loop that waits while the processor is still preparing, which another goroutine does: \<open>seen n\<close> is what the \<open>n\<close>-th look meets and
  \<open>ctx n\<close> whether the context is done by then. The call goes on with what its last look met.
\<close>

partial_function (option) wait_prepared ::
  "(nat \<Rightarrow> ('s, 'b, 't, 'o, 'c) psst) \<Rightarrow> (nat \<Rightarrow> bool) \<Rightarrow> nat \<Rightarrow> nat \<Rightarrow> (unit res \<times> ('s, 'b, 't, 'o, 'c) psst) option" where
  "wait_prepared seen ctx i n =
     (if ctx n then Some (Err ContextCanceled, seen n)
      else if pp_state (ps_store (fst (seen n)) ! i) \<noteq> Prepared then wait_prepared seen ctx i (Suc n)
      else Some (Ok (), seen n))"

definition Processors_save ::
  "('c, 'b, 't) penv \<Rightarrow> (nat \<Rightarrow> ('s, 'b, 't, 'o, 'c) psst) \<Rightarrow> (nat \<Rightarrow> bool) \<Rightarrow> voteproof \<Rightarrow> nat \<Rightarrow> ('s, 'b, 't, 'o, 'c) psst \<Rightarrow> (unit res \<times> ('s, 'b, 't, 'o, 'c) psst) option" where
  "Processors_save E seen ctx avp i x =
     (let go = (\<lambda>x. pbind (on_processor i (pp_SetACCEPTVoteproof (pe_B E) avp) x) (\<lambda>_. on_processor i (pp_Save E))) in
      case pp_state (ps_store (fst x) ! i) of
        BeforePrepared \<Rightarrow> Some (Err (plain ''not yet prepared''), x)
      | Preparing \<Rightarrow> pbind (wait_prepared seen ctx i 0) (\<lambda>_. go)
      | Prepared \<Rightarrow> go x
      | PrepareFailed \<Rightarrow> Some (Err (plain ''failed to prepare''), x)
      | Saving \<Rightarrow> Some (Err (Errorf IgnoreError ''already saving''), x)
      | Saved \<Rightarrow> Some (Err (Errorf IgnoreError ''already saved''), x)
      | SaveFailed \<Rightarrow> go x
      | Canceled \<Rightarrow> Some (Err (Errorf IgnoreError ''canceled''), x))"

definition save_attempt ::
  "('c, 'b, 't) penv \<Rightarrow> (nat \<Rightarrow> ('s, 'b, 't, 'o, 'c) psst) \<Rightarrow> (nat \<Rightarrow> bool) \<Rightarrow> voteproof \<Rightarrow> nat \<Rightarrow> ('s, 'b, 't, 'o, 'c) psst \<Rightarrow> (unit res \<times> ('s, 'b, 't, 'o, 'c) psst) option" where
  "save_attempt E seen ctx avp i x =
     (if ctx 0 then Some (Err (NError_Wrap StopRetryingError ContextCanceled), x)
      else case Processors_save E seen ctx avp i x of
        Some (Err e, x) \<Rightarrow>
          (let st = pp_state (ps_store (fst x) ! i) in
           Some (Err (if error_Is_context e then NError_Wrap StopRetryingError e
                      else if st = Canceled then Errorf StopRetryingError ''canceled''
                      else if st < Prepared then NError_Wrap StopRetryingError e
                      else e), x))
      | r \<Rightarrow> r)"

definition Processors_doSave ::
  "(nat \<Rightarrow> ('c, 'b, 't) penv) \<Rightarrow> (nat \<Rightarrow> nat \<Rightarrow> ('s, 'b, 't, 'o, 'c) psst) \<Rightarrow> (nat \<Rightarrow> nat \<Rightarrow> bool) \<Rightarrow> voteproof \<Rightarrow> nat \<Rightarrow> ('s, 'b, 't, 'o, 'c) psst \<Rightarrow>
   (presult res \<times> ('s, 'b, 't, 'o, 'c) psst) option" where
  "Processors_doSave Es seen ctx avp i x =
     (case Retry 3 (\<lambda>k. save_attempt (Es k) (seen k) (ctx k) avp i) x of
        None \<Rightarrow> None
      | Some (Panic, x) \<Rightarrow> Some (Panic, x)
      | Some (Ok _, x) \<Rightarrow> Some (Ok \<lparr>pr_block = pp_blk (ps_store (fst x) ! i), pr_err = None\<rparr>, x)
      | Some (Err e, x) \<Rightarrow>
          (case (if pp_state (ps_store (fst x) ! i) \<in> settled_states then Some (Ok (), x) else Processors_cancelProcessor (pe_B (Es 0)) i x) of
             None \<Rightarrow> None
           | Some (Panic, x) \<Rightarrow> Some (Panic, x)
           | Some (_, x) \<Rightarrow> Some (Ok \<lparr>pr_block = None, pr_err = Some (NError_Wrap SaveFailedError e)\<rparr>, x)))"

definition Processors_CurrentState :: "hash \<Rightarrow> ('t, 'o, 'c) processors \<Rightarrow> pstate res" where
  "Processors_CurrentState fh ps =
     (case ps_current ps of
        None \<Rightarrow> Ok BeforePrepared
      | Some i \<Rightarrow> bind_res (fact_hashes_equal (ps_store ps ! i) (Some fh)) (\<lambda>same. Ok (if \<not> same then BeforePrepared else pp_state (ps_store ps ! i))))"

text \<open>The guards of \<open>NewProposal\<close> and \<open>Save\<close> in front of the channels.\<close>

definition Processors_NewProposal_guard :: "voteproof \<Rightarrow> unit res" where
  "Processors_NewProposal_guard ivp = fail_if (vp_stage ivp \<noteq> StageINIT) (plain ''not valid voteproof, %v'')"

definition Processors_Save_guard :: "voteproof \<Rightarrow> unit res" where
  "Processors_Save_guard avp = fail_if (vp_stage avp \<noteq> StageACCEPT) (plain ''not valid voteproof, %v'')"

text \<open>A turn of the loop of \<open>start\<close>: the request it takes from a channel, and the goroutine it starts (the last one answers with an error).\<close>

datatype pps_request = NewProposalRequest signed_fact "voteproof option" | SaveRequest hash voteproof
datatype pps_go = GoPrepare nat | GoSave nat voteproof | GoReply goerr

definition Processors_start ::
  "('b, 't) blockdata \<Rightarrow> (ballot_fact \<Rightarrow> unit res) option \<Rightarrow> ('s database \<Rightarrow> signed_fact \<Rightarrow> voteproof option \<Rightarrow> ('t, 'o, 'c) dproc res) \<Rightarrow> pps_request \<Rightarrow>
   ('s, 'b, 't, 'o, 'c) psst \<Rightarrow> (pps_go res \<times> ('s, 'b, 't, 'o, 'c) psst) option" where
  "Processors_start B proposalChecker newFunc m x =
     (case m of
        NewProposalRequest sfs ivp \<Rightarrow>
          (case Processors_handleProposal B proposalChecker newFunc sfs ivp x of
             None \<Rightarrow> None
           | Some (Ok i, x) \<Rightarrow> Some (Ok (GoPrepare i), x)
           | Some (Err e, x) \<Rightarrow> Some (Ok (GoReply e), x)
           | Some (Panic, x) \<Rightarrow> Some (Panic, x))
      | SaveRequest fh avp \<Rightarrow>
          Some (case Processors_saveProposal fh x of Ok i \<Rightarrow> Ok (GoSave i avp) | Err e \<Rightarrow> Ok (GoReply e) | Panic \<Rightarrow> Panic, x))"

section \<open>Retrying ends\<close>

text \<open>\<open>n\<close> attempts in a row that fail with errors worth another attempt.\<close>

inductive failing :: "(nat \<Rightarrow> 'x \<Rightarrow> (unit res \<times> 'x) option) \<Rightarrow> 'x \<Rightarrow> nat \<Rightarrow> unit res \<Rightarrow> 'x \<Rightarrow> bool" for cb x where
  failing_0: "failing cb x 0 (Ok ()) x"
| failing_Suc: "failing cb x n r y \<Longrightarrow> cb n y = Some (Err e, z) \<Longrightarrow> \<not> error_Is e StopRetryingError \<Longrightarrow> failing cb x (Suc n) (Err e) z"

inductive_simps failing_0_iff [simp]: "failing cb x 0 r y"

lemma Retry_from_ends:
  assumes "\<forall>n y. cb n y \<noteq> None" and "failing cb x n err y" and "n \<le> mx" and "0 < mx"
  shows "\<exists>k r r' z z'. n \<le> k \<and> k \<le> mx \<and> Retry_from mx cb n err y = Some (r, z) \<and> failing cb x k r' z' \<and>
    (if k = mx then r = r' \<and> z = z' else cb k z' = Some (r, z) \<and> (\<forall>e. r = Err e \<longrightarrow> error_Is e StopRetryingError))"
  using assms(2,3)
proof (induction "mx - n" arbitrary: n err y)
  case 0
  then have "n = mx" by simp
  then have "Retry_from mx cb n err y = Some (err, y)" using assms(4) by (simp add: Retry_from.simps)
  with 0 \<open>n = mx\<close> show ?case by (intro exI [of _ mx]) auto
next
  case (Suc d)
  then have lt: "n < mx" by simp
  obtain r z where c: "cb n y = Some (r, z)" using assms(1) by (metis option.exhaust prod.collapse)
  show ?case
  proof (cases "\<exists>e. r = Err e \<and> \<not> error_Is e StopRetryingError")
    case True
    then obtain e where e: "r = Err e" "\<not> error_Is e StopRetryingError" by blast
    have f: "failing cb x (Suc n) (Err e) z" using failing_Suc [OF Suc.prems(1)] c e by simp
    have "Retry_from mx cb n err y = Retry_from mx cb (Suc n) (Err e) z" using lt c e by (subst Retry_from.simps) simp
    moreover have "d = mx - Suc n" "Suc n \<le> mx" using Suc.hyps(2) lt by auto
    from Suc.hyps(1) [OF this(1) f this(2)] obtain k r2 r' z2 z' where "Suc n \<le> k" "k \<le> mx" "Retry_from mx cb (Suc n) (Err e) z = Some (r2, z2)"
      "failing cb x k r' z'" "if k = mx then r2 = r' \<and> z2 = z' else cb k z' = Some (r2, z2) \<and> (\<forall>e. r2 = Err e \<longrightarrow> error_Is e StopRetryingError)" by blast
    ultimately show ?thesis by (intro exI [of _ k] exI [of _ r2] exI [of _ r'] exI [of _ z2] exI [of _ z']) simp
  next
    case False
    then have "Retry_from mx cb n err y = Some (r, z)" using lt c by (subst Retry_from.simps) (cases r, auto)
    then show ?thesis using Suc.prems c False lt by (intro exI [of _ n] exI [of _ r] exI [of _ err] exI [of _ z] exI [of _ y]) auto
  qed
qed

text \<open>
  C15: \<open>Retry\<close> with a limit returns when every attempt returns, and after at most \<open>max\<close> attempts: the attempts before the last one failed with
  errors worth another attempt, and the result is that of the first attempt that ended otherwise (success, a panic or an error that stops
  the retrying), or the error of the last one when all of them failed.
\<close>

theorem retry_ends:
  assumes "\<forall>n y. cb n y \<noteq> None" and "0 < mx"
  shows "\<exists>k r r' z z'. k \<le> mx \<and> Retry mx cb x = Some (r, z) \<and> failing cb x k r' z' \<and>
    (if k = mx then r = r' \<and> z = z' else cb k z' = Some (r, z) \<and> (\<forall>e. r = Err e \<longrightarrow> error_Is e StopRetryingError))"
  using Retry_from_ends [OF assms(1) failing_0 le0 assms(2)] by (simp add: Retry_def)

theorem retry_ends_witness:
  "\<exists>k r r' z z'. k \<le> 3 \<and> Retry 3 (\<lambda>n x. Some (if n = 1 then Ok () else Err (plain ''again''), Suc x)) (0 :: nat) = Some (r, z) \<and>
     failing (\<lambda>n x. Some (if n = 1 then Ok () else Err (plain ''again''), Suc x)) 0 k r' z'"
  using retry_ends [of "\<lambda>n x. Some (if n = 1 then Ok () else Err (plain ''again''), Suc x)" 3 "0 :: nat"] by auto

text \<open>\<open>StopRetryingError\<close> has the identifier of every other error made on line 13 of an \<open>init\<close>: those are not retried either.\<close>

theorem not_found_stops_retrying:
  "error_Is (Errorf NotFoundError m) StopRetryingError"
  "error_Is (NError_Wrap FSError e) StopRetryingError"
  by (simp_all add: err_defs NewError_def)

section \<open>Saved blocks stay\<close>

lemma Retry_unchanged:
  assumes "\<forall>k. \<exists>e. cb k x = Some (Err e, x)" and "0 < mx"
  shows "\<exists>e. Retry mx cb x = Some (Err e, x)"
proof -
  have t: "n \<le> mx \<Longrightarrow> n = mx \<longrightarrow> (\<exists>e. err = Err e) \<Longrightarrow> \<exists>e. Retry_from mx cb n err x = Some (Err e, x)" for n err
  proof (induction "mx - n" arbitrary: n err)
    case 0
    then show ?case using assms(2) by (auto simp: Retry_from.simps)
  next
    case (Suc d)
    then have n: "n < mx" "d = mx - Suc n" "Suc n \<le> mx" by auto
    obtain e where "cb n x = Some (Err e, x)" using assms(1) by blast
    then show ?case using Suc.hyps(1) [OF n(2,3), of "Err e"] n(1) by (subst Retry_from.simps) simp
  qed
  show ?thesis unfolding Retry_def by (rule t) (use assms(2) in auto)
qed

lemma save_refused:
  assumes "pp_state (ps_store (fst x) ! i) \<in> {BeforePrepared, PrepareFailed, Saved, Canceled}"
  shows "\<exists>e. save_attempt E seen ctx avp i x = Some (Err e, x)"
proof -
  obtain e where "Processors_save E seen ctx avp i x = Some (Err e, x)" using assms by (auto simp: Processors_save_def)
  then show ?thesis by (auto simp: save_attempt_def Let_def)
qed



section \<open>The goroutine of an old proposal\<close>

text \<open>
  The end of \<open>doPrepare\<close> clears the current processor without asking whose it is: when a new proposal has canceled the processor \<open>i\<close> and made
  its own the current one, the goroutine of \<open>i\<close>, which ends with the canceled context, takes the new processor away, and saving the new
  proposal fails as not yet prepared.
\<close>

theorem canceled_prepare_clears_current:
  assumes "ps_current ps = Some j" and "j \<noteq> i" and "pp_state (ps_store ps ! i) = Canceled" and "ctx 0"
  shows "\<exists>ps'. Processors_doPrepare Es ctx i (ps, w) =
      Some (Ok \<lparr>pr_block = None, pr_err = Some (NError_Wrap PrepareFailedError (NError_Wrap StopRetryingError ContextCanceled))\<rparr>, ps', w) \<and>
    ps_store ps' = ps_store ps \<and> Processors_saveProposal fh (ps', w) = Err (NError_Wrap SaveFailedError (plain ''not yet prepared''))"
proof -
  have "error_Is (NError_Wrap StopRetryingError ContextCanceled) StopRetryingError" by (simp add: err_defs NewError_def)
  then have "Retry 3 (\<lambda>k. prepare_attempt (Es k) (ctx k) i) (None, ps, w) = Some (Err (NError_Wrap StopRetryingError ContextCanceled), None, ps, w)"
    using assms(4) by (simp add: Retry_def Retry_from.simps prepare_attempt_def)
  then show ?thesis using assms(3) by (simp add: Processors_doPrepare_def settled_states_def Processors_saveProposal_def)
qed

text \<open>A save that comes while the proposal is being prepared waits for \<open>Prepared\<close> only: when the preparation fails it waits until its context ends.\<close>

theorem save_waits_for_failed_prepare:
  assumes "\<forall>m. pp_state (ps_store (fst (seen m)) ! i) \<noteq> Prepared" and "\<forall>m. \<not> ctx m"
  shows "wait_prepared seen ctx i n = None"
proof -
  have "wait_prepared seen ctx i n = Some r \<Longrightarrow> (\<forall>m. pp_state (ps_store (fst (seen m)) ! i) \<noteq> Prepared) \<and> (\<forall>m. \<not> ctx m) \<longrightarrow> False" for r
    by (erule wait_prepared.raw_induct [rotated]) (auto split: if_splits)
  then show ?thesis using assms by (cases "wait_prepared seen ctx i n") auto
qed

section \<open>The current proposal\<close>

lemma setState_Canceled [simp]: "pp_state (pp_setState Canceled pp) = Canceled"
  by (cases "pp_state pp") (simp_all add: pp_setState_def pstate_order)

lemma Cancel_state: "pp_Cancel B x = Some (Ok (), x') \<Longrightarrow> pp_state (fst x') = Canceled"
  by (auto simp: pp_Cancel_def pbind_Some split: if_splits)

lemma cancelProcessor_Ok:
  assumes "Processors_cancelProcessor B k (ps, w) = Some (Ok (), ps', w')" and "k < length (ps_store ps)"
  shows "length (ps_store ps') = length (ps_store ps) \<and> ps_current ps' = ps_current ps \<and> pp_state (ps_store ps' ! k) = Canceled"
proof -
  obtain pp where "pp_Cancel B (ps_store ps ! k, w) = Some (Ok (), pp, w')" "ps' = ps\<lparr>ps_store := (ps_store ps)[k := pp]\<rparr>"
    using assms(1) by (auto simp: Processors_cancelProcessor_def on_processor_def)
  then show ?thesis using Cancel_state [of B "(ps_store ps ! k, w)"] assms(2) by auto
qed

lemma checkCurrent_Ok:
  assumes "Processors_checkCurrent B f (ps, w) = Some (Ok c, ps', w')" and "\<forall>j. ps_current ps = Some j \<longrightarrow> j < length (ps_store ps)"
  shows "length (ps_store ps') = length (ps_store ps)" and "ps_current ps' = ps_current ps"
    and "c = Some i \<Longrightarrow> ps' = ps \<and> ps_current ps = Some i \<and> pp_state (ps_store ps ! i) = BeforePrepared \<and> fact_hashes_equal (ps_store ps ! i) (Fact_Hash f) = Ok True"
    and "c = None \<Longrightarrow> ps_current ps = Some j \<Longrightarrow> pp_state (ps_store ps' ! j) \<in> {PrepareFailed, SaveFailed, Saved, Canceled}"
proof -
  have "length (ps_store ps') = length (ps_store ps) \<and> ps_current ps' = ps_current ps \<and>
    (c = Some i \<longrightarrow> ps' = ps \<and> ps_current ps = Some i \<and> pp_state (ps_store ps ! i) = BeforePrepared \<and> fact_hashes_equal (ps_store ps ! i) (Fact_Hash f) = Ok True) \<and>
    (c = None \<longrightarrow> ps_current ps = Some j \<longrightarrow> pp_state (ps_store ps' ! j) \<in> {PrepareFailed, SaveFailed, Saved, Canceled})"
  proof (cases "ps_current ps")
    case (Some k)
    then have k: "k < length (ps_store ps)" using assms(2) by simp
    obtain same where same: "fact_hashes_equal (ps_store ps ! k) (Fact_Hash f) = Ok same"
      using assms(1) Some by (auto simp: Processors_checkCurrent_def Let_def split: res.splits)
    show ?thesis
    proof (cases same)
      case True
      then show ?thesis using assms(1) Some same by (cases "pp_state (ps_store ps ! k)") (auto simp: Processors_checkCurrent_def Let_def)
    next
      case False
      then have "c = None \<and> ((ps' = ps \<and> pp_state (ps_store ps ! k) = Saved) \<or> Processors_cancelProcessor B k (ps, w) = Some (Ok (), ps', w'))"
        using assms(1) Some same by (auto simp: Processors_checkCurrent_def Let_def split: res.splits if_splits option.splits)
      then show ?thesis using cancelProcessor_Ok [OF _ k, of B w ps' w'] Some by auto
    qed
  qed (use assms(1) in \<open>simp add: Processors_checkCurrent_def\<close>)
  then show "length (ps_store ps') = length (ps_store ps)" "ps_current ps' = ps_current ps"
    "c = Some i \<Longrightarrow> ps' = ps \<and> ps_current ps = Some i \<and> pp_state (ps_store ps ! i) = BeforePrepared \<and> fact_hashes_equal (ps_store ps ! i) (Fact_Hash f) = Ok True"
    "c = None \<Longrightarrow> ps_current ps = Some j \<Longrightarrow> pp_state (ps_store ps' ! j) \<in> {PrepareFailed, SaveFailed, Saved, Canceled}" by simp_all
qed

lemma newFunc_Ok:
  assumes "NewDefaultProcessorNewFunc np S hm d sfs ivp = Ok pp"
  shows "pp_sfs pp = sfs" and "pp_state pp = BeforePrepared"
  using assms by (auto simp: NewDefaultProcessorNewFunc_def NewDefaultProcessor_def bind_res_Ok_iff Let_def split: option.splits if_splits)

lemma save_goes_to_current:
  "Processors_start B chk newFunc (SaveRequest fh avp) x = Some (Ok (GoSave i vp), x') \<longleftrightarrow>
     x' = x \<and> vp = avp \<and> ps_current (fst x) = Some i \<and> fact_hashes_equal (ps_store (fst x) ! i) (Some fh) = Ok True"
  by (auto simp: Processors_start_def Processors_saveProposal_def bind_res_Ok_iff split: res.splits option.splits if_splits)

text \<open>
  C14: a proposal that \<open>handleProposal\<close> takes has, with the node's factory, a processor that is the current one, holds a fact with the proposal's
  hash and waits for its preparation; the processor that was the current one before, when it is another, has failed, has saved its block or is
  canceled, so no two proposals are prepared side by side.
\<close>

theorem proposal_becomes_current:
  assumes "Processors_handleProposal B chk (NewDefaultProcessorNewFunc np S hm) sfs ivp (ps, w) = Some (Ok i, ps', w')"
    and "\<forall>j. ps_current ps = Some j \<longrightarrow> j < length (ps_store ps)" and "sf_fact sfs = Some f"
  shows "ps_current ps' = Some i \<and> i < length (ps_store ps') \<and> pp_state (ps_store ps' ! i) = BeforePrepared \<and>
    fact_hashes_equal (ps_store ps' ! i) (Fact_Hash f) = Ok True \<and>
    (\<forall>j. ps_current ps = Some j \<and> j \<noteq> i \<longrightarrow> pp_state (ps_store ps' ! j) \<in> {PrepareFailed, SaveFailed, Saved, Canceled})"
proof -
  obtain bf p ops t where f: "f = ProposalFact bf p ops t" using assms(1,3) by (cases f) (auto simp: Processors_handleProposal_def)
  have h: "Fact_Hash f \<noteq> None" using assms(1,3) f by (auto simp: Processors_handleProposal_def Processors_checkProposal_def Let_def split: if_splits)
  obtain c ps1 w1 where c: "Processors_checkCurrent B f (ps, w) = Some (Ok c, ps1, w1)"
    using assms(1,3) f by (auto simp: Processors_handleProposal_def Let_def split: option.splits res.splits)
  note kept = checkCurrent_Ok [OF c assms(2)]
  show ?thesis
  proof (cases c)
    case (Some k)
    then have "i = k" "ps' = ps1" using assms(1,3) f c by (auto simp: Processors_handleProposal_def Let_def split: res.splits)
    then show ?thesis using kept(3) [OF Some] assms(2) by auto
  next
    case None
    then obtain pp where pp: "NewDefaultProcessorNewFunc np S hm (w_db w1) sfs ivp = Ok pp"
      and new: "i = length (ps_store ps1)" "ps' = ps1\<lparr>ps_store := ps_store ps1 @ [pp], ps_current := Some i\<rparr>"
      using assms(1,3) f c by (auto simp: Processors_handleProposal_def Processors_newProcessor_def Let_def split: res.splits if_splits)
    have "fact_hashes_equal pp (Fact_Hash f) = Ok True"
      using newFunc_Ok(1) [OF pp] assms(3) f h by (auto simp: fact_hashes_equal_def pp_Fact_def Hash_Equal_def of_hash_def)
    then show ?thesis using new newFunc_Ok(2) [OF pp] kept(1,4) None assms(2) by (auto simp: nth_append)
  qed
qed

theorem proposal_becomes_current_witness:
  "\<exists>ps' w'. Processors_handleProposal sample_blockdata None (NewDefaultProcessorNewFunc sample_nodepool no_suffrage None) sample_sfs None
       (\<lparr>ps_store = [], ps_current = None\<rparr> :: (unit, unit, unit) processors, sample_world) = Some (Ok 0, ps', w') \<and>
     ps_current ps' = Some 0 \<and> pp_state (ps_store ps' ! 0) = BeforePrepared"
proof -
  have f: "sf_fact sample_sfs = Some sample_pfact" "Fact_Stage sample_pfact = StageProposal" "Fact_Hash sample_pfact \<noteq> None"
    using sample_fact(5) by (simp_all add: sample_sfs_def NewBaseSignedBallotFact_def sample_pfact_def Fact_Stage_def BaseFact_Stage_def ProposalFactHint_def NewHint_def ProposalFactType_def INITBallotFactType_def)
  have "NewDefaultProcessorNewFunc sample_nodepool no_suffrage None (w_db sample_world) sample_sfs None = Ok sample_dproc"
    using sample_dproc_new(1) f by (simp add: NewDefaultProcessorNewFunc_def sample_world_def)
  then have "Processors_newProcessor (NewDefaultProcessorNewFunc sample_nodepool no_suffrage None) sample_sfs None (w_db sample_world) = Ok sample_dproc"
    using sample_dproc_new(3) by (simp add: Processors_newProcessor_def)
  then have h: "\<exists>ps' w'. Processors_handleProposal sample_blockdata None (NewDefaultProcessorNewFunc sample_nodepool no_suffrage None) sample_sfs None
      (\<lparr>ps_store = [], ps_current = None\<rparr> :: (unit, unit, unit) processors, sample_world) = Some (Ok 0, ps', w')"
    using f by (simp add: Processors_handleProposal_def sample_pfact_def Processors_checkProposal_def Processors_checkCurrent_def Let_def)
  then obtain ps' w' where h: "Processors_handleProposal sample_blockdata None (NewDefaultProcessorNewFunc sample_nodepool no_suffrage None) sample_sfs None
      (\<lparr>ps_store = [], ps_current = None\<rparr> :: (unit, unit, unit) processors, sample_world) = Some (Ok 0, ps', w')" by blast
  show ?thesis using proposal_becomes_current [OF h _ f(1)] h by auto
qed

end
