(* ===== verification/Mitum_Consensus.thy ===== *)
theory Mitum_Consensus
  imports Mitum_States Mitum_Timers Mitum_Processors
begin

text \<open>
  The joining and the consensus state of a node (\<^verbatim>\<open>src/states/basic/state_joining.go\<close>, \<^verbatim>\<open>state_consensus.go\<close>, \<^verbatim>\<open>state_consensus_base.go\<close>): they answer voteproofs and
  proposals with ballots that timers broadcast again and again. What a timer does is a value \<open>tick\<close>. The processors of proposals are behind
  \<open>pps_if\<close>, whose instance is made of \<^verbatim>\<open>src/base/prprocessor/processors.go\<close>. Both states are instances of \<open>keeps_voteproof\<close>. The lemmas: the ballots with which a
  node answers a draw, an agreed block and an INIT voteproof, that a node in consensus does not fall silent, and what a broadcasting timer sends.
\<close>

section \<open>Timers of a node\<close>

definition TimerIDBroadcastINITBallot :: timer_id where "TimerIDBroadcastINITBallot = ''broadcast-init-ballot''"
definition TimerIDBroadcastJoingingINITBallot :: timer_id where "TimerIDBroadcastJoingingINITBallot = ''broadcast-joining-init-ballot''"
definition TimerIDBroadcastProposal :: timer_id where "TimerIDBroadcastProposal = ''broadcast-proposal''"
definition TimerIDBroadcastACCEPTBallot :: timer_id where "TimerIDBroadcastACCEPTBallot = ''broadcast-accept-ballot''"
definition TimerIDSyncingWaitVoteproof :: timer_id where "TimerIDSyncingWaitVoteproof = ''syncing-wait-new-voteproof''"
definition TimerIDFindProposal :: timer_id where "TimerIDFindProposal = ''find-proposal''"

lemmas timer_ids = TimerIDBroadcastINITBallot_def TimerIDBroadcastJoingingINITBallot_def TimerIDBroadcastProposal_def
  TimerIDBroadcastACCEPTBallot_def TimerIDSyncingWaitVoteproof_def TimerIDFindProposal_def

text \<open>What a timer does at each interval: broadcast a ballot, a proposal, or the INIT ballot of a joining node; look for a proposal.\<close>

datatype tick = BallotTick "ballot option" | ProposalTick ballot | JoiningTick ballot | FindTick height round address

definition states_timers :: "tick timers" where
  "states_timers = NewTimers [TimerIDBroadcastJoingingINITBallot, TimerIDBroadcastINITBallot, TimerIDBroadcastProposal, TimerIDBroadcastACCEPTBallot,
     TimerIDSyncingWaitVoteproof, TimerIDFindProposal] False"

section \<open>What the states keep and call\<close>

text \<open>
  \<open>cp_lib\<close> is the last INIT ballot that was broadcast, \<open>cp_last\<close> the variable of \<open>checkBallotboxFunc\<close>, \<open>cp_pps\<close> the processors of proposals.
\<close>

record 'q cpriv =
  cp_timers :: "tick timers"
  cp_lib :: "ballot option"
  cp_last :: "voteproof option"
  cp_maker :: "proposal_maker option"
  cp_pps :: 'q

text \<open>The calls of \<open>Processors\<close> that return, with what they send on their channel; they share the database with the node.\<close>

record ('d, 'q) pps_if =
  pps_NewProposal :: "signed_fact \<Rightarrow> voteproof \<Rightarrow> 'q \<times> 'd \<Rightarrow> presult res \<times> 'q \<times> 'd"
  pps_Save :: "hash \<Rightarrow> voteproof \<Rightarrow> 'q \<times> 'd \<Rightarrow> presult res \<times> 'q \<times> 'd"
  pps_CurrentState :: "hash \<Rightarrow> 'q \<Rightarrow> pstate res"

text \<open>
  The surroundings: a random block hash, the time that processing a proposal took, and the hooks that run when a block is saved.
\<close>

record ('d, 'q) cenv =
  ce_L :: lib
  ce_ev :: senv
  ce_D :: "('d, maker_state) storage_db"
  ce_ProposalByPoint :: "'d \<Rightarrow> height \<Rightarrow> round \<Rightarrow> address \<Rightarrow> (ballot option \<times> bool) res"
  ce_pps :: "('d, 'q) pps_if"
  ce_random :: hash
  ce_elapsed :: int
  ce_NewBlocks :: "blockv0 list \<Rightarrow> unit res"

type_synonym ('d, 'q) cstates = "('d, 'q cpriv) states"

definition done_res :: "unit res \<Rightarrow> outcome" where
  "done_res r = bind_res r (\<lambda>_. Ok None)"

text \<open>Calls in sequence: the first error ends it; a switch of the state is an error too.\<close>

definition obind :: "outcome \<times> 's \<Rightarrow> ('s \<Rightarrow> outcome \<times> 's) \<Rightarrow> outcome \<times> 's" where
  "obind x f = (case x of (Ok None, s) \<Rightarrow> f s | r \<Rightarrow> r)"

definition on_timers :: "(tick timers \<Rightarrow> unit res \<times> tick timers) \<Rightarrow> ('d, 'q) cstates \<Rightarrow> outcome \<times> ('d, 'q) cstates" where
  "on_timers f s = (case f (cp_timers (ss_priv s)) of (r, ts) \<Rightarrow> (done_res r, s\<lparr>ss_priv := (ss_priv s)\<lparr>cp_timers := ts\<rparr>\<rparr>))"

definition set_and_start :: "tick timer \<Rightarrow> timer_id list \<Rightarrow> ('d, 'q) cstates \<Rightarrow> outcome \<times> ('d, 'q) cstates" where
  "set_and_start t ids s = obind (on_timers (SetTimer t) s) (on_timers (StartTimers ids True))"

definition on_pps :: "('q \<times> 'd \<Rightarrow> 'a \<times> 'q \<times> 'd) \<Rightarrow> ('d, 'q) cstates \<Rightarrow> 'a \<times> ('d, 'q) cstates" where
  "on_pps f s = (case f (cp_pps (ss_priv s), ss_database s) of (r, q, d) \<Rightarrow> (r, s\<lparr>ss_database := d, ss_priv := (ss_priv s)\<lparr>cp_pps := q\<rparr>\<rparr>))"

definition now_of :: "('d, 'q) cenv \<Rightarrow> gotime" where "now_of E = se_now (ce_ev E)"

text \<open>A call of \<open>EnsureErrors\<close> on a function that changes the database.\<close>

fun ensure_write :: "nat \<Rightarrow> ('d \<Rightarrow> unit res \<times> 'd) \<Rightarrow> goerr list \<Rightarrow> 'd \<Rightarrow> unit res \<times> 'd" where
  "ensure_write 0 f errs d = (Err DeadlineExceeded, d)"
| "ensure_write (Suc tries) f errs d =
     (case f d of
        (Err e, d) \<Rightarrow> if list_ex (error_Is e) errs then ensure_write tries f errs d else (Err e, d)
      | r \<Rightarrow> r)"

section \<open>Ticks\<close>

text \<open>\<open>signBallot\<close> and \<open>signBallotWithFact\<close> sign a copy of the ballot, which they drop.\<close>

definition signBallot :: "('d, 'q) cenv \<Rightarrow> ballot option \<Rightarrow> ('d, 'q) cstates \<Rightarrow> unit res" where
  "signBallot E blt s =
     (case blt of
        None \<Rightarrow> Err (plain ''failed to sign ballot; unknown ballot type; %T'')
      | Some b \<Rightarrow> bind_res (Seal_Sign (ce_L E) (now_of E) (bl_seal b) (ln_privatekey (np_local (ss_nodepool s))) (lp_networkID (ss_policy s))) (\<lambda>_. Ok ()))"

definition signBallotWithFact :: "('d, 'q) cenv \<Rightarrow> ballot option \<Rightarrow> ('d, 'q) cstates \<Rightarrow> unit res" where
  "signBallotWithFact E blt s =
     (case blt of
        None \<Rightarrow> Err (plain ''failed to sign ballot with fact; unknown ballot type; %T'')
      | Some b \<Rightarrow>
          bind_res (BallotSeal_SignWithFact (ce_L E) (now_of E) (now_of E) b (local_address (ss_nodepool s)) (ln_privatekey (np_local (ss_nodepool s)))
            (lp_networkID (ss_policy s))) (\<lambda>_. Ok ()))"

definition broadcast_tick :: "(ballot option \<Rightarrow> ('d, 'q) cstates \<Rightarrow> unit res) \<Rightarrow> ballot option \<Rightarrow> bool \<Rightarrow> nat \<Rightarrow> ('d, 'q) cstates \<Rightarrow> bool res \<times> ('d, 'q) cstates" where
  "broadcast_tick sign blt toLocal i s =
     (case (if i mod 5 = 0 then sign blt s else Ok ()) of
        Panic \<Rightarrow> (Panic, s)
      | _ \<Rightarrow> (case blt of None \<Rightarrow> (Panic, s) | Some b \<Rightarrow> (Ok True, BroadcastBallot b toLocal s)))"

definition findProposal :: "('d, 'q) cenv \<Rightarrow> height \<Rightarrow> round \<Rightarrow> address \<Rightarrow> ('d, 'q) cstates \<Rightarrow> ballot option res" where
  "findProposal E h r pr0 s =
     EnsureErrors (se_tries (ce_ev E)) (\<lambda>_. bind_res (ce_ProposalByPoint E (ss_database s) h r pr0) (\<lambda>(pr, found). Ok (if \<not> found then None else pr)))
       [ConnectionError, DeadlineExceeded]"

text \<open>The check of the ballot box; the first voteproof it reports stays the one that later ones are compared with.\<close>

definition checkBallotbox :: "('d, 'q) cstates \<Rightarrow> unit res \<times> ('d, 'q) cstates" where
  "checkBallotbox s =
     (case bb_latestBallot (ss_ballotbox s) of
        None \<Rightarrow> (Ok (), s)
      | Some i \<Rightarrow>
          (let vp = bl_baseVoteproof i; report = (\<lambda>s. case vp of None \<Rightarrow> s | Some vp \<Rightarrow> States_NewVoteproof (VP vp) s) in
           case vproof_Compare (map_option VP vp) (ss_lvp s) of
             Err e \<Rightarrow> (Err e, s)
           | Panic \<Rightarrow> (Panic, s)
           | Ok c \<Rightarrow>
               if c < 1 then (Ok (), s)
               else case cp_last (ss_priv s) of
                 None \<Rightarrow> (Ok (), report (s\<lparr>ss_priv := (ss_priv s)\<lparr>cp_last := vp\<rparr>\<rparr>))
               | Some l \<Rightarrow>
                   (case vproof_Compare (map_option VP vp) (Some (VP l)) of
                      Ok c \<Rightarrow> (Ok (), if c < 1 then s else report s)
                    | Err e \<Rightarrow> (Err e, s)
                    | Panic \<Rightarrow> (Panic, s))))"

definition run_tick :: "('d, 'q) cenv \<Rightarrow> tick \<Rightarrow> nat \<Rightarrow> ('d, 'q) cstates \<Rightarrow> bool res \<times> ('d, 'q) cstates" where
  "run_tick E tk i s =
     (case tk of
        BallotTick blt \<Rightarrow> broadcast_tick (signBallotWithFact E) blt (i = 0) i s
      | ProposalTick p \<Rightarrow> broadcast_tick (signBallot E) (Some p) False i s
      | JoiningTick blt \<Rightarrow>
          (case checkBallotbox s of
             (Ok _, s) \<Rightarrow> broadcast_tick (signBallotWithFact E) (Some blt) (i = 0) i s
           | (Err e, s) \<Rightarrow> (Err e, s)
           | (Panic, s) \<Rightarrow> (Panic, s))
      | FindTick h r a \<Rightarrow>
          (case findProposal E h r a s of
             Panic \<Rightarrow> (Panic, s)
           | Ok (Some p) \<Rightarrow> (Ok True, States_NewProposal p s)
           | _ \<Rightarrow> (Ok True, s)))"

text \<open>A turn of the timer with this id, if it runs.\<close>

definition timer_tick :: "('d, 'q) cenv \<Rightarrow> timer_id \<Rightarrow> bool \<Rightarrow> bool \<Rightarrow> ('d, 'q) cstates \<Rightarrow> unit res \<times> ('d, 'q) cstates" where
  "timer_tick E i finished ended s =
     (case map_of (ts_timers (cp_timers (ss_priv s))) i of
        Some (Some t) \<Rightarrow>
          if \<not> tm_started t then (Ok (), s)
          else (case Timer_turn (run_tick E) finished ended t s of
            (r, t, s) \<Rightarrow>
              (r, s\<lparr>ss_priv := (ss_priv s)\<lparr>cp_timers := (cp_timers (ss_priv s))\<lparr>ts_timers := AList.update i (Some t) (ts_timers (cp_timers (ss_priv s)))\<rparr>\<rparr>\<rparr>))
      | _ \<Rightarrow> (Ok (), s))"

section \<open>Ballots that timers broadcast\<close>

definition init_interval :: "('d, 'q) cstates \<Rightarrow> int \<Rightarrow> nat \<Rightarrow> int" where
  "init_interval s initial i = (if i < 1 then initial else lp_intervalBroadcastingINITBallot (ss_policy s))"

definition next_from_INIT :: "('d, 'q) cenv \<Rightarrow> voteproof \<Rightarrow> voteproof option \<Rightarrow> ('d, 'q) cstates \<Rightarrow> ballot res" where
  "next_from_INIT E vp avp s =
     NextINITBallotFromINITVoteproof (ce_L E) (now_of E) (now_of E) (ce_D E) (ss_database s) (np_local (ss_nodepool s)) vp avp (lp_networkID (ss_policy s))"

definition next_from_ACCEPT :: "('d, 'q) cenv \<Rightarrow> voteproof \<Rightarrow> ('d, 'q) cstates \<Rightarrow> ballot res" where
  "next_from_ACCEPT E vp s =
     NextINITBallotFromACCEPTVoteproof (ce_L E) (now_of E) (now_of E) (ce_D E) (ss_database s) (np_local (ss_nodepool s)) vp (lp_networkID (ss_policy s))"

definition nextRound :: "('d, 'q) cenv \<Rightarrow> voteproof \<Rightarrow> ('d, 'q) cstates \<Rightarrow> outcome \<times> ('d, 'q) cstates" where
  "nextRound E vp s =
     (case (if vp_stage vp = StageINIT then bind_res (next_from_INIT E vp None s) (\<lambda>b. Ok (Some b))
            else if vp_stage vp = StageACCEPT then bind_res (next_from_ACCEPT E vp s) (\<lambda>b. Ok (Some b))
            else Ok None) of
        Err e \<Rightarrow> (Err e, s)
      | Panic \<Rightarrow> (Panic, s)
      | Ok baseBallot \<Rightarrow>
          set_and_start (Timer_SetInterval (init_interval s 1) (NewContextTimer TimerIDBroadcastINITBallot 0 (BallotTick baseBallot)))
            [TimerIDBroadcastINITBallot] s)"

definition broadcastProposal :: "ballot \<Rightarrow> ('d, 'q) cstates \<Rightarrow> outcome \<times> ('d, 'q) cstates" where
  "broadcastProposal p s =
     set_and_start
       (Timer_SetInterval (\<lambda>i. if i < 1 then 1 else lp_intervalBroadcastingProposal (ss_policy s)) (NewContextTimer TimerIDBroadcastProposal 0 (ProposalTick p)))
       [TimerIDBroadcastProposal, TimerIDBroadcastINITBallot, TimerIDBroadcastACCEPTBallot] s"

definition defaultBroadcastACCEPTBallot ::
  "('d, 'q) cenv \<Rightarrow> hash \<Rightarrow> hash option \<Rightarrow> voteproof \<Rightarrow> int \<Rightarrow> ('d, 'q) cstates \<Rightarrow> outcome \<times> ('d, 'q) cstates" where
  "defaultBroadcastACCEPTBallot E nb ph vp initialDelay s =
     (case NewACCEPT (ce_L E) (now_of E) (now_of E) (NewACCEPTFact (ce_L E) (vp_height vp) (vp_round vp) ph (Some nb)) (local_address (ss_nodepool s)) (Some vp)
             (ln_privatekey (np_local (ss_nodepool s))) (lp_networkID (ss_policy s)) of
        Err e \<Rightarrow> (Err (FmtErr ''failed to re-sign accept ballot'' (Some e)), s)
      | Panic \<Rightarrow> (Panic, s)
      | Ok baseBallot \<Rightarrow>
          set_and_start
            (Timer_SetInterval (\<lambda>i. if i < 1 then initialDelay else lp_intervalBroadcastingACCEPTBallot (ss_policy s))
              (NewContextTimer TimerIDBroadcastACCEPTBallot 0 (BallotTick (Some baseBallot))))
            [TimerIDBroadcastINITBallot, TimerIDBroadcastProposal, TimerIDBroadcastACCEPTBallot] s)"

definition set_lib :: "ballot \<Rightarrow> ('d, 'q) cstates \<Rightarrow> ('d, 'q) cstates" where
  "set_lib b s = s\<lparr>ss_priv := (ss_priv s)\<lparr>cp_lib := Some b\<rparr>\<rparr>"

text \<open>The ballot for the next height; the one that was broadcast last is used again when it is for the same fact.\<close>

definition defaultBroadcastNewINITBallot :: "('d, 'q) cenv \<Rightarrow> voteproof \<Rightarrow> ('d, 'q) cstates \<Rightarrow> outcome \<times> ('d, 'q) cstates" where
  "defaultBroadcastNewINITBallot E vp s =
     (if vp_stage vp \<noteq> StageACCEPT then (Err (plain ''for broadcastNewINITBallot, should be accept voteproof, not %v''), s)
      else
        (case bind_res (next_from_ACCEPT E vp s) (\<lambda>b.
                case cp_lib (ss_priv s) of
                  None \<Rightarrow> Ok (b, False)
                | Some l \<Rightarrow>
                    (case (Ballot_RawFact l, Ballot_RawFact b) of
                       (Some lf, Some f) \<Rightarrow>
                         bind_res (of_hash (Fact_Hash lf)) (\<lambda>lh. bind_res (of_hash (Fact_Hash f)) (\<lambda>fh. Ok (if Hash_Equal lh fh then (l, True) else (b, False))))
                     | _ \<Rightarrow> Panic)) of
           Err e \<Rightarrow> (Err e, s)
         | Panic \<Rightarrow> (Panic, s)
         | Ok (baseBallot, reused) \<Rightarrow>
             set_and_start (NewContextTimer TimerIDBroadcastINITBallot (lp_intervalBroadcastingINITBallot (ss_policy s)) (BallotTick (Some baseBallot)))
               [TimerIDBroadcastINITBallot, TimerIDBroadcastProposal, TimerIDBroadcastACCEPTBallot] (if reused then s else set_lib baseBallot s)))"

definition broadcastNextRoundINITBallot ::
  "('d, 'q) cenv \<Rightarrow> voteproof \<Rightarrow> voteproof option \<Rightarrow> (nat \<Rightarrow> int) \<Rightarrow> ('d, 'q) cstates \<Rightarrow> tick timer res \<times> ('d, 'q) cstates" where
  "broadcastNextRoundINITBallot E vp avp interval s =
     (if vp_stage vp \<noteq> StageINIT then (Err (plain ''for broadcast next round INITBallot, should be init voteproof, not %v''), s)
      else case next_from_INIT E vp avp s of
        Err e \<Rightarrow> (Err e, s)
      | Panic \<Rightarrow> (Panic, s)
      | Ok b \<Rightarrow> (Ok (Timer_SetInterval interval (NewContextTimer TimerIDBroadcastINITBallot 0 (BallotTick (Some b)))), set_lib b s))"

text \<open>While the node waits for the proposal of the round, the ballot for the next round waits for the timeout.\<close>

definition whenProposalTimeout :: "('d, 'q) cenv \<Rightarrow> voteproof \<Rightarrow> address \<Rightarrow> ('d, 'q) cstates \<Rightarrow> outcome \<times> ('d, 'q) cstates" where
  "whenProposalTimeout E vp pr s =
     (if vp_stage vp \<noteq> StageINIT then (Err (plain ''for whenProposalTimeout, should be init voteproof, not %v''), s)
      else case broadcastNextRoundINITBallot E vp None (init_interval s (lp_timeoutWaitingProposal (ss_policy s))) s of
        (Err e, s) \<Rightarrow> (Err e, s)
      | (Panic, s) \<Rightarrow> (Panic, s)
      | (Ok t, s) \<Rightarrow>
          obind (on_timers (SetTimer t) s) (\<lambda>s.
          obind (on_timers (SetTimer (NewContextTimer TimerIDFindProposal Second (FindTick (vp_height vp) (vp_round vp) pr))) s) (\<lambda>s.
            on_timers (StartTimers [TimerIDBroadcastINITBallot, TimerIDBroadcastProposal, TimerIDFindProposal] True) s)))"

definition handleUnknownINITVoteproof :: "('d, 'q) cenv \<Rightarrow> vproof \<Rightarrow> ('d, 'q) cstates \<Rightarrow> outcome \<times> ('d, 'q) cstates" where
  "handleUnknownINITVoteproof E v s =
     (case v of
        VP _ \<Rightarrow> (Ok None, s)
      | VPSet vs \<Rightarrow>
          (case (vs_vp vs, vs_avp vs, opt_base (ss_lvp s)) of
             (_, None, _) \<Rightarrow> (Ok None, s)
           | (Some vp, Some avp, Ok lvp) \<Rightarrow>
               if vp_stage vp \<noteq> StageINIT then (Err (plain ''for handleUnknownINITVoteproof, should be INIT voteproof, not %v''), s)
               else if lvp \<noteq> None \<and> vp_finishedAt (the lvp) > now_of E + lp_timeoutWaitingProposal (ss_policy s) * -3 then (Ok None, s)
               else
                 (case (case cp_lib (ss_priv s) of
                          None \<Rightarrow> Ok True
                        | Some l \<Rightarrow>
                            (case Ballot_RawFact l of
                               None \<Rightarrow> Panic
                             | Some f \<Rightarrow> Ok (\<not> (vp_height vp < Fact_Height f \<or> vp_height vp = Fact_Height f \<and> vp_round vp < Fact_Round f)))) of
                    Ok False \<Rightarrow> (Ok None, s)
                  | Ok True \<Rightarrow>
                      (case broadcastNextRoundINITBallot E vp (Some avp) (init_interval s 1) s of
                         (Err e, s) \<Rightarrow> (Err e, s)
                       | (Panic, s) \<Rightarrow> (Panic, s)
                       | (Ok t, s) \<Rightarrow> set_and_start t [TimerIDBroadcastINITBallot] s)
                  | _ \<Rightarrow> (Panic, s))
           | _ \<Rightarrow> (Panic, s)))"

section \<open>Proposals\<close>

text \<open>The voteproof to answer with, the hash of the new block, if any, and whether the block was made.\<close>

definition consensus_processProposal ::
  "('d, 'q) cenv \<Rightarrow> ballot \<Rightarrow> ('d, 'q) cstates \<Rightarrow> (voteproof option \<times> hash option \<times> bool) res \<times> ('d, 'q) cstates" where
  "consensus_processProposal E p s =
     (case (bl_baseVoteproof p, opt_base (ss_livp s), bl_sfs p) of
        (Some pvp, Ok (Some lvp), Some sfs) \<Rightarrow>
          (let vp = (if vp_height pvp \<noteq> vp_height lvp \<or> vp_round pvp \<noteq> vp_round lvp then pvp else lvp) in
           case on_pps (pps_NewProposal (ce_pps E) sfs vp) s of
             (Err e, s) \<Rightarrow> (Err e, s)
           | (Panic, s) \<Rightarrow> (Panic, s)
           | (Ok result, s) \<Rightarrow>
               (case pr_err result of
                  Some e \<Rightarrow> if error_Is e IgnoreError then (Ok (None, None, False), s) else (Ok (Some vp, Some (ce_random E), False), s)
                | None \<Rightarrow> (case pr_block result of None \<Rightarrow> (Panic, s) | Some b \<Rightarrow> (Ok (Some vp, mf_h (bk_manifest b), True), s))))
      | _ \<Rightarrow> (Panic, s))"

definition consensus_ProcessProposal :: "('d, 'q) cenv \<Rightarrow> ballot \<Rightarrow> ('d, 'q) cstates \<Rightarrow> outcome \<times> ('d, 'q) cstates" where
  "consensus_ProcessProposal E p s =
     obind (broadcastProposal p s) (\<lambda>s.
       case consensus_processProposal E p s of
         (Err e, s) \<Rightarrow> (Err e, s)
       | (Panic, s) \<Rightarrow> (Panic, s)
       | (Ok (_, None, _), s) \<Rightarrow> (Ok None, s)
       | (Ok (None, Some _, _), s) \<Rightarrow> (Panic, s)
       | (Ok (Some vp, Some nb, _), s) \<Rightarrow>
           (case Proposal_Fact p of
              Ok f \<Rightarrow>
                let d = lp_waitBroadcastingACCEPTBallot (ss_policy s) - ce_elapsed E; initialDelay = (if d < 0 then 1 else d) in
                defaultBroadcastACCEPTBallot E nb (Fact_Hash f) vp initialDelay s
            | _ \<Rightarrow> (Panic, s)))"

definition defaultPrepareProposal ::
  "('d, 'q) cenv \<Rightarrow> height \<Rightarrow> round \<Rightarrow> voteproof \<Rightarrow> ('d, 'q) cstates \<Rightarrow> ballot option res \<times> ('d, 'q) cstates" where
  "defaultPrepareProposal E h r vp s =
     (if underHandover s then (Ok None, s)
      else case cp_maker (ss_priv s) of
        None \<Rightarrow> (Ok None, s)
      | Some pm \<Rightarrow>
          (case ProposalMaker_Proposal (ce_L E) (now_of E) (now_of E) (now_of E) (ce_D E) h r (Some vp) (pm, ss_database s) of
             (r, pm, d) \<Rightarrow>
               (let s = s\<lparr>ss_database := d, ss_priv := (ss_priv s)\<lparr>cp_maker := Some pm\<rparr>\<rparr> in
                case r of
                  Err e \<Rightarrow> (Err e, s)
                | Panic \<Rightarrow> (Panic, s)
                | Ok pr \<Rightarrow>
                    (case ensure_write (se_tries (ce_ev E)) (\<lambda>d. db_NewProposal (ce_D E) d pr) [ConnectionError, DeadlineExceeded] (ss_database s) of
                       (Panic, d) \<Rightarrow> (Panic, s\<lparr>ss_database := d\<rparr>)
                     | (Ok _, d) \<Rightarrow> (Ok (Some pr), s\<lparr>ss_database := d\<rparr>)
                     | (Err e, d) \<Rightarrow>
                         (if error_Is e DuplicatedError then Ok (Some pr) else Err (FmtErr ''failed to save proposal'' (Some e)), s\<lparr>ss_database := d\<rparr>)))))"

section \<open>Voteproofs\<close>

definition newINITVoteproof :: "('d, 'q) cenv \<Rightarrow> vproof \<Rightarrow> voteproof \<Rightarrow> ('d, 'q) cstates \<Rightarrow> outcome \<times> ('d, 'q) cstates" where
  "newINITVoteproof E v vp s =
     obind (on_timers (StopTimers [TimerIDBroadcastProposal]) s) (\<lambda>s.
     obind (handleUnknownINITVoteproof E v s) (\<lambda>s.
       case su_Acting (ss_suffrage s) (vp_height vp) (vp_round vp) of
         Err e \<Rightarrow> (Err e, s)
       | Panic \<Rightarrow> (Panic, s)
       | Ok acting \<Rightarrow>
           (case findProposal E (vp_height vp) (vp_round vp) (as_proposer acting) s of
              Err e \<Rightarrow> (Err e, s)
            | Panic \<Rightarrow> (Panic, s)
            | Ok (Some p) \<Rightarrow> consensus_ProcessProposal E p s
            | Ok None \<Rightarrow>
                if Address_Equal (ce_L E) (as_proposer acting) (Some (local_address (ss_nodepool s)))
                then (case defaultPrepareProposal E (vp_height vp) (vp_round vp) vp s of
                        (Err e, s) \<Rightarrow> (Err e, s)
                      | (Panic, s) \<Rightarrow> (Panic, s)
                      | (Ok (Some p), s) \<Rightarrow> consensus_ProcessProposal E p s
                      | (Ok None, s) \<Rightarrow> whenProposalTimeout E vp (as_proposer acting) s)
                else whenProposalTimeout E vp (as_proposer acting) s)))"

definition being_processed :: "pstate set" where
  "being_processed = {Preparing, Prepared, Saving, Saved}"

definition processProposalOfACCEPTVoteproof ::
  "('d, 'q) cenv \<Rightarrow> voteproof \<Rightarrow> ('d, 'q) cstates \<Rightarrow> (ballot option \<times> hash) res \<times> ('d, 'q) cstates" where
  "processProposalOfACCEPTVoteproof E vp s =
     (case vp_majority vp of
        Some (ACCEPTFact _ ph _) \<Rightarrow>
          (case bind_res (of_hash ph) (\<lambda>ph.
                  bind_res (map_err (\<lambda>e. FmtErr ''failed to find proposal of accept voteproof in local'' (Some e))
                    (EnsureErrors (se_tries (ce_ev E)) (\<lambda>_. bind_res (db_Proposal (ce_D E) (ss_database s) ph) (\<lambda>(pr, found).
                        if \<not> found then Err (plain ''proposal of accept voteproof not found in local'') else Ok pr))
                      [ConnectionError, DeadlineExceeded])) (\<lambda>pr.
                  bind_res (pps_CurrentState (ce_pps E) ph (cp_pps (ss_priv s))) (\<lambda>st. Ok (ph, pr, st)))) of
             Err e \<Rightarrow> (Err e, s)
           | Panic \<Rightarrow> (Panic, s)
           | Ok (ph, pr, st) \<Rightarrow>
               if st \<in> being_processed then (Ok (pr, ph), s)
               else case pr of
                 None \<Rightarrow> (Panic, s)
               | Some p \<Rightarrow>
                   (case consensus_processProposal E p s of
                      (Err e, s) \<Rightarrow> (Err e, s)
                    | (Panic, s) \<Rightarrow> (Panic, s)
                    | (Ok (_, _, True), s) \<Rightarrow> (Ok (Some p, ph), s)
                    | (Ok (_, _, False), s) \<Rightarrow>
                        (case bind_res (Proposal_Fact p) (\<lambda>f. bind_res (of_hash (Fact_Hash f)) (\<lambda>h. pps_CurrentState (ce_pps E) h (cp_pps (ss_priv s)))) of
                           Err e \<Rightarrow> (Err e, s)
                         | Panic \<Rightarrow> (Panic, s)
                         | Ok st \<Rightarrow>
                             (if st \<in> being_processed then Ok (Some p, ph) else Err (plain ''failed to process proposal of accept voteproof; %s''), s))))
      | _ \<Rightarrow> (Err (plain ''needs ACCEPTBallotFact: fact=%T''), s))"

definition processACCEPTVoteproof :: "('d, 'q) cenv \<Rightarrow> vproof \<Rightarrow> voteproof \<Rightarrow> ('d, 'q) cstates \<Rightarrow> outcome \<times> ('d, 'q) cstates" where
  "processACCEPTVoteproof E v vp s =
     (case processProposalOfACCEPTVoteproof E vp s of
        (Err e, s) \<Rightarrow> (Err (FmtErr ''failed to process proposal of accept voteproof'' (Some e)), s)
      | (Panic, s) \<Rightarrow> (Panic, s)
      | (Ok (pr, fh), s) \<Rightarrow>
          obind (case pr of None \<Rightarrow> (Ok None, s) | Some p \<Rightarrow> broadcastProposal p s) (\<lambda>s.
            case on_pps (pps_Save (ce_pps E) fh vp) s of
              (Err e, s) \<Rightarrow> (Err e, s)
            | (Panic, s) \<Rightarrow> (Panic, s)
            | (Ok result, s) \<Rightarrow>
                (let leave = (\<lambda>e. (Ok (Some (sctx_SetError (Some e) (sctx_SetVoteproof (Some v) (NewStateSwitchContext StateConsensus StateSyncing)))), s)) in
                 case (pr_err result, pr_block result) of
                   (Some e, _) \<Rightarrow> leave e
                 | (None, None) \<Rightarrow> leave (plain ''failed to process Proposal; empty Block returned'')
                 | (None, Some b) \<Rightarrow> (done_res (ce_NewBlocks E [b]), s))))"

definition newACCEPTVoteproof :: "('d, 'q) cenv \<Rightarrow> vproof \<Rightarrow> voteproof \<Rightarrow> ('d, 'q) cstates \<Rightarrow> outcome \<times> ('d, 'q) cstates" where
  "newACCEPTVoteproof E v vp s = obind (processACCEPTVoteproof E v vp s) (defaultBroadcastNewINITBallot E vp)"

definition consensus_ProcessVoteproof :: "('d, 'q) cenv \<Rightarrow> vproof \<Rightarrow> ('d, 'q) cstates \<Rightarrow> outcome \<times> ('d, 'q) cstates" where
  "consensus_ProcessVoteproof E v s =
     (case vproof_base v of
        Err e \<Rightarrow> (Err e, s)
      | Panic \<Rightarrow> (Panic, s)
      | Ok vp \<Rightarrow>
          if vp_result vp = VoteResultDraw then nextRound E vp s
          else if vp_stage vp = StageINIT then newINITVoteproof E v vp s
          else if vp_stage vp = StageACCEPT then newACCEPTVoteproof E v vp s
          else (Err (Errorf IgnoreError ''not supported voteproof stage, %v found''), s))"

section \<open>The consensus state\<close>

definition consensus_checkVoteproof :: "sctx \<Rightarrow> ('d, 'q) cstates \<Rightarrow> unit res" where
  "consensus_checkVoteproof c s =
     (case sc_voteproof c of
        None \<Rightarrow> Err (plain ''consensus state not allowed to enter without voteproof'')
      | Some v \<Rightarrow>
          bind_res (vproof_base v) (\<lambda>vp.
            if vp_stage vp \<noteq> StageINIT then Err (plain ''consensus state not allowed to enter with init voteproof, not %v'')
            else case ss_livp s of
              None \<Rightarrow> Err (plain ''empty last init voteproof'')
            | Some lvp \<Rightarrow> bind_res (vproof_base lvp) (\<lambda>_. Ok ())))"

definition Consensus_Enter :: "('d, 'q) cenv \<Rightarrow> sctx \<Rightarrow> ('d, 'q) cstates \<Rightarrow> ('d, 'q) cstates entry res \<times> ('d, 'q) cstates" where
  "Consensus_Enter E c s =
     (if underHandover s then (Err (plain ''consensus should not be entered under handover''), s)
      else case BaseState_Enter StateConsensus c s of
        (Ok _, s) \<Rightarrow>
          (case consensus_checkVoteproof c s of
             Err e \<Rightarrow> (Err e, s)
           | Panic \<Rightarrow> (Panic, s)
           | Ok _ \<Rightarrow> (Ok (Callback (Some (\<lambda>s. case sc_voteproof c of None \<Rightarrow> (Panic, s) | Some v \<Rightarrow> consensus_ProcessVoteproof E v s))), s))
      | r \<Rightarrow> r)"

definition Consensus_Exit :: "sctx \<Rightarrow> ('d, 'q) cstates \<Rightarrow> ('d, 'q) cstates entry res \<times> ('d, 'q) cstates" where
  "Consensus_Exit c s =
     (case BaseState_Exit StateConsensus c s of
        (Ok _, s) \<Rightarrow>
          (Ok (Callback (Some (on_timers (StopTimers [TimerIDBroadcastINITBallot, TimerIDBroadcastProposal, TimerIDFindProposal])))), s)
      | r \<Rightarrow> r)"

definition ConsensusState :: "('d, 'q) cenv \<Rightarrow> ('d, 'q) cstates state_if" where
  "ConsensusState E = \<lparr>if_Enter = Consensus_Enter E, if_Exit = Consensus_Exit, if_ProcessProposal = consensus_ProcessProposal E,
     if_ProcessVoteproof = consensus_ProcessVoteproof E\<rparr>"

section \<open>The joining state\<close>

definition start_joining :: "('d, 'q) cenv \<Rightarrow> (ballot \<Rightarrow> tick) \<Rightarrow> int \<Rightarrow> voteproof \<Rightarrow> ('d, 'q) cstates \<Rightarrow> outcome \<times> ('d, 'q) cstates" where
  "start_joining E tick initial vp s =
     (if underHandover s then (Ok None, s)
      else case next_from_ACCEPT E vp s of
        Err e \<Rightarrow> (Err e, s)
      | Panic \<Rightarrow> (Panic, s)
      | Ok b \<Rightarrow>
          set_and_start (Timer_SetInterval (init_interval s initial) (NewContextTimer TimerIDBroadcastJoingingINITBallot 0 (tick b)))
            [TimerIDBroadcastJoingingINITBallot] s)"

definition broadcastINITBallotEnteredWithoutDelay :: "('d, 'q) cenv \<Rightarrow> voteproof \<Rightarrow> ('d, 'q) cstates \<Rightarrow> outcome \<times> ('d, 'q) cstates" where
  "broadcastINITBallotEnteredWithoutDelay E vp s = start_joining E (\<lambda>b. BallotTick (Some b)) 1 vp s"

text \<open>A new closure of \<open>checkBallotboxFunc\<close> has reported nothing yet.\<close>

definition broadcastINITBallotEntered :: "('d, 'q) cenv \<Rightarrow> voteproof \<Rightarrow> ('d, 'q) cstates \<Rightarrow> outcome \<times> ('d, 'q) cstates" where
  "broadcastINITBallotEntered E vp s =
     start_joining E JoiningTick (lp_intervalBroadcastingINITBallot (ss_policy s) * 5) vp (s\<lparr>ss_priv := (ss_priv s)\<lparr>cp_last := None\<rparr>\<rparr>)"

definition Joining_Enter :: "('d, 'q) cenv \<Rightarrow> sctx \<Rightarrow> ('d, 'q) cstates \<Rightarrow> ('d, 'q) cstates entry res \<times> ('d, 'q) cstates" where
  "Joining_Enter E c s =
     (case BaseState_Enter StateJoining c s of
        (Ok _, s) \<Rightarrow>
          (case (case sc_voteproof c of
                   Some v \<Rightarrow> vproof_base v
                 | None \<Rightarrow>
                     bind_res (db_LastVoteproof (ce_D E) (ss_database s) StageACCEPT) (\<lambda>v.
                       case v of None \<Rightarrow> Err (Errorf NotFoundError ''last accept voteproof not found'') | Some vp \<Rightarrow> Ok vp)) of
             Err e \<Rightarrow> (Err e, s)
           | Panic \<Rightarrow> (Panic, s)
           | Ok vp \<Rightarrow>
               (Ok (Callback (Some (\<lambda>s.
                  if length (su_Nodes (ss_suffrage s)) < 2 then broadcastINITBallotEnteredWithoutDelay E vp s else broadcastINITBallotEntered E vp s))), s))
      | r \<Rightarrow> r)"

definition Joining_Exit :: "sctx \<Rightarrow> ('d, 'q) cstates \<Rightarrow> ('d, 'q) cstates entry res \<times> ('d, 'q) cstates" where
  "Joining_Exit c s =
     (case BaseState_Exit StateJoining c s of
        (Ok _, s) \<Rightarrow> (Ok (Callback (Some (on_timers (StopTimers [TimerIDBroadcastJoingingINITBallot])))), s)
      | r \<Rightarrow> r)"

definition Joining_ProcessVoteproof :: "vproof \<Rightarrow> ('d, 'q) cstates \<Rightarrow> outcome \<times> ('d, 'q) cstates" where
  "Joining_ProcessVoteproof v s =
     (case vproof_base v of
        Err e \<Rightarrow> (Err e, s)
      | Panic \<Rightarrow> (Panic, s)
      | Ok vp \<Rightarrow>
          if vp_stage vp = StageINIT
          then obind (on_timers (StopTimers [TimerIDBroadcastJoingingINITBallot]) s) (\<lambda>s.
            (Ok (Some (sctx_SetVoteproof (Some v) (NewStateSwitchContext StateJoining StateConsensus))), s))
          else (Ok None, s))"

definition JoiningState :: "('d, 'q) cenv \<Rightarrow> ('d, 'q) cstates state_if" where
  "JoiningState E = (BaseState StateJoining)\<lparr>if_Enter := Joining_Enter E, if_Exit := Joining_Exit, if_ProcessVoteproof := Joining_ProcessVoteproof\<rparr>"

section \<open>The processors of a node\<close>

text \<open>
  \<open>NewProposal\<close> and \<open>Save\<close> up to the result on their channel, when no other request comes between; a call that does not return is \<open>Panic\<close> here, nothing happens
  after it either.
\<close>

definition pps_result :: "(presult res \<times> ('s, 'b, 't, 'o, 'c) psst) option \<Rightarrow> ('t, 'o, 'c) processors \<times> 'b \<Rightarrow> 's database \<Rightarrow>
   presult res \<times> (('t, 'o, 'c) processors \<times> 'b) \<times> 's database" where
  "pps_result r q d = (case r of None \<Rightarrow> (Panic, q, d) | Some (r, ps, w) \<Rightarrow> (r, (ps, w_bd w), w_db w))"

definition pps_refused :: "goerr \<Rightarrow> presult" where
  "pps_refused e = \<lparr>pr_block = None, pr_err = Some e\<rparr>"

definition Processors_NewProposal ::
  "(nat \<Rightarrow> ('c, 'b, 't) penv) \<Rightarrow> (ballot_fact \<Rightarrow> unit res) option \<Rightarrow> ('s database \<Rightarrow> signed_fact \<Rightarrow> voteproof option \<Rightarrow> ('t, 'o, 'c) dproc res) \<Rightarrow> (nat \<Rightarrow> bool) \<Rightarrow>
   signed_fact \<Rightarrow> voteproof \<Rightarrow> ('s, 'b, 't, 'o, 'c) psst \<Rightarrow> (presult res \<times> ('s, 'b, 't, 'o, 'c) psst) option" where
  "Processors_NewProposal Es chk newFunc ctx sfs ivp x =
     (case Processors_NewProposal_guard ivp of
        Err e \<Rightarrow> Some (Ok (pps_refused e), x)
      | Panic \<Rightarrow> Some (Panic, x)
      | Ok _ \<Rightarrow>
          (case Processors_start (pe_B (Es 0)) chk newFunc (NewProposalRequest sfs (Some ivp)) x of
             None \<Rightarrow> None
           | Some (Ok (GoPrepare i), x) \<Rightarrow> Processors_doPrepare Es ctx i x
           | Some (Ok (GoReply e), x) \<Rightarrow> Some (Ok (pps_refused e), x)
           | Some (_, x) \<Rightarrow> Some (Panic, x)))"

definition Processors_Save ::
  "(nat \<Rightarrow> ('c, 'b, 't) penv) \<Rightarrow> (ballot_fact \<Rightarrow> unit res) option \<Rightarrow> ('s database \<Rightarrow> signed_fact \<Rightarrow> voteproof option \<Rightarrow> ('t, 'o, 'c) dproc res) \<Rightarrow>
   (nat \<Rightarrow> nat \<Rightarrow> ('s, 'b, 't, 'o, 'c) psst) \<Rightarrow> (nat \<Rightarrow> nat \<Rightarrow> bool) \<Rightarrow> hash \<Rightarrow> voteproof \<Rightarrow> ('s, 'b, 't, 'o, 'c) psst \<Rightarrow>
   (presult res \<times> ('s, 'b, 't, 'o, 'c) psst) option" where
  "Processors_Save Es chk newFunc seen ctx fh avp x =
     (case Processors_Save_guard avp of
        Err e \<Rightarrow> Some (Ok (pps_refused e), x)
      | Panic \<Rightarrow> Some (Panic, x)
      | Ok _ \<Rightarrow>
          (case Processors_start (pe_B (Es 0)) chk newFunc (SaveRequest fh avp) x of
             None \<Rightarrow> None
           | Some (Ok (GoSave i avp), x) \<Rightarrow> Processors_doSave Es seen ctx avp i x
           | Some (Ok (GoReply e), x) \<Rightarrow> Some (Ok (pps_refused e), x)
           | Some (_, x) \<Rightarrow> Some (Panic, x)))"

definition node_pps ::
  "(nat \<Rightarrow> ('c, 'b, 't) penv) \<Rightarrow> (ballot_fact \<Rightarrow> unit res) option \<Rightarrow> ('s database \<Rightarrow> signed_fact \<Rightarrow> voteproof option \<Rightarrow> ('t, 'o, 'c) dproc res) \<Rightarrow>
   (nat \<Rightarrow> nat \<Rightarrow> ('s, 'b, 't, 'o, 'c) psst) \<Rightarrow> (nat \<Rightarrow> nat \<Rightarrow> bool) \<Rightarrow> ('s database, ('t, 'o, 'c) processors \<times> 'b) pps_if" where
  "node_pps Es chk newFunc seen ctx =
     \<lparr>pps_NewProposal = (\<lambda>sfs ivp (q, d). pps_result (Processors_NewProposal Es chk newFunc (ctx 0) sfs ivp (fst q, \<lparr>w_db = d, w_bd = snd q\<rparr>)) q d),
      pps_Save = (\<lambda>fh avp (q, d). pps_result (Processors_Save Es chk newFunc seen ctx fh avp (fst q, \<lparr>w_db = d, w_bd = snd q\<rparr>)) q d),
      pps_CurrentState = (\<lambda>fh q. Processors_CurrentState fh (fst q))\<rparr>"

section \<open>Running timers\<close>

definition node_timers_ok :: "('d, 'q) cstates \<Rightarrow> bool" where
  "node_timers_ok s \<longleftrightarrow> timers_ok (cp_timers (ss_priv s)) \<and> fst ` set (ts_timers (cp_timers (ss_priv s))) = fst ` set (ts_timers states_timers)"

text \<open>What the timer of an id would do, and what it does when it runs.\<close>

definition held :: "('d, 'q) cstates \<Rightarrow> timer_id \<rightharpoonup> tick" where
  "held s i = (case map_of (ts_timers (cp_timers (ss_priv s))) i of Some (Some t) \<Rightarrow> tm_callback t | _ \<Rightarrow> None)"

definition running :: "('d, 'q) cstates \<Rightarrow> timer_id \<rightharpoonup> tick" where
  "running s i = (case map_of (ts_timers (cp_timers (ss_priv s))) i of Some (Some t) \<Rightarrow> if tm_started t then tm_callback t else None | _ \<Rightarrow> None)"

definition with_timers :: "('d, 'q) cstates \<Rightarrow> tick timers \<Rightarrow> ('d, 'q) cstates" where
  "with_timers s ts = s\<lparr>ss_priv := (ss_priv s)\<lparr>cp_timers := ts\<rparr>\<rparr>"

lemma with_timers_simps [simp]:
  "ss_priv (with_timers s ts) = (ss_priv s)\<lparr>cp_timers := ts\<rparr>" "ss_lvp (with_timers s ts) = ss_lvp s" "ss_livp (with_timers s ts) = ss_livp s"
  "ss_database (with_timers s ts) = ss_database s" "ss_nodepool (with_timers s ts) = ss_nodepool s" "ss_policy (with_timers s ts) = ss_policy s"
  "ss_suffrage (with_timers s ts) = ss_suffrage s" "ss_hd (with_timers s ts) = ss_hd s" "with_timers (with_timers s ts) ts' = with_timers s ts'"
  by (simp_all add: with_timers_def)

lemma on_timers_eq: "on_timers f s = (done_res (fst (f (cp_timers (ss_priv s)))), with_timers s (snd (f (cp_timers (ss_priv s)))))"
  by (simp add: on_timers_def with_timers_def split: prod.splits)

lemma known_ids [simp]: "fst ` set (ts_timers states_timers) = {TimerIDBroadcastJoingingINITBallot, TimerIDBroadcastINITBallot, TimerIDBroadcastProposal,
    TimerIDBroadcastACCEPTBallot, TimerIDSyncingWaitVoteproof, TimerIDFindProposal}"
  by (simp add: states_timers_def NewTimers_def image_image timer_ids)

lemma running_held: "\<lbrakk>running s i = Some tk\<rbrakk> \<Longrightarrow> held s i = Some tk"
  by (auto simp: running_def held_def split: option.splits if_splits)

lemma set_timer_Ok:
  assumes "node_timers_ok s" and "tm_id t \<in> fst ` set (ts_timers states_timers)"
  shows "\<exists>ts. on_timers (SetTimer t) s = (Ok None, with_timers s ts) \<and> node_timers_ok (with_timers s ts) \<and>
    held (with_timers s ts) = (held s)(tm_id t := tm_callback t)"
proof -
  obtain ts where "SetTimer t (cp_timers (ss_priv s)) = (Ok (), ts)" "timers_ok ts" "fst ` set (ts_timers ts) = fst ` set (ts_timers (cp_timers (ss_priv s)))"
    "map_of (ts_timers ts) = (map_of (ts_timers (cp_timers (ss_priv s))))(tm_id t \<mapsto> Some t)"
    using SetTimer_Ok [of "cp_timers (ss_priv s)" t] assms by (auto simp: node_timers_ok_def)
  then show ?thesis using assms(1) by (intro exI [of _ ts]) (auto simp: on_timers_eq done_res_def node_timers_ok_def held_def fun_eq_iff)
qed

lemma start_timers_Ok:
  assumes "node_timers_ok s" and "set ids \<subseteq> fst ` set (ts_timers states_timers)"
  shows "\<exists>ts. on_timers (StartTimers ids True) s = (Ok None, with_timers s ts) \<and> node_timers_ok (with_timers s ts) \<and>
    held (with_timers s ts) = held s |` set ids \<and> running (with_timers s ts) = held (with_timers s ts)"
proof -
  let ?ts = "cp_timers (ss_priv s)"
  have k: "timers_ok ?ts" "set ids \<subseteq> fst ` set (ts_timers ?ts)" using assms by (auto simp: node_timers_ok_def)
  obtain ts where b: "StartTimers ids True ?ts = (Ok (), ts)" "map fst (ts_timers ts) = map fst (ts_timers ?ts)"
    "\<And>i. map_of (ts_timers ts) i = (if i \<in> set ids then map_option (map_option start_callback) (map_of (ts_timers ?ts) i)
       else map_option (\<lambda>_. None) (map_of (ts_timers ?ts) i))"
    using StartTimers_Ok [OF k, of True] by auto
  have n: "timers_ok ts" using k(1) b(2,3) by (auto simp: timers_ok_def split: if_splits)
  have "fst ` set (ts_timers ts) = fst ` set (ts_timers ?ts)" using b(2) by (metis list.set_map)
  then have "node_timers_ok (with_timers s ts)" using n assms(1) by (simp add: node_timers_ok_def)
  moreover have c: "tm_callback (start_callback t') = tm_callback t'" for t' :: "tick timer"
    by (simp add: start_callback_def Timer_Start_def Timer_Reset_def)
  have "held (with_timers s ts) = held s |` set ids"
    using b(3) c by (auto simp: held_def restrict_map_def fun_eq_iff split: option.splits)
  moreover have "running (with_timers s ts) = held (with_timers s ts)"
    using b(3) by (auto simp: held_def running_def fun_eq_iff split: option.splits if_splits)
  ultimately show ?thesis using b(1) by (intro exI [of _ ts]) (simp add: on_timers_eq done_res_def)
qed

lemma stop_timers_Ok:
  assumes "node_timers_ok s" and "set ids \<subseteq> fst ` set (ts_timers states_timers)"
  shows "\<exists>ts. on_timers (StopTimers ids) s = (Ok None, with_timers s ts) \<and> node_timers_ok (with_timers s ts) \<and> held (with_timers s ts) = held s |` (- set ids)"
proof -
  let ?ts = "cp_timers (ss_priv s)"
  have k: "timers_ok ?ts" "set ids \<subseteq> fst ` set (ts_timers ?ts)" using assms by (auto simp: node_timers_ok_def)
  obtain ts where b: "Timers_stopTimers ids ?ts = (Ok (), ts)" using stopTimers_total [OF k(2)] by blast
  note t = stopTimers_Ok [OF b]
  have "fst ` set (ts_timers ts) = fst ` set (ts_timers ?ts)" using t(2) by (metis list.set_map)
  moreover have "timers_ok ts" using k(1) t(2,4) by (auto simp: timers_ok_def split: if_splits)
  ultimately have "node_timers_ok (with_timers s ts)" using assms(1) by (simp add: node_timers_ok_def)
  moreover have "held (with_timers s ts) = held s |` (- set ids)" using t(4) by (auto simp: held_def restrict_map_def fun_eq_iff)
  ultimately show ?thesis using b by (intro exI [of _ ts]) (simp add: on_timers_eq done_res_def StopTimers_def)
qed

text \<open>One timer is set, those of \<open>ids\<close> run, all others are gone.\<close>

lemma set_and_start_Ok:
  assumes "node_timers_ok s" and "set ids \<subseteq> fst ` set (ts_timers states_timers)" and "tm_id t \<in> set ids"
  shows "\<exists>ts. set_and_start t ids s = (Ok None, with_timers s ts) \<and> node_timers_ok (with_timers s ts) \<and>
    held (with_timers s ts) = (held s |` set ids)(tm_id t := tm_callback t) \<and> running (with_timers s ts) = held (with_timers s ts)"
proof -
  obtain ts1 where a: "on_timers (SetTimer t) s = (Ok None, with_timers s ts1)" "node_timers_ok (with_timers s ts1)"
    "held (with_timers s ts1) = (held s)(tm_id t := tm_callback t)" using set_timer_Ok [OF assms(1), of t] assms(2,3) by blast
  obtain ts2 where b: "on_timers (StartTimers ids True) (with_timers s ts1) = (Ok None, with_timers s ts2)" "node_timers_ok (with_timers s ts2)"
    "held (with_timers s ts2) = held (with_timers s ts1) |` set ids" "running (with_timers s ts2) = held (with_timers s ts2)"
    using start_timers_Ok [OF a(2) assms(2)] by auto
  have "held (with_timers s ts2) = (held s |` set ids)(tm_id t := tm_callback t)" using a(3) b(3) assms(3) by (auto simp: restrict_map_def fun_eq_iff)
  then show ?thesis using a(1) b(1,2,4) by (intro exI [of _ ts2]) (simp add: set_and_start_def obind_def)
qed

lemma NewBaseSeal_fact: "NewBaseSeal L now now' k ht f n bvp avp pk b = Ok blt \<Longrightarrow> Ballot_RawFact blt = Some f"
  by (auto simp: NewBaseSeal_def bind_res_Ok_iff Let_def Ballot_RawFact_def NewBaseSignedBallotFactFromFact_def NewBaseSignedBallotFact_def)

lemma new_fact_fields [simp]:
  "Fact_Height (NewINITFact L h r p) = h" "Fact_Round (NewINITFact L h r p) = r" "\<exists>x. Fact_Hash (NewINITFact L h r p) = Some x"
  "Fact_Height (NewACCEPTFact L h r p n) = h" "Fact_Round (NewACCEPTFact L h r p n) = r"
  by (simp_all add: NewINITFact_def NewACCEPTFact_def NewBaseFact_def Fact_Height_def Fact_Round_def Fact_Hash_def Let_def)

lemma next_from_INIT_fact:
  "next_from_INIT E vp avp s = Ok b \<Longrightarrow> vp_stage vp = StageINIT \<and> (\<exists>p. Ballot_RawFact b = Some (NewINITFact (ce_L E) (vp_height vp) (vp_round vp + 1) p))"
  by (auto simp: next_from_INIT_def NextINITBallotFromINITVoteproof_def NewINIT_def bind_res_Ok_iff dest!: NewBaseSeal_fact split: if_splits option.splits)

lemma next_from_ACCEPT_fact:
  assumes "next_from_ACCEPT E vp s = Ok b"
  shows "vp_majority vp = None \<Longrightarrow> \<exists>p. Ballot_RawFact b = Some (NewINITFact (ce_L E) (vp_height vp) (vp_round vp + 1) p)"
    and "vp_majority vp = Some (ACCEPTFact fb ph nb) \<Longrightarrow> Ballot_RawFact b = Some (NewINITFact (ce_L E) (i64 (vp_height vp + 1)) 0 nb)"
  using assms by (auto simp: next_from_ACCEPT_def NextINITBallotFromACCEPTVoteproof_def NewINIT_def bind_res_Ok_iff dest!: NewBaseSeal_fact split: if_splits option.splits)

section \<open>The next round\<close>


section \<open>The last voteproof stays\<close>

lemma same_lvps_refl [simp]: "same_lvps s s"
  by (simp add: same_lvps_def)

lemma obind_same:
  assumes "same_lvps s (snd x)" and "\<And>t. same_lvps s t \<Longrightarrow> same_lvps s (snd (f t))"
  shows "same_lvps s (snd (obind x f))"
  using assms by (auto simp: obind_def split: prod.splits res.splits option.splits)

lemma on_timers_same: "same_lvps s t \<Longrightarrow> same_lvps s (snd (on_timers f t))"
  by (simp add: on_timers_eq same_lvps_def)

lemma set_and_start_same: "same_lvps s t \<Longrightarrow> same_lvps s (snd (set_and_start tm ids t))"
  unfolding set_and_start_def by (intro obind_same on_timers_same)

lemma on_pps_same: "on_pps f t = (r, t') \<Longrightarrow> same_lvps s t \<Longrightarrow> same_lvps s t'"
  by (auto simp: on_pps_def same_lvps_def split: prod.splits)

lemma set_lib_same: "same_lvps s t \<Longrightarrow> same_lvps s (set_lib b t)"
  by (simp add: set_lib_def same_lvps_def)

lemma nextRound_same: "same_lvps s t \<Longrightarrow> same_lvps s (snd (nextRound E vp t))"
  unfolding nextRound_def by (auto split: res.splits intro: set_and_start_same)

lemma broadcastProposal_same: "same_lvps s t \<Longrightarrow> same_lvps s (snd (broadcastProposal p t))"
  unfolding broadcastProposal_def by (rule set_and_start_same)

lemma broadcastACCEPT_same: "same_lvps s t \<Longrightarrow> same_lvps s (snd (defaultBroadcastACCEPTBallot E nb ph vp d t))"
  unfolding defaultBroadcastACCEPTBallot_def by (auto split: res.splits intro: set_and_start_same)

lemma broadcastINIT_same: "same_lvps s t \<Longrightarrow> same_lvps s (snd (defaultBroadcastNewINITBallot E vp t))"
  unfolding defaultBroadcastNewINITBallot_def by (auto split: res.splits prod.splits intro!: set_and_start_same set_lib_same)

lemma nextRoundINIT_same: "broadcastNextRoundINITBallot E vp avp i t = (r, t') \<Longrightarrow> same_lvps s t \<Longrightarrow> same_lvps s t'"
  by (auto simp: broadcastNextRoundINITBallot_def intro: set_lib_same split: res.splits if_splits)

lemma whenProposalTimeout_same: "same_lvps s t \<Longrightarrow> same_lvps s (snd (whenProposalTimeout E vp pr t))"
  unfolding whenProposalTimeout_def by (auto split: prod.splits res.splits intro!: obind_same on_timers_same dest: nextRoundINIT_same)

lemma handleUnknown_same: "same_lvps s t \<Longrightarrow> same_lvps s (snd (handleUnknownINITVoteproof E v t))"
  unfolding handleUnknownINITVoteproof_def
  by (auto split: vproof.split option.split res.split bool.split prod.split intro!: set_and_start_same dest: nextRoundINIT_same)

lemma processProposal_same: "consensus_processProposal E p t = (r, t') \<Longrightarrow> same_lvps s t \<Longrightarrow> same_lvps s t'"
  unfolding consensus_processProposal_def
  by (auto simp: Let_def split: option.split_asm res.split_asm prod.split_asm if_split_asm dest: on_pps_same)

lemma ProcessProposal_same: "same_lvps s t \<Longrightarrow> same_lvps s (snd (consensus_ProcessProposal E p t))"
  unfolding consensus_ProcessProposal_def
  by (auto simp: Let_def split: option.split res.split prod.split intro!: obind_same broadcastProposal_same broadcastACCEPT_same dest: processProposal_same)

lemma prepareProposal_same: "defaultPrepareProposal E h r vp t = (x, t') \<Longrightarrow> same_lvps s t \<Longrightarrow> same_lvps s t'"
  unfolding defaultPrepareProposal_def
  by (auto simp: same_lvps_def Let_def split: option.split_asm res.split_asm prod.split_asm if_split_asm)

lemma newINIT_same: "same_lvps s t \<Longrightarrow> same_lvps s (snd (newINITVoteproof E v vp t))"
  unfolding newINITVoteproof_def
  by (auto split: option.split res.split prod.split intro!: obind_same on_timers_same handleUnknown_same ProcessProposal_same whenProposalTimeout_same
      dest: prepareProposal_same)

lemma proposalOfACCEPT_same: "processProposalOfACCEPTVoteproof E vp t = (r, t') \<Longrightarrow> same_lvps s t \<Longrightarrow> same_lvps s t'"
  unfolding processProposalOfACCEPTVoteproof_def
  by (auto split: option.split_asm ballot_fact.split_asm res.split_asm prod.split_asm if_split_asm bool.split_asm dest: processProposal_same)

lemma newACCEPT_same: "same_lvps s t \<Longrightarrow> same_lvps s (snd (newACCEPTVoteproof E v vp t))"
  unfolding newACCEPTVoteproof_def processACCEPTVoteproof_def
  by (auto simp: Let_def split: option.split res.split prod.split intro!: obind_same broadcastProposal_same broadcastINIT_same
      dest: proposalOfACCEPT_same on_pps_same)

lemmas state_same = nextRound_same newINIT_same newACCEPT_same ProcessProposal_same

lemma consensus_voteproof_same: "same_lvps s (snd (consensus_ProcessVoteproof E v s))"
  unfolding consensus_ProcessVoteproof_def by (auto split: res.splits intro!: state_same)

lemma joining_voteproof_same: "same_lvps s (snd (Joining_ProcessVoteproof v s))"
  unfolding Joining_ProcessVoteproof_def by (auto split: res.splits intro!: obind_same on_timers_same)

definition acting_states ::
  "('d, 'q) cenv \<Rightarrow> (string list \<Rightarrow> string list) \<Rightarrow> ('d \<Rightarrow> unit res \<times> 'd) \<Rightarrow> ('d, 'q) cstates implementations" where
  "acting_states E ord clean st =
     (case st of
        StateJoining \<Rightarrow> Some (JoiningState E)
      | StateConsensus \<Rightarrow> Some (ConsensusState E)
      | _ \<Rightarrow> resting_states (ce_L E) ord (ce_D E) clean st)"

lemma acting_states_cases:
  assumes "acting_states E ord clean st = Some i"
  shows "i = JoiningState E \<or> i = ConsensusState E \<or> resting_states (ce_L E) ord (ce_D E) clean st = Some i"
  using assms by (cases st) (auto simp: acting_states_def)

interpretation acting: keeps_voteproof "acting_states E ord clean" for E ord clean
proof unfold_locales
  fix st i v s r s'
  assume i: "acting_states E ord clean st = Some i" and p: "if_ProcessVoteproof i v s = (r, s')"
  have "same_lvps s (snd (if_ProcessVoteproof i v s))"
    using acting_states_cases [OF i] resting_states_process(1) [of "ce_L E" ord "ce_D E" clean st i v s] consensus_voteproof_same [of s E v] joining_voteproof_same [of s v]
    by (auto simp: JoiningState_def ConsensusState_def)
  then show "forward s s'" using p same_lvps_forward by simp
next
  fix st i p s r s'
  assume i: "acting_states E ord clean st = Some i" and p: "if_ProcessProposal i p s = (r, s')"
  have "same_lvps s (snd (if_ProcessProposal i p s))"
    using acting_states_cases [OF i] resting_states_process(2) [of "ce_L E" ord "ce_D E" clean st i p s] ProcessProposal_same [of s s E p]
    by (auto simp: JoiningState_def ConsensusState_def BaseState_def)
  then show "forward s s'" using p same_lvps_forward by simp
qed

text \<open>The ticks of the timers as steps of the node, too.\<close>

inductive acting_step :: "('d, 'q) cenv \<Rightarrow> (string list \<Rightarrow> string list) \<Rightarrow> ('d \<Rightarrow> unit res \<times> 'd) \<Rightarrow> ('d, 'q) cstates \<Rightarrow> ('d, 'q) cstates \<Rightarrow> bool"
  for E ord clean where
  acting_node: "node_step (ce_L E) (ce_D E) (acting_states E ord clean) s s' \<Longrightarrow> acting_step E ord clean s s'"
| acting_tick: "timer_tick E i finished ended s = (r, s') \<Longrightarrow> acting_step E ord clean s s'"

lemma broadcast_tick_same: "same_lvps s t \<Longrightarrow> same_lvps s (snd (broadcast_tick sign blt b i t))"
  by (auto simp: broadcast_tick_def BroadcastBallot_def States_broadcast_def same_lvps_def split: res.split option.split)

lemma checkBallotbox_same: "checkBallotbox t = (r, t') \<Longrightarrow> same_lvps s t \<Longrightarrow> same_lvps s t'"
  by (auto simp: checkBallotbox_def Let_def same_lvps_def States_NewVoteproof_def split: option.split_asm res.split_asm if_split_asm)

lemma run_tick_same: "run_tick E tk i s = (r, s') \<Longrightarrow> same_lvps s s'"
  using broadcast_tick_same [of s s] broadcast_tick_same [of s] checkBallotbox_same [of s _ _ s]
  by (cases tk) (auto simp: run_tick_def same_lvps_def States_NewProposal_def dest!: arg_cong [where f = snd] split: prod.split_asm res.split_asm option.split_asm)

lemma timer_tick_same:
  assumes "timer_tick E i finished ended s = (r, s')"
  shows "same_lvps s s'"
proof (cases "map_of (ts_timers (cp_timers (ss_priv s))) i")
  case (Some to)
  show ?thesis
  proof (cases to)
    case (Some t)
    obtain r1 t1 s1 where u: "Timer_turn (run_tick E) finished ended t s = (r1, t1, s1)" by (metis prod_cases3)
    then have "same_lvps s s1"
      by (auto simp: Timer_turn_def prepareCallback_def waitAndRun_def Let_def dest: run_tick_same split: if_split_asm option.split_asm prod.split_asm res.split_asm bool.split_asm)
    then show ?thesis using assms \<open>map_of _ i = Some to\<close> Some u by (auto simp: timer_tick_def same_lvps_def split: if_splits)
  qed (use assms Some in \<open>simp add: timer_tick_def\<close>)
qed (use assms in \<open>simp add: timer_tick_def\<close>)


section \<open>Answers to an INIT voteproof\<close>

lemma set_lib_simps [simp]:
  "ss_lvp (set_lib b s) = ss_lvp s" "ss_livp (set_lib b s) = ss_livp s" "ss_database (set_lib b s) = ss_database s" "ss_nodepool (set_lib b s) = ss_nodepool s"
  "ss_policy (set_lib b s) = ss_policy s" "held (set_lib b s) = held s" "node_timers_ok (set_lib b s) = node_timers_ok s"
  by (simp_all add: set_lib_def held_def fun_eq_iff node_timers_ok_def)

lemma findProposal_with_timers [simp]: "findProposal E h r a (with_timers s ts) = findProposal E h r a s"
  by (simp add: findProposal_def)

lemma next_from_INIT_cong:
  "ss_database t = ss_database s \<Longrightarrow> ss_nodepool t = ss_nodepool s \<Longrightarrow> ss_policy t = ss_policy s \<Longrightarrow> next_from_INIT E vp avp t = next_from_INIT E vp avp s"
  by (simp add: next_from_INIT_def)

text \<open>The timers of \<open>NewContextTimer\<close>, with or without an interval of their own.\<close>

lemma new_timer_fields [simp]:
  "tm_id (NewContextTimer i n c) = i" "tm_callback (NewContextTimer i n c) = Some c"
  "tm_id (Timer_SetInterval f t) = tm_id t" "tm_callback (Timer_SetInterval f t) = tm_callback t"
  by (simp_all add: NewContextTimer_def Timer_SetInterval_def)

lemma whenProposalTimeout_Ok:
  assumes "node_timers_ok s" and "vp_stage vp = StageINIT" and "next_from_INIT E vp None s = Ok b"
  shows "\<exists>s'. whenProposalTimeout E vp a s = (Ok None, s') \<and> node_timers_ok s' \<and> cp_lib (ss_priv s') = Some b \<and>
    running s' = (held s |` {TimerIDBroadcastProposal})
      (TimerIDBroadcastINITBallot \<mapsto> BallotTick (Some b), TimerIDFindProposal \<mapsto> FindTick (vp_height vp) (vp_round vp) a)"
proof -
  let ?t = "Timer_SetInterval (init_interval s (lp_timeoutWaitingProposal (ss_policy s))) (NewContextTimer TimerIDBroadcastINITBallot 0 (BallotTick (Some b)))"
  let ?f = "NewContextTimer TimerIDFindProposal Second (FindTick (vp_height vp) (vp_round vp) a)"
  let ?ids = "[TimerIDBroadcastINITBallot, TimerIDBroadcastProposal, TimerIDFindProposal]" and ?s = "set_lib b s"
  have "node_timers_ok ?s" using assms(1) by simp
  then obtain t1 where a: "on_timers (SetTimer ?t) ?s = (Ok None, with_timers ?s t1)" "node_timers_ok (with_timers ?s t1)"
    "held (with_timers ?s t1) = (held s)(TimerIDBroadcastINITBallot \<mapsto> BallotTick (Some b))" using set_timer_Ok [of ?s ?t] by auto
  obtain t2 where b: "on_timers (SetTimer ?f) (with_timers ?s t1) = (Ok None, with_timers ?s t2)" "node_timers_ok (with_timers ?s t2)"
    "held (with_timers ?s t2) = (held (with_timers ?s t1))(TimerIDFindProposal \<mapsto> FindTick (vp_height vp) (vp_round vp) a)"
    using set_timer_Ok [OF a(2), of ?f] by auto
  obtain t3 where c: "on_timers (StartTimers ?ids True) (with_timers ?s t2) = (Ok None, with_timers ?s t3)" "node_timers_ok (with_timers ?s t3)"
    "running (with_timers ?s t3) = held (with_timers ?s t2) |` set ?ids" using start_timers_Ok [OF b(2), of ?ids] by auto
  have "whenProposalTimeout E vp a s = (Ok None, with_timers ?s t3)"
    using assms(2,3) a(1) b(1) c(1) by (simp add: whenProposalTimeout_def broadcastNextRoundINITBallot_def obind_def)
  moreover have "running (with_timers ?s t3) = (held s |` {TimerIDBroadcastProposal})
      (TimerIDBroadcastINITBallot \<mapsto> BallotTick (Some b), TimerIDFindProposal \<mapsto> FindTick (vp_height vp) (vp_round vp) a)"
    unfolding c(3) b(3) a(3) by (auto simp: restrict_map_def fun_eq_iff timer_ids)
  ultimately show ?thesis using c(2) by (intro exI [of _ "with_timers ?s t3"]) (simp add: set_lib_def)
qed


section \<open>Answers to a proposal\<close>

lemma on_pps_keeps:
  assumes "on_pps f s = (r, t)"
  shows "held t = held s" "node_timers_ok t = node_timers_ok s" "ss_nodepool t = ss_nodepool s" "ss_policy t = ss_policy s" "cp_lib (ss_priv t) = cp_lib (ss_priv s)"
proof -
  obtain q d where "t = s\<lparr>ss_database := d, ss_priv := (ss_priv s)\<lparr>cp_pps := q\<rparr>\<rparr>" using assms by (auto simp: on_pps_def split: prod.splits)
  then show "held t = held s" "node_timers_ok t = node_timers_ok s" "ss_nodepool t = ss_nodepool s" "ss_policy t = ss_policy s"
    "cp_lib (ss_priv t) = cp_lib (ss_priv s)" by (simp_all add: held_def fun_eq_iff node_timers_ok_def)
qed

lemma broadcastProposal_Ok:
  assumes "node_timers_ok s"
  shows "\<exists>ts. broadcastProposal p s = (Ok None, with_timers s ts) \<and> node_timers_ok (with_timers s ts) \<and>
    held (with_timers s ts) = (held s |` {TimerIDBroadcastINITBallot, TimerIDBroadcastACCEPTBallot})(TimerIDBroadcastProposal \<mapsto> ProposalTick p)"
proof -
  let ?ids = "[TimerIDBroadcastProposal, TimerIDBroadcastINITBallot, TimerIDBroadcastACCEPTBallot]"
  let ?t = "Timer_SetInterval (\<lambda>i. if i < 1 then 1 else lp_intervalBroadcastingProposal (ss_policy s)) (NewContextTimer TimerIDBroadcastProposal 0 (ProposalTick p))"
  obtain ts where "set_and_start ?t ?ids s = (Ok None, with_timers s ts)" "node_timers_ok (with_timers s ts)"
    "held (with_timers s ts) = (held s |` set ?ids)(TimerIDBroadcastProposal \<mapsto> ProposalTick p)" using set_and_start_Ok [OF assms, of ?ids ?t] by auto
  moreover from this(3) have "held (with_timers s ts) = (held s |` {TimerIDBroadcastINITBallot, TimerIDBroadcastACCEPTBallot})(TimerIDBroadcastProposal \<mapsto> ProposalTick p)"
    by (auto simp: restrict_map_def fun_eq_iff)
  ultimately show ?thesis by (auto simp: broadcastProposal_def)
qed


text \<open>
  A proposal whose processing fails with an error that counts as ignored is broadcast and not answered; an error of the storage is such an error, it has the identity
  of \<open>IgnoreError\<close>.
\<close>

theorem ignored_proposal_unanswered:
  assumes "node_timers_ok s" and "bl_baseVoteproof p = Some pvp" and "bl_sfs p = Some sfs" and "ss_livp s = Some (VP lvp)"
    and "vp_height pvp = vp_height lvp" and "vp_round pvp = vp_round lvp"
    and "pps_NewProposal (ce_pps E) sfs lvp (cp_pps (ss_priv s), ss_database s) = (Ok \<lparr>pr_block = None, pr_err = Some (NError_Wrap PrepareFailedError (Errorf StorageError m))\<rparr>, q, d)"
  shows "\<exists>s'. consensus_ProcessProposal E p s = (Ok None, s') \<and>
    held s' = (held s |` {TimerIDBroadcastINITBallot, TimerIDBroadcastACCEPTBallot})(TimerIDBroadcastProposal \<mapsto> ProposalTick p)"
proof -
  obtain ts where a: "broadcastProposal p s = (Ok None, with_timers s ts)"
    "held (with_timers s ts) = (held s |` {TimerIDBroadcastINITBallot, TimerIDBroadcastACCEPTBallot})(TimerIDBroadcastProposal \<mapsto> ProposalTick p)"
    using broadcastProposal_Ok [OF assms(1)] by blast
  define s1 where "s1 = (with_timers s ts)\<lparr>ss_database := d, ss_priv := (ss_priv (with_timers s ts))\<lparr>cp_pps := q\<rparr>\<rparr>"
  have o: "on_pps (pps_NewProposal (ce_pps E) sfs lvp) (with_timers s ts) =
    (Ok \<lparr>pr_block = None, pr_err = Some (NError_Wrap PrepareFailedError (Errorf StorageError m))\<rparr>, s1)" using assms(7) by (simp add: on_pps_def s1_def)
  have "error_Is (NError_Wrap PrepareFailedError (Errorf StorageError m)) IgnoreError" by (simp add: err_defs NewError_def)
  then have "consensus_processProposal E p (with_timers s ts) = (Ok (None, None, False), s1)"
    using assms(2-6) o by (simp add: consensus_processProposal_def opt_base_def vproof_base_def)
  then show ?thesis using a on_pps_keeps(1) [OF o] by (simp add: consensus_ProcessProposal_def obind_def)
qed

section \<open>Answers to an ACCEPT voteproof\<close>

lemma proposal_of_accept:
  assumes "vp_majority vp = Some (ACCEPTFact fb (Some ph) nb)" and "0 < se_tries (ce_ev E)" and "db_Proposal (ce_D E) (ss_database s) ph = Ok (Some p, True)"
    and "pps_CurrentState (ce_pps E) ph (cp_pps (ss_priv s)) = Ok st" and "st \<in> {Preparing, Prepared, Saving, Saved}"
  shows "processProposalOfACCEPTVoteproof E vp s = (Ok (Some p, ph), s)"
proof -
  obtain n where "se_tries (ce_ev E) = Suc n" using assms(2) gr0_implies_Suc by blast
  then show ?thesis using assms by (simp add: processProposalOfACCEPTVoteproof_def of_hash_def being_processed_def)
qed

text \<open>The state between the proposal and the save, and what the save leaves.\<close>

lemma save_step:
  assumes "node_timers_ok s" and "pps_Save (ce_pps E) ph vp (cp_pps (ss_priv s), ss_database s) = (Ok result, q, d)"
  obtains s0 s1 where "broadcastProposal p s = (Ok None, s0)" "on_pps (pps_Save (ce_pps E) ph vp) s0 = (Ok result, s1)" "node_timers_ok s1" "ss_database s1 = d"
    "ss_nodepool s1 = ss_nodepool s" "ss_policy s1 = ss_policy s" "cp_lib (ss_priv s1) = cp_lib (ss_priv s)"
    "held s1 = (held s |` {TimerIDBroadcastINITBallot, TimerIDBroadcastACCEPTBallot})(TimerIDBroadcastProposal \<mapsto> ProposalTick p)"
proof -
  obtain ts where a: "broadcastProposal p s = (Ok None, with_timers s ts)" "node_timers_ok (with_timers s ts)"
    "held (with_timers s ts) = (held s |` {TimerIDBroadcastINITBallot, TimerIDBroadcastACCEPTBallot})(TimerIDBroadcastProposal \<mapsto> ProposalTick p)"
    using broadcastProposal_Ok [OF assms(1)] by blast
  define s1 where "s1 = (with_timers s ts)\<lparr>ss_database := d, ss_priv := (ss_priv (with_timers s ts))\<lparr>cp_pps := q\<rparr>\<rparr>"
  have o: "on_pps (pps_Save (ce_pps E) ph vp) (with_timers s ts) = (Ok result, s1)" using assms(2) by (simp add: on_pps_def s1_def)
  note k = on_pps_keeps [OF o]
  show thesis by (rule that [OF a(1) o]) (use k a(2,3) in \<open>simp_all add: s1_def\<close>)
qed

lemma next_from_ACCEPT_cong:
  "ss_database t = d \<Longrightarrow> ss_nodepool t = ss_nodepool s \<Longrightarrow> ss_policy t = ss_policy s \<Longrightarrow> next_from_ACCEPT E vp t = next_from_ACCEPT E vp (s\<lparr>ss_database := d\<rparr>)"
  by (simp add: next_from_ACCEPT_def)

lemma start_INIT:
  assumes "node_timers_ok t" and "held t = H" and "ss_database t = d"
  shows "\<exists>s'. set_and_start (NewContextTimer TimerIDBroadcastINITBallot n (BallotTick (Some l)))
      [TimerIDBroadcastINITBallot, TimerIDBroadcastProposal, TimerIDBroadcastACCEPTBallot] t = (Ok None, s') \<and> node_timers_ok s' \<and> ss_database s' = d \<and>
    running s' = (H |` {TimerIDBroadcastProposal, TimerIDBroadcastACCEPTBallot})(TimerIDBroadcastINITBallot \<mapsto> BallotTick (Some l))"
proof -
  let ?ids = "[TimerIDBroadcastINITBallot, TimerIDBroadcastProposal, TimerIDBroadcastACCEPTBallot]"
  obtain ts where ts: "set_and_start (NewContextTimer TimerIDBroadcastINITBallot n (BallotTick (Some l))) ?ids t = (Ok None, with_timers t ts)"
    "node_timers_ok (with_timers t ts)" "running (with_timers t ts) = (held t |` set ?ids)(TimerIDBroadcastINITBallot \<mapsto> BallotTick (Some l))"
    using set_and_start_Ok [OF assms(1), of ?ids "NewContextTimer TimerIDBroadcastINITBallot n (BallotTick (Some l))"] by auto
  moreover have "(held t |` set ?ids)(TimerIDBroadcastINITBallot \<mapsto> BallotTick (Some l)) =
      (H |` {TimerIDBroadcastProposal, TimerIDBroadcastACCEPTBallot})(TimerIDBroadcastINITBallot \<mapsto> BallotTick (Some l))"
    unfolding assms(2) by (auto simp: restrict_map_def fun_eq_iff)
  ultimately show ?thesis using assms(3) by auto
qed

lemma broadcastINIT_Ok:
  assumes "node_timers_ok s" and "vp_stage vp = StageACCEPT" and "vp_majority vp = Some (ACCEPTFact fb ph nb)" and "next_from_ACCEPT E vp s = Ok b"
    and "\<forall>l. cp_lib (ss_priv s) = Some l \<longrightarrow> (\<exists>f x. Ballot_RawFact l = Some f \<and> Fact_Hash f = Some x)"
  shows "\<exists>s' l f x y. defaultBroadcastNewINITBallot E vp s = (Ok None, s') \<and> node_timers_ok s' \<and> ss_database s' = ss_database s \<and>
    running s' = (held s |` {TimerIDBroadcastProposal, TimerIDBroadcastACCEPTBallot})(TimerIDBroadcastINITBallot \<mapsto> BallotTick (Some l)) \<and>
    Ballot_RawFact l = Some f \<and> Fact_Hash f = Some x \<and> Fact_Hash (NewINITFact (ce_L E) (i64 (vp_height vp + 1)) 0 nb) = Some y \<and> Hash_Equal x y"
proof -
  let ?f = "NewINITFact (ce_L E) (i64 (vp_height vp + 1)) 0 nb"
  obtain y where y: "Fact_Hash ?f = Some y" using new_fact_fields(3) by blast
  have rf: "Ballot_RawFact b = Some ?f" by (rule next_from_ACCEPT_fact(2) [OF assms(4,3)])
  let ?ids = "[TimerIDBroadcastINITBallot, TimerIDBroadcastProposal, TimerIDBroadcastACCEPTBallot]"
  note fin = start_INIT [where d = "ss_database s" and H = "held s" and n = "lp_intervalBroadcastingINITBallot (ss_policy s)"]
  show ?thesis
  proof (cases "\<exists>l f x. cp_lib (ss_priv s) = Some l \<and> Ballot_RawFact l = Some f \<and> Fact_Hash f = Some x \<and> Hash_Equal x y")
    case True
    then obtain l f x where l: "cp_lib (ss_priv s) = Some l" "Ballot_RawFact l = Some f" "Fact_Hash f = Some x" "Hash_Equal x y" by blast
    then have "defaultBroadcastNewINITBallot E vp s =
        set_and_start (NewContextTimer TimerIDBroadcastINITBallot (lp_intervalBroadcastingINITBallot (ss_policy s)) (BallotTick (Some l))) ?ids s"
      using assms(2,4) rf y by (simp add: defaultBroadcastNewINITBallot_def of_hash_def)
    then show ?thesis using fin [of s l] assms(1) l y by auto
  next
    case False
    then have "defaultBroadcastNewINITBallot E vp s =
        set_and_start (NewContextTimer TimerIDBroadcastINITBallot (lp_intervalBroadcastingINITBallot (ss_policy s)) (BallotTick (Some b))) ?ids (set_lib b s)"
      using assms(2,4,5) rf y by (cases "cp_lib (ss_priv s)") (auto simp: defaultBroadcastNewINITBallot_def of_hash_def)
    moreover have "Hash_Equal y y" by (simp add: Hash_Equal_def)
    ultimately show ?thesis using fin [of "set_lib b s" b] assms(1) rf y by auto
  qed
qed


text \<open>
  A block that cannot be saved sends the node to syncing, with the voteproof and the error; no INIT ballot of the next height is broadcast.
\<close>

theorem failed_save_syncs:
  assumes "node_timers_ok s" and "vproof_base v = Ok vp" and "vp_result vp \<noteq> VoteResultDraw" and "vp_stage vp = StageACCEPT"
    and "vp_majority vp = Some (ACCEPTFact fb (Some ph) nb)" and "0 < se_tries (ce_ev E)" and "db_Proposal (ce_D E) (ss_database s) ph = Ok (Some p, True)"
    and "pps_CurrentState (ce_pps E) ph (cp_pps (ss_priv s)) = Ok st" and "st \<in> {Preparing, Prepared, Saving, Saved}"
    and "pps_Save (ce_pps E) ph vp (cp_pps (ss_priv s), ss_database s) = (Ok \<lparr>pr_block = blk, pr_err = Some e\<rparr>, q, d)"
  shows "\<exists>s'. consensus_ProcessVoteproof E v s =
      (Ok (Some \<lparr>sc_to = StateSyncing, sc_from = StateConsensus, sc_voteproof = Some v, sc_err = Some e, sc_ae = False\<rparr>), s') \<and>
    ss_database s' = d \<and> cp_lib (ss_priv s') = cp_lib (ss_priv s) \<and>
    held s' = (held s |` {TimerIDBroadcastINITBallot, TimerIDBroadcastACCEPTBallot})(TimerIDBroadcastProposal \<mapsto> ProposalTick p)"
proof -
  obtain s0 s1 where s: "broadcastProposal p s = (Ok None, s0)" "on_pps (pps_Save (ce_pps E) ph vp) s0 = (Ok \<lparr>pr_block = blk, pr_err = Some e\<rparr>, s1)"
    "ss_database s1 = d" "cp_lib (ss_priv s1) = cp_lib (ss_priv s)"
    "held s1 = (held s |` {TimerIDBroadcastINITBallot, TimerIDBroadcastACCEPTBallot})(TimerIDBroadcastProposal \<mapsto> ProposalTick p)"
    by (rule save_step [OF assms(1,10), where p = p])
  have "processACCEPTVoteproof E v vp s =
      (Ok (Some \<lparr>sc_to = StateSyncing, sc_from = StateConsensus, sc_voteproof = Some v, sc_err = Some e, sc_ae = False\<rparr>), s1)"
    using proposal_of_accept [OF assms(5-9)] s(1,2)
    by (simp add: processACCEPTVoteproof_def obind_def sctx_SetError_def sctx_SetVoteproof_def NewStateSwitchContext_def)
  then show ?thesis using assms(2-4) s(3-5) by (simp add: consensus_ProcessVoteproof_def newACCEPTVoteproof_def obind_def)
qed

section \<open>What a broadcasting timer sends\<close>

fun timer_ticks :: "('d, 'q) cenv \<Rightarrow> timer_id \<Rightarrow> nat \<Rightarrow> ('d, 'q) cstates \<Rightarrow> unit res \<times> ('d, 'q) cstates" where
  "timer_ticks E i 0 s = (Ok (), s)"
| "timer_ticks E i (Suc n) s = (case timer_ticks E i n s of (Ok _, s) \<Rightarrow> timer_tick E i False False s | r \<Rightarrow> r)"

text \<open>
  C10: a timer with a ballot sends it once at every turn of its intervals, the ballot as it was set: to the other nodes each time, to the node itself the first time only. It
  does not stop by itself.
\<close>

theorem timer_sends_ballot:
  assumes "map_of (ts_timers (cp_timers (ss_priv s))) i = Some (Some t)" and "tm_started t" and "tm_c t = 0"
    and "tm_callback t = Some (BallotTick (Some b))" and "tm_interval t = Some f" and "\<forall>k. 1 \<le> f k" and "signBallotWithFact E (Some b) s \<noteq> Panic"
  shows "\<exists>s'. timer_ticks E i n s = (Ok (), s') \<and> map_of (ts_timers (cp_timers (ss_priv s'))) i = Some (Some (t\<lparr>tm_c := n\<rparr>)) \<and>
    ss_outbox s' = ss_outbox s @ replicate n (SBallot b) \<and> ss_sealch s' = ss_sealch s @ replicate (min n 1) (SBallot b) \<and>
    ss_nodepool s' = ss_nodepool s \<and> ss_policy s' = ss_policy s"
proof (induction n)
  case 0
  then show ?case using assms(1,3) by simp
next
  case (Suc n)
  then obtain s' where s': "timer_ticks E i n s = (Ok (), s')" "map_of (ts_timers (cp_timers (ss_priv s'))) i = Some (Some (t\<lparr>tm_c := n\<rparr>))"
    "ss_outbox s' = ss_outbox s @ replicate n (SBallot b)" "ss_sealch s' = ss_sealch s @ replicate (min n 1) (SBallot b)"
    "ss_nodepool s' = ss_nodepool s" "ss_policy s' = ss_policy s" by blast
  have "signBallotWithFact E (Some b) s' \<noteq> Panic" using assms(7) s'(5,6) by (simp add: signBallotWithFact_def)
  then have r: "run_tick E (BallotTick (Some b)) n s' = (Ok True, BroadcastBallot b (n = 0) s')" by (auto simp: run_tick_def broadcast_tick_def split: res.split)
  have "\<not> f n < 1" using assms(6) by (simp add: not_less)
  then have "Timer_turn (run_tick E) False False (t\<lparr>tm_c := n\<rparr>) s' = (Ok (), t\<lparr>tm_c := Suc n\<rparr>, BroadcastBallot b (n = 0) s')"
    using assms(4,5) r by (simp add: Timer_turn_def prepareCallback_def waitAndRun_def finishCallback_def)
  moreover have "replicate n x @ [x] = replicate (Suc n) x" for x :: seal by (metis replicate_append_same replicate_Suc)
  ultimately show ?case using s' assms(2)
    by (cases n) (auto simp: timer_tick_def BroadcastBallot_def States_broadcast_def update_conv')
qed

section \<open>Small flaws\<close>

text \<open>The voteproof that \<open>checkBallotboxFunc\<close> remembers is the first one it reported: a later one is reported at every look.\<close>

theorem joining_reports_again:
  assumes "bb_latestBallot (ss_ballotbox s) = Some i" and "bl_baseVoteproof i = Some vp" and "vproof_Compare (Some (VP vp)) (ss_lvp s) = Ok c" and "1 \<le> c"
    and "cp_last (ss_priv s) = Some l" and "vproof_Compare (Some (VP vp)) (Some (VP l)) = Ok c'" and "1 \<le> c'"
  shows "checkBallotbox s = (Ok (), States_NewVoteproof (VP vp) s) \<and> cp_last (ss_priv (States_NewVoteproof (VP vp) s)) = Some l"
  using assms by (simp add: checkBallotbox_def States_NewVoteproof_def)

text \<open>A timer whose first interval is zero, like the one of the ACCEPT ballot when processing took exactly the time to wait, ends without having run.\<close>

theorem zero_interval_ends:
  assumes "tm_interval t = Some f" and "f (tm_c t) = 0" and "tm_callback t = Some c"
  shows "Timer_turn run False ended t s = (Ok (), t\<lparr>tm_started := False\<rparr>, s)"
  using assms by (simp add: Timer_turn_def prepareCallback_def)

section \<open>Witnesses\<close>

definition sample_init :: "vote_result \<Rightarrow> voteproof" where
  "sample_init r = (NewVoteproofV0 34 1 [] 67 StageINIT)\<lparr>vp_result := r\<rparr>"

lemma sample_init_fields [simp]:
  "vp_stage (sample_init r) = StageINIT" "vp_height (sample_init r) = 34" "vp_round (sample_init r) = 1" "vp_result (sample_init r) = r" "vp_majority (sample_init r) = None"
  by (simp_all add: sample_init_def NewVoteproofV0_def)

definition sample_cdb :: "(alist_store database, maker_state) storage_db" where
  "sample_cdb = leveldb_storage\<lparr>db_Voteproof := (\<lambda>_ _ _. Ok None), db_ManifestByHeight := (\<lambda>_ h. Ok (Some (bk_manifest (blk_of h)), True))\<rparr>"

definition sample_pps :: "goerr option \<Rightarrow> (alist_store database, unit) pps_if" where
  "sample_pps e = \<lparr>pps_NewProposal = (\<lambda>_ _ x. (Ok \<lparr>pr_block = Some (blk_of 34), pr_err = None\<rparr>, x)),
     pps_Save = (\<lambda>_ _ x. (Ok \<lparr>pr_block = Some (blk_of 34), pr_err = e\<rparr>, x)), pps_CurrentState = (\<lambda>_ _. Ok Prepared)\<rparr>"

definition sample_cproposal :: ballot where
  "sample_cproposal = \<lparr>bl_kind = KProposal, bl_seal = NewBaseSealWithHint ProposalHint, bl_sfs = Some sample_sfs, bl_baseVoteproof = Some (sample_init VoteResultMajority), bl_acceptVoteproof = None\<rparr>"

definition sample_cenv :: "goerr option \<Rightarrow> (alist_store database, unit) cenv" where
  "sample_cenv e = \<lparr>ce_L = sample_lib, ce_ev = sample_senv, ce_D = sample_cdb\<lparr>db_Proposal := (\<lambda>_ _. Ok (Some sample_cproposal, True))\<rparr>,
     ce_ProposalByPoint = (\<lambda>_ _ _ _. Ok (None, False)),
     ce_pps = sample_pps e, ce_random = NewBytes [99], ce_elapsed = 0, ce_NewBlocks = (\<lambda>_. Ok ())\<rparr>"

definition sample_cstate :: "(alist_store database, unit) cstates" where
  "sample_cstate =
     \<lparr>ss_database = sample_db [], ss_policy = NewLocalPolicy [1], ss_nodepool = sample_nodepool,
      ss_suffrage = no_suffrage\<lparr>su_Acting := (\<lambda>h r. Ok \<lparr>as_height = h, as_round = r, as_proposer = NewStringAddress ''node1'', as_nodes = {}, as_nodeList = []\<rparr>)\<rparr>,
      ss_state = StateConsensus, ss_statech = [], ss_voteproofch = [], ss_proposalch = [], ss_ballotbox = NewBallotbox, ss_lvp = None,
      ss_livp = Some (VP (sample_init VoteResultMajority)), ss_isNoneSuffrageNode = False, ss_hd = None, ss_exiting = (\<lambda>_. False), ss_outbox = [], ss_sealch = [],
      ss_priv = \<lparr>cp_timers = states_timers, cp_lib = None, cp_last = None, cp_maker = None, cp_pps = ()\<rparr>\<rparr>"

definition agreed_accept :: voteproof where
  "agreed_accept = (NewVoteproofV0 34 1 [] 67 StageACCEPT)\<lparr>vp_result := VoteResultMajority,
     vp_majority := Some (NewACCEPTFact sample_lib 34 1 (Some (NewBytes [7])) (Some (NewBytes [44])))\<rparr>"

lemma sample_cstate_ok: "node_timers_ok sample_cstate"
  by (simp add: node_timers_ok_def sample_cstate_def states_timers_def NewTimers_ok)

lemma sample_held: "held sample_cstate = Map.empty"
proof
  fix i
  have "map_of (ts_timers (states_timers :: tick timers)) i \<noteq> Some (Some t)" for t
    unfolding states_timers_def NewTimers_def by (auto dest!: map_of_SomeD simp del: remdups.simps)
  moreover have "cp_timers (ss_priv sample_cstate) = states_timers" by (simp add: sample_cstate_def)
  ultimately show "held sample_cstate i = None" by (auto simp: held_def split: option.split)
qed

lemma sample_node: "np_local sample_nodepool = sample_local" "nd_address sample_local = Some (NewStringAddress ''node0'')"
  "ln_privatekey sample_local = newBasePrivatekey sample_lib [1]" "local_address sample_nodepool = NewStringAddress ''node0''"
  by code_simp+

lemma sample_seal:
  assumes "Fact_IsValid sample_lib f = Ok ()" and "opt_vp_bytes sample_lib bvp = Ok bb"
  shows "\<exists>sl. NewBaseSeal sample_lib now now' kind ht f (NewStringAddress ''node0'') bvp None (newBasePrivatekey sample_lib [1]) [1] = Ok sl"
  by (rule NewBaseSeal_made [OF assms(1) _ assms(2)]) (simp_all add: opt_vp_bytes_def sample_lib_def)

lemma sample_bytes: "\<exists>b. opt_vp_bytes sample_lib (Some (sample_init r)) = Ok b" "\<exists>b. opt_vp_bytes sample_lib (Some agreed_accept) = Ok b"
  by (simp_all add: opt_vp_bytes_def Voteproof_Bytes_def Voteproof_factsBytes_def Voteproof_votesBytes_def sample_init_def NewVoteproofV0_def
      agreed_accept_def NewACCEPTFact_def NewBaseFact_def Fact_Hash_def Let_def of_hash_def)

lemma sample_facts:
  "Fact_IsValid sample_lib (NewINITFact sample_lib 34 2 (Some (NewBytes [43]))) = Ok ()"
  "Fact_IsValid sample_lib (NewINITFact sample_lib 35 0 (Some (NewBytes [44]))) = Ok ()"
  "Fact_IsValid sample_lib (NewACCEPTFact sample_lib 34 1 (Some (NewBytes [7])) (Some (NewBytes [44]))) = Ok ()"
proof -
  have s: "semver_IsValid sample_lib ''v0.0.1''" by code_simp
  show "Fact_IsValid sample_lib (NewINITFact sample_lib 34 2 (Some (NewBytes [43]))) = Ok ()"
    "Fact_IsValid sample_lib (NewINITFact sample_lib 35 0 (Some (NewBytes [44]))) = Ok ()"
    "Fact_IsValid sample_lib (NewACCEPTFact sample_lib 34 1 (Some (NewBytes [7])) (Some (NewBytes [44]))) = Ok ()"
    by (rule Fact_IsValid_new [OF s sample_sha3_shape]; simp add: maxBytesHashSize_def NewBytes_def)+
qed

lemma sample_parts:
  "ce_L (sample_cenv e) = sample_lib" "now_of (sample_cenv e) = 1000" "ss_database sample_cstate = sample_db []" "ss_nodepool sample_cstate = sample_nodepool"
  "ss_policy sample_cstate = NewLocalPolicy [1]" "lp_networkID (NewLocalPolicy [1]) = [1]" "cp_lib (ss_priv sample_cstate) = None"
  "ss_livp sample_cstate = Some (VP (sample_init VoteResultMajority))" "db_Voteproof (ce_D (sample_cenv e)) d h st = Ok None"
  "db_ManifestByHeight (ce_D (sample_cenv e)) d h = Ok (Some (bk_manifest (blk_of h)), True)" "db_Proposal (ce_D (sample_cenv e)) d ph = Ok (Some sample_cproposal, True)"
  "mf_h (bk_manifest (blk_of i)) = Some (NewBytes [of_int i + 10])" "ce_NewBlocks (sample_cenv e) bs = Ok ()"
  "ce_pps (sample_cenv e) = sample_pps e" "se_tries (ce_ev (sample_cenv e)) = 3" "ce_ProposalByPoint (sample_cenv e) d h ro a = Ok (None, False)"
  by (simp_all add: sample_cenv_def now_of_def sample_senv_def sample_cstate_def NewLocalPolicy_def sample_cdb_def blk_of_def)

lemma sample_next_INIT:
  assumes "r \<noteq> VoteResultNotYet"
  shows "\<exists>b. next_from_INIT (sample_cenv e) (sample_init r) None sample_cstate = Ok b"
proof -
  obtain bb where "opt_vp_bytes sample_lib (Some (sample_init r)) = Ok bb" using sample_bytes(1) by blast
  from sample_seal [OF sample_facts(1) this, of 1000 1000 KINIT INITHint] assms show ?thesis
    by (simp add: next_from_INIT_def sample_parts NextINITBallotFromINITVoteproof_def Voteproof_IsFinished_def
        accept_voteproof_at_def manifest_hash_at_def sample_node NewINIT_def i64_id is_i64_def)
qed

lemma agreed_accept_fields:
  "vp_stage agreed_accept = StageACCEPT" "vp_result agreed_accept = VoteResultMajority" "vp_height agreed_accept = 34" "vp_round agreed_accept = 1"
  "\<exists>fb. vp_majority agreed_accept = Some (ACCEPTFact fb (Some (NewBytes [7])) (Some (NewBytes [44])))"
  by (simp_all add: agreed_accept_def NewVoteproofV0_def NewACCEPTFact_def Let_def)

lemma sample_next_ACCEPT: "\<exists>b. next_from_ACCEPT (sample_cenv e) agreed_accept (sample_cstate\<lparr>ss_database := sample_db []\<rparr>) = Ok b"
proof -
  obtain fb where m: "vp_majority agreed_accept = Some (ACCEPTFact fb (Some (NewBytes [7])) (Some (NewBytes [44])))" using agreed_accept_fields(5) by blast
  obtain bb where "opt_vp_bytes sample_lib (Some agreed_accept) = Ok bb" using sample_bytes(2) by blast
  from sample_seal [OF sample_facts(2) this, of 1000 1000 KINIT INITHint] show ?thesis
    by (simp add: next_from_ACCEPT_def sample_parts NextINITBallotFromACCEPTVoteproof_def agreed_accept_fields(1-4) m Voteproof_IsFinished_def
        sample_node NewINIT_def i64_id is_i64_def)
qed





lemma sample_accept:
  "vproof_base (VP agreed_accept) = Ok agreed_accept" "vp_result agreed_accept \<noteq> VoteResultDraw" "0 < se_tries (ce_ev (sample_cenv e))"
  "pps_CurrentState (ce_pps (sample_cenv e)) ph q = Ok Prepared" "Prepared \<in> {Preparing, Prepared, Saving, Saved}"
  "pps_Save (ce_pps (sample_cenv e)) ph vp (cp_pps (ss_priv sample_cstate), ss_database sample_cstate) = (Ok \<lparr>pr_block = Some (blk_of 34), pr_err = e\<rparr>, (), sample_db [])"
  by (simp_all add: vproof_base_def agreed_accept_fields sample_parts sample_pps_def)


theorem failed_save_syncs_witness:
  "\<exists>s'. consensus_ProcessVoteproof (sample_cenv (Some (plain ''full''))) (VP agreed_accept) sample_cstate =
     (Ok (Some \<lparr>sc_to = StateSyncing, sc_from = StateConsensus, sc_voteproof = Some (VP agreed_accept), sc_err = Some (plain ''full''), sc_ae = False\<rparr>), s')"
proof -
  obtain fb where m: "vp_majority agreed_accept = Some (ACCEPTFact fb (Some (NewBytes [7])) (Some (NewBytes [44])))" using agreed_accept_fields(5) by blast
  from failed_save_syncs [OF sample_cstate_ok sample_accept(1,2) agreed_accept_fields(1) m sample_accept(3) sample_parts(11) sample_accept(4-6)]
  show ?thesis by blast
qed

definition sample_cballot :: ballot where
  "sample_cballot = \<lparr>bl_kind = KINIT, bl_seal = NewBaseSealWithHint INITHint, bl_sfs = Some (NewBaseSignedBallotFact (Some (NewINITFact sample_lib 34 2 (Some (NewBytes [43])))) None),
     bl_baseVoteproof = Some (sample_init VoteResultDraw), bl_acceptVoteproof = None\<rparr>"

lemma sample_cballot_signed: "signBallotWithFact (sample_cenv e) (Some sample_cballot) (sample_cstate\<lparr>ss_priv := q\<rparr>) \<noteq> Panic"
proof -
  have "\<forall>m. \<exists>s. Privatekey_Sign sample_lib (newBasePrivatekey sample_lib [1]) m = Ok s"
    by (simp add: Privatekey_Sign_def newBasePrivatekey_def Let_def sample_lib_def)
  then obtain g where sign: "\<And>m. Privatekey_Sign sample_lib (newBasePrivatekey sample_lib [1]) m = Ok (g m)" by metis
  obtain f h where f: "NewINITFact sample_lib 34 2 (Some (NewBytes [43])) = f" "Fact_Hash f = Some h" by (simp add: NewINITFact_def Fact_Hash_def Let_def)
  obtain sfs where "NewBaseSignedBallotFactFromFact sample_lib 1000 f (NewStringAddress ''node0'') (newBasePrivatekey sample_lib [1]) [1] = Ok sfs"
    using f(2) by (simp add: NewBaseSignedBallotFactFromFact_def NewBaseBallotFactSignFromFact_def sign)
  moreover obtain sl where "Seal_Sign sample_lib 1000 (NewBaseSealWithHint INITHint) (newBasePrivatekey sample_lib [1]) [1] = Ok sl"
    by (simp add: sign Seal_Sign_def Seal_Sign_with_def Seal_GenerateBodyHash_def Seal_defaultGenerateBodyHash_def NewBaseSealWithHint_def Seal_BodyBytes_def
        Seal_GenerateHash_def of_hash_def Let_def)
  ultimately have "\<exists>b. BallotSeal_SignWithFact sample_lib 1000 1000 sample_cballot (NewStringAddress ''node0'') (newBasePrivatekey sample_lib [1]) [1] = Ok b"
    by (simp add: BallotSeal_SignWithFact_def sample_cballot_def NewBaseSignedBallotFact_def f(1))
  then obtain b where "BallotSeal_SignWithFact sample_lib 1000 1000 sample_cballot (NewStringAddress ''node0'') (newBasePrivatekey sample_lib [1]) [1] = Ok b" by blast
  then show ?thesis by (simp add: signBallotWithFact_def sample_parts sample_node)
qed

theorem timer_sends_ballot_witness:
  "\<exists>s'. timer_ticks (sample_cenv None) TimerIDBroadcastINITBallot 3 (sample_cstate\<lparr>ss_priv := (ss_priv sample_cstate)\<lparr>cp_timers :=
       \<lparr>ts_timers = [(TimerIDBroadcastINITBallot, Some ((NewContextTimer TimerIDBroadcastINITBallot 5 (BallotTick (Some sample_cballot)))\<lparr>tm_started := True\<rparr>))], ts_allowNew = False\<rparr>\<rparr>\<rparr>) = (Ok (), s') \<and>
     ss_outbox s' = [SBallot sample_cballot, SBallot sample_cballot, SBallot sample_cballot] \<and> ss_sealch s' = [SBallot sample_cballot]"
proof -
  let ?t = "(NewContextTimer TimerIDBroadcastINITBallot 5 (BallotTick (Some sample_cballot)))\<lparr>tm_started := True\<rparr>"
  let ?s = "sample_cstate\<lparr>ss_priv := (ss_priv sample_cstate)\<lparr>cp_timers := \<lparr>ts_timers = [(TimerIDBroadcastINITBallot, Some ?t)], ts_allowNew = False\<rparr>\<rparr>\<rparr>"
  have t: "map_of (ts_timers (cp_timers (ss_priv ?s))) TimerIDBroadcastINITBallot = Some (Some ?t)" by simp
  have c: "tm_started ?t" "tm_c ?t = 0" "tm_callback ?t = Some (BallotTick (Some sample_cballot))" "tm_interval ?t = Some (\<lambda>_. 5)" by (simp_all add: NewContextTimer_def)
  have f: "\<forall>k. (1 :: int) \<le> (\<lambda>_. 5) (k :: nat)" by simp
  have o: "ss_outbox ?s = []" "ss_sealch ?s = []" by (simp_all add: sample_cstate_def)
  from timer_sends_ballot [OF t c f sample_cballot_signed [of None], of 3] show ?thesis unfolding o by (auto simp: numeral_3_eq_3)
qed

end
