(* ===== verification/Spec2Isabelle.thy ===== *)
theory Spec2Isabelle
  imports Mitum_BlockStore Mitum_Consensus
begin

text \<open>
  \<^bold>\<open>Mitum: the consensus core, its data and its storage.\<close>

  Mitum is a blockchain node in Go. Nodes of a fixed suffrage exchange signed ballots for a height and a round, in the stages INIT,
  PROPOSAL and ACCEPT; a ballot box counts them, and a threshold of votes becomes a voteproof that moves the node to its next step. A block
  collects the operations of a proposal, the states they produce, two hash trees over them and the voteproofs; it is stored in a database.

  \<^bold>\<open>Parts, theories and code\<close> (paths under \<open>src/\<close>)

  \<^item> \<open>Mitum_Prelude\<close>: results with error values and panics (\<open>res\<close>), the identity and the wrapping of errors of \<open>util/error.go\<close>, the validation
    combinators of \<open>util/isvalid\<close> and the checker chain of \<open>util/checker.go\<close>; generic lemmas.
  \<^item> \<open>Mitum_Bytes\<close>, \<open>Mitum_Double\<close>: the byte encodings of \<open>util/int.go\<close> and others; IEEE double arithmetic as far as \<open>base/threshold.go\<close> uses it.
  \<^item> \<open>Mitum_Lib\<close>: the third-party functions (SHA3, base58, ECDSA, regular time formatting) as one record \<open>lib\<close> of parameters, with the
    documented behaviour as named predicates and an instance that satisfies them; the value hashes of \<open>util/valuehash\<close>.
  \<^item> \<open>Mitum_Vote\<close>: stages, results, heights, rounds, thresholds and majority counting (\<open>base/threshold.go\<close>, \<open>base/votecount.go\<close>).
  \<^item> \<open>Mitum_Hint\<close>, \<open>Mitum_Key\<close>, \<open>Mitum_Address\<close>: type hints and their registry, keys and signatures, addresses and suffrages.
  \<^item> \<open>Mitum_Fact\<close>, \<open>Mitum_Voteproof\<close>, \<open>Mitum_Ballot\<close>: ballot facts and their signatures, voteproofs, seals and the three ballots
    (\<open>base/ballot\<close>, \<open>base/voteproof_v0.go\<close>, \<open>base/seal\<close>).
  \<^item> \<open>Mitum_VoteRecords\<close>, \<open>Mitum_Ballotbox\<close>: the vote counting of \<open>isaac/voterecords.go\<close> and \<open>isaac/ballotbox.go\<close> as state machines.
  \<^item> \<open>Mitum_FixedTree\<close>: the hash tree of \<open>util/tree/fixedtree.go\<close>, its generator and its proofs.
  \<^item> \<open>Mitum_Operation\<close>, \<open>Mitum_State\<close>, \<open>Mitum_Block\<close>: operations and operation seals, states, state updaters and the state pool
    (\<open>storage/statepool.go\<close>), manifests, blocks, block data maps and the manifest checker (\<open>isaac/block_checker.go\<close>).
  \<^item> \<open>Mitum_Leveldb\<close>, \<open>Mitum_Database\<close>, \<open>Mitum_BlockStore\<close>: the database of \<open>storage/leveldb\<close>, over the key-value store as a parameter; its queue of
    staged operations and its proposals behind the interface \<open>storage_db\<close> (locales \<open>staging_store\<close> and \<open>proposal_store\<close>); committing blocks,
    the syncer session and cleaning.
  \<^item> \<open>Mitum_Suffrage\<close>: the suffrages of \<open>launch/process\<close>, which elect the acting nodes and the proposer of a height and a round; their cache is a
    parameter. What an election promises is the locale \<open>electing\<close>, interpreted on the round-robin and on the fixed suffrage.
  \<^item> \<open>Mitum_Policy\<close>: the policy of a node (\<open>isaac/localpolicy.go\<close>), the local node and the node pool (\<open>network/nodepool.go\<close>).
  \<^item> \<open>Mitum_Checkers\<close>: the checks of ballots, proposals, voteproofs and seals (\<open>isaac/*_checker.go\<close>) and the handler of new seals
    (\<open>launch/process/hook_network_handlers.go\<close>) that chains them.
  \<^item> \<open>Mitum_Maker\<close>: the ballots a node builds (\<open>isaac/ballot.go\<close>, \<open>states/basic/ballot.go\<close>), the proposal maker and the extractor of the operations of a
    proposal (\<open>isaac/proposal_maker.go\<close>, \<open>isaac/operation.go\<close>), over the locale \<open>maker_store\<close> that extends \<open>staging_store\<close>.
  \<^item> \<open>Mitum_VoteproofChecker\<close>, \<open>Mitum_States\<close>: the node's states (\<open>states/basic/states.go\<close>) with the checks they make, the switching of states and the loop
    that receives voteproofs and proposals; the states behind the interface \<open>state_if\<close> (locale \<open>keeps_voteproof\<close>), here with the stopped
    and the booting state.
  \<^item> \<open>Mitum_OpProcessor\<close>: the concurrent processor of the operations of a proposal and the two trees it builds (\<open>base/prprocessor/operation.go\<close>); what an
    operation does is a parameter, the interleaving of the jobs a schedule.
  \<^item> \<open>Mitum_Processor\<close>, \<open>Mitum_Processors\<close>: the processor that prepares, saves and cancels a proposal (\<open>isaac/proposal_processor*.go\<close>), and the processors
    of a node with their retries (\<open>base/prprocessor/processors.go\<close>, \<open>util/retry.go\<close>). What the calls keep of a processor is proved once, in the locale
    \<open>step_relation\<close>, and interpreted on three relations.
  \<^item> \<open>Mitum_Timers\<close>: the timers of a node (\<open>util/localtime/timers.go\<close>, \<open>context_timer.go\<close>), with the callback of a timer as a parameter.
  \<^item> \<open>Mitum_Consensus\<close>: the joining and the consensus state (\<open>states/basic/state_joining.go\<close>, \<open>state_consensus*.go\<close>) over these timers and over
    the processors behind the interface \<open>pps_if\<close>, with what a timer does at each interval as a value; a second interpretation of \<open>keeps_voteproof\<close>.
  \<^item> \<open>Spec2Isabelle\<close>: what spans the components, agreement of the ballot boxes of two nodes.

  \<^bold>\<open>Conventions\<close>

  A nil interface or pointer is \<open>None\<close>; a method call or a type assertion on it is \<open>Panic\<close>. An operation that changes state returns the result and
  the new state, also when it fails, so that partial effects stay visible. Errors carry the chain that \<open>errors.Is\<close> walks; the text
  of an error is its format string. Heights are \<open>int\<close> wrapped to 64 bits where the code computes with them, other machine integers are words.
  The order in which Go iterates a map is a parameter; so is the current time. A method that holds its lock throughout is one step.

  \<^bold>\<open>What is shown\<close>

  Counting: the threshold lies between one and the number of voters and two quorums of 67 percent share more than a third of the voters; the
  counting function decides majority, draw and not-yet exactly; in each reachable state of the vote records the result is a majority
  exactly when the threshold of distinct nodes voted for it, and it never changes afterwards. Ballots and voteproofs: what their
  validation enforces and what it leaves open, that signed facts and built ballots validate, and what a fact hash binds. Trees: a generated tree
  validates, its proofs are accepted, and an accepted proof that ends in the root shows a node of the tree. Blocks: the manifest checker accepts
  exactly the linked chains and the last hash binds them. Storage: the staged operations refine an abstract queue, a committed block can be
  read back, a syncer session commits all its blocks, cleaning ends. Suffrage: nodes that agree on
  the previous block elect the same proposer, and every node gets its turn. Seals: the exact condition under which a ballot from the network is
  handed over. Proposals: a new one lists the oldest staged operations that are in no block, and the extractor finds the operations it lists. Node states: the
  last voteproof only moves forward, and where booting leads. Consensus: a draw and a missing proposal lead to the next round, a processed proposal is answered
  with an ACCEPT ballot, an agreed block is saved and followed by an INIT ballot for the next height, and a running timer sends its ballot at each interval. Processing: the operations tree does not depend on the schedule of the jobs; a
  processor only ever holds the block of its proposal, and the block that an ACCEPT voteproof names is the one that the database holds after saving; a
  processor that is not prepared or has saved is not saved; retries end. Where the code does not do what it means to, the theorem states what it does.

  \<^bold>\<open>Bounds and fuel\<close>

  Three loops have no bound in their data and are partial functions, where not returning is \<open>None\<close>: \<open>CleanByHeight\<close> is shown to end on every database that
  holds finitely many keys; \<open>Retry\<close> with a limit is shown to end when its attempts do; the wait for a processor that is still preparing is shown not to
  end when the preparation fails. The loops of the tree are bounded by its length.

  \<^bold>\<open>Not modelled\<close>

  The JSON and BSON forms (third-party encoders; they are the parameter \<open>encoder\<close>, with the value it reads back as hypothesis), the MongoDB driver and
  the block data files (behind the interface \<open>blockdata\<close>), logging and statistics. The syncing and the handover state wait for answers of
  other nodes; they are behind the interface \<open>state_if\<close>. The time that passes between two turns of a timer is left out. The syncers, the QUIC transport, the discovery and the
  launch commands are network input and output; what they call of the checks and of the storage is modelled.
\<close>

section \<open>Agreement of ballot boxes\<close>

text \<open>The boxes reachable by voting, cleaning and emptying, with a suffrage and a threshold that stay the same.\<close>

inductive box_reach :: "lib \<Rightarrow> address list \<Rightarrow> threshold \<Rightarrow> ballotbox \<Rightarrow> bool" for L suf t where
  box_new: "box_reach L suf t NewBallotbox"
| box_vote: "box_reach L suf t bb \<Longrightarrow> \<forall>xs. mset (order xs) = mset xs \<Longrightarrow> Ballotbox_Vote L order now suf t bb blt = Ok (vp, bb') \<Longrightarrow> box_reach L suf t bb'"
| box_clean: "box_reach L suf t bb \<Longrightarrow> box_reach L suf t (snd (Ballotbox_Clean h bb))"
| box_empty: "box_reach L suf t bb \<Longrightarrow> box_reach L suf t (Ballotbox_Empty bb)"

definition voted_by :: "address list \<Rightarrow> vote_records \<Rightarrow> bool" where
  "voted_by suf v \<longleftrightarrow> distinct (map fst (vr_votes v)) \<and> fst ` set (vr_votes v) \<subseteq> ad_s ` set suf"

lemma canVote_node:
  assumes "ballot_vote blt = Some (n, f, h)" and "Ballotbox_canVote L suf blt = Ok ()"
  shows "n \<in> ad_s ` set suf"
proof -
  obtain b where b: "Ballot_Node blt = Some b" "n = ad_s b" using assms(1) by (auto simp: ballot_vote_def split: option.splits)
  obtain a where "a \<in> set suf" "Address_Equal L a (Some b)"
    using assms(2) b(1) by (auto simp: Ballotbox_canVote_def list_ex_iff split: option.splits if_splits)
  then show ?thesis using b(2) by (auto simp: Address_Equal_def split: if_splits intro!: image_eqI [of _ _ a])
qed

lemma vote_voted_by:
  assumes "voted_by suf v" and "VoteRecords_vote L order now v blt = Ok v'" and "Ballotbox_canVote L suf blt = Ok ()"
  shows "voted_by suf v'"
  using assms(2)
proof (cases rule: VoteRecords_vote_cases)
  case (dup n f h)
  then show ?thesis using assms(1) by (simp add: voted_by_def)
next
  case (closing n f h)
  have "n \<in> ad_s ` set suf" by (rule canVote_node [OF closing(1) assms(3)])
  with closing assms(1) show ?thesis by (auto simp: voted_by_def add_vote_fields map_of_eq_None_iff image_iff)
next
  case (counted n f h w)
  have "n \<in> ad_s ` set suf" by (rule canVote_node [OF counted(1) assms(3)])
  with counted assms(1) show ?thesis by (auto simp: voted_by_def add_vote_fields map_of_eq_None_iff image_iff)
qed

lemma clean_lookup: "map_of (bb_vrs (snd (Ballotbox_Clean h bb))) k = Some v \<Longrightarrow> map_of (bb_vrs bb) k = Some v"
  by (auto simp: Ballotbox_Clean_def map_of_filter_keys split: res.splits if_splits)

lemma box_records:
  assumes "box_reach L suf t bb" and "map_of (bb_vrs bb) k = Some v"
  shows "(\<exists>h r st. vr_reach L (NewVoteRecords h r st suf t) v) \<and> voted_by suf v"
  using assms
proof (induction arbitrary: k v rule: box_reach.induct)
  case box_new
  then show ?case by (simp add: NewBallotbox_def)
next
  case (box_vote bb order now blt vp bb')
  obtain f w w' where w: "Ballotbox_canVote L suf blt = Ok ()"
    "w = (case map_of (bb_vrs bb) (vrsKey f) of Some v \<Rightarrow> v | None \<Rightarrow> NewVoteRecords (Fact_Height f) (Fact_Round f) (Fact_Stage f) suf t)"
    "VoteRecords_vote L order now w blt = Ok w'" "map_of (bb_vrs bb') = (map_of (bb_vrs bb))(vrsKey f \<mapsto> w')"
    using Ballotbox_Vote_Ok [OF box_vote.hyps(3)] by metis
  have "(\<exists>h r st. vr_reach L (NewVoteRecords h r st suf t) w) \<and> voted_by suf w"
  proof (cases "map_of (bb_vrs bb) (vrsKey f)")
    case None
    then have "w = NewVoteRecords (Fact_Height f) (Fact_Round f) (Fact_Stage f) suf t" using w(2) by simp
    moreover have "voted_by suf (NewVoteRecords h r st suf t)" for h r st by (simp add: voted_by_def NewVoteRecords_def)
    ultimately show ?thesis using vr_start by blast
  next
    case (Some a)
    with box_vote.IH w(2) show ?thesis by simp
  qed
  then have "(\<exists>h r st. vr_reach L (NewVoteRecords h r st suf t) w') \<and> voted_by suf w'"
    using vr_step [OF _ box_vote.hyps(2) w(3)] vote_voted_by [OF _ w(3,1)] by blast
  with box_vote.IH box_vote.prems w(4) show ?case by (auto split: if_splits)
next
  case (box_clean bb h)
  then show ?case using clean_lookup by blast
next
  case (box_empty bb)
  then show ?case by (simp add: Ballotbox_Empty_def)
qed

lemma box_majority:
  assumes "box_reach L suf t bb" and "map_of (bb_vrs bb) k = Some v"
    and "NewThreshold (of_nat (length suf)) ratio = Ok t" and "67 \<le> ratio" and "length suf \<le> 2 ^ 53"
    and "vp_result (vr_voteproof v) = VoteResultMajority" and "vp_majority (vr_voteproof v) = Some m" and "Fact_Hash m = Some mh"
  shows "unat (thr_Threshold t) \<le> card (voters_for L v (Hash_String L mh))" and "voters_for L v (Hash_String L mh) \<subseteq> ad_s ` set suf"
proof -
  obtain h r st where r: "vr_reach L (NewVoteRecords h r st suf t) v" and b: "voted_by suf v" using box_records [OF assms(1,2)] by blast
  have l: "(of_nat (length suf) :: u64) \<le> 2 ^ 53" "unat (of_nat (length suf) :: u64) = length suf"
    using assms(5) by (simp_all add: word_le_nat_alt unat_of_nat)
  note t = NewThreshold_super [OF assms(3,4) l(1)]
  have ok: "thr_ok t" using t(2,4,5) by (simp add: thr_ok_def)
  have "length (vr_votes v) = card (fst ` set (vr_votes v))" using b by (metis voted_by_def distinct_card length_map set_map)
  also have "\<dots> \<le> card (ad_s ` set suf)" using b by (intro card_mono) (auto simp: voted_by_def)
  also have "\<dots> \<le> length suf" by (meson card_image_le card_length finite_set le_trans)
  finally have "length (vr_votes v) \<le> unat (thr_Total t)" using t(2) l(2) by simp
  moreover have "unat (thr_Total t) < 2 ^ 63" using t(2) l(2) assms(5) by simp
  ultimately show "unat (thr_Threshold t) \<le> card (voters_for L v (Hash_String L mh))"
    using reach_majority_iff [OF r ok] assms(6-8) by blast
  show "voters_for L v (Hash_String L mh) \<subseteq> ad_s ` set suf"
    using b by (auto simp: voters_for_def voted_by_def dest!: map_of_SomeD)
qed

text \<open>
  C1: two nodes do not decide differently. When the ballot boxes of two nodes with the same suffrage and a ratio of at least 67 percent both count a
  majority at a point, whatever ballots they received and in whatever order, and at most a third of the suffrage nodes voted differently
  in the two boxes, then both majorities are for the same fact.
\<close>

theorem ballotbox_agreement:
  assumes "box_reach L suf t A" and "box_reach L suf t B" and "base58_codec L"
    and "NewThreshold (of_nat (length suf)) ratio = Ok t" and "67 \<le> ratio" and "length suf \<le> 2 ^ 53" and "distinct (map ad_s suf)"
    and "map_of (bb_vrs A) k = Some va" and "map_of (bb_vrs B) k = Some vb"
    and "vp_result (vr_voteproof va) = VoteResultMajority" and "vp_majority (vr_voteproof va) = Some m" and "Fact_Hash m = Some mh"
    and "vp_result (vr_voteproof vb) = VoteResultMajority" and "vp_majority (vr_voteproof vb) = Some m'" and "Fact_Hash m' = Some mh'"
    and "3 * card {n. \<exists>x y. map_of (vr_votes va) n = Some x \<and> map_of (vr_votes vb) n = Some y \<and> \<not> Hash_Equal x y} \<le> length suf"
  shows "Hash_Equal mh mh'"
proof (rule ccontr)
  assume n: "\<not> Hash_Equal mh mh'"
  let ?A = "voters_for L va (Hash_String L mh)" and ?B = "voters_for L vb (Hash_String L mh')" and ?N = "ad_s ` set suf"
  let ?E = "{n. \<exists>x y. map_of (vr_votes va) n = Some x \<and> map_of (vr_votes vb) n = Some y \<and> \<not> Hash_Equal x y}"
  have l: "(of_nat (length suf) :: u64) \<le> 2 ^ 53" "card ?N = unat (of_nat (length suf) :: u64)"
    using assms(6,7) by (simp_all add: word_le_nat_alt unat_of_nat distinct_map card_image distinct_card)
  note a = box_majority [OF assms(1,8,4,5,6,10-12)] and b = box_majority [OF assms(2,9,4,5,6,13-15)]
  have "card ?N < 3 * card (?A \<inter> ?B)"
    by (rule NewThreshold_quorum [OF assms(4,5) l(1) _ l(2) a(2) b(2) a(1) b(1)]) simp
  moreover have "?A \<inter> ?B \<subseteq> ?E" using n Hash_String_inject [OF assms(3)] by (auto simp: voters_for_def Hash_Equal_def)
  moreover have "finite ?E" by (rule finite_subset [of _ "dom (map_of (vr_votes va))"]) (auto simp: finite_dom_map_of)
  ultimately have "card ?N < 3 * card ?E" by (meson card_mono le_trans linorder_not_le mult_le_mono2)
  with assms(16) l(2) show False using assms(6) by (simp add: unat_of_nat)
qed


text \<open>Three of four nodes make a majority in one box; in the other one of them votes differently.\<close>

definition box_suf :: "address list" where
  "box_suf = map NewStringAddress [''node0'', ''node1'', ''node2'', ''node3'']"

fun run_box :: "ballotbox \<Rightarrow> (string \<times> byte) list \<Rightarrow> ballotbox res" where
  "run_box bb [] = Ok bb"
| "run_box bb ((n, x) # vs) = bind_res (Ballotbox_Vote sample_lib (\<lambda>xs. xs) 7 box_suf vote_thr bb (vote_ballot n x)) (\<lambda>(_, bb). run_box bb vs)"

definition box_votes :: "ballotbox \<Rightarrow> (string \<times> byte) list \<Rightarrow> vote_records \<Rightarrow> bool" where
  "box_votes bb vs v \<longleftrightarrow> run_box NewBallotbox vs = Ok bb \<and> map_of (bb_vrs bb) (vrsKey_of 33 0 StageACCEPT) = Some v \<and>
     vp_result (vr_voteproof v) = VoteResultMajority \<and> vp_majority (vr_voteproof v) = Some (vote_fact 1) \<and>
     vr_votes v = map (\<lambda>(n, x). (ad_s (NewStringAddress n), HBytes [x])) vs"

definition box_check :: "(string \<times> byte) list \<Rightarrow> bool" where
  "box_check vs \<longleftrightarrow> (case run_box NewBallotbox vs of
     Ok bb \<Rightarrow> (case map_of (bb_vrs bb) (vrsKey_of 33 0 StageACCEPT) of
       Some v \<Rightarrow> vp_result (vr_voteproof v) = VoteResultMajority \<and> vp_majority (vr_voteproof v) = Some (vote_fact 1) \<and>
         vr_votes v = map (\<lambda>(n, x). (ad_s (NewStringAddress n), HBytes [x])) vs
     | None \<Rightarrow> False) | _ \<Rightarrow> False)"

lemma box_check_votes: "box_check vs \<Longrightarrow> \<exists>bb v. box_votes bb vs v"
  by (auto simp: box_check_def box_votes_def split: res.splits option.splits)

lemma run_box_reach:
  "box_reach sample_lib box_suf vote_thr bb \<Longrightarrow> run_box bb vs = Ok bb' \<Longrightarrow> box_reach sample_lib box_suf vote_thr bb'"
proof (induction bb vs arbitrary: bb' rule: run_box.induct)
  case (2 bb n x vs)
  then obtain vp b where b: "Ballotbox_Vote sample_lib (\<lambda>xs. xs) 7 box_suf vote_thr bb (vote_ballot n x) = Ok (vp, b)" "run_box b vs = Ok bb'"
    by (auto simp: bind_res_Ok_iff)
  from box_vote [OF 2(2) _ b(1)] show ?case using 2(1) b by simp
qed simp

theorem ballotbox_agreement_witness:
  "\<exists>A B va vb. box_votes A [(''node0'', 1), (''node1'', 1), (''node2'', 1)] va \<and>
     box_votes B [(''node0'', 2), (''node1'', 1), (''node2'', 1), (''node3'', 1)] vb \<and> Hash_Equal (HBytes [1]) (HBytes [1])"
proof -
  have "box_check [(''node0'', 1), (''node1'', 1), (''node2'', 1)]" by code_simp
  moreover have "box_check [(''node0'', 2), (''node1'', 1), (''node2'', 1), (''node3'', 1)]" by code_simp
  ultimately obtain A B va vb where a: "box_votes A [(''node0'', 1), (''node1'', 1), (''node2'', 1)] va"
    and b: "box_votes B [(''node0'', 2), (''node1'', 1), (''node2'', 1), (''node3'', 1)] vb" using box_check_votes by metis
  have r: "box_reach sample_lib box_suf vote_thr A" "box_reach sample_lib box_suf vote_thr B"
    using a b run_box_reach [OF box_new] unfolding box_votes_def by blast+
  have f: "Fact_Hash (vote_fact 1) = Some (HBytes [1])" by code_simp
  have t: "NewThreshold (of_nat (length box_suf)) 67 = Ok vote_thr" by code_simp
  have d: "length box_suf = 4" "distinct (map ad_s box_suf)" by code_simp+
  let ?E = "{n. \<exists>x y. map_of (vr_votes va) n = Some x \<and> map_of (vr_votes vb) n = Some y \<and> \<not> Hash_Equal x y}"
  have "vr_votes va = map (\<lambda>(n, x). (ad_s (NewStringAddress n), HBytes [x])) [(''node0'', 1), (''node1'', 1), (''node2'', 1)]"
    "vr_votes vb = map (\<lambda>(n, x). (ad_s (NewStringAddress n), HBytes [x])) [(''node0'', 2), (''node1'', 1), (''node2'', 1), (''node3'', 1)]"
    using a b unfolding box_votes_def by blast+
  then have "?E \<subseteq> {ad_s (NewStringAddress ''node0'')}" by (auto simp: Hash_Equal_def split: if_splits)
  then have "card ?E \<le> card {ad_s (NewStringAddress ''node0'')}" by (rule card_mono [rotated]) simp
  then have e: "3 * card ?E \<le> length box_suf" using d(1) by simp
  have l: "length box_suf \<le> 2 ^ 53" "(67 :: ratio) \<le> 67" using d(1) by simp_all
  have "Hash_Equal (HBytes [1]) (HBytes [1])"
    by (rule ballotbox_agreement [OF r sample_base58_codec t l(2,1) d(2) _ _ _ _ f _ _ f e]) (use a b in \<open>auto simp: box_votes_def\<close>)
  then show ?thesis using a b by blast
qed

end
